(* ===== verification/Prelude.thy ===== *)
theory Prelude
  imports Main "HOL-Library.Sublist"
begin

text \<open>
  Shared vocabulary of the development: the error codes the control plane throws,
  the JSON values that are read from and written to files, and the generic lemmas on
  lists and option values that several components use.

  Strings are HOL strings; a character stands for one code unit of the JavaScript
  string. Instants and durations are integers (milliseconds since the epoch).
\<close>

named_theorems store_simps \<open>lookup-after-update equations of the key-value stores\<close>
named_theorems machine_intros \<open>one-step preservation facts of the state machines\<close>

subsection \<open>Error codes\<close>

text \<open>The codes of \<open>controlError(code, message)\<close>; messages are not modelled.\<close>

datatype control_error =
    InvalidInput
  | NotFound
  | Conflict
  | RecoveryRequired
  | InvalidTransition
  | Unavailable
  | Unauthorized
  | Forbidden
  | ReauthRequired
  | OwnerCredentialRequired
  | ConstraintFailed \<comment> \<open>a constraint or a trigger of the database aborts the statement\<close>
  | IoFailure \<comment> \<open>an error of the file system that the code lets through\<close>

subsection \<open>JSON values\<close>

text \<open>
  A parsed JSON document. An object is the list of its entries in the order in which
  \<open>Object.entries\<close> reports them.
\<close>

datatype json =
    JNull
  | JBool bool
  | JNum int
  | JStr string
  | JArr "json list"
  | JObj "(string \<times> json) list"

fun json_field :: "json \<Rightarrow> string \<Rightarrow> json option" where
  "json_field (JObj kvs) k = map_of kvs k"
| "json_field _ k = None"

fun json_num :: "json option \<Rightarrow> int option" where
  "json_num (Some (JNum n)) = Some n"
| "json_num _ = None"

fun json_str :: "json option \<Rightarrow> string option" where
  "json_str (Some (JStr s)) = Some s"
| "json_str _ = None"

text \<open>An entry that a spread such as \<open>...(x !== undefined ? {k: x} : {})\<close> adds.\<close>

definition opt_entry :: "string \<Rightarrow> ('a \<Rightarrow> json) \<Rightarrow> 'a option \<Rightarrow> (string \<times> json) list" where
  "opt_entry k f x = (case x of None \<Rightarrow> [] | Some v \<Rightarrow> [(k, f v)])"

lemma opt_entry_simps [simp]:
  "opt_entry k f None = []"
  "opt_entry k f (Some v) = [(k, f v)]"
  by (simp_all add: opt_entry_def)

lemma map_of_opt_entry [simp]:
  "map_of (opt_entry k f x @ kvs) k' =
     (if k' = k \<and> x \<noteq> None then Some (f (the x)) else map_of kvs k')"
  by (cases x) auto

text \<open>\<open>String(n)\<close> of an integer.\<close>

definition digit_char :: "nat \<Rightarrow> char" where
  "digit_char n = char_of ((48 :: nat) + n)"

fun decimal :: "nat \<Rightarrow> string" where
  "decimal n = (if n < 10 then [digit_char n] else decimal (n div 10) @ [digit_char (n mod 10)])"

declare decimal.simps [simp del]

definition number_text :: "int \<Rightarrow> string" where
  "number_text n = (if n < 0 then CHR ''-'' # decimal (nat (- n)) else decimal (nat n))"

text \<open>\<open>Object.entries\<close>: an array has its indices as keys, other values no entries.\<close>

fun object_entries :: "json \<Rightarrow> (string \<times> json) list" where
  "object_entries (JObj kvs) = kvs"
| "object_entries (JArr xs) = zip (map (\<lambda>i. number_text (int i)) [0..<length xs]) xs"
| "object_entries _ = []"

text \<open>A field that is neither absent nor null.\<close>

fun json_present :: "json option \<Rightarrow> json option" where
  "json_present (Some JNull) = None"
| "json_present x = x"

text \<open>What reading and parsing a file gives: no file, an error or text that is no JSON, a value.\<close>

datatype file_read = FMissing | FFailed | FJson json

text \<open>\<open>toLowerCase\<close> on ASCII and \<open>trim\<close> on the one-byte white space.\<close>

definition lower_char :: "char \<Rightarrow> char" where
  "lower_char c = (let n = of_char c :: nat in if 65 \<le> n \<and> n \<le> 90 then char_of (n + 32) else c)"

definition lower :: "string \<Rightarrow> string" where
  "lower s = map lower_char s"

definition is_space_char :: "char \<Rightarrow> bool" where
  "is_space_char c \<longleftrightarrow> (let n = of_char c :: nat in n = 32 \<or> (9 \<le> n \<and> n \<le> 13) \<or> n = 160)"

definition trim :: "string \<Rightarrow> string" where
  "trim s = rev (dropWhile is_space_char (rev (dropWhile is_space_char s)))"

subsection \<open>Option values\<close>

text \<open>The operator \<open>??\<close>.\<close>

fun nullish :: "'a option \<Rightarrow> 'a \<Rightarrow> 'a" where
  "nullish (Some x) d = x"
| "nullish None d = d"

text \<open>A string that JavaScript takes for false is absent or empty.\<close>

definition truthy :: "string option \<Rightarrow> bool" where
  "truthy s \<longleftrightarrow> s \<noteq> None \<and> s \<noteq> Some []"

lemma truthy_simps [simp]:
  "\<not> truthy None"
  "truthy (Some s) \<longleftrightarrow> s \<noteq> []"
  by (simp_all add: truthy_def)

lemma map_sum_id_eq [simp]:
  "map_sum id f x = Inr y \<longleftrightarrow> (\<exists>z. x = Inr z \<and> y = f z)"
  "map_sum id f x = Inl e \<longleftrightarrow> x = Inl e"
  by (cases x; auto)+

subsection \<open>Lists\<close>

lemma find_eq_Some_iff:
  "find P xs = Some x \<longleftrightarrow> (\<exists>i < length xs. P (xs ! i) \<and> x = xs ! i \<and> (\<forall>j < i. \<not> P (xs ! j)))"
  by (rule find_Some_iff)

lemma find_SomeD: "find P xs = Some x \<Longrightarrow> P x \<and> x \<in> set xs"
  by (induction xs) (auto split: if_splits)

lemma find_NoneD: "find P xs = None \<Longrightarrow> x \<in> set xs \<Longrightarrow> \<not> P x"
  by (simp add: find_None_iff)

lemma find_append: "find P (xs @ ys) = (case find P xs of None \<Rightarrow> find P ys | Some x \<Rightarrow> Some x)"
  by (induction xs) auto

lemma find_map: "find P (map f xs) = map_option f (find (P \<circ> f) xs)"
  by (induction xs) auto

lemma filter_length_le_length: "length (filter P xs) \<le> length xs"
  by (rule length_filter_le)

lemma sum_list_filter_le: "sum_list (map f (filter P xs)) \<le> sum_list (map f xs)" for f :: "'a \<Rightarrow> nat"
  by (induction xs) auto

subsection \<open>State machines\<close>

text \<open>
  What the components' step relations have in common: an invariant that one step keeps
  holds in every state that steps can reach.
\<close>

locale machine =
  fixes step :: "'s \<Rightarrow> 's \<Rightarrow> bool"
    and inv :: "'s \<Rightarrow> bool"
  assumes step_inv: "step s t \<Longrightarrow> inv s \<Longrightarrow> inv t"
begin

lemma reachable_inv: "step\<^sup>*\<^sup>* s t \<Longrightarrow> inv s \<Longrightarrow> inv t"
  by (induction rule: rtranclp_induct) (auto intro: step_inv)

lemma reachable_rel:
  assumes "step\<^sup>*\<^sup>* s t" "inv s" "\<And>x. R x x" "\<And>x y z. R x y \<Longrightarrow> R y z \<Longrightarrow> R x z"
    and "\<And>x y. step x y \<Longrightarrow> inv x \<Longrightarrow> R x y"
  shows "R s t"
  using assms(1)
proof (induction rule: rtranclp_induct)
  case (step y z)
  with assms(2,4,5) reachable_inv show ?case by blast
qed (rule assms(3))

end

end
