(* ===== verification/JsMap.thy ===== *)
theory JsMap
  imports Prelude
begin

text \<open>
  The JavaScript \<open>Map\<close>: an association list in insertion order. Storing under a key
  that is present keeps its place, a new key goes to the end, deleting keeps the order
  of the rest. The locale \<open>key_store\<close> is what the components rely on when they use such
  a map only through its keys; it is interpreted on the model of \<open>Map\<close> here and on other
  stores by the components that provide them.
\<close>

type_synonym ('k, 'v) jsmap = "('k \<times> 'v) list"

definition jm_get :: "('k, 'v) jsmap \<Rightarrow> 'k \<Rightarrow> 'v option" where
  "jm_get m k = map_of m k"

definition jm_has :: "('k, 'v) jsmap \<Rightarrow> 'k \<Rightarrow> bool" where
  "jm_has m k \<longleftrightarrow> k \<in> set (map fst m)"

definition jm_set :: "'k \<Rightarrow> 'v \<Rightarrow> ('k, 'v) jsmap \<Rightarrow> ('k, 'v) jsmap" where
  "jm_set k v m =
     (if jm_has m k then map (\<lambda>(k', v'). if k' = k then (k', v) else (k', v')) m
      else m @ [(k, v)])"

definition jm_delete :: "'k \<Rightarrow> ('k, 'v) jsmap \<Rightarrow> ('k, 'v) jsmap" where
  "jm_delete k m = filter (\<lambda>(k', _). k' \<noteq> k) m"

definition jm_keys :: "('k, 'v) jsmap \<Rightarrow> 'k list" where
  "jm_keys m = map fst m"

text \<open>A map never lists a key twice.\<close>

definition jm_ok :: "('k, 'v) jsmap \<Rightarrow> bool" where
  "jm_ok m \<longleftrightarrow> distinct (map fst m)"

subsection \<open>The interface\<close>

locale key_store =
  fixes kget :: "'m \<Rightarrow> 'k \<Rightarrow> 'v option"
    and kset :: "'k \<Rightarrow> 'v \<Rightarrow> 'm \<Rightarrow> 'm"
    and kdel :: "'k \<Rightarrow> 'm \<Rightarrow> 'm"
  assumes get_set: "kget (kset k v m) k' = (if k' = k then Some v else kget m k')"
    and get_del: "kget (kdel k m) k' = (if k' = k then None else kget m k')"
begin

lemma get_set_same: "kget (kset k v m) k = Some v"
  by (simp add: get_set)

lemma get_set_other: "k' \<noteq> k \<Longrightarrow> kget (kset k v m) k' = kget m k'"
  by (simp add: get_set)

lemma get_del_same: "kget (kdel k m) k = None"
  by (simp add: get_del)

lemma get_del_other: "k' \<noteq> k \<Longrightarrow> kget (kdel k m) k' = kget m k'"
  by (simp add: get_del)

lemma get_fold_del: "kget (fold kdel ks m) k = (if k \<in> set ks then None else kget m k)"
  by (induction ks arbitrary: m) (auto simp: get_del)

lemma get_fold_set:
  "distinct (map fst kvs) \<Longrightarrow>
   kget (fold (\<lambda>(k, v). kset k v) kvs m) k = (case map_of kvs k of None \<Rightarrow> kget m k | Some v \<Rightarrow> Some v)"
proof (induction kvs arbitrary: m)
  case (Cons kv kvs)
  then have "map_of kvs (fst kv) = None" by (simp add: map_of_eq_None_iff)
  with Cons show ?case by (cases kv) (auto simp: get_set split: option.split)
qed simp

text \<open>
  Bringing a store to a wanted content: delete the keys that are not wanted, then store
  the wanted entries that differ. What happens in between may not change the content.
\<close>

lemma reconcile:
  assumes before: "\<And>k. kget m k = map_of before k" and dist: "distinct (map fst wanted)"
    and mid: "\<And>k. kget m' k = kget (fold kdel (filter (\<lambda>k. \<not> jm_has wanted k) (map fst before)) m) k"
  shows "kget (fold (\<lambda>(k, v). kset k v) (filter (\<lambda>(k, v). map_of before k \<noteq> Some v) wanted) m') k
    = map_of wanted k"
proof -
  let ?fresh = "filter (\<lambda>(k, v). map_of before k \<noteq> Some v) wanted"
  have d: "distinct (map fst ?fresh)" using dist by (rule distinct_map_filter)
  have mem: "map_of ?fresh k = Some v \<longleftrightarrow> map_of wanted k = Some v \<and> map_of before k \<noteq> Some v" for v
    using d dist by (simp add: map_of_eq_Some_iff)
  show ?thesis
  proof (cases "map_of wanted k")
    case None
    have fresh: "map_of ?fresh k = None" using None mem by (cases "map_of ?fresh k") auto
    from None have "\<not> jm_has wanted k" by (simp add: jm_has_def map_of_eq_None_iff)
    then have "kget m' k = None" by (auto simp: mid get_fold_del before map_of_eq_None_iff)
    with fresh None d show ?thesis by (simp only: get_fold_set option.simps)
  next
    case (Some v)
    then have has: "jm_has wanted k" by (metis jm_has_def map_of_eq_None_iff option.distinct(1) set_map)
    show ?thesis
    proof (cases "map_of before k = Some v")
      case True
      with Some mem have "map_of ?fresh k = None" by (cases "map_of ?fresh k") auto
      with d has Some True show ?thesis by (simp add: get_fold_set mid get_fold_del before)
    next
      case False
      with Some mem have "map_of ?fresh k = Some v" by simp
      with d Some show ?thesis by (simp add: get_fold_set)
    qed
  qed
qed

lemma set_keeps_others:
  assumes "\<And>k' v'. kget m k' = Some v' \<Longrightarrow> P k' v'" and "P k v"
    and "kget (kset k v m) k' = Some v'"
  shows "P k' v'"
  using assms by (auto simp: get_set split: if_splits)

lemma del_keeps_others:
  assumes "\<And>k' v'. kget m k' = Some v' \<Longrightarrow> P k' v'"
    and "kget (kdel k m) k' = Some v'"
  shows "P k' v'"
  using assms by (auto simp: get_del split: if_splits)

end

subsection \<open>The model of \<open>Map\<close> satisfies it\<close>

lemma map_of_replace:
  "map_of (map (\<lambda>(k', v'). if k' = k then (k', v) else (k', v')) m) k' =
     (if k' = k then (case map_of m k of None \<Rightarrow> None | Some _ \<Rightarrow> Some v) else map_of m k')"
  by (induction m) auto

lemma jm_has_iff: "jm_has m k \<longleftrightarrow> jm_get m k \<noteq> None"
  by (simp add: jm_has_def jm_get_def map_of_eq_None_iff)

lemma jm_get_set: "jm_get (jm_set k v m) k' = (if k' = k then Some v else jm_get m k')"
proof (cases "jm_has m k")
  case True
  then obtain w where "map_of m k = Some w" by (auto simp: jm_has_iff jm_get_def)
  with True show ?thesis by (simp add: jm_set_def jm_get_def map_of_replace)
next
  case False
  then have "map_of m k = None" by (simp add: jm_has_iff jm_get_def)
  with False show ?thesis
    by (auto simp: jm_set_def jm_get_def map_add_def split: option.splits)
qed

lemma map_of_filter_key:
  "map_of (filter (\<lambda>(k', _). k' \<noteq> k) m) k' = (if k' = k then None else map_of m k')"
  by (induction m) auto

lemma jm_get_delete: "jm_get (jm_delete k m) k' = (if k' = k then None else jm_get m k')"
  by (simp add: jm_get_def jm_delete_def map_of_filter_key)

interpretation js: key_store jm_get jm_set jm_delete
  by unfold_locales (simp_all add: jm_get_set jm_get_delete)

lemmas jm_lookup [store_simps] = jm_get_set jm_get_delete

lemma jm_get_Nil [simp]: "jm_get [] k = None"
  by (simp add: jm_get_def)

subsection \<open>Order and size\<close>

lemma keys_replace [simp]:
  "map fst (map (\<lambda>(k', v'). if k' = k then (k', v) else (k', v')) m) = map fst m"
  by (induction m) auto

lemma jm_keys_set:
  "jm_keys (jm_set k v m) = (if jm_has m k then jm_keys m else jm_keys m @ [k])"
  unfolding jm_keys_def jm_set_def by (simp only: keys_replace map_append list.map fst_conv split: if_splits) simp

lemma jm_keys_delete: "jm_keys (jm_delete k m) = filter (\<lambda>k'. k' \<noteq> k) (jm_keys m)"
  by (induction m) (auto simp: jm_keys_def jm_delete_def)

lemma jm_has_keys: "jm_has m k \<longleftrightarrow> k \<in> set (jm_keys m)"
  by (simp add: jm_has_def jm_keys_def)

lemma jm_get_None_iff: "jm_get m k = None \<longleftrightarrow> k \<notin> set (jm_keys m)"
  by (simp add: jm_get_def jm_keys_def map_of_eq_None_iff)

lemma jm_has_update:
  "jm_has (jm_set k v m) k' \<longleftrightarrow> k' = k \<or> jm_has m k'"
  "jm_has (jm_delete k m) k' \<longleftrightarrow> k' \<noteq> k \<and> jm_has m k'"
  by (auto simp: jm_has_keys jm_keys_set jm_keys_delete)

lemma jm_ok_Nil [simp]: "jm_ok []"
  by (simp add: jm_ok_def)

lemma jm_ok_set [simp]: "jm_ok m \<Longrightarrow> jm_ok (jm_set k v m)"
  using jm_keys_set [of k v m] by (auto simp: jm_ok_def jm_keys_def jm_has_def)

lemma jm_ok_delete [simp]: "jm_ok m \<Longrightarrow> jm_ok (jm_delete k m)"
  using jm_keys_delete [of k m] by (simp add: jm_ok_def jm_keys_def)

lemma jm_set_fresh: "\<not> jm_has m k \<Longrightarrow> jm_set k v m = m @ [(k, v)]"
  by (simp add: jm_set_def)

lemma jm_get_in_set: "jm_get m k = Some v \<Longrightarrow> (k, v) \<in> set m"
  by (simp add: jm_get_def map_of_SomeD)

lemma jm_card_keys: "jm_ok m \<Longrightarrow> card (set (jm_keys m)) = length m"
  using distinct_card [of "map fst m"] by (simp add: jm_ok_def jm_keys_def)

lemma jm_in_set_get: "jm_ok m \<Longrightarrow> (k, v) \<in> set m \<Longrightarrow> jm_get m k = Some v"
  by (simp add: jm_get_def jm_ok_def)

text \<open>The values a map holds.\<close>

definition jm_vals :: "('k, 'v) jsmap \<Rightarrow> 'v set" where
  "jm_vals m = snd ` set m"

lemma jm_vals_simps [simp]:
  "jm_vals [] = {}"
  "jm_vals ((k, v) # m) = insert v (jm_vals m)"
  "jm_vals (m @ m') = jm_vals m \<union> jm_vals m'"
  by (auto simp: jm_vals_def)

lemma jm_vals_set: "x \<in> jm_vals (jm_set k v m) \<Longrightarrow> x = v \<or> x \<in> jm_vals m"
  by (force simp: jm_vals_def jm_set_def split: if_splits)

lemma jm_vals_delete: "x \<in> jm_vals (jm_delete k m) \<Longrightarrow> x \<in> jm_vals m"
  by (auto simp: jm_vals_def jm_delete_def)

end
