(* ===== verification/ApprovalDefaults.thy ===== *)
theory ApprovalDefaults
  imports JsMap
begin

text \<open>
  The approval defaults of packages/permissions/src/approvalDefaults.ts: the level a chat
  gets when no chat above it made a choice. Each Space has a level and each project may
  have its own; they live in one JSON file per Space, cached in memory.
\<close>

section \<open>Levels and their file format\<close>

datatype approval_level = LevelOff | LevelRoutine | LevelAll

definition is_approval_level :: "json \<Rightarrow> bool" where
  "is_approval_level v \<longleftrightarrow> v = JStr ''off'' \<or> v = JStr ''routine'' \<or> v = JStr ''all''"

text \<open>The level that a value accepted by \<open>is_approval_level\<close> is.\<close>

definition as_level :: "json \<Rightarrow> approval_level" where
  "as_level v = (if v = JStr ''all'' then LevelAll
                 else if v = JStr ''routine'' then LevelRoutine else LevelOff)"

definition level_json :: "approval_level \<Rightarrow> json" where
  "level_json l = JStr (case l of LevelOff \<Rightarrow> ''off'' | LevelRoutine \<Rightarrow> ''routine'' | LevelAll \<Rightarrow> ''all'')"

definition approval_level_rank :: "approval_level \<Rightarrow> nat" where
  "approval_level_rank l = (if l = LevelAll then 2 else if l = LevelRoutine then 1 else 0)"

record approval_default =
  ad_level :: approval_level
  ad_changed_at :: "int option"
  ad_changed_by :: "string option"

record defaults_state = approval_default +
  ad_projects :: "(string, approval_default) jsmap"

definition OFF :: defaults_state where
  "OFF = \<lparr>ad_level = LevelOff, ad_changed_at = None, ad_changed_by = None, ad_projects = []\<rparr>"

fun parse_default :: "json \<Rightarrow> approval_default option" where
  "parse_default (JObj kvs) =
     (case map_of kvs ''level'' of
        None \<Rightarrow> None
      | Some v \<Rightarrow>
          if \<not> is_approval_level v then None
          else Some \<lparr>ad_level = as_level v,
                     ad_changed_at = json_num (map_of kvs ''changedAt''),
                     ad_changed_by = json_str (map_of kvs ''changedBy'')\<rparr>)"
| "parse_default _ = None"

fun parse_projects :: "(string \<times> json) list \<Rightarrow> (string, approval_default) jsmap
    \<Rightarrow> (string, approval_default) jsmap" where
  "parse_projects [] m = m"
| "parse_projects ((p, v) # rest) m =
     parse_projects rest
       (jm_set p (nullish (parse_default v)
          \<lparr>ad_level = LevelOff, ad_changed_at = None, ad_changed_by = None\<rparr>) m)"

fun parse_approval_defaults :: "json \<Rightarrow> defaults_state" where
  "parse_approval_defaults (JObj kvs) =
     (if map_of kvs ''level'' = None then
        (if map_of kvs ''enabled'' \<noteq> Some (JBool True) then OFF
         else \<lparr>ad_level = LevelAll,
               ad_changed_at = json_num (map_of kvs ''enabledAt''),
               ad_changed_by = json_str (map_of kvs ''enabledBy''),
               ad_projects = []\<rparr>)
      else
        (case parse_default (JObj kvs) of
           None \<Rightarrow> OFF
         | Some sp \<Rightarrow>
             \<lparr>ad_level = ad_level sp, ad_changed_at = ad_changed_at sp,
              ad_changed_by = ad_changed_by sp,
              ad_projects = (case map_of kvs ''projects'' of
                               Some (JObj ps) \<Rightarrow> parse_projects ps []
                             | _ \<Rightarrow> [])\<rparr>))"
| "parse_approval_defaults _ = OFF"

definition legacy_full_access :: "defaults_state \<Rightarrow> bool" where
  "legacy_full_access st \<longleftrightarrow>
     ad_level st = LevelAll \<and> list_all (\<lambda>(_, e). ad_level e = LevelAll) (ad_projects st)"

definition default_json :: "approval_default \<Rightarrow> json" where
  "default_json e =
     JObj ((''level'', level_json (ad_level e))
       # opt_entry ''changedAt'' JNum (ad_changed_at e)
       @ opt_entry ''changedBy'' JStr (ad_changed_by e))"

definition serialize :: "defaults_state \<Rightarrow> json" where
  "serialize st =
     (let legacy = legacy_full_access st in
      JObj ((''enabled'', JBool legacy)
        # (if legacy then opt_entry ''enabledAt'' JNum (ad_changed_at st) else [])
        @ (if legacy then opt_entry ''enabledBy'' JStr (ad_changed_by st) else [])
        @ (''level'', level_json (ad_level st))
        # opt_entry ''changedAt'' JNum (ad_changed_at st)
        @ opt_entry ''changedBy'' JStr (ad_changed_by st)
        @ [(''projects'', JObj (map (\<lambda>(p, e). (p, default_json e)) (ad_projects st)))]))"

section \<open>The service\<close>

text \<open>
  What reading a file gives: no file, an error (of the file system or of \<open>JSON.parse\<close>), or
  a document. \<open>file_of\<close> maps a Space to its file; \<open>disk_ok\<close> says whether creating the
  directory and writing the file succeed.
\<close>

record approval_service =
  as_cache :: "(string, defaults_state) jsmap"
  as_files :: "string \<Rightarrow> file_read"
  as_listeners :: "nat list"
  as_fired :: "(nat \<times> string) list"

text \<open>\<open>load\<close>: \<open>None\<close> where it throws.\<close>

definition ad_load :: "(string \<Rightarrow> string option) \<Rightarrow> string \<Rightarrow> approval_service
    \<Rightarrow> defaults_state option \<times> approval_service" where
  "ad_load file_of sp s =
     (case jm_get (as_cache s) sp of
        Some st \<Rightarrow> (Some st, s)
      | None \<Rightarrow>
          (let found = (case file_of sp of
                          None \<Rightarrow> Some OFF
                        | Some f \<Rightarrow> (case as_files s f of
                                       FMissing \<Rightarrow> Some OFF
                                     | FFailed \<Rightarrow> None
                                     | FJson j \<Rightarrow> Some (parse_approval_defaults j)))
           in case found of
                None \<Rightarrow> (None, s)
              | Some st \<Rightarrow> (Some st, s\<lparr>as_cache := jm_set sp st (as_cache s)\<rparr>)))"

definition ad_read :: "(string \<Rightarrow> string option) \<Rightarrow> string \<Rightarrow> approval_service
    \<Rightarrow> defaults_state \<times> approval_service" where
  "ad_read file_of sp s =
     (case ad_load file_of sp s of (Some st, s') \<Rightarrow> (st, s') | (None, s') \<Rightarrow> (OFF, s'))"

definition ad_read_for_write :: "(string \<Rightarrow> string option) \<Rightarrow> string \<Rightarrow> approval_service
    \<Rightarrow> (control_error + defaults_state) \<times> approval_service" where
  "ad_read_for_write file_of sp s =
     (case ad_load file_of sp s of (Some st, s') \<Rightarrow> (Inr st, s') | (None, s') \<Rightarrow> (Inl Unavailable, s'))"

definition ad_write :: "(string \<Rightarrow> string option) \<Rightarrow> bool \<Rightarrow> string \<Rightarrow> defaults_state
    \<Rightarrow> approval_service \<Rightarrow> (control_error + defaults_state) \<times> approval_service" where
  "ad_write file_of disk_ok sp next s =
     (case file_of sp of
        None \<Rightarrow> (Inl Unavailable, s)
      | Some f \<Rightarrow>
          if \<not> disk_ok then (Inl IoFailure, s)
          else (Inr next,
                s\<lparr>as_files := (as_files s)(f := FJson (serialize next)),
                  as_cache := jm_set sp next (as_cache s),
                  as_fired := as_fired s @ map (\<lambda>l. (l, sp)) (as_listeners s)\<rparr>))"

definition ad_level_for :: "defaults_state \<Rightarrow> string option \<Rightarrow> approval_level" where
  "ad_level_for st project =
     nullish (if truthy project
              then map_option ad_level (jm_get (ad_projects st) (the project)) else None)
       (ad_level st)"

definition service_level :: "(string \<Rightarrow> string option) \<Rightarrow> string option \<Rightarrow> string option
    \<Rightarrow> approval_service \<Rightarrow> approval_level \<times> approval_service" where
  "service_level file_of sp project s =
     (if \<not> truthy sp then (LevelOff, s)
      else case ad_read file_of (the sp) s of (st, s') \<Rightarrow> (ad_level_for st project, s'))"

definition set_space_level :: "(string \<Rightarrow> string option) \<Rightarrow> bool \<Rightarrow> int \<Rightarrow> string \<Rightarrow> json \<Rightarrow> string
    \<Rightarrow> approval_service \<Rightarrow> (control_error + defaults_state) \<times> approval_service" where
  "set_space_level file_of disk_ok now sp level user s =
     (if \<not> is_approval_level level then (Inl InvalidInput, s)
      else case ad_read_for_write file_of sp s of
             (Inl e, s') \<Rightarrow> (Inl e, s')
           | (Inr current, s') \<Rightarrow>
               ad_write file_of disk_ok sp
                 (current\<lparr>ad_level := as_level level, ad_changed_at := Some now,
                          ad_changed_by := Some user\<rparr>) s')"

definition set_project_level :: "(string \<Rightarrow> string option) \<Rightarrow> bool \<Rightarrow> int \<Rightarrow> string \<Rightarrow> string \<Rightarrow> json
    \<Rightarrow> string \<Rightarrow> approval_service \<Rightarrow> (control_error + defaults_state) \<times> approval_service" where
  "set_project_level file_of disk_ok now sp project level user s =
     (if project = [] then (Inl InvalidInput, s)
      else if level \<noteq> JStr ''inherit'' \<and> \<not> is_approval_level level then (Inl InvalidInput, s)
      else case ad_read_for_write file_of sp s of
             (Inl e, s') \<Rightarrow> (Inl e, s')
           | (Inr current, s') \<Rightarrow>
               (let projects =
                  (if level = JStr ''inherit'' then jm_delete project (ad_projects current)
                   else jm_set project
                          \<lparr>ad_level = as_level level, ad_changed_at = Some now,
                           ad_changed_by = Some user\<rparr> (ad_projects current))
                in ad_write file_of disk_ok sp (current\<lparr>ad_projects := projects\<rparr>) s'))"

definition ad_subscribe :: "nat \<Rightarrow> approval_service \<Rightarrow> approval_service" where
  "ad_subscribe l s =
     (if l \<in> set (as_listeners s) then s else s\<lparr>as_listeners := as_listeners s @ [l]\<rparr>)"

definition ad_unsubscribe :: "nat \<Rightarrow> approval_service \<Rightarrow> approval_service" where
  "ad_unsubscribe l s = s\<lparr>as_listeners := filter (\<lambda>x. x \<noteq> l) (as_listeners s)\<rparr>"

section \<open>Round trip through the file\<close>

lemma is_level_json [simp]: "is_approval_level (level_json l)"
  by (cases l) (simp_all add: is_approval_level_def level_json_def)

lemma as_level_json [simp]: "as_level (level_json l) = l"
  by (cases l) (simp_all add: as_level_def level_json_def)

lemma json_num_map [simp]: "json_num (map_option JNum x) = x"
  by (cases x) auto

lemma json_str_map [simp]: "json_str (map_option JStr x) = x"
  by (cases x) auto

lemma map_of_opt_entry_option:
  "map_of (opt_entry k f x @ kvs) k' =
     (if k' = k then (case x of None \<Rightarrow> map_of kvs k' | Some v \<Rightarrow> Some (f v)) else map_of kvs k')"
  by (cases x) auto

lemma map_of_opt_entry_single:
  "map_of (opt_entry k f x) k' = (if k' = k then map_option f x else None)"
  by (cases x) auto

lemma parse_default_json: "parse_default (default_json e) = Some e"
  by (cases e; cases "ad_changed_at e"; cases "ad_changed_by e")
    (simp_all add: default_json_def map_of_opt_entry_single)

lemma parse_projects_stored:
  assumes "distinct (map fst m)" "set (map fst m) \<inter> set (map fst acc) = {}"
  shows "parse_projects (map (\<lambda>(p, e). (p, default_json e)) m) acc = acc @ m"
  using assms
proof (induction m arbitrary: acc)
  case Nil
  then show ?case by simp
next
  case (Cons x m)
  obtain p e where x: "x = (p, e)" by (cases x)
  with Cons.prems have "\<not> jm_has acc p" by (auto simp: jm_has_def)
  then have "jm_set p e acc = acc @ [(p, e)]" by (rule jm_set_fresh)
  with x Cons show ?case by (simp add: parse_default_json)
qed

lemma parse_serialize:
  assumes "jm_ok (ad_projects st)"
  shows "parse_approval_defaults (serialize st) = st"
proof -
  have "parse_projects (map (\<lambda>(p, e). (p, default_json e)) (ad_projects st)) [] = ad_projects st"
    using assms parse_projects_stored [of "ad_projects st" "[]"] by (simp add: jm_ok_def)
  then show ?thesis
    by (cases "ad_changed_at st"; cases "ad_changed_by st"; cases "legacy_full_access st")
      (simp_all add: serialize_def Let_def)
qed

lemma parse_projects_ok: "jm_ok m \<Longrightarrow> jm_ok (parse_projects ps m)"
  by (induction ps m rule: parse_projects.induct) auto

lemma parse_ok: "jm_ok (ad_projects (parse_approval_defaults j))"
  by (cases j) (auto simp: OFF_def parse_projects_ok split: option.split json.split)

lemma OFF_ok [simp]: "jm_ok (ad_projects OFF)" "ad_level OFF = LevelOff" "ad_projects OFF = []"
  by (simp_all add: OFF_def)

section \<open>The cache follows the files\<close>

text \<open>What a process that just started reads for a Space.\<close>

definition stored_state :: "(string \<Rightarrow> string option) \<Rightarrow> (string \<Rightarrow> file_read) \<Rightarrow> string
    \<Rightarrow> defaults_state option" where
  "stored_state file_of files sp =
     (case file_of sp of
        None \<Rightarrow> Some OFF
      | Some f \<Rightarrow> (case files f of FMissing \<Rightarrow> Some OFF | FFailed \<Rightarrow> None
                                 | FJson j \<Rightarrow> Some (parse_approval_defaults j)))"

text \<open>Each Space has a file of its own.\<close>

definition own_files :: "(string \<Rightarrow> string option) \<Rightarrow> bool" where
  "own_files file_of \<longleftrightarrow> (\<forall>a b f. file_of a = Some f \<longrightarrow> file_of b = Some f \<longrightarrow> a = b)"

definition coherent :: "(string \<Rightarrow> string option) \<Rightarrow> approval_service \<Rightarrow> bool" where
  "coherent file_of s \<longleftrightarrow>
     (\<forall>sp st. jm_get (as_cache s) sp = Some st \<longrightarrow> stored_state file_of (as_files s) sp = Some st)"

lemma stored_state_ok: "stored_state file_of files sp = Some st \<Longrightarrow> jm_ok (ad_projects st)"
  by (auto simp: stored_state_def parse_ok split: option.splits file_read.splits)

lemma ad_load_stored:
  "ad_load file_of sp s =
     (case jm_get (as_cache s) sp of
        Some st \<Rightarrow> (Some st, s)
      | None \<Rightarrow> (case stored_state file_of (as_files s) sp of
                   None \<Rightarrow> (None, s)
                 | Some st \<Rightarrow> (Some st, s\<lparr>as_cache := jm_set sp st (as_cache s)\<rparr>)))"
  by (simp add: ad_load_def stored_state_def Let_def split: option.split file_read.split)

lemma ad_load_eq:
  assumes "coherent file_of s"
  shows "fst (ad_load file_of sp s) = stored_state file_of (as_files s) sp"
    and "as_files (snd (ad_load file_of sp s)) = as_files s"
    and "coherent file_of (snd (ad_load file_of sp s))"
  using assms
  by (auto simp: ad_load_stored coherent_def store_simps split: option.splits)

lemma ad_load_cases:
  assumes "coherent file_of s"
  obtains t where "ad_load file_of sp s = (stored_state file_of (as_files s) sp, t)"
    and "as_files t = as_files s" and "coherent file_of t"
  using ad_load_eq [OF assms, of sp] by (metis prod.collapse)

lemma ad_read_eq:
  assumes "coherent file_of s"
  shows "fst (ad_read file_of sp s) = nullish (stored_state file_of (as_files s) sp) OFF"
  by (rule ad_load_cases [OF assms, of sp]) (simp add: ad_read_def split: option.split)

lemma service_level_eq:
  assumes "coherent file_of s"
  shows "fst (service_level file_of (Some sp) project s) =
      (if sp = [] then LevelOff
       else ad_level_for (nullish (stored_state file_of (as_files s) sp) OFF) project)"
  using ad_read_eq [OF assms, of sp] by (cases "ad_read file_of sp s") (simp add: service_level_def)

text \<open>A successful write: the new state is stored, other Spaces keep theirs.\<close>

lemma ad_write_stored:
  assumes "coherent file_of s" "own_files file_of" "jm_ok (ad_projects next)"
    and "ad_write file_of disk_ok sp next s = (Inr st, s')"
  shows "st = next" and "stored_state file_of (as_files s') sp' =
      (if sp' = sp then Some next else stored_state file_of (as_files s) sp')"
    and "coherent file_of s'"
proof -
  obtain f where f: "file_of sp = Some f" and st: "st = next"
    and s': "s' = s\<lparr>as_files := (as_files s)(f := FJson (serialize next)),
                  as_cache := jm_set sp next (as_cache s),
                  as_fired := as_fired s @ map (\<lambda>l. (l, sp)) (as_listeners s)\<rparr>"
    using assms(4) by (auto simp: ad_write_def split: option.splits if_splits)
  have stored: "stored_state file_of (as_files s') q =
      (if q = sp then Some next else stored_state file_of (as_files s) q)" for q
    using f s' assms(2,3) parse_serialize [of "next"]
    by (auto simp: stored_state_def own_files_def split: option.splits file_read.splits)
  show "st = next" by (rule st)
  show "stored_state file_of (as_files s') sp' =
      (if sp' = sp then Some next else stored_state file_of (as_files s) sp')" by (rule stored)
  show "coherent file_of s'"
  proof -
    have "as_cache s' = jm_set sp next (as_cache s)" by (simp add: s')
    with assms(1) show ?thesis by (simp add: coherent_def stored store_simps)
  qed
qed

lemma ad_write_failed:
  "ad_write file_of disk_ok sp next s = (Inl e, s') \<Longrightarrow> s' = s"
  by (auto simp: ad_write_def split: option.splits if_splits)

lemma stored_unchanged:
  "as_files s' = as_files s \<Longrightarrow> stored_state file_of (as_files s') = stored_state file_of (as_files s)"
  by simp

text \<open>Both setters read the stored state, change it, and write the result.\<close>

definition changed_space :: "json \<Rightarrow> int \<Rightarrow> string \<Rightarrow> defaults_state \<Rightarrow> defaults_state" where
  "changed_space level now user st =
     st\<lparr>ad_level := as_level level, ad_changed_at := Some now, ad_changed_by := Some user\<rparr>"

definition changed_project :: "string \<Rightarrow> json \<Rightarrow> int \<Rightarrow> string \<Rightarrow> defaults_state \<Rightarrow> defaults_state" where
  "changed_project project level now user st =
     st\<lparr>ad_projects :=
          (if level = JStr ''inherit'' then jm_delete project (ad_projects st)
           else jm_set project \<lparr>ad_level = as_level level, ad_changed_at = Some now,
                                ad_changed_by = Some user\<rparr> (ad_projects st))\<rparr>"

lemma set_space_level_Inr:
  assumes "coherent file_of s" "set_space_level file_of disk_ok now sp level user s = (Inr st, s')"
  shows "\<exists>cur t. stored_state file_of (as_files s) sp = Some cur \<and> as_files t = as_files s
    \<and> coherent file_of t
    \<and> ad_write file_of disk_ok sp (changed_space level now user cur) t = (Inr st, s')"
  using assms(2) ad_load_eq [OF assms(1), of sp]
  by (auto simp: set_space_level_def ad_read_for_write_def changed_space_def
      split: if_splits prod.splits sum.splits option.splits)

lemma set_project_level_Inr:
  assumes "coherent file_of s" "set_project_level file_of disk_ok now sp project level user s = (Inr st, s')"
  shows "\<exists>cur t. stored_state file_of (as_files s) sp = Some cur \<and> as_files t = as_files s
    \<and> coherent file_of t
    \<and> ad_write file_of disk_ok sp (changed_project project level now user cur) t = (Inr st, s')"
  using assms(2) ad_load_eq [OF assms(1), of sp]
  by (auto simp: set_project_level_def ad_read_for_write_def changed_project_def Let_def
      split: if_splits prod.splits sum.splits option.splits)

lemma changed_ok [simp]:
  "jm_ok (ad_projects st) \<Longrightarrow> jm_ok (ad_projects (changed_space level now user st))"
  "jm_ok (ad_projects st) \<Longrightarrow> jm_ok (ad_projects (changed_project project level now user st))"
  by (simp_all add: changed_space_def changed_project_def)

lemma changed_project_level:
  "project \<noteq> [] \<Longrightarrow> ad_level_for (changed_project project level now user st) p =
     (if p = Some project then
        (if level = JStr ''inherit'' then ad_level st else as_level level)
      else ad_level_for st p)"
  by (auto simp: ad_level_for_def changed_project_def store_simps truthy_def)

lemma changed_space_level:
  "ad_level_for (changed_space level now user st) p =
     (if truthy p \<and> jm_get (ad_projects st) (the p) \<noteq> None then ad_level_for st p
      else as_level level)"
  by (auto simp: ad_level_for_def changed_space_def)

section \<open>Properties\<close>

text \<open>
  Writing the levels of a Space to its file and reading the file back gives the same
  levels, with who set them and when, for the Space and for every project.
\<close>

theorem approval_file_roundtrip:
  assumes "jm_ok (ad_projects st)"
  shows "parse_approval_defaults (serialize st) = st"
  using assms by (rule parse_serialize)

definition sample_defaults :: defaults_state where
  "sample_defaults = \<lparr>ad_level = LevelAll, ad_changed_at = Some 7, ad_changed_by = Some ''ann'',
     ad_projects = [(''p1'', \<lparr>ad_level = LevelRoutine, ad_changed_at = None, ad_changed_by = None\<rparr>)]\<rparr>"

theorem approval_file_roundtrip_witness:
  "parse_approval_defaults (serialize sample_defaults) = sample_defaults"
  by (rule approval_file_roundtrip) (simp add: sample_defaults_def jm_ok_def)

text \<open>
  An older server reads only the field \<open>enabled\<close>, as full access in every chat. The
  file says so exactly when the Space's level and the level of every project with one of
  its own are full access, so it never grants more than the levels do.
\<close>

theorem legacy_flag_never_broader:
  "json_field (serialize st) ''enabled'' = Some (JBool True) \<longleftrightarrow>
     ad_level st = LevelAll \<and> \<not> (\<exists>p e. (p, e) \<in> set (ad_projects st) \<and> ad_level e \<noteq> LevelAll)"
  by (auto simp: serialize_def Let_def legacy_full_access_def list_all_iff)

lemma project_level_parts:
  assumes "coherent file_of s" "own_files file_of" "sp \<noteq> []"
    and "set_project_level file_of disk_ok now sp project level user s = (Inr st, s')"
  shows "fst (service_level file_of (Some sp') p s') =
      (if sp' = sp \<and> p = Some project then
         (if level = JStr ''inherit'' then fst (service_level file_of (Some sp) None s)
          else as_level level)
       else fst (service_level file_of (Some sp') p s))"
    and "fst (service_level file_of (Some sp') p (s'\<lparr>as_cache := []\<rparr>)) =
      fst (service_level file_of (Some sp') p s')"
proof -
  obtain cur t where cur: "stored_state file_of (as_files s) sp = Some cur"
    and t: "as_files t = as_files s" "coherent file_of t"
    and wr: "ad_write file_of disk_ok sp (changed_project project level now user cur) t = (Inr st, s')"
    using set_project_level_Inr [OF assms(1,4)] by blast
  have ok: "jm_ok (ad_projects (changed_project project level now user cur))"
    using stored_state_ok [OF cur] by simp
  have "project \<noteq> []" using assms(4) by (auto simp: set_project_level_def split: if_splits)
  note w = ad_write_stored [OF t(2) assms(2) ok wr]
  show "fst (service_level file_of (Some sp') p s') =
      (if sp' = sp \<and> p = Some project then
         (if level = JStr ''inherit'' then fst (service_level file_of (Some sp) None s)
          else as_level level)
       else fst (service_level file_of (Some sp') p s))"
    using w(2) [of sp'] t(1) cur assms(3)
      changed_project_level [OF \<open>project \<noteq> []\<close>, of level now user cur p]
    by (auto simp: service_level_eq [OF w(3)] service_level_eq [OF assms(1)] ad_level_for_def)
  have "coherent file_of (s'\<lparr>as_cache := []\<rparr>)" by (simp add: coherent_def)
  then show "fst (service_level file_of (Some sp') p (s'\<lparr>as_cache := []\<rparr>)) =
      fst (service_level file_of (Some sp') p s')"
    by (simp add: service_level_eq [OF w(3)] service_level_eq)
qed

text \<open>
  After a project's level was set, that project has that level (or the Space's, when
  it was set to inherit), every other project and Space keeps its level, and a server
  started afterwards reads the same levels from the files.
\<close>

theorem project_level_set:
  assumes "coherent file_of s" "own_files file_of" "sp \<noteq> []"
    and "set_project_level file_of disk_ok now sp project level user s = (Inr st, s')"
  shows "fst (service_level file_of (Some sp') p s') =
      (if sp' = sp \<and> p = Some project then
         (if level = JStr ''inherit'' then fst (service_level file_of (Some sp) None s)
          else as_level level)
       else fst (service_level file_of (Some sp') p s))
    \<and> fst (service_level file_of (Some sp') p (s'\<lparr>as_cache := []\<rparr>)) =
      fst (service_level file_of (Some sp') p s')"
  using project_level_parts [OF assms] by blast

definition sample_files :: "string \<Rightarrow> string option" where
  "sample_files sp = (if sp = ''home'' then Some ''home.json'' else None)"

definition sample_service :: approval_service where
  "sample_service = \<lparr>as_cache = [], as_files = (\<lambda>_. FMissing), as_listeners = [], as_fired = []\<rparr>"

theorem project_level_set_witness:
  "fst (service_level sample_files (Some ''home'') (Some ''p1'')
     (snd (set_project_level sample_files True 9 ''home'' ''p1'' (JStr ''all'') ''ann'' sample_service)))
   = LevelAll"
proof -
  have a: "coherent sample_files sample_service" by (simp add: coherent_def sample_service_def)
  have b: "own_files sample_files" by (simp add: own_files_def sample_files_def)
  obtain st where "set_project_level sample_files True 9 ''home'' ''p1'' (JStr ''all'') ''ann'' sample_service
      = (Inr st, snd (set_project_level sample_files True 9 ''home'' ''p1'' (JStr ''all'') ''ann'' sample_service))"
    by (simp add: set_project_level_def is_approval_level_def ad_read_for_write_def ad_load_def
        ad_write_def sample_files_def sample_service_def Let_def)
  from project_level_set [OF a b _ this, of "''home''" "Some ''p1''"] show ?thesis
    by (simp add: as_level_def)
qed

lemma unreadable_parts:
  assumes "coherent file_of s" "stored_state file_of (as_files s) sp = None"
  shows "fst (service_level file_of (Some sp) p s) = LevelOff"
    and "is_approval_level level \<Longrightarrow>
      set_space_level file_of disk_ok now sp level user s = (Inl Unavailable, s)"
    and "project \<noteq> [] \<Longrightarrow> is_approval_level level \<Longrightarrow>
      set_project_level file_of disk_ok now sp project level user s = (Inl Unavailable, s)"
proof -
  have "jm_get (as_cache s) sp = None"
    using assms by (cases "jm_get (as_cache s) sp") (auto simp: coherent_def)
  with assms(2) have ld: "ad_load file_of sp s = (None, s)" by (simp add: ad_load_stored)
  show "fst (service_level file_of (Some sp) p s) = LevelOff"
    by (auto simp: service_level_def ad_read_def ld ad_level_for_def)
  show "is_approval_level level \<Longrightarrow>
      set_space_level file_of disk_ok now sp level user s = (Inl Unavailable, s)"
    by (simp add: set_space_level_def ad_read_for_write_def ld)
  show "project \<noteq> [] \<Longrightarrow> is_approval_level level \<Longrightarrow>
      set_project_level file_of disk_ok now sp project level user s = (Inl Unavailable, s)"
    by (simp add: set_project_level_def ad_read_for_write_def ld)
qed

text \<open>
  When the file of a Space cannot be read, every chat's level is off, and neither
  setter changes a file or tells a listener: they fail with unavailable.
\<close>

theorem unreadable_fails_closed:
  assumes "coherent file_of s" "stored_state file_of (as_files s) sp = None"
    and "is_approval_level level" "project \<noteq> []"
  shows "fst (service_level file_of (Some sp) p s) = LevelOff
    \<and> set_space_level file_of disk_ok now sp level user s = (Inl Unavailable, s)
    \<and> set_project_level file_of disk_ok now sp project level user s = (Inl Unavailable, s)"
  using unreadable_parts [OF assms(1,2)] assms(3,4) by blast

theorem unreadable_fails_closed_witness:
  "fst (service_level sample_files (Some ''home'') (Some ''p1'') (sample_service\<lparr>as_files := (\<lambda>_. FFailed)\<rparr>)) = LevelOff
    \<and> set_space_level sample_files True 9 ''home'' (JStr ''all'') ''ann'' (sample_service\<lparr>as_files := (\<lambda>_. FFailed)\<rparr>)
      = (Inl Unavailable, sample_service\<lparr>as_files := (\<lambda>_. FFailed)\<rparr>)
    \<and> set_project_level sample_files True 9 ''home'' ''p1'' (JStr ''all'') ''ann'' (sample_service\<lparr>as_files := (\<lambda>_. FFailed)\<rparr>)
      = (Inl Unavailable, sample_service\<lparr>as_files := (\<lambda>_. FFailed)\<rparr>)"
  by (rule unreadable_fails_closed)
    (simp_all add: coherent_def sample_service_def stored_state_def sample_files_def is_approval_level_def)

end
