(* ===== verification/Permissions.thy ===== *)
theory Permissions
  imports ApprovalDefaults
begin

text \<open>
  The permission engine of packages/permissions/src/index.ts: the rule list and its
  verdicts, the resolution of a chat's automatic-approval level through its parents, the
  store of explicit choices, and content-bound trust receipts.
\<close>

section \<open>Rules\<close>

datatype rule_action = Allow | Deny | Ask

datatype rule_scope = ScopeUser | ScopeProject | ScopeSession

record permission_rule =
  pr_permission :: string
  pr_pattern :: string
  pr_action :: rule_action
  pr_scope :: rule_scope
  pr_project :: "string option"
  pr_session :: "string option"

definition rule_matches :: "string \<Rightarrow> string \<Rightarrow> bool" where
  "rule_matches p v =
     (if p = ''*'' then True
      else if p \<noteq> [] \<and> last p = CHR ''*'' then prefix (butlast p) v
      else p = v)"

text \<open>
  A record of the rules file before its scope is normalised: only the scope may be absent
  or unknown. \<open>load_rules\<close> takes the parsed file, \<open>None\<close> where reading or parsing throws.
\<close>

record raw_rule =
  rr_permission :: string
  rr_pattern :: string
  rr_action :: rule_action
  rr_scope :: "string option"
  rr_project :: "string option"
  rr_session :: "string option"

definition load_rule :: "raw_rule \<Rightarrow> permission_rule" where
  "load_rule r =
     \<lparr>pr_permission = rr_permission r, pr_pattern = rr_pattern r, pr_action = rr_action r,
      pr_scope = (if rr_scope r = Some ''project'' then ScopeProject
                  else if rr_scope r = Some ''session'' then ScopeSession
                  else ScopeUser),
      pr_project = rr_project r, pr_session = rr_session r\<rparr>"

definition load_rules :: "raw_rule list option \<Rightarrow> permission_rule list" where
  "load_rules parsed = (case parsed of None \<Rightarrow> [] | Some rs \<Rightarrow> map load_rule rs)"

definition store_rule :: "permission_rule \<Rightarrow> raw_rule" where
  "store_rule r =
     \<lparr>rr_permission = pr_permission r, rr_pattern = pr_pattern r, rr_action = pr_action r,
      rr_scope = Some (case pr_scope r of ScopeUser \<Rightarrow> ''user'' | ScopeProject \<Rightarrow> ''project''
                                       | ScopeSession \<Rightarrow> ''session''),
      rr_project = pr_project r, rr_session = pr_session r\<rparr>"

subsection \<open>Verdicts\<close>

text \<open>
  The two nested loops of \<open>evaluate\<close>. \<open>Inl\<close> is the early return, \<open>Inr\<close> the verdict with
  which the loop goes on.
\<close>

fun eval_rules ::
  "string \<Rightarrow> string option \<Rightarrow> string option \<Rightarrow> string \<Rightarrow> permission_rule list \<Rightarrow> rule_action
     \<Rightarrow> rule_action + rule_action" where
  "eval_rules perm proj sess p [] verdict = Inr verdict"
| "eval_rules perm proj sess p (r # rs) verdict =
     (if pr_permission r \<noteq> perm \<and> pr_permission r \<noteq> ''*'' then eval_rules perm proj sess p rs verdict
      else if pr_scope r = ScopeProject \<and> pr_project r \<noteq> proj then eval_rules perm proj sess p rs verdict
      else if pr_scope r = ScopeSession \<and> pr_session r \<noteq> sess then eval_rules perm proj sess p rs verdict
      else if \<not> rule_matches (pr_pattern r) p then eval_rules perm proj sess p rs verdict
      else if pr_action r = Deny then Inl Deny
      else eval_rules perm proj sess p rs Allow)"

fun eval_patterns ::
  "permission_rule list \<Rightarrow> string \<Rightarrow> string option \<Rightarrow> string option \<Rightarrow> string list \<Rightarrow> rule_action
     \<Rightarrow> rule_action" where
  "eval_patterns rules perm proj sess [] verdict = verdict"
| "eval_patterns rules perm proj sess (p # ps) verdict =
     (case eval_rules perm proj sess p rules verdict of
        Inl a \<Rightarrow> a
      | Inr v \<Rightarrow> eval_patterns rules perm proj sess ps v)"

definition evaluate ::
  "permission_rule list \<Rightarrow> string \<Rightarrow> string list \<Rightarrow> string option \<Rightarrow> string option \<Rightarrow> rule_action" where
  "evaluate rules perm patterns proj sess =
     eval_patterns rules perm proj sess (if patterns = [] then [''*''] else patterns) Ask"

subsection \<open>Adding a rule\<close>

text \<open>The service state: the rule list in memory and the content of permissions.json.\<close>

record permission_service =
  ps_rules :: "permission_rule list"
  ps_file :: "raw_rule list option"

definition create_permission_service :: "raw_rule list option \<Rightarrow> permission_service" where
  "create_permission_service file = \<lparr>ps_rules = load_rules file, ps_file = file\<rparr>"

definition same_key :: "permission_rule \<Rightarrow> permission_rule \<Rightarrow> bool" where
  "same_key x r \<longleftrightarrow>
     pr_permission x = pr_permission r \<and> pr_pattern x = pr_pattern r \<and>
     pr_scope x = pr_scope r \<and> pr_project x = pr_project r \<and> pr_session x = pr_session r"

definition persist_rules :: "permission_service \<Rightarrow> permission_service" where
  "persist_rules s = s\<lparr>ps_file := Some (map store_rule (ps_rules s))\<rparr>"

definition add_rule :: "permission_service \<Rightarrow> permission_rule \<Rightarrow> permission_service" where
  "add_rule s rule =
     persist_rules (s\<lparr>ps_rules := filter (\<lambda>x. \<not> same_key x rule) (ps_rules s) @ [rule]\<rparr>)"

definition service_evaluate ::
  "permission_service \<Rightarrow> string \<Rightarrow> string list \<Rightarrow> string option \<Rightarrow> string option \<Rightarrow> rule_action" where
  "service_evaluate s = evaluate (ps_rules s)"

section \<open>Automatic approval\<close>

datatype auto_accept_setting = SetOn | SetAll | SetOff | SetInherit

text \<open>\<open>explicitAutoAcceptSetting\<close>: only the three explicit choices are read back.\<close>

definition explicit_auto_accept_setting :: "json \<Rightarrow> auto_accept_setting option" where
  "explicit_auto_accept_setting v =
     (if v = JStr ''on'' then Some SetOn
      else if v = JStr ''all'' then Some SetAll
      else if v = JStr ''off'' then Some SetOff
      else None)"

text \<open>
  The loop of \<open>resolveAutoAcceptLevel\<close>: \<open>seen\<close> lists the visited chats, newest first. The
  guard stops it at a missing or empty id, at a chat seen before, and after 64 chats.
\<close>

function resolve_loop ::
  "(string \<Rightarrow> auto_accept_setting) \<Rightarrow> (string \<Rightarrow> string option) \<Rightarrow> approval_level
     \<Rightarrow> string list \<Rightarrow> string option \<Rightarrow> approval_level" where
  "resolve_loop setting_of parent_of dflt seen cur =
     (if truthy cur \<and> the cur \<notin> set seen \<and> length seen < 64 then
        (case setting_of (the cur) of
           SetOn \<Rightarrow> LevelRoutine
         | SetAll \<Rightarrow> LevelAll
         | SetOff \<Rightarrow> LevelOff
         | SetInherit \<Rightarrow>
             resolve_loop setting_of parent_of dflt (the cur # seen) (parent_of (the cur)))
      else dflt)"
  by pat_completeness auto
termination
  by (relation "measure (\<lambda>(_, _, _, seen, _). 64 - length seen)") auto

declare resolve_loop.simps [simp del]

definition resolve_auto_accept_level ::
  "string option \<Rightarrow> (string \<Rightarrow> auto_accept_setting) \<Rightarrow> (string \<Rightarrow> string option) \<Rightarrow> approval_level
     \<Rightarrow> approval_level" where
  "resolve_auto_accept_level sid setting_of parent_of dflt =
     resolve_loop setting_of parent_of dflt [] sid"

definition resolve_auto_accept ::
  "string \<Rightarrow> (string \<Rightarrow> auto_accept_setting) \<Rightarrow> (string \<Rightarrow> string option) \<Rightarrow> bool" where
  "resolve_auto_accept sid setting_of parent_of \<longleftrightarrow>
     resolve_auto_accept_level (Some sid) setting_of parent_of LevelOff \<noteq> LevelOff"

subsection \<open>The store of explicit choices\<close>

text \<open>The settings in memory, the file, and how often the file was written.\<close>

record auto_accept_store =
  aa_settings :: "(string, auto_accept_setting) jsmap"
  aa_file :: "(string \<times> json) list option"
  aa_writes :: nat

definition setting_json :: "auto_accept_setting \<Rightarrow> json" where
  "setting_json s = JStr (case s of SetOn \<Rightarrow> ''on'' | SetAll \<Rightarrow> ''all'' | SetOff \<Rightarrow> ''off''
                                  | SetInherit \<Rightarrow> ''inherit'')"

fun load_settings ::
  "(string \<times> json) list \<Rightarrow> (string, auto_accept_setting) jsmap \<Rightarrow> (string, auto_accept_setting) jsmap" where
  "load_settings [] m = m"
| "load_settings ((k, v) # kvs) m =
     (case explicit_auto_accept_setting v of
        None \<Rightarrow> load_settings kvs m
      | Some s \<Rightarrow> load_settings kvs (jm_set k s m))"

definition create_auto_accept_store :: "(string \<times> json) list option \<Rightarrow> auto_accept_store" where
  "create_auto_accept_store file =
     \<lparr>aa_settings = (case file of None \<Rightarrow> [] | Some kvs \<Rightarrow> load_settings kvs []),
      aa_file = file, aa_writes = 0\<rparr>"

definition aa_get :: "auto_accept_store \<Rightarrow> string \<Rightarrow> auto_accept_setting" where
  "aa_get st sid = nullish (jm_get (aa_settings st) sid) SetInherit"

definition aa_persist :: "auto_accept_store \<Rightarrow> auto_accept_store" where
  "aa_persist st =
     st\<lparr>aa_file := Some (map (\<lambda>(k, s). (k, setting_json s)) (aa_settings st)),
        aa_writes := Suc (aa_writes st)\<rparr>"

definition aa_set :: "string \<Rightarrow> auto_accept_setting \<Rightarrow> auto_accept_store \<Rightarrow> auto_accept_store" where
  "aa_set sid setting st =
     (if setting = SetInherit then
        (if \<not> jm_has (aa_settings st) sid then st
         else aa_persist (st\<lparr>aa_settings := jm_delete sid (aa_settings st)\<rparr>))
      else if jm_get (aa_settings st) sid = Some setting then st
      else aa_persist (st\<lparr>aa_settings := jm_set sid setting (aa_settings st)\<rparr>))"

section \<open>Content-bound trust\<close>

datatype trust_scope = CurrentVersion | Once

record trust_subject =
  ts_space :: string
  ts_project :: string
  ts_source_kind :: string
  ts_source_identity :: string
  ts_content_digest :: string
  ts_semantic_digest :: "string option"

record trust_receipt = trust_subject +
  tr_version :: int
  tr_scope :: trust_scope
  tr_approved_at :: int

definition issue_content_trust_receipt ::
  "trust_subject \<Rightarrow> trust_scope \<Rightarrow> int \<Rightarrow> trust_receipt option" where
  "issue_content_trust_receipt s scope at =
     (if ts_space s = [] \<or> ts_project s = [] \<or> ts_source_kind s = [] \<or>
         ts_source_identity s = [] \<or> ts_content_digest s = [] then None
      else Some \<lparr>ts_space = ts_space s, ts_project = ts_project s,
                 ts_source_kind = ts_source_kind s, ts_source_identity = ts_source_identity s,
                 ts_content_digest = ts_content_digest s, ts_semantic_digest = ts_semantic_digest s,
                 tr_version = 1, tr_scope = scope, tr_approved_at = at\<rparr>)"

definition content_trust_matches ::
  "trust_receipt option \<Rightarrow> trust_subject \<Rightarrow> trust_scope option \<Rightarrow> bool" where
  "content_trust_matches receipt s scope =
     (case receipt of
        None \<Rightarrow> False
      | Some r \<Rightarrow>
          (if tr_version r \<noteq> 1 then False
           else ts_space r = ts_space s
              \<and> ts_project r = ts_project s
              \<and> ts_source_kind r = ts_source_kind s
              \<and> ts_source_identity r = ts_source_identity s
              \<and> ts_content_digest r = ts_content_digest s
              \<and> nullish (ts_semantic_digest r) [] = nullish (ts_semantic_digest s) []
              \<and> (scope = None \<or> Some (tr_scope r) = scope)))"

section \<open>Verdicts: what the loops compute\<close>

text \<open>A rule applies to one pattern of a request.\<close>

definition rule_applies ::
  "string \<Rightarrow> string option \<Rightarrow> string option \<Rightarrow> string \<Rightarrow> permission_rule \<Rightarrow> bool" where
  "rule_applies perm proj sess p r \<longleftrightarrow>
     (pr_permission r = perm \<or> pr_permission r = ''*'')
     \<and> (pr_scope r = ScopeProject \<longrightarrow> pr_project r = proj)
     \<and> (pr_scope r = ScopeSession \<longrightarrow> pr_session r = sess)
     \<and> rule_matches (pr_pattern r) p"

definition request_patterns :: "string list \<Rightarrow> string list" where
  "request_patterns ps = (if ps = [] then [''*''] else ps)"

definition hit ::
  "permission_rule list \<Rightarrow> string \<Rightarrow> string list \<Rightarrow> string option \<Rightarrow> string option
     \<Rightarrow> permission_rule \<Rightarrow> bool" where
  "hit rules perm ps proj sess r \<longleftrightarrow>
     r \<in> set rules \<and> (\<exists>p \<in> set (request_patterns ps). rule_applies perm proj sess p r)"

lemma eval_rules_step:
  "eval_rules perm proj sess p (r # rs) v =
     (if rule_applies perm proj sess p r
      then (if pr_action r = Deny then Inl Deny else eval_rules perm proj sess p rs Allow)
      else eval_rules perm proj sess p rs v)"
  by (simp add: rule_applies_def)

lemma eval_rules_eq:
  "eval_rules perm proj sess p rs v =
     (if \<exists>r \<in> set rs. rule_applies perm proj sess p r \<and> pr_action r = Deny then Inl Deny
      else Inr (if \<exists>r \<in> set rs. rule_applies perm proj sess p r then Allow else v))"
  by (induction rs arbitrary: v) (simp_all add: eval_rules_step del: eval_rules.simps(2), blast)

lemma eval_patterns_eq:
  "eval_patterns rules perm proj sess ps v =
     (if \<exists>p \<in> set ps. \<exists>r \<in> set rules. rule_applies perm proj sess p r \<and> pr_action r = Deny then Deny
      else if \<exists>p \<in> set ps. \<exists>r \<in> set rules. rule_applies perm proj sess p r then Allow else v)"
  by (induction ps arbitrary: v) (simp_all add: eval_rules_eq, blast)

lemma evaluate_eq:
  "evaluate rules perm ps proj sess =
     (if \<exists>r. hit rules perm ps proj sess r \<and> pr_action r = Deny then Deny
      else if \<exists>r. hit rules perm ps proj sess r then Allow else Ask)"
  unfolding evaluate_def eval_patterns_eq request_patterns_def [symmetric] hit_def by auto

lemma hit_append:
  "hit (xs @ ys) perm ps proj sess r \<longleftrightarrow> hit xs perm ps proj sess r \<or> hit ys perm ps proj sess r"
  by (auto simp: hit_def)

lemma same_key_applies:
  "same_key x r \<Longrightarrow> rule_applies perm proj sess p x = rule_applies perm proj sess p r"
  by (simp add: same_key_def rule_applies_def)

lemma ps_rules_add:
  "ps_rules (add_rule s rule) = filter (\<lambda>x. \<not> same_key x rule) (ps_rules s) @ [rule]"
  by (simp add: add_rule_def persist_rules_def)

lemma hit_add_rule:
  "hit (ps_rules (add_rule s rule)) perm ps proj sess r \<longleftrightarrow>
     (hit (ps_rules s) perm ps proj sess r \<and> \<not> same_key r rule)
     \<or> (r = rule \<and> hit [rule] perm ps proj sess rule)"
  by (auto simp: hit_def ps_rules_add)

lemma load_store_rule [simp]: "load_rule (store_rule r) = r"
  by (cases r) (simp add: load_rule_def store_rule_def split: rule_scope.split)

lemma add_rule_file: "ps_file (add_rule s rule) = Some (map store_rule (ps_rules (add_rule s rule)))"
  by (simp add: add_rule_def persist_rules_def)

text \<open>No two stored rules have the same key.\<close>

definition keys_unique :: "permission_rule list \<Rightarrow> bool" where
  "keys_unique rs \<longleftrightarrow> sorted_wrt (\<lambda>x y. \<not> same_key x y) rs"

lemma keys_unique_add:
  "keys_unique (ps_rules s) \<Longrightarrow> keys_unique (ps_rules (add_rule s rule))"
  by (auto simp: keys_unique_def ps_rules_add sorted_wrt_append sorted_wrt_filter)

section \<open>Resolution: what the loop finds\<close>

text \<open>\<open>ids\<close> is the chain of chats that starts at \<open>cur\<close> and follows the parents.\<close>

fun parent_path :: "(string \<Rightarrow> string option) \<Rightarrow> string option \<Rightarrow> string list \<Rightarrow> bool" where
  "parent_path parent_of cur [] \<longleftrightarrow> True"
| "parent_path parent_of cur (x # xs) \<longleftrightarrow>
     cur = Some x \<and> x \<noteq> [] \<and> parent_path parent_of (parent_of x) xs"

fun after_path :: "(string \<Rightarrow> string option) \<Rightarrow> string option \<Rightarrow> string list \<Rightarrow> string option" where
  "after_path parent_of cur [] = cur"
| "after_path parent_of cur (x # xs) = after_path parent_of (parent_of x) xs"

fun level_of_setting :: "auto_accept_setting \<Rightarrow> approval_level option" where
  "level_of_setting SetOn = Some LevelRoutine"
| "level_of_setting SetAll = Some LevelAll"
| "level_of_setting SetOff = Some LevelOff"
| "level_of_setting SetInherit = None"

lemma level_of_setting_None [simp]: "level_of_setting s = None \<longleftrightarrow> s = SetInherit"
  by (cases s) auto

lemma resolve_loop_explicit:
  assumes "truthy cur" "the cur \<notin> set seen" "length seen < 64"
    and "level_of_setting (setting_of (the cur)) = Some l"
  shows "resolve_loop setting_of parent_of dflt seen cur = l"
  using assms by (subst resolve_loop.simps) (cases "setting_of (the cur)"; simp)

lemma resolve_loop_skip:
  assumes "truthy cur" "the cur \<notin> set seen" "length seen < 64"
    and "setting_of (the cur) = SetInherit"
  shows "resolve_loop setting_of parent_of dflt seen cur =
         resolve_loop setting_of parent_of dflt (the cur # seen) (parent_of (the cur))"
  using assms by (subst resolve_loop.simps) simp

lemma resolve_loop_stop:
  assumes "\<not> truthy cur \<or> the cur \<in> set seen \<or> 64 \<le> length seen"
  shows "resolve_loop setting_of parent_of dflt seen cur = dflt"
  using assms by (subst resolve_loop.simps) auto

lemma resolve_loop_walk:
  assumes "parent_path parent_of cur ids" "distinct ids" "set ids \<inter> set seen = {}"
    and "length seen + length ids \<le> 64" "\<forall>x \<in> set ids. setting_of x = SetInherit"
  shows "resolve_loop setting_of parent_of dflt seen cur =
         resolve_loop setting_of parent_of dflt (rev ids @ seen) (after_path parent_of cur ids)"
  using assms
proof (induction ids arbitrary: cur seen)
  case Nil
  then show ?case by simp
next
  case (Cons x xs)
  then have "resolve_loop setting_of parent_of dflt seen cur =
      resolve_loop setting_of parent_of dflt (x # seen) (parent_of x)"
    using resolve_loop_skip [of cur seen setting_of parent_of dflt] by auto
  also have "\<dots> = resolve_loop setting_of parent_of dflt (rev xs @ x # seen)
      (after_path parent_of (parent_of x) xs)"
    using Cons.prems by (intro Cons.IH) auto
  finally show ?case by simp
qed

lemma resolve_loop_source:
  "resolve_loop setting_of parent_of dflt seen cur = dflt
   \<or> (\<exists>x. level_of_setting (setting_of x) = Some (resolve_loop setting_of parent_of dflt seen cur))"
proof (induction setting_of parent_of dflt seen cur rule: resolve_loop.induct)
  case (1 setting_of parent_of dflt seen cur)
  show ?case
  proof (cases "truthy cur \<and> the cur \<notin> set seen \<and> length seen < 64")
    case True
    show ?thesis
    proof (cases "level_of_setting (setting_of (the cur))")
      case None
      with True "1.IH" show ?thesis by (simp add: resolve_loop_skip)
    next
      case (Some l)
      with True have "resolve_loop setting_of parent_of dflt seen cur = l"
        by (intro resolve_loop_explicit) auto
      with Some show ?thesis by metis
    qed
  next
    case False
    then have "resolve_loop setting_of parent_of dflt seen cur = dflt"
      by (intro resolve_loop_stop) auto
    then show ?thesis by blast
  qed
qed

subsection \<open>Stores of explicit choices\<close>

text \<open>
  What the resolution needs of a store: a choice that was written is read back, and no
  other chat's choice changes.
\<close>

locale choice_store =
  fixes get_choice :: "'st \<Rightarrow> string \<Rightarrow> auto_accept_setting"
    and set_choice :: "string \<Rightarrow> auto_accept_setting \<Rightarrow> 'st \<Rightarrow> 'st"
  assumes get_set_choice: "get_choice (set_choice i s st) i' = (if i' = i then s else get_choice st i')"
begin

lemma own_choice_decides:
  assumes "i \<noteq> []" and "level_of_setting s = Some l"
  shows "resolve_auto_accept_level (Some i) (get_choice (set_choice i s st)) parent_of dflt = l"
  unfolding resolve_auto_accept_level_def
  using assms by (intro resolve_loop_explicit) (auto simp: get_set_choice)

lemma parent_choice_inherited:
  assumes "parent_path parent_of (Some c) (cs @ [i])" and "distinct (cs @ [i])" and "length cs < 64"
    and "\<forall>x \<in> set cs. get_choice st x = SetInherit" and "level_of_setting s = Some l"
  shows "resolve_auto_accept_level (Some c) (get_choice (set_choice i s st)) parent_of dflt = l"
proof -
  have path: "parent_path parent_of (Some c) cs \<and> after_path parent_of (Some c) cs = Some i \<and> i \<noteq> []"
    if "parent_path parent_of (Some c) (cs @ [i])" for c
    using that by (induction cs arbitrary: c) (auto, (metis append_Cons neq_Nil_conv parent_path.simps append_Nil)+)
  have "resolve_loop (get_choice (set_choice i s st)) parent_of dflt [] (Some c) =
      resolve_loop (get_choice (set_choice i s st)) parent_of dflt (rev cs @ []) (Some i)"
    using assms path [OF assms(1)] resolve_loop_walk [of parent_of "Some c" cs "[]" "get_choice (set_choice i s st)" dflt]
    by (auto simp: get_set_choice)
  also have "\<dots> = l"
    using assms path [OF assms(1)] by (intro resolve_loop_explicit) (auto simp: get_set_choice)
  finally show ?thesis by (simp add: resolve_auto_accept_level_def)
qed

end

lemma aa_get_set: "aa_get (aa_set i s st) i' = (if i' = i then s else aa_get st i')"
  by (auto simp: aa_get_def aa_set_def aa_persist_def store_simps jm_has_iff)

interpretation aa: choice_store aa_get aa_set
  by unfold_locales (rule aa_get_set)

subsection \<open>The file of choices\<close>

lemma explicit_setting_json [simp]:
  "explicit_auto_accept_setting (setting_json s) = (if s = SetInherit then None else Some s)"
  by (cases s) (simp_all add: explicit_auto_accept_setting_def setting_json_def)

lemma explicit_never_inherit: "explicit_auto_accept_setting v = Some s \<Longrightarrow> s \<noteq> SetInherit"
  by (auto simp: explicit_auto_accept_setting_def split: if_splits)

lemma load_settings_stored:
  assumes "distinct (map fst m)" "set (map fst m) \<inter> set (map fst acc) = {}"
    and "SetInherit \<notin> jm_vals m"
  shows "load_settings (map (\<lambda>(k, s). (k, setting_json s)) m) acc = acc @ m"
  using assms
proof (induction m arbitrary: acc)
  case Nil
  then show ?case by simp
next
  case (Cons e m)
  then show ?case
    by (cases e) (auto simp: jm_set_def jm_has_def)
qed

lemma load_settings_explicit:
  "SetInherit \<notin> jm_vals acc \<Longrightarrow> SetInherit \<notin> jm_vals (load_settings kvs acc)"
proof (induction kvs acc rule: load_settings.induct)
  case (2 k v kvs m)
  then show ?case
    by (cases "explicit_auto_accept_setting v") (auto dest: jm_vals_set explicit_never_inherit)
qed simp

lemma load_settings_ok: "jm_ok acc \<Longrightarrow> jm_ok (load_settings kvs acc)"
  by (induction kvs acc rule: load_settings.induct) (auto split: option.splits)

text \<open>What is in memory is what a restart reads from the file.\<close>

definition aa_synced :: "auto_accept_store \<Rightarrow> bool" where
  "aa_synced st \<longleftrightarrow>
     jm_ok (aa_settings st) \<and> SetInherit \<notin> jm_vals (aa_settings st)
     \<and> aa_settings (create_auto_accept_store (aa_file st)) = aa_settings st"

lemma aa_synced_create: "aa_synced (create_auto_accept_store file)"
  by (auto simp: aa_synced_def create_auto_accept_store_def load_settings_ok load_settings_explicit
      split: option.split)

lemma aa_synced_persist:
  assumes "jm_ok (aa_settings st)" "SetInherit \<notin> jm_vals (aa_settings st)"
  shows "aa_synced (aa_persist st)"
  using assms load_settings_stored [of "aa_settings st" "[]"]
  by (simp add: aa_synced_def aa_persist_def create_auto_accept_store_def jm_ok_def)

lemma aa_synced_set:
  assumes "aa_synced st"
  shows "aa_synced (aa_set i s st)"
proof -
  have ok: "jm_ok (aa_settings st)" and ex: "SetInherit \<notin> jm_vals (aa_settings st)"
    using assms by (simp_all add: aa_synced_def)
  have "aa_synced (aa_persist (st\<lparr>aa_settings := jm_delete i (aa_settings st)\<rparr>))"
    using ok ex by (intro aa_synced_persist) (auto dest: jm_vals_delete)
  moreover have "aa_synced (aa_persist (st\<lparr>aa_settings := jm_set i s (aa_settings st)\<rparr>))"
    if "s \<noteq> SetInherit"
    using ok ex that by (intro aa_synced_persist) (auto dest: jm_vals_set)
  ultimately show ?thesis using assms by (simp add: aa_set_def)
qed

section \<open>Properties\<close>

text \<open>
  C17: The verdict on a request is deny exactly when some rule that applies to one of its
  patterns denies, allow when some rule applies and none of them denies, and ask when no
  rule applies: it depends neither on the order of the rules nor on that of the patterns.
\<close>

theorem evaluate_verdict:
  "service_evaluate s perm ps proj sess =
     (if \<exists>r p. r \<in> set (ps_rules s) \<and> p \<in> set (if ps = [] then [''*''] else ps)
            \<and> rule_applies perm proj sess p r \<and> pr_action r = Deny then Deny
      else if \<exists>r p. r \<in> set (ps_rules s) \<and> p \<in> set (if ps = [] then [''*''] else ps)
            \<and> rule_applies perm proj sess p r then Allow
      else Ask)"
  unfolding service_evaluate_def evaluate_eq hit_def request_patterns_def by auto

text \<open>
  Adding a rule never lifts a denial, unless the new rule has the key of a stored rule
  and so replaces it.
\<close>

theorem add_rule_monotone:
  assumes "pr_action rule = Deny \<or> \<not> (\<exists>x \<in> set (ps_rules s). same_key x rule)"
    and "service_evaluate s perm ps proj sess = Deny"
  shows "service_evaluate (add_rule s rule) perm ps proj sess = Deny"
proof -
  obtain r where r: "hit (ps_rules s) perm ps proj sess r" "pr_action r = Deny"
    using assms(2) by (auto simp: service_evaluate_def evaluate_eq split: if_splits)
  have "\<exists>r'. hit (ps_rules (add_rule s rule)) perm ps proj sess r' \<and> pr_action r' = Deny"
  proof (cases "same_key r rule")
    case True
    with r have "hit [rule] perm ps proj sess rule"
      using same_key_applies [OF True] by (auto simp: hit_def)
    moreover have "pr_action rule = Deny"
      using True r assms(1) by (auto simp: hit_def)
    ultimately show ?thesis by (auto simp: hit_add_rule)
  next
    case False
    with r show ?thesis by (auto simp: hit_add_rule)
  qed
  then show ?thesis by (simp add: service_evaluate_def evaluate_eq)
qed

definition sample_deny :: permission_rule where
  "sample_deny = \<lparr>pr_permission = ''bash'', pr_pattern = ''rm *'', pr_action = Deny,
     pr_scope = ScopeUser, pr_project = None, pr_session = None\<rparr>"

definition sample_allow :: permission_rule where
  "sample_allow = \<lparr>pr_permission = ''bash'', pr_pattern = ''*'', pr_action = Allow,
     pr_scope = ScopeSession, pr_project = None, pr_session = Some ''s1''\<rparr>"

lemmas sample_rule_defs = sample_deny_def sample_allow_def

theorem add_rule_monotone_witness:
  "service_evaluate (add_rule (add_rule (create_permission_service None) sample_deny) sample_allow)
     ''bash'' [''rm -rf /''] (Some ''p1'') (Some ''s1'') = Deny"
proof (rule add_rule_monotone)
  show "pr_action sample_allow = Deny \<or>
      \<not> (\<exists>x \<in> set (ps_rules (add_rule (create_permission_service None) sample_deny)). same_key x sample_allow)"
    by (simp add: add_rule_def persist_rules_def create_permission_service_def load_rules_def
        same_key_def sample_rule_defs)
  show "service_evaluate (add_rule (create_permission_service None) sample_deny)
      ''bash'' [''rm -rf /''] (Some ''p1'') (Some ''s1'') = Deny"
    by (simp add: service_evaluate_def evaluate_def add_rule_def persist_rules_def
        create_permission_service_def load_rules_def sample_rule_defs rule_matches_def)
qed

text \<open>
  A rule scoped to one session or to one project changes no verdict of a request from
  another session or another project, whatever the rule says.
\<close>

theorem add_rule_confined:
  assumes "pr_scope rule = ScopeSession \<and> pr_session rule \<noteq> sess
           \<or> pr_scope rule = ScopeProject \<and> pr_project rule \<noteq> proj"
  shows "service_evaluate (add_rule s rule) perm ps proj sess = service_evaluate s perm ps proj sess"
proof -
  have no: "\<not> hit rs perm ps proj sess rule" for rs
    using assms by (auto simp: hit_def rule_applies_def)
  have "\<not> (hit rs perm ps proj sess r \<and> same_key r rule)" for rs r
    using assms by (auto simp: hit_def rule_applies_def same_key_def)
  then have "hit (ps_rules (add_rule s rule)) perm ps proj sess = hit (ps_rules s) perm ps proj sess"
    using no by (intro ext) (auto simp: hit_add_rule)
  then show ?thesis by (simp add: service_evaluate_def evaluate_eq)
qed

theorem add_rule_confined_witness:
  "service_evaluate (add_rule (create_permission_service None) sample_allow)
     ''bash'' [''ls''] (Some ''p1'') (Some ''s2'') = Ask"
proof -
  have "service_evaluate (add_rule (create_permission_service None) sample_allow)
      ''bash'' [''ls''] (Some ''p1'') (Some ''s2'') =
    service_evaluate (create_permission_service None) ''bash'' [''ls''] (Some ''p1'') (Some ''s2'')"
    by (rule add_rule_confined) (simp add: sample_rule_defs)
  then show ?thesis
    by (simp add: service_evaluate_def evaluate_def create_permission_service_def load_rules_def)
qed

text \<open>
  A rule whose action is ask never makes the engine ask: on a request that it alone
  matches the verdict is allow, for every permission, pattern and scope.
\<close>

theorem ask_rule_allows:
  assumes "pr_action rule = Ask" and "p \<in> set (if ps = [] then [''*''] else ps)"
    and "rule_applies perm proj sess p rule"
  shows "service_evaluate (add_rule (create_permission_service None) rule) perm ps proj sess = Allow"
proof -
  have "hit [rule] perm ps proj sess rule"
    using assms by (auto simp: hit_def request_patterns_def)
  moreover have "ps_rules (add_rule (create_permission_service None) rule) = [rule]"
    by (simp add: ps_rules_add create_permission_service_def load_rules_def)
  ultimately show ?thesis
    using assms(1) by (auto simp: service_evaluate_def evaluate_eq hit_def)
qed

theorem ask_rule_allows_witness:
  "service_evaluate (add_rule (create_permission_service None)
       (sample_allow\<lparr>pr_action := Ask\<rparr>)) ''bash'' [''rm -rf /''] None (Some ''s1'') = Allow"
  by (rule ask_rule_allows [of _ "''rm -rf /''"])
    (simp_all add: sample_rule_defs rule_applies_def rule_matches_def)

lemma resolve_loop_found:
  assumes "resolve_loop f parent_of dflt seen cur = l" and "l \<noteq> dflt"
  shows "\<exists>ids x. parent_path parent_of cur (ids @ [x]) \<and> distinct (ids @ [x])
     \<and> set (ids @ [x]) \<inter> set seen = {} \<and> length seen + length ids < 64
     \<and> (\<forall>y \<in> set ids. f y = SetInherit) \<and> level_of_setting (f x) = Some l"
  using assms
proof (induction f parent_of dflt seen cur rule: resolve_loop.induct)
  case (1 f parent_of dflt seen cur)
  then have go: "truthy cur \<and> the cur \<notin> set seen \<and> length seen < 64"
    using resolve_loop_stop [of cur seen f parent_of dflt] by (meson not_le)
  show ?case
  proof (cases "level_of_setting (f (the cur))")
    case (Some l')
    with go "1.prems" have "l' = l" using resolve_loop_explicit [of cur seen f l'] by auto
    with go Some show ?thesis
      by (intro exI [of _ "[]"] exI [of _ "the cur"]) (cases cur; auto)
  next
    case None
    then have inh: "f (the cur) = SetInherit" by simp
    with go "1.prems" have "resolve_loop f parent_of dflt (the cur # seen) (parent_of (the cur)) = l"
      by (simp add: resolve_loop_skip)
    from "1.IH" [OF go inh this "1.prems"(2)] obtain ids x where
      "parent_path parent_of (parent_of (the cur)) (ids @ [x])" "distinct (ids @ [x])"
      "set (ids @ [x]) \<inter> set (the cur # seen) = {}" "length (the cur # seen) + length ids < 64"
      "\<forall>y \<in> set ids. f y = SetInherit" "level_of_setting (f x) = Some l"
      by blast
    with go inh show ?thesis
      by (intro exI [of _ "the cur # ids"] exI [of _ x]) (cases cur; auto)
  qed
qed

lemma parent_path_snoc:
  "parent_path parent_of cur (ids @ [x]) \<longleftrightarrow>
     parent_path parent_of cur ids \<and> after_path parent_of cur ids = Some x \<and> x \<noteq> []"
  by (induction ids arbitrary: cur) auto

lemma resolve_nearest:
  assumes "parent_path parent_of cur (ids @ [x])" "distinct (ids @ [x])" "length ids < 64"
    and "\<forall>y \<in> set ids. f y = SetInherit" "level_of_setting (f x) = Some l"
  shows "resolve_loop f parent_of dflt [] cur = l"
proof -
  have "resolve_loop f parent_of dflt [] cur = resolve_loop f parent_of dflt (rev ids @ []) (Some x)"
    using assms resolve_loop_walk [of parent_of cur ids "[]" f dflt] by (simp add: parent_path_snoc)
  also have "\<dots> = l"
    using assms by (intro resolve_loop_explicit) (auto simp: parent_path_snoc)
  finally show ?thesis .
qed

text \<open>
  The level of a session differs from the default exactly when the nearest explicit choice on
  its chain of parents says so: every session below that one inherits, no session is met
  twice, and at most 64 sessions are looked at.
\<close>

theorem nearest_choice_decides:
  assumes "l \<noteq> dflt"
  shows "resolve_auto_accept_level sid f parent_of dflt = l \<longleftrightarrow>
     (\<exists>ids x. parent_path parent_of sid (ids @ [x]) \<and> distinct (ids @ [x]) \<and> length ids < 64
        \<and> (\<forall>y \<in> set ids. f y = SetInherit) \<and> level_of_setting (f x) = Some l)"
    (is "?L \<longleftrightarrow> ?R")
proof
  assume ?L
  then have "resolve_loop f parent_of dflt [] sid = l" by (simp add: resolve_auto_accept_level_def)
  from resolve_loop_found [OF this assms] show ?R by auto
next
  assume ?R
  then show ?L using resolve_nearest unfolding resolve_auto_accept_level_def by blast
qed

definition sample_parents :: "string \<Rightarrow> string option" where
  "sample_parents c = (if c = ''child'' then Some ''root'' else None)"

theorem nearest_choice_decides_witness:
  "resolve_auto_accept_level (Some ''child'')
     (aa_get (aa_set ''root'' SetOff (create_auto_accept_store None))) sample_parents LevelAll = LevelOff"
proof -
  let ?f = "aa_get (aa_set ''root'' SetOff (create_auto_accept_store None))"
  have "parent_path sample_parents (Some ''child'') ([''child''] @ [''root''])
      \<and> distinct ([''child''] @ [''root'']) \<and> length [''child''] < 64
      \<and> (\<forall>y \<in> set [''child'']. ?f y = SetInherit) \<and> level_of_setting (?f ''root'') = Some LevelOff"
    by (simp add: sample_parents_def aa_get_set) (simp add: aa_get_def create_auto_accept_store_def)
  then show ?thesis
    using nearest_choice_decides [of LevelOff LevelAll "Some ''child''" ?f sample_parents] by blast
qed

text \<open>
  A restart loses no choice: after any write, a store created from the file answers
  every chat as the one in memory does, and it holds explicit choices only.
\<close>

theorem choices_survive_restart:
  assumes "aa_synced st"
  shows "aa_get (create_auto_accept_store (aa_file (aa_set i s st))) j = (if j = i then s else aa_get st j)
    \<and> aa_synced (aa_set i s st)"
  using aa_synced_set [OF assms, of i s] aa_get_set [of i s st j]
  by (simp add: aa_synced_def aa_get_def)

theorem choices_survive_restart_witness:
  "aa_get (create_auto_accept_store (aa_file (aa_set ''a'' SetOff
       (create_auto_accept_store (Some [(''b'', JStr ''all''), (''c'', JStr ''yes'')]))))) ''b'' = SetAll"
  using choices_survive_restart [OF aa_synced_create, of "''a''" SetOff
      "Some [(''b'', JStr ''all''), (''c'', JStr ''yes'')]" "''b''"]
  by (simp add: aa_get_def create_auto_accept_store_def explicit_auto_accept_setting_def jm_get_def
      jm_set_def jm_has_def)

text \<open>
  A trust receipt is honoured for exactly the subject it was issued for: same Space,
  project, source, content digest and semantic digest (an absent one counts as the empty
  one), and the requested scope when one is requested. A subject with an empty identity
  gets no receipt.
\<close>

theorem trust_receipt_exact:
  assumes "issue_content_trust_receipt s scope t = Some r"
  shows "content_trust_matches (Some r) s' wanted \<longleftrightarrow>
      ts_space s' = ts_space s \<and> ts_project s' = ts_project s \<and> ts_source_kind s' = ts_source_kind s
      \<and> ts_source_identity s' = ts_source_identity s \<and> ts_content_digest s' = ts_content_digest s
      \<and> nullish (ts_semantic_digest s') [] = nullish (ts_semantic_digest s) []
      \<and> wanted \<in> {None, Some scope}"
  using assms
  by (auto simp: issue_content_trust_receipt_def content_trust_matches_def split: if_splits)

definition sample_subject :: trust_subject where
  "sample_subject = \<lparr>ts_space = ''s'', ts_project = ''p'', ts_source_kind = ''hook'',
     ts_source_identity = ''a.json'', ts_content_digest = ''d1'', ts_semantic_digest = None\<rparr>"

theorem trust_receipt_exact_witness:
  "\<exists>r. issue_content_trust_receipt sample_subject Once 5 = Some r
     \<and> content_trust_matches (Some r) sample_subject (Some Once)
     \<and> \<not> content_trust_matches (Some r) (sample_subject\<lparr>ts_content_digest := ''d2''\<rparr>) None"
proof -
  obtain r where r: "issue_content_trust_receipt sample_subject Once 5 = Some r"
    by (simp add: issue_content_trust_receipt_def sample_subject_def)
  from trust_receipt_exact [OF r] r show ?thesis by (simp add: sample_subject_def)
qed

end
