(* ===== verification/ControlPlane.thy ===== *)
theory ControlPlane
  imports Prelude "HOL-Library.List_Lexorder" "HOL-Library.Char_ord" "HOL-Library.Product_Lexorder"
begin

text \<open>
  The control plane of packages/control-plane: its tables as lists of rows, the SQL
  statements the packages run on them, the transaction that rolls a failed piece of work
  back, and the audit log with its outbox. A column with a CHECK on its values is a
  datatype, a nullable one an option. One operation reads the clock once.
\<close>

section \<open>Rows\<close>

datatype visibility = Private | Restricted | SpaceWide | Inherit

datatype lifecycle = Provisioning | Active | Archiving | Archived | Deleting | Deleted | Quarantined

datatype provisioning_state = Pending | DomainReady | Finalized | Aborted | SagaQuarantined

datatype access_level = View | Collaborate | Manage

datatype member_role = RoleOwner | RoleAdmin | RoleMember | RoleViewer | RoleReference

datatype principal_kind = KindUser | KindGroup | KindService | KindSystem

datatype principal_status = StatusActive | StatusSuspended | StatusOffboarding | StatusDisabled

record resource_row =
  rs_id :: string
  rs_kind :: string
  rs_org :: string
  rs_space :: string
  rs_parent :: "string option"
  rs_access_parent :: "string option"
  rs_owner :: string
  rs_created_by :: string
  rs_visibility :: visibility
  rs_lifecycle :: lifecycle
  rs_access_revision :: int
  rs_revision :: int
  rs_created_at :: int
  rs_updated_at :: int

record provisioning_row =
  pv_operation :: string
  pv_resource :: string
  pv_request :: string
  pv_state :: provisioning_state
  pv_receipt :: "string option"
  pv_created_at :: int
  pv_updated_at :: int
  pv_revision :: int

record grant_row =
  gr_resource :: string
  gr_principal :: string
  gr_access :: access_level
  gr_granted_by :: string
  gr_created_at :: int
  gr_updated_at :: int
  gr_expires :: "int option"
  gr_revision :: int

record policy_row =
  sp_policy_space :: string
  sp_default_space :: bool
  sp_allow_space :: bool
  sp_members_share :: bool
  sp_max_access :: access_level
  sp_policy_revision :: int
  sp_updated_by :: string
  sp_policy_updated_at :: int

record member_row =
  mb_space :: string
  mb_principal :: string
  mb_role :: member_role
  mb_active :: bool
  mb_expires :: "int option"

record principal_row =
  pp_id :: string
  pp_kind :: principal_kind
  pp_status :: principal_status

record space_row =
  sc_id :: string
  sc_org :: string

record audit_row =
  au_seq :: int
  au_actor :: string
  au_action :: string
  au_resource :: "string option"
  au_time :: int
  au_epoch :: int

record outbox_row =
  ob_id :: int
  ob_audit_seq :: int
  ob_delivered :: "int option"
  ob_attempts :: nat
  ob_next_attempt :: int
  ob_lease :: "string option"
  ob_lease_expires :: "int option"
  ob_error :: bool

record receipt_row =
  rc_actor :: string
  rc_operation :: string
  rc_digest :: string
  rc_response :: json
  rc_created_at :: int

record db =
  db_resources :: "resource_row list"
  db_provisioning :: "provisioning_row list"
  db_grants :: "grant_row list"
  db_policies :: "policy_row list"
  db_members :: "member_row list"
  db_principals :: "principal_row list"
  db_spaces :: "space_row list"
  db_audit :: "audit_row list"
  db_outbox :: "outbox_row list"
  db_receipts :: "receipt_row list"
  db_epoch :: int
  db_next_seq :: int
  db_next_outbox :: int

section \<open>SQL\<close>

text \<open>A read of one row, an UPDATE, the number of rows it changes, and a DELETE.\<close>

definition sql_get :: "('r \<Rightarrow> bool) \<Rightarrow> 'r list \<Rightarrow> 'r option" where
  "sql_get P rows = find P rows"

definition sql_update :: "('r \<Rightarrow> bool) \<Rightarrow> ('r \<Rightarrow> 'r) \<Rightarrow> 'r list \<Rightarrow> 'r list" where
  "sql_update P f rows = map (\<lambda>r. if P r then f r else r) rows"

definition sql_changes :: "('r \<Rightarrow> bool) \<Rightarrow> 'r list \<Rightarrow> nat" where
  "sql_changes P rows = length (filter P rows)"

definition sql_delete :: "('r \<Rightarrow> bool) \<Rightarrow> 'r list \<Rightarrow> 'r list" where
  "sql_delete P rows = filter (\<lambda>r. \<not> P r) rows"

text \<open>\<open>expires_at_ms IS NULL OR expires_at_ms > now\<close>.\<close>

definition unexpired :: "int \<Rightarrow> int option \<Rightarrow> bool" where
  "unexpired now e = (case e of None \<Rightarrow> True | Some t \<Rightarrow> t > now)"

section \<open>Transactions and the audit log\<close>

text \<open>
  A piece of work returns its error or its value with the database as it left it, the
  writes before a throw included; the transaction commits the value's database and puts
  the old one back after a throw.
\<close>

definition transaction :: "('s \<Rightarrow> ('e + 'a) \<times> 's) \<Rightarrow> 's \<Rightarrow> ('e + 'a) \<times> 's" where
  "transaction work d =
     (case work d of
        (Inr x, d') \<Rightarrow> (Inr x, d')
      | (Inl e, _) \<Rightarrow> (Inl e, d))"

definition audit :: "int \<Rightarrow> string \<Rightarrow> string \<Rightarrow> string option \<Rightarrow> db \<Rightarrow> db" where
  "audit now actor action resource d =
     (let seq = db_next_seq d in
      d\<lparr>db_audit := db_audit d @
          [\<lparr>au_seq = seq, au_actor = actor, au_action = action, au_resource = resource,
            au_time = now, au_epoch = db_epoch d\<rparr>],
        db_next_seq := seq + 1,
        db_outbox := db_outbox d @
          [\<lparr>ob_id = db_next_outbox d, ob_audit_seq = seq, ob_delivered = None, ob_attempts = 0,
            ob_next_attempt = 0, ob_lease = None, ob_lease_expires = None, ob_error = False\<rparr>],
        db_next_outbox := db_next_outbox d + 1\<rparr>)"

section \<open>Identifiers\<close>

text \<open>The pattern of identifiers: a first character, then at most 199 more.\<close>

definition within :: "char \<Rightarrow> char \<Rightarrow> char \<Rightarrow> bool" where
  "within lo hi c \<longleftrightarrow> lo \<le> c \<and> c \<le> hi"

definition is_letter :: "char \<Rightarrow> bool" where
  "is_letter c \<longleftrightarrow> within CHR ''a'' CHR ''z'' c \<or> within CHR ''A'' CHR ''Z'' c"

definition is_digit :: "char \<Rightarrow> bool" where
  "is_digit c \<longleftrightarrow> within CHR ''0'' CHR ''9'' c"

definition is_identifier :: "string \<Rightarrow> bool" where
  "is_identifier s =
     (case s of
        [] \<Rightarrow> False
      | c # cs \<Rightarrow> (is_letter c \<or> is_digit c \<or> c = CHR ''_'')
          \<and> length cs \<le> 199
          \<and> list_all (\<lambda>x. is_letter x \<or> is_digit x \<or> x \<in> set ''_.:-'') cs)"

definition is_kind :: "string \<Rightarrow> bool" where
  "is_kind s =
     (case s of
        [] \<Rightarrow> False
      | c # cs \<Rightarrow> within CHR ''a'' CHR ''z'' c
          \<and> length cs \<le> 63
          \<and> list_all (\<lambda>x. within CHR ''a'' CHR ''z'' x \<or> is_digit x \<or> x \<in> set ''.-'') cs)"

definition max_safe_integer :: int where
  "max_safe_integer = 2 ^ 53 - 1"

text \<open>\<open>Number.isSafeInteger(value) && value >= 1\<close>.\<close>

definition is_revision :: "int \<Rightarrow> bool" where
  "is_revision n \<longleftrightarrow> 1 \<le> n \<and> n \<le> max_safe_integer"

text \<open>\<open>Buffer.byteLength\<close> of a string.\<close>

definition utf8_length :: "string \<Rightarrow> int" where
  "utf8_length s = sum_list (map (\<lambda>c. if (of_char c :: nat) < 128 then 1 else 2) s)"

section \<open>Lemmas on the statements\<close>

named_theorems db_simps \<open>what the statements leave in the tables\<close>

lemma transaction_Inl: "transaction work d = (Inl e, d') \<Longrightarrow> d' = d"
  by (auto simp: transaction_def split: prod.splits sum.splits)

lemma transaction_Inr:
  "transaction work d = (Inr x, d') \<longleftrightarrow> work d = (Inr x, d')"
  by (auto simp: transaction_def split: prod.splits sum.splits)

lemma audit_tables [simp, db_simps]:
  "db_resources (audit now a b c d) = db_resources d"
  "db_provisioning (audit now a b c d) = db_provisioning d"
  "db_grants (audit now a b c d) = db_grants d"
  "db_policies (audit now a b c d) = db_policies d"
  "db_members (audit now a b c d) = db_members d"
  "db_principals (audit now a b c d) = db_principals d"
  "db_spaces (audit now a b c d) = db_spaces d"
  "db_receipts (audit now a b c d) = db_receipts d"
  "db_epoch (audit now a b c d) = db_epoch d"
  by (simp_all add: audit_def Let_def)

lemma sql_get_SomeD: "sql_get P rows = Some r \<Longrightarrow> P r \<and> r \<in> set rows"
  by (simp add: sql_get_def find_SomeD)

lemma sql_get_None: "sql_get P rows = None \<longleftrightarrow> (\<forall>r \<in> set rows. \<not> P r)"
  by (auto simp: sql_get_def find_None_iff)

lemma sql_get_unique:
  assumes "distinct (map key rows)" "r \<in> set rows"
  shows "sql_get (\<lambda>x. key x = key r) rows = Some r"
  using assms by (induction rows) (auto simp: sql_get_def)

lemma sql_get_unique_iff:
  assumes "distinct (map key rows)"
  shows "sql_get (\<lambda>x. key x = k) rows = Some r \<longleftrightarrow> r \<in> set rows \<and> key r = k"
  using sql_get_unique [OF assms, of r] sql_get_SomeD [of "\<lambda>x. key x = k" rows r] by auto

lemma sql_update_keys [simp]:
  "(\<And>r. key (f r) = key r) \<Longrightarrow> map key (sql_update P f rows) = map key rows"
  by (simp add: sql_update_def)

lemma set_sql_update: "set (sql_update P f rows) = (\<lambda>r. if P r then f r else r) ` set rows"
  by (simp add: sql_update_def)

lemma sql_get_Cons [simp]:
  "sql_get P [] = None"
  "sql_get P (x # xs) = (if P x then Some x else sql_get P xs)"
  by (simp_all add: sql_get_def)

lemma sql_get_update:
  assumes "\<And>r. key (f r) = key r"
  shows "sql_get (\<lambda>x. key x = k) (sql_update P f rows) =
     map_option (\<lambda>r. if P r then f r else r) (sql_get (\<lambda>x. key x = k) rows)"
proof (induction rows)
  case (Cons x xs)
  then show ?case using assms [of x] by (cases "P x"; cases "key x = k") (simp_all add: sql_update_def)
qed (simp add: sql_update_def)

lemma sql_changes_one:
  assumes "distinct (map key rows)" "r \<in> set rows" "P r" "\<And>x. P x \<Longrightarrow> key x = key r"
  shows "sql_changes P rows = 1"
proof -
  have "{x. P x} \<inter> set rows = {r}"
    using assms by (auto dest: inj_onD simp: distinct_map)
  moreover have "distinct rows" using assms(1) by (simp add: distinct_map)
  ultimately show ?thesis by (simp add: sql_changes_def distinct_length_filter)
qed

lemma sql_get_append:
  "sql_get P (xs @ ys) = (case sql_get P xs of None \<Rightarrow> sql_get P ys | Some r \<Rightarrow> Some r)"
  by (simp add: sql_get_def find_append split: option.split)

end
