(* ===== verification/Resources.thy ===== *)
theory Resources
  imports ControlPlane
begin

text \<open>
  The resource registry of packages/control-plane/src/resources.ts: the saga that brings a
  resource into being across two stores (begin, domain ready, activate, or abort and
  quarantine) and the move of a session to another project. The digest functions are
  parameters: \<open>sha\<close> of \<open>digest(receipt)\<close> and \<open>req\<close> of \<open>digest(JSON.stringify(request))\<close>.
\<close>

section \<open>Requests\<close>

record begin_input =
  bi_operation :: string
  bi_resource :: string
  bi_kind :: string
  bi_org :: string
  bi_space :: string
  bi_parent :: "string option"
  bi_access_parent :: "string option"
  bi_owner :: string
  bi_created_by :: string
  bi_visibility :: visibility

record move_input =
  mi_resource :: string
  mi_org :: string
  mi_space :: string
  mi_from :: string
  mi_to :: string
  mi_actor :: string

definition opt_identifier :: "string option \<Rightarrow> bool" where
  "opt_identifier x = (case x of None \<Rightarrow> True | Some s \<Rightarrow> is_identifier s)"

definition valid_begin :: "begin_input \<Rightarrow> bool" where
  "valid_begin i \<longleftrightarrow>
     is_identifier (bi_operation i) \<and> is_identifier (bi_resource i) \<and> is_kind (bi_kind i)
     \<and> is_identifier (bi_org i) \<and> is_identifier (bi_space i)
     \<and> opt_identifier (bi_parent i) \<and> opt_identifier (bi_access_parent i)
     \<and> is_identifier (bi_owner i) \<and> is_identifier (bi_created_by i)"

definition visibility_text :: "visibility \<Rightarrow> string" where
  "visibility_text v = (case v of Private \<Rightarrow> ''private'' | Restricted \<Rightarrow> ''restricted''
                                | SpaceWide \<Rightarrow> ''space'' | Inherit \<Rightarrow> ''inherit'')"

text \<open>The document whose digest identifies a request: all of it but the operation ID.\<close>

definition request_document :: "begin_input \<Rightarrow> json" where
  "request_document i =
     JObj ([(''resourceId'', JStr (bi_resource i)), (''kind'', JStr (bi_kind i)),
            (''orgId'', JStr (bi_org i)), (''spaceId'', JStr (bi_space i)),
            (''parentId'', case bi_parent i of None \<Rightarrow> JNull | Some p \<Rightarrow> JStr p),
            (''ownerPrincipalId'', JStr (bi_owner i)), (''createdBy'', JStr (bi_created_by i)),
            (''visibility'', JStr (visibility_text (bi_visibility i)))]
           @ opt_entry ''accessParentId'' JStr (bi_access_parent i))"

definition request_digest :: "(json \<Rightarrow> string) \<Rightarrow> begin_input \<Rightarrow> string" where
  "request_digest req i = req (request_document i)"

section \<open>Reads\<close>

definition get_resource :: "db \<Rightarrow> string \<Rightarrow> resource_row option" where
  "get_resource d i = sql_get (\<lambda>r. rs_id r = i) (db_resources d)"

definition get_provisioning :: "db \<Rightarrow> string \<Rightarrow> provisioning_row option" where
  "get_provisioning d op = sql_get (\<lambda>p. pv_operation p = op) (db_provisioning d)"

definition registry_resource :: "string \<Rightarrow> db \<Rightarrow> control_error + resource_row option" where
  "registry_resource i d = (if \<not> is_identifier i then Inl InvalidInput else Inr (get_resource d i))"

definition registry_active :: "string \<Rightarrow> string \<Rightarrow> string \<Rightarrow> db \<Rightarrow> control_error + resource_row option" where
  "registry_active i org sp d =
     (if \<not> (is_identifier i \<and> is_identifier org \<and> is_identifier sp) then Inl InvalidInput
      else Inr (sql_get (\<lambda>r. rs_id r = i \<and> rs_org r = org \<and> rs_space r = sp \<and> rs_lifecycle r = Active)
                  (db_resources d)))"

definition registry_provisioning :: "string \<Rightarrow> db \<Rightarrow> control_error + provisioning_row option" where
  "registry_provisioning op d =
     (if \<not> is_identifier op then Inl InvalidInput else Inr (get_provisioning d op))"

definition registry_pending :: "db \<Rightarrow> provisioning_row list" where
  "registry_pending d =
     sort_key (\<lambda>p. (pv_updated_at p, pv_operation p))
       (filter (\<lambda>p. pv_state p \<in> {Pending, DomainReady, SagaQuarantined}) (db_provisioning d))"

definition asserted_resource :: "string \<Rightarrow> db \<Rightarrow> control_error + provisioning_row \<times> resource_row" where
  "asserted_resource op d =
     (case get_provisioning d op of
        None \<Rightarrow> Inl NotFound
      | Some saga \<Rightarrow>
          (case get_resource d (pv_resource saga) of
             None \<Rightarrow> Inl RecoveryRequired
           | Some row \<Rightarrow> Inr (saga, row)))"

section \<open>The saga\<close>

text \<open>A request whose operation was already begun: its row, or a conflict.\<close>

definition begin_replay :: "string \<Rightarrow> begin_input \<Rightarrow> provisioning_row \<Rightarrow> db
    \<Rightarrow> control_error + resource_row \<times> provisioning_row \<times> bool" where
  "begin_replay request i prior d =
     (if pv_request prior \<noteq> request \<or> pv_resource prior \<noteq> bi_resource i then Inl Conflict
      else case get_resource d (pv_resource prior) of
             None \<Rightarrow> Inl RecoveryRequired
           | Some row \<Rightarrow> Inr (row, prior, True))"

definition has_active_principal :: "db \<Rightarrow> string \<Rightarrow> bool" where
  "has_active_principal d p \<longleftrightarrow>
     sql_get (\<lambda>x. pp_id x = p \<and> pp_status x = StatusActive) (db_principals d) \<noteq> None"

definition new_resource :: "int \<Rightarrow> begin_input \<Rightarrow> resource_row" where
  "new_resource time i =
     \<lparr>rs_id = bi_resource i, rs_kind = bi_kind i, rs_org = bi_org i, rs_space = bi_space i,
      rs_parent = bi_parent i, rs_access_parent = bi_access_parent i, rs_owner = bi_owner i,
      rs_created_by = bi_created_by i, rs_visibility = bi_visibility i,
      rs_lifecycle = Provisioning, rs_access_revision = 1, rs_revision = 1,
      rs_created_at = time, rs_updated_at = time\<rparr>"

definition new_provisioning :: "int \<Rightarrow> string \<Rightarrow> begin_input \<Rightarrow> provisioning_row" where
  "new_provisioning time request i =
     \<lparr>pv_operation = bi_operation i, pv_resource = bi_resource i, pv_request = request,
      pv_state = Pending, pv_receipt = None, pv_created_at = time, pv_updated_at = time,
      pv_revision = 1\<rparr>"

definition begin_checks :: "begin_input \<Rightarrow> db \<Rightarrow> control_error option" where
  "begin_checks i d =
     (if get_resource d (bi_resource i) \<noteq> None then Some Conflict
      else if sql_get (\<lambda>s. sc_id s = bi_space i \<and> sc_org s = bi_org i) (db_spaces d) = None
      then Some NotFound
      else if \<not> has_active_principal d (bi_owner i) \<or> \<not> has_active_principal d (bi_created_by i)
      then Some NotFound
      else if (case bi_parent i of
                 None \<Rightarrow> False
               | Some p \<Rightarrow> sql_get (\<lambda>r. rs_id r = p \<and> rs_org r = bi_org i \<and> rs_space r = bi_space i
                             \<and> rs_lifecycle r = Active) (db_resources d) = None)
      then Some NotFound
      else (case bi_access_parent i of
              None \<Rightarrow> None
            | Some a \<Rightarrow>
                if a = bi_resource i \<or> bi_visibility i \<noteq> Inherit then Some InvalidInput
                else if sql_get (\<lambda>r. rs_id r = a \<and> rs_org r = bi_org i \<and> rs_space r = bi_space i
                       \<and> rs_lifecycle r \<in> {Active, Archived}) (db_resources d) = None
                then Some NotFound
                else None))"

definition begin_work :: "string \<Rightarrow> int \<Rightarrow> begin_input \<Rightarrow> db
    \<Rightarrow> (control_error + resource_row \<times> provisioning_row \<times> bool) \<times> db" where
  "begin_work request time i d =
     (case get_provisioning d (bi_operation i) of
        Some raced \<Rightarrow> (begin_replay request i raced d, d)
      | None \<Rightarrow>
          (case begin_checks i d of
             Some e \<Rightarrow> (Inl e, d)
           | None \<Rightarrow>
               (let row = new_resource time i;
                    saga = new_provisioning time request i
                in (Inr (row, saga, False),
                    audit time (bi_created_by i) ''resource.provisioning-begun'' (Some (bi_resource i))
                      (d\<lparr>db_resources := db_resources d @ [row],
                         db_provisioning := db_provisioning d @ [saga]\<rparr>)))))"

definition begin_provisioning :: "(json \<Rightarrow> string) \<Rightarrow> int \<Rightarrow> begin_input \<Rightarrow> db
    \<Rightarrow> (control_error + resource_row \<times> provisioning_row \<times> bool) \<times> db" where
  "begin_provisioning req now i d =
     (if \<not> valid_begin i then (Inl InvalidInput, d)
      else
        (let request = request_digest req i in
         case get_provisioning d (bi_operation i) of
           Some prior \<Rightarrow> (begin_replay request i prior d, d)
         | None \<Rightarrow> transaction (begin_work request now i) d))"

text \<open>
  An UPDATE that must hit one row: \<open>changed(control.run(...).changes)\<close>. The predicate
  \<open>P\<close> is its WHERE clause.
\<close>

definition update_resource :: "(resource_row \<Rightarrow> bool) \<Rightarrow> (resource_row \<Rightarrow> resource_row) \<Rightarrow> db
    \<Rightarrow> (control_error + unit) \<times> db" where
  "update_resource P f d =
     (let d' = d\<lparr>db_resources := sql_update P f (db_resources d)\<rparr>
      in (if sql_changes P (db_resources d) = 1 then Inr () else Inl Conflict, d'))"

definition update_provisioning :: "(provisioning_row \<Rightarrow> bool) \<Rightarrow> (provisioning_row \<Rightarrow> provisioning_row)
    \<Rightarrow> db \<Rightarrow> (control_error + unit) \<times> db" where
  "update_provisioning P f d =
     (let d' = d\<lparr>db_provisioning := sql_update P f (db_provisioning d)\<rparr>
      in (if sql_changes P (db_provisioning d) = 1 then Inr () else Inl Conflict, d'))"

text \<open>The two rows a step of the saga reads back at its end.\<close>

definition reread_provisioning :: "string \<Rightarrow> db \<Rightarrow> (control_error + provisioning_row) \<times> db" where
  "reread_provisioning op d =
     (case get_provisioning d op of None \<Rightarrow> (Inl RecoveryRequired, d) | Some p \<Rightarrow> (Inr p, d))"

definition reread_resource :: "string \<Rightarrow> db \<Rightarrow> (control_error + resource_row) \<times> db" where
  "reread_resource i d =
     (case get_resource d i of None \<Rightarrow> (Inl RecoveryRequired, d) | Some r \<Rightarrow> (Inr r, d))"

definition system_actor :: string where
  "system_actor = ''system:resource-provisioner''"

definition domain_ready_work :: "(string \<Rightarrow> string) \<Rightarrow> int \<Rightarrow> string \<Rightarrow> string \<Rightarrow> db
    \<Rightarrow> (control_error + provisioning_row) \<times> db" where
  "domain_ready_work sha now op receipt d =
     (case asserted_resource op d of
        Inl e \<Rightarrow> (Inl e, d)
      | Inr (saga, row) \<Rightarrow>
          if pv_state saga = Finalized then
            (if pv_receipt saga \<noteq> Some (sha receipt) \<or> rs_lifecycle row \<noteq> Active
             then (Inl Conflict, d) else (Inr saga, d))
          else if pv_state saga = Aborted then (Inl Conflict, d)
          else if rs_lifecycle row \<noteq> Provisioning \<and> rs_lifecycle row \<noteq> Quarantined
          then (Inl RecoveryRequired, d)
          else if pv_state saga = DomainReady then
            (if pv_receipt saga \<noteq> Some (sha receipt) then (Inl Conflict, d) else (Inr saga, d))
          else if pv_receipt saga \<noteq> None \<and> pv_receipt saga \<noteq> Some (sha receipt)
          then (Inl Conflict, d)
          else
            (case update_provisioning
                    (\<lambda>p. pv_operation p = op \<and> pv_revision p = pv_revision saga
                       \<and> pv_state p \<in> {Pending, SagaQuarantined})
                    (\<lambda>p. p\<lparr>pv_state := DomainReady, pv_receipt := Some (sha receipt),
                           pv_updated_at := now, pv_revision := pv_revision p + 1\<rparr>) d of
               (Inl e, d') \<Rightarrow> (Inl e, d')
             | (Inr _, d') \<Rightarrow>
                 reread_provisioning op
                   (audit now system_actor ''resource.domain-ready'' (Some (pv_resource saga)) d')))"

definition record_domain_ready :: "(string \<Rightarrow> string) \<Rightarrow> int \<Rightarrow> string \<Rightarrow> string \<Rightarrow> db
    \<Rightarrow> (control_error + provisioning_row) \<times> db" where
  "record_domain_ready sha now op receipt d =
     (if \<not> is_identifier op \<or> receipt = [] \<or> utf8_length receipt > 65536 then (Inl InvalidInput, d)
      else transaction (domain_ready_work sha now op receipt) d)"

definition activate_work :: "int \<Rightarrow> string \<Rightarrow> int \<Rightarrow> db \<Rightarrow> (control_error + resource_row) \<times> db" where
  "activate_work now op expected d =
     (case asserted_resource op d of
        Inl e \<Rightarrow> (Inl e, d)
      | Inr (saga, row) \<Rightarrow>
          if pv_state saga = Finalized then
            (if rs_lifecycle row \<noteq> Active then (Inl RecoveryRequired, d) else (Inr row, d))
          else if pv_state saga \<noteq> DomainReady \<or> \<not> truthy (pv_receipt saga) then (Inl Conflict, d)
          else if rs_revision row \<noteq> expected then (Inl Conflict, d)
          else if rs_lifecycle row \<noteq> Provisioning \<and> rs_lifecycle row \<noteq> Quarantined
          then (Inl Conflict, d)
          else
            (case update_resource
                    (\<lambda>r. rs_id r = rs_id row \<and> rs_revision r = expected
                       \<and> rs_lifecycle r \<in> {Provisioning, Quarantined})
                    (\<lambda>r. r\<lparr>rs_lifecycle := Active, rs_access_revision := rs_access_revision r + 1,
                           rs_revision := rs_revision r + 1, rs_updated_at := now\<rparr>) d of
               (Inl e, d1) \<Rightarrow> (Inl e, d1)
             | (Inr _, d1) \<Rightarrow>
                 (case update_provisioning
                         (\<lambda>p. pv_operation p = op \<and> pv_revision p = pv_revision saga
                            \<and> pv_state p = DomainReady)
                         (\<lambda>p. p\<lparr>pv_state := Finalized, pv_updated_at := now,
                                pv_revision := pv_revision p + 1\<rparr>) d1 of
                    (Inl e, d2) \<Rightarrow> (Inl e, d2)
                  | (Inr _, d2) \<Rightarrow>
                      reread_resource (rs_id row)
                        (audit now (rs_created_by row) ''resource.activated'' (Some (rs_id row)) d2))))"

definition activate :: "int \<Rightarrow> string \<Rightarrow> int \<Rightarrow> db \<Rightarrow> (control_error + resource_row) \<times> db" where
  "activate now op expected d =
     (if \<not> is_identifier op \<or> \<not> is_revision expected then (Inl InvalidInput, d)
      else transaction (activate_work now op expected) d)"

definition abort_work :: "int \<Rightarrow> string \<Rightarrow> int \<Rightarrow> db \<Rightarrow> (control_error + resource_row) \<times> db" where
  "abort_work now op expected d =
     (case asserted_resource op d of
        Inl e \<Rightarrow> (Inl e, d)
      | Inr (saga, row) \<Rightarrow>
          if pv_state saga = Aborted then
            (if rs_lifecycle row \<noteq> Deleted then (Inl RecoveryRequired, d) else (Inr row, d))
          else if pv_state saga = DomainReady \<or> pv_state saga = Finalized \<or> pv_receipt saga \<noteq> None
          then (Inl Conflict, d)
          else if rs_revision row \<noteq> expected then (Inl Conflict, d)
          else if rs_lifecycle row \<noteq> Provisioning \<and> rs_lifecycle row \<noteq> Quarantined
          then (Inl Conflict, d)
          else
            (case update_resource
                    (\<lambda>r. rs_id r = rs_id row \<and> rs_revision r = expected
                       \<and> rs_lifecycle r \<in> {Provisioning, Quarantined})
                    (\<lambda>r. r\<lparr>rs_lifecycle := Deleted, rs_revision := rs_revision r + 1,
                           rs_updated_at := now\<rparr>) d of
               (Inl e, d1) \<Rightarrow> (Inl e, d1)
             | (Inr _, d1) \<Rightarrow>
                 (case update_provisioning
                         (\<lambda>p. pv_operation p = op \<and> pv_revision p = pv_revision saga
                            \<and> pv_state p \<in> {Pending, SagaQuarantined})
                         (\<lambda>p. p\<lparr>pv_state := Aborted, pv_updated_at := now,
                                pv_revision := pv_revision p + 1\<rparr>) d1 of
                    (Inl e, d2) \<Rightarrow> (Inl e, d2)
                  | (Inr _, d2) \<Rightarrow>
                      reread_resource (rs_id row)
                        (audit now system_actor ''resource.provisioning-aborted''
                           (Some (rs_id row)) d2))))"

definition abort_missing_domain :: "int \<Rightarrow> string \<Rightarrow> int \<Rightarrow> db
    \<Rightarrow> (control_error + resource_row) \<times> db" where
  "abort_missing_domain now op expected d =
     (if \<not> is_identifier op \<or> \<not> is_revision expected then (Inl InvalidInput, d)
      else transaction (abort_work now op expected) d)"

definition quarantine_work :: "int \<Rightarrow> string \<Rightarrow> int \<Rightarrow> db \<Rightarrow> (control_error + resource_row) \<times> db" where
  "quarantine_work now op expected d =
     (case asserted_resource op d of
        Inl e \<Rightarrow> (Inl e, d)
      | Inr (saga, row) \<Rightarrow>
          if pv_state saga = SagaQuarantined then
            (if rs_lifecycle row \<noteq> Quarantined then (Inl RecoveryRequired, d) else (Inr row, d))
          else if pv_state saga = Finalized \<or> pv_state saga = Aborted then (Inl Conflict, d)
          else if rs_revision row \<noteq> expected then (Inl Conflict, d)
          else if rs_lifecycle row \<noteq> Provisioning then (Inl Conflict, d)
          else
            (case update_resource
                    (\<lambda>r. rs_id r = rs_id row \<and> rs_revision r = expected
                       \<and> rs_lifecycle r = Provisioning)
                    (\<lambda>r. r\<lparr>rs_lifecycle := Quarantined, rs_revision := rs_revision r + 1,
                           rs_updated_at := now\<rparr>) d of
               (Inl e, d1) \<Rightarrow> (Inl e, d1)
             | (Inr _, d1) \<Rightarrow>
                 (case update_provisioning
                         (\<lambda>p. pv_operation p = op \<and> pv_revision p = pv_revision saga
                            \<and> pv_state p \<in> {Pending, DomainReady})
                         (\<lambda>p. p\<lparr>pv_state := SagaQuarantined, pv_updated_at := now,
                                pv_revision := pv_revision p + 1\<rparr>) d1 of
                    (Inl e, d2) \<Rightarrow> (Inl e, d2)
                  | (Inr _, d2) \<Rightarrow>
                      reread_resource (rs_id row)
                        (audit now system_actor ''resource.provisioning-quarantined''
                           (Some (rs_id row)) d2))))"

definition quarantine_unknown :: "int \<Rightarrow> string \<Rightarrow> int \<Rightarrow> db
    \<Rightarrow> (control_error + resource_row) \<times> db" where
  "quarantine_unknown now op expected d =
     (if \<not> is_identifier op \<or> \<not> is_revision expected then (Inl InvalidInput, d)
      else transaction (quarantine_work now op expected) d)"

section \<open>Moving a session\<close>

definition move_work :: "int \<Rightarrow> move_input \<Rightarrow> db \<Rightarrow> (control_error + resource_row) \<times> db" where
  "move_work now i d =
     (case get_resource d (mi_resource i) of
        None \<Rightarrow> (Inl NotFound, d)
      | Some row \<Rightarrow>
          if rs_org row \<noteq> mi_org i \<or> rs_space row \<noteq> mi_space i then (Inl NotFound, d)
          else if rs_kind row \<noteq> ''session'' then (Inl InvalidInput, d)
          else if rs_parent row = Some (mi_to i) then (Inr row, d)
          else if rs_parent row \<noteq> Some (mi_from i) then (Inl Conflict, d)
          else if rs_lifecycle row \<noteq> Active \<and> rs_lifecycle row \<noteq> Archived then (Inl Conflict, d)
          else if sql_get (\<lambda>r. rs_id r = mi_to i \<and> rs_org r = mi_org i \<and> rs_space r = mi_space i
                    \<and> rs_kind r = ''project'' \<and> rs_lifecycle r = Active) (db_resources d) = None
          then (Inl NotFound, d)
          else
            (case update_resource
                    (\<lambda>r. rs_id r = mi_resource i \<and> rs_revision r = rs_revision row
                       \<and> rs_parent r = Some (mi_from i))
                    (\<lambda>r. r\<lparr>rs_parent := Some (mi_to i), rs_access_revision := rs_access_revision r + 1,
                           rs_revision := rs_revision r + 1, rs_updated_at := now\<rparr>) d of
               (Inl e, d1) \<Rightarrow> (Inl e, d1)
             | (Inr _, d1) \<Rightarrow>
                 reread_resource (mi_resource i)
                   (audit now (mi_actor i) ''resource.moved'' (Some (mi_resource i)) d1)))"

definition move_session :: "int \<Rightarrow> move_input \<Rightarrow> db \<Rightarrow> (control_error + resource_row) \<times> db" where
  "move_session now i d =
     (if \<not> (is_identifier (mi_resource i) \<and> is_identifier (mi_org i) \<and> is_identifier (mi_space i)
            \<and> is_identifier (mi_from i) \<and> is_identifier (mi_to i) \<and> is_identifier (mi_actor i))
      then (Inl InvalidInput, d)
      else transaction (move_work now i) d)"

end
