(* ===== verification/RegistryInv.thy ===== *)
theory RegistryInv
  imports Resources
begin

text \<open>
  The invariant of the resource registry: which states of a provisioning saga go with
  which lifecycles of its resource. Each step of the saga replaces one row of each table,
  which the lemmas \<open>*_cases\<close> say, and every such replacement keeps the invariant.
\<close>

section \<open>Replacing one row\<close>

definition replace_row :: "'r \<Rightarrow> 'r \<Rightarrow> 'r list \<Rightarrow> 'r list" where
  "replace_row a b rows = map (\<lambda>x. if x = a then b else x) rows"

lemma sql_update_replace:
  assumes "distinct (map key rows)" "row \<in> set rows" "P row" "\<And>x. P x \<Longrightarrow> key x = key row"
  shows "sql_update P f rows = replace_row row (f row) rows"
  unfolding sql_update_def replace_row_def
proof (rule map_cong)
  fix x assume "x \<in> set rows"
  then have "P x \<longleftrightarrow> x = row" using assms by (auto dest: inj_onD simp: distinct_map)
  then show "(if P x then f x else x) = (if x = row then f row else x)" by auto
qed simp

lemma replace_row_keys: "key b = key a \<Longrightarrow> map key (replace_row a b rows) = map key rows"
  by (induction rows) (auto simp: replace_row_def)

lemma set_replace_row: "a \<in> set rows \<Longrightarrow> set (replace_row a b rows) = insert b (set rows - {a})"
  by (auto simp: replace_row_def)

lemma replace_row_same [simp]: "replace_row a a rows = rows"
  by (simp add: replace_row_def)

lemma replace_row_memD: "x \<in> set (replace_row a b rows) \<Longrightarrow> x = b \<or> x \<in> set rows \<and> x \<noteq> a"
  by (auto simp: replace_row_def split: if_splits)

lemma sql_get_replace:
  assumes "distinct (map key rows)" "a \<in> set rows" "key b = key a"
  shows "sql_get (\<lambda>x. key x = k) (replace_row a b rows) =
     (if key a = k then Some b else sql_get (\<lambda>x. key x = k) rows)"
proof (cases "key a = k")
  case True
  have "distinct (map key (replace_row a b rows))"
    using assms by (simp add: replace_row_keys)
  moreover have "b \<in> set (replace_row a b rows)" using assms by (simp add: set_replace_row)
  ultimately show ?thesis using True assms(3) sql_get_unique [of key _ b] by auto
next
  case False
  then show ?thesis using assms(3)
    by (induction rows) (auto simp: replace_row_def)
qed

section \<open>The invariant\<close>

definition saga_ok :: "provisioning_row \<Rightarrow> resource_row \<Rightarrow> bool" where
  "saga_ok p r =
     (case pv_state p of
        Pending \<Rightarrow> rs_lifecycle r = Provisioning \<and> pv_receipt p = None
      | DomainReady \<Rightarrow> rs_lifecycle r \<in> {Provisioning, Quarantined} \<and> pv_receipt p \<noteq> None
      | SagaQuarantined \<Rightarrow> rs_lifecycle r = Quarantined
      | Finalized \<Rightarrow> rs_lifecycle r \<notin> {Provisioning, Quarantined} \<and> pv_receipt p \<noteq> None
      | Aborted \<Rightarrow> rs_lifecycle r = Deleted \<and> pv_receipt p = None)"

definition row_ok :: "resource_row \<Rightarrow> bool" where
  "row_ok r \<longleftrightarrow> 1 \<le> rs_revision r \<and> 1 \<le> rs_access_revision r"

definition registry_ok :: "db \<Rightarrow> bool" where
  "registry_ok d \<longleftrightarrow>
     distinct (map rs_id (db_resources d))
     \<and> distinct (map pv_operation (db_provisioning d))
     \<and> distinct (map pv_resource (db_provisioning d))
     \<and> (\<forall>p \<in> set (db_provisioning d). \<exists>r \<in> set (db_resources d). rs_id r = pv_resource p \<and> saga_ok p r)
     \<and> (\<forall>r \<in> set (db_resources d). rs_lifecycle r \<in> {Provisioning, Quarantined} \<longrightarrow>
          (\<exists>p \<in> set (db_provisioning d). pv_resource p = rs_id r))
     \<and> (\<forall>r \<in> set (db_resources d). row_ok r)"

lemma registry_okD:
  assumes "registry_ok d"
  shows "distinct (map rs_id (db_resources d))"
    and "distinct (map pv_operation (db_provisioning d))"
    and "distinct (map pv_resource (db_provisioning d))"
    and "p \<in> set (db_provisioning d) \<Longrightarrow> \<exists>r \<in> set (db_resources d). rs_id r = pv_resource p \<and> saga_ok p r"
    and "r \<in> set (db_resources d) \<Longrightarrow> rs_lifecycle r \<in> {Provisioning, Quarantined} \<Longrightarrow>
          \<exists>p \<in> set (db_provisioning d). pv_resource p = rs_id r"
    and "r \<in> set (db_resources d) \<Longrightarrow> row_ok r"
  using assms unfolding registry_ok_def by blast+

lemma registry_ok_audit [simp]: "registry_ok (audit t a b c d) = registry_ok d"
  by (simp add: registry_ok_def)

lemma get_resource_audit [simp]: "get_resource (audit t a b c d) i = get_resource d i"
  by (simp add: get_resource_def)

lemma get_provisioning_audit [simp]: "get_provisioning (audit t a b c d) op = get_provisioning d op"
  by (simp add: get_provisioning_def)

lemma same_id_same_row:
  "registry_ok d \<Longrightarrow> a \<in> set (db_resources d) \<Longrightarrow> b \<in> set (db_resources d) \<Longrightarrow> rs_id a = rs_id b \<Longrightarrow> a = b"
  by (auto simp: registry_ok_def distinct_map dest: inj_onD)

lemma same_resource_same_saga:
  "registry_ok d \<Longrightarrow> p \<in> set (db_provisioning d) \<Longrightarrow> q \<in> set (db_provisioning d) \<Longrightarrow>
   pv_resource p = pv_resource q \<Longrightarrow> p = q"
  by (auto simp: registry_ok_def distinct_map dest: inj_onD)

lemma get_resource_iff:
  "registry_ok d \<Longrightarrow> get_resource d i = Some r \<longleftrightarrow> r \<in> set (db_resources d) \<and> rs_id r = i"
  unfolding get_resource_def by (rule sql_get_unique_iff) (simp add: registry_ok_def)

lemma get_resourceD: "get_resource d i = Some r \<Longrightarrow> r \<in> set (db_resources d) \<and> rs_id r = i"
  by (auto simp: get_resource_def dest: sql_get_SomeD)

lemma get_provisioningD: "get_provisioning d op = Some p \<Longrightarrow> p \<in> set (db_provisioning d) \<and> pv_operation p = op"
  by (auto simp: get_provisioning_def dest: sql_get_SomeD)

lemma asserted_resourceD:
  assumes "registry_ok d" "asserted_resource op d = Inr (saga, row)"
  shows "saga \<in> set (db_provisioning d)" "row \<in> set (db_resources d)" "pv_operation saga = op"
    "pv_resource saga = rs_id row" "saga_ok saga row"
proof -
  have sr: "get_provisioning d op = Some saga" "get_resource d (pv_resource saga) = Some row"
    using assms(2) by (auto simp: asserted_resource_def split: option.splits)
  note p = get_provisioningD [OF sr(1)] and r = get_resourceD [OF sr(2)]
  from p registry_okD(4) [OF assms(1)] obtain r' where
    "r' \<in> set (db_resources d)" "rs_id r' = pv_resource saga" "saga_ok saga r'" by blast
  moreover from this r have "r' = row" by (intro same_id_same_row [OF assms(1)]) auto
  ultimately show "saga \<in> set (db_provisioning d)" "row \<in> set (db_resources d)" "pv_operation saga = op"
    "pv_resource saga = rs_id row" "saga_ok saga row" using p r by auto
qed

section \<open>One row of each table\<close>

definition saga_move :: "provisioning_row \<Rightarrow> provisioning_row \<Rightarrow> resource_row \<Rightarrow> resource_row \<Rightarrow> db \<Rightarrow> db" where
  "saga_move saga saga' row row' d =
     d\<lparr>db_resources := replace_row row row' (db_resources d),
       db_provisioning := replace_row saga saga' (db_provisioning d)\<rparr>"

definition row_move :: "resource_row \<Rightarrow> resource_row \<Rightarrow> db \<Rightarrow> db" where
  "row_move row row' d = d\<lparr>db_resources := replace_row row row' (db_resources d)\<rparr>"

lemma update_resource_hit:
  assumes "registry_ok d" "row \<in> set (db_resources d)" "P row" "\<And>x. P x \<Longrightarrow> rs_id x = rs_id row"
  shows "update_resource P f d = (Inr (), row_move row (f row) d)"
  using sql_update_replace [where P = P and key = rs_id, OF registry_okD(1) [OF assms(1)] assms(2-4), of f]
    sql_changes_one [where P = P and key = rs_id, OF registry_okD(1) [OF assms(1)] assms(2-4)]
  by (simp add: update_resource_def row_move_def)

lemma update_provisioning_hit:
  assumes "registry_ok d" "db_provisioning d' = db_provisioning d"
    "saga \<in> set (db_provisioning d)" "P saga" "\<And>x. P x \<Longrightarrow> pv_operation x = pv_operation saga"
  shows "update_provisioning P f d' =
    (Inr (), d'\<lparr>db_provisioning := replace_row saga (f saga) (db_provisioning d)\<rparr>)"
  using sql_update_replace [where P = P and key = pv_operation, OF registry_okD(2) [OF assms(1)] assms(3-5), of f]
    sql_changes_one [where P = P and key = pv_operation, OF registry_okD(2) [OF assms(1)] assms(3-5)] assms(2)
  by (simp add: update_provisioning_def)

lemma get_resource_move:
  assumes "registry_ok d" "row \<in> set (db_resources d)" "rs_id row' = rs_id row"
  shows "get_resource (row_move row row' d) i = (if rs_id row = i then Some row' else get_resource d i)"
    and "get_resource (saga_move saga saga' row row' d) i = (if rs_id row = i then Some row' else get_resource d i)"
  using sql_get_replace [of rs_id "db_resources d" row row' i] assms
  by (simp_all add: get_resource_def row_move_def saga_move_def registry_ok_def)

lemma saga_move_same_row: "row_move row row' (d\<lparr>db_provisioning := ps\<rparr>) = (row_move row row' d)\<lparr>db_provisioning := ps\<rparr>"
  by (simp add: row_move_def)

text \<open>A step that keeps the identities and the agreement of the two rows keeps the invariant.\<close>

lemma registry_ok_saga_move:
  assumes ok: "registry_ok d" and row: "row \<in> set (db_resources d)" and saga: "saga \<in> set (db_provisioning d)"
    and link: "pv_resource saga = rs_id row"
    and keep: "rs_id row' = rs_id row" "pv_operation saga' = pv_operation saga" "pv_resource saga' = pv_resource saga"
    and good: "saga_ok saga' row'" "row_ok row'"
  shows "registry_ok (saga_move saga saga' row row' d)"
proof -
  let ?R = "replace_row row row' (db_resources d)" and ?P = "replace_row saga saga' (db_provisioning d)"
  have R: "set ?R = insert row' (set (db_resources d) - {row})"
    and P: "set ?P = insert saga' (set (db_provisioning d) - {saga})"
    using row saga by (simp_all add: set_replace_row)
  have "\<exists>r \<in> set ?R. rs_id r = pv_resource p \<and> saga_ok p r" if "p \<in> set ?P" for p
  proof (cases "p = saga'")
    case True
    with keep link good R show ?thesis by auto
  next
    case False
    with that P have p: "p \<in> set (db_provisioning d)" "p \<noteq> saga" by auto
    from registry_okD(4) [OF ok p(1)] obtain r where
      r: "r \<in> set (db_resources d)" "rs_id r = pv_resource p" "saga_ok p r" by blast
    have "r \<noteq> row" using same_resource_same_saga [OF ok p(1) saga] p(2) r(2) link by auto
    with r R show ?thesis by auto
  qed
  moreover have "\<exists>p \<in> set ?P. pv_resource p = rs_id r"
    if "r \<in> set ?R" "rs_lifecycle r \<in> {Provisioning, Quarantined}" for r
  proof (cases "r = row'")
    case True
    with keep link P show ?thesis by auto
  next
    case False
    with that R have r: "r \<in> set (db_resources d)" by auto
    from registry_okD(5) [OF ok r that(2)] obtain p where "p \<in> set (db_provisioning d)" "pv_resource p = rs_id r"
      by blast
    with P keep show ?thesis by (cases "p = saga") auto
  qed
  moreover have "row_ok r" if "r \<in> set ?R" for r
    using that R good registry_okD(6) [OF ok] by auto
  moreover have "map rs_id ?R = map rs_id (db_resources d)" "map pv_operation ?P = map pv_operation (db_provisioning d)"
    "map pv_resource ?P = map pv_resource (db_provisioning d)"
    using keep by (simp_all add: replace_row_keys)
  ultimately show ?thesis using registry_okD(1-3) [OF ok]
    unfolding registry_ok_def saga_move_def by simp
qed

text \<open>
  A step on a resource row alone: where the row has a saga, the saga agrees with the new
  row as well, and no row without one enters a provisioning lifecycle.
\<close>

lemma registry_ok_row_move:
  assumes ok: "registry_ok d" and row: "row \<in> set (db_resources d)"
    and keep: "rs_id row' = rs_id row" and good: "row_ok row'"
    and agree: "\<And>p. saga_ok p row \<Longrightarrow> saga_ok p row'"
    and stay: "rs_lifecycle row' \<in> {Provisioning, Quarantined} \<Longrightarrow> rs_lifecycle row \<in> {Provisioning, Quarantined}"
  shows "registry_ok (row_move row row' d)"
proof (cases "\<exists>saga \<in> set (db_provisioning d). pv_resource saga = rs_id row")
  case True
  then obtain saga where saga: "saga \<in> set (db_provisioning d)" "pv_resource saga = rs_id row" by blast
  from registry_okD(4) [OF ok saga(1)] obtain r where
    "r \<in> set (db_resources d)" "rs_id r = pv_resource saga" "saga_ok saga r" by blast
  moreover from this saga row have "r = row" by (intro same_id_same_row [OF ok]) auto
  ultimately have "saga_ok saga row'" using agree by simp
  from registry_ok_saga_move [OF ok row saga keep refl refl this good]
  show ?thesis by (simp add: saga_move_def row_move_def)
next
  case False
  let ?R = "replace_row row row' (db_resources d)"
  have R: "set ?R = insert row' (set (db_resources d) - {row})" using row by (simp add: set_replace_row)
  have no: "rs_lifecycle row' \<notin> {Provisioning, Quarantined}"
    using stay registry_okD(5) [OF ok row] False by blast
  have "\<exists>r \<in> set ?R. rs_id r = pv_resource p \<and> saga_ok p r" if "p \<in> set (db_provisioning d)" for p
  proof -
    from registry_okD(4) [OF ok that] obtain r where
      r: "r \<in> set (db_resources d)" "rs_id r = pv_resource p" "saga_ok p r" by blast
    with False that have "r \<noteq> row" by auto
    with r R show ?thesis by blast
  qed
  moreover have "\<exists>p \<in> set (db_provisioning d). pv_resource p = rs_id r"
    if "r \<in> set ?R" "rs_lifecycle r \<in> {Provisioning, Quarantined}" for r
  proof -
    have "r \<in> set (db_resources d)" using that R no by auto
    from registry_okD(5) [OF ok this that(2)] show ?thesis .
  qed
  moreover have "row_ok r" if "r \<in> set ?R" for r
    using that R good registry_okD(6) [OF ok] by auto
  ultimately show ?thesis using registry_okD(1-3) [OF ok] keep
    unfolding registry_ok_def row_move_def by (simp add: replace_row_keys)
qed

section \<open>What each step of the saga does\<close>

definition ready_saga :: "int \<Rightarrow> string \<Rightarrow> provisioning_row \<Rightarrow> provisioning_row" where
  "ready_saga now digest p = p\<lparr>pv_state := DomainReady, pv_receipt := Some digest,
     pv_updated_at := now, pv_revision := pv_revision p + 1\<rparr>"

definition saga_to :: "provisioning_state \<Rightarrow> int \<Rightarrow> provisioning_row \<Rightarrow> provisioning_row" where
  "saga_to st now p = p\<lparr>pv_state := st, pv_updated_at := now, pv_revision := pv_revision p + 1\<rparr>"

definition active_row :: "int \<Rightarrow> resource_row \<Rightarrow> resource_row" where
  "active_row now r = r\<lparr>rs_lifecycle := Active, rs_access_revision := rs_access_revision r + 1,
     rs_revision := rs_revision r + 1, rs_updated_at := now\<rparr>"

definition row_to :: "lifecycle \<Rightarrow> int \<Rightarrow> resource_row \<Rightarrow> resource_row" where
  "row_to l now r = r\<lparr>rs_lifecycle := l, rs_revision := rs_revision r + 1, rs_updated_at := now\<rparr>"

definition moved_row :: "string \<Rightarrow> int \<Rightarrow> resource_row \<Rightarrow> resource_row" where
  "moved_row to now r = r\<lparr>rs_parent := Some to, rs_access_revision := rs_access_revision r + 1,
     rs_revision := rs_revision r + 1, rs_updated_at := now\<rparr>"

lemmas row_step_defs = ready_saga_def saga_to_def active_row_def row_to_def moved_row_def

lemma update_two_rows:
  assumes ok: "registry_ok d" and "row \<in> set (db_resources d)" "saga \<in> set (db_provisioning d)"
    and "P row" "\<And>x. P x \<Longrightarrow> rs_id x = rs_id row"
    and "Q saga" "\<And>x. Q x \<Longrightarrow> pv_operation x = pv_operation saga"
  shows "update_resource P f d = (Inr (), row_move row (f row) d)"
    and "update_provisioning Q g (row_move row (f row) d) = (Inr (), saga_move saga (g saga) row (f row) d)"
proof -
  show "update_resource P f d = (Inr (), row_move row (f row) d)"
    by (rule update_resource_hit [where P = P, OF ok assms(2,4,5)])
  have "update_provisioning Q g (row_move row (f row) d) = (Inr (), (row_move row (f row) d)
      \<lparr>db_provisioning := replace_row saga (g saga) (db_provisioning d)\<rparr>)"
    by (rule update_provisioning_hit [where P = Q, OF ok _ assms(3,6,7)]) (simp add: row_move_def)
  then show "update_provisioning Q g (row_move row (f row) d) = (Inr (), saga_move saga (g saga) row (f row) d)"
    by (simp add: row_move_def saga_move_def)
qed

lemma reread_resource_eq:
  assumes "registry_ok d" "row \<in> set (db_resources d)" "rs_id row' = rs_id row"
  shows "reread_resource (rs_id row) (audit t a b c (saga_move saga saga' row row' d)) =
      (Inr row', audit t a b c (saga_move saga saga' row row' d))"
    and "reread_resource (rs_id row) (audit t a b c (row_move row row' d)) =
      (Inr row', audit t a b c (row_move row row' d))"
  using get_resource_move [OF assms] by (simp_all add: reread_resource_def)

lemma activate_cases:
  assumes ok: "registry_ok d" and run: "activate now op e d = (Inr r, d')"
  obtains (replay) saga where "asserted_resource op d = Inr (saga, r)" "pv_state saga = Finalized"
      "rs_lifecycle r = Active" "d' = d"
  | (step) saga row where "asserted_resource op d = Inr (saga, row)" "pv_state saga = DomainReady"
      "rs_revision row = e" "r = active_row now row"
      "d' = audit now (rs_created_by row) ''resource.activated'' (Some (rs_id row))
              (saga_move saga (saga_to Finalized now saga) row (active_row now row) d)"
proof -
  have work: "activate_work now op e d = (Inr r, d')"
    using run by (auto simp: activate_def transaction_Inr split: if_splits)
  obtain saga row where a: "asserted_resource op d = Inr (saga, row)"
    using work by (auto simp: activate_work_def split: sum.splits)
  note facts = asserted_resourceD [OF ok a]
  show ?thesis
  proof (cases "pv_state saga = Finalized")
    case True
    with work a replay show ?thesis by (auto simp: activate_work_def split: if_splits)
  next
    case False
    with work a have g: "pv_state saga = DomainReady" "rs_revision row = e"
      "rs_lifecycle row \<in> {Provisioning, Quarantined}"
      by (auto simp: activate_work_def split: if_splits)
    let ?P = "\<lambda>r. rs_id r = rs_id row \<and> rs_revision r = e \<and> rs_lifecycle r \<in> {Provisioning, Quarantined}"
    let ?Q = "\<lambda>p. pv_operation p = op \<and> pv_revision p = pv_revision saga \<and> pv_state p = DomainReady"
    have "update_resource ?P (active_row now) d = (Inr (), row_move row (active_row now row) d)"
      "update_provisioning ?Q (saga_to Finalized now) (row_move row (active_row now row) d)
        = (Inr (), saga_move saga (saga_to Finalized now saga) row (active_row now row) d)"
      using g facts by (intro update_two_rows [OF ok]; auto)+
    with work a g False have "r = active_row now row \<and>
        d' = audit now (rs_created_by row) ''resource.activated'' (Some (rs_id row))
              (saga_move saga (saga_to Finalized now saga) row (active_row now row) d)"
      using reread_resource_eq(1) [OF ok facts(2), of "active_row now row"]
      by (auto simp: activate_work_def active_row_def [abs_def] saga_to_def [abs_def] split: if_splits)
    with a g step show ?thesis by blast
  qed
qed

lemma abort_cases:
  assumes ok: "registry_ok d" and run: "abort_missing_domain now op e d = (Inr r, d')"
  obtains (replay) saga where "asserted_resource op d = Inr (saga, r)" "pv_state saga = Aborted"
      "rs_lifecycle r = Deleted" "d' = d"
  | (step) saga row where "asserted_resource op d = Inr (saga, row)" "pv_state saga \<in> {Pending, SagaQuarantined}"
      "pv_receipt saga = None" "rs_revision row = e" "r = row_to Deleted now row"
      "rs_lifecycle row \<in> {Provisioning, Quarantined}"
      "d' = audit now system_actor ''resource.provisioning-aborted'' (Some (rs_id row))
              (saga_move saga (saga_to Aborted now saga) row (row_to Deleted now row) d)"
proof -
  have work: "abort_work now op e d = (Inr r, d')"
    using run by (auto simp: abort_missing_domain_def transaction_Inr split: if_splits)
  obtain saga row where a: "asserted_resource op d = Inr (saga, row)"
    using work by (auto simp: abort_work_def split: sum.splits)
  note facts = asserted_resourceD [OF ok a]
  show ?thesis
  proof (cases "pv_state saga = Aborted")
    case True
    with work a replay show ?thesis by (auto simp: abort_work_def split: if_splits)
  next
    case False
    with work a have g: "pv_state saga \<noteq> DomainReady" "pv_state saga \<noteq> Finalized" "pv_receipt saga = None"
      "rs_revision row = e" "rs_lifecycle row \<in> {Provisioning, Quarantined}"
      by (auto simp: abort_work_def split: if_splits)
    with False have st: "pv_state saga \<in> {Pending, SagaQuarantined}" by (cases "pv_state saga") auto
    let ?P = "\<lambda>r. rs_id r = rs_id row \<and> rs_revision r = e \<and> rs_lifecycle r \<in> {Provisioning, Quarantined}"
    let ?Q = "\<lambda>p. pv_operation p = op \<and> pv_revision p = pv_revision saga \<and> pv_state p \<in> {Pending, SagaQuarantined}"
    have "update_resource ?P (row_to Deleted now) d = (Inr (), row_move row (row_to Deleted now row) d)"
      "update_provisioning ?Q (saga_to Aborted now) (row_move row (row_to Deleted now row) d)
        = (Inr (), saga_move saga (saga_to Aborted now saga) row (row_to Deleted now row) d)"
      using g st facts by (intro update_two_rows [OF ok]; auto)+
    with work a g False have "r = row_to Deleted now row \<and>
        d' = audit now system_actor ''resource.provisioning-aborted'' (Some (rs_id row))
              (saga_move saga (saga_to Aborted now saga) row (row_to Deleted now row) d)"
      using reread_resource_eq(1) [OF ok facts(2), of "row_to Deleted now row"]
      by (auto simp: abort_work_def row_to_def [abs_def] saga_to_def [abs_def] split: if_splits)
    with a g st step show ?thesis by blast
  qed
qed

lemma quarantine_cases:
  assumes ok: "registry_ok d" and run: "quarantine_unknown now op e d = (Inr r, d')"
  obtains (replay) saga where "asserted_resource op d = Inr (saga, r)" "pv_state saga = SagaQuarantined"
      "d' = d"
  | (step) saga row where "asserted_resource op d = Inr (saga, row)" "pv_state saga \<in> {Pending, DomainReady}"
      "rs_revision row = e" "rs_lifecycle row = Provisioning" "r = row_to Quarantined now row"
      "d' = audit now system_actor ''resource.provisioning-quarantined'' (Some (rs_id row))
              (saga_move saga (saga_to SagaQuarantined now saga) row (row_to Quarantined now row) d)"
proof -
  have work: "quarantine_work now op e d = (Inr r, d')"
    using run by (auto simp: quarantine_unknown_def transaction_Inr split: if_splits)
  obtain saga row where a: "asserted_resource op d = Inr (saga, row)"
    using work by (auto simp: quarantine_work_def split: sum.splits)
  note facts = asserted_resourceD [OF ok a]
  show ?thesis
  proof (cases "pv_state saga = SagaQuarantined")
    case True
    with work a replay show ?thesis by (auto simp: quarantine_work_def split: if_splits)
  next
    case False
    with work a have g: "pv_state saga \<noteq> Finalized" "pv_state saga \<noteq> Aborted"
      "rs_revision row = e" "rs_lifecycle row = Provisioning"
      by (auto simp: quarantine_work_def split: if_splits)
    with False have st: "pv_state saga \<in> {Pending, DomainReady}" by (cases "pv_state saga") auto
    let ?P = "\<lambda>r. rs_id r = rs_id row \<and> rs_revision r = e \<and> rs_lifecycle r = Provisioning"
    let ?Q = "\<lambda>p. pv_operation p = op \<and> pv_revision p = pv_revision saga \<and> pv_state p \<in> {Pending, DomainReady}"
    have "update_resource ?P (row_to Quarantined now) d = (Inr (), row_move row (row_to Quarantined now row) d)"
      "update_provisioning ?Q (saga_to SagaQuarantined now) (row_move row (row_to Quarantined now row) d)
        = (Inr (), saga_move saga (saga_to SagaQuarantined now saga) row (row_to Quarantined now row) d)"
      using g st facts by (intro update_two_rows [OF ok]; auto)+
    with work a g False have "r = row_to Quarantined now row \<and>
        d' = audit now system_actor ''resource.provisioning-quarantined'' (Some (rs_id row))
              (saga_move saga (saga_to SagaQuarantined now saga) row (row_to Quarantined now row) d)"
      using reread_resource_eq(1) [OF ok facts(2), of "row_to Quarantined now row"]
      by (auto simp: quarantine_work_def row_to_def [abs_def] saga_to_def [abs_def] split: if_splits)
    with a g st step show ?thesis by blast
  qed
qed

lemma domain_ready_cases:
  assumes ok: "registry_ok d" and run: "record_domain_ready sha now op receipt d = (Inr p, d')"
  obtains (replay) row where "asserted_resource op d = Inr (p, row)" "pv_state p \<in> {Finalized, DomainReady}"
      "pv_receipt p = Some (sha receipt)" "d' = d"
  | (step) saga row where "asserted_resource op d = Inr (saga, row)" "pv_state saga \<in> {Pending, SagaQuarantined}"
      "rs_lifecycle row \<in> {Provisioning, Quarantined}" "pv_receipt saga \<in> {None, Some (sha receipt)}"
      "p = ready_saga now (sha receipt) saga"
      "d' = audit now system_actor ''resource.domain-ready'' (Some (pv_resource saga))
              (saga_move saga (ready_saga now (sha receipt) saga) row row d)"
proof -
  have work: "domain_ready_work sha now op receipt d = (Inr p, d')"
    using run by (auto simp: record_domain_ready_def transaction_Inr split: if_splits)
  obtain saga row where a: "asserted_resource op d = Inr (saga, row)"
    using work by (auto simp: domain_ready_work_def split: sum.splits)
  note facts = asserted_resourceD [OF ok a]
  show ?thesis
  proof (cases "pv_state saga \<in> {Finalized, DomainReady}")
    case True
    with work a have "p = saga \<and> d' = d \<and> pv_receipt saga = Some (sha receipt)"
      by (auto simp: domain_ready_work_def split: if_splits)
    with a True replay show ?thesis by blast
  next
    case False
    with work a have g: "rs_lifecycle row \<in> {Provisioning, Quarantined}" "pv_state saga \<noteq> Aborted"
      "pv_receipt saga \<in> {None, Some (sha receipt)}"
      by (auto simp: domain_ready_work_def split: if_splits)
    with False have st: "pv_state saga \<in> {Pending, SagaQuarantined}" by (cases "pv_state saga") auto
    let ?Q = "\<lambda>p. pv_operation p = op \<and> pv_revision p = pv_revision saga \<and> pv_state p \<in> {Pending, SagaQuarantined}"
    have up: "update_provisioning ?Q (ready_saga now (sha receipt)) d
        = (Inr (), saga_move saga (ready_saga now (sha receipt) saga) row row d)"
      using update_provisioning_hit [where P = ?Q, OF ok refl facts(1)] st facts by (simp add: saga_move_def)
    have "get_provisioning (saga_move saga (ready_saga now (sha receipt) saga) row row d) op
        = Some (ready_saga now (sha receipt) saga)"
      using sql_get_replace [OF registry_okD(2) [OF ok] facts(1), of "ready_saga now (sha receipt) saga" op] facts(3)
      by (simp add: get_provisioning_def saga_move_def ready_saga_def)
    with up work a g False have "p = ready_saga now (sha receipt) saga \<and>
        d' = audit now system_actor ''resource.domain-ready'' (Some (pv_resource saga))
              (saga_move saga (ready_saga now (sha receipt) saga) row row d)"
      by (auto simp: domain_ready_work_def ready_saga_def [abs_def] reread_provisioning_def split: if_splits)
    with a g st step show ?thesis by blast
  qed
qed

lemma move_cases:
  assumes ok: "registry_ok d" and run: "move_session now i d = (Inr r, d')"
  obtains (replay) "get_resource d (mi_resource i) = Some r" "rs_parent r = Some (mi_to i)" "d' = d"
  | (step) row where "get_resource d (mi_resource i) = Some row" "rs_kind row = ''session''"
      "rs_org row = mi_org i" "rs_space row = mi_space i" "rs_parent row = Some (mi_from i)"
      "rs_lifecycle row \<in> {Active, Archived}"
      "\<exists>t \<in> set (db_resources d). rs_id t = mi_to i \<and> rs_org t = mi_org i \<and> rs_space t = mi_space i
         \<and> rs_kind t = ''project'' \<and> rs_lifecycle t = Active"
      "r = moved_row (mi_to i) now row"
      "d' = audit now (mi_actor i) ''resource.moved'' (Some (mi_resource i))
              (row_move row (moved_row (mi_to i) now row) d)"
proof -
  have work: "move_work now i d = (Inr r, d')"
    using run by (auto simp: move_session_def transaction_Inr split: if_splits)
  obtain row where a: "get_resource d (mi_resource i) = Some row"
    using work by (auto simp: move_work_def split: option.splits)
  note facts = get_resourceD [OF a]
  show ?thesis
  proof (cases "rs_parent row = Some (mi_to i)")
    case True
    with work a replay show ?thesis by (auto simp: move_work_def split: if_splits)
  next
    case False
    let ?T = "\<lambda>r. rs_id r = mi_to i \<and> rs_org r = mi_org i \<and> rs_space r = mi_space i
                    \<and> rs_kind r = ''project'' \<and> rs_lifecycle r = Active"
    from False work a have g: "rs_kind row = ''session''" "rs_org row = mi_org i" "rs_space row = mi_space i"
      "rs_parent row = Some (mi_from i)" "rs_lifecycle row \<in> {Active, Archived}"
      "sql_get ?T (db_resources d) \<noteq> None"
      by (auto simp: move_work_def split: if_splits)
    then obtain t where "t \<in> set (db_resources d)" "?T t" by (auto dest: sql_get_SomeD)
    then have t: "\<exists>t \<in> set (db_resources d). ?T t" by blast
    let ?P = "\<lambda>r. rs_id r = mi_resource i \<and> rs_revision r = rs_revision row \<and> rs_parent r = Some (mi_from i)"
    have "update_resource ?P (moved_row (mi_to i) now) d = (Inr (), row_move row (moved_row (mi_to i) now row) d)"
      using g facts by (intro update_resource_hit [OF ok]) auto
    with work a g False have "r = moved_row (mi_to i) now row \<and>
        d' = audit now (mi_actor i) ''resource.moved'' (Some (mi_resource i))
              (row_move row (moved_row (mi_to i) now row) d)"
      using reread_resource_eq(2) [OF ok, of row "moved_row (mi_to i) now row"] facts
      by (auto simp: move_work_def moved_row_def [abs_def] split: if_splits)
    with a g t step show ?thesis by blast
  qed
qed

lemma begin_cases:
  assumes run: "begin_provisioning req now i d = (Inr (r, p, replayed), d')"
  obtains (replay) "replayed" "get_provisioning d (bi_operation i) = Some p"
      "pv_request p = request_digest req i" "pv_resource p = bi_resource i"
      "get_resource d (bi_resource i) = Some r" "d' = d"
  | (fresh) "\<not> replayed" "get_provisioning d (bi_operation i) = None" "begin_checks i d = None"
      "r = new_resource now i" "p = new_provisioning now (request_digest req i) i"
      "d' = audit now (bi_created_by i) ''resource.provisioning-begun'' (Some (bi_resource i))
              (d\<lparr>db_resources := db_resources d @ [r], db_provisioning := db_provisioning d @ [p]\<rparr>)"
proof (cases "get_provisioning d (bi_operation i)")
  case None
  with run have work: "begin_work (request_digest req i) now i d = (Inr (r, p, replayed), d')"
    by (simp add: begin_provisioning_def Let_def transaction_Inr split: if_splits)
  show ?thesis
  proof (cases "begin_checks i d")
    case None': None
    with work None have "r = new_resource now i \<and> p = new_provisioning now (request_digest req i) i
        \<and> \<not> replayed \<and> d' = audit now (bi_created_by i) ''resource.provisioning-begun'' (Some (bi_resource i))
              (d\<lparr>db_resources := db_resources d @ [r], db_provisioning := db_provisioning d @ [p]\<rparr>)"
      by (auto simp: begin_work_def Let_def)
    with None None' show ?thesis using fresh by blast
  next
    case (Some e)
    with work None show ?thesis by (simp add: begin_work_def)
  qed
next
  case (Some prior)
  with run have "begin_replay (request_digest req i) i prior d = Inr (r, p, replayed)" "d' = d"
    by (auto simp: begin_provisioning_def Let_def split: if_splits)
  then have "replayed \<and> prior = p \<and> pv_request prior = request_digest req i \<and> pv_resource prior = bi_resource i
      \<and> get_resource d (pv_resource prior) = Some r \<and> d' = d"
    by (simp add: begin_replay_def split: if_splits option.splits)
  with Some show ?thesis by (intro replay) auto
qed

section \<open>Every step keeps the invariant\<close>

lemma row_ok_steps [simp]:
  "row_ok r \<Longrightarrow> row_ok (active_row now r)" "row_ok r \<Longrightarrow> row_ok (row_to l now r)"
  "row_ok r \<Longrightarrow> row_ok (moved_row t now r)"
  by (simp_all add: row_ok_def row_step_defs)

lemma row_ids [simp]:
  "rs_id (active_row now r) = rs_id r" "rs_id (row_to l now r) = rs_id r" "rs_id (moved_row t now r) = rs_id r"
  "pv_operation (saga_to st now p) = pv_operation p" "pv_resource (saga_to st now p) = pv_resource p"
  "pv_operation (ready_saga now x p) = pv_operation p" "pv_resource (ready_saga now x p) = pv_resource p"
  by (simp_all add: row_step_defs)

lemma saga_ok_moved [simp]: "saga_ok p (moved_row t now r) = saga_ok p r"
  by (simp add: saga_ok_def moved_row_def cong: provisioning_state.case_cong)

lemma lifecycle_moved [simp]: "rs_lifecycle (moved_row t now r) = rs_lifecycle r"
  by (simp add: moved_row_def)

lemma activate_ok [machine_intros]:
  assumes ok: "registry_ok d" and run: "activate now op e d = (Inr r, d')"
  shows "registry_ok d'"
proof (cases rule: activate_cases [OF ok run])
  case (2 saga row)
  note facts = asserted_resourceD [OF ok 2(1)]
  have "registry_ok (saga_move saga (saga_to Finalized now saga) row (active_row now row) d)"
    using facts 2(2) registry_okD(6) [OF ok facts(2)]
    by (intro registry_ok_saga_move [OF ok]) (auto simp: saga_ok_def saga_to_def active_row_def row_ok_def)
  with 2(5) show ?thesis by simp
qed (use ok in simp)

lemma abort_ok [machine_intros]:
  assumes ok: "registry_ok d" and run: "abort_missing_domain now op e d = (Inr r, d')"
  shows "registry_ok d'"
proof (cases rule: abort_cases [OF ok run])
  case (2 saga row)
  note facts = asserted_resourceD [OF ok 2(1)]
  have "registry_ok (saga_move saga (saga_to Aborted now saga) row (row_to Deleted now row) d)"
    using facts 2(2,3) registry_okD(6) [OF ok facts(2)]
    by (intro registry_ok_saga_move [OF ok]) (auto simp: saga_ok_def saga_to_def row_to_def row_ok_def)
  with 2(7) show ?thesis by simp
qed (use ok in simp)

lemma quarantine_ok [machine_intros]:
  assumes ok: "registry_ok d" and run: "quarantine_unknown now op e d = (Inr r, d')"
  shows "registry_ok d'"
proof (cases rule: quarantine_cases [OF ok run])
  case (2 saga row)
  note facts = asserted_resourceD [OF ok 2(1)]
  have "registry_ok (saga_move saga (saga_to SagaQuarantined now saga) row (row_to Quarantined now row) d)"
    using facts registry_okD(6) [OF ok facts(2)]
    by (intro registry_ok_saga_move [OF ok]) (auto simp: saga_ok_def saga_to_def row_to_def row_ok_def)
  with 2(6) show ?thesis by simp
qed (use ok in simp)

lemma domain_ready_ok [machine_intros]:
  assumes ok: "registry_ok d" and run: "record_domain_ready sha now op receipt d = (Inr p, d')"
  shows "registry_ok d'"
proof (cases rule: domain_ready_cases [OF ok run])
  case (2 saga row)
  note facts = asserted_resourceD [OF ok 2(1)]
  have "registry_ok (saga_move saga (ready_saga now (sha receipt) saga) row row d)"
    using facts 2(3) registry_okD(6) [OF ok facts(2)]
    by (intro registry_ok_saga_move [OF ok]) (auto simp: saga_ok_def ready_saga_def)
  with 2(6) show ?thesis by simp
qed (use ok in simp)

lemma move_ok [machine_intros]:
  assumes ok: "registry_ok d" and run: "move_session now i d = (Inr r, d')"
  shows "registry_ok d'"
proof (cases rule: move_cases [OF ok run])
  case (2 row)
  note facts = get_resourceD [OF 2(1)]
  have "registry_ok (row_move row (moved_row (mi_to i) now row) d)"
    using facts registry_okD(6) [OF ok, of row] 
    by (intro registry_ok_row_move [OF ok]) simp_all
  with 2(9) show ?thesis by simp
qed (use ok in simp)

lemma registry_ok_append:
  assumes ok: "registry_ok d" and "rs_id r \<notin> rs_id ` set (db_resources d)"
    "pv_operation p \<notin> pv_operation ` set (db_provisioning d)"
    "pv_resource p \<notin> pv_resource ` set (db_provisioning d)"
    "rs_id r = pv_resource p" "saga_ok p r" "row_ok r"
  shows "registry_ok (d\<lparr>db_resources := db_resources d @ [r], db_provisioning := db_provisioning d @ [p]\<rparr>)"
  unfolding registry_ok_def
proof (intro conjI ballI impI)
  fix q assume "q \<in> set (db_provisioning (d\<lparr>db_resources := db_resources d @ [r], db_provisioning := db_provisioning d @ [p]\<rparr>))"
  then consider "q = p" | "q \<in> set (db_provisioning d)" by auto
  then show "\<exists>r' \<in> set (db_resources (d\<lparr>db_resources := db_resources d @ [r], db_provisioning := db_provisioning d @ [p]\<rparr>)).
      rs_id r' = pv_resource q \<and> saga_ok q r'"
  proof cases
    case 2
    with registry_okD(4) [OF ok 2] show ?thesis by auto
  qed (use assms in simp)
next
  fix x assume "x \<in> set (db_resources (d\<lparr>db_resources := db_resources d @ [r], db_provisioning := db_provisioning d @ [p]\<rparr>))"
    "rs_lifecycle x \<in> {Provisioning, Quarantined}"
  then show "\<exists>q \<in> set (db_provisioning (d\<lparr>db_resources := db_resources d @ [r], db_provisioning := db_provisioning d @ [p]\<rparr>)).
      pv_resource q = rs_id x"
    using registry_okD(5) [OF ok, of x] assms(5) by auto
qed (use assms registry_okD(1-3,6) [OF ok] in auto)

lemma begin_ok [machine_intros]:
  assumes ok: "registry_ok d" and run: "begin_provisioning req now i d = (Inr (r, p, replayed), d')"
  shows "registry_ok d'"
proof (cases rule: begin_cases [OF run])
  case 2
  have new: "bi_resource i \<notin> rs_id ` set (db_resources d)"
    using 2(3) by (auto simp: begin_checks_def get_resource_def sql_get_None split: if_splits)
  moreover have "bi_operation i \<notin> pv_operation ` set (db_provisioning d)"
    using 2(2) by (auto simp: get_provisioning_def sql_get_None)
  moreover have "bi_resource i \<notin> pv_resource ` set (db_provisioning d)"
  proof
    assume "bi_resource i \<in> pv_resource ` set (db_provisioning d)"
    then obtain q where q: "q \<in> set (db_provisioning d)" "pv_resource q = bi_resource i" by auto
    from registry_okD(4) [OF ok q(1)] obtain x where "x \<in> set (db_resources d)" "rs_id x = pv_resource q" by blast
    then have "bi_resource i \<in> rs_id ` set (db_resources d)" using q(2) by (metis imageI)
    with new show False by blast
  qed
  moreover have "saga_ok p r" "row_ok r" "rs_id r = bi_resource i" "pv_resource p = bi_resource i"
    "pv_operation p = bi_operation i"
    using 2(4,5) by (simp_all add: new_resource_def new_provisioning_def saga_ok_def row_ok_def)
  ultimately have "registry_ok (d\<lparr>db_resources := db_resources d @ [r], db_provisioning := db_provisioning d @ [p]\<rparr>)"
    by (intro registry_ok_append [OF ok]) simp_all
  with 2(6) show ?thesis by simp
qed (use ok in simp)

end
