(* ===== verification/ResourceLifecycle.thy ===== *)
theory ResourceLifecycle
  imports RegistryInv
begin

text \<open>
  The lifecycle of a provisioned resource, packages/control-plane/src/resourceLifecycle.ts:
  the table of transitions and the revision-checked write that takes one. The clauses of
  the code that reject a \<open>from\<close> or \<open>to\<close> outside the seven lifecycles are the types here.
\<close>

section \<open>Definitions\<close>

definition allowed :: "lifecycle \<Rightarrow> lifecycle list" where
  "allowed l =
     (case l of
        Provisioning \<Rightarrow> []
      | Active \<Rightarrow> [Archiving, Deleting]
      | Archiving \<Rightarrow> [Active, Archived]
      | Archived \<Rightarrow> [Active, Deleting]
      | Deleting \<Rightarrow> [Active, Archived, Deleted]
      | Deleted \<Rightarrow> []
      | Quarantined \<Rightarrow> [])"

record transition_input =
  ti_resource :: string
  ti_kind :: string
  ti_org :: string
  ti_space :: string
  ti_from :: "lifecycle list"
  ti_to :: lifecycle
  ti_expected :: int
  ti_actor :: string
  ti_action :: string
  ti_bump :: bool

definition valid_transition :: "transition_input \<Rightarrow> bool" where
  "valid_transition i \<longleftrightarrow>
     is_identifier (ti_resource i) \<and> is_kind (ti_kind i) \<and> is_identifier (ti_org i)
     \<and> is_identifier (ti_space i) \<and> is_revision (ti_expected i) \<and> is_identifier (ti_actor i)
     \<and> is_identifier (ti_action i) \<and> ti_from i \<noteq> []"

definition transition_row :: "int \<Rightarrow> transition_input \<Rightarrow> resource_row \<Rightarrow> resource_row" where
  "transition_row now i r = r\<lparr>rs_lifecycle := ti_to i, rs_revision := rs_revision r + 1,
     rs_access_revision := rs_access_revision r + (if ti_bump i then 1 else 0), rs_updated_at := now\<rparr>"

definition transition_work :: "int \<Rightarrow> transition_input \<Rightarrow> db \<Rightarrow> (control_error + resource_row) \<times> db" where
  "transition_work now i d =
     (if ti_to i = Deleting
         \<and> sql_get (\<lambda>r. rs_parent r = Some (ti_resource i) \<and> rs_lifecycle r \<noteq> Deleted) (db_resources d) \<noteq> None
      then (Inl Conflict, d)
      else
        (case update_resource
                (\<lambda>r. rs_id r = ti_resource i \<and> rs_kind r = ti_kind i \<and> rs_org r = ti_org i
                   \<and> rs_space r = ti_space i \<and> rs_revision r = ti_expected i
                   \<and> rs_lifecycle r \<in> set (ti_from i))
                (transition_row now i) d of
           (Inl e, d1) \<Rightarrow> (Inl e, d1)
         | (Inr _, d1) \<Rightarrow>
             reread_resource (ti_resource i)
               (audit now (ti_actor i) (ti_action i) (Some (ti_resource i)) d1)))"

definition transition :: "int \<Rightarrow> transition_input \<Rightarrow> db \<Rightarrow> (control_error + resource_row) \<times> db" where
  "transition now i d =
     (if \<not> valid_transition i then (Inl InvalidInput, d)
      else if \<not> list_all (\<lambda>f. ti_to i \<in> set (allowed f)) (ti_from i) then (Inl InvalidTransition, d)
      else
        (case registry_resource (ti_resource i) d of
           Inl e \<Rightarrow> (Inl e, d)
         | Inr None \<Rightarrow> (Inl NotFound, d)
         | Inr (Some current) \<Rightarrow>
             if rs_kind current \<noteq> ti_kind i \<or> rs_org current \<noteq> ti_org i \<or> rs_space current \<noteq> ti_space i
             then (Inl NotFound, d)
             else if rs_lifecycle current \<notin> set (ti_from i) then (Inl InvalidTransition, d)
             else if rs_revision current \<noteq> ti_expected i then (Inl Conflict, d)
             else transaction (transition_work now i) d))"

section \<open>What a transition does\<close>

lemma allowed_cases:
  assumes "t \<in> set (allowed f)"
  shows "f \<notin> {Provisioning, Quarantined, Deleted}" "t \<notin> {Provisioning, Quarantined}"
  using assms by (cases f; auto simp: allowed_def)+

lemma transition_row_keeps [simp]:
  "rs_id (transition_row now i r) = rs_id r" "rs_lifecycle (transition_row now i r) = ti_to i"
  "rs_revision (transition_row now i r) = rs_revision r + 1"
  "row_ok r \<Longrightarrow> row_ok (transition_row now i r)"
  by (simp_all add: transition_row_def row_ok_def)

lemma transition_cases:
  assumes ok: "registry_ok d" and run: "transition now i d = (Inr r, d')"
  obtains row where "get_resource d (ti_resource i) = Some row" "ti_to i \<in> set (allowed (rs_lifecycle row))"
    "rs_kind row = ti_kind i" "rs_org row = ti_org i" "rs_space row = ti_space i"
    "rs_lifecycle row \<in> set (ti_from i)" "rs_revision row = ti_expected i"
    "ti_to i = Deleting \<Longrightarrow>
       \<forall>c \<in> set (db_resources d). rs_parent c = Some (ti_resource i) \<longrightarrow> rs_lifecycle c = Deleted"
    "r = transition_row now i row"
    "d' = audit now (ti_actor i) (ti_action i) (Some (ti_resource i))
            (row_move row (transition_row now i row) d)"
proof -
  from run have valid: "valid_transition i" by (simp add: transition_def split: if_splits)
  from run obtain row where get: "get_resource d (ti_resource i) = Some row"
    by (auto simp: transition_def registry_resource_def split: if_splits option.splits)
  with run valid have g: "list_all (\<lambda>f. ti_to i \<in> set (allowed f)) (ti_from i)"
      "rs_kind row = ti_kind i" "rs_org row = ti_org i" "rs_space row = ti_space i"
      "rs_lifecycle row \<in> set (ti_from i)" "rs_revision row = ti_expected i"
    and work: "transition_work now i d = (Inr r, d')"
    by (simp_all add: transition_def registry_resource_def valid_transition_def transaction_Inr split: if_splits)
  note facts = get_resourceD [OF get]
  let ?P = "\<lambda>r. rs_id r = ti_resource i \<and> rs_kind r = ti_kind i \<and> rs_org r = ti_org i
     \<and> rs_space r = ti_space i \<and> rs_revision r = ti_expected i \<and> rs_lifecycle r \<in> set (ti_from i)"
  have up: "update_resource ?P (transition_row now i) d = (Inr (), row_move row (transition_row now i row) d)"
    using g facts by (intro update_resource_hit [OF ok]) auto
  have "r = transition_row now i row \<and> d' = audit now (ti_actor i) (ti_action i) (Some (ti_resource i))
            (row_move row (transition_row now i row) d)"
    using work reread_resource_eq(2) [OF ok, of row "transition_row now i row"] facts
    by (auto simp: transition_work_def up split: if_splits)
  moreover have "ti_to i = Deleting \<Longrightarrow>
      \<forall>c \<in> set (db_resources d). rs_parent c = Some (ti_resource i) \<longrightarrow> rs_lifecycle c = Deleted"
    using work by (auto simp: transition_work_def sql_get_None split: if_splits)
  moreover have "ti_to i \<in> set (allowed (rs_lifecycle row))" using g(1,5) by (auto simp: list_all_iff)
  ultimately show ?thesis using that get g(2-6) by blast
qed

lemma transition_ok [machine_intros]:
  assumes ok: "registry_ok d" and run: "transition now i d = (Inr r, d')"
  shows "registry_ok d'"
proof (cases rule: transition_cases [OF ok run])
  case (1 row)
  note facts = get_resourceD [OF 1(1)] and al = allowed_cases [OF 1(2)]
  have "saga_ok p (transition_row now i row)" if "saga_ok p row" for p
    using that al by (cases "pv_state p") (auto simp: saga_ok_def)
  then have "registry_ok (row_move row (transition_row now i row) d)"
    using facts al registry_okD(6) [OF ok, of row] by (intro registry_ok_row_move [OF ok]) auto
  with 1(10) show ?thesis by simp
qed

end
