(* ===== verification/ResourceAccess.thy ===== *)
theory ResourceAccess
  imports ResourceLifecycle
begin

text \<open>
  Who may open a resource, packages/control-plane/src/resourceAccess.ts: the levels, the
  walk up the resources a row inherits from, and the decision for a principal. The walk
  reads rows and grants through functions it is given, as \<open>levelOf\<close> reads them through
  the registry and \<open>grantOf\<close>; the locale \<open>access_source\<close> is what it relies on. Its
  specification \<open>may_have\<close> says, rule by rule, which levels a principal is entitled to.
\<close>

section \<open>Levels\<close>

text \<open>The order of \<open>RESOURCE_ACCESS_LEVELS\<close>.\<close>

definition access_rank :: "access_level \<Rightarrow> nat" where
  "access_rank l = (case l of View \<Rightarrow> 0 | Collaborate \<Rightarrow> 1 | Manage \<Rightarrow> 2)"

lemma access_rank_inj: "access_rank a = access_rank b \<Longrightarrow> a = b"
  by (cases a; cases b) (simp_all add: access_rank_def)

instantiation access_level :: linorder
begin

definition less_eq_access_level :: "access_level \<Rightarrow> access_level \<Rightarrow> bool" where
  "less_eq_access_level a b \<longleftrightarrow> access_rank a \<le> access_rank b"

definition less_access_level :: "access_level \<Rightarrow> access_level \<Rightarrow> bool" where
  "less_access_level a b \<longleftrightarrow> access_rank a < access_rank b"

instance
proof
  fix a b :: access_level
  assume "a \<le> b" "b \<le> a"
  then show "a = b" by (intro access_rank_inj) (simp add: less_eq_access_level_def)
qed (auto simp: less_eq_access_level_def less_access_level_def)

end

lemma access_le_Manage [simp]: "l \<le> Manage"
  by (cases l) (simp_all add: less_eq_access_level_def access_rank_def)

lemma View_le_access [simp]: "View \<le> l"
  by (simp add: less_eq_access_level_def access_rank_def)

definition access_at_least :: "access_level option \<Rightarrow> access_level \<Rightarrow> bool" where
  "access_at_least level required \<longleftrightarrow>
     (case level of None \<Rightarrow> False | Some l \<Rightarrow> access_rank l \<ge> access_rank required)"

definition higher :: "access_level option \<Rightarrow> access_level option \<Rightarrow> access_level option" where
  "higher a b =
     (if a = None then b else if b = None then a
      else if access_at_least a (the b) then a else b)"

definition space_wide :: "member_role \<Rightarrow> access_level" where
  "space_wide role =
     (if role = RoleOwner \<or> role = RoleAdmin then Manage
      else if role = RoleMember then Collaborate else View)"

section \<open>The walk\<close>

definition default_readable :: "lifecycle list" where
  "default_readable = [Active, Archived]"

definition opt_or :: "'a option \<Rightarrow> 'a option \<Rightarrow> 'a option" where
  "opt_or a b = (case a of None \<Rightarrow> b | Some x \<Rightarrow> Some x)"

definition access_source_of :: "resource_row \<Rightarrow> string option" where
  "access_source_of r = opt_or (rs_access_parent r) (rs_parent r)"

type_synonym row_lookup = "string \<Rightarrow> control_error + resource_row option"

function level_of :: "row_lookup \<Rightarrow> (string \<Rightarrow> string \<Rightarrow> access_level option) \<Rightarrow> resource_row
    \<Rightarrow> string \<Rightarrow> member_role \<Rightarrow> string list \<Rightarrow> control_error + access_level option" where
  "level_of look grant row who role seen =
     (if rs_owner row = who then Inr (Some Manage)
      else if rs_visibility row = Private then Inr None
      else
        (let granted = grant (rs_id row) who in
         if rs_visibility row = Restricted then Inr granted
         else if rs_visibility row = SpaceWide then Inr (higher granted (Some (space_wide role)))
         else if \<not> truthy (access_source_of row) \<or> rs_id row \<in> set seen \<or> length seen \<ge> 32
         then Inl RecoveryRequired
         else
           (case look (the (access_source_of row)) of
              Inl e \<Rightarrow> Inl e
            | Inr None \<Rightarrow> Inl RecoveryRequired
            | Inr (Some parent) \<Rightarrow>
                if rs_org parent \<noteq> rs_org row \<or> rs_space parent \<noteq> rs_space row then Inr granted
                else if rs_lifecycle parent \<notin> set default_readable then Inr granted
                else
                  (case level_of look grant parent who role (rs_id row # seen) of
                     Inl e \<Rightarrow> Inl e
                   | Inr l \<Rightarrow> Inr (higher granted l)))))"
  by pat_completeness auto
termination
  by (relation "measure (\<lambda>(_, _, _, _, _, seen). 32 - length seen)") auto

declare level_of.simps [simp del]

text \<open>The project a row lives under: \<open>fuel\<close> is what is left of the 32 steps.\<close>

fun project_of :: "row_lookup \<Rightarrow> nat \<Rightarrow> resource_row option \<Rightarrow> control_error + string option" where
  "project_of look 0 current = Inl RecoveryRequired"
| "project_of look (Suc fuel) None = Inl RecoveryRequired"
| "project_of look (Suc fuel) (Some row) =
     (if rs_kind row = ''project'' then Inr (Some (rs_id row))
      else if \<not> truthy (rs_parent row) then Inr None
      else (case look (the (rs_parent row)) of
              Inl e \<Rightarrow> Inl e
            | Inr next \<Rightarrow> project_of look fuel next))"

section \<open>Reads of the database\<close>

definition look_in :: "db \<Rightarrow> row_lookup" where
  "look_in d i = registry_resource i d"

definition membership_role :: "int \<Rightarrow> db \<Rightarrow> string \<Rightarrow> string \<Rightarrow> member_role option" where
  "membership_role now d who space =
     map_option mb_role
       (sql_get (\<lambda>m. mb_space m = space \<and> mb_principal m = who \<and> mb_active m
                   \<and> unexpired now (mb_expires m)) (db_members d))"

definition principal_kind_of :: "db \<Rightarrow> string \<Rightarrow> principal_kind option" where
  "principal_kind_of d who =
     map_option pp_kind (sql_get (\<lambda>p. pp_id p = who \<and> pp_status p = StatusActive) (db_principals d))"

definition grant_of :: "int \<Rightarrow> db \<Rightarrow> string \<Rightarrow> string \<Rightarrow> access_level option" where
  "grant_of now d resource who =
     map_option gr_access
       (sql_get (\<lambda>g. gr_resource g = resource \<and> gr_principal g = who
                   \<and> unexpired now (gr_expires g)) (db_grants d))"

section \<open>The decision\<close>

record access_input =
  ac_resource :: string
  ac_principal :: string
  ac_org :: string
  ac_space :: string
  ac_lifecycles :: "lifecycle list option"

definition allowed_lifecycles :: "lifecycle list option \<Rightarrow> control_error + lifecycle list" where
  "allowed_lifecycles value =
     (let source = nullish value default_readable
      in if source = [] then Inl InvalidInput else Inr source)"

text \<open>
  \<open>policy\<close> is the optional host policy \<open>projectAllowed\<close>. The first case of the result is
  an error that is thrown, the second that the principal cannot open the resource.
\<close>

definition project_blocked :: "(string \<Rightarrow> string \<Rightarrow> bool) option \<Rightarrow> db \<Rightarrow> resource_row \<Rightarrow> string
    \<Rightarrow> control_error + bool" where
  "project_blocked policy d row who =
     (case policy of
        None \<Rightarrow> Inr False
      | Some ok \<Rightarrow>
          (case project_of (look_in d) 32 (Some row) of
             Inl e \<Rightarrow> Inl e
           | Inr None \<Rightarrow> Inr False
           | Inr (Some project) \<Rightarrow> Inr (\<not> ok who project)))"

definition member_access :: "int \<Rightarrow> db \<Rightarrow> resource_row \<Rightarrow> string \<Rightarrow> string
    \<Rightarrow> control_error + (resource_row \<times> access_level) option" where
  "member_access now d row who space =
     (case membership_role now d who space of
        None \<Rightarrow> Inr None
      | Some role \<Rightarrow>
          (case level_of (look_in d) (grant_of now d) row who role [] of
             Inl e \<Rightarrow> Inl e
           | Inr None \<Rightarrow> Inr None
           | Inr (Some level) \<Rightarrow>
               Inr (Some (row, if role = RoleViewer \<or> role = RoleReference then View else level))))"

definition access :: "(string \<Rightarrow> string \<Rightarrow> bool) option \<Rightarrow> int \<Rightarrow> db \<Rightarrow> access_input
    \<Rightarrow> control_error + (resource_row \<times> access_level) option" where
  "access policy now d i =
     (if \<not> (is_identifier (ac_resource i) \<and> is_identifier (ac_principal i)
            \<and> is_identifier (ac_org i) \<and> is_identifier (ac_space i))
      then Inl InvalidInput
      else
        (case allowed_lifecycles (ac_lifecycles i) of
           Inl e \<Rightarrow> Inl e
         | Inr lifecycles \<Rightarrow>
             (case registry_resource (ac_resource i) d of
                Inl e \<Rightarrow> Inl e
              | Inr None \<Rightarrow> Inr None
              | Inr (Some row) \<Rightarrow>
                  if rs_org row \<noteq> ac_org i \<or> rs_space row \<noteq> ac_space i then Inr None
                  else if rs_lifecycle row \<notin> set lifecycles then Inr None
                  else if principal_kind_of d (ac_principal i) = Some KindSystem then Inr (Some (row, Manage))
                  else
                    (case project_blocked policy d row (ac_principal i) of
                       Inl e \<Rightarrow> Inl e
                     | Inr True \<Rightarrow> Inr None
                     | Inr False \<Rightarrow> member_access now d row (ac_principal i) (ac_space i)))))"

definition readable :: "(string \<Rightarrow> string \<Rightarrow> bool) option \<Rightarrow> int \<Rightarrow> db \<Rightarrow> access_input
    \<Rightarrow> control_error + resource_row option" where
  "readable policy now d i = map_sum id (map_option fst) (access policy now d i)"

definition require_readable :: "(string \<Rightarrow> string \<Rightarrow> bool) option \<Rightarrow> int \<Rightarrow> db \<Rightarrow> access_input
    \<Rightarrow> control_error + resource_row" where
  "require_readable policy now d i =
     (case readable policy now d i of
        Inl e \<Rightarrow> Inl e
      | Inr None \<Rightarrow> Inl NotFound
      | Inr (Some row) \<Rightarrow> Inr row)"

section \<open>The specification\<close>

inductive may_have :: "row_lookup \<Rightarrow> (string \<Rightarrow> string \<Rightarrow> access_level option) \<Rightarrow> string \<Rightarrow> member_role
    \<Rightarrow> resource_row \<Rightarrow> access_level \<Rightarrow> bool" for look grant who role where
  owns: "rs_owner row = who \<Longrightarrow> may_have look grant who role row Manage"
| named: "rs_visibility row \<noteq> Private \<Longrightarrow> grant (rs_id row) who = Some l \<Longrightarrow> may_have look grant who role row l"
| wide: "rs_visibility row = SpaceWide \<Longrightarrow> may_have look grant who role row (space_wide role)"
| follows: "rs_visibility row = Inherit \<Longrightarrow> access_source_of row = Some p \<Longrightarrow> look p = Inr (Some parent)
    \<Longrightarrow> rs_org parent = rs_org row \<Longrightarrow> rs_space parent = rs_space row
    \<Longrightarrow> rs_lifecycle parent \<in> set default_readable \<Longrightarrow> may_have look grant who role parent l
    \<Longrightarrow> may_have look grant who role row l"

inductive_simps may_have_simps: "may_have look grant who role row l"

text \<open>A result is the best level a principal may have, or none when it may have none.\<close>

definition best_level :: "(access_level \<Rightarrow> bool) \<Rightarrow> access_level option \<Rightarrow> bool" where
  "best_level may result \<longleftrightarrow>
     (case result of None \<Rightarrow> \<forall>l. \<not> may l | Some m \<Rightarrow> may m \<and> (\<forall>l. may l \<longrightarrow> l \<le> m))"

lemma best_level_unique: "best_level may a \<Longrightarrow> best_level may b \<Longrightarrow> a = b"
  by (auto simp: best_level_def split: option.splits intro: antisym)

lemma best_level_higher:
  assumes "best_level p a" "best_level q b" "\<And>l. r l \<longleftrightarrow> p l \<or> q l"
  shows "best_level r (higher a b)"
proof (cases a)
  case None
  with assms show ?thesis by (simp add: best_level_def higher_def split: option.splits)
next
  case a: (Some x)
  show ?thesis
  proof (cases b)
    case None
    with assms a show ?thesis by (simp add: best_level_def higher_def)
  next
    case (Some y)
    with assms a show ?thesis
      by (cases "y \<le> x") (auto simp: best_level_def higher_def access_at_least_def
          less_eq_access_level_def [symmetric] not_le intro: order_trans less_imp_le)
  qed
qed

lemma best_level_grant: "best_level (\<lambda>l. g = Some l) g"
  by (simp add: best_level_def split: option.split)

lemma level_of_best:
  "level_of look grant row who role seen = Inr res \<Longrightarrow> best_level (may_have look grant who role row) res"
proof (induction look grant row who role seen arbitrary: res rule: level_of.induct)
  case (1 look grant row who role seen)
  let ?may = "may_have look grant who role" and ?g = "grant (rs_id row) who"
  note run = 1(2) [unfolded level_of.simps [of look grant row who role seen] Let_def]
  consider (own) "rs_owner row = who" | (priv) "rs_owner row \<noteq> who" "rs_visibility row = Private"
    | (restr) "rs_owner row \<noteq> who" "rs_visibility row = Restricted"
    | (wide) "rs_owner row \<noteq> who" "rs_visibility row = SpaceWide"
    | (inh) "rs_owner row \<noteq> who" "rs_visibility row = Inherit"
    by (cases "rs_visibility row") auto
  then show ?case
  proof cases
    case own
    with run show ?thesis by (auto simp: best_level_def intro: may_have.owns)
  next
    case priv
    with run show ?thesis by (simp add: best_level_def may_have_simps [of look grant who role row])
  next
    case restr
    then have "?may row = (\<lambda>l. ?g = Some l)"
      by (simp add: fun_eq_iff may_have_simps [of look grant who role row])
    with run restr show ?thesis by (simp add: best_level_grant)
  next
    case wide
    then have "\<And>l. ?may row l \<longleftrightarrow> ?g = Some l \<or> l = space_wide role"
      by (auto simp: may_have_simps [of look grant who role row])
    from best_level_higher [OF best_level_grant _ this, where b = "Some (space_wide role)"] run wide
    show ?thesis by (simp add: best_level_def)
  next
    case inh
    with run obtain p parent where src: "access_source_of row = Some p" "look p = Inr (Some parent)"
      and fresh: "truthy (access_source_of row)" "rs_id row \<notin> set seen" "length seen < 32"
      by (cases "access_source_of row") (auto split: if_splits sum.splits option.splits)
    have step: "?may row l \<longleftrightarrow> ?g = Some l \<or> (rs_org parent = rs_org row \<and> rs_space parent = rs_space row
        \<and> rs_lifecycle parent \<in> set default_readable \<and> ?may parent l)" for l
      using inh src by (auto simp: may_have_simps [of look grant who role row])
    show ?thesis
    proof (cases "rs_org parent = rs_org row \<and> rs_space parent = rs_space row
        \<and> rs_lifecycle parent \<in> set default_readable")
      case False
      with step have "?may row = (\<lambda>l. ?g = Some l)" by (auto simp: fun_eq_iff)
      with False run inh src fresh show ?thesis by (auto simp: best_level_grant split: if_splits)
    next
      case True
      with run inh src fresh obtain up where
        up: "level_of look grant parent who role (rs_id row # seen) = Inr up" "res = higher ?g up"
        by (auto split: sum.splits)
      have "best_level (?may parent) up"
        using "1.IH" inh src fresh True up(1) by simp
      from best_level_higher [OF best_level_grant this] step True up(2) show ?thesis by simp
    qed
  qed
qed

section \<open>When the walk returns\<close>

text \<open>
  A row whose inheritance ends within \<open>n\<close> steps at a row that does not inherit, with
  every row on the way present.
\<close>

fun settles :: "row_lookup \<Rightarrow> nat \<Rightarrow> resource_row \<Rightarrow> bool" where
  "settles look 0 row \<longleftrightarrow> rs_visibility row \<noteq> Inherit"
| "settles look (Suc n) row \<longleftrightarrow>
     rs_visibility row \<noteq> Inherit
     \<or> (truthy (access_source_of row)
        \<and> (case look (the (access_source_of row)) of
             Inr (Some parent) \<Rightarrow> settles look n parent
           | _ \<Rightarrow> False))"

lemma settles_Suc: "settles look n row \<Longrightarrow> settles look (Suc n) row"
  by (induction look n row rule: settles.induct) (auto split: sum.splits option.splits)

lemma settles_less: "settles look n row \<Longrightarrow> n \<le> m \<Longrightarrow> settles look m row"
  by (induction m) (auto simp: le_Suc_eq intro: settles_Suc simp del: settles.simps)

text \<open>The walk needs of the registry that a row is found under its own identifier only.\<close>

locale access_source =
  fixes look :: row_lookup
  assumes look_id: "look i = Inr (Some r) \<Longrightarrow> rs_id r = i"
begin

lemma level_of_returns:
  assumes "settles look n row" "look (rs_id row) = Inr (Some row)" "length seen + n \<le> 32"
    and "\<And>s r. s \<in> set seen \<Longrightarrow> look s = Inr (Some r) \<Longrightarrow> \<not> settles look n r"
  shows "\<exists>l. level_of look grant row who role seen = Inr l"
  using assms
proof (induction n arbitrary: row seen)
  case 0
  then show ?case by (cases "rs_visibility row") (simp_all add: level_of.simps Let_def)
next
  case (Suc n)
  show ?case
  proof (cases "settles look n row")
    case True
    have "\<not> settles look n r" if "s \<in> set seen" "look s = Inr (Some r)" for s r
      using Suc.prems(4) [OF that] settles_Suc [of look n r] by blast
    with True Suc.prems(2,3) show ?thesis by (intro Suc.IH) auto
  next
    case False
    then have vis: "rs_visibility row = Inherit" by (cases n) auto
    with Suc.prems(1) obtain parent where src: "truthy (access_source_of row)"
      "look (the (access_source_of row)) = Inr (Some parent)" "settles look n parent"
      by (auto split: sum.splits option.splits)
    have fresh: "rs_id row \<notin> set seen" using Suc.prems(1,2,4) by blast
    have parent: "look (rs_id parent) = Inr (Some parent)" using src(2) look_id [OF src(2)] by simp
    have older: "\<not> settles look n r" if "s \<in> set (rs_id row # seen)" "look s = Inr (Some r)" for s r
      using that False Suc.prems(2,4) settles_Suc [of look n r] by (auto simp del: settles.simps)
    have room: "length (rs_id row # seen) + n \<le> 32" using Suc.prems(3) by simp
    have "\<exists>l. level_of look grant parent who role (rs_id row # seen) = Inr l"
      by (rule Suc.IH [OF src(3) parent room]) (rule older)
    then obtain l where "level_of look grant parent who role (rs_id row # seen) = Inr l" by blast
    with vis src(1,2) fresh Suc.prems(3) show ?thesis
      by (simp add: level_of.simps [of look grant row] Let_def)
  qed
qed

lemma level_of_decides:
  assumes "settles look 32 row" "look (rs_id row) = Inr (Some row)"
  shows "\<exists>l. level_of look grant row who role [] = Inr l \<and> best_level (may_have look grant who role row) l"
proof -
  obtain l where l: "level_of look grant row who role [] = Inr l"
    using level_of_returns [OF assms, of "[]" grant who role] by auto
  with level_of_best [OF l] show ?thesis by blast
qed

end

lemma look_in_id: "look_in d i = Inr (Some r) \<Longrightarrow> rs_id r = i"
  by (auto simp: look_in_def registry_resource_def dest: get_resourceD split: if_splits)

interpretation db_rows: access_source "look_in d" for d
  by unfold_locales (rule look_in_id)

section \<open>The decision and its parts\<close>

definition viewer_cap :: "member_role \<Rightarrow> access_level \<Rightarrow> access_level" where
  "viewer_cap role level = (if role = RoleViewer \<or> role = RoleReference then View else level)"

lemma access_SomeD:
  assumes "access policy now d i = Inr (Some (row, l))"
  shows "get_resource d (ac_resource i) = Some row" "rs_org row = ac_org i" "rs_space row = ac_space i"
    "rs_lifecycle row \<in> set (nullish (ac_lifecycles i) default_readable)"
    "principal_kind_of d (ac_principal i) = Some KindSystem \<and> l = Manage
     \<or> project_blocked policy d row (ac_principal i) = Inr False
       \<and> member_access now d row (ac_principal i) (ac_space i) = Inr (Some (row, l))"
  using assms
  by (auto simp: access_def allowed_lifecycles_def Let_def registry_resource_def member_access_def
      split: if_splits sum.splits option.splits bool.splits)

lemma member_access_SomeD:
  assumes "member_access now d row who space = Inr (Some (row', l))"
  obtains role level where "membership_role now d who space = Some role"
    "level_of (look_in d) (grant_of now d) row who role [] = Inr (Some level)"
    "row' = row" "l = viewer_cap role level"
proof -
  from assms obtain role where role: "membership_role now d who space = Some role"
    by (auto simp: member_access_def split: option.splits)
  with assms obtain level where level: "level_of (look_in d) (grant_of now d) row who role [] = Inr (Some level)"
    by (auto simp: member_access_def split: sum.splits option.splits)
  with assms role have "row' = row" "l = viewer_cap role level"
    by (simp_all add: member_access_def viewer_cap_def)
  with role level show ?thesis by (rule that)
qed

lemma level_of_private:
  "rs_visibility row = Private \<Longrightarrow>
   level_of look grant row who role seen = Inr (if rs_owner row = who then Some Manage else None)"
  by (simp add: level_of.simps)

definition demo_row :: "string \<Rightarrow> string \<Rightarrow> string option \<Rightarrow> string \<Rightarrow> visibility \<Rightarrow> resource_row" where
  "demo_row i k parent owner v =
     \<lparr>rs_id = i, rs_kind = k, rs_org = ''o'', rs_space = ''s'', rs_parent = parent,
      rs_access_parent = None, rs_owner = owner, rs_created_by = owner, rs_visibility = v,
      rs_lifecycle = Active, rs_access_revision = 1, rs_revision = 1, rs_created_at = 0, rs_updated_at = 0\<rparr>"

definition demo_member :: "string \<Rightarrow> member_role \<Rightarrow> member_row" where
  "demo_member who role = \<lparr>mb_space = ''s'', mb_principal = who, mb_role = role, mb_active = True, mb_expires = None\<rparr>"

definition demo_user :: "string \<Rightarrow> principal_kind \<Rightarrow> principal_row" where
  "demo_user who k = \<lparr>pp_id = who, pp_kind = k, pp_status = StatusActive\<rparr>"

text \<open>A project with two chats, one following the project and one private.\<close>

definition demo_db :: db where
  "demo_db =
     \<lparr>db_resources = [demo_row ''p'' ''project'' None ''ann'' SpaceWide,
                      demo_row ''c'' ''session'' (Some ''p'') ''ann'' Inherit,
                      demo_row ''x'' ''session'' (Some ''p'') ''ann'' Private],
      db_provisioning = [], 
      db_grants = [\<lparr>gr_resource = ''c'', gr_principal = ''bob'', gr_access = Manage, gr_granted_by = ''ann'',
                    gr_created_at = 0, gr_updated_at = 0, gr_expires = None, gr_revision = 1\<rparr>],
      db_policies = [],
      db_members = [demo_member ''ann'' RoleOwner, demo_member ''bob'' RoleMember, demo_member ''eve'' RoleViewer],
      db_principals = [demo_user ''ann'' KindUser, demo_user ''bob'' KindUser, demo_user ''eve'' KindUser,
                       demo_user ''sys'' KindSystem],
      db_spaces = [\<lparr>sc_id = ''s'', sc_org = ''o''\<rparr>],
      db_audit = [], db_outbox = [], db_receipts = [], db_epoch = 1, db_next_seq = 1, db_next_outbox = 1\<rparr>"

definition demo_ask :: "string \<Rightarrow> string \<Rightarrow> access_input" where
  "demo_ask i who = \<lparr>ac_resource = i, ac_principal = who, ac_org = ''o'', ac_space = ''s'', ac_lifecycles = None\<rparr>"

lemma demo_bob_facts:
  "is_identifier (ac_resource (demo_ask ''c'' ''bob''))" "is_identifier (ac_principal (demo_ask ''c'' ''bob''))"
  "is_identifier (ac_org (demo_ask ''c'' ''bob''))" "is_identifier (ac_space (demo_ask ''c'' ''bob''))"
  "get_resource demo_db (ac_resource (demo_ask ''c'' ''bob'')) = Some (demo_row ''c'' ''session'' (Some ''p'') ''ann'' Inherit)"
  "rs_org (demo_row ''c'' ''session'' (Some ''p'') ''ann'' Inherit) = ac_org (demo_ask ''c'' ''bob'')"
  "rs_space (demo_row ''c'' ''session'' (Some ''p'') ''ann'' Inherit) = ac_space (demo_ask ''c'' ''bob'')"
  "rs_lifecycle (demo_row ''c'' ''session'' (Some ''p'') ''ann'' Inherit)
     \<in> set (nullish (ac_lifecycles (demo_ask ''c'' ''bob'')) default_readable)"
  "principal_kind_of demo_db (ac_principal (demo_ask ''c'' ''bob'')) \<noteq> Some KindSystem"
  "project_blocked None demo_db (demo_row ''c'' ''session'' (Some ''p'') ''ann'' Inherit)
     (ac_principal (demo_ask ''c'' ''bob'')) = Inr False"
  "membership_role 0 demo_db (ac_principal (demo_ask ''c'' ''bob'')) (ac_space (demo_ask ''c'' ''bob'')) = Some RoleMember"
  "settles (look_in demo_db) 32 (demo_row ''c'' ''session'' (Some ''p'') ''ann'' Inherit)"
  by code_simp+

section \<open>Properties\<close>

text \<open>
  C1: For a member of the Space and a row whose inheritance settles, the decision is the
  best level that the access rules give the member, capped at \<open>view\<close> for viewers, and no
  access when they give none; the walk over the inherited rows always returns.
\<close>
theorem access_matches_rules:
  assumes "is_identifier (ac_resource i)" "is_identifier (ac_principal i)"
    "is_identifier (ac_org i)" "is_identifier (ac_space i)"
    and "get_resource d (ac_resource i) = Some row" "rs_org row = ac_org i" "rs_space row = ac_space i"
    and "rs_lifecycle row \<in> set (nullish (ac_lifecycles i) default_readable)"
    and "principal_kind_of d (ac_principal i) \<noteq> Some KindSystem"
    and "project_blocked policy d row (ac_principal i) = Inr False"
    and role: "membership_role now d (ac_principal i) (ac_space i) = Some role"
    and settled: "settles (look_in d) 32 row"
  shows "\<exists>best. best_level (may_have (look_in d) (grant_of now d) (ac_principal i) role row) best
           \<and> access policy now d i = Inr (map_option (\<lambda>m. (row, viewer_cap role m)) best)"
proof -
  have "look_in d (rs_id row) = Inr (Some row)"
    using assms(1,5) get_resourceD [OF assms(5)] by (simp add: look_in_def registry_resource_def)
  from db_rows.level_of_decides [OF settled this, of "grant_of now d" "ac_principal i" role]
  obtain best where b: "level_of (look_in d) (grant_of now d) row (ac_principal i) role [] = Inr best"
    "best_level (may_have (look_in d) (grant_of now d) (ac_principal i) role row) best" by blast
  have "nullish (ac_lifecycles i) default_readable \<noteq> []" using assms(8) by auto
  then have "access policy now d i = member_access now d row (ac_principal i) (ac_space i)"
    using assms(1-10) by (simp add: access_def allowed_lifecycles_def Let_def registry_resource_def)
  also have "\<dots> = Inr (map_option (\<lambda>m. (row, viewer_cap role m)) best)"
    using role b(1) by (cases best) (simp_all add: member_access_def viewer_cap_def)
  finally show ?thesis using b(2) by blast
qed

theorem access_matches_rules_witness:
  "\<exists>best. best_level (may_have (look_in demo_db) (grant_of 0 demo_db) (ac_principal (demo_ask ''c'' ''bob''))
        RoleMember (demo_row ''c'' ''session'' (Some ''p'') ''ann'' Inherit)) best
     \<and> access None 0 demo_db (demo_ask ''c'' ''bob'')
       = Inr (map_option (\<lambda>m. (demo_row ''c'' ''session'' (Some ''p'') ''ann'' Inherit, viewer_cap RoleMember m)) best)"
  by (rule access_matches_rules [OF demo_bob_facts])

text \<open>
  Nobody but a system principal opens anything without an active, unexpired membership
  of the Space, its owner included, and a viewer's membership never opens more than \<open>view\<close>.
\<close>
theorem access_needs_membership:
  assumes "access policy now d i = Inr (Some (row, l))"
    and "principal_kind_of d (ac_principal i) \<noteq> Some KindSystem"
  shows "\<exists>m \<in> set (db_members d). mb_space m = ac_space i \<and> mb_principal m = ac_principal i \<and> mb_active m
           \<and> unexpired now (mb_expires m) \<and> (mb_role m \<in> {RoleViewer, RoleReference} \<longrightarrow> l = View)"
proof -
  from access_SomeD(5) [OF assms(1)] assms(2)
  have "member_access now d row (ac_principal i) (ac_space i) = Inr (Some (row, l))" by simp
  then obtain role level where "membership_role now d (ac_principal i) (ac_space i) = Some role"
    "l = viewer_cap role level" by (rule member_access_SomeD)
  moreover from this obtain m where "sql_get (\<lambda>m. mb_space m = ac_space i \<and> mb_principal m = ac_principal i
      \<and> mb_active m \<and> unexpired now (mb_expires m)) (db_members d) = Some m" "role = mb_role m"
    by (auto simp: membership_role_def)
  ultimately show ?thesis by (auto simp: viewer_cap_def dest!: sql_get_SomeD)
qed

lemma demo_eve: "access None 0 demo_db (demo_ask ''c'' ''eve'')
    = Inr (Some (demo_row ''c'' ''session'' (Some ''p'') ''ann'' Inherit, View))"
  "principal_kind_of demo_db (ac_principal (demo_ask ''c'' ''eve'')) \<noteq> Some KindSystem"
  by code_simp+

theorem access_needs_membership_witness:
  "\<exists>m \<in> set (db_members demo_db). mb_space m = ac_space (demo_ask ''c'' ''eve'')
     \<and> mb_principal m = ac_principal (demo_ask ''c'' ''eve'') \<and> mb_active m \<and> unexpired 0 (mb_expires m)
     \<and> (mb_role m \<in> {RoleViewer, RoleReference} \<longrightarrow> View = View)"
  by (rule access_needs_membership [OF demo_eve])

lemma private_access:
  assumes "access policy now d i = Inr (Some (row, l))" "rs_visibility row = Private"
    and "principal_kind_of d (ac_principal i) \<noteq> Some KindSystem"
  shows "rs_owner row = ac_principal i
     \<and> (\<exists>role. membership_role now d (ac_principal i) (ac_space i) = Some role \<and> l = viewer_cap role Manage)"
proof -
  from access_SomeD(5) [OF assms(1)] assms(3)
  have "member_access now d row (ac_principal i) (ac_space i) = Inr (Some (row, l))" by simp
  then show ?thesis
    using assms(2) by (elim member_access_SomeD) (auto simp: level_of_private split: if_splits)
qed

text \<open>
  A private row is opened by its owner and by system principals only, whatever grants
  name someone else; the owner manages it unless the owner's own membership is a viewer's.
\<close>
theorem private_row_closed:
  assumes "access policy now d i = Inr (Some (row, l))" "rs_visibility row = Private"
    and "principal_kind_of d (ac_principal i) \<noteq> Some KindSystem"
  shows "rs_owner row = ac_principal i
     \<and> (\<exists>role. membership_role now d (ac_principal i) (ac_space i) = Some role \<and> l = viewer_cap role Manage)"
  using assms by (rule private_access)

lemma demo_private: "access None 0 demo_db (demo_ask ''x'' ''ann'')
    = Inr (Some (demo_row ''x'' ''session'' (Some ''p'') ''ann'' Private, Manage))"
  "rs_visibility (demo_row ''x'' ''session'' (Some ''p'') ''ann'' Private) = Private"
  "principal_kind_of demo_db (ac_principal (demo_ask ''x'' ''ann'')) \<noteq> Some KindSystem"
  by code_simp+

theorem private_row_closed_witness:
  "rs_owner (demo_row ''x'' ''session'' (Some ''p'') ''ann'' Private) = ac_principal (demo_ask ''x'' ''ann'')
     \<and> (\<exists>role. membership_role 0 demo_db (ac_principal (demo_ask ''x'' ''ann'')) (ac_space (demo_ask ''x'' ''ann''))
           = Some role \<and> Manage = viewer_cap role Manage)"
  by (rule private_row_closed [OF demo_private])

end
