(* ===== verification/ResourceSharing.thy ===== *)
theory ResourceSharing
  imports ResourceAccess JsMap
begin

text \<open>
  Sharing, packages/control-plane/src/resourceSharing.ts: the sharing policy of a Space,
  the people list and visibility of a resource, the startup repair of rows nobody can
  reach, and the resource an inheriting row follows. Clauses of the code that reject
  values outside their TypeScript type are the types here.
\<close>

section \<open>Policies\<close>

record sharing_policy =
  po_default_space :: bool
  po_allow_space :: bool
  po_members_share :: bool
  po_max_access :: access_level
  po_revision :: int

definition default_sharing_policy :: sharing_policy where
  "default_sharing_policy = \<lparr>po_default_space = False, po_allow_space = True, po_members_share = True,
     po_max_access = Manage, po_revision = 0\<rparr>"

definition policy_of :: "db \<Rightarrow> string \<Rightarrow> sharing_policy" where
  "policy_of d space =
     (case sql_get (\<lambda>p. sp_policy_space p = space) (db_policies d) of
        None \<Rightarrow> default_sharing_policy
      | Some row \<Rightarrow> \<lparr>po_default_space = sp_default_space row, po_allow_space = sp_allow_space row,
                     po_members_share = sp_members_share row, po_max_access = sp_max_access row,
                     po_revision = sp_policy_revision row\<rparr>)"

definition space_policy :: "string \<Rightarrow> db \<Rightarrow> control_error + sharing_policy" where
  "space_policy space d = (if \<not> is_identifier space then Inl InvalidInput else Inr (policy_of d space))"

record policy_input =
  pi_space :: string
  pi_actor :: string
  pi_expected :: "int option"
  pi_default_space :: "bool option"
  pi_allow_space :: "bool option"
  pi_members_share :: "bool option"
  pi_max_access :: "access_level option"

definition patched_policy :: "policy_input \<Rightarrow> sharing_policy \<Rightarrow> sharing_policy" where
  "patched_policy i current =
     \<lparr>po_default_space = nullish (pi_default_space i) (po_default_space current),
      po_allow_space = nullish (pi_allow_space i) (po_allow_space current),
      po_members_share = nullish (pi_members_share i) (po_members_share current),
      po_max_access = nullish (pi_max_access i) (po_max_access current),
      po_revision = po_revision current\<rparr>"

text \<open>\<open>INSERT ... ON CONFLICT(space_id) DO UPDATE\<close>.\<close>

definition upsert_policy :: "int \<Rightarrow> string \<Rightarrow> string \<Rightarrow> sharing_policy \<Rightarrow> db \<Rightarrow> db" where
  "upsert_policy now actor space p d =
     (let fill = (\<lambda>r. r\<lparr>sp_default_space := po_default_space p, sp_allow_space := po_allow_space p,
                       sp_members_share := po_members_share p, sp_max_access := po_max_access p,
                       sp_updated_by := actor, sp_policy_updated_at := now\<rparr>)
      in if sql_get (\<lambda>r. sp_policy_space r = space) (db_policies d) = None
         then d\<lparr>db_policies := db_policies d @
                [\<lparr>sp_policy_space = space, sp_default_space = po_default_space p,
                  sp_allow_space = po_allow_space p, sp_members_share = po_members_share p,
                  sp_max_access = po_max_access p, sp_policy_revision = 1, sp_updated_by = actor,
                  sp_policy_updated_at = now\<rparr>]\<rparr>
         else d\<lparr>db_policies := sql_update (\<lambda>r. sp_policy_space r = space)
                (\<lambda>r. (fill r)\<lparr>sp_policy_revision := sp_policy_revision r + 1\<rparr>) (db_policies d)\<rparr>)"

definition set_policy_work :: "int \<Rightarrow> policy_input \<Rightarrow> sharing_policy \<Rightarrow> sharing_policy \<Rightarrow> db
    \<Rightarrow> (control_error + sharing_policy) \<times> db" where
  "set_policy_work now i current wanted d =
     (if sql_get (\<lambda>s. sc_id s = pi_space i) (db_spaces d) = None then (Inl NotFound, d)
      else if po_revision (policy_of d (pi_space i)) \<noteq> po_revision current then (Inl Conflict, d)
      else
        (let d' = audit now (pi_actor i) ''space.sharing-policy-set'' (Some (pi_space i))
                    (upsert_policy now (pi_actor i) (pi_space i) wanted d)
         in (Inr (policy_of d' (pi_space i)), d')))"

definition set_policy :: "int \<Rightarrow> policy_input \<Rightarrow> db \<Rightarrow> (control_error + sharing_policy) \<times> db" where
  "set_policy now i d =
     (if \<not> (is_identifier (pi_space i) \<and> is_identifier (pi_actor i)) then (Inl InvalidInput, d)
      else
        (let current = policy_of d (pi_space i);
             wanted = patched_policy i current
         in if pi_expected i \<noteq> None \<and> pi_expected i \<noteq> Some (po_revision current) then (Inl Conflict, d)
            else if \<not> po_allow_space wanted \<and> po_default_space wanted then (Inl InvalidInput, d)
            else transaction (set_policy_work now i current wanted) d))"

section \<open>Grants\<close>

record resource_grant =
  rg_principal :: string
  rg_access :: access_level
  rg_granted_by :: string
  rg_created_at :: int
  rg_updated_at :: int
  rg_revision :: int

definition grant_view :: "grant_row \<Rightarrow> resource_grant" where
  "grant_view g = \<lparr>rg_principal = gr_principal g, rg_access = gr_access g, rg_granted_by = gr_granted_by g,
     rg_created_at = gr_created_at g, rg_updated_at = gr_updated_at g, rg_revision = gr_revision g\<rparr>"

definition grants_of :: "int \<Rightarrow> db \<Rightarrow> string \<Rightarrow> resource_grant list" where
  "grants_of now d resource =
     map grant_view
       (sort_key (\<lambda>g. (gr_created_at g, gr_principal g))
          (filter (\<lambda>g. gr_resource g = resource \<and> unexpired now (gr_expires g)) (db_grants d)))"

definition resource_grants :: "int \<Rightarrow> string \<Rightarrow> db \<Rightarrow> control_error + resource_grant list" where
  "resource_grants now resource d =
     (if \<not> is_identifier resource then Inl InvalidInput else Inr (grants_of now d resource))"

definition active_human_member :: "int \<Rightarrow> db \<Rightarrow> string \<Rightarrow> string \<Rightarrow> bool" where
  "active_human_member now d who space \<longleftrightarrow>
     list_ex (\<lambda>m. mb_space m = space \<and> mb_principal m = who \<and> mb_active m
                \<and> mb_role m \<in> {RoleOwner, RoleAdmin, RoleMember, RoleViewer}
                \<and> unexpired now (mb_expires m)
                \<and> list_ex (\<lambda>p. pp_id p = mb_principal m \<and> pp_kind p = KindUser \<and> pp_status p = StatusActive)
                    (db_principals d)) (db_members d)"

definition human_principal :: "db \<Rightarrow> string \<Rightarrow> bool" where
  "human_principal d who \<longleftrightarrow>
     sql_get (\<lambda>p. pp_id p = who \<and> pp_kind p = KindUser) (db_principals d) \<noteq> None"

text \<open>The writes that \<open>share\<close> makes to the people list.\<close>

definition drop_grant :: "string \<Rightarrow> string \<Rightarrow> db \<Rightarrow> db" where
  "drop_grant resource who d =
     d\<lparr>db_grants := sql_delete (\<lambda>g. gr_resource g = resource \<and> gr_principal g = who) (db_grants d)\<rparr>"

definition drop_expired :: "int \<Rightarrow> string \<Rightarrow> db \<Rightarrow> db" where
  "drop_expired time resource d =
     d\<lparr>db_grants := sql_delete (\<lambda>g. gr_resource g = resource
         \<and> (case gr_expires g of None \<Rightarrow> False | Some t \<Rightarrow> t \<le> time)) (db_grants d)\<rparr>"

definition upsert_grant :: "int \<Rightarrow> string \<Rightarrow> string \<Rightarrow> string \<Rightarrow> access_level \<Rightarrow> db \<Rightarrow> db" where
  "upsert_grant time actor resource who level d =
     (let P = (\<lambda>g. gr_resource g = resource \<and> gr_principal g = who) in
      if sql_get P (db_grants d) = None
      then d\<lparr>db_grants := db_grants d @
             [\<lparr>gr_resource = resource, gr_principal = who, gr_access = level, gr_granted_by = actor,
               gr_created_at = time, gr_updated_at = time, gr_expires = None, gr_revision = 1\<rparr>]\<rparr>
      else d\<lparr>db_grants := sql_update P
             (\<lambda>g. g\<lparr>gr_access := level, gr_granted_by := actor, gr_updated_at := time,
                    gr_expires := None, gr_revision := gr_revision g + 1\<rparr>) (db_grants d)\<rparr>)"

section \<open>Sharing a resource\<close>

record share_input =
  sh_resource :: string
  sh_org :: string
  sh_space :: string
  sh_actor :: string
  sh_expected :: "int option"
  sh_visibility :: "visibility option"
  sh_grants :: "(string \<times> access_level) list option"

definition max_grants :: nat where
  "max_grants = 200"

fun wanted_people :: "(string \<times> access_level) list \<Rightarrow> (string, access_level) jsmap
    \<Rightarrow> control_error + (string, access_level) jsmap" where
  "wanted_people [] wanted = Inr wanted"
| "wanted_people ((who, level) # rest) wanted =
     (if \<not> is_identifier who then Inl InvalidInput
      else if jm_has wanted who then Inl InvalidInput
      else wanted_people rest (jm_set who level wanted))"

definition parse_people :: "(string \<times> access_level) list option
    \<Rightarrow> control_error + (string, access_level) jsmap option" where
  "parse_people grants =
     (case grants of
        None \<Rightarrow> Inr None
      | Some gs \<Rightarrow>
          if length gs > max_grants then Inl InvalidInput
          else map_sum id Some (wanted_people gs []))"

text \<open>The people list replaced: the new tables, and whether anything changed.\<close>

definition replace_people :: "int \<Rightarrow> string \<Rightarrow> string \<Rightarrow> (string, access_level) jsmap \<Rightarrow> db \<Rightarrow> bool \<times> db" where
  "replace_people time actor resource wanted d =
     (let before = map (\<lambda>g. (rg_principal g, rg_access g)) (grants_of time d resource);
          gone = filter (\<lambda>who. \<not> jm_has wanted who) (jm_keys before);
          fresh = filter (\<lambda>(who, level). jm_get before who \<noteq> Some level) wanted;
          d1 = fold (drop_grant resource) gone d;
          d2 = drop_expired time resource d1;
          d3 = fold (\<lambda>(who, level). upsert_grant time actor resource who level) fresh d2
      in (gone \<noteq> [] \<or> fresh \<noteq> [], d3))"

definition people_ok :: "int \<Rightarrow> db \<Rightarrow> string \<Rightarrow> string \<Rightarrow> (string, access_level) jsmap \<Rightarrow> bool" where
  "people_ok time d space owner wanted \<longleftrightarrow>
     list_all (\<lambda>(who, _). who \<noteq> owner \<and> active_human_member time d who space) wanted"

definition shared_row :: "int \<Rightarrow> visibility \<Rightarrow> string \<Rightarrow> resource_row \<Rightarrow> resource_row" where
  "shared_row time v owner r = r\<lparr>rs_visibility := v, rs_owner := owner,
     rs_access_revision := rs_access_revision r + 1, rs_revision := rs_revision r + 1, rs_updated_at := time\<rparr>"

definition share_commit :: "int \<Rightarrow> share_input \<Rightarrow> resource_row \<Rightarrow> visibility \<Rightarrow> bool \<Rightarrow> string \<Rightarrow> db
    \<Rightarrow> (control_error + resource_row \<times> resource_grant list) \<times> db" where
  "share_commit time i row v adopt owner d =
     (case update_resource (\<lambda>r. rs_id r = sh_resource i \<and> rs_revision r = rs_revision row)
             (shared_row time v owner) d of
        (Inl e, d1) \<Rightarrow> (Inl e, d1)
      | (Inr _, d1) \<Rightarrow>
          (let d2 = (if adopt then audit time (sh_actor i) ''resource.owner-adopted'' (Some (sh_resource i)) d1
                     else d1);
               d3 = audit time (sh_actor i) ''resource.shared'' (Some (sh_resource i)) d2
           in case get_resource d3 (sh_resource i) of
                None \<Rightarrow> (Inl RecoveryRequired, d3)
              | Some current \<Rightarrow> (Inr (current, grants_of time d3 (sh_resource i)), d3)))"

text \<open>
  \<open>adopt\<close>: whether the person who narrows a chat of a system principal becomes its owner;
  then the people list without that person, a private row having none.
\<close>

definition share_adopts :: "int \<Rightarrow> share_input \<Rightarrow> visibility \<Rightarrow> resource_row \<Rightarrow> db \<Rightarrow> bool" where
  "share_adopts time i v row d \<longleftrightarrow>
     (v = Private \<or> v = Restricted) \<and> \<not> human_principal d (rs_owner row)
     \<and> active_human_member time d (sh_actor i) (sh_space i)"

definition share_people :: "share_input \<Rightarrow> visibility \<Rightarrow> bool \<Rightarrow> (string, access_level) jsmap option
    \<Rightarrow> (string, access_level) jsmap option" where
  "share_people i v adopt people =
     (let listed = (if v = Private then Some [] else people)
      in if adopt then map_option (jm_delete (sh_actor i)) listed else listed)"

definition share_work :: "int \<Rightarrow> share_input \<Rightarrow> (string, access_level) jsmap option \<Rightarrow> db
    \<Rightarrow> (control_error + resource_row \<times> resource_grant list) \<times> db" where
  "share_work time i people d =
     (case get_resource d (sh_resource i) of
        None \<Rightarrow> (Inl NotFound, d)
      | Some row \<Rightarrow>
          if rs_org row \<noteq> sh_org i \<or> rs_space row \<noteq> sh_space i then (Inl NotFound, d)
          else if rs_lifecycle row \<noteq> Active \<and> rs_lifecycle row \<noteq> Archived then (Inl Conflict, d)
          else if sh_expected i \<noteq> None \<and> sh_expected i \<noteq> Some (rs_access_revision row) then (Inl Conflict, d)
          else
            (let v = nullish (sh_visibility i) (rs_visibility row) in
             if v = Inherit \<and> \<not> truthy (rs_parent row) \<and> \<not> truthy (rs_access_parent row)
             then (Inl InvalidInput, d)
             else
               (let adopt = share_adopts time i v row d;
                    owner = (if adopt then sh_actor i else rs_owner row);
                    wanted = share_people i v adopt people;
                    changed = (v \<noteq> rs_visibility row \<or> adopt)
                in case wanted of
                     None \<Rightarrow>
                       if \<not> changed then (Inr (row, grants_of time d (sh_resource i)), d)
                       else share_commit time i row v adopt owner d
                   | Some w \<Rightarrow>
                       if \<not> people_ok time d (sh_space i) owner w then (Inl InvalidInput, d)
                       else
                         (case replace_people time (sh_actor i) (sh_resource i) w d of
                            (edited, d') \<Rightarrow>
                              if \<not> (changed \<or> edited)
                              then (Inr (row, grants_of time d' (sh_resource i)), d')
                              else share_commit time i row v adopt owner d'))))"

definition share :: "int \<Rightarrow> share_input \<Rightarrow> db
    \<Rightarrow> (control_error + resource_row \<times> resource_grant list) \<times> db" where
  "share now i d =
     (if \<not> (is_identifier (sh_resource i) \<and> is_identifier (sh_org i) \<and> is_identifier (sh_space i)
            \<and> is_identifier (sh_actor i))
      then (Inl InvalidInput, d)
      else
        (case parse_people (sh_grants i) of
           Inl e \<Rightarrow> (Inl e, d)
         | Inr people \<Rightarrow> transaction (share_work now i people) d))"

section \<open>Repair and inheritance\<close>

definition last_sharer :: "db \<Rightarrow> string \<Rightarrow> string option" where
  "last_sharer d resource =
     (case rev (sort_key au_seq
            (filter (\<lambda>a. au_resource a = Some resource \<and> au_action a = ''resource.shared'') (db_audit d))) of
        [] \<Rightarrow> None
      | a # _ \<Rightarrow> Some (au_actor a))"

definition unreachable_rows :: "db \<Rightarrow> (resource_row \<times> string option) list" where
  "unreachable_rows d =
     map (\<lambda>r. (r, last_sharer d (rs_id r)))
       (filter (\<lambda>r. rs_visibility r \<in> {Private, Restricted} \<and> rs_lifecycle r \<noteq> Deleted
              \<and> list_ex (\<lambda>p. pp_id p = rs_owner r \<and> pp_kind p \<noteq> KindUser) (db_principals d))
          (db_resources d))"

definition reclaimed_row :: "int \<Rightarrow> string \<Rightarrow> resource_row \<Rightarrow> resource_row" where
  "reclaimed_row now actor r = r\<lparr>rs_owner := actor, rs_access_revision := rs_access_revision r + 1,
     rs_revision := rs_revision r + 1, rs_updated_at := now\<rparr>"

definition reclaim_one :: "int \<Rightarrow> resource_row \<times> string option \<Rightarrow> string list \<times> db \<Rightarrow> string list \<times> db" where
  "reclaim_one now = (\<lambda>(row, actor) (reclaimed, d).
     if \<not> truthy actor \<or> \<not> active_human_member now d (the actor) (rs_space row) then (reclaimed, d)
     else
       (let P = (\<lambda>r. rs_id r = rs_id row \<and> rs_revision r = rs_revision row);
            d' = d\<lparr>db_resources := sql_update P (reclaimed_row now (the actor)) (db_resources d)\<rparr>
        in if sql_changes P (db_resources d) \<noteq> 1 then (reclaimed, d')
           else (reclaimed @ [rs_id row],
                 audit now ''system:resource-reconciler'' ''resource.owner-adopted'' (Some (rs_id row)) d')))"

definition reclaim_unreachable :: "int \<Rightarrow> db \<Rightarrow> string list \<times> db" where
  "reclaim_unreachable now d = fold (reclaim_one now) (unreachable_rows d) ([], d)"

text \<open>The search for a loop, at most 32 access parents up; \<open>True\<close> when \<open>resource\<close> is met.\<close>

fun loops_back :: "nat \<Rightarrow> row_lookup \<Rightarrow> string \<Rightarrow> resource_row option \<Rightarrow> control_error + bool" where
  "loops_back 0 look resource cursor = Inr False"
| "loops_back (Suc fuel) look resource None = Inr False"
| "loops_back (Suc fuel) look resource (Some row) =
     (if \<not> truthy (rs_access_parent row) then Inr False
      else if rs_access_parent row = Some resource then Inr True
      else (case look (the (rs_access_parent row)) of
              Inl e \<Rightarrow> Inl e
            | Inr cursor \<Rightarrow> loops_back fuel look resource cursor))"

definition adopted_row :: "int \<Rightarrow> string \<Rightarrow> resource_row \<Rightarrow> resource_row" where
  "adopted_row now parent r = r\<lparr>rs_access_parent := Some parent, rs_access_revision := rs_access_revision r + 1,
     rs_revision := rs_revision r + 1, rs_updated_at := now\<rparr>"

definition adopt_work :: "int \<Rightarrow> string \<Rightarrow> string \<Rightarrow> db \<Rightarrow> (control_error + resource_row) \<times> db" where
  "adopt_work now resource parent d =
     (case get_resource d resource of
        None \<Rightarrow> (Inl NotFound, d)
      | Some row \<Rightarrow>
          if rs_access_parent row = Some parent then (Inr row, d)
          else if rs_access_parent row \<noteq> None then (Inl Conflict, d)
          else if rs_visibility row \<noteq> Inherit \<or> parent = resource then (Inl InvalidInput, d)
          else
            (case get_resource d parent of
               None \<Rightarrow> (Inl NotFound, d)
             | Some p \<Rightarrow>
                 if rs_org p \<noteq> rs_org row \<or> rs_space p \<noteq> rs_space row then (Inl NotFound, d)
                 else
                   (case loops_back 32 (look_in d) resource (Some p) of
                      Inl e \<Rightarrow> (Inl e, d)
                    | Inr True \<Rightarrow> (Inl InvalidInput, d)
                    | Inr False \<Rightarrow>
                        (case update_resource
                                (\<lambda>r. rs_id r = resource \<and> rs_revision r = rs_revision row
                                   \<and> rs_access_parent r = None)
                                (adopted_row now parent) d of
                           (Inl e, d1) \<Rightarrow> (Inl e, d1)
                         | (Inr _, d1) \<Rightarrow>
                             reread_resource resource
                               (audit now ''system:resource-reconciler'' ''resource.access-parent-adopted''
                                  (Some resource) d1)))))"

definition adopt_access_parent :: "int \<Rightarrow> string \<Rightarrow> string \<Rightarrow> db \<Rightarrow> (control_error + resource_row) \<times> db" where
  "adopt_access_parent now resource parent d =
     (if \<not> (is_identifier resource \<and> is_identifier parent) then (Inl InvalidInput, d)
      else transaction (adopt_work now resource parent) d)"

definition access_children :: "string \<Rightarrow> db \<Rightarrow> control_error + string list" where
  "access_children resource d =
     (if \<not> is_identifier resource then Inl InvalidInput
      else Inr (sort (map rs_id
             (filter (\<lambda>r. rs_access_parent r = Some resource \<and> rs_lifecycle r \<noteq> Deleted) (db_resources d)))))"

section \<open>The people list as a store\<close>

lemma grant_of_drop:
  "grant_of t (drop_grant resource who d) r w = (if r = resource \<and> w = who then None else grant_of t d r w)"
proof -
  have step: "sql_get (\<lambda>g. gr_resource g = r \<and> gr_principal g = w \<and> unexpired t (gr_expires g))
          (filter (\<lambda>g. \<not> (gr_resource g = resource \<and> gr_principal g = who)) rows)
      = (if r = resource \<and> w = who then None
         else sql_get (\<lambda>g. gr_resource g = r \<and> gr_principal g = w \<and> unexpired t (gr_expires g)) rows)" for rows
    by (induction rows) auto
  have "db_grants (drop_grant resource who d)
      = filter (\<lambda>g. \<not> (gr_resource g = resource \<and> gr_principal g = who)) (db_grants d)"
    by (simp add: drop_grant_def sql_delete_def)
  then show ?thesis unfolding grant_of_def by (simp only: step) simp
qed

lemma grant_of_drop_expired: "grant_of t (drop_expired t resource d) r w = grant_of t d r w"
proof -
  have step: "sql_get (\<lambda>g. gr_resource g = r \<and> gr_principal g = w \<and> unexpired t (gr_expires g))
          (filter (\<lambda>g. \<not> (gr_resource g = resource
              \<and> (case gr_expires g of None \<Rightarrow> False | Some x \<Rightarrow> x \<le> t))) rows)
      = sql_get (\<lambda>g. gr_resource g = r \<and> gr_principal g = w \<and> unexpired t (gr_expires g)) rows" for rows
    by (induction rows) (auto simp: unexpired_def split: option.splits)
  have "db_grants (drop_expired t resource d) = filter (\<lambda>g. \<not> (gr_resource g = resource
      \<and> (case gr_expires g of None \<Rightarrow> False | Some x \<Rightarrow> x \<le> t))) (db_grants d)"
    by (simp add: drop_expired_def sql_delete_def)
  then show ?thesis unfolding grant_of_def by (simp only: step)
qed

lemma grant_of_upsert:
  "grant_of t (upsert_grant time actor resource who level d) r w
     = (if r = resource \<and> w = who then Some level else grant_of t d r w)"
proof -
  let ?P = "\<lambda>g. gr_resource g = resource \<and> gr_principal g = who"
  let ?Q = "\<lambda>g. gr_resource g = r \<and> gr_principal g = w \<and> unexpired t (gr_expires g)"
  let ?f = "\<lambda>g. g\<lparr>gr_access := level, gr_granted_by := actor, gr_updated_at := time,
                    gr_expires := None, gr_revision := gr_revision g + 1\<rparr>"
  have step: "map_option gr_access (sql_get ?Q (sql_update ?P ?f rows))
      = (if r = resource \<and> w = who then (if sql_get ?P rows = None then None else Some level)
         else map_option gr_access (sql_get ?Q rows))" for rows
    by (induction rows) (auto simp: sql_update_def unexpired_def)
  show ?thesis
  proof (cases "sql_get ?P (db_grants d) = None")
    case True
    then have "r = resource \<Longrightarrow> w = who \<Longrightarrow> sql_get ?Q (db_grants d) = None" by (auto simp: sql_get_None)
    moreover from True have "db_grants (upsert_grant time actor resource who level d) = db_grants d @
        [\<lparr>gr_resource = resource, gr_principal = who, gr_access = level, gr_granted_by = actor,
          gr_created_at = time, gr_updated_at = time, gr_expires = None, gr_revision = 1\<rparr>]"
      by (simp add: upsert_grant_def)
    ultimately show ?thesis by (auto simp: grant_of_def sql_get_append unexpired_def split: option.split)
  next
    case False
    then have "db_grants (upsert_grant time actor resource who level d) = sql_update ?P ?f (db_grants d)"
      by (auto simp: upsert_grant_def Let_def)
    then show ?thesis unfolding grant_of_def using False by (simp only: step) simp
  qed
qed

lemma grant_steps_other [simp]:
  "r \<noteq> resource \<Longrightarrow> grant_of t (fold (drop_grant resource) gone d) r w = grant_of t d r w"
  "r \<noteq> resource \<Longrightarrow> grant_of t (fold (\<lambda>(who, level). upsert_grant time actor resource who level) fresh d) r w
     = grant_of t d r w"
  by (induction gone arbitrary: d; simp add: grant_of_drop)
     (induction fresh arbitrary: d; auto simp: grant_of_upsert)

interpretation people: key_store "\<lambda>d. grant_of t d resource" "upsert_grant time actor resource" "drop_grant resource"
  for t time actor resource
  by unfold_locales (simp_all add: grant_of_drop grant_of_upsert)

section \<open>What the people list reports\<close>

definition grants_ok :: "db \<Rightarrow> bool" where
  "grants_ok d \<longleftrightarrow> distinct (map (\<lambda>g. (gr_resource g, gr_principal g)) (db_grants d))"

lemma listed_people_keys:
  assumes "grants_ok d"
  shows "distinct (map rg_principal (grants_of t d resource))"
proof -
  let ?live = "filter (\<lambda>g. gr_resource g = resource \<and> unexpired t (gr_expires g)) (db_grants d)"
  have "distinct (map (\<lambda>g. (gr_resource g, gr_principal g)) ?live)"
    using assms by (simp add: grants_ok_def distinct_map_filter)
  then have "distinct (map gr_principal ?live)" by (auto simp: distinct_map inj_on_def)
  then have "distinct (map gr_principal (sort_key (\<lambda>g. (gr_created_at g, gr_principal g)) ?live))"
    by (simp add: distinct_map)
  then show ?thesis by (simp add: grants_of_def grant_view_def comp_def)
qed

lemma grant_of_iff:
  assumes "grants_ok d"
  shows "grant_of t d resource who = Some level \<longleftrightarrow>
    (\<exists>g \<in> set (db_grants d). gr_resource g = resource \<and> gr_principal g = who \<and> unexpired t (gr_expires g)
       \<and> gr_access g = level)"
proof
  assume "grant_of t d resource who = Some level"
  then show "\<exists>g \<in> set (db_grants d). gr_resource g = resource \<and> gr_principal g = who \<and> unexpired t (gr_expires g)
       \<and> gr_access g = level" by (auto simp: grant_of_def dest!: sql_get_SomeD)
next
  assume "\<exists>g \<in> set (db_grants d). gr_resource g = resource \<and> gr_principal g = who \<and> unexpired t (gr_expires g)
       \<and> gr_access g = level"
  then obtain g where g: "g \<in> set (db_grants d)" "gr_resource g = resource" "gr_principal g = who"
    "unexpired t (gr_expires g)" "gr_access g = level" by blast
  let ?Q = "\<lambda>g. gr_resource g = resource \<and> gr_principal g = who \<and> unexpired t (gr_expires g)"
  obtain h where h: "sql_get ?Q (db_grants d) = Some h"
    using g by (cases "sql_get ?Q (db_grants d)") (auto simp: sql_get_None)
  from sql_get_SomeD [OF h] g assms have "h = g" by (auto simp: grants_ok_def distinct_map dest: inj_onD)
  with h g show "grant_of t d resource who = Some level" by (simp add: grant_of_def)
qed

lemma listed_people:
  assumes "grants_ok d"
  shows "map_of (map (\<lambda>g. (rg_principal g, rg_access g)) (grants_of t d resource)) who = grant_of t d resource who"
proof -
  let ?l = "map (\<lambda>g. (rg_principal g, rg_access g)) (grants_of t d resource)"
  have dist: "distinct (map fst ?l)" using listed_people_keys [OF assms] by (simp add: comp_def)
  have "map_of ?l who = Some level \<longleftrightarrow> grant_of t d resource who = Some level" for level
    using map_of_eq_Some_iff [OF dist, of who level]
    by (auto simp: grant_of_iff [OF assms] grants_of_def grant_view_def)
  then show ?thesis by (metis option.exhaust)
qed

lemma grants_ok_drop [simp]: "grants_ok d \<Longrightarrow> grants_ok (drop_grant resource who d)"
  by (simp add: grants_ok_def drop_grant_def sql_delete_def distinct_map_filter)

lemma grants_ok_drop_expired [simp]: "grants_ok d \<Longrightarrow> grants_ok (drop_expired t resource d)"
  by (simp add: grants_ok_def drop_expired_def sql_delete_def distinct_map_filter)

lemma grants_ok_upsert [simp]: "grants_ok d \<Longrightarrow> grants_ok (upsert_grant t actor resource who level d)"
  by (auto simp: grants_ok_def upsert_grant_def Let_def sql_get_None comp_def)

lemma grants_ok_folds [simp]:
  "grants_ok d \<Longrightarrow> grants_ok (fold (drop_grant resource) gone d)"
  "grants_ok d \<Longrightarrow> grants_ok (fold (\<lambda>(who, level). upsert_grant time actor resource who level) fresh d)"
  by (induction gone arbitrary: d; simp) (induction fresh arbitrary: d; auto)

lemma grants_ok_audit [simp]: "grants_ok (audit t a b c d) = grants_ok d"
  by (simp add: grants_ok_def)

text \<open>The wanted people list is what is stored afterwards, and other lists are left alone.\<close>

lemma replace_people_result:
  assumes "grants_ok d" "distinct (map fst wanted)"
  shows "grant_of time (snd (replace_people time actor resource wanted d)) resource who = map_of wanted who"
  unfolding replace_people_def Let_def snd_conv jm_get_def jm_keys_def
  by (rule people.reconcile) (simp_all add: listed_people assms grant_of_drop_expired)

lemma replace_people_other:
  "r \<noteq> resource \<Longrightarrow> grant_of time (snd (replace_people time actor resource wanted d)) r who = grant_of time d r who"
  by (simp add: replace_people_def Let_def grant_of_drop_expired)

lemma replace_people_ok:
  "grants_ok d \<Longrightarrow> grants_ok (snd (replace_people time actor resource wanted d))"
  by (simp add: replace_people_def Let_def)

end
