(* ===== verification/SharingRules.thy ===== *)
theory SharingRules
  imports ResourceSharing
begin

text \<open>
  What sharing does to the registry and to who may open a resource: the cases of \<open>share\<close>,
  the invariant of the people lists, and the properties of sharing.
\<close>

section \<open>The cases of sharing\<close>

lemma wanted_people_is:
  "wanted_people gs w = Inr m \<Longrightarrow> m = w @ gs \<and> (distinct (map fst w) \<longrightarrow> distinct (map fst m))"
proof (induction gs w rule: wanted_people.induct)
  case (2 who level rest w)
  then have "\<not> jm_has w who" "is_identifier who" "wanted_people rest (jm_set who level w) = Inr m"
    by (simp_all split: if_splits)
  with "2.IH" have IH: "m = jm_set who level w @ rest"
    "distinct (map fst (jm_set who level w)) \<longrightarrow> distinct (map fst m)"
    by blast+
  note eq = jm_set_fresh [OF \<open>\<not> jm_has w who\<close>, of level]
  from IH(1) eq have m: "m = w @ (who, level) # rest" by simp
  note dist = IH(2) [unfolded eq]
  from dist \<open>\<not> jm_has w who\<close> have "distinct (map fst w) \<longrightarrow> distinct (map fst m)" by (simp add: jm_has_def)
  with m show ?case by (rule conjI)
qed simp

lemma parse_people_is:
  assumes "parse_people gs = Inr people"
  shows "people = gs \<and> (\<forall>w. people = Some w \<longrightarrow> distinct (map fst w))"
proof (cases gs)
  case None
  with assms show ?thesis by (simp add: parse_people_def)
next
  case (Some g)
  with assms obtain m where "wanted_people g [] = Inr m" "people = Some m"
    by (cases "wanted_people g []") (auto simp: parse_people_def split: if_splits)
  with Some wanted_people_is [of g "[]" m] show ?thesis by auto
qed

lemma registry_ok_grants [simp]: "registry_ok (d\<lparr>db_grants := gs\<rparr>) = registry_ok d"
  by (simp add: registry_ok_def)

lemma get_resource_grants [simp]: "get_resource (d\<lparr>db_grants := gs\<rparr>) i = get_resource d i"
  by (simp add: get_resource_def)

lemma grant_steps_shape:
  "\<exists>gs. drop_grant r w d = d\<lparr>db_grants := gs\<rparr>"
  "\<exists>gs. drop_expired t r d = d\<lparr>db_grants := gs\<rparr>"
  "\<exists>gs. upsert_grant t a r w l d = d\<lparr>db_grants := gs\<rparr>"
  by (auto simp: drop_grant_def drop_expired_def upsert_grant_def Let_def)

lemma grants_again: "\<exists>gs. (d\<lparr>db_grants := xs\<rparr>)\<lparr>db_grants := ys\<rparr> = d\<lparr>db_grants := gs\<rparr>"
  by auto

lemma fold_grants_shape:
  assumes "\<And>x d. \<exists>gs. f x d = d\<lparr>db_grants := gs\<rparr>"
  shows "\<exists>gs. fold f xs d = d\<lparr>db_grants := gs\<rparr>"
proof (induction xs arbitrary: d)
  case Nil
  show ?case by (auto intro: exI [of _ "db_grants d"])
next
  case (Cons x xs)
  obtain gs where "f x d = d\<lparr>db_grants := gs\<rparr>" using assms by blast
  moreover obtain gs' where "fold f xs (d\<lparr>db_grants := gs\<rparr>) = d\<lparr>db_grants := gs, db_grants := gs'\<rparr>"
    using Cons.IH [of "d\<lparr>db_grants := gs\<rparr>"] by blast
  ultimately show ?case by auto
qed

lemma replace_people_shape: "\<exists>gs. snd (replace_people t a r w d) = d\<lparr>db_grants := gs\<rparr>"
proof -
  define gone where "gone = filter (\<lambda>who. \<not> jm_has w who) (jm_keys (map (\<lambda>g. (rg_principal g, rg_access g)) (grants_of t d r)))"
  define fresh where "fresh = filter (\<lambda>(who, level). jm_get (map (\<lambda>g. (rg_principal g, rg_access g)) (grants_of t d r)) who \<noteq> Some level) w"
  have eq: "snd (replace_people t a r w d)
      = fold (\<lambda>(who, level). upsert_grant t a r who level) fresh (drop_expired t r (fold (drop_grant r) gone d))"
    by (simp add: replace_people_def Let_def gone_def fresh_def)
  obtain g1 where 1: "fold (drop_grant r) gone d = d\<lparr>db_grants := g1\<rparr>"
    using fold_grants_shape [of "drop_grant r"] grant_steps_shape(1) by blast
  obtain g2 where 2: "drop_expired t r (d\<lparr>db_grants := g1\<rparr>) = d\<lparr>db_grants := g1, db_grants := g2\<rparr>"
    using grant_steps_shape(2) by blast
  have "\<exists>gs. (case x of (who, level) \<Rightarrow> upsert_grant t a r who level) e = e\<lparr>db_grants := gs\<rparr>" for x e
    by (cases x) (simp add: grant_steps_shape(3))
  then obtain g3 where
    "fold (\<lambda>(who, level). upsert_grant t a r who level) fresh (d\<lparr>db_grants := g2\<rparr>) = d\<lparr>db_grants := g2, db_grants := g3\<rparr>"
    using fold_grants_shape [of "\<lambda>(who, level). upsert_grant t a r who level" fresh "d\<lparr>db_grants := g2\<rparr>"]
    by blast
  with eq 1 2 show ?thesis by auto
qed

definition share_audit :: "int \<Rightarrow> share_input \<Rightarrow> bool \<Rightarrow> db \<Rightarrow> db" where
  "share_audit now i adopt d =
     audit now (sh_actor i) ''resource.shared'' (Some (sh_resource i))
       (if adopt then audit now (sh_actor i) ''resource.owner-adopted'' (Some (sh_resource i)) d else d)"

lemma share_audit_tables [simp]:
  "db_resources (share_audit now i adopt d) = db_resources d" "db_grants (share_audit now i adopt d) = db_grants d"
  "db_provisioning (share_audit now i adopt d) = db_provisioning d" "db_members (share_audit now i adopt d) = db_members d"
  "db_principals (share_audit now i adopt d) = db_principals d" "db_spaces (share_audit now i adopt d) = db_spaces d"
  "db_policies (share_audit now i adopt d) = db_policies d"
  "registry_ok (share_audit now i adopt d) = registry_ok d" "get_resource (share_audit now i adopt d) x = get_resource d x"
  by (auto simp: share_audit_def)

lemma shared_row_keeps [simp]:
  "rs_id (shared_row t v owner r) = rs_id r" "rs_lifecycle (shared_row t v owner r) = rs_lifecycle r"
  "rs_visibility (shared_row t v owner r) = v" "rs_owner (shared_row t v owner r) = owner"
  "saga_ok p (shared_row t v owner r) = saga_ok p r" "row_ok r \<Longrightarrow> row_ok (shared_row t v owner r)"
  by (simp_all add: shared_row_def saga_ok_def row_ok_def cong: provisioning_state.case_cong)

lemma share_commit_hit:
  assumes "registry_ok d" "get_resource d (sh_resource i) = Some row"
  shows "share_commit now i row v adopt owner d
    = (Inr (shared_row now v owner row,
            grants_of now (share_audit now i adopt (row_move row (shared_row now v owner row) d)) (sh_resource i)),
       share_audit now i adopt (row_move row (shared_row now v owner row) d))"
proof -
  note row = get_resourceD [OF assms(2)]
  have "update_resource (\<lambda>r. rs_id r = sh_resource i \<and> rs_revision r = rs_revision row) (shared_row now v owner) d
      = (Inr (), row_move row (shared_row now v owner row) d)"
    using row by (intro update_resource_hit [OF assms(1)]) auto
  moreover have "get_resource (row_move row (shared_row now v owner row) d) (sh_resource i)
      = Some (shared_row now v owner row)"
    using get_resource_move(1) [OF assms(1), of row "shared_row now v owner row"] row by simp
  ultimately show ?thesis by (simp add: share_commit_def Let_def share_audit_def)
qed

definition shared_people :: "int \<Rightarrow> share_input \<Rightarrow> (string, access_level) jsmap option \<Rightarrow> db \<Rightarrow> db" where
  "shared_people now i wanted d =
     (case wanted of None \<Rightarrow> d | Some w \<Rightarrow> snd (replace_people now (sh_actor i) (sh_resource i) w d))"

lemma shared_people_shape: "\<exists>gs. shared_people now i wanted d = d\<lparr>db_grants := gs\<rparr>"
proof (cases wanted)
  case None
  then show ?thesis by (auto simp: shared_people_def intro: exI [of _ "db_grants d"])
next
  case (Some w)
  with replace_people_shape show ?thesis by (simp add: shared_people_def)
qed

lemma shared_people_keeps [simp]:
  "registry_ok (shared_people now i wanted d) = registry_ok d"
  "get_resource (shared_people now i wanted d) x = get_resource d x"
  "db_resources (shared_people now i wanted d) = db_resources d"
  "db_provisioning (shared_people now i wanted d) = db_provisioning d"
  "db_members (shared_people now i wanted d) = db_members d"
  "db_principals (shared_people now i wanted d) = db_principals d"
  "db_policies (shared_people now i wanted d) = db_policies d"
proof -
  obtain gs where "shared_people now i wanted d = d\<lparr>db_grants := gs\<rparr>" using shared_people_shape by blast
  then show "registry_ok (shared_people now i wanted d) = registry_ok d"
    "get_resource (shared_people now i wanted d) x = get_resource d x"
    "db_resources (shared_people now i wanted d) = db_resources d"
    "db_provisioning (shared_people now i wanted d) = db_provisioning d"
    "db_members (shared_people now i wanted d) = db_members d"
    "db_principals (shared_people now i wanted d) = db_principals d"
    "db_policies (shared_people now i wanted d) = db_policies d" by simp_all
qed

lemma share_cases:
  assumes ok: "registry_ok d" and run: "share now i d = (Inr (r, gs), d')"
  obtains row v adopt owner wanted where
    "get_resource d (sh_resource i) = Some row" "rs_org row = sh_org i" "rs_space row = sh_space i"
    "rs_lifecycle row \<in> {Active, Archived}"
    "sh_expected i \<in> {None, Some (rs_access_revision row)}"
    "v = nullish (sh_visibility i) (rs_visibility row)" "adopt = share_adopts now i v row d"
    "owner = (if adopt then sh_actor i else rs_owner row)" "wanted = share_people i v adopt (sh_grants i)"
    "\<And>w. sh_grants i = Some w \<Longrightarrow> distinct (map fst w)"
    "\<And>w. wanted = Some w \<Longrightarrow> people_ok now d (sh_space i) owner w"
    "gs = grants_of now d' (sh_resource i)"
    "r = row \<and> d' = shared_people now i wanted d \<and> v = rs_visibility row \<and> \<not> adopt
     \<or> r = shared_row now v owner row
       \<and> d' = share_audit now i adopt (row_move row (shared_row now v owner row) (shared_people now i wanted d))"
proof -
  obtain people where parse: "parse_people (sh_grants i) = Inr people"
    and work: "share_work now i people d = (Inr (r, gs), d')"
    using run by (auto simp: share_def transaction_Inr split: if_splits sum.splits)
  note people = parse_people_is [OF parse]
  obtain row where get: "get_resource d (sh_resource i) = Some row"
    using work by (auto simp: share_work_def split: option.splits)
  define v where "v = nullish (sh_visibility i) (rs_visibility row)"
  define adopt where "adopt = share_adopts now i v row d"
  define owner where "owner = (if adopt then sh_actor i else rs_owner row)"
  define wanted where "wanted = share_people i v adopt (sh_grants i)"
  have scope: "rs_org row = sh_org i" "rs_space row = sh_space i" "rs_lifecycle row \<in> {Active, Archived}"
      "sh_expected i \<in> {None, Some (rs_access_revision row)}"
    and rest: "(case wanted of
         None \<Rightarrow> if \<not> (v \<noteq> rs_visibility row \<or> adopt) then (Inr (row, grants_of now d (sh_resource i)), d)
                 else share_commit now i row v adopt owner d
       | Some w \<Rightarrow>
           if \<not> people_ok now d (sh_space i) owner w then (Inl InvalidInput, d)
           else (case replace_people now (sh_actor i) (sh_resource i) w d of
                   (edited, d1) \<Rightarrow>
                     if \<not> ((v \<noteq> rs_visibility row \<or> adopt) \<or> edited)
                     then (Inr (row, grants_of now d1 (sh_resource i)), d1)
                     else share_commit now i row v adopt owner d1)) = (Inr (r, gs), d')"
    using work get conjunct1 [OF people] unfolding share_work_def v_def adopt_def owner_def wanted_def Let_def
    by (simp_all only: option.simps fst_conv snd_conv split: if_splits) auto
  define d1 where "d1 = shared_people now i wanted d"
  have commit: "share_commit now i row v adopt owner d1
      = (Inr (shared_row now v owner row,
              grants_of now (share_audit now i adopt (row_move row (shared_row now v owner row) d1)) (sh_resource i)),
         share_audit now i adopt (row_move row (shared_row now v owner row) d1))"
    using ok get by (intro share_commit_hit) (simp_all add: d1_def)
  have "(\<forall>w. wanted = Some w \<longrightarrow> people_ok now d (sh_space i) owner w) \<and> gs = grants_of now d' (sh_resource i)
      \<and> (r = row \<and> d' = d1 \<and> v = rs_visibility row \<and> \<not> adopt
         \<or> r = shared_row now v owner row \<and> d' = share_audit now i adopt (row_move row (shared_row now v owner row) d1))"
  proof (cases wanted)
    case None
    with rest commit show ?thesis by (auto simp: d1_def shared_people_def split: if_splits)
  next
    case (Some w)
    obtain edited where rp: "replace_people now (sh_actor i) (sh_resource i) w d = (edited, d1)"
      using Some by (cases "replace_people now (sh_actor i) (sh_resource i) w d") (simp add: d1_def shared_people_def)
    with rest commit Some show ?thesis by (auto split: if_splits)
  qed
  then show ?thesis
    using that [OF get scope v_def adopt_def owner_def wanted_def] people unfolding d1_def by blast
qed

section \<open>Sharing keeps the invariants\<close>

lemma share_ok [machine_intros]:
  assumes ok: "registry_ok d" and run: "share now i d = (Inr (r, gs), d')"
  shows "registry_ok d'"
proof (cases rule: share_cases [OF ok run])
  case (1 row v adopt owner wanted)
  note row = get_resourceD [OF 1(1)]
  have "registry_ok (row_move row (shared_row now v owner row) (shared_people now i wanted d))"
    using row registry_okD(6) [OF ok, of row] ok by (intro registry_ok_row_move) auto
  with 1(13) ok show ?thesis by auto
qed

lemma shared_people_ok:
  "grants_ok d \<Longrightarrow> grants_ok (shared_people now i wanted d)"
  by (cases wanted) (simp_all add: shared_people_def replace_people_ok)

lemma grant_of_tables: "db_grants d' = db_grants d \<Longrightarrow> grant_of t d' r w = grant_of t d r w"
  by (simp add: grant_of_def)

lemma grants_ok_tables: "db_grants d' = db_grants d \<Longrightarrow> grants_ok d' = grants_ok d"
  by (simp add: grants_ok_def)

lemma share_grants:
  assumes ok: "registry_ok d" and gok: "grants_ok d" and run: "share now i d = (Inr (r, gs), d')"
  obtains row wanted where "get_resource d (sh_resource i) = Some row" "grants_ok d'"
    "rs_visibility r = nullish (sh_visibility i) (rs_visibility row)"
    "get_resource d' (sh_resource i) = Some r" "db_members d' = db_members d" "db_principals d' = db_principals d"
    "wanted = share_people i (rs_visibility r) (share_adopts now i (rs_visibility r) row d) (sh_grants i)"
    "\<And>w. wanted = Some w \<Longrightarrow> people_ok now d (sh_space i) (rs_owner r) w"
    "\<And>who. grant_of now d' (sh_resource i) who
       = (case wanted of None \<Rightarrow> grant_of now d (sh_resource i) who | Some w \<Rightarrow> map_of w who)"
    "\<And>other who. other \<noteq> sh_resource i \<Longrightarrow> grant_of now d' other who = grant_of now d other who"
    "gs = grants_of now d' (sh_resource i)"
proof (cases rule: share_cases [OF ok run])
  case (1 row v adopt owner wanted)
  let ?p = "shared_people now i wanted d"
  note row = get_resourceD [OF 1(1)]
  have tables: "db_grants d' = db_grants ?p" "db_members d' = db_members d" "db_principals d' = db_principals d"
    "rs_visibility r = v" "rs_owner r = owner"
    using 1(13) 1(8) by (auto simp: row_move_def)
  have here: "get_resource d' (sh_resource i) = Some r"
    using 1(13) 1(1) get_resource_move(1) [of ?p row "shared_row now v owner row" "sh_resource i"] row ok by auto
  have dist: "distinct (map fst w)" if "wanted = Some w" for w
    using that 1(9,10) by (auto simp: share_people_def Let_def jm_delete_def distinct_map_filter split: if_splits)
  have all: "grant_of now d' (sh_resource i) who
       = (case wanted of None \<Rightarrow> grant_of now d (sh_resource i) who | Some w \<Rightarrow> map_of w who)" for who
    using grant_of_tables [OF tables(1), of now "sh_resource i" who] dist
    by (cases wanted) (simp_all add: shared_people_def replace_people_result [OF gok])
  have others: "grant_of now d' other who = grant_of now d other who" if "other \<noteq> sh_resource i" for other who
    using grant_of_tables [OF tables(1), of now other who] that
    by (cases wanted) (simp_all add: shared_people_def replace_people_other)
  have gok': "grants_ok d'" using grants_ok_tables [OF tables(1)] shared_people_ok [OF gok] by simp
  show ?thesis
    by (rule that [of row wanted]) (use 1 tables here all others gok' in auto)
qed

section \<open>Following another resource\<close>

lemma adopted_row_keeps [simp]:
  "rs_id (adopted_row t p r) = rs_id r" "rs_lifecycle (adopted_row t p r) = rs_lifecycle r"
  "saga_ok q (adopted_row t p r) = saga_ok q r" "row_ok r \<Longrightarrow> row_ok (adopted_row t p r)"
  by (simp_all add: adopted_row_def saga_ok_def row_ok_def cong: provisioning_state.case_cong)

lemma adopt_cases:
  assumes ok: "registry_ok d" and run: "adopt_access_parent now a b d = (Inr r, d')"
  obtains (replay) "get_resource d a = Some r" "rs_access_parent r = Some b" "d' = d"
  | (step) row p where "get_resource d a = Some row" "rs_access_parent row = None" "rs_visibility row = Inherit"
      "a \<noteq> b" "get_resource d b = Some p" "rs_org p = rs_org row" "rs_space p = rs_space row"
      "loops_back 32 (look_in d) a (Some p) = Inr False" "r = adopted_row now b row"
      "d' = audit now ''system:resource-reconciler'' ''resource.access-parent-adopted'' (Some a)
              (row_move row (adopted_row now b row) d)"
proof -
  have work: "adopt_work now a b d = (Inr r, d')"
    using run by (auto simp: adopt_access_parent_def transaction_Inr split: if_splits)
  obtain row where get: "get_resource d a = Some row"
    using work by (auto simp: adopt_work_def split: option.splits)
  note row = get_resourceD [OF get]
  show ?thesis
  proof (cases "rs_access_parent row = Some b")
    case True
    with work get have "r = row \<and> d' = d" by (simp add: adopt_work_def)
    with get True show ?thesis by (intro replay) auto
  next
    case False
    with work get have g: "rs_access_parent row = None" "rs_visibility row = Inherit" "a \<noteq> b"
      by (auto simp: adopt_work_def split: if_splits)
    with work get obtain p where p: "get_resource d b = Some p"
      by (auto simp: adopt_work_def split: if_splits option.splits)
    with work get g have scope: "rs_org p = rs_org row" "rs_space p = rs_space row"
      and noloop: "loops_back 32 (look_in d) a (Some p) = Inr False"
      by (auto simp: adopt_work_def split: if_splits sum.splits bool.splits)
    let ?P = "\<lambda>r. rs_id r = a \<and> rs_revision r = rs_revision row \<and> rs_access_parent r = None"
    have up: "update_resource ?P (adopted_row now b) d = (Inr (), row_move row (adopted_row now b row) d)"
      using g row by (intro update_resource_hit [OF ok]) auto
    have re: "reread_resource a (audit t x y z (row_move row (adopted_row now b row) d))
        = (Inr (adopted_row now b row), audit t x y z (row_move row (adopted_row now b row) d))" for t x y z
      using reread_resource_eq(2) [OF ok, of row "adopted_row now b row"] row by simp
    from work get g p scope noloop have "r = adopted_row now b row \<and>
        d' = audit now ''system:resource-reconciler'' ''resource.access-parent-adopted'' (Some a)
              (row_move row (adopted_row now b row) d)"
      by (auto simp: adopt_work_def up re)
    with get g p scope noloop step show ?thesis by blast
  qed
qed

lemma adopt_ok [machine_intros]:
  assumes ok: "registry_ok d" and run: "adopt_access_parent now a b d = (Inr r, d')"
  shows "registry_ok d'"
proof (cases rule: adopt_cases [OF ok run])
  case (2 row p)
  note row = get_resourceD [OF 2(1)]
  have "registry_ok (row_move row (adopted_row now b row) d)"
    using row registry_okD(6) [OF ok, of row] ok by (intro registry_ok_row_move) auto
  with 2(10) show ?thesis by simp
qed (use ok in simp)

section \<open>Handing rows back to people\<close>

lemma reclaimed_row_keeps [simp]:
  "rs_id (reclaimed_row t w r) = rs_id r" "rs_lifecycle (reclaimed_row t w r) = rs_lifecycle r"
  "rs_owner (reclaimed_row t w r) = w"
  "saga_ok q (reclaimed_row t w r) = saga_ok q r" "row_ok r \<Longrightarrow> row_ok (reclaimed_row t w r)"
  "rs_revision (reclaimed_row t w r) = rs_revision r + 1"
  by (simp_all add: reclaimed_row_def saga_ok_def row_ok_def cong: provisioning_state.case_cong)

text \<open>
  What the repair has done to the rows of \<open>d0\<close> when it has reached \<open>d\<close>: every row is as it
  was or, when its owner was no person, belongs to the member who last shared it.
\<close>

definition repaired :: "int \<Rightarrow> db \<Rightarrow> db \<Rightarrow> bool" where
  "repaired now d0 d \<longleftrightarrow>
     registry_ok d \<and> db_members d = db_members d0 \<and> db_principals d = db_principals d0
     \<and> db_grants d = db_grants d0
     \<and> map rs_id (db_resources d) = map rs_id (db_resources d0)
     \<and> (\<forall>i r. get_resource d0 i = Some r \<longrightarrow>
          (\<exists>r'. get_resource d i = Some r'
             \<and> (r' = r \<or> (\<exists>w. r' = reclaimed_row now w r \<and> (r, Some w) \<in> set (unreachable_rows d0)
                          \<and> active_human_member now d0 w (rs_space r)))))"

lemma active_human_member_tables:
  "db_members d' = db_members d \<Longrightarrow> db_principals d' = db_principals d \<Longrightarrow>
   active_human_member now d' w s = active_human_member now d w s"
  by (simp add: active_human_member_def)

lemma repaired_audit: "repaired now d0 (audit t a b c d) = repaired now d0 d"
  by (simp add: repaired_def)

lemma repaired_step:
  assumes rep: "repaired now d0 d" and ok0: "registry_ok d0" and x: "(row, actor) \<in> set (unreachable_rows d0)"
  shows "repaired now d0 (snd (reclaim_one now (row, actor) (ids, d)))"
proof -
  have row0: "row \<in> set (db_resources d0)" using x by (auto simp: unreachable_rows_def)
  then have get0: "get_resource d0 (rs_id row) = Some row" by (simp add: get_resource_iff [OF ok0])
  have okd: "registry_ok d" and mem: "db_members d = db_members d0" "db_principals d = db_principals d0"
    using rep by (simp_all add: repaired_def)
  let ?P = "\<lambda>r. rs_id r = rs_id row \<and> rs_revision r = rs_revision row"
  show ?thesis
  proof (cases "truthy actor \<and> active_human_member now d0 (the actor) (rs_space row)
      \<and> row \<in> set (db_resources d)")
    case False
    have "sql_update ?P f (db_resources d) = db_resources d \<and> sql_changes ?P (db_resources d) \<noteq> 1"
      if "row \<notin> set (db_resources d)" for f
    proof -
      obtain r' where r': "get_resource d (rs_id row) = Some r'"
        "r' = row \<or> (\<exists>w. r' = reclaimed_row now w row)"
        using rep get0 unfolding repaired_def by blast
      note r'd = get_resourceD [OF r'(1)]
      have rev: "rs_revision r' \<noteq> rs_revision row" using r'(2) r'd that by auto
      have no: "\<not> ?P x" if "x \<in> set (db_resources d)" for x
        using same_id_same_row [OF okd that, of r'] r'd rev by auto
      then have "filter ?P (db_resources d) = []" by (simp add: filter_empty_conv)
      moreover have "sql_update ?P f (db_resources d) = db_resources d"
        unfolding sql_update_def using no by (intro map_idI) auto
      ultimately show ?thesis by (simp add: sql_changes_def)
    qed
    with False rep show ?thesis
      by (auto simp: reclaim_one_def Let_def active_human_member_tables [OF mem])
  next
    case True
    then obtain w where w: "actor = Some w" "w \<noteq> []" by (cases actor) auto
    let ?d = "row_move row (reclaimed_row now w row) d"
    have "update_resource ?P (reclaimed_row now w) d = (Inr (), ?d)"
      using True by (intro update_resource_hit [OF okd]) auto
    then have "sql_changes ?P (db_resources d) = 1"
      "d\<lparr>db_resources := sql_update ?P (reclaimed_row now w) (db_resources d)\<rparr> = ?d"
      by (auto simp: update_resource_def Let_def split: if_splits)
    then have eq: "snd (reclaim_one now (row, actor) (ids, d))
        = audit now ''system:resource-reconciler'' ''resource.owner-adopted'' (Some (rs_id row)) ?d"
      using True w by (simp add: reclaim_one_def active_human_member_tables [OF mem])
    have "registry_ok ?d"
      using True registry_okD(6) [OF okd, of row] by (intro registry_ok_row_move [OF okd]) auto
    moreover have "get_resource ?d i = (if rs_id row = i then Some (reclaimed_row now w row) else get_resource d i)" for i
      using True by (intro get_resource_move(1) [OF okd]) auto
    moreover have "get_resource d0 i = Some r \<Longrightarrow> i = rs_id row \<Longrightarrow> r = row" for i r using get0 by simp
    ultimately have "repaired now d0 ?d"
      using rep True w x unfolding repaired_def row_move_def by (auto simp: replace_row_keys)
    then show ?thesis by (simp only: eq repaired_audit)
  qed
qed

lemma reclaim_repaired:
  assumes ok: "registry_ok d0"
  shows "repaired now d0 (snd (reclaim_unreachable now d0))"
proof -
  have "repaired now d0 (snd (fold (reclaim_one now) xs acc))"
    if "set xs \<subseteq> set (unreachable_rows d0)" "repaired now d0 (snd acc)" for xs acc
    using that
  proof (induction xs arbitrary: acc)
    case (Cons x xs)
    have "repaired now d0 (snd (reclaim_one now x acc))"
      using Cons.prems repaired_step [OF _ ok, of now "snd acc" "fst x" "snd x" "fst acc"] by simp
    with Cons show ?case by simp
  qed simp
  moreover have "repaired now d0 d0" using ok by (simp add: repaired_def)
  ultimately show ?thesis by (simp add: reclaim_unreachable_def)
qed

section \<open>Policies\<close>

lemma upsert_policy_of:
  "policy_of (upsert_policy now actor space p d) s
     = (if s = space then p\<lparr>po_revision := po_revision (policy_of d space) + 1\<rparr> else policy_of d s)"
proof (cases "sql_get (\<lambda>r. sp_policy_space r = space) (db_policies d)")
  case None
  then show ?thesis
    by (auto simp: policy_of_def upsert_policy_def Let_def sql_get_append default_sharing_policy_def
        split: option.split)
next
  case (Some row)
  then show ?thesis
    using sql_get_update [of sp_policy_space "\<lambda>r. r\<lparr>sp_default_space := po_default_space p,
        sp_allow_space := po_allow_space p, sp_members_share := po_members_share p, sp_max_access := po_max_access p,
        sp_updated_by := actor, sp_policy_updated_at := now, sp_policy_revision := sp_policy_revision r + 1\<rparr>"
        s "\<lambda>r. sp_policy_space r = space" "db_policies d"]
    by (auto simp: policy_of_def upsert_policy_def Let_def dest: sql_get_SomeD split: option.split)
qed

lemma policy_of_audit: "policy_of (audit t a b c d) s = policy_of d s"
  by (simp add: policy_of_def)

section \<open>A sharing example\<close>

definition demo_share :: "visibility \<Rightarrow> (string \<times> access_level) list option \<Rightarrow> share_input" where
  "demo_share v gs = \<lparr>sh_resource = ''c'', sh_org = ''o'', sh_space = ''s'', sh_actor = ''ann'',
     sh_expected = Some 1, sh_visibility = Some v, sh_grants = gs\<rparr>"

definition demo_shared_row :: "visibility \<Rightarrow> resource_row" where
  "demo_shared_row v = shared_row 5 v ''ann'' (demo_row ''c'' ''session'' (Some ''p'') ''ann'' Inherit)"

definition demo_eve_grant :: resource_grant where
  "demo_eve_grant = \<lparr>rg_principal = ''eve'', rg_access = View, rg_granted_by = ''ann'', rg_created_at = 5,
     rg_updated_at = 5, rg_revision = 1\<rparr>"

lemma demo_db_ok: "registry_ok demo_db" "grants_ok demo_db"
  by code_simp+

lemma demo_restricted:
  "share 5 (demo_share Restricted (Some [(''eve'', View)])) demo_db
     = (Inr (demo_shared_row Restricted, [demo_eve_grant]),
        snd (share 5 (demo_share Restricted (Some [(''eve'', View)])) demo_db))"
  by code_simp

lemma demo_made_private:
  "share 5 (demo_share Private None) demo_db
     = (Inr (demo_shared_row Private, []), snd (share 5 (demo_share Private None) demo_db))"
  by code_simp

lemma demo_private_opened:
  "rs_visibility (demo_shared_row Private) = Private"
  "access None 6 (snd (share 5 (demo_share Private None) demo_db)) (demo_ask ''c'' ''ann'')
     = Inr (Some (demo_shared_row Private, Manage))"
  "ac_resource (demo_ask ''c'' ''ann'') = sh_resource (demo_share Private None)"
  "principal_kind_of (snd (share 5 (demo_share Private None) demo_db)) (ac_principal (demo_ask ''c'' ''ann''))
     \<noteq> Some KindSystem"
  by code_simp+

section \<open>Properties\<close>

text \<open>The people list of the result, by person.\<close>

definition listed :: "resource_grant list \<Rightarrow> string \<Rightarrow> access_level option" where
  "listed gs who = map_of (map (\<lambda>g. (rg_principal g, rg_access g)) gs) who"

text \<open>
  C16: After \<open>share\<close> the people of the resource are exactly the requested list (none for a
  private row, the kept list when none was requested, without the person who adopts the
  row), each an active human member of the Space other than the owner; what is reported is
  what is stored, and the people of every other resource are untouched.
\<close>
theorem share_sets_people:
  assumes "registry_ok d" "grants_ok d" "share now i d = (Inr (r, gs), d')"
  shows "\<exists>row wanted. get_resource d (sh_resource i) = Some row
    \<and> wanted = share_people i (rs_visibility r) (share_adopts now i (rs_visibility r) row d) (sh_grants i)
    \<and> listed gs = grant_of now d' (sh_resource i)
    \<and> grant_of now d' (sh_resource i) = (case wanted of None \<Rightarrow> grant_of now d (sh_resource i) | Some w \<Rightarrow> map_of w)
    \<and> (case wanted of None \<Rightarrow> True | Some w \<Rightarrow> people_ok now d (sh_space i) (rs_owner r) w)
    \<and> (\<forall>other. other \<noteq> sh_resource i \<longrightarrow> grant_of now d' other = grant_of now d other)"
proof (cases rule: share_grants [OF assms])
  case (1 row wanted)
  have "listed gs = grant_of now d' (sh_resource i)"
    using listed_people [OF 1(2)] 1(11) by (simp add: listed_def fun_eq_iff)
  moreover have "grant_of now d' (sh_resource i)
      = (case wanted of None \<Rightarrow> grant_of now d (sh_resource i) | Some w \<Rightarrow> map_of w)"
    using 1(9) by (cases wanted) (auto simp: fun_eq_iff)
  moreover have "case wanted of None \<Rightarrow> True | Some w \<Rightarrow> people_ok now d (sh_space i) (rs_owner r) w"
    using 1(8) by (simp split: option.split)
  ultimately show ?thesis using 1(1,7,10) by (intro exI [of _ row] exI [of _ wanted]) (auto simp: fun_eq_iff)
qed

theorem share_sets_people_witness:
  "\<exists>row wanted. get_resource demo_db (sh_resource (demo_share Restricted (Some [(''eve'', View)]))) = Some row
    \<and> wanted = share_people (demo_share Restricted (Some [(''eve'', View)])) (rs_visibility (demo_shared_row Restricted))
        (share_adopts 5 (demo_share Restricted (Some [(''eve'', View)])) (rs_visibility (demo_shared_row Restricted)) row demo_db)
        (sh_grants (demo_share Restricted (Some [(''eve'', View)])))
    \<and> listed [demo_eve_grant] = grant_of 5 (snd (share 5 (demo_share Restricted (Some [(''eve'', View)])) demo_db))
        (sh_resource (demo_share Restricted (Some [(''eve'', View)])))"
  using share_sets_people [OF demo_db_ok demo_restricted] by blast

text \<open>
  Once \<open>share\<close> has made a resource private, nobody but its owner and the system
  principals opens it, and its people list is empty.
\<close>
theorem share_private_locks_out:
  assumes "registry_ok d" "grants_ok d" "share now i d = (Inr (r, gs), d')" "rs_visibility r = Private"
    and "access policy later d' j = Inr (Some (x, l))" "ac_resource j = sh_resource i"
    and "principal_kind_of d' (ac_principal j) \<noteq> Some KindSystem"
  shows "gs = [] \<and> ac_principal j = rs_owner r \<and> x = r"
proof (cases rule: share_grants [OF assms(1-3)])
  case (1 row wanted)
  have "wanted = Some []" using 1(7) assms(4) by (auto simp: share_people_def Let_def jm_delete_def)
  then have none: "map_of (map (\<lambda>g. (rg_principal g, rg_access g)) gs) who = None" for who
    using 1(9) listed_people [OF 1(2), of now "sh_resource i" who] 1(11) by simp
  have "gs = []"
  proof (cases gs)
    case (Cons g rest)
    with none [of "rg_principal g"] show ?thesis by simp
  qed simp
  moreover have "x = r" using access_SomeD(1) [OF assms(5)] assms(6) 1(4) by simp
  ultimately show ?thesis using private_access [OF assms(5)] assms(4,7) by auto
qed

theorem share_private_locks_out_witness:
  "[] = ([] :: resource_grant list) \<and> ac_principal (demo_ask ''c'' ''ann'') = rs_owner (demo_shared_row Private)
     \<and> demo_shared_row Private = demo_shared_row Private"
  by (rule share_private_locks_out [OF demo_db_ok demo_made_private demo_private_opened])

text \<open>
  The startup repair leaves every row as it was or hands it, unchanged but for its owner
  and its two revisions, to an active human member of its Space who was the last to share
  it; only rows that are narrowed and whose owner is no person change hands.
\<close>
theorem reclaim_hands_to_last_sharer:
  assumes "registry_ok d" "get_resource d i = Some r"
  shows "\<exists>r'. get_resource (snd (reclaim_unreachable now d)) i = Some r'
    \<and> (r' = r \<or> (\<exists>w. r' = reclaimed_row now w r \<and> last_sharer d i = Some w
         \<and> active_human_member now d w (rs_space r)
         \<and> rs_visibility r \<in> {Private, Restricted} \<and> rs_lifecycle r \<noteq> Deleted))"
proof -
  obtain r' where "get_resource (snd (reclaim_unreachable now d)) i = Some r'"
    "r' = r \<or> (\<exists>w. r' = reclaimed_row now w r \<and> (r, Some w) \<in> set (unreachable_rows d)
       \<and> active_human_member now d w (rs_space r))"
    using reclaim_repaired [OF assms(1), of now] assms(2) unfolding repaired_def by blast
  moreover have "rs_id r = i" using get_resourceD [OF assms(2)] by simp
  moreover from this have "rs_visibility r \<in> {Private, Restricted} \<and> rs_lifecycle r \<noteq> Deleted \<and> last_sharer d i = Some w"
    if "(r, Some w) \<in> set (unreachable_rows d)" for w
    using that by (auto simp: unreachable_rows_def)
  ultimately show ?thesis by blast
qed

text \<open>A chat of a system principal that the member \<open>bob\<close> narrowed before the repair existed.\<close>

definition demo_stuck_db :: db where
  "demo_stuck_db = demo_db\<lparr>db_resources := [demo_row ''k'' ''session'' None ''sys'' Restricted],
     db_audit := [\<lparr>au_seq = 1, au_actor = ''bob'', au_action = ''resource.shared'', au_resource = Some ''k'',
       au_time = 0, au_epoch = 1\<rparr>]\<rparr>"

lemma demo_stuck: "registry_ok demo_stuck_db"
  "get_resource demo_stuck_db ''k'' = Some (demo_row ''k'' ''session'' None ''sys'' Restricted)"
  by code_simp+

lemma demo_stuck_reclaimed: "fst (reclaim_unreachable 9 demo_stuck_db) = [''k'']"
  by code_simp

theorem reclaim_hands_to_last_sharer_witness:
  "fst (reclaim_unreachable 9 demo_stuck_db) = [''k''] \<and>
   (\<exists>r'. get_resource (snd (reclaim_unreachable 9 demo_stuck_db)) ''k'' = Some r'
    \<and> (r' = demo_row ''k'' ''session'' None ''sys'' Restricted
       \<or> (\<exists>w. r' = reclaimed_row 9 w (demo_row ''k'' ''session'' None ''sys'' Restricted)
         \<and> last_sharer demo_stuck_db ''k'' = Some w
         \<and> active_human_member 9 demo_stuck_db w (rs_space (demo_row ''k'' ''session'' None ''sys'' Restricted))
         \<and> rs_visibility (demo_row ''k'' ''session'' None ''sys'' Restricted) \<in> {Private, Restricted}
         \<and> rs_lifecycle (demo_row ''k'' ''session'' None ''sys'' Restricted) \<noteq> Deleted)))"
  using reclaim_hands_to_last_sharer [OF demo_stuck, of 9] demo_stuck_reclaimed by blast

text \<open>
  Saving a sharing policy stores the patched policy with the next revision, keeps every
  other Space's policy, and never stores one whose default shares with a Space that does
  not allow it.
\<close>
theorem set_policy_applies:
  assumes run: "set_policy now i d = (Inr p, d')"
  shows "p = (patched_policy i (policy_of d (pi_space i)))\<lparr>po_revision := po_revision (policy_of d (pi_space i)) + 1\<rparr>
    \<and> policy_of d' (pi_space i) = p
    \<and> (\<forall>s. s \<noteq> pi_space i \<longrightarrow> policy_of d' s = policy_of d s)
    \<and> (po_default_space p \<longrightarrow> po_allow_space p)
    \<and> (\<forall>n. pi_expected i = Some n \<longrightarrow> n = po_revision (policy_of d (pi_space i)))"
proof -
  let ?old = "policy_of d (pi_space i)" and ?w = "patched_policy i (policy_of d (pi_space i))"
  have g: "pi_expected i \<in> {None, Some (po_revision ?old)}" "po_default_space ?w \<longrightarrow> po_allow_space ?w"
    and work: "set_policy_work now i ?old ?w d = (Inr p, d')"
    using run by (auto simp: set_policy_def Let_def transaction_Inr split: if_splits)
  have p: "p = policy_of d' (pi_space i)"
    and d': "d' = audit now (pi_actor i) ''space.sharing-policy-set'' (Some (pi_space i))
        (upsert_policy now (pi_actor i) (pi_space i) ?w d)"
    using work by (auto simp: set_policy_work_def Let_def split: if_splits)
  have pol: "policy_of d' s = (if s = pi_space i then ?w\<lparr>po_revision := po_revision ?old + 1\<rparr> else policy_of d s)" for s
    using upsert_policy_of [of now "pi_actor i" "pi_space i" ?w d s] by (simp add: d' policy_of_audit)
  show ?thesis using g p by (auto simp: pol)
qed

lemma demo_policy_run:
  "set_policy 3 \<lparr>pi_space = ''s'', pi_actor = ''ann'', pi_expected = Some 0, pi_default_space = Some True,
      pi_allow_space = None, pi_members_share = Some False, pi_max_access = None\<rparr> demo_db
   = (Inr \<lparr>po_default_space = True, po_allow_space = True, po_members_share = False, po_max_access = Manage,
           po_revision = 1\<rparr>,
      snd (set_policy 3 \<lparr>pi_space = ''s'', pi_actor = ''ann'', pi_expected = Some 0, pi_default_space = Some True,
      pi_allow_space = None, pi_members_share = Some False, pi_max_access = None\<rparr> demo_db))"
  by code_simp

theorem set_policy_applies_witness:
  "policy_of (snd (set_policy 3 \<lparr>pi_space = ''s'', pi_actor = ''ann'', pi_expected = Some 0,
      pi_default_space = Some True, pi_allow_space = None, pi_members_share = Some False, pi_max_access = None\<rparr>
      demo_db)) ''s''
   = \<lparr>po_default_space = True, po_allow_space = True, po_members_share = False, po_max_access = Manage,
           po_revision = 1\<rparr>"
  using set_policy_applies [OF demo_policy_run] by simp

text \<open>
  An inheriting row may be made to follow a row that inherits from it through the registry
  parent: \<open>adoptAccessParent\<close> follows access parents only, and nobody but an owner can open
  either row afterwards.
\<close>

definition loop_db :: db where
  "loop_db = demo_db\<lparr>db_resources := db_resources demo_db @ [demo_row ''k'' ''session'' (Some ''c'') ''ann'' Inherit]\<rparr>"

lemma adoption_can_loop:
  "registry_ok loop_db"
  "access None 6 loop_db (demo_ask ''k'' ''bob'')
     = Inr (Some (demo_row ''k'' ''session'' (Some ''c'') ''ann'' Inherit, Manage))"
  "fst (adopt_access_parent 6 ''c'' ''k'' loop_db)
     = Inr (adopted_row 6 ''k'' (demo_row ''c'' ''session'' (Some ''p'') ''ann'' Inherit))"
  "access None 6 (snd (adopt_access_parent 6 ''c'' ''k'' loop_db)) (demo_ask ''k'' ''bob'') = Inl RecoveryRequired"
  by code_simp+

text \<open>
  A person who narrows a chat of a system principal and is on its people list already
  becomes its owner and stays on the list, which \<open>share\<close> then refuses to take back.
\<close>

definition server_db :: db where
  "server_db = demo_db\<lparr>db_resources := [demo_row ''c'' ''session'' None ''sys'' SpaceWide]\<rparr>"

definition bob_shares :: "(string \<times> access_level) list option \<Rightarrow> share_input" where
  "bob_shares gs = (demo_share Restricted gs)\<lparr>sh_actor := ''bob'', sh_expected := None\<rparr>"

lemma adopting_owner_stays_listed:
  "map_sum id (\<lambda>(r, gs). (rs_owner r, map (\<lambda>g. (rg_principal g, rg_access g)) gs))
     (fst (share 5 (bob_shares None) server_db)) = Inr (''bob'', [(''bob'', Manage)])"
  "fst (share 6 (bob_shares (Some [(''bob'', Manage)])) (snd (share 5 (bob_shares None) server_db)))
     = Inl InvalidInput"
  by code_simp+

end
