(* ===== verification/ControlSystem.thy ===== *)
theory ControlSystem
  imports SharingRules
begin

text \<open>
  The registry as a whole: every operation of resources.ts, resourceLifecycle.ts and
  resourceSharing.ts that changes state, in any order and with any outcome, between
  arbitrary changes of the tables that other packages own (principals, members, Spaces,
  policies, the audit log). What holds of every state that can be reached this way, and
  what never happens to a row.
\<close>

section \<open>Commands\<close>

datatype command =
    CBegin begin_input
  | CReady string string
  | CActivate string int
  | CAbort string int
  | CQuarantine string int
  | CMove move_input
  | CTransition transition_input
  | CShare share_input
  | CAdopt string string
  | CReclaim

definition outcome :: "(control_error + 'a) \<times> db \<Rightarrow> control_error option \<times> db" where
  "outcome x = (case fst x of Inl e \<Rightarrow> Some e | Inr _ \<Rightarrow> None, snd x)"

fun run_command :: "(json \<Rightarrow> string) \<Rightarrow> (string \<Rightarrow> string) \<Rightarrow> int \<Rightarrow> command \<Rightarrow> db \<Rightarrow> control_error option \<times> db" where
  "run_command req sha now (CBegin i) d = outcome (begin_provisioning req now i d)"
| "run_command req sha now (CReady op r) d = outcome (record_domain_ready sha now op r d)"
| "run_command req sha now (CActivate op n) d = outcome (activate now op n d)"
| "run_command req sha now (CAbort op n) d = outcome (abort_missing_domain now op n d)"
| "run_command req sha now (CQuarantine op n) d = outcome (quarantine_unknown now op n d)"
| "run_command req sha now (CMove i) d = outcome (move_session now i d)"
| "run_command req sha now (CTransition i) d = outcome (transition now i d)"
| "run_command req sha now (CShare i) d = outcome (share now i d)"
| "run_command req sha now (CAdopt a b) d = outcome (adopt_access_parent now a b d)"
| "run_command req sha now CReclaim d = (None, snd (reclaim_unreachable now d))"

lemma outcome_iff [simp]:
  "outcome x = (None, d') \<longleftrightarrow> (\<exists>r. x = (Inr r, d'))"
  "outcome x = (Some e, d') \<longleftrightarrow> x = (Inl e, d')"
  by (cases x; cases "fst x"; auto simp: outcome_def)+

section \<open>A failed command changes nothing\<close>

lemma unchanged_on_error:
  "begin_provisioning req now b d = (Inl e, d') \<Longrightarrow> d' = d"
  "record_domain_ready sha now op x d = (Inl e, d') \<Longrightarrow> d' = d"
  "activate now op n d = (Inl e, d') \<Longrightarrow> d' = d"
  "abort_missing_domain now op n d = (Inl e, d') \<Longrightarrow> d' = d"
  "quarantine_unknown now op n d = (Inl e, d') \<Longrightarrow> d' = d"
  "move_session now m d = (Inl e, d') \<Longrightarrow> d' = d"
  "share now s d = (Inl e, d') \<Longrightarrow> d' = d"
  "adopt_access_parent now a c d = (Inl e, d') \<Longrightarrow> d' = d"
  by (auto simp: begin_provisioning_def record_domain_ready_def activate_def abort_missing_domain_def
      quarantine_unknown_def move_session_def share_def adopt_access_parent_def Let_def
      dest: transaction_Inl split: if_splits option.splits sum.splits)

lemma transition_unchanged: "transition now i d = (Inl e, d') \<Longrightarrow> d' = d"
  unfolding transition_def
  by (auto dest: transaction_Inl split: if_splits option.splits sum.splits)

lemma run_command_fails:
  assumes "run_command req sha now c d = (Some e, d')" shows "d' = d"
  using assms by (cases c) (simp_all, (blast dest: unchanged_on_error transition_unchanged)+)

section \<open>The invariant\<close>

definition system_ok :: "db \<Rightarrow> bool" where
  "system_ok d \<longleftrightarrow> registry_ok d \<and> grants_ok d"

lemma begin_grants: "begin_provisioning req now i d = (Inr (r, p, b), d') \<Longrightarrow> db_grants d' = db_grants d"
  by (erule begin_cases) auto

lemma run_registry_ok:
  assumes ok: "registry_ok d" and run: "run_command req sha now c d = (None, d')"
  shows "registry_ok d'"
proof (cases c)
  case (CBegin i)
  with run obtain r p b where "begin_provisioning req now i d = (Inr (r, p, b), d')" by auto
  then show ?thesis by (rule begin_ok [OF ok])
next
  case CReclaim
  with run reclaim_repaired [OF ok, of now] show ?thesis by (auto simp: repaired_def)
next
  case (CShare i)
  with run obtain r gs where "share now i d = (Inr (r, gs), d')" by auto
  then show ?thesis by (rule share_ok [OF ok])
qed (use run in \<open>auto intro: machine_intros ok\<close>)

lemma steps_keep_grants:
  "begin_provisioning req now b d = (Inr (r, p, x), d') \<Longrightarrow> db_grants d' = db_grants d"
  "registry_ok d \<Longrightarrow> record_domain_ready sha now op rc d = (Inr p, d') \<Longrightarrow> db_grants d' = db_grants d"
  "registry_ok d \<Longrightarrow> activate now op n d = (Inr r, d') \<Longrightarrow> db_grants d' = db_grants d"
  "registry_ok d \<Longrightarrow> abort_missing_domain now op n d = (Inr r, d') \<Longrightarrow> db_grants d' = db_grants d"
  "registry_ok d \<Longrightarrow> quarantine_unknown now op n d = (Inr r, d') \<Longrightarrow> db_grants d' = db_grants d"
  "registry_ok d \<Longrightarrow> move_session now m d = (Inr r, d') \<Longrightarrow> db_grants d' = db_grants d"
  "registry_ok d \<Longrightarrow> transition now t d = (Inr r, d') \<Longrightarrow> db_grants d' = db_grants d"
  "registry_ok d \<Longrightarrow> adopt_access_parent now a c d = (Inr r, d') \<Longrightarrow> db_grants d' = db_grants d"
  by (erule begin_cases; simp)
     (erule (1) domain_ready_cases activate_cases abort_cases quarantine_cases move_cases transition_cases adopt_cases;
       simp add: saga_move_def row_move_def)+

lemma run_keeps_grants:
  assumes ok: "registry_ok d" and run: "run_command req sha now c d = (None, d')" and other: "\<And>i. c \<noteq> CShare i"
  shows "db_grants d' = db_grants d"
proof (cases c)
  case (CBegin i)
  with run obtain r p b where "begin_provisioning req now i d = (Inr (r, p, b), d')" by auto
  then show ?thesis by (rule steps_keep_grants(1))
next
  case CReclaim
  with run reclaim_repaired [OF ok, of now] show ?thesis by (auto simp: repaired_def)
next
  case (CReady op x)
  with run obtain r where "record_domain_ready sha now op x d = (Inr r, d')" by auto
  then show ?thesis by (rule steps_keep_grants(2) [OF ok])
next
  case (CActivate op n)
  with run obtain r where "activate now op n d = (Inr r, d')" by auto
  then show ?thesis by (rule steps_keep_grants(3) [OF ok])
next
  case (CAbort op n)
  with run obtain r where "abort_missing_domain now op n d = (Inr r, d')" by auto
  then show ?thesis by (rule steps_keep_grants(4) [OF ok])
next
  case (CQuarantine op n)
  with run obtain r where "quarantine_unknown now op n d = (Inr r, d')" by auto
  then show ?thesis by (rule steps_keep_grants(5) [OF ok])
next
  case (CMove i)
  with run obtain r where "move_session now i d = (Inr r, d')" by auto
  then show ?thesis by (rule steps_keep_grants(6) [OF ok])
next
  case (CTransition i)
  with run obtain r where "transition now i d = (Inr r, d')" by auto
  then show ?thesis by (rule steps_keep_grants(7) [OF ok])
next
  case (CAdopt a b)
  with run obtain r where "adopt_access_parent now a b d = (Inr r, d')" by auto
  then show ?thesis by (rule steps_keep_grants(8) [OF ok])
next
  case (CShare i)
  with other show ?thesis by blast
qed

lemma run_grants_ok:
  assumes ok: "registry_ok d" and gok: "grants_ok d" and run: "run_command req sha now c d = (None, d')"
  shows "grants_ok d'"
proof (cases "\<exists>i. c = CShare i")
  case True
  then obtain i where "c = CShare i" ..
  with run obtain r gs where "share now i d = (Inr (r, gs), d')" by auto
  then show ?thesis by (rule share_grants [OF ok gok])
next
  case False
  then have "db_grants d' = db_grants d" using run_keeps_grants [OF ok run] by blast
  from grants_ok_tables [OF this] gok show ?thesis by simp
qed

section \<open>What may happen to a row\<close>

definition row_evolves :: "resource_row \<Rightarrow> resource_row \<Rightarrow> bool" where
  "row_evolves r r' \<longleftrightarrow>
     rs_id r' = rs_id r \<and> rs_kind r' = rs_kind r \<and> rs_org r' = rs_org r \<and> rs_space r' = rs_space r
     \<and> rs_created_by r' = rs_created_by r \<and> rs_created_at r' = rs_created_at r
     \<and> rs_revision r \<le> rs_revision r' \<and> rs_access_revision r \<le> rs_access_revision r'
     \<and> (rs_revision r' = rs_revision r \<longrightarrow> r' = r)
     \<and> (rs_access_revision r' = rs_access_revision r \<longrightarrow>
          rs_visibility r' = rs_visibility r \<and> rs_owner r' = rs_owner r \<and> rs_parent r' = rs_parent r
          \<and> rs_access_parent r' = rs_access_parent r)
     \<and> (rs_lifecycle r = Deleted \<longrightarrow> rs_lifecycle r' = Deleted)
     \<and> (rs_access_parent r \<noteq> None \<longrightarrow> rs_access_parent r' = rs_access_parent r)"

lemma row_evolves_refl [simp]: "row_evolves r r"
  by (simp add: row_evolves_def)

lemma row_evolvesD:
  assumes "row_evolves r r'"
  shows "rs_id r' = rs_id r" "rs_kind r' = rs_kind r" "rs_org r' = rs_org r" "rs_space r' = rs_space r"
    "rs_created_by r' = rs_created_by r" "rs_created_at r' = rs_created_at r"
    "rs_revision r \<le> rs_revision r'" "rs_access_revision r \<le> rs_access_revision r'"
    "rs_revision r' = rs_revision r \<Longrightarrow> r' = r"
    "rs_access_revision r' = rs_access_revision r \<Longrightarrow>
       rs_visibility r' = rs_visibility r \<and> rs_owner r' = rs_owner r \<and> rs_parent r' = rs_parent r
          \<and> rs_access_parent r' = rs_access_parent r"
    "rs_lifecycle r = Deleted \<Longrightarrow> rs_lifecycle r' = Deleted"
    "rs_access_parent r \<noteq> None \<Longrightarrow> rs_access_parent r' = rs_access_parent r"
  using assms unfolding row_evolves_def by simp_all

lemma row_evolves_trans:
  assumes ab: "row_evolves a b" and bc: "row_evolves b c" shows "row_evolves a c"
proof -
  note 1 = row_evolvesD [OF ab] and 2 = row_evolvesD [OF bc]
  have rev: "c = a" if "rs_revision c = rs_revision a"
    using that 1(7,9) 2(7,9) by (metis antisym)
  have acc: "rs_access_revision b = rs_access_revision a \<and> rs_access_revision c = rs_access_revision b"
    if "rs_access_revision c = rs_access_revision a"
    using that 1(8) 2(8) by linarith
  have acc': "rs_visibility c = rs_visibility a \<and> rs_owner c = rs_owner a \<and> rs_parent c = rs_parent a
      \<and> rs_access_parent c = rs_access_parent a" if "rs_access_revision c = rs_access_revision a"
    using acc [OF that] 1(10) 2(10) by metis
  have up: "rs_revision a \<le> rs_revision c" "rs_access_revision a \<le> rs_access_revision c"
    using 1(7,8) 2(7,8) by linarith+
  have par: "rs_access_parent c = rs_access_parent a" if "rs_access_parent a \<noteq> None"
    using that 1(12) 2(12) by metis
  have "rs_lifecycle c = Deleted" if "rs_lifecycle a = Deleted" using that 1(11) 2(11) by blast
  moreover have "rs_id c = rs_id a" "rs_kind c = rs_kind a" "rs_org c = rs_org a" "rs_space c = rs_space a"
    "rs_created_by c = rs_created_by a" "rs_created_at c = rs_created_at a"
    using 1(1-6) 2(1-6) by metis+
  ultimately show ?thesis unfolding row_evolves_def using rev acc' up par by blast
qed

definition rows_evolve :: "db \<Rightarrow> db \<Rightarrow> bool" where
  "rows_evolve d d' \<longleftrightarrow> (\<forall>i r. get_resource d i = Some r \<longrightarrow>
     (\<exists>r'. get_resource d' i = Some r' \<and> row_evolves r r'))"

lemma rows_evolve_refl [simp]: "rows_evolve d d"
  by (simp add: rows_evolve_def)

lemma rows_evolve_trans: "rows_evolve a b \<Longrightarrow> rows_evolve b c \<Longrightarrow> rows_evolve a c"
  unfolding rows_evolve_def by (meson row_evolves_trans)

lemma rows_evolve_audit [simp]: "rows_evolve d (audit t a b c d') = rows_evolve d d'"
  by (simp add: rows_evolve_def)

lemma rows_evolve_share_audit [simp]: "rows_evolve d (share_audit now i adopt d') = rows_evolve d d'"
  by (simp add: rows_evolve_def)

lemma rows_evolve_move:
  assumes "registry_ok d" "row \<in> set (db_resources d)" "row_evolves row row'"
  shows "rows_evolve d (row_move row row' d)" "rows_evolve d (saga_move saga saga' row row' d)"
proof -
  have keep: "rs_id row' = rs_id row" using assms(3) by (simp add: row_evolves_def)
  have "get_resource d (rs_id row) = Some row" using assms(1,2) by (simp add: get_resource_iff)
  then show "rows_evolve d (row_move row row' d)" "rows_evolve d (saga_move saga saga' row row' d)"
    using get_resource_move [OF assms(1,2) keep] assms(3) by (auto simp: rows_evolve_def)
qed

lemma row_steps_evolve [simp]:
  "rs_lifecycle r \<noteq> Deleted \<Longrightarrow> row_evolves r (active_row now r)"
  "rs_lifecycle r \<noteq> Deleted \<Longrightarrow> row_evolves r (row_to l now r)"
  "row_evolves r (moved_row t now r)"
  "rs_lifecycle r \<noteq> Deleted \<Longrightarrow> row_evolves r (transition_row now i r)"
  "row_evolves r (shared_row now v owner r)"
  "rs_access_parent r = None \<Longrightarrow> row_evolves r (adopted_row now p r)"
  "row_evolves r (reclaimed_row now w r)"
  by (simp_all add: row_evolves_def row_step_defs transition_row_def shared_row_def adopted_row_def reclaimed_row_def)

lemma run_rows_evolve:
  assumes ok: "registry_ok d" and run: "run_command req sha now c d = (None, d')"
  shows "rows_evolve d d'"
proof (cases c)
  case (CBegin i)
  with run obtain r p b where "begin_provisioning req now i d = (Inr (r, p, b), d')" by auto
  then show ?thesis
    by (rule begin_cases) (auto simp: rows_evolve_def get_resource_def sql_get_append)
next
  case (CReady op x)
  with run obtain p where "record_domain_ready sha now op x d = (Inr p, d')" by auto
  then show ?thesis
    by (rule domain_ready_cases [OF ok])
      (auto intro!: rows_evolve_move(2) [OF ok] dest: asserted_resourceD [OF ok])
next
  case (CActivate op n)
  with run obtain r where act: "activate now op n d = (Inr r, d')" by auto
  show ?thesis
  proof (cases rule: activate_cases [OF ok act])
    case (2 saga row)
    with asserted_resourceD [OF ok 2(1)] show ?thesis
      by (auto intro!: rows_evolve_move(2) [OF ok] row_steps_evolve simp: saga_ok_def)
  qed simp
next
  case (CAbort op n)
  with run obtain r where "abort_missing_domain now op n d = (Inr r, d')" by auto
  then show ?thesis
    by (rule abort_cases [OF ok])
      (auto intro!: rows_evolve_move(2) [OF ok] row_steps_evolve dest: asserted_resourceD(2) [OF ok])
next
  case (CQuarantine op n)
  with run obtain r where "quarantine_unknown now op n d = (Inr r, d')" by auto
  then show ?thesis
    by (rule quarantine_cases [OF ok])
      (auto intro!: rows_evolve_move(2) [OF ok] row_steps_evolve dest: asserted_resourceD(2) [OF ok])
next
  case (CMove i)
  with run obtain r where "move_session now i d = (Inr r, d')" by auto
  then show ?thesis
    by (rule move_cases [OF ok]) (auto intro!: rows_evolve_move(1) [OF ok] dest: get_resourceD)
next
  case (CTransition i)
  with run obtain r where "transition now i d = (Inr r, d')" by auto
  then show ?thesis
    by (rule transition_cases [OF ok])
      (auto intro!: rows_evolve_move(1) [OF ok] row_steps_evolve dest: get_resourceD allowed_cases)
next
  case (CShare i)
  with run obtain r gs where shared: "share now i d = (Inr (r, gs), d')" by auto
  show ?thesis
  proof (cases rule: share_cases [OF ok shared])
    case (1 row v adopt owner wanted)
    let ?p = "shared_people now i wanted d"
    have "rows_evolve ?p (row_move row (shared_row now v owner row) ?p)"
      using ok get_resourceD [OF 1(1)] by (intro rows_evolve_move(1)) auto
    then have "rows_evolve d (row_move row (shared_row now v owner row) ?p)" by (simp add: rows_evolve_def)
    moreover have "rows_evolve d ?p" by (simp add: rows_evolve_def)
    ultimately show ?thesis using 1(13) by auto
  qed
next
  case (CAdopt a b)
  with run obtain r where "adopt_access_parent now a b d = (Inr r, d')" by auto
  then show ?thesis
    by (rule adopt_cases [OF ok]) (auto intro!: rows_evolve_move(1) [OF ok] row_steps_evolve dest: get_resourceD)
next
  case CReclaim
  with run reclaim_repaired [OF ok, of now] have "repaired now d d'" by auto
  then show ?thesis unfolding rows_evolve_def repaired_def
    by (metis row_evolves_refl row_steps_evolve(7))
qed

section \<open>What may happen to a saga\<close>

definition saga_evolves :: "provisioning_row \<Rightarrow> provisioning_row \<Rightarrow> bool" where
  "saga_evolves p p' \<longleftrightarrow>
     pv_operation p' = pv_operation p \<and> pv_resource p' = pv_resource p \<and> pv_request p' = pv_request p
     \<and> pv_revision p \<le> pv_revision p'
     \<and> (pv_state p \<in> {Finalized, Aborted} \<longrightarrow> p' = p)
     \<and> (pv_receipt p \<noteq> None \<longrightarrow> pv_receipt p' = pv_receipt p)"

lemma saga_evolves_refl [simp]: "saga_evolves p p"
  by (simp add: saga_evolves_def)

lemma saga_evolves_trans: "saga_evolves a b \<Longrightarrow> saga_evolves b c \<Longrightarrow> saga_evolves a c"
  unfolding saga_evolves_def by (elim conjE, intro conjI) (auto intro: order_trans)

definition sagas_evolve :: "db \<Rightarrow> db \<Rightarrow> bool" where
  "sagas_evolve d d' \<longleftrightarrow> (\<forall>op p. get_provisioning d op = Some p \<longrightarrow>
     (\<exists>p'. get_provisioning d' op = Some p' \<and> saga_evolves p p'))"

lemma sagas_evolve_same: "db_provisioning d' = db_provisioning d \<Longrightarrow> sagas_evolve d d'"
  by (simp add: sagas_evolve_def get_provisioning_def)

lemma sagas_evolve_trans: "sagas_evolve a b \<Longrightarrow> sagas_evolve b c \<Longrightarrow> sagas_evolve a c"
  unfolding sagas_evolve_def by (meson saga_evolves_trans)

lemma sagas_evolve_move:
  assumes "registry_ok d" "saga \<in> set (db_provisioning d)" "saga_evolves saga saga'"
  shows "sagas_evolve d (audit t a b c (saga_move saga saga' row row' d))"
proof -
  have keep: "pv_operation saga' = pv_operation saga" using assms(3) by (simp add: saga_evolves_def)
  have "get_provisioning d (pv_operation saga) = Some saga"
    using sql_get_unique [OF registry_okD(2) [OF assms(1)] assms(2)] by (simp add: get_provisioning_def)
  moreover have "get_provisioning (audit t a b c (saga_move saga saga' row row' d)) op
      = (if pv_operation saga = op then Some saga' else get_provisioning d op)" for op
    using sql_get_replace [OF registry_okD(2) [OF assms(1)] assms(2) keep, of op]
    by (simp add: get_provisioning_def saga_move_def)
  ultimately show ?thesis using assms(3) by (auto simp: sagas_evolve_def)
qed

lemma saga_steps_evolve:
  "pv_state p \<notin> {Finalized, Aborted} \<Longrightarrow> saga_evolves p (saga_to st now p)"
  "pv_state p \<notin> {Finalized, Aborted} \<Longrightarrow> pv_receipt p \<in> {None, Some x} \<Longrightarrow> saga_evolves p (ready_saga now x p)"
  by (auto simp: saga_evolves_def row_step_defs)

lemma run_sagas_evolve:
  assumes ok: "registry_ok d" and run: "run_command req sha now c d = (None, d')"
  shows "sagas_evolve d d'"
proof (cases c)
  case (CBegin i)
  with run obtain r p b where "begin_provisioning req now i d = (Inr (r, p, b), d')" by auto
  then show ?thesis
    by (rule begin_cases) (auto simp: sagas_evolve_def get_provisioning_def sql_get_append)
next
  case (CReady op x)
  with run obtain p where step: "record_domain_ready sha now op x d = (Inr p, d')" by auto
  show ?thesis
  proof (cases rule: domain_ready_cases [OF ok step])
    case (2 saga row)
    then have "saga_evolves saga (ready_saga now (sha x) saga)" by (intro saga_steps_evolve) auto
    with 2(6) show ?thesis using asserted_resourceD(1) [OF ok 2(1)] by (simp add: sagas_evolve_move [OF ok])
  qed (simp add: sagas_evolve_same)
next
  case (CActivate op n)
  with run obtain r where step: "activate now op n d = (Inr r, d')" by auto
  show ?thesis
  proof (cases rule: activate_cases [OF ok step])
    case (2 saga row)
    then have "saga_evolves saga (saga_to Finalized now saga)" by (intro saga_steps_evolve) auto
    with 2(5) show ?thesis using asserted_resourceD(1) [OF ok 2(1)] by (simp add: sagas_evolve_move [OF ok])
  qed (simp add: sagas_evolve_same)
next
  case (CAbort op n)
  with run obtain r where step: "abort_missing_domain now op n d = (Inr r, d')" by auto
  show ?thesis
  proof (cases rule: abort_cases [OF ok step])
    case (2 saga row)
    then have "saga_evolves saga (saga_to Aborted now saga)" by (intro saga_steps_evolve) auto
    with 2(7) show ?thesis using asserted_resourceD(1) [OF ok 2(1)] by (simp add: sagas_evolve_move [OF ok])
  qed (simp add: sagas_evolve_same)
next
  case (CQuarantine op n)
  with run obtain r where step: "quarantine_unknown now op n d = (Inr r, d')" by auto
  show ?thesis
  proof (cases rule: quarantine_cases [OF ok step])
    case (2 saga row)
    then have "saga_evolves saga (saga_to SagaQuarantined now saga)" by (intro saga_steps_evolve) auto
    with 2(6) show ?thesis using asserted_resourceD(1) [OF ok 2(1)] by (simp add: sagas_evolve_move [OF ok])
  qed (simp add: sagas_evolve_same)
next
  case (CMove i)
  with run obtain r where "move_session now i d = (Inr r, d')" by auto
  then show ?thesis by (rule move_cases [OF ok]) (simp_all add: sagas_evolve_same row_move_def)
next
  case (CTransition i)
  with run obtain r where "transition now i d = (Inr r, d')" by auto
  then show ?thesis by (rule transition_cases [OF ok]) (simp add: sagas_evolve_same row_move_def)
next
  case (CShare i)
  with run obtain r gs where "share now i d = (Inr (r, gs), d')" by auto
  then show ?thesis by (rule share_cases [OF ok]) (auto intro!: sagas_evolve_same simp: row_move_def)
next
  case (CAdopt a b)
  with run obtain r where "adopt_access_parent now a b d = (Inr r, d')" by auto
  then show ?thesis by (rule adopt_cases [OF ok]) (simp_all add: sagas_evolve_same row_move_def)
next
  case CReclaim
  have "db_provisioning (snd (reclaim_one now x acc)) = db_provisioning (snd acc)" for x acc
    by (cases x; cases acc) (simp add: reclaim_one_def Let_def)
  then have "db_provisioning (snd (fold (reclaim_one now) xs acc)) = db_provisioning (snd acc)" for xs acc
    by (induction xs arbitrary: acc) simp_all
  with CReclaim run show ?thesis by (auto intro!: sagas_evolve_same simp: reclaim_unreachable_def)
qed

section \<open>Any history\<close>

inductive registry_step :: "(json \<Rightarrow> string) \<Rightarrow> (string \<Rightarrow> string) \<Rightarrow> db \<Rightarrow> db \<Rightarrow> bool" for req sha where
  runs: "registry_step req sha d (snd (run_command req sha now c d))"
| elsewhere: "db_resources d' = db_resources d \<Longrightarrow> db_provisioning d' = db_provisioning d \<Longrightarrow>
    db_grants d' = db_grants d \<Longrightarrow> registry_step req sha d d'"

lemma step_cases:
  assumes "registry_step req sha d d'"
  obtains (ran) now c where "run_command req sha now c d = (None, d')" | (same) "d' = d"
  | (elsewhere) "db_resources d' = db_resources d" "db_provisioning d' = db_provisioning d" "db_grants d' = db_grants d"
  using assms
proof cases
  case (runs now c)
  show ?thesis
  proof (cases "fst (run_command req sha now c d)")
    case None
    with runs that(1) [of now c] show ?thesis by (metis prod.collapse)
  next
    case (Some e)
    with runs run_command_fails [of req sha now c d e d'] that(2) show ?thesis by (metis prod.collapse)
  qed
qed (rule that(3))

lemma step_system_ok:
  assumes "registry_step req sha d d'" "system_ok d" shows "system_ok d'"
  using assms(1)
proof (cases rule: step_cases)
  case (ran now c)
  with assms(2) show ?thesis
    unfolding system_ok_def by (blast intro: run_registry_ok run_grants_ok)
next
  case elsewhere
  with assms(2) show ?thesis by (simp add: system_ok_def registry_ok_def grants_ok_def)
qed (use assms(2) in simp)

interpretation registry: machine "registry_step req sha" system_ok for req sha
  by unfold_locales (rule step_system_ok)

lemma history_evolves:
  assumes "(registry_step req sha)\<^sup>*\<^sup>* d d'" "system_ok d"
  shows "rows_evolve d d' \<and> sagas_evolve d d'"
proof (rule registry.reachable_rel [OF assms, where R = "\<lambda>d d'. rows_evolve d d' \<and> sagas_evolve d d'"])
  fix x y assume "registry_step req sha x y" "system_ok x"
  then show "rows_evolve x y \<and> sagas_evolve x y"
  proof (cases rule: step_cases)
    case (ran now c)
    with \<open>system_ok x\<close> show ?thesis by (auto simp: system_ok_def intro: run_rows_evolve run_sagas_evolve)
  next
    case same
    then show ?thesis by (simp add: sagas_evolve_same)
  next
    case elsewhere
    then show ?thesis by (simp add: sagas_evolve_same rows_evolve_def get_resource_def)
  qed
qed (auto simp: sagas_evolve_same intro: rows_evolve_trans sagas_evolve_trans)

section \<open>The saga goes through\<close>

lemma asserted_resource_iff:
  assumes "registry_ok d"
  shows "asserted_resource op d = Inr (saga, row) \<longleftrightarrow>
    saga \<in> set (db_provisioning d) \<and> pv_operation saga = op \<and> row \<in> set (db_resources d) \<and> rs_id row = pv_resource saga"
proof -
  have "get_provisioning d op = Some saga \<longleftrightarrow> saga \<in> set (db_provisioning d) \<and> pv_operation saga = op"
    unfolding get_provisioning_def by (rule sql_get_unique_iff [OF registry_okD(2) [OF assms]])
  moreover have "get_resource d (pv_resource saga) = Some row \<longleftrightarrow> row \<in> set (db_resources d) \<and> rs_id row = pv_resource saga"
    by (rule get_resource_iff [OF assms])
  ultimately show ?thesis by (auto simp: asserted_resource_def split: option.splits)
qed

lemma domain_ready_returns:
  assumes ok: "registry_ok d" and a: "asserted_resource op d = Inr (saga, row)"
    and st: "pv_state saga = Pending" and args: "is_identifier op" "receipt \<noteq> []" "utf8_length receipt \<le> 65536"
  shows "record_domain_ready sha now op receipt d
    = (Inr (ready_saga now (sha receipt) saga),
       audit now system_actor ''resource.domain-ready'' (Some (pv_resource saga))
         (saga_move saga (ready_saga now (sha receipt) saga) row row d))"
proof -
  note facts = asserted_resourceD [OF ok a]
  have lc: "rs_lifecycle row = Provisioning" "pv_receipt saga = None" using facts(5) st by (simp_all add: saga_ok_def)
  let ?f = "ready_saga now (sha receipt)"
  let ?Q = "\<lambda>p. pv_operation p = op \<and> pv_revision p = pv_revision saga \<and> pv_state p \<in> {Pending, SagaQuarantined}"
  have up: "update_provisioning ?Q ?f d = (Inr (), saga_move saga (?f saga) row row d)"
    using update_provisioning_hit [where P = ?Q, OF ok refl facts(1)] st facts by (simp add: saga_move_def)
  have "get_provisioning (saga_move saga (?f saga) row row d) op = Some (?f saga)"
    using sql_get_replace [OF registry_okD(2) [OF ok] facts(1), of "?f saga" op] facts(3)
    by (simp add: get_provisioning_def saga_move_def ready_saga_def)
  then have "domain_ready_work sha now op receipt d = (Inr (?f saga),
      audit now system_actor ''resource.domain-ready'' (Some (pv_resource saga)) (saga_move saga (?f saga) row row d))"
    using a st lc up [unfolded ready_saga_def [abs_def]]
    by (simp add: domain_ready_work_def reread_provisioning_def ready_saga_def)
  with args show ?thesis by (simp add: record_domain_ready_def transaction_def)
qed

lemma activate_returns:
  assumes ok: "registry_ok d" and a: "asserted_resource op d = Inr (saga, row)"
    and st: "pv_state saga = DomainReady" "truthy (pv_receipt saga)"
    and args: "is_identifier op" "is_revision n" "rs_revision row = n"
  shows "activate now op n d
    = (Inr (active_row now row), audit now (rs_created_by row) ''resource.activated'' (Some (rs_id row))
         (saga_move saga (saga_to Finalized now saga) row (active_row now row) d))"
proof -
  note facts = asserted_resourceD [OF ok a]
  have lc: "rs_lifecycle row \<in> {Provisioning, Quarantined}" using facts(5) st by (simp add: saga_ok_def)
  let ?P = "\<lambda>r. rs_id r = rs_id row \<and> rs_revision r = n \<and> rs_lifecycle r \<in> {Provisioning, Quarantined}"
  let ?Q = "\<lambda>p. pv_operation p = op \<and> pv_revision p = pv_revision saga \<and> pv_state p = DomainReady"
  have up: "update_resource ?P (active_row now) d = (Inr (), row_move row (active_row now row) d)"
    "update_provisioning ?Q (saga_to Finalized now) (row_move row (active_row now row) d)
      = (Inr (), saga_move saga (saga_to Finalized now saga) row (active_row now row) d)"
    using st args lc facts by (intro update_two_rows [OF ok]; auto)+
  have "activate_work now op n d
    = (Inr (active_row now row), audit now (rs_created_by row) ''resource.activated'' (Some (rs_id row))
         (saga_move saga (saga_to Finalized now saga) row (active_row now row) d))"
    using a st args lc up [unfolded active_row_def [abs_def] saga_to_def [abs_def]]
      reread_resource_eq(1) [OF ok facts(2), of "active_row now row"]
    by (auto simp: activate_work_def active_row_def saga_to_def)
  with args show ?thesis by (simp add: activate_def transaction_def)
qed

lemma begun_asserted:
  assumes ok: "registry_ok d" and run: "begin_provisioning req t i d = (Inr (r, p, False), d1)"
  shows "asserted_resource (bi_operation i) d1 = Inr (p, r)" "pv_state p = Pending" "rs_revision r = 1"
    "rs_id r = bi_resource i" "rs_org r = bi_org i" "rs_space r = bi_space i" "registry_ok d1"
    "is_identifier (bi_operation i)" "is_identifier (bi_resource i)" "is_identifier (bi_org i)" "is_identifier (bi_space i)"
proof -
  show ok1: "registry_ok d1" by (rule begin_ok [OF ok run])
  have v: "valid_begin i" using run by (auto simp: begin_provisioning_def split: if_splits)
  then show "is_identifier (bi_operation i)" "is_identifier (bi_resource i)" "is_identifier (bi_org i)"
    "is_identifier (bi_space i)" by (simp_all add: valid_begin_def)
  from run have new: "r = new_resource t i" "p = new_provisioning t (request_digest req i) i"
    "d1 = audit t (bi_created_by i) ''resource.provisioning-begun'' (Some (bi_resource i))
       (d\<lparr>db_resources := db_resources d @ [r], db_provisioning := db_provisioning d @ [p]\<rparr>)"
    by (auto elim: begin_cases)
  then show "pv_state p = Pending" "rs_revision r = 1" "rs_id r = bi_resource i" "rs_org r = bi_org i" "rs_space r = bi_space i"
    by (simp_all add: new_resource_def new_provisioning_def)
  show "asserted_resource (bi_operation i) d1 = Inr (p, r)"
    unfolding asserted_resource_iff [OF ok1] using new by (simp add: new_resource_def new_provisioning_def)
qed

section \<open>An example history\<close>

definition demo_start :: db where
  "demo_start = demo_db\<lparr>db_resources := [], db_grants := []\<rparr>"

definition demo_begin :: begin_input where
  "demo_begin = \<lparr>bi_operation = ''op'', bi_resource = ''n'', bi_kind = ''session'', bi_org = ''o'', bi_space = ''s'',
     bi_parent = None, bi_access_parent = None, bi_owner = ''ann'', bi_created_by = ''ann'', bi_visibility = Private\<rparr>"

definition demo_begun :: db where
  "demo_begun = snd (run_command (\<lambda>_. ''h'') (\<lambda>x. x) 4 (CBegin demo_begin) demo_start)"

definition demo_aborted :: db where
  "demo_aborted = snd (run_command (\<lambda>_. ''h'') (\<lambda>x. x) 5 (CAbort ''op'' 1) demo_begun)"

lemma demo_start_empty: "db_resources demo_start = []" "db_provisioning demo_start = []" "db_grants demo_start = []"
  by code_simp+

lemma demo_start_ok: "registry_ok demo_start" "grants_ok demo_start"
  by code_simp+

lemma demo_begun_ok: "registry_ok demo_begun" "grants_ok demo_begun"
  by code_simp+

lemma demo_history:
  "(registry_step (\<lambda>_. ''h'') (\<lambda>x. x))\<^sup>*\<^sup>* demo_start demo_begun"
  "(registry_step (\<lambda>_. ''h'') (\<lambda>x. x))\<^sup>*\<^sup>* demo_begun demo_aborted"
  unfolding demo_begun_def demo_aborted_def by (rule r_into_rtranclp, rule registry_step.runs)+

lemma demo_begin_run:
  "begin_provisioning (\<lambda>_. ''h'') 4 demo_begin demo_start
     = (Inr (new_resource 4 demo_begin, new_provisioning 4 ''h'' demo_begin, False), demo_begun)"
  by code_simp

lemma demo_begun_rows:
  "get_resource demo_begun ''n'' = Some (new_resource 4 demo_begin)"
  "get_provisioning demo_begun ''op'' = Some (new_provisioning 4 ''h'' demo_begin)"
  by code_simp+

lemma demo_no_such_operation:
  "fst (run_command (\<lambda>_. ''h'') (\<lambda>x. x) 5 (CActivate ''other'' 1) demo_begun) = Some NotFound"
  by code_simp

section \<open>Properties\<close>

text \<open>
  C2: In every state that any sequence of registry operations reaches from an empty
  registry, identifiers are unique, every saga has its resource in a lifecycle that agrees
  with the saga's state, every provisioning or quarantined resource has its saga, and no
  person is named twice in a people list.
\<close>
theorem registry_invariant:
  assumes "db_resources d0 = []" "db_provisioning d0 = []" "db_grants d0 = []"
    and "(registry_step req sha)\<^sup>*\<^sup>* d0 d"
  shows "registry_ok d \<and> grants_ok d"
proof -
  have "system_ok d0" using assms(1-3) by (simp add: system_ok_def registry_ok_def grants_ok_def)
  with assms(4) have "system_ok d" by (rule registry.reachable_inv)
  then show ?thesis by (simp add: system_ok_def)
qed

theorem registry_invariant_witness: "registry_ok demo_begun \<and> grants_ok demo_begun"
  by (rule registry_invariant [OF demo_start_empty demo_history(1)])

text \<open>
  An operation of the registry that throws, whatever it had written before, leaves the
  database exactly as it was.
\<close>
theorem failed_command_changes_nothing:
  assumes "fst (run_command req sha now c d) = Some e"
  shows "snd (run_command req sha now c d) = d"
  using assms run_command_fails [of req sha now c d e "snd (run_command req sha now c d)"] by (metis prod.collapse)

theorem failed_command_changes_nothing_witness:
  "snd (run_command (\<lambda>_. ''h'') (\<lambda>x. x) 5 (CActivate ''other'' 1) demo_begun) = demo_begun"
  by (rule failed_command_changes_nothing [OF demo_no_such_operation])

text \<open>
  C18: Through any history a row stays in the registry under its identity; an unchanged
  revision means an unchanged row, an unchanged access revision means that its visibility,
  owner and parents are unchanged, a deleted row stays deleted, and the resource a row
  follows is set once.
\<close>
theorem row_history:
  assumes "registry_ok d" "grants_ok d" "(registry_step req sha)\<^sup>*\<^sup>* d d'" "get_resource d i = Some r"
  shows "\<exists>r'. get_resource d' i = Some r' \<and> row_evolves r r'"
  using history_evolves [OF assms(3)] assms(1,2,4) by (auto simp: system_ok_def rows_evolve_def)

theorem row_history_witness:
  "\<exists>r'. get_resource demo_aborted ''n'' = Some r' \<and> row_evolves (new_resource 4 demo_begin) r'"
  by (rule row_history [OF demo_begun_ok demo_history(2) demo_begun_rows(1)])

text \<open>
  Through any history a saga stays the saga of its operation, resource and request; once
  it is finalized or aborted it never changes again, and the receipt of the domain store is
  recorded once.
\<close>
theorem saga_history:
  assumes "registry_ok d" "grants_ok d" "(registry_step req sha)\<^sup>*\<^sup>* d d'" "get_provisioning d op = Some p"
  shows "\<exists>p'. get_provisioning d' op = Some p' \<and> saga_evolves p p'"
  using history_evolves [OF assms(3)] assms(1,2,4) by (auto simp: system_ok_def sagas_evolve_def)

theorem saga_history_witness:
  "\<exists>p'. get_provisioning demo_aborted ''op'' = Some p' \<and> saga_evolves (new_provisioning 4 ''h'' demo_begin) p'"
  by (rule saga_history [OF demo_begun_ok demo_history(2) demo_begun_rows(2)])

text \<open>
  C21: A begun provisioning goes through: the domain receipt is recorded and the resource
  activated at its first revision, after which it is found active in its scope.
\<close>
theorem provisioning_completes:
  assumes ok: "registry_ok d" and run: "begin_provisioning req t i d = (Inr (r, p, False), d1)"
    and args: "receipt \<noteq> []" "utf8_length receipt \<le> 65536" "sha receipt \<noteq> []"
  shows "\<exists>p2 d2 r3 d3. record_domain_ready sha t1 (bi_operation i) receipt d1 = (Inr p2, d2)
    \<and> activate t2 (bi_operation i) 1 d2 = (Inr r3, d3)
    \<and> registry_active (bi_resource i) (bi_org i) (bi_space i) d3 = Inr (Some r3) \<and> registry_ok d3"
proof -
  note b = begun_asserted [OF ok run]
  note facts = asserted_resourceD [OF b(7) b(1)]
  let ?p = "ready_saga t1 (sha receipt) p"
  let ?d = "saga_move p ?p r r d1"
  let ?d2 = "audit t1 system_actor ''resource.domain-ready'' (Some (pv_resource p)) ?d"
  have ready: "record_domain_ready sha t1 (bi_operation i) receipt d1 = (Inr ?p, ?d2)"
    by (rule domain_ready_returns [OF b(7,1,2,8) args(1,2)])
  have ok2: "registry_ok ?d2" by (rule domain_ready_ok [OF b(7) ready])
  have a2: "asserted_resource (bi_operation i) ?d2 = Inr (?p, r)"
    unfolding asserted_resource_iff [OF ok2] using facts
    by (simp add: saga_move_def set_replace_row ready_saga_def)
  let ?r = "active_row t2 r"
  let ?d3 = "audit t2 (rs_created_by r) ''resource.activated'' (Some (rs_id r))
     (saga_move ?p (saga_to Finalized t2 ?p) r ?r ?d2)"
  have act: "activate t2 (bi_operation i) 1 ?d2 = (Inr ?r, ?d3)"
    using args(3) b(3,8) by (intro activate_returns [OF ok2 a2]) (simp_all add: ready_saga_def is_revision_def max_safe_integer_def)
  have ok3: "registry_ok ?d3" by (rule activate_ok [OF ok2 act])
  have "get_resource ?d3 (bi_resource i) = Some ?r"
    using get_resource_move(2) [OF ok2, of r ?r ?p "saga_to Finalized t2 ?p" "bi_resource i"] asserted_resourceD [OF ok2 a2] b(4)
    by simp
  from get_resourceD [OF this] have mem: "?r \<in> set (db_resources ?d3)" by simp
  have "sql_get (\<lambda>r. rs_id r = bi_resource i \<and> rs_org r = bi_org i \<and> rs_space r = bi_space i \<and> rs_lifecycle r = Active)
      (db_resources ?d3) = Some ?r" (is "sql_get ?A _ = _")
  proof (cases "sql_get ?A (db_resources ?d3)")
    case None
    with mem b(4-6) show ?thesis by (auto simp: sql_get_None active_row_def)
  next
    case (Some x)
    from sql_get_SomeD [OF this] mem b(4) have "x = ?r" by (intro same_id_same_row [OF ok3]) (auto simp: active_row_def)
    with Some show ?thesis by simp
  qed
  with b(9-11) have "registry_active (bi_resource i) (bi_org i) (bi_space i) ?d3 = Inr (Some ?r)"
    by (simp add: registry_active_def)
  with ready act ok3 show ?thesis by blast
qed

theorem provisioning_completes_witness:
  "\<exists>p2 d2 r3 d3. record_domain_ready (\<lambda>x. x) 5 (bi_operation demo_begin) ''stored'' demo_begun = (Inr p2, d2)
    \<and> activate 6 (bi_operation demo_begin) 1 d2 = (Inr r3, d3)
    \<and> registry_active (bi_resource demo_begin) (bi_org demo_begin) (bi_space demo_begin) d3 = Inr (Some r3)
    \<and> registry_ok d3"
  by (rule provisioning_completes [OF demo_start_ok(1) demo_begin_run]) (simp_all add: utf8_length_def)

end
