(* ===== verification/Outbox.thy ===== *)
theory Outbox
  imports ControlPlane
begin

text \<open>
  The delivery of audit events, packages/control-plane/src/outbox.ts: a lease on the first
  undelivered row, the call of the consumer, and the transaction that acknowledges the row
  or schedules another attempt. The token \<open>lease\<close> stands for \<open>randomUUID()\<close>; \<open>deliver\<close> is
  the consumer, true when it returns and false when it throws.
\<close>

section \<open>Definitions\<close>

datatype delivery = Idle | Waiting | Delivered | Retry | Blocked | LeaseLost

record outbox_limits =
  ol_lease_ms :: int
  ol_max_attempts :: nat

definition outbox_limits_ok :: "int \<Rightarrow> int \<Rightarrow> control_error + outbox_limits" where
  "outbox_limits_ok lease_ms max_attempts =
     (if lease_ms < 1 \<or> lease_ms > max_safe_integer \<or> max_attempts < 1 \<or> max_attempts > max_safe_integer
      then Inl InvalidInput
      else Inr \<lparr>ol_lease_ms = lease_ms, ol_max_attempts = nat max_attempts\<rparr>)"

definition pending_rows :: "db \<Rightarrow> outbox_row list" where
  "pending_rows d = sort_key ob_id (filter (\<lambda>r. ob_delivered r = None) (db_outbox d))"

definition lease_live :: "int \<Rightarrow> outbox_row \<Rightarrow> bool" where
  "lease_live now r \<longleftrightarrow> truthy (ob_lease r) \<and> nullish (ob_lease_expires r) 0 > now"

definition update_outbox :: "(outbox_row \<Rightarrow> bool) \<Rightarrow> (outbox_row \<Rightarrow> outbox_row) \<Rightarrow> db \<Rightarrow> db" where
  "update_outbox P f d = d\<lparr>db_outbox := sql_update P f (db_outbox d)\<rparr>"

definition leased_row :: "outbox_limits \<Rightarrow> int \<Rightarrow> string \<Rightarrow> outbox_row \<Rightarrow> outbox_row" where
  "leased_row lim now lease r = r\<lparr>ob_lease := Some lease, ob_lease_expires := Some (now + ol_lease_ms lim),
     ob_attempts := ob_attempts r + 1\<rparr>"

text \<open>The first transaction: a result without a delivery, or the row as it was claimed.\<close>

definition claim :: "outbox_limits \<Rightarrow> int \<Rightarrow> string \<Rightarrow> db \<Rightarrow> (delivery + outbox_row) \<times> db" where
  "claim lim now lease d =
     (case pending_rows d of
        [] \<Rightarrow> (Inl Idle, d)
      | row # _ \<Rightarrow>
          if lease_live now row then (Inl Waiting, d)
          else if ob_attempts row \<ge> ol_max_attempts lim then (Inl Blocked, d)
          else if ob_next_attempt row > now then (Inl Waiting, d)
          else (Inr row, update_outbox (\<lambda>r. ob_id r = ob_id row) (leased_row lim now lease) d))"

record outbox_event =
  ev_id :: int
  ev_seq :: int
  ev_actor :: string
  ev_action :: string
  ev_resource :: "string option"
  ev_time :: int
  ev_epoch :: int

definition event_of :: "db \<Rightarrow> int \<Rightarrow> outbox_event option" where
  "event_of d i =
     (case sql_get (\<lambda>r. ob_id r = i) (db_outbox d) of
        None \<Rightarrow> None
      | Some r \<Rightarrow>
          map_option (\<lambda>a. \<lparr>ev_id = ob_id r, ev_seq = au_seq a, ev_actor = au_actor a, ev_action = au_action a,
                           ev_resource = au_resource a, ev_time = au_time a, ev_epoch = au_epoch a\<rparr>)
            (sql_get (\<lambda>a. au_seq a = ob_audit_seq r) (db_audit d)))"

definition held :: "int \<Rightarrow> string \<Rightarrow> outbox_row \<Rightarrow> bool" where
  "held i lease r \<longleftrightarrow> ob_id r = i \<and> ob_lease r = Some lease \<and> ob_delivered r = None"

definition delivered_row :: "int \<Rightarrow> outbox_row \<Rightarrow> outbox_row" where
  "delivered_row now r = r\<lparr>ob_delivered := Some now, ob_lease := None, ob_lease_expires := None, ob_error := False\<rparr>"

definition acknowledge :: "int \<Rightarrow> string \<Rightarrow> outbox_row \<Rightarrow> db \<Rightarrow> delivery \<times> db" where
  "acknowledge now lease claimed d =
     (if sql_changes (held (ob_id claimed) lease) (db_outbox d) = 1 then Delivered else LeaseLost,
      update_outbox (held (ob_id claimed) lease) (delivered_row now) d)"

definition retry_delay :: "nat \<Rightarrow> int" where
  "retry_delay attempts = min 60000 (1000 * 2 ^ min attempts 6)"

definition failed_row :: "int \<Rightarrow> nat \<Rightarrow> outbox_row \<Rightarrow> outbox_row" where
  "failed_row now attempts r = r\<lparr>ob_lease := None, ob_lease_expires := None,
     ob_next_attempt := now + retry_delay attempts, ob_error := True\<rparr>"

definition give_back :: "outbox_limits \<Rightarrow> int \<Rightarrow> string \<Rightarrow> outbox_row \<Rightarrow> db \<Rightarrow> delivery \<times> db" where
  "give_back lim now lease claimed d =
     (if sql_changes (held (ob_id claimed) lease) (db_outbox d) \<noteq> 1 then LeaseLost
      else if ob_attempts claimed + 1 \<ge> ol_max_attempts lim then Blocked else Retry,
      update_outbox (held (ob_id claimed) lease) (failed_row now (ob_attempts claimed)) d)"

text \<open>
  One call: \<open>now\<close> is the clock of the claim and \<open>later\<close> that of the second transaction;
  \<open>meanwhile\<close> is what other work did to the database while the consumer ran.
\<close>

definition deliver_next :: "outbox_limits \<Rightarrow> int \<Rightarrow> int \<Rightarrow> string \<Rightarrow> (db \<Rightarrow> db) \<Rightarrow> (outbox_event \<Rightarrow> bool)
    \<Rightarrow> db \<Rightarrow> delivery \<times> db" where
  "deliver_next lim now later lease meanwhile deliver d =
     (case claim lim now lease d of
        (Inl result, d1) \<Rightarrow> (result, d1)
      | (Inr claimed, d1) \<Rightarrow>
          (case event_of d1 (ob_id claimed) of
             None \<Rightarrow> give_back lim later lease claimed d1
           | Some event \<Rightarrow>
               if deliver event then acknowledge later lease claimed (meanwhile d1)
               else give_back lim later lease claimed (meanwhile d1)))"

record outbox_status =
  os_pending :: nat
  os_blocked :: nat
  os_oldest :: "int option"

definition event_time :: "db \<Rightarrow> outbox_row \<Rightarrow> int option" where
  "event_time d r = map_option au_time (sql_get (\<lambda>a. au_seq a = ob_audit_seq r) (db_audit d))"

definition outbox_status_of :: "outbox_limits \<Rightarrow> int \<Rightarrow> db \<Rightarrow> outbox_status" where
  "outbox_status_of lim now d =
     (let rows = filter (\<lambda>r. ob_delivered r = None \<and> event_time d r \<noteq> None) (db_outbox d) in
      \<lparr>os_pending = length rows,
       os_blocked = length (filter (\<lambda>r. ob_attempts r \<ge> ol_max_attempts lim
          \<and> (ob_lease r = None \<or> (case ob_lease_expires r of None \<Rightarrow> False | Some e \<Rightarrow> e \<le> now))) rows),
       os_oldest = (case map (\<lambda>r. the (event_time d r)) rows of [] \<Rightarrow> None | t # ts \<Rightarrow> Some (fold min ts t))\<rparr>)"

definition retryable :: "outbox_limits \<Rightarrow> int \<Rightarrow> int \<Rightarrow> outbox_row \<Rightarrow> bool" where
  "retryable lim now i r \<longleftrightarrow> ob_id r = i \<and> ob_delivered r = None \<and> ob_attempts r \<ge> ol_max_attempts lim
     \<and> (case ob_lease_expires r of None \<Rightarrow> True | Some e \<Rightarrow> e \<le> now)"

text \<open>\<open>shown\<close> is \<open>String(id)\<close>.\<close>

definition retry_blocked :: "outbox_limits \<Rightarrow> int \<Rightarrow> (int \<Rightarrow> string) \<Rightarrow> int \<Rightarrow> string \<Rightarrow> db
    \<Rightarrow> (control_error + bool) \<times> db" where
  "retry_blocked lim now shown i actor d =
     (if i < 1 \<or> i > max_safe_integer \<or> actor = [] then (Inl InvalidInput, d)
      else
        (let d1 = update_outbox (retryable lim now i)
                    (\<lambda>r. r\<lparr>ob_attempts := 0, ob_next_attempt := 0, ob_lease := None, ob_lease_expires := None\<rparr>) d
         in if sql_changes (retryable lim now i) (db_outbox d) \<noteq> 1 then (Inr False, d1)
            else (Inr True, audit now actor ''outbox.retry'' (Some (shown i)) d1)))"

section \<open>The undelivered rows\<close>

lemma sort_key_map_same:
  assumes "\<And>x. k (g x) = k x"
  shows "sort_key k (map g xs) = map g (sort_key k xs)"
proof (induction xs)
  case (Cons x xs)
  have "insort_key k (g x) (map g ys) = map g (insort_key k x ys)" for ys
    by (induction ys) (simp_all add: assms)
  with Cons show ?case by simp
qed simp

lemma pending_update:
  assumes "\<And>r. ob_id (f r) = ob_id r" "\<And>r. P r \<Longrightarrow> (ob_delivered (f r) = None) = (ob_delivered r = None)"
  shows "pending_rows (update_outbox P f d) = map (\<lambda>r. if P r then f r else r) (pending_rows d)"
proof -
  let ?g = "\<lambda>r. if P r then f r else r"
  have "(\<lambda>r. ob_delivered r = None) \<circ> ?g = (\<lambda>r. ob_delivered r = None)"
    using assms(2) by (simp add: fun_eq_iff)
  then have "filter (\<lambda>r. ob_delivered r = None) (map ?g xs) = map ?g (filter (\<lambda>r. ob_delivered r = None) xs)" for xs
    by (simp add: filter_map)
  then show ?thesis
    using sort_key_map_same [of ob_id ?g] assms(1)
    by (simp add: pending_rows_def update_outbox_def sql_update_def)
qed

lemma pending_delivered:
  assumes "\<And>r. P r \<Longrightarrow> ob_delivered r = None" "\<And>r. ob_delivered (f r) \<noteq> None"
  shows "pending_rows (update_outbox P f d) = filter (\<lambda>r. \<not> P r) (pending_rows d)"
proof -
  have "filter (\<lambda>r. ob_delivered r = None) (map (\<lambda>r. if P r then f r else r) xs)
      = filter (\<lambda>r. \<not> P r) (filter (\<lambda>r. ob_delivered r = None) xs)" for xs
    using assms by (induction xs) auto
  then show ?thesis by (simp add: pending_rows_def update_outbox_def sql_update_def filter_sort)
qed

lemma pending_set: "r \<in> set (pending_rows d) \<longleftrightarrow> r \<in> set (db_outbox d) \<and> ob_delivered r = None"
  by (simp add: pending_rows_def)

lemma pending_head_least:
  assumes "pending_rows d = row # rest" "r \<in> set (db_outbox d)" "ob_id r < ob_id row"
  shows "ob_delivered r \<noteq> None"
proof
  assume "ob_delivered r = None"
  with assms(1,2) have "r \<in> set (row # rest)" using pending_set [of r d] by simp
  moreover have "sorted (map ob_id (row # rest))"
    using sorted_sort_key [of ob_id] assms(1) unfolding pending_rows_def by metis
  ultimately show False using assms(3) by auto
qed

section \<open>The invariant\<close>

text \<open>
  Identifiers are unique and below the next one, and a row that is delivered or leased has
  every earlier row delivered before it.
\<close>

definition settled_before :: "db \<Rightarrow> int \<Rightarrow> bool" where
  "settled_before d i \<longleftrightarrow> (\<forall>s \<in> set (db_outbox d). ob_id s < i \<longrightarrow> ob_delivered s \<noteq> None)"

definition outbox_ok :: "db \<Rightarrow> bool" where
  "outbox_ok d \<longleftrightarrow>
     distinct (map ob_id (db_outbox d))
     \<and> (\<forall>r \<in> set (db_outbox d). ob_id r < db_next_outbox d)
     \<and> (\<forall>r \<in> set (db_outbox d). ob_delivered r \<noteq> None \<or> ob_lease r \<noteq> None \<longrightarrow> settled_before d (ob_id r))"

lemma outbox_ok_same:
  "outbox_ok d \<Longrightarrow> r \<in> set (db_outbox d) \<Longrightarrow> s \<in> set (db_outbox d) \<Longrightarrow> ob_id r = ob_id s \<Longrightarrow> r = s"
  by (auto simp: outbox_ok_def distinct_map dest: inj_onD)

lemma audit_outbox_ok [machine_intros]:
  assumes "outbox_ok d" shows "outbox_ok (audit now a b c d)"
proof -
  let ?n = "db_next_outbox d"
  obtain row where row: "db_outbox (audit now a b c d) = db_outbox d @ [row]" "ob_id row = ?n"
      "ob_delivered row = None" "ob_lease row = None" "db_next_outbox (audit now a b c d) = ?n + 1"
    by (simp add: audit_def Let_def)
  have "settled_before (audit now a b c d) i = settled_before d i" if "i < ?n" for i
    using row that by (auto simp: settled_before_def)
  moreover have "ob_id r < ?n" if "r \<in> set (db_outbox d)" for r using assms that by (simp add: outbox_ok_def)
  ultimately show ?thesis using assms row by (fastforce simp: outbox_ok_def)
qed

text \<open>
  An update that keeps identifiers keeps the invariant when it never undoes a delivery and
  leases or delivers only rows that have everything before them delivered.
\<close>

lemma update_outbox_ok:
  assumes ok: "outbox_ok d" and ids: "\<And>r. ob_id (f r) = ob_id r"
    and keep: "\<And>r. P r \<Longrightarrow> ob_delivered r \<noteq> None \<Longrightarrow> ob_delivered (f r) \<noteq> None"
    and new: "\<And>r. r \<in> set (db_outbox d) \<Longrightarrow> P r \<Longrightarrow> ob_delivered (f r) \<noteq> None \<or> ob_lease (f r) \<noteq> None
       \<Longrightarrow> settled_before d (ob_id r)"
  shows "outbox_ok (update_outbox P f d)"
proof -
  let ?g = "\<lambda>r. if P r then f r else r"
  have rows: "db_outbox (update_outbox P f d) = map ?g (db_outbox d)"
    "db_next_outbox (update_outbox P f d) = db_next_outbox d"
    by (simp_all add: update_outbox_def sql_update_def)
  have mono: "settled_before (update_outbox P f d) i" if "settled_before d i" for i
    using that keep ids by (auto simp: settled_before_def rows)
  have "ob_id \<circ> ?g = ob_id" using ids by (simp add: fun_eq_iff)
  then have "distinct (map ob_id (map ?g (db_outbox d)))" using ok by (simp add: outbox_ok_def)
  moreover have "settled_before (update_outbox P f d) (ob_id (?g r)) \<and> ob_id (?g r) = ob_id r"
    if "r \<in> set (db_outbox d)" "ob_delivered (?g r) \<noteq> None \<or> ob_lease (?g r) \<noteq> None" for r
    using that new [of r] ok ids mono by (auto simp: outbox_ok_def split: if_splits)
  moreover have "ob_id (?g r) < db_next_outbox d" if "r \<in> set (db_outbox d)" for r
    using that ok ids by (simp add: outbox_ok_def)
  ultimately show ?thesis unfolding outbox_ok_def rows set_map by blast
qed

lemma claim_ok [machine_intros]:
  assumes ok: "outbox_ok d" shows "outbox_ok (snd (claim lim now lease d))"
proof (cases "pending_rows d")
  case (Cons row rest)
  have "outbox_ok (update_outbox (\<lambda>r. ob_id r = ob_id row) (leased_row lim now lease) d)"
  proof (rule update_outbox_ok [OF ok])
    fix r :: outbox_row assume "ob_id r = ob_id row"
    then show "settled_before d (ob_id r)"
      using pending_head_least [OF Cons] by (auto simp: settled_before_def)
  qed (simp_all add: leased_row_def)
  with Cons ok show ?thesis by (simp add: claim_def)
qed (use ok in \<open>simp add: claim_def\<close>)

lemma acknowledge_ok [machine_intros]:
  assumes ok: "outbox_ok d" shows "outbox_ok (snd (acknowledge now lease claimed d))"
proof -
  have "outbox_ok (update_outbox (held (ob_id claimed) lease) (delivered_row now) d)"
    using ok by (intro update_outbox_ok) (auto simp: delivered_row_def held_def outbox_ok_def)
  then show ?thesis by (simp add: acknowledge_def)
qed

lemma give_back_ok [machine_intros]:
  assumes ok: "outbox_ok d" shows "outbox_ok (snd (give_back lim now lease claimed d))"
proof -
  have "outbox_ok (update_outbox (held (ob_id claimed) lease) (failed_row now (ob_attempts claimed)) d)"
    using ok by (intro update_outbox_ok) (auto simp: failed_row_def held_def outbox_ok_def)
  then show ?thesis by (simp add: give_back_def)
qed

lemma retry_blocked_ok [machine_intros]:
  assumes ok: "outbox_ok d" shows "outbox_ok (snd (retry_blocked lim now shown i actor d))"
proof -
  have "outbox_ok (update_outbox (retryable lim now i)
      (\<lambda>r. r\<lparr>ob_attempts := 0, ob_next_attempt := 0, ob_lease := None, ob_lease_expires := None\<rparr>) d)"
    using ok by (intro update_outbox_ok) (auto simp: retryable_def outbox_ok_def)
  then show ?thesis using ok by (auto simp: retry_blocked_def Let_def intro: audit_outbox_ok)
qed

section \<open>Any number of workers\<close>

text \<open>
  Every transaction that touches the outbox, by any worker: a claim, its acknowledgement or
  failure at any later time (or never), an operator's retry, and new audit events.
\<close>

inductive outbox_step :: "outbox_limits \<Rightarrow> db \<Rightarrow> db \<Rightarrow> bool" for lim where
  appends: "outbox_step lim d (audit now actor action resource d)"
| claims: "outbox_step lim d (snd (claim lim now lease d))"
| acknowledges: "outbox_step lim d (snd (acknowledge now lease claimed d))"
| gives_back: "outbox_step lim d (snd (give_back lim now lease claimed d))"
| retries: "outbox_step lim d (snd (retry_blocked lim now shown i actor d))"

interpretation outbox: machine "outbox_step lim" outbox_ok for lim
proof
  fix s t assume "outbox_step lim s t" "outbox_ok s"
  then show "outbox_ok t" by cases (auto intro: machine_intros)
qed

section \<open>One delivery\<close>

lemma head_only:
  assumes "outbox_ok d" "pending_rows d = row # rest"
  shows "row \<in> set (db_outbox d)" "ob_delivered row = None" "\<And>r. r \<in> set rest \<Longrightarrow> ob_id r \<noteq> ob_id row"
    "sql_changes (\<lambda>r. ob_id r = ob_id row) (db_outbox d) = 1"
proof -
  show row: "row \<in> set (db_outbox d)" "ob_delivered row = None" using assms(2) pending_set [of row d] by auto
  have "distinct (map ob_id (pending_rows d))"
    using assms(1) by (simp add: pending_rows_def outbox_ok_def distinct_map distinct_map_filter inj_on_def)
  with assms(2) have "ob_id row \<notin> ob_id ` set rest" by simp
  then show "\<And>r. r \<in> set rest \<Longrightarrow> ob_id r \<noteq> ob_id row" by (metis imageI)
  show "sql_changes (\<lambda>r. ob_id r = ob_id row) (db_outbox d) = 1"
    using assms(1) row by (intro sql_changes_one [where key = ob_id]) (auto simp: outbox_ok_def)
qed

lemma claim_Inr:
  assumes ok: "outbox_ok d" and run: "claim lim now lease d = (Inr row, d1)"
  obtains rest where "pending_rows d = row # rest" "pending_rows d1 = leased_row lim now lease row # rest"
    "\<not> lease_live now row" "ob_attempts row < ol_max_attempts lim" "ob_next_attempt row \<le> now"
    "d1 = update_outbox (\<lambda>r. ob_id r = ob_id row) (leased_row lim now lease) d"
    "leased_row lim now lease row \<in> set (db_outbox d1)"
proof -
  obtain rest where p: "pending_rows d = row # rest"
    and g: "\<not> lease_live now row" "ob_attempts row < ol_max_attempts lim" "ob_next_attempt row \<le> now"
      "d1 = update_outbox (\<lambda>r. ob_id r = ob_id row) (leased_row lim now lease) d"
    using run by (auto simp: claim_def split: list.splits if_splits)
  have "pending_rows d1 = leased_row lim now lease row # rest"
    using head_only(3) [OF ok p] p by (simp add: g(4) pending_update leased_row_def map_idI)
  with p g that pending_set [of "leased_row lim now lease row" d1] show ?thesis by simp
qed

lemma event_of_id: "event_of d i = Some e \<Longrightarrow> ev_id e = i"
  by (auto simp: event_of_def split: option.splits dest!: sql_get_SomeD)

lemma event_of_update:
  assumes "\<And>r. ob_id (f r) = ob_id r" "\<And>r. ob_audit_seq (f r) = ob_audit_seq r"
  shows "event_of (update_outbox P f d) i = event_of d i"
proof -
  have "sql_get (\<lambda>r. ob_id r = i) (db_outbox (update_outbox P f d))
      = map_option (\<lambda>r. if P r then f r else r) (sql_get (\<lambda>r. ob_id r = i) (db_outbox d))"
    using sql_get_update [of ob_id f i P "db_outbox d"] assms(1) by (simp add: update_outbox_def)
  moreover have "db_audit (update_outbox P f d) = db_audit d" by (simp add: update_outbox_def)
  ultimately show ?thesis using assms by (cases "sql_get (\<lambda>r. ob_id r = i) (db_outbox d)") (simp_all add: event_of_def)
qed

section \<open>An outbox of two events\<close>

definition fresh_db :: db where
  "fresh_db = \<lparr>db_resources = [], db_provisioning = [], db_grants = [], db_policies = [], db_members = [],
     db_principals = [], db_spaces = [], db_audit = [], db_outbox = [], db_receipts = [], db_epoch = 1, db_next_seq = 1,
     db_next_outbox = 1\<rparr>"

definition demo_limits :: outbox_limits where
  "demo_limits = \<lparr>ol_lease_ms = 30000, ol_max_attempts = 2\<rparr>"

definition two_events :: db where
  "two_events = audit 2 ''bob'' ''y'' None (audit 1 ''ann'' ''x'' None fresh_db)"

definition demo_pending :: "int \<Rightarrow> outbox_row" where
  "demo_pending i = \<lparr>ob_id = i, ob_audit_seq = i, ob_delivered = None, ob_attempts = 0, ob_next_attempt = 0,
     ob_lease = None, ob_lease_expires = None, ob_error = False\<rparr>"

definition claimed_db :: db where
  "claimed_db = snd (claim demo_limits 3 ''t'' two_events)"

definition one_delivered :: db where
  "one_delivered = snd (acknowledge 4 ''t'' (demo_pending 1) claimed_db)"

definition both_delivered :: db where
  "both_delivered = snd (acknowledge 6 ''u'' (demo_pending 2) (snd (claim demo_limits 5 ''u'' one_delivered)))"

lemma two_events_ok: "outbox_ok two_events"
  unfolding two_events_def by (intro audit_outbox_ok) code_simp

lemma both_delivered_reached: "(outbox_step demo_limits)\<^sup>*\<^sup>* fresh_db both_delivered"
proof -
  let ?s = "outbox_step demo_limits" and ?d = "audit 1 ''ann'' ''x'' None fresh_db"
  have "?s fresh_db ?d" "?s ?d two_events" unfolding two_events_def by (rule outbox_step.appends)+
  moreover have "?s two_events claimed_db" unfolding claimed_db_def by (rule outbox_step.claims)
  moreover have "?s claimed_db one_delivered" unfolding one_delivered_def by (rule outbox_step.acknowledges)
  moreover have "?s one_delivered (snd (claim demo_limits 5 ''u'' one_delivered))" by (rule outbox_step.claims)
  moreover have "?s (snd (claim demo_limits 5 ''u'' one_delivered)) both_delivered"
    unfolding both_delivered_def by (rule outbox_step.acknowledges)
  ultimately show ?thesis by (meson converse_rtranclp_into_rtranclp rtranclp.rtrancl_refl)
qed

lemma both_delivered_rows:
  "db_outbox both_delivered = [(demo_pending 1)\<lparr>ob_delivered := Some 4, ob_attempts := 1\<rparr>,
     (demo_pending 2)\<lparr>ob_delivered := Some 6, ob_attempts := 1\<rparr>]"
  by code_simp

lemma demo_claim: "claim demo_limits 3 ''t'' two_events = (Inr (demo_pending 1), claimed_db)"
  "''t'' \<noteq> []" "(30002::int) < 3 + ol_lease_ms demo_limits"
  by code_simp+

lemma demo_due: "pending_rows two_events = demo_pending 1 # [demo_pending 2]"
  "\<not> lease_live 3 (demo_pending 1)" "ob_attempts (demo_pending 1) < ol_max_attempts demo_limits"
  "ob_next_attempt (demo_pending 1) \<le> 3"
  by code_simp+

lemma demo_event: "event_of two_events (ob_id (demo_pending 1)) = Some \<lparr>ev_id = 1, ev_seq = 1, ev_actor = ''ann'',
     ev_action = ''x'', ev_resource = None, ev_time = 1, ev_epoch = 1\<rparr>"
  by code_simp

section \<open>Properties\<close>

text \<open>
  C19: Whatever claims, acknowledgements, failures, crashes and retries any number of workers
  interleave, the events that are delivered are always the oldest ones: no event is
  delivered before an older one.
\<close>
theorem delivered_in_order:
  assumes "db_outbox d0 = []" "(outbox_step lim)\<^sup>*\<^sup>* d0 d"
    and "r \<in> set (db_outbox d)" "ob_delivered r \<noteq> None"
    and "s \<in> set (db_outbox d)" "ob_id s < ob_id r"
  shows "ob_delivered s \<noteq> None"
proof -
  have "outbox_ok d0" using assms(1) by (simp add: outbox_ok_def)
  with assms(2) have "outbox_ok d" by (rule outbox.reachable_inv)
  with assms(3,4) have "settled_before d (ob_id r)" unfolding outbox_ok_def by blast
  with assms(5,6) show ?thesis unfolding settled_before_def by blast
qed

theorem delivered_in_order_witness:
  "ob_delivered ((demo_pending 1)\<lparr>ob_delivered := Some 4, ob_attempts := 1\<rparr>) \<noteq> None"
proof (rule delivered_in_order [OF _ both_delivered_reached,
      where r = "(demo_pending 2)\<lparr>ob_delivered := Some 6, ob_attempts := 1\<rparr>"])
  show "db_outbox fresh_db = []" by (simp add: fresh_db_def)
qed (simp_all add: both_delivered_rows, simp_all add: demo_pending_def)

text \<open>
  While a lease runs nobody else gets the event or any later one: a claim before the
  lease expires, whoever makes it, waits and changes nothing.
\<close>
theorem lease_excludes:
  assumes "outbox_ok d" "claim lim now lease d = (Inr row, d1)" "lease \<noteq> []"
    and "t < now + ol_lease_ms lim"
  shows "claim lim t other d1 = (Inl Waiting, d1)"
  using assms(1,2)
proof (cases rule: claim_Inr)
  case (1 rest)
  with assms(3,4) show ?thesis by (simp add: claim_def lease_live_def leased_row_def)
qed

theorem lease_excludes_witness: "claim demo_limits 30002 ''u'' claimed_db = (Inl Waiting, claimed_db)"
  by (rule lease_excludes [OF two_events_ok demo_claim])

text \<open>
  A delivery that the consumer accepts takes exactly the oldest pending event out of
  the pending ones, and hands the consumer that event.
\<close>
theorem delivery_takes_oldest:
  assumes ok: "outbox_ok d" and head: "pending_rows d = row # rest"
    and due: "\<not> lease_live now row" "ob_attempts row < ol_max_attempts lim" "ob_next_attempt row \<le> now"
    and event: "event_of d (ob_id row) = Some e" and accepts: "deliver e"
  shows "fst (deliver_next lim now later lease (\<lambda>d. d) deliver d) = Delivered
    \<and> pending_rows (snd (deliver_next lim now later lease (\<lambda>d. d) deliver d)) = rest
    \<and> ev_id e = ob_id row"
proof -
  let ?l = "leased_row lim now lease"
  let ?d1 = "update_outbox (\<lambda>r. ob_id r = ob_id row) ?l d"
  have run: "claim lim now lease d = (Inr row, ?d1)" using head due by (simp add: claim_def)
  from claim_Inr [OF ok run] have p1: "pending_rows ?d1 = ?l row # rest"
    and mem: "?l row \<in> set (db_outbox ?d1)" using head by auto
  have ok1: "outbox_ok ?d1" using claim_ok [OF ok, of lim now lease] run by simp
  have ev: "event_of ?d1 (ob_id row) = Some e" "ev_id e = ob_id row"
    using event event_of_id [OF event] by (simp_all add: event_of_update leased_row_def)
  have held: "held (ob_id row) lease (?l row)" using head_only(2) [OF ok head] by (simp add: held_def leased_row_def)
  have "sql_changes (held (ob_id row) lease) (db_outbox ?d1) = 1"
    using mem held ok1 by (intro sql_changes_one [where key = ob_id and r = "?l row"])
      (auto simp: outbox_ok_def held_def leased_row_def)
  moreover have "pending_rows (update_outbox (held (ob_id row) lease) (delivered_row later) ?d1) = rest"
  proof -
    have "filter (\<lambda>r. \<not> held (ob_id row) lease r) (?l row # rest) = rest"
      using held head_only(3) [OF ok head] by (simp add: filter_id_conv) (auto simp: held_def)
    then show ?thesis
      by (subst pending_delivered) (simp_all add: held_def delivered_row_def p1)
  qed
  ultimately show ?thesis using ev accepts by (simp add: deliver_next_def run acknowledge_def)
qed

theorem delivery_takes_oldest_witness:
  "fst (deliver_next demo_limits 3 4 ''t'' (\<lambda>d. d) (\<lambda>e. ev_id e = 1) two_events) = Delivered
    \<and> pending_rows (snd (deliver_next demo_limits 3 4 ''t'' (\<lambda>d. d) (\<lambda>e. ev_id e = 1) two_events)) = [demo_pending 2]"
  using delivery_takes_oldest [OF two_events_ok demo_due demo_event, of "\<lambda>e. ev_id e = 1" 4 "''t''"] by simp

text \<open>
  A delivery that the consumer refuses loses nothing: the same events stay pending in
  the same order, the oldest is due again one to sixty seconds later, and the answer says
  whether its attempts are used up.
\<close>
theorem refusal_keeps_event:
  assumes ok: "outbox_ok d" and head: "pending_rows d = row # rest"
    and due: "\<not> lease_live now row" "ob_attempts row < ol_max_attempts lim" "ob_next_attempt row \<le> now"
    and refuses: "\<And>e. \<not> deliver e"
  shows "\<exists>row'. deliver_next lim now later lease (\<lambda>d. d) deliver d
      = (if ob_attempts row' \<ge> ol_max_attempts lim then Blocked else Retry,
         snd (deliver_next lim now later lease (\<lambda>d. d) deliver d))
    \<and> pending_rows (snd (deliver_next lim now later lease (\<lambda>d. d) deliver d)) = row' # rest
    \<and> ob_id row' = ob_id row \<and> ob_lease row' = None \<and> ob_attempts row' = ob_attempts row + 1
    \<and> later + 1000 \<le> ob_next_attempt row' \<and> ob_next_attempt row' \<le> later + 60000"
proof -
  let ?l = "leased_row lim now lease" and ?f = "failed_row later (ob_attempts row)"
  let ?d1 = "update_outbox (\<lambda>r. ob_id r = ob_id row) ?l d"
  have run: "claim lim now lease d = (Inr row, ?d1)" using head due by (simp add: claim_def)
  from claim_Inr [OF ok run] have p1: "pending_rows ?d1 = ?l row # rest"
    and mem: "?l row \<in> set (db_outbox ?d1)" using head by auto
  have ok1: "outbox_ok ?d1" using claim_ok [OF ok, of lim now lease] run by simp
  have held: "held (ob_id row) lease (?l row)" using head_only(2) [OF ok head] by (simp add: held_def leased_row_def)
  have one: "sql_changes (held (ob_id row) lease) (db_outbox ?d1) = 1"
    using mem held ok1 by (intro sql_changes_one [where key = ob_id and r = "?l row"])
      (auto simp: outbox_ok_def held_def leased_row_def)
  have eq: "deliver_next lim now later lease (\<lambda>d. d) deliver d = give_back lim later lease row ?d1"
    using refuses by (simp add: deliver_next_def run split: option.split)
  have p2: "pending_rows (update_outbox (held (ob_id row) lease) ?f ?d1) = ?f (?l row) # rest"
    using head_only(3) [OF ok head] held
    by (subst pending_update) (auto simp: failed_row_def p1 held_def map_idI)
  have "1000 \<le> retry_delay n \<and> retry_delay n \<le> 60000" for n
    by (auto simp: retry_delay_def)
  with eq one p2 show ?thesis
    by (intro exI [of _ "?f (?l row)"]) (simp add: give_back_def failed_row_def leased_row_def)
qed

theorem refusal_keeps_event_witness:
  "\<exists>row'. deliver_next demo_limits 3 4 ''t'' (\<lambda>d. d) (\<lambda>_. False) two_events
      = (if ob_attempts row' \<ge> ol_max_attempts demo_limits then Blocked else Retry,
         snd (deliver_next demo_limits 3 4 ''t'' (\<lambda>d. d) (\<lambda>_. False) two_events))
    \<and> pending_rows (snd (deliver_next demo_limits 3 4 ''t'' (\<lambda>d. d) (\<lambda>_. False) two_events)) = row' # [demo_pending 2]
    \<and> ob_id row' = ob_id (demo_pending 1)"
  using refusal_keeps_event [OF two_events_ok demo_due, of "\<lambda>_. False" 4 "''t''"] by blast

end
