(* ===== verification/Operations.thy ===== *)
theory Operations
  imports ControlPlane "HOL-Library.Multiset"
begin

text \<open>
  Operations that run once, packages/control-plane/src/operations.ts: the canonical text of
  a request, the narrow receipt of a mutation, and the transaction that authorizes, looks
  for the receipt of an earlier run, and otherwise mutates and stores one. \<open>hash\<close> is
  \<open>digest\<close>; \<open>authorize\<close> and \<open>mutate\<close> are the caller's synchronous callbacks.
\<close>

section \<open>The canonical text of a request\<close>

definition hex_char :: "nat \<Rightarrow> char" where
  "hex_char n = (if n < 10 then digit_char n else char_of ((87 :: nat) + n))"

definition escape_char :: "char \<Rightarrow> string" where
  "escape_char c =
     (let n = of_char c :: nat in
      if n = 34 then [CHR 0x5C, CHR 0x22]
      else if n = 92 then [CHR 0x5C, CHR 0x5C]
      else if n = 8 then [CHR 0x5C, CHR ''b'']
      else if n = 9 then [CHR 0x5C, CHR ''t'']
      else if n = 10 then [CHR 0x5C, CHR ''n'']
      else if n = 12 then [CHR 0x5C, CHR ''f'']
      else if n = 13 then [CHR 0x5C, CHR ''r'']
      else if n < 32 then CHR 0x5C # ''u00'' @ [hex_char (n div 16), hex_char (n mod 16)]
      else [c])"

definition quoted :: "string \<Rightarrow> string" where
  "quoted s = CHR 0x22 # concat (map escape_char s) @ [CHR 0x22]"

fun join_with :: "string \<Rightarrow> string list \<Rightarrow> string" where
  "join_with sep [] = []"
| "join_with sep [x] = x"
| "join_with sep (x # y # rest) = x @ sep @ join_with sep (y # rest)"

fun canonical :: "nat \<Rightarrow> json \<Rightarrow> control_error + string"
  and canonical_items :: "nat \<Rightarrow> json list \<Rightarrow> control_error + string list"
  and canonical_fields :: "nat \<Rightarrow> (string \<times> json) list \<Rightarrow> control_error + (string \<times> string) list"
where
  "canonical depth JNull = (if depth > 32 then Inl InvalidInput else Inr ''null'')"
| "canonical depth (JBool b) =
     (if depth > 32 then Inl InvalidInput else Inr (if b then ''true'' else ''false''))"
| "canonical depth (JNum n) = (if depth > 32 then Inl InvalidInput else Inr (number_text n))"
| "canonical depth (JStr s) = (if depth > 32 then Inl InvalidInput else Inr (quoted s))"
| "canonical depth (JArr xs) =
     (if depth > 32 then Inl InvalidInput
      else (case canonical_items (depth + 1) xs of
              Inl e \<Rightarrow> Inl e
            | Inr texts \<Rightarrow> Inr (''['' @ join_with '','' texts @ '']'')))"
| "canonical depth (JObj kvs) =
     (if depth > 32 then Inl InvalidInput
      else (case canonical_fields (depth + 1) kvs of
              Inl e \<Rightarrow> Inl e
            | Inr texts \<Rightarrow>
                Inr (''{'' @ join_with '','' (map (\<lambda>(k, t). quoted k @ '':'' @ t) (sort_key fst texts)) @ ''}'')))"
| "canonical_items depth [] = Inr []"
| "canonical_items depth (x # xs) =
     (case canonical depth x of
        Inl e \<Rightarrow> Inl e
      | Inr t \<Rightarrow> map_sum id (\<lambda>ts. t # ts) (canonical_items depth xs))"
| "canonical_fields depth [] = Inr []"
| "canonical_fields depth ((k, v) # kvs) =
     (case canonical depth v of
        Inl e \<Rightarrow> Inl e
      | Inr t \<Rightarrow> map_sum id (\<lambda>ts. (k, t) # ts) (canonical_fields depth kvs))"

section \<open>Receipts\<close>

record mutation_receipt =
  mr_resource :: string
  mr_revision :: int
  mr_state :: string

definition is_state_code :: "string \<Rightarrow> bool" where
  "is_state_code s =
     (case s of
        [] \<Rightarrow> False
      | c # cs \<Rightarrow> within CHR ''a'' CHR ''z'' c
          \<and> length cs \<le> 63
          \<and> list_all (\<lambda>x. within CHR ''a'' CHR ''z'' x \<or> is_digit x \<or> x = CHR ''-'') cs)"

definition receipt :: "json \<Rightarrow> control_error + mutation_receipt" where
  "receipt value =
     (case value of
        JObj kvs \<Rightarrow>
          if list_ex (\<lambda>(k, _). k \<notin> {''resourceId'', ''revision'', ''state''}) kvs then Inl InvalidInput
          else
            (case (json_str (json_field value ''resourceId''), json_num (json_field value ''revision''),
                   json_str (json_field value ''state'')) of
               (Some r, Some n, Some s) \<Rightarrow>
                 if length r > 200 \<or> \<not> is_revision n \<or> \<not> is_state_code s then Inl InvalidInput
                 else Inr \<lparr>mr_resource = r, mr_revision = n, mr_state = s\<rparr>
             | _ \<Rightarrow> Inl InvalidInput)
      | _ \<Rightarrow> Inl InvalidInput)"

definition receipt_json :: "mutation_receipt \<Rightarrow> json" where
  "receipt_json r = JObj [(''resourceId'', JStr (mr_resource r)), (''revision'', JNum (mr_revision r)),
     (''state'', JStr (mr_state r))]"

section \<open>Running once\<close>

record operation =
  op_actor :: string
  op_id :: string
  op_action :: string
  op_resource :: string
  op_request :: json

definition is_op_identity :: "string \<Rightarrow> bool" where
  "is_op_identity s \<longleftrightarrow> 1 \<le> length s \<and> length s \<le> 200
     \<and> list_all (\<lambda>x. is_letter x \<or> is_digit x \<or> x \<in> set ''_.:-'') s"

definition find_receipt :: "db \<Rightarrow> operation \<Rightarrow> receipt_row option" where
  "find_receipt d op = sql_get (\<lambda>r. rc_actor r = op_actor op \<and> rc_operation r = op_id op) (db_receipts d)"

definition operation_text :: "operation \<Rightarrow> control_error + string" where
  "operation_text op = canonical 0 (JObj [(''action'', JStr (op_action op)),
     (''resourceId'', JStr (op_resource op)), (''request'', op_request op)])"

definition once_work :: "int \<Rightarrow> string \<Rightarrow> operation \<Rightarrow> (db \<Rightarrow> control_error option)
    \<Rightarrow> (db \<Rightarrow> (control_error + json) \<times> db) \<Rightarrow> db \<Rightarrow> (control_error + bool \<times> mutation_receipt) \<times> db" where
  "once_work now hash op authorize mutate d =
     (case authorize d of
        Some e \<Rightarrow> (Inl e, d)
      | None \<Rightarrow>
          (case find_receipt d op of
             Some prior \<Rightarrow>
               if rc_digest prior \<noteq> hash then (Inl Conflict, d)
               else (map_sum id (Pair True) (receipt (rc_response prior)), d)
           | None \<Rightarrow>
               (case mutate d of
                  (Inl e, d1) \<Rightarrow> (Inl e, d1)
                | (Inr value, d1) \<Rightarrow>
                    (case receipt value of
                       Inl e \<Rightarrow> (Inl e, d1)
                     | Inr result \<Rightarrow>
                         if mr_resource result \<noteq> op_resource op then (Inl InvalidInput, d1)
                         else
                           (let d2 = audit now (op_actor op) (op_action op) (Some (op_resource op)) d1
                            in (Inr (False, result),
                                d2\<lparr>db_receipts := db_receipts d2 @
                                  [\<lparr>rc_actor = op_actor op, rc_operation = op_id op, rc_digest = hash,
                                    rc_response = receipt_json result, rc_created_at = now\<rparr>]\<rparr>))))))"

definition execute_once :: "int \<Rightarrow> (string \<Rightarrow> string) \<Rightarrow> operation \<Rightarrow> (db \<Rightarrow> control_error option)
    \<Rightarrow> (db \<Rightarrow> (control_error + json) \<times> db) \<Rightarrow> db \<Rightarrow> (control_error + bool \<times> mutation_receipt) \<times> db" where
  "execute_once now hash op authorize mutate d =
     (if \<not> (is_op_identity (op_actor op) \<and> is_op_identity (op_id op) \<and> is_op_identity (op_action op)
            \<and> is_op_identity (op_resource op))
      then (Inl InvalidInput, d)
      else
        (case operation_text op of
           Inl e \<Rightarrow> (Inl e, d)
         | Inr serialized \<Rightarrow>
             if utf8_length serialized > 65536 then (Inl InvalidInput, d)
             else transaction (once_work now (hash serialized) op authorize mutate) d))"

section \<open>The canonical text ignores the order of keys\<close>

lemma canonical_error:
  "canonical depth v = Inl e \<Longrightarrow> e = InvalidInput"
  "canonical_items depth xs = Inl e \<Longrightarrow> e = InvalidInput"
  "canonical_fields depth kvs = Inl e \<Longrightarrow> e = InvalidInput"
proof (induction depth v and depth xs and depth kvs rule: canonical_canonical_items_canonical_fields.induct)
  case (8 depth x xs)
  then show ?case by (cases "canonical depth x"; cases "canonical_items depth xs") auto
next
  case (10 depth k v kvs)
  then show ?case by (cases "canonical depth v"; cases "canonical_fields depth kvs") auto
qed (auto split: if_splits sum.splits)

definition value_text :: "nat \<Rightarrow> json \<Rightarrow> string" where
  "value_text depth v = (case canonical depth v of Inl _ \<Rightarrow> [] | Inr t \<Rightarrow> t)"

lemma canonical_fields_eq:
  "canonical_fields depth kvs =
     (if \<exists>(k, v) \<in> set kvs. canonical depth v = Inl InvalidInput then Inl InvalidInput
      else Inr (map (\<lambda>(k, v). (k, value_text depth v)) kvs))"
proof (induction kvs)
  case (Cons kv kvs)
  show ?case
  proof (cases "canonical depth (snd kv)")
    case (Inl e)
    then have "e = InvalidInput" by (rule canonical_error)
    with Inl show ?thesis by (cases kv) auto
  next
    case (Inr t)
    with Cons show ?thesis by (cases kv) (auto simp: value_text_def)
  qed
qed simp

lemma sort_key_fst_set:
  assumes "distinct (map fst xs)" "distinct (map fst ys)" "set xs = set ys"
  shows "sort_key fst xs = sort_key fst (ys :: ('a :: linorder \<times> 'b) list)"
proof -
  have "mset xs = mset ys" using assms by (intro set_eq_iff_mset_eq_distinct [THEN iffD1]) (auto simp: distinct_map)
  moreover have "inj_on fst (set xs)" using assms(1) by (simp add: distinct_map)
  ultimately show ?thesis
    by (intro sort_key_inj_key_eq) simp_all
qed

lemma canonical_key_order:
  assumes "distinct (map fst kvs)" "distinct (map fst kvs')" "set kvs = set kvs'"
  shows "canonical depth (JObj kvs) = canonical depth (JObj kvs')"
proof -
  let ?t = "\<lambda>(k, v). (k, value_text (Suc depth) v)"
  have fst: "map fst (map ?t xs) = map fst xs" for xs by (induction xs) auto
  have "sort_key fst (map ?t kvs) = sort_key fst (map ?t kvs')"
    using assms by (intro sort_key_fst_set) (simp_all only: fst set_map)
  moreover have "map_of kvs = map_of kvs'" using assms by (simp add: map_of_inject_set)
  ultimately show ?thesis using assms(3) by (simp add: canonical_fields_eq)
qed

section \<open>Receipts are read back\<close>

lemma receipt_roundtrip: "receipt v = Inr r \<Longrightarrow> receipt (receipt_json r) = Inr r"
  by (auto simp: receipt_def receipt_json_def split: json.splits option.splits if_splits)

lemma once_work_first:
  assumes run: "once_work now hash op authorize mutate d = (Inr (False, r), d1)"
    and pure: "db_receipts (snd (mutate d)) = db_receipts d"
  shows "find_receipt d1 op = Some \<lparr>rc_actor = op_actor op, rc_operation = op_id op, rc_digest = hash,
      rc_response = receipt_json r, rc_created_at = now\<rparr>"
    and "find_receipt d op = None" and "receipt (receipt_json r) = Inr r" and "mr_resource r = op_resource op"
proof -
  have none: "find_receipt d op = None"
    using run by (auto simp: once_work_def split: option.splits if_splits prod.splits sum.splits)
  with run obtain v d2 where m: "mutate d = (Inr v, d2)"
    by (auto simp: once_work_def split: option.splits prod.splits sum.splits)
  with run none have r: "receipt v = Inr r" "mr_resource r = op_resource op"
    and d1: "d1 = (audit now (op_actor op) (op_action op) (Some (op_resource op)) d2)\<lparr>db_receipts := db_receipts d2 @
        [\<lparr>rc_actor = op_actor op, rc_operation = op_id op, rc_digest = hash,
          rc_response = receipt_json r, rc_created_at = now\<rparr>]\<rparr>"
    by (auto simp: once_work_def Let_def split: option.splits sum.splits if_splits)
  have "db_receipts d2 = db_receipts d" using pure m by simp
  with none show "find_receipt d1 op = Some \<lparr>rc_actor = op_actor op, rc_operation = op_id op, rc_digest = hash,
      rc_response = receipt_json r, rc_created_at = now\<rparr>"
    by (simp add: d1 find_receipt_def sql_get_append)
  show "find_receipt d op = None" "mr_resource r = op_resource op" by fact+
  show "receipt (receipt_json r) = Inr r" using r(1) by (rule receipt_roundtrip)
qed

section \<open>Properties\<close>

text \<open>
  C20: An operation that has run answers every later run of the same request with the same
  receipt, changes nothing and never mutates again; the same key with another request is
  a conflict; and either answer is given only to a caller who is authorized then.
\<close>
theorem execute_once_replays:
  assumes first: "execute_once t hash op authorize mutate d = (Inr (False, r), d1)"
    and pure: "db_receipts (snd (mutate d)) = db_receipts d"
    and later: "find_receipt d2 op = find_receipt d1 op"
  shows "execute_once t' hash op authorize' mutate' d2
      = (case authorize' d2 of Some e \<Rightarrow> Inl e | None \<Rightarrow> Inr (True, r), d2)
    \<and> mr_resource r = op_resource op
    \<and> (\<forall>request text text'. operation_text op = Inr text
        \<and> operation_text (op\<lparr>op_request := request\<rparr>) = Inr text' \<and> utf8_length text' \<le> 65536 \<and> hash text' \<noteq> hash text
        \<longrightarrow> execute_once t' hash (op\<lparr>op_request := request\<rparr>) authorize' mutate' d2
          = (case authorize' d2 of Some e \<Rightarrow> Inl e | None \<Rightarrow> Inl Conflict, d2))"
proof -
  obtain ser where ids: "is_op_identity (op_actor op)" "is_op_identity (op_id op)" "is_op_identity (op_action op)"
      "is_op_identity (op_resource op)"
    and ser: "operation_text op = Inr ser" "utf8_length ser \<le> 65536"
    and work: "once_work t (hash ser) op authorize mutate d = (Inr (False, r), d1)"
    using first by (auto simp: execute_once_def transaction_Inr split: if_splits sum.splits)
  note stored = once_work_first [OF work pure]
  have same: "find_receipt d2 (op\<lparr>op_request := q\<rparr>) = find_receipt d1 op" for q
    using later by (simp add: find_receipt_def)
  show ?thesis
    using ids ser stored later same
    by (auto simp: execute_once_def transaction_def once_work_def split: option.split)
qed

definition demo_op :: operation where
  "demo_op = \<lparr>op_actor = ''ann'', op_id = ''op-1'', op_action = ''space.rename'', op_resource = ''s'',
     op_request = JObj [(''name'', JStr ''x'')]\<rparr>"

definition demo_mutation :: "db \<Rightarrow> (control_error + json) \<times> db" where
  "demo_mutation d = (Inr (receipt_json \<lparr>mr_resource = ''s'', mr_revision = 2, mr_state = ''ready''\<rparr>), d\<lparr>db_epoch := db_epoch d + 1\<rparr>)"

definition demo_empty :: db where
  "demo_empty = \<lparr>db_resources = [], db_provisioning = [], db_grants = [], db_policies = [], db_members = [],
     db_principals = [], db_spaces = [], db_audit = [], db_outbox = [], db_receipts = [], db_epoch = 1, db_next_seq = 1,
     db_next_outbox = 1\<rparr>"

lemma demo_first_run:
  "execute_once 7 (\<lambda>t. t) demo_op (\<lambda>_. None) demo_mutation demo_empty
     = (Inr (False, \<lparr>mr_resource = ''s'', mr_revision = 2, mr_state = ''ready''\<rparr>),
        snd (execute_once 7 (\<lambda>t. t) demo_op (\<lambda>_. None) demo_mutation demo_empty))"
  "db_receipts (snd (demo_mutation demo_empty)) = db_receipts demo_empty"
  by code_simp+

theorem execute_once_replays_witness:
  "execute_once 9 (\<lambda>t. t) demo_op (\<lambda>_. None) demo_mutation
       (snd (execute_once 7 (\<lambda>t. t) demo_op (\<lambda>_. None) demo_mutation demo_empty))
     = (Inr (True, \<lparr>mr_resource = ''s'', mr_revision = 2, mr_state = ''ready''\<rparr>),
        snd (execute_once 7 (\<lambda>t. t) demo_op (\<lambda>_. None) demo_mutation demo_empty))"
  using conjunct1 [OF execute_once_replays [OF demo_first_run refl, of 9 "\<lambda>_. None" demo_mutation]]
  by (simp only: option.simps)

text \<open>
  The canonical text of a request, and so its digest, does not depend on the order in
  which the caller wrote the keys of an object.
\<close>
theorem canonical_ignores_key_order:
  assumes "distinct (map fst kvs)" "distinct (map fst kvs')" "set kvs = set kvs'"
  shows "canonical depth (JObj kvs) = canonical depth (JObj kvs')"
  using assms by (rule canonical_key_order)

theorem canonical_ignores_key_order_witness:
  "canonical 0 (JObj [(''b'', JNum 1), (''a'', JNull)]) = canonical 0 (JObj [(''a'', JNull), (''b'', JNum 1)])"
  by (rule canonical_ignores_key_order) auto

end
