(* ===== verification/LimitWindows.thy ===== *)
theory LimitWindows
  imports JsMap Complex_Main
begin

text \<open>
  How the limit windows of one account read, packages/limit-windows/src/windows.ts, with
  the source families of packages/usage/src/limitSources.ts: which windows a request can
  start, which are running, and the meter each model class answers to. Instants and
  lengths are integers (milliseconds), used shares and limits rationals.
\<close>

section \<open>Source families\<close>

definition source_id :: "string \<Rightarrow> string" where
  "source_id value = lower (trim value)"

definition source_aliases :: "(string \<times> string) list" where
  "source_aliases =
    [(''anthropic'', ''claude''), (''claude-code'', ''claude''), (''openai'', ''codex''), (''chatgpt'', ''codex''),
     (''commandcode'', ''command-code''), (''grok'', ''xai''), (''kimi-code'', ''kimi-for-coding''),
     (''kimi'', ''kimi-for-coding''), (''kimi-code-plan-cn'', ''kimi-for-coding''),
     (''xiaomi-token-plan-cn'', ''xiaomi''), (''xiaomi-token-plan-ams'', ''xiaomi''),
     (''xiaomi-token-plan-sgp'', ''xiaomi''), (''xiaomi-mimo'', ''xiaomi''), (''alibaba'', ''alibaba-coding-plan''),
     (''gemini'', ''google''), (''gemini-cli'', ''google''), (''google-gemini-cli'', ''google''),
     (''opencode-gemini-auth'', ''google'')]"

definition canonical_source :: "string \<Rightarrow> string" where
  "canonical_source i = nullish (map_of source_aliases (source_id i)) (source_id i)"

definition canonical_model_source :: "string \<Rightarrow> string" where
  "canonical_model_source i =
     nullish (map_of (source_aliases @ [(''opencode'', ''opencode-zen'')]) (source_id i)) (source_id i)"

section \<open>Windows\<close>

record limit_window =
  lw_id :: string
  lw_label :: string
  lw_used :: rat
  lw_limit :: rat
  lw_unit :: string
  lw_resets_at :: "int option"
  lw_period :: "int option"

record limit_account =
  la_family :: string
  la_harness :: string
  la_label :: string

record limit_source =
  ls_provider :: string
  ls_account :: "limit_account option"
  ls_windows :: "limit_window list"
  ls_fetched_at :: int
  ls_stale :: bool

definition source_family :: "limit_source \<Rightarrow> string" where
  "source_family s = canonical_source (nullish (map_option la_family (ls_account s)) (ls_provider s))"

definition min_period_ms :: int where
  "min_period_ms = 3600000"

definition slide_tolerance_ms :: int where
  "slide_tolerance_ms = 120000"

definition is_steerable :: "limit_window \<Rightarrow> bool" where
  "is_steerable w \<longleftrightarrow> lw_limit w > 0 \<and> nullish (lw_period w) 0 \<ge> min_period_ms \<and> CHR ''/'' \<notin> set (lw_id w)"

datatype window_phase = PhaseIdle | PhaseRunning | PhaseUnknown

definition phase_of :: "limit_window \<Rightarrow> int \<Rightarrow> int \<Rightarrow> window_phase" where
  "phase_of w fetched_at now =
     (case lw_resets_at w of
        None \<Rightarrow> if lw_used w = 0 then PhaseIdle else PhaseUnknown
      | Some resets_at \<Rightarrow>
          if resets_at \<le> now then PhaseIdle
          else if lw_used w = 0 \<and> nullish (lw_period w) 0 \<noteq> 0
              \<and> \<bar>resets_at - fetched_at - nullish (lw_period w) 0\<bar> \<le> slide_tolerance_ms
          then PhaseIdle
          else PhaseRunning)"

section \<open>Meters\<close>

record meter =
  mt_id :: string
  mt_label :: "string option"
  mt_windows :: "limit_window list"
  mt_primary :: limit_window

text \<open>The patterns \<open>/^google[-_]/i\<close> and \<open>/^third[-_]party[-_]/i\<close>.\<close>

definition is_dash :: "char \<Rightarrow> bool" where
  "is_dash c \<longleftrightarrow> c = CHR ''-'' \<or> c = CHR ''_''"

definition google_window :: "string \<Rightarrow> bool" where
  "google_window i \<longleftrightarrow> (case drop 6 i of [] \<Rightarrow> False | c # _ \<Rightarrow> lower (take 6 i) = ''google'' \<and> is_dash c)"

definition third_party_window :: "string \<Rightarrow> bool" where
  "third_party_window i \<longleftrightarrow>
     (case drop 11 i of
        [] \<Rightarrow> False
      | c # _ \<Rightarrow> lower (take 5 i) = ''third'' \<and> is_dash (i ! 5) \<and> lower (take 5 (drop 6 i)) = ''party'' \<and> is_dash c)"

definition meter_id_of :: "limit_source \<Rightarrow> string \<Rightarrow> string" where
  "meter_id_of source window_id =
     (if source_family source \<noteq> ''antigravity'' then ''all''
      else if google_window window_id then ''google''
      else if third_party_window window_id then ''third-party''
      else ''all'')"

definition meter_labels :: "(string \<times> string) list" where
  "meter_labels = [(''google'', ''Google models''), (''third-party'', ''Third-party models'')]"

fun group_windows :: "limit_source \<Rightarrow> limit_window list \<Rightarrow> (string, limit_window list) jsmap
    \<Rightarrow> (string, limit_window list) jsmap" where
  "group_windows source [] groups = groups"
| "group_windows source (w # ws) groups =
     (if CHR ''/'' \<in> set (lw_id w) \<or> lw_limit w \<le> 0 then group_windows source ws groups
      else
        (let i = meter_id_of source (lw_id w)
         in group_windows source ws (jm_set i (nullish (jm_get groups i) [] @ [w]) groups)))"

definition meter_of :: "string \<times> limit_window list \<Rightarrow> meter option" where
  "meter_of g =
     (case g of (i, windows) \<Rightarrow>
        let ordered = sort_key (\<lambda>w. nullish (lw_period w) 0) (filter is_steerable windows)
        in case ordered of
             [] \<Rightarrow> None
           | primary # _ \<Rightarrow>
               Some \<lparr>mt_id = i, mt_label = map_of meter_labels i,
                     mt_windows = ordered @ filter (\<lambda>w. \<not> is_steerable w) windows, mt_primary = primary\<rparr>)"

definition meters_of :: "limit_source \<Rightarrow> meter list" where
  "meters_of source = List.map_filter meter_of (group_windows source (ls_windows source) [])"

section \<open>Timing\<close>

datatype timing_mode = ByHour | ByReset

text \<open>The window a plan is timed by, and when it is over.\<close>

definition idle_from_of :: "limit_window \<Rightarrow> int \<Rightarrow> int \<Rightarrow> int option" where
  "idle_from_of w fetched_at now =
     (case phase_of w fetched_at now of
        PhaseIdle \<Rightarrow> Some 0
      | PhaseRunning \<Rightarrow> lw_resets_at w
      | PhaseUnknown \<Rightarrow> None)"

fun earliest :: "int \<Rightarrow> int \<Rightarrow> limit_window list \<Rightarrow> (limit_window \<times> int) option \<Rightarrow> (limit_window \<times> int) option" where
  "earliest fetched_at now [] best = best"
| "earliest fetched_at now (w # ws) best =
     (case idle_from_of w fetched_at now of
        None \<Rightarrow> earliest fetched_at now ws best
      | Some idle_from \<Rightarrow>
          (case best of
             None \<Rightarrow> earliest fetched_at now ws (Some (w, idle_from))
           | Some (_, b) \<Rightarrow> earliest fetched_at now ws (if idle_from < b then Some (w, idle_from) else best)))"

definition meter_timing :: "meter \<Rightarrow> timing_mode \<Rightarrow> int \<Rightarrow> int \<Rightarrow> limit_window \<times> int option" where
  "meter_timing m mode fetched_at now =
     (let windows = (if mode = ByHour then [mt_primary m] else filter is_steerable (mt_windows m))
      in case earliest fetched_at now windows None of
           None \<Rightarrow> (mt_primary m, None)
         | Some (w, idle_from) \<Rightarrow> (w, Some idle_from))"

text \<open>Until when a used-up window refuses requests; \<open>Never\<close> is \<open>Infinity\<close>.\<close>

datatype refusal = UntilTime int | Never

definition later_refusal :: "refusal option \<Rightarrow> int option \<Rightarrow> refusal" where
  "later_refusal until resets_at =
     (case (until, resets_at) of
        (Some Never, _) \<Rightarrow> Never
      | (_, None) \<Rightarrow> Never
      | (Some (UntilTime a), Some b) \<Rightarrow> UntilTime (max a b)
      | (None, Some b) \<Rightarrow> UntilTime (max 0 b))"

fun exhausted_loop :: "int \<Rightarrow> limit_window list \<Rightarrow> refusal option \<Rightarrow> refusal option" where
  "exhausted_loop now [] until = until"
| "exhausted_loop now (w # ws) until =
     (if lw_used w < lw_limit w then exhausted_loop now ws until
      else if (case lw_resets_at w of None \<Rightarrow> False | Some r \<Rightarrow> r \<le> now) then exhausted_loop now ws until
      else exhausted_loop now ws (Some (later_refusal until (lw_resets_at w))))"

definition exhausted_until :: "meter \<Rightarrow> int \<Rightarrow> refusal option" where
  "exhausted_until m now = exhausted_loop now (mt_windows m) None"

section \<open>Lemmas\<close>

lemma phase_running_iff:
  "phase_of w f now = PhaseRunning \<longleftrightarrow>
     (\<exists>r. lw_resets_at w = Some r \<and> now < r
        \<and> \<not> (lw_used w = 0 \<and> nullish (lw_period w) 0 \<noteq> 0 \<and> \<bar>r - f - nullish (lw_period w) 0\<bar> \<le> slide_tolerance_ms))"
  by (auto simp: phase_of_def split: option.splits if_splits)

text \<open>The windows of a group are those of the source that the group answers for, in order.\<close>

definition meter_windows :: "limit_source \<Rightarrow> string \<Rightarrow> limit_window list \<Rightarrow> limit_window list" where
  "meter_windows source i ws =
     filter (\<lambda>w. CHR ''/'' \<notin> set (lw_id w) \<and> lw_limit w > 0 \<and> meter_id_of source (lw_id w) = i) ws"

lemma group_windows_get:
  "nullish (jm_get (group_windows source ws groups) i) [] = nullish (jm_get groups i) [] @ meter_windows source i ws"
  by (induction source ws groups rule: group_windows.induct)
    (auto simp: meter_windows_def Let_def jm_lookup)

lemma group_windows_ok: "jm_ok groups \<Longrightarrow> jm_ok (group_windows source ws groups)"
  by (induction source ws groups rule: group_windows.induct) (auto simp: Let_def)

lemma group_windows_entry:
  assumes "(i, g) \<in> set (group_windows source ws [])"
  shows "g = meter_windows source i ws"
proof -
  have "jm_get (group_windows source ws []) i = Some g"
    using assms by (intro jm_in_set_get group_windows_ok) simp_all
  with group_windows_get [of source ws "[]" i] show ?thesis by simp
qed

lemma meters_of_mem:
  assumes "m \<in> set (meters_of source)"
  shows "mt_windows m = sort_key (\<lambda>w. nullish (lw_period w) 0) (filter is_steerable (meter_windows source (mt_id m) (ls_windows source)))
      @ filter (\<lambda>w. \<not> is_steerable w) (meter_windows source (mt_id m) (ls_windows source))"
    "mt_windows m = mt_primary m # tl (mt_windows m)" "is_steerable (mt_primary m)"
proof -
  obtain g where g: "g \<in> set (group_windows source (ls_windows source) [])" "meter_of g = Some m"
    using assms by (auto simp: meters_of_def List.map_filter_def)
  obtain i ws where iw: "g = (i, ws)" by (cases g)
  let ?o = "sort_key (\<lambda>w. nullish (lw_period w) 0) (filter is_steerable ws)"
  from g(2) obtain p ps where o: "?o = p # ps" and m: "mt_id m = i" "mt_primary m = p"
      "mt_windows m = (p # ps) @ filter (\<lambda>w. \<not> is_steerable w) ws"
    by (auto simp: meter_of_def iw Let_def split: list.splits)
  have ws: "ws = meter_windows source i (ls_windows source)" using g(1) group_windows_entry iw by simp
  show "mt_windows m = sort_key (\<lambda>w. nullish (lw_period w) 0) (filter is_steerable (meter_windows source (mt_id m) (ls_windows source)))
      @ filter (\<lambda>w. \<not> is_steerable w) (meter_windows source (mt_id m) (ls_windows source))"
    using m o ws by simp
  show "mt_windows m = mt_primary m # tl (mt_windows m)" using m by simp
  have "p \<in> set ?o" using o by simp
  then show "is_steerable (mt_primary m)" using m by simp
qed

lemma earliest_Some:
  "earliest f now ws best = Some (w, t) \<Longrightarrow>
     (best = Some (w, t) \<or> w \<in> set ws \<and> idle_from_of w f now = Some t)
     \<and> (\<forall>v u. v \<in> set ws \<longrightarrow> idle_from_of v f now = Some u \<longrightarrow> t \<le> u)
     \<and> (\<forall>v u. best = Some (v, u) \<longrightarrow> t \<le> u)"
proof (induction f now ws best arbitrary: w t rule: earliest.induct)
  case (2 f now x xs best)
  show ?case
  proof (cases "idle_from_of x f now")
    case None
    with 2 show ?thesis by auto
  next
    case (Some a)
    show ?thesis
    proof (cases best)
      case None
      with 2(2) [OF Some None, of w t] 2(4) Some show ?thesis by auto
    next
      case b: (Some vb)
      obtain v b' where vb: "vb = (v, b')" by (cases vb)
      with 2(3) [OF Some b vb [symmetric], of w t] 2(4) Some b show ?thesis by (auto split: if_splits)
    qed
  qed
qed auto

lemma earliest_None:
  "earliest f now ws best = None \<longleftrightarrow> best = None \<and> (\<forall>w \<in> set ws. idle_from_of w f now = None)"
  by (induction f now ws best rule: earliest.induct) (auto split: option.splits)

lemma exhausted_loop_spec:
  "exhausted_loop now ws until = None \<longleftrightarrow>
     until = None \<and> (\<forall>w \<in> set ws. lw_used w < lw_limit w \<or> (\<exists>r. lw_resets_at w = Some r \<and> r \<le> now))"
  by (induction now ws until rule: exhausted_loop.induct) (auto split: option.splits)

lemma exhausted_loop_bound:
  "exhausted_loop now ws until = Some (UntilTime t) \<Longrightarrow>
     (\<forall>w \<in> set ws. lw_limit w \<le> lw_used w \<longrightarrow> (\<exists>r. lw_resets_at w = Some r \<and> r \<le> max t now))
     \<and> (\<forall>u. until = Some u \<longrightarrow> (\<exists>a. u = UntilTime a \<and> a \<le> t))"
proof (induction now ws until arbitrary: t rule: exhausted_loop.induct)
  case (2 now w ws until)
  show ?case
  proof (cases "lw_used w < lw_limit w \<or> (\<exists>r. lw_resets_at w = Some r \<and> r \<le> now)")
    case True
    with 2 show ?thesis by (auto split: option.splits if_splits)
  next
    case False
    then have step: "exhausted_loop now (w # ws) until = exhausted_loop now ws (Some (later_refusal until (lw_resets_at w)))"
      by (auto split: option.splits)
    with False 2(3) [of t] 2(4) show ?thesis
      by (auto simp: later_refusal_def split: option.splits refusal.splits)
  qed
qed auto

end
