(* ===== verification/WindowPlan.thy ===== *)
theory WindowPlan
  imports LimitWindows "HOL-Library.List_Lexorder" "HOL-Library.Char_ord"
begin

text \<open>
  What a person asked for one account and when that makes the next window start:
  packages/limit-windows/src/schedule.ts and plan.ts.

  The time zone database is a parameter: \<open>zones tz\<close> is the offset of local time from UTC
  at an instant (milliseconds), or nothing for a name \<open>Intl.DateTimeFormat\<close> refuses. A
  calendar date is its day number since the epoch, so \<open>Date.UTC\<close> of a date and the
  date of an instant are multiplication and division by the length of a day.
\<close>

section \<open>Wall-clock arithmetic\<close>

type_synonym zone = "int \<Rightarrow> int"
type_synonym zone_table = "string \<Rightarrow> zone option"

definition day_ms :: int where
  "day_ms = 86400000"

record local_parts =
  lp_date :: int
  lp_hour :: int
  lp_minute :: int
  lp_second :: int
  lp_weekday :: int

definition weekday_of :: "int \<Rightarrow> int" where
  "weekday_of date = (date + 4) mod 7"

definition local_parts_of :: "zone \<Rightarrow> int \<Rightarrow> local_parts" where
  "local_parts_of zone t =
     (let wall = t + zone t
      in \<lparr>lp_date = wall div day_ms, lp_hour = wall mod day_ms div 3600000, lp_minute = wall mod 3600000 div 60000,
          lp_second = wall mod 60000 div 1000, lp_weekday = weekday_of (wall div day_ms)\<rparr>)"

definition is_valid_time_zone :: "zone_table \<Rightarrow> json option \<Rightarrow> bool" where
  "is_valid_time_zone zones value =
     (case value of
        Some (JStr tz) \<Rightarrow> tz \<noteq> [] \<and> length tz \<le> 100 \<and> zones tz \<noteq> None
      | _ \<Rightarrow> False)"

definition is_digit_upto :: "nat \<Rightarrow> char \<Rightarrow> bool" where
  "is_digit_upto n c \<longleftrightarrow> (48 :: nat) \<le> of_char c \<and> of_char c \<le> 48 + n"

definition digit_of :: "char \<Rightarrow> int" where
  "digit_of c = int (of_char c) - 48"

text \<open>The pattern \<open>/^([01]\d|2[0-3]):([0-5]\d)$/\<close>.\<close>

fun clock_text :: "string \<Rightarrow> bool" where
  "clock_text [a, b, c, d, e] \<longleftrightarrow>
     (is_digit_upto 1 a \<and> is_digit_upto 9 b \<or> a = CHR ''2'' \<and> is_digit_upto 3 b)
     \<and> c = CHR '':'' \<and> is_digit_upto 5 d \<and> is_digit_upto 9 e"
| "clock_text _ \<longleftrightarrow> False"

fun is_clock_time :: "json \<Rightarrow> bool" where
  "is_clock_time (JStr s) \<longleftrightarrow> clock_text s"
| "is_clock_time _ \<longleftrightarrow> False"

definition clock_minutes :: "string \<Rightarrow> int" where
  "clock_minutes t = (digit_of (t ! 0) * 10 + digit_of (t ! 1)) * 60 + (digit_of (t ! 3) * 10 + digit_of (t ! 4))"

text \<open>The distance of the wall clock, to the second, from the instant it shows.\<close>

definition offset_at :: "zone \<Rightarrow> int \<Rightarrow> int" where
  "offset_at zone instant =
     (let p = local_parts_of zone instant
      in lp_date p * day_ms + lp_hour p * 3600000 + lp_minute p * 60000 + lp_second p * 1000 - instant)"

definition local_time_to_utc :: "int \<Rightarrow> int \<Rightarrow> zone \<Rightarrow> int" where
  "local_time_to_utc date minutes zone =
     (let wall = date * day_ms + minutes * 60000;
          c1 = wall - offset_at zone (wall - day_ms);
          c2 = wall - offset_at zone (wall + day_ms)
      in case sort (filter (\<lambda>t. t + offset_at zone t = wall) [c1, c2]) of
           [] \<Rightarrow> max c1 c2
         | t # _ \<Rightarrow> t)"

fun occurrence_in :: "zone \<Rightarrow> int list \<Rightarrow> int list \<Rightarrow> int \<Rightarrow> int \<Rightarrow> int list \<Rightarrow> int option" where
  "occurrence_in zone minutes days from first [] = None"
| "occurrence_in zone minutes days from first (i # offsets) =
     (let date = first + i in
      if days \<noteq> [] \<and> weekday_of date \<notin> set days then occurrence_in zone minutes days from first offsets
      else
        (case sort (filter (\<lambda>t. from \<le> t) (map (\<lambda>m. local_time_to_utc date m zone) minutes)) of
           [] \<Rightarrow> occurrence_in zone minutes days from first offsets
         | found # _ \<Rightarrow> Some found))"

definition next_occurrence :: "zone_table \<Rightarrow> string list \<Rightarrow> int list \<Rightarrow> string \<Rightarrow> int \<Rightarrow> int option" where
  "next_occurrence zones hours days tz from =
     (if hours = [] \<or> \<not> is_valid_time_zone zones (Some (JStr tz)) then None
      else
        (case zones tz of
           None \<Rightarrow> None
         | Some zone \<Rightarrow>
             occurrence_in zone (map clock_minutes hours) days from (lp_date (local_parts_of zone from)) [0..8]))"

text \<open>Formatting with a zone that does not exist throws a \<open>RangeError\<close>.\<close>

datatype zone_error = RangeError

definition inside_daily_range :: "zone_table \<Rightarrow> int \<Rightarrow> string \<Rightarrow> string \<Rightarrow> string \<Rightarrow> zone_error + bool" where
  "inside_daily_range zones t from until tz =
     (case zones tz of
        None \<Rightarrow> Inl RangeError
      | Some zone \<Rightarrow>
          (let p = local_parts_of zone t;
               now = lp_hour p * 60 + lp_minute p;
               start = clock_minutes from;
               finish = clock_minutes until
           in Inr (if start = finish then True
                   else if start < finish then start \<le> now \<and> now < finish
                   else start \<le> now \<or> now < finish)))"

section \<open>Plans\<close>

datatype plan_mode = PlanOff | PlanHour | PlanReset

record plan_model =
  pm_provider :: string
  pm_model :: string

record window_plan =
  wp_mode :: plan_mode
  wp_times :: "string list"
  wp_days :: "int list"
  wp_lead :: int
  wp_rolling :: bool
  wp_active_from :: "string option"
  wp_active_until :: "string option"
  wp_time_zone :: string
  wp_model :: "plan_model option"
  wp_skip_meters :: "string list option"

definition max_times :: nat where
  "max_times = 6"

definition max_lead :: int where
  "max_lead = 3"

definition start_margin_ms :: int where
  "start_margin_ms = 45000"

definition reset_margin_ms :: int where
  "reset_margin_ms = 5000"

definition hour_grace_ms :: int where
  "hour_grace_ms = 20 * 60000"

definition lead_grace_ms :: int where
  "lead_grace_ms = 3 * 60000"

definition fit_slack_ms :: int where
  "fit_slack_ms = 5 * 60000"

definition default_plan :: "string \<Rightarrow> window_plan" where
  "default_plan tz =
     \<lparr>wp_mode = PlanOff, wp_times = [''09:00''], wp_days = [], wp_lead = 1, wp_rolling = False,
      wp_active_from = None, wp_active_until = None, wp_time_zone = tz, wp_model = None, wp_skip_meters = None\<rparr>"

fun short_id :: "json option \<Rightarrow> bool" where
  "short_id (Some (JStr s)) \<longleftrightarrow> trim s \<noteq> [] \<and> length s \<le> 200"
| "short_id _ \<longleftrightarrow> False"

definition is_lower_letter :: "char \<Rightarrow> bool" where
  "is_lower_letter c \<longleftrightarrow> (97 :: nat) \<le> of_char c \<and> of_char c \<le> (122 :: nat)"

text \<open>The pattern \<open>/^[a-z][a-z-]{0,39}$/\<close>.\<close>

fun meter_id :: "json \<Rightarrow> bool" where
  "meter_id (JStr (c # cs)) \<longleftrightarrow>
     is_lower_letter c \<and> length cs \<le> 39 \<and> list_all (\<lambda>c. is_lower_letter c \<or> c = CHR ''-'') cs"
| "meter_id _ \<longleftrightarrow> False"

fun json_list :: "json option \<Rightarrow> json list option" where
  "json_list None = Some []"
| "json_list (Some (JArr xs)) = Some xs"
| "json_list (Some _) = None"

fun json_text :: "json \<Rightarrow> string" where
  "json_text (JStr s) = s"
| "json_text _ = []"

fun json_int :: "json \<Rightarrow> int" where
  "json_int (JNum n) = n"
| "json_int _ = 0"

fun is_weekday :: "json \<Rightarrow> bool" where
  "is_weekday (JNum n) \<longleftrightarrow> 0 \<le> n \<and> n \<le> 6"
| "is_weekday _ \<longleftrightarrow> False"

text \<open>\<open>[...new Set(xs)]\<close>: the first of equal elements stays.\<close>

definition unique :: "'a list \<Rightarrow> 'a list" where
  "unique xs = rev (remdups (rev xs))"

definition parse_mode :: "json option \<Rightarrow> plan_mode option" where
  "parse_mode v =
     (if v = Some (JStr ''off'') then Some PlanOff
      else if v = Some (JStr ''hour'') then Some PlanHour
      else if v = Some (JStr ''reset'') then Some PlanReset
      else None)"

definition times_of :: "json option \<Rightarrow> string list option" where
  "times_of v =
     (case json_list (json_present v) of
        None \<Rightarrow> None
      | Some xs \<Rightarrow> if length xs > max_times \<or> \<not> list_all is_clock_time xs then None else Some (map json_text xs))"

definition days_of :: "json option \<Rightarrow> int list option" where
  "days_of v =
     (case json_list (json_present v) of
        None \<Rightarrow> None
      | Some xs \<Rightarrow> if \<not> list_all is_weekday xs then None else Some (map json_int xs))"

definition lead_of :: "json option \<Rightarrow> int option" where
  "lead_of v =
     (case nullish (json_present v) (JNum 0) of
        JNum n \<Rightarrow> if n < 0 \<or> n > max_lead then None else Some n
      | _ \<Rightarrow> None)"

definition rolling_of :: "json option \<Rightarrow> bool option" where
  "rolling_of v = (case v of None \<Rightarrow> Some False | Some (JBool b) \<Rightarrow> Some b | _ \<Rightarrow> None)"

definition active_of :: "json option \<Rightarrow> json option \<Rightarrow> (string \<times> string) option option" where
  "active_of from until =
     (case (json_present from, json_present until) of
        (None, None) \<Rightarrow> Some None
      | (Some f, Some u) \<Rightarrow>
          if \<not> is_clock_time f \<or> \<not> is_clock_time u then None else Some (Some (json_text f, json_text u))
      | _ \<Rightarrow> None)"

definition plan_model_of :: "json option \<Rightarrow> plan_model option option" where
  "plan_model_of v =
     (case json_present v of
        None \<Rightarrow> Some None
      | Some ref \<Rightarrow>
          if short_id (json_field ref ''providerID'') \<and> short_id (json_field ref ''modelID'')
          then Some (Some \<lparr>pm_provider = json_text (nullish (json_field ref ''providerID'') JNull),
                           pm_model = json_text (nullish (json_field ref ''modelID'') JNull)\<rparr>)
          else None)"

definition skip_meters_of :: "json option \<Rightarrow> string list option" where
  "skip_meters_of v =
     (case json_list (json_present v) of
        None \<Rightarrow> None
      | Some xs \<Rightarrow> if length xs > 8 \<or> \<not> list_all meter_id xs then None else Some (map json_text xs))"

definition parse_plan :: "zone_table \<Rightarrow> json \<Rightarrow> control_error + window_plan" where
  "parse_plan zones raw =
     (case raw of
        JObj input \<Rightarrow>
          (case parse_mode (map_of input ''mode'') of None \<Rightarrow> Inl InvalidInput | Some mode \<Rightarrow>
           if \<not> is_valid_time_zone zones (map_of input ''timeZone'') then Inl InvalidInput else
           (case times_of (map_of input ''times'') of None \<Rightarrow> Inl InvalidInput | Some hours \<Rightarrow>
            if mode = PlanHour \<and> hours = [] then Inl InvalidInput else
            (case days_of (map_of input ''days'') of None \<Rightarrow> Inl InvalidInput | Some days \<Rightarrow>
             (case lead_of (map_of input ''lead'') of None \<Rightarrow> Inl InvalidInput | Some lead \<Rightarrow>
              (case rolling_of (map_of input ''rolling'') of None \<Rightarrow> Inl InvalidInput | Some rolling \<Rightarrow>
               (case active_of (map_of input ''activeFrom'') (map_of input ''activeUntil'') of
                  None \<Rightarrow> Inl InvalidInput
                | Some active \<Rightarrow>
                (case plan_model_of (map_of input ''model'') of None \<Rightarrow> Inl InvalidInput | Some model \<Rightarrow>
                 (case skip_meters_of (map_of input ''skipMeters'') of None \<Rightarrow> Inl InvalidInput | Some skip \<Rightarrow>
                  Inr \<lparr>wp_mode = mode, wp_times = sort (unique hours), wp_days = sort (unique days),
                       wp_lead = lead, wp_rolling = rolling,
                       wp_active_from = map_option fst active, wp_active_until = map_option snd active,
                       wp_time_zone = json_text (nullish (map_of input ''timeZone'') JNull),
                       wp_model = model,
                       wp_skip_meters = (if skip = [] then None else Some (unique skip))\<rparr>))))))))
      | _ \<Rightarrow> Inl InvalidInput)"

section \<open>The next start\<close>

datatype start_reason = ReasonHour | ReasonLead | ReasonRolling | ReasonReset | ReasonManual

record window_start =
  st_at :: int
  st_reason :: start_reason
  st_target :: "int option"

definition next_active :: "zone_table \<Rightarrow> window_plan \<Rightarrow> int \<Rightarrow> zone_error + int option" where
  "next_active zones plan t =
     (if \<not> truthy (wp_active_from plan) \<or> \<not> truthy (wp_active_until plan) then Inr (Some t)
      else
        (let from = nullish (wp_active_from plan) []; until = nullish (wp_active_until plan) []
         in case inside_daily_range zones t from until (wp_time_zone plan) of
              Inl e \<Rightarrow> Inl e
            | Inr inside \<Rightarrow>
                if inside then Inr (Some t)
                else Inr (next_occurrence zones [from] [] (wp_time_zone plan) t)))"

fun lead_start :: "nat \<Rightarrow> int \<Rightarrow> int \<Rightarrow> int \<Rightarrow> int \<Rightarrow> window_start option" where
  "lead_start 0 period idle_from now anchor = None"
| "lead_start (Suc n) period idle_from now anchor =
     (let t = anchor - int (Suc n) * period + start_margin_ms in
      if idle_from + reset_margin_ms \<le> t \<and> now \<le> t + lead_grace_ms
      then Some \<lparr>st_at = max t now, st_reason = ReasonLead, st_target = Some anchor\<rparr>
      else lead_start n period idle_from now anchor)"

definition next_start :: "zone_table \<Rightarrow> window_plan \<Rightarrow> int \<Rightarrow> int \<Rightarrow> int \<Rightarrow> int \<Rightarrow> zone_error + window_start option" where
  "next_start zones plan period idle_from now saved_at =
     (let free = max idle_from now;
          after_reset = max (idle_from + reset_margin_ms) now
      in case wp_mode plan of
           PlanOff \<Rightarrow> Inr None
         | PlanReset \<Rightarrow>
             map_sum id (map_option (\<lambda>t. \<lparr>st_at = t, st_reason = ReasonReset, st_target = None\<rparr>))
               (next_active zones plan after_reset)
         | PlanHour \<Rightarrow>
             (case next_occurrence zones (wp_times plan) (wp_days plan) (wp_time_zone plan)
                     (max (free - hour_grace_ms) saved_at) of
                None \<Rightarrow> Inr None
              | Some anchor \<Rightarrow>
                  if wp_rolling plan \<and> free < anchor \<and> after_reset + period \<le> anchor + fit_slack_ms
                  then Inr (Some \<lparr>st_at = after_reset, st_reason = ReasonRolling, st_target = None\<rparr>)
                  else
                    (case lead_start (nat (wp_lead plan)) period idle_from now anchor of
                       Some start \<Rightarrow> Inr (Some start)
                     | None \<Rightarrow>
                         Inr (Some \<lparr>st_at = max (anchor + start_margin_ms) after_reset,
                                    st_reason = ReasonHour, st_target = Some anchor\<rparr>))))"

record planned_window =
  pw_from :: int
  pw_to :: int
  pw_reason :: start_reason
  pw_target :: "int option"

fun project :: "nat \<Rightarrow> zone_table \<Rightarrow> window_plan \<Rightarrow> int \<Rightarrow> int \<Rightarrow> int \<Rightarrow> int \<Rightarrow> int \<Rightarrow> zone_error + planned_window list" where
  "project 0 zones plan period free t until saved_at = Inr []"
| "project (Suc n) zones plan period free t until saved_at =
     (case next_start zones plan period free t saved_at of
        Inl e \<Rightarrow> Inl e
      | Inr None \<Rightarrow> Inr []
      | Inr (Some start) \<Rightarrow>
          if until \<le> st_at start then Inr []
          else map_sum id
                 ((#) \<lparr>pw_from = st_at start, pw_to = st_at start + period, pw_reason = st_reason start,
                       pw_target = st_target start\<rparr>)
                 (project n zones plan period (st_at start + period) (st_at start + period) until saved_at))"

definition project_windows :: "zone_table \<Rightarrow> window_plan \<Rightarrow> int \<Rightarrow> int \<Rightarrow> int \<Rightarrow> int \<Rightarrow> int \<Rightarrow> zone_error + planned_window list" where
  "project_windows zones plan period idle_from now until saved_at = project 48 zones plan period idle_from now until saved_at"

section \<open>Lemmas on the calendar\<close>

lemmas margin_defs = start_margin_ms_def reset_margin_ms_def hour_grace_ms_def lead_grace_ms_def fit_slack_ms_def

lemma sort_head:
  fixes y :: "'a::linorder"
  assumes "sort xs = y # ys"
  shows "y \<in> set xs" "\<And>z. z \<in> set xs \<Longrightarrow> y \<le> z"
proof -
  have "set (sort xs) = set xs" by simp
  then show mem: "y \<in> set xs" using assms by (metis list.set_intros(1))
  have "sorted (y # ys)" using assms by (metis sorted_sort)
  then show "y \<le> z" if "z \<in> set xs" for z
    using that \<open>set (sort xs) = set xs\<close> assms by auto
qed

lemma sort_Nil_iff: "sort xs = [] \<longleftrightarrow> xs = []"
  by (metis set_empty set_sort)



text \<open>The instant found shows the wanted wall clock or is the later of the two candidates.\<close>

lemma local_time_to_utc_cases:
  fixes zone defines "wall \<equiv> \<lambda>date minutes. date * day_ms + minutes * 60000"
  shows "local_time_to_utc date minutes zone + offset_at zone (local_time_to_utc date minutes zone) = wall date minutes
    \<or> local_time_to_utc date minutes zone
      = max (wall date minutes - offset_at zone (wall date minutes - day_ms))
            (wall date minutes - offset_at zone (wall date minutes + day_ms))"
proof -
  let ?w = "wall date minutes"
  let ?cs = "[?w - offset_at zone (?w - day_ms), ?w - offset_at zone (?w + day_ms)]"
  show ?thesis
  proof (cases "sort (filter (\<lambda>t. t + offset_at zone t = ?w) ?cs)")
    case Nil
    then show ?thesis unfolding local_time_to_utc_def Let_def wall_def by simp
  next
    case (Cons t ts)
    then have "t + offset_at zone t = ?w" using sort_head(1) [OF Cons] by (simp only: set_filter mem_Collect_eq)
    moreover have "local_time_to_utc date minutes zone = t"
      using Cons unfolding local_time_to_utc_def Let_def wall_def by simp
    ultimately show ?thesis by simp
  qed
qed


lemma occurrence_in_sound:
  "occurrence_in zone minutes days from first offsets = Some t \<Longrightarrow>
     from \<le> t \<and> (\<exists>i \<in> set offsets. \<exists>m \<in> set minutes.
        t = local_time_to_utc (first + i) m zone \<and> (days = [] \<or> weekday_of (first + i) \<in> set days))"
proof (induction zone minutes days "from" first offsets rule: occurrence_in.induct)
  case (2 zone minutes days "from" first i offsets)
  let ?c = "sort (filter (\<lambda>t. from \<le> t) (map (\<lambda>m. local_time_to_utc (first + i) m zone) minutes))"
  show ?case
  proof (cases "days \<noteq> [] \<and> weekday_of (first + i) \<notin> set days")
    case True
    with 2(1) [OF refl] 2(3) show ?thesis by (auto simp: Let_def)
  next
    case day: False
    show ?thesis
    proof (cases ?c)
      case Nil
      with 2(2) [OF refl day Nil] 2(3) day show ?thesis by (auto simp: Let_def)
    next
      case (Cons x xs)
      with 2(3) day have "t = x" by (auto simp: Let_def split: if_splits)
      with sort_head(1) [OF Cons] day show ?thesis by auto
    qed
  qed
qed simp

lemma next_occurrence_sound:
  assumes "next_occurrence zones hours days tz from = Some t"
  obtains zone date h where "zones tz = Some zone" "h \<in> set hours" "t = local_time_to_utc date (clock_minutes h) zone"
    "days = [] \<or> weekday_of date \<in> set days" "from \<le> t"
proof -
  from assms obtain zone where z: "zones tz = Some zone"
    and run: "occurrence_in zone (map clock_minutes hours) days from (lp_date (local_parts_of zone from)) [0..8] = Some t"
    by (auto simp: next_occurrence_def split: if_splits option.splits)
  from occurrence_in_sound [OF run] z that show thesis by auto
qed

lemma next_occurrence_ge: "next_occurrence zones hours days tz from = Some t \<Longrightarrow> from \<le> t"
  by (rule next_occurrence_sound)









section \<open>Lemmas on starts\<close>

lemma next_active_ge:
  assumes "next_active zones plan t = Inr (Some u)"
  shows "t \<le> u"
  using assms by (auto simp: next_active_def Let_def split: if_splits sum.splits dest: next_occurrence_ge)

lemma lead_start_spec:
  assumes "lead_start n period idle_from now anchor = Some s"
  obtains w where "1 \<le> w" "w \<le> n" "st_at s = max (anchor - int w * period + start_margin_ms) now"
    "idle_from + reset_margin_ms \<le> anchor - int w * period + start_margin_ms"
    "now \<le> anchor - int w * period + start_margin_ms + lead_grace_ms"
    "st_reason s = ReasonLead" "st_target s = Some anchor"
  using assms
proof (induction n arbitrary: thesis)
  case (Suc n)
  show ?case
  proof (cases "idle_from + reset_margin_ms \<le> anchor - int (Suc n) * period + start_margin_ms
      \<and> now \<le> anchor - int (Suc n) * period + start_margin_ms + lead_grace_ms")
    case True
    with Suc.prems(2) have s: "s = \<lparr>st_at = max (anchor - int (Suc n) * period + start_margin_ms) now,
        st_reason = ReasonLead, st_target = Some anchor\<rparr>" by (simp add: Let_def)
    show ?thesis by (rule Suc.prems(1) [of "Suc n"]) (use s True in simp_all)
  next
    case False
    with Suc.prems(2) have run: "lead_start n period idle_from now anchor = Some s"
      unfolding lead_start.simps Let_def by (simp only: if_False)
    show ?thesis by (rule Suc.IH [OF _ run]) (rule Suc.prems(1), auto)
  qed
qed simp

text \<open>The cases of a start; every property of starts goes through them.\<close>

lemma next_start_cases:
  assumes "next_start zones plan period idle_from now saved_at = Inr (Some s)"
  obtains
    (reset) "wp_mode plan = PlanReset" "st_reason s = ReasonReset" "st_target s = None"
      "next_active zones plan (max (idle_from + reset_margin_ms) now) = Inr (Some (st_at s))"
  | (rolling) anchor where "wp_mode plan = PlanHour" "wp_rolling plan" "st_reason s = ReasonRolling" "st_target s = None"
      "next_occurrence zones (wp_times plan) (wp_days plan) (wp_time_zone plan)
         (max (max idle_from now - hour_grace_ms) saved_at) = Some anchor"
      "max idle_from now < anchor"
      "st_at s = max (idle_from + reset_margin_ms) now" "st_at s + period \<le> anchor + fit_slack_ms"
  | (lead) anchor w where "wp_mode plan = PlanHour" "st_reason s = ReasonLead" "st_target s = Some anchor"
      "next_occurrence zones (wp_times plan) (wp_days plan) (wp_time_zone plan)
         (max (max idle_from now - hour_grace_ms) saved_at) = Some anchor"
      "1 \<le> w" "w \<le> nat (wp_lead plan)" "st_at s = max (anchor - int w * period + start_margin_ms) now"
      "idle_from + reset_margin_ms \<le> anchor - int w * period + start_margin_ms"
      "now \<le> anchor - int w * period + start_margin_ms + lead_grace_ms"
  | (hour) anchor where "wp_mode plan = PlanHour" "st_reason s = ReasonHour" "st_target s = Some anchor"
      "next_occurrence zones (wp_times plan) (wp_days plan) (wp_time_zone plan)
         (max (max idle_from now - hour_grace_ms) saved_at) = Some anchor"
      "st_at s = max (anchor + start_margin_ms) (max (idle_from + reset_margin_ms) now)"
proof (cases "wp_mode plan")
  case PlanOff
  with assms show thesis by (simp add: next_start_def)
next
  case PlanReset
  with assms obtain z where z: "next_active zones plan (max (idle_from + reset_margin_ms) now) = Inr z"
      "Some s = map_option (\<lambda>t. \<lparr>st_at = t, st_reason = ReasonReset, st_target = None\<rparr>) z"
    by (auto simp: next_start_def Let_def)
  then obtain u where "z = Some u" "s = \<lparr>st_at = u, st_reason = ReasonReset, st_target = None\<rparr>" by (cases z) auto
  with z PlanReset reset show thesis by simp
next
  case PlanHour
  let ?from = "max (max idle_from now - hour_grace_ms) saved_at"
  from assms PlanHour obtain anchor where a: "next_occurrence zones (wp_times plan) (wp_days plan) (wp_time_zone plan) ?from
      = Some anchor" by (auto simp: next_start_def Let_def split: option.splits)
  have eq: "next_start zones plan period idle_from now saved_at =
      (if wp_rolling plan \<and> max idle_from now < anchor
          \<and> max (idle_from + reset_margin_ms) now + period \<le> anchor + fit_slack_ms
       then Inr (Some \<lparr>st_at = max (idle_from + reset_margin_ms) now, st_reason = ReasonRolling, st_target = None\<rparr>)
       else (case lead_start (nat (wp_lead plan)) period idle_from now anchor of
           Some start \<Rightarrow> Inr (Some start)
         | None \<Rightarrow> Inr (Some \<lparr>st_at = max (anchor + start_margin_ms) (max (idle_from + reset_margin_ms) now),
                            st_reason = ReasonHour, st_target = Some anchor\<rparr>)))"
    unfolding next_start_def Let_def PlanHour a by (simp only: plan_mode.case option.case)
  show thesis
  proof (cases "wp_rolling plan \<and> max idle_from now < anchor
      \<and> max (idle_from + reset_margin_ms) now + period \<le> anchor + fit_slack_ms")
    case True
    with assms PlanHour a have "s = \<lparr>st_at = max (idle_from + reset_margin_ms) now, st_reason = ReasonRolling,
        st_target = None\<rparr>" by (auto simp: next_start_def Let_def)
    with True PlanHour a rolling [of anchor] show thesis by simp
  next
    case roll: False
    show thesis
    proof (cases "lead_start (nat (wp_lead plan)) period idle_from now anchor")
      case None
      have "s = \<lparr>st_at = max (anchor + start_margin_ms) (max (idle_from + reset_margin_ms) now),
          st_reason = ReasonHour, st_target = Some anchor\<rparr>"
        using assms unfolding eq if_not_P [OF roll] None by simp
      with PlanHour a hour [of anchor] show thesis by simp
    next
      case (Some s')
      have "s = s'" using assms unfolding eq if_not_P [OF roll] Some by simp
      with Some have run: "lead_start (nat (wp_lead plan)) period idle_from now anchor = Some s" by simp
      show thesis by (rule lead_start_spec [OF run]) (rule lead [of anchor], auto simp: PlanHour a)
    qed
  qed
qed

lemma next_start_after:
  assumes "next_start zones plan period idle_from now saved_at = Inr (Some s)"
  shows "now \<le> st_at s" "idle_from + reset_margin_ms \<le> st_at s"
proof -
  have "now \<le> st_at s \<and> idle_from + reset_margin_ms \<le> st_at s"
  proof (cases rule: next_start_cases [OF assms])
    case 1
    from next_active_ge [OF 1(4)] show ?thesis by simp
  qed auto
  then show "now \<le> st_at s" "idle_from + reset_margin_ms \<le> st_at s" by auto
qed

lemma project_bounds:
  "project n zones plan period free t until saved_at = Inr ws \<Longrightarrow> 0 \<le> period \<Longrightarrow>
     length ws \<le> n
     \<and> (\<forall>w \<in> set ws. t \<le> pw_from w \<and> free + reset_margin_ms \<le> pw_from w \<and> pw_from w < until \<and> pw_to w = pw_from w + period)
     \<and> sorted_wrt (\<lambda>v w. pw_to v + reset_margin_ms \<le> pw_from w) ws"
proof (induction n zones plan period free t until saved_at arbitrary: ws rule: project.induct)
  case (2 n zones plan period free t until saved_at)
  show ?case
  proof (cases "next_start zones plan period free t saved_at")
    case (Inr o_s)
    show ?thesis
    proof (cases o_s)
      case (Some s)
      show ?thesis
      proof (cases "until \<le> st_at s")
        case False
        with 2(2) Inr Some obtain vs where
          ws: "ws = \<lparr>pw_from = st_at s, pw_to = st_at s + period, pw_reason = st_reason s, pw_target = st_target s\<rparr> # vs"
          and vs: "project n zones plan period (st_at s + period) (st_at s + period) until saved_at = Inr vs"
          by auto
        note after = next_start_after [OF Inr [unfolded Some]]
        from 2(1) [OF Inr [unfolded Some] refl False vs 2(3)] 2(3) after False show ?thesis
          unfolding ws by (force simp: reset_margin_ms_def)
      qed (use 2(2) Inr Some in simp)
    qed (use 2(2) Inr in simp)
  qed (use 2(2) in simp)
qed simp

section \<open>Canonical plans\<close>

text \<open>The document a plan is stored and sent as.\<close>

fun mode_text :: "plan_mode \<Rightarrow> string" where
  "mode_text PlanOff = ''off''"
| "mode_text PlanHour = ''hour''"
| "mode_text PlanReset = ''reset''"

definition plan_model_json :: "plan_model \<Rightarrow> json" where
  "plan_model_json m = JObj [(''providerID'', JStr (pm_provider m)), (''modelID'', JStr (pm_model m))]"

definition plan_json :: "window_plan \<Rightarrow> json" where
  "plan_json p =
     JObj ([(''mode'', JStr (mode_text (wp_mode p))),
            (''times'', JArr (map JStr (wp_times p))),
            (''days'', JArr (map JNum (wp_days p))),
            (''lead'', JNum (wp_lead p)),
            (''rolling'', JBool (wp_rolling p))]
       @ opt_entry ''activeFrom'' JStr (wp_active_from p)
       @ opt_entry ''activeUntil'' JStr (wp_active_until p)
       @ [(''timeZone'', JStr (wp_time_zone p))]
       @ opt_entry ''model'' plan_model_json (wp_model p)
       @ opt_entry ''skipMeters'' (\<lambda>xs. JArr (map JStr xs)) (wp_skip_meters p))"

fun opt_all :: "('a \<Rightarrow> bool) \<Rightarrow> 'a option \<Rightarrow> bool" where
  "opt_all P None = True"
| "opt_all P (Some x) = P x"

definition plan_ok :: "zone_table \<Rightarrow> window_plan \<Rightarrow> bool" where
  "plan_ok zones p \<longleftrightarrow>
     sorted (wp_times p) \<and> distinct (wp_times p) \<and> length (wp_times p) \<le> max_times \<and> list_all clock_text (wp_times p)
     \<and> (wp_mode p = PlanHour \<longrightarrow> wp_times p \<noteq> [])
     \<and> sorted (wp_days p) \<and> distinct (wp_days p) \<and> list_all (\<lambda>d. 0 \<le> d \<and> d \<le> 6) (wp_days p)
     \<and> 0 \<le> wp_lead p \<and> wp_lead p \<le> max_lead
     \<and> (wp_active_from p = None \<longleftrightarrow> wp_active_until p = None)
     \<and> opt_all clock_text (wp_active_from p) \<and> opt_all clock_text (wp_active_until p)
     \<and> is_valid_time_zone zones (Some (JStr (wp_time_zone p)))
     \<and> (case wp_model p of None \<Rightarrow> True
        | Some m \<Rightarrow> short_id (Some (JStr (pm_provider m))) \<and> short_id (Some (JStr (pm_model m))))
     \<and> (case wp_skip_meters p of None \<Rightarrow> True
        | Some xs \<Rightarrow> xs \<noteq> [] \<and> distinct xs \<and> length xs \<le> 8 \<and> list_all (\<lambda>x. meter_id (JStr x)) xs)"

lemma unique_simps [simp]:
  "set (unique xs) = set xs" "distinct (unique xs)" "unique xs = [] \<longleftrightarrow> xs = []"
  by (simp_all add: unique_def)

lemma unique_distinct [simp]: "distinct xs \<Longrightarrow> unique xs = xs"
  by (simp add: unique_def distinct_remdups_id)

lemma length_unique_le: "length (unique xs) \<le> length xs"
  using length_remdups_leq [of "rev xs"] by (simp add: unique_def)

lemma is_clock_time_text: "is_clock_time x \<longleftrightarrow> x = JStr (json_text x) \<and> clock_text (json_text x)"
  by (cases x) auto

lemma is_weekday_int: "is_weekday x \<longleftrightarrow> x = JNum (json_int x) \<and> 0 \<le> json_int x \<and> json_int x \<le> 6"
  by (cases x) auto

lemma meter_id_text: "meter_id x \<Longrightarrow> x = JStr (json_text x)"
  by (cases x) auto

lemma short_id_text: "short_id v \<Longrightarrow> short_id (Some (JStr (json_text (nullish v JNull))))"
  by (cases v rule: short_id.cases) auto

lemma times_of_ok:
  "times_of v = Some hours \<Longrightarrow> length hours \<le> max_times \<and> list_all clock_text hours"
  by (auto simp: times_of_def list_all_iff is_clock_time_text split: option.splits if_splits)

lemma days_of_ok: "days_of v = Some days \<Longrightarrow> list_all (\<lambda>d. 0 \<le> d \<and> d \<le> 6) days"
  by (auto simp: days_of_def list_all_iff is_weekday_int split: option.splits if_splits)

lemma lead_of_ok: "lead_of v = Some n \<Longrightarrow> 0 \<le> n \<and> n \<le> max_lead"
  by (auto simp: lead_of_def split: json.splits if_splits)

lemma active_of_ok:
  "active_of f u = Some a \<Longrightarrow> case a of None \<Rightarrow> True | Some (x, y) \<Rightarrow> clock_text x \<and> clock_text y"
  by (auto simp: active_of_def is_clock_time_text split: option.splits if_splits)

lemma plan_model_of_ok:
  "plan_model_of v = Some m \<Longrightarrow> case m of None \<Rightarrow> True
     | Some r \<Rightarrow> short_id (Some (JStr (pm_provider r))) \<and> short_id (Some (JStr (pm_model r)))"
  by (auto simp: plan_model_of_def dest: short_id_text split: option.splits if_splits)

lemma skip_meters_of_ok:
  "skip_meters_of v = Some xs \<Longrightarrow> length xs \<le> 8 \<and> list_all (\<lambda>x. meter_id (JStr x)) xs"
  by (auto simp: skip_meters_of_def list_all_iff split: option.splits if_splits) (metis meter_id_text)

lemma is_valid_time_zone_text:
  "is_valid_time_zone zones v \<Longrightarrow> is_valid_time_zone zones (Some (JStr (json_text (nullish v JNull))))"
  by (auto simp: is_valid_time_zone_def split: option.splits json.splits)

lemma parse_plan_cases:
  assumes "parse_plan zones raw = Inr p"
  obtains input mode hours days lead rolling active model skip where "raw = JObj input"
    "parse_mode (map_of input ''mode'') = Some mode" "is_valid_time_zone zones (map_of input ''timeZone'')"
    "times_of (map_of input ''times'') = Some hours" "mode = PlanHour \<longrightarrow> hours \<noteq> []"
    "days_of (map_of input ''days'') = Some days" "lead_of (map_of input ''lead'') = Some lead"
    "rolling_of (map_of input ''rolling'') = Some rolling"
    "active_of (map_of input ''activeFrom'') (map_of input ''activeUntil'') = Some active"
    "plan_model_of (map_of input ''model'') = Some model" "skip_meters_of (map_of input ''skipMeters'') = Some skip"
    "p = \<lparr>wp_mode = mode, wp_times = sort (unique hours), wp_days = sort (unique days), wp_lead = lead,
          wp_rolling = rolling, wp_active_from = map_option fst active, wp_active_until = map_option snd active,
          wp_time_zone = json_text (nullish (map_of input ''timeZone'') JNull), wp_model = model,
          wp_skip_meters = (if skip = [] then None else Some (unique skip))\<rparr>"
  using assms by (auto simp: parse_plan_def split: json.splits option.splits if_splits)

lemma parse_plan_result:
  assumes "parse_plan zones raw = Inr p"
  shows "plan_ok zones p"
  using assms
proof (cases rule: parse_plan_cases)
  case (1 input mode hours days lead rolling active model skip)
  note facts = times_of_ok [OF 1(4)] days_of_ok [OF 1(6)] lead_of_ok [OF 1(7)] active_of_ok [OF 1(9)]
    plan_model_of_ok [OF 1(10)] skip_meters_of_ok [OF 1(11)] is_valid_time_zone_text [OF 1(3)]
  have act: "opt_all clock_text (map_option fst active)" "opt_all clock_text (map_option snd active)"
    using facts(4) by (auto split: option.splits)
  have len: "length (sort (unique hours)) \<le> max_times" "length (unique skip) \<le> 8"
    using facts(1,6) length_unique_le [of hours] length_unique_le [of skip] by simp_all
  have all: "list_all clock_text (sort (unique hours))" "list_all (\<lambda>d. 0 \<le> d \<and> d \<le> 6) (sort (unique days))"
      "list_all (\<lambda>x. meter_id (JStr x)) (unique skip)"
    using facts(1,2,6) by (simp_all add: list_all_iff)
  show ?thesis
    unfolding plan_ok_def 1(12) using 1(5) facts(3,5,7) act len all by (auto simp: sort_Nil_iff)
qed

lemma parse_mode_text: "parse_mode (Some (JStr (mode_text m))) = Some m"
  by (cases m) (simp_all add: parse_mode_def)

lemma times_of_json: "length hours \<le> max_times \<Longrightarrow> list_all clock_text hours \<Longrightarrow>
    times_of (Some (JArr (map JStr hours))) = Some hours"
  by (simp add: times_of_def list_all_iff comp_def)

lemma days_of_json: "list_all (\<lambda>d. 0 \<le> d \<and> d \<le> 6) days \<Longrightarrow> days_of (Some (JArr (map JNum days))) = Some days"
  by (simp add: days_of_def list_all_iff comp_def)

lemma skip_meters_of_json: "length xs \<le> 8 \<Longrightarrow> list_all (\<lambda>x. meter_id (JStr x)) xs \<Longrightarrow>
    skip_meters_of (Some (JArr (map JStr xs))) = Some xs"
  by (simp add: skip_meters_of_def list_all_iff comp_def)

lemma plan_model_of_json: "short_id (Some (JStr (pm_provider m))) \<Longrightarrow> short_id (Some (JStr (pm_model m))) \<Longrightarrow>
    plan_model_of (Some (plan_model_json m)) = Some (Some m)"
  by (simp add: plan_model_of_def plan_model_json_def)

lemma absent_fields: "plan_model_of None = Some None" "skip_meters_of None = Some []"
  by (simp_all add: plan_model_of_def skip_meters_of_def)

lemma plan_json_fields:
  assumes "plan_json p = JObj input"
  shows "map_of input ''mode'' = Some (JStr (mode_text (wp_mode p)))"
    "map_of input ''times'' = Some (JArr (map JStr (wp_times p)))"
    "map_of input ''days'' = Some (JArr (map JNum (wp_days p)))"
    "map_of input ''lead'' = Some (JNum (wp_lead p))"
    "map_of input ''rolling'' = Some (JBool (wp_rolling p))"
    "map_of input ''activeFrom'' = map_option JStr (wp_active_from p)"
    "map_of input ''activeUntil'' = map_option JStr (wp_active_until p)"
    "map_of input ''timeZone'' = Some (JStr (wp_time_zone p))"
    "map_of input ''model'' = map_option plan_model_json (wp_model p)"
    "map_of input ''skipMeters'' = map_option (\<lambda>xs. JArr (map JStr xs)) (wp_skip_meters p)"
  using assms unfolding plan_json_def
  by (auto simp: map_add_def opt_entry_def split: option.split)

lemma parse_plan_json:
  assumes "plan_ok zones p"
  shows "parse_plan zones (plan_json p) = Inr p"
proof -
  obtain input where j: "plan_json p = JObj input" by (simp add: plan_json_def)
  note f = plan_json_fields [OF j]
  have times: "times_of (map_of input ''times'') = Some (wp_times p)"
    and days: "days_of (map_of input ''days'') = Some (wp_days p)"
    using assms by (simp_all add: f plan_ok_def times_of_json days_of_json)
  have lead: "lead_of (map_of input ''lead'') = Some (wp_lead p)"
    using assms by (auto simp: f plan_ok_def lead_of_def)
  have rolling: "rolling_of (map_of input ''rolling'') = Some (wp_rolling p)"
    by (simp add: f rolling_of_def)
  have active: "active_of (map_of input ''activeFrom'') (map_of input ''activeUntil'')
      = Some (if wp_active_from p = None then None else Some (nullish (wp_active_from p) [], nullish (wp_active_until p) []))"
    using assms by (cases "wp_active_from p"; cases "wp_active_until p") (auto simp: f plan_ok_def active_of_def)
  have model: "plan_model_of (map_of input ''model'') = Some (wp_model p)"
    using assms by (cases "wp_model p") (auto simp: f plan_ok_def plan_model_of_json absent_fields)
  have skip: "skip_meters_of (map_of input ''skipMeters'') = Some (nullish (wp_skip_meters p) [])"
    using assms by (cases "wp_skip_meters p") (auto simp: f plan_ok_def skip_meters_of_json absent_fields)
  have zone: "is_valid_time_zone zones (Some (JStr (wp_time_zone p)))" using assms by (simp add: f plan_ok_def)
  have some: "wp_mode p = PlanHour \<Longrightarrow> wp_times p \<noteq> []" using assms by (simp add: plan_ok_def)
  have "parse_plan zones (plan_json p) =
      Inr \<lparr>wp_mode = wp_mode p, wp_times = sort (unique (wp_times p)), wp_days = sort (unique (wp_days p)),
        wp_lead = wp_lead p, wp_rolling = wp_rolling p,
        wp_active_from = (if wp_active_from p = None then None else Some (nullish (wp_active_from p) [])),
        wp_active_until = (if wp_active_from p = None then None else Some (nullish (wp_active_until p) [])),
        wp_time_zone = wp_time_zone p, wp_model = wp_model p,
        wp_skip_meters = (if nullish (wp_skip_meters p) [] = [] then None else Some (unique (nullish (wp_skip_meters p) [])))\<rparr>"
    using some
    by (simp add: parse_plan_def j times days lead rolling active model skip zone f(1,8) parse_mode_text)
  also have "\<dots> = Inr p"
    using assms by (cases "wp_active_from p"; cases "wp_active_until p"; cases "wp_skip_meters p")
      (auto simp: plan_ok_def sorted_sort_id intro!: window_plan.equality)
  finally show ?thesis .
qed

section \<open>Properties\<close>

text \<open>
  C23: Whatever document a person sends, an accepted plan is canonical (at most six sorted
  and distinct clock times, at least one when the plan follows the hour, sorted weekdays,
  a lead of 0 to 3, both ends of the active range or neither, a known time zone), and
  sending or storing it again yields the very same plan.
\<close>

theorem parse_plan_canonical:
  assumes "parse_plan zones raw = Inr p"
  shows "plan_ok zones p \<and> parse_plan zones (plan_json p) = Inr p"
  using parse_plan_result [OF assms] parse_plan_json by blast

lemma parse_plan_canonical_witness:
  "\<exists>p. parse_plan (\<lambda>_. Some (\<lambda>_. 0))
      (JObj [(''mode'', JStr ''hour''), (''timeZone'', JStr ''UTC''), (''times'', JArr [JStr ''13:30'', JStr ''09:00'', JStr ''13:30'']),
             (''days'', JArr [JNum 5, JNum 1])]) = Inr p
    \<and> wp_times p = [''09:00'', ''13:30''] \<and> plan_ok (\<lambda>_. Some (\<lambda>_. 0)) p
    \<and> parse_plan (\<lambda>_. Some (\<lambda>_. 0)) (plan_json p) = Inr p"
proof -
  let ?z = "\<lambda>_. Some (\<lambda>_. 0)"
  let ?p = "\<lparr>wp_mode = PlanHour, wp_times = [''09:00'', ''13:30''], wp_days = [1, 5], wp_lead = 0, wp_rolling = False,
    wp_active_from = None, wp_active_until = None, wp_time_zone = ''UTC'', wp_model = None, wp_skip_meters = None\<rparr>"
  have run: "parse_plan ?z
      (JObj [(''mode'', JStr ''hour''), (''timeZone'', JStr ''UTC''), (''times'', JArr [JStr ''13:30'', JStr ''09:00'', JStr ''13:30'']),
             (''days'', JArr [JNum 5, JNum 1])]) = Inr ?p"
    by code_simp
  from run parse_plan_canonical [OF run] show ?thesis by (intro exI [of _ ?p]) simp
qed

text \<open>
  The forecast of a plan lists at most 48 windows. Each starts before the horizon, not
  before now and not earlier than five seconds after the current window is over, lasts
  exactly one period, and the windows never overlap: each starts at least five seconds
  after the one before it ends.
\<close>

theorem projection_disjoint:
  assumes "project_windows zones plan period idle_from now until saved_at = Inr ws" "0 \<le> period"
  shows "length ws \<le> 48
    \<and> (\<forall>w \<in> set ws. now \<le> pw_from w \<and> idle_from + reset_margin_ms \<le> pw_from w \<and> pw_from w < until
         \<and> pw_to w = pw_from w + period)
    \<and> sorted_wrt (\<lambda>v w. pw_to v + reset_margin_ms \<le> pw_from w) ws"
  using project_bounds [OF assms(1) [unfolded project_windows_def] assms(2)] .

definition demo_plan :: window_plan where
  "demo_plan = (default_plan ''UTC'')\<lparr>wp_mode := PlanHour, wp_times := [''09:00'']\<rparr>"

lemma projection_disjoint_witness:
  "\<exists>ws. project_windows (\<lambda>_. Some (\<lambda>_. 0)) demo_plan 18000000 0 0 50000000 0 = Inr ws \<and> length ws = 2
    \<and> sorted_wrt (\<lambda>v w. pw_to v + reset_margin_ms \<le> pw_from w) ws"
proof -
  have run: "project_windows (\<lambda>_. Some (\<lambda>_. 0)) demo_plan 18000000 0 0 50000000 0 =
      Inr [\<lparr>pw_from = 14445000, pw_to = 32445000, pw_reason = ReasonLead, pw_target = Some 32400000\<rparr>,
           \<lparr>pw_from = 32450000, pw_to = 50450000, pw_reason = ReasonHour, pw_target = Some 32400000\<rparr>]"
    by code_simp
  with projection_disjoint [OF run] show ?thesis by simp
qed

end
