(* ===== verification/WindowDecide.thy ===== *)
theory WindowDecide
  imports WindowPlan
begin

text \<open>
  The decision for one meter of one account, packages/limit-windows/src/decide.ts, and the
  stored plans and start history it reads, packages/limit-windows/src/store.ts.
\<close>

section \<open>Starts that were made\<close>

datatype ping_outcome = PingSending | PingSent | PingStarted | PingNoEffect | PingFailed | PingUnconfirmed

record ping_record =
  pg_id :: string
  pg_at :: int
  pg_window :: string
  pg_period :: int
  pg_reason :: start_reason
  pg_target :: "int option"
  pg_provider :: string
  pg_model :: string
  pg_outcome :: ping_outcome
  pg_latency :: "int option"
  pg_reset :: "int option"
  pg_error :: "string option"

definition verify_delay_ms :: int where
  "verify_delay_ms = 150000"

definition max_pings_per_day :: nat where
  "max_pings_per_day = 24"

definition failure_backoff_ms :: "int list" where
  "failure_backoff_ms = [10 * 60000, 30 * 60000, 60 * 60000, 3 * 60 * 60000]"

definition no_effect_hold_ms :: int where
  "no_effect_hold_ms = 6 * 60 * 60000"

definition recheck_ms :: int where
  "recheck_ms = 10 * 60000"

datatype hold_reason = HoldExhausted | HoldNoReading | HoldUnknownReset | HoldFailing | HoldNoEffect | HoldBudget

datatype decision =
    DecisionOff
  | DecisionPing window_start limit_window
  | DecisionVerify int ping_record
  | DecisionWait int "window_start option" "limit_window option" "hold_reason option"

fun consecutive :: "ping_record list \<Rightarrow> ping_outcome \<Rightarrow> nat" where
  "consecutive [] outcome = 0"
| "consecutive (r # rs) outcome = (if pg_outcome r \<noteq> outcome then 0 else Suc (consecutive rs outcome))"

definition spent :: "ping_record list \<Rightarrow> int \<Rightarrow> ping_record list" where
  "spent records now = filter (\<lambda>r. now - day_ms < pg_at r) records"

section \<open>The decision\<close>

definition is_open :: "ping_record \<Rightarrow> bool" where
  "is_open r \<longleftrightarrow> pg_outcome r = PingSending \<or> pg_outcome r = PingSent"

definition verify_at :: "ping_record \<Rightarrow> int" where
  "verify_at r = pg_at r + nullish (pg_latency r) 0 + verify_delay_ms"

definition failure_until :: "ping_record \<Rightarrow> nat \<Rightarrow> int" where
  "failure_until l failures = pg_at l + failure_backoff_ms ! (min failures (length failure_backoff_ms) - 1)"

definition assumed_over :: "ping_record list \<Rightarrow> int" where
  "assumed_over records =
     (case records of
        [] \<Rightarrow> 0
      | l # _ \<Rightarrow> if pg_outcome l = PingUnconfirmed then pg_at l + pg_period l else 0)"

text \<open>What is decided once nothing of the history holds the meter back.\<close>

definition decide_start :: "zone_table \<Rightarrow> window_plan \<Rightarrow> int \<Rightarrow> meter \<Rightarrow> limit_source \<Rightarrow> ping_record list \<Rightarrow> int
    \<Rightarrow> zone_error + decision" where
  "decide_start zones plan saved_at m source records now =
     (let exhausted = exhausted_until m now in
      if exhausted = Some Never then Inr (DecisionWait (now + recheck_ms) None None (Some HoldExhausted))
      else
        (case meter_timing m (if wp_mode plan = PlanReset then ByReset else ByHour) (ls_fetched_at source) now of
           (w, None) \<Rightarrow> Inr (DecisionWait (now + recheck_ms) None (Some w) (Some HoldUnknownReset))
         | (w, Some idle_from) \<Rightarrow>
             (let period = nullish (lw_period w) 0;
                  until = (case exhausted of Some (UntilTime t) \<Rightarrow> Some t | _ \<Rightarrow> None);
                  free = max (max idle_from (nullish until 0)) (assumed_over records)
              in case next_start zones plan period free now saved_at of
                   Inl e \<Rightarrow> Inl e
                 | Inr None \<Rightarrow> Inr (DecisionWait (now + recheck_ms) None (Some w) None)
                 | Inr (Some start) \<Rightarrow>
                     (case until of
                        Some t \<Rightarrow> Inr (DecisionWait (max now t) (Some start) (Some w) (Some HoldExhausted))
                      | None \<Rightarrow>
                          if st_at start \<le> now then Inr (DecisionPing start w)
                          else Inr (DecisionWait (st_at start) (Some start) (Some w) None)))))"

definition decide :: "zone_table \<Rightarrow> window_plan \<Rightarrow> int \<Rightarrow> meter \<Rightarrow> limit_source \<Rightarrow> ping_record list \<Rightarrow> int
    \<Rightarrow> zone_error + decision" where
  "decide zones plan saved_at m source records now =
     (let today = spent records now;
          failures = consecutive records PingFailed;
          no_effect = consecutive records PingNoEffect
      in if records \<noteq> [] \<and> is_open (hd records) then Inr (DecisionVerify (verify_at (hd records)) (hd records))
         else if wp_mode plan = PlanOff \<or> mt_id m \<in> set (nullish (wp_skip_meters plan) []) then Inr DecisionOff
         else if max_pings_per_day \<le> length today
         then Inr (DecisionWait (pg_at (last today) + day_ms) None None (Some HoldBudget))
         else if 0 < failures \<and> now < failure_until (hd records) failures
         then Inr (DecisionWait (failure_until (hd records) failures) None None (Some HoldFailing))
         else if 2 \<le> no_effect \<and> now < pg_at (hd records) + no_effect_hold_ms * int no_effect
         then Inr (DecisionWait (pg_at (hd records) + no_effect_hold_ms * int no_effect) None None (Some HoldNoEffect))
         else decide_start zones plan saved_at m source records now)"

definition judge_start :: "ping_record \<Rightarrow> limit_source \<Rightarrow> int \<Rightarrow> ping_outcome \<times> int option" where
  "judge_start r source now =
     (case find (\<lambda>w. lw_id w = pg_window r) (ls_windows source) of
        None \<Rightarrow> (PingUnconfirmed, None)
      | Some w \<Rightarrow>
          if ls_stale source \<or> ls_fetched_at source < pg_at r then (PingUnconfirmed, None)
          else
            (let phase = phase_of w (ls_fetched_at source) now in
             if phase = PhaseIdle then (PingNoEffect, None)
             else if phase = PhaseUnknown \<or> lw_resets_at w = None then (PingUnconfirmed, None)
             else (PingStarted, lw_resets_at w)))"

section \<open>The store\<close>

record stored_plan =
  sp_plan :: window_plan
  sp_space :: string
  sp_updated_by :: string
  sp_updated_at :: int
  sp_owner :: "string option"

record plan_store =
  ps_plans :: "(string, stored_plan) jsmap"
  ps_history :: "(string \<times> string, ping_record list) jsmap"
  ps_plans_file :: "json option"
  ps_history_file :: "(string \<times> string, ping_record list) jsmap option"

definition max_records :: nat where
  "max_records = 40"

definition stored_plan_json :: "stored_plan \<Rightarrow> json" where
  "stored_plan_json s =
     JObj ([(''plan'', plan_json (sp_plan s)), (''spaceId'', JStr (sp_space s)), (''updatedBy'', JStr (sp_updated_by s)),
            (''updatedAt'', JNum (sp_updated_at s))]
       @ opt_entry ''ownerUserId'' JStr (sp_owner s))"

definition plans_json :: "(string, stored_plan) jsmap \<Rightarrow> json" where
  "plans_json m = JObj [(''version'', JNum 1), (''plans'', JObj (map (\<lambda>(k, s). (k, stored_plan_json s)) m))]"

text \<open>One entry of the plans file; one this version cannot read stays unset.\<close>

definition read_stored_plan :: "zone_table \<Rightarrow> json \<Rightarrow> stored_plan option" where
  "read_stored_plan zones v =
     (case (json_str (json_field v ''spaceId''), json_str (json_field v ''updatedBy'')) of
        (Some sp, Some who) \<Rightarrow>
          (case parse_plan zones (nullish (json_field v ''plan'') JNull) of
             Inl _ \<Rightarrow> None
           | Inr plan \<Rightarrow>
               Some \<lparr>sp_plan = plan, sp_space = sp, sp_updated_by = who,
                     sp_updated_at = nullish (json_num (json_field v ''updatedAt'')) 0,
                     sp_owner = json_str (json_field v ''ownerUserId'')\<rparr>)
      | _ \<Rightarrow> None)"

fun load_plans :: "zone_table \<Rightarrow> (string \<times> json) list \<Rightarrow> (string, stored_plan) jsmap \<Rightarrow> (string, stored_plan) jsmap" where
  "load_plans zones [] m = m"
| "load_plans zones ((k, v) # kvs) m =
     load_plans zones kvs (case read_stored_plan zones v of None \<Rightarrow> m | Some s \<Rightarrow> jm_set k s m)"

text \<open>The files as they are found; the history file is taken at the level of its records.\<close>

definition create_plan_store :: "zone_table \<Rightarrow> json option \<Rightarrow> (string \<times> string, ping_record list) jsmap option \<Rightarrow> plan_store" where
  "create_plan_store zones plans_file history_file =
     \<lparr>ps_plans = (case plans_file of
                    None \<Rightarrow> []
                  | Some f \<Rightarrow> load_plans zones (object_entries (nullish (json_present (json_field f ''plans'')) (JObj []))) []),
      ps_history = map (\<lambda>(k, rs). (k, take max_records rs)) (nullish history_file []),
      ps_plans_file = plans_file, ps_history_file = history_file\<rparr>"

definition save_plan :: "string \<Rightarrow> stored_plan \<Rightarrow> plan_store \<Rightarrow> plan_store" where
  "save_plan sid s st =
     (let plans = jm_set sid s (ps_plans st)
      in st\<lparr>ps_plans := plans, ps_plans_file := Some (plans_json plans)\<rparr>)"

definition store_records :: "plan_store \<Rightarrow> string \<Rightarrow> string \<Rightarrow> ping_record list" where
  "store_records st sid mid = nullish (jm_get (ps_history st) (sid, mid)) []"

text \<open>\<open>list.map((row, at) => at === index ? record : row)\<close> with the index of the first row of that id.\<close>

fun replace_record :: "ping_record \<Rightarrow> ping_record list \<Rightarrow> ping_record list" where
  "replace_record r [] = []"
| "replace_record r (x # xs) = (if pg_id x = pg_id r then r # xs else x # replace_record r xs)"

definition next_records :: "ping_record \<Rightarrow> ping_record list \<Rightarrow> ping_record list" where
  "next_records r xs =
     take max_records (if list_ex (\<lambda>x. pg_id x = pg_id r) xs then replace_record r xs else r # xs)"

definition put_record :: "string \<Rightarrow> string \<Rightarrow> ping_record \<Rightarrow> plan_store \<Rightarrow> plan_store" where
  "put_record sid mid r st =
     (let history = jm_set (sid, mid) (next_records r (store_records st sid mid)) (ps_history st)
      in st\<lparr>ps_history := history, ps_history_file := Some history\<rparr>)"

section \<open>Lemmas\<close>

lemma exhausted_future:
  "exhausted_loop now ws until = Some (UntilTime t) \<Longrightarrow> (until = Some (UntilTime u) \<longrightarrow> now < u) \<Longrightarrow>
     (until = None \<or> (\<exists>u. until = Some (UntilTime u) \<and> now < u)) \<Longrightarrow> now < t"
proof (induction now ws until arbitrary: t u rule: exhausted_loop.induct)
  case (2 now w ws until)
  show ?case
  proof (cases "lw_used w < lw_limit w \<or> (\<exists>r. lw_resets_at w = Some r \<and> r \<le> now)")
    case True
    with 2 show ?thesis by (auto split: option.splits if_splits)
  next
    case False
    then have step: "exhausted_loop now (w # ws) until = exhausted_loop now ws (Some (later_refusal until (lw_resets_at w)))"
      by (auto split: option.splits)
    show ?thesis
    proof (cases "later_refusal until (lw_resets_at w)")
      case (UntilTime v)
      with False 2(5) have "now < v"
        by (auto simp: later_refusal_def split: option.splits refusal.splits)
      with 2(3) [of t v] 2(4) step False UntilTime show ?thesis by (auto split: option.splits)
    next
      case Never
      have "exhausted_loop now ws (Some Never) \<noteq> Some (UntilTime t)"
        using exhausted_loop_bound [of now ws "Some Never" t] by auto
      with 2(4) step Never show ?thesis by simp
    qed
  qed
qed auto

lemma exhausted_until_future: "exhausted_until m now = Some (UntilTime t) \<Longrightarrow> now < t"
  by (rule exhausted_future [of now "mt_windows m" None t 0]) (simp_all add: exhausted_until_def)

lemma consecutive_head: "0 < consecutive records outcome \<Longrightarrow> records \<noteq> [] \<and> pg_outcome (hd records) = outcome"
  by (cases records) (auto split: if_splits)

text \<open>The two stages of a decision by their results.\<close>

lemma decide_start_ping:
  assumes "decide_start zones plan saved_at m source records now = Inr (DecisionPing start w)"
  obtains idle_from where "exhausted_until m now = None"
    "meter_timing m (if wp_mode plan = PlanReset then ByReset else ByHour) (ls_fetched_at source) now = (w, Some idle_from)"
    "next_start zones plan (nullish (lw_period w) 0) (max (max idle_from 0) (assumed_over records)) now saved_at = Inr (Some start)"
    "st_at start \<le> now"
proof -
  obtain v o_i where t: "meter_timing m (if wp_mode plan = PlanReset then ByReset else ByHour) (ls_fetched_at source) now = (v, o_i)"
    by (cases "meter_timing m (if wp_mode plan = PlanReset then ByReset else ByHour) (ls_fetched_at source) now")
  show thesis
  proof (cases "exhausted_until m now")
    case None
    with assms t that show thesis
      by (auto simp: decide_start_def Let_def split: option.splits sum.splits if_splits)
  next
    case (Some r)
    with assms t show thesis
      by (cases r) (auto simp: decide_start_def Let_def split: option.splits sum.splits if_splits)
  qed
qed

lemma decide_start_wait:
  assumes "decide_start zones plan saved_at m source records now = Inr (DecisionWait t start w hold)"
  shows "now < t"
proof -
  obtain v o_i where tm: "meter_timing m (if wp_mode plan = PlanReset then ByReset else ByHour) (ls_fetched_at source) now = (v, o_i)"
    by (cases "meter_timing m (if wp_mode plan = PlanReset then ByReset else ByHour) (ls_fetched_at source) now")
  show ?thesis
  proof (cases "exhausted_until m now")
    case None
    with assms tm show ?thesis
      by (auto simp: decide_start_def Let_def recheck_ms_def split: option.splits sum.splits if_splits)
  next
    case (Some r)
    with assms tm exhausted_until_future [of m now] show ?thesis
      by (cases r) (auto simp: decide_start_def Let_def recheck_ms_def split: option.splits sum.splits if_splits)
  qed
qed

lemma decide_start_kinds:
  "decide_start zones plan saved_at m source records now = Inr d \<Longrightarrow> d \<noteq> DecisionOff \<and> (\<forall>t r. d \<noteq> DecisionVerify t r)"
  by (auto simp: decide_start_def Let_def split: option.splits sum.splits if_splits prod.splits)

lemma decide_ping:
  assumes "decide zones plan saved_at m source records now = Inr (DecisionPing start w)"
  shows "decide_start zones plan saved_at m source records now = Inr (DecisionPing start w)"
    "records = [] \<or> \<not> is_open (hd records)" "wp_mode plan \<noteq> PlanOff" "mt_id m \<notin> set (nullish (wp_skip_meters plan) [])"
    "length (spent records now) < max_pings_per_day"
    "consecutive records PingFailed = 0 \<or> failure_until (hd records) (consecutive records PingFailed) \<le> now"
    "consecutive records PingNoEffect < 2
      \<or> pg_at (hd records) + no_effect_hold_ms * int (consecutive records PingNoEffect) \<le> now"
  using assms by (auto simp: decide_def Let_def split: if_splits)

lemma consecutive_Nil_iff: "consecutive records outcome = 0 \<longleftrightarrow> records = [] \<or> pg_outcome (hd records) \<noteq> outcome"
  by (cases records) auto

lemma earliest_timing:
  assumes "meter_timing m mode fetched now = (w, Some idle_from)"
  shows "idle_from_of w fetched now = Some idle_from"
proof -
  let ?ws = "if mode = ByHour then [mt_primary m] else filter is_steerable (mt_windows m)"
  from assms have "earliest fetched now ?ws None = Some (w, idle_from)"
    by (auto simp: meter_timing_def Let_def split: option.splits prod.splits if_splits)
  from earliest_Some [OF this] show ?thesis by simp
qed

section \<open>The log of one meter\<close>

text \<open>
  Everything that was ever started for a meter, newest first: a planned start follows a
  decision on the stored part of the log, a manual one needs no decision, and the outcome
  of a record is filled in later. The clock does not run backwards.
\<close>

inductive start_log :: "zone_table \<Rightarrow> ping_record list \<Rightarrow> bool" for zones where
  empty_log: "start_log zones []"
| planned: "start_log zones rs \<Longrightarrow>
    decide zones plan saved_at m source (take max_records rs) now = Inr (DecisionPing start w) \<Longrightarrow>
    \<forall>x \<in> set rs. pg_at x \<le> now \<Longrightarrow> pg_at r = now \<Longrightarrow> start_log zones (r # rs)"
| manual: "start_log zones rs \<Longrightarrow> \<forall>x \<in> set rs. pg_at x \<le> pg_at r \<Longrightarrow> pg_reason r = ReasonManual \<Longrightarrow>
    start_log zones (r # rs)"
| outcome: "start_log zones (xs @ x # ys) \<Longrightarrow> pg_at r = pg_at x \<Longrightarrow> pg_reason r = pg_reason x \<Longrightarrow>
    start_log zones (xs @ r # ys)"

definition planned_in_day :: "int \<Rightarrow> ping_record list \<Rightarrow> nat" where
  "planned_in_day t rs = length (filter (\<lambda>r. pg_reason r \<noteq> ReasonManual \<and> t - day_ms < pg_at r \<and> pg_at r \<le> t) rs)"

lemma start_log_sorted: "start_log zones rs \<Longrightarrow> sorted_wrt (\<lambda>a b. pg_at b \<le> pg_at a) rs"
  by (induction rule: start_log.induct) (auto simp: sorted_wrt_append)

lemma spent_take:
  assumes "sorted_wrt (\<lambda>a b. pg_at b \<le> pg_at a) rs" "length (spent (take n rs) now) < n"
  shows "spent (take n rs) now = spent rs now"
proof (cases "length rs \<le> n")
  case False
  let ?late = "\<lambda>r. now - day_ms < pg_at r"
  have len: "length (take n rs) = n" using False by simp
  then have "\<exists>r \<in> set (take n rs). \<not> ?late r"
    using assms(2) by (metis filter_True less_irrefl spent_def)
  then obtain r where r: "r \<in> set (take n rs)" "\<not> ?late r" by blast
  have "\<not> ?late x" if "x \<in> set (drop n rs)" for x
  proof -
    have "sorted_wrt (\<lambda>a b. pg_at b \<le> pg_at a) (take n rs @ drop n rs)" using assms(1) by simp
    then have "pg_at x \<le> pg_at r" using r(1) that unfolding sorted_wrt_append by blast
    with r(2) show ?thesis by simp
  qed
  then have "filter ?late (drop n rs) = []" by (simp add: filter_empty_conv)
  then show ?thesis unfolding spent_def by (metis append_Nil2 append_take_drop_id filter_append)
qed simp

lemma planned_le_spent: "planned_in_day t rs \<le> length (spent rs t)"
  unfolding planned_in_day_def spent_def
  by (induction rs) auto

lemma planned_in_day_mono:
  assumes "\<forall>x \<in> set rs. pg_at x \<le> u" "u \<le> t"
  shows "planned_in_day t rs \<le> planned_in_day u rs"
  using assms unfolding planned_in_day_def
  by (induction rs) auto

lemma start_log_budget: "start_log zones rs \<Longrightarrow> planned_in_day t rs \<le> max_pings_per_day"
proof (induction arbitrary: t rule: start_log.induct)
  case empty_log
  show ?case by (simp add: planned_in_day_def)
next
  case (planned rs plan saved_at m source now start w r)
  have few: "length (spent (take max_records rs) now) < max_pings_per_day"
    by (rule decide_ping(5) [OF planned.hyps(2)])
  then have "spent (take max_records rs) now = spent rs now"
    by (intro spent_take start_log_sorted [OF planned.hyps(1)]) (simp add: max_pings_per_day_def max_records_def)
  with few planned_le_spent [of now rs] have now: "planned_in_day now rs < max_pings_per_day" by simp
  show ?case
  proof (cases "now \<le> t")
    case True
    from planned_in_day_mono [OF planned.hyps(3) True] now show ?thesis
      by (auto simp: planned_in_day_def)
  next
    case False
    with planned.IH [of t] planned.hyps(4) show ?thesis by (auto simp: planned_in_day_def)
  qed
next
  case (manual rs r)
  from manual.IH [of t] manual.hyps(3) show ?case by (simp add: planned_in_day_def)
next
  case (outcome xs x ys r)
  from outcome.IH [of t] outcome.hyps(2,3) show ?case by (auto simp: planned_in_day_def)
qed

section \<open>Lemmas on the store\<close>

lemma read_stored_plan_json:
  assumes "plan_ok zones (sp_plan s)"
  shows "read_stored_plan zones (stored_plan_json s) = Some s"
  using assms by (cases s; cases "sp_owner s")
    (simp_all add: read_stored_plan_def stored_plan_json_def parse_plan_json)

lemma load_plans_stored:
  assumes "distinct (map fst (acc @ m))" "\<forall>s \<in> set (map snd m). plan_ok zones (sp_plan s)"
  shows "load_plans zones (map (\<lambda>(k, s). (k, stored_plan_json s)) m) acc = acc @ m"
  using assms
proof (induction m arbitrary: acc)
  case (Cons x m)
  obtain k s where x: "x = (k, s)" by (cases x)
  have "jm_set k s acc = acc @ [(k, s)]"
    using Cons.prems(1) by (intro jm_set_fresh) (auto simp: x jm_has_def)
  then show ?case
    using Cons.IH [of "acc @ [(k, s)]"] Cons.prems by (simp add: x read_stored_plan_json)
qed simp

lemma load_plans_ok: "jm_ok m \<Longrightarrow> jm_ok (load_plans zones kvs m)"
  by (induction zones kvs m rule: load_plans.induct) (auto split: option.split)

lemma load_plans_valid:
  "\<forall>s \<in> jm_vals m. plan_ok zones (sp_plan s) \<Longrightarrow> \<forall>s \<in> jm_vals (load_plans zones kvs m). plan_ok zones (sp_plan s)"
proof (induction zones kvs m rule: load_plans.induct)
  case (2 zones k v kvs m)
  have "plan_ok zones (sp_plan s)" if "read_stored_plan zones v = Some s" for s
    using that parse_plan_result by (auto simp: read_stored_plan_def split: option.splits sum.splits)
  with 2(2) have "\<forall>s \<in> jm_vals (case read_stored_plan zones v of None \<Rightarrow> m | Some s \<Rightarrow> jm_set k s m). plan_ok zones (sp_plan s)"
    by (auto split: option.splits dest!: jm_vals_set)
  from 2(1) [OF this] show ?case by simp
qed simp

lemma next_records_length: "length (next_records r xs) \<le> max_records"
  by (simp add: next_records_def)

lemma replace_record_set: "set (replace_record r xs) \<subseteq> insert r (set xs)"
  by (induction r xs rule: replace_record.induct) auto

lemma put_record_other:
  "(s, i) \<noteq> (sid, mid) \<Longrightarrow> store_records (put_record sid mid r st) s i = store_records st s i"
  by (auto simp: store_records_def put_record_def Let_def store_simps)

lemma put_record_same:
  "store_records (put_record sid mid r st) sid mid = next_records r (store_records st sid mid)"
  by (simp add: store_records_def put_record_def Let_def store_simps)

section \<open>Properties\<close>

text \<open>
  A start is decided only when nothing of the meter is used up, no earlier start is
  still unread, the plan is on and does not skip the meter, fewer than 24 starts lie in the
  last day, the back-off after failures and after starts without effect is over, and the
  window it starts is free: it reads as idle, or its reset passed at least five seconds ago.
\<close>

theorem decide_ping_safe:
  assumes "decide zones plan saved_at m source records now = Inr (DecisionPing start w)"
  shows "exhausted_until m now = None \<and> (records = [] \<or> \<not> is_open (hd records))
    \<and> wp_mode plan \<noteq> PlanOff \<and> mt_id m \<notin> set (nullish (wp_skip_meters plan) [])
    \<and> length (spent records now) < max_pings_per_day
    \<and> (consecutive records PingFailed = 0 \<or> failure_until (hd records) (consecutive records PingFailed) \<le> now)
    \<and> st_at start \<le> now
    \<and> (\<exists>idle_from. idle_from_of w (ls_fetched_at source) now = Some idle_from \<and> idle_from + reset_margin_ms \<le> now)"
proof -
  note safe = decide_ping [OF assms]
  from decide_start_ping [OF safe(1)] obtain idle_from where i: "exhausted_until m now = None"
    "meter_timing m (if wp_mode plan = PlanReset then ByReset else ByHour) (ls_fetched_at source) now = (w, Some idle_from)"
    "next_start zones plan (nullish (lw_period w) 0) (max (max idle_from 0) (assumed_over records)) now saved_at = Inr (Some start)"
    "st_at start \<le> now" .
  have "idle_from + reset_margin_ms \<le> now"
    using next_start_after(2) [OF i(3)] i(4) by (simp add: reset_margin_ms_def)
  with safe i(1,4) earliest_timing [OF i(2)] show ?thesis by blast
qed

text \<open>
  A wait always names a time that is still to come, so a meter is never revisited in a
  tight loop.
\<close>

theorem decide_wait_future:
  assumes "decide zones plan saved_at m source records now = Inr (DecisionWait t start w hold)"
  shows "now < t"
proof -
  have "now < pg_at (last (spent records now)) + day_ms" if "max_pings_per_day \<le> length (spent records now)"
  proof -
    from that have "spent records now \<noteq> []" by (auto simp: max_pings_per_day_def)
    then have "last (spent records now) \<in> set (spent records now)" by simp
    then show ?thesis by (auto simp: spent_def)
  qed
  with assms decide_start_wait [of zones plan saved_at m source records now t start w hold] show ?thesis
    by (auto simp: decide_def Let_def split: if_splits)
qed

text \<open>
  C28: However planned and manual starts follow one another, and although only the forty
  newest records are kept, no span of 24 hours ever holds more than 24 planned starts of a
  meter.
\<close>

theorem planned_starts_bounded:
  assumes "start_log zones rs"
  shows "planned_in_day t rs \<le> max_pings_per_day"
  using start_log_budget [OF assms] .

definition store_ok :: "zone_table \<Rightarrow> plan_store \<Rightarrow> bool" where
  "store_ok zones st \<longleftrightarrow> jm_ok (ps_plans st) \<and> (\<forall>s \<in> jm_vals (ps_plans st). plan_ok zones (sp_plan s))"

text \<open>
  A plan store opened on any file holds canonical plans only, keeps doing so when
  canonical plans are saved, and a store that is opened after a save holds exactly the
  plans of the store that saved, in the same order.
\<close>

theorem plans_survive_restart:
  assumes "store_ok zones st" "plan_ok zones (sp_plan s)"
  shows "store_ok zones (create_plan_store zones f h) \<and> store_ok zones (save_plan sid s st)
    \<and> ps_plans (create_plan_store zones (ps_plans_file (save_plan sid s st)) h') = ps_plans (save_plan sid s st)"
proof (intro conjI)
  show "store_ok zones (create_plan_store zones f h)"
    by (auto simp: store_ok_def create_plan_store_def load_plans_ok split: option.split dest!: bspec [OF load_plans_valid, rotated])
  show saved: "store_ok zones (save_plan sid s st)"
    using assms by (auto simp: store_ok_def save_plan_def Let_def dest!: jm_vals_set)
  show "ps_plans (create_plan_store zones (ps_plans_file (save_plan sid s st)) h') = ps_plans (save_plan sid s st)"
  proof -
    let ?m = "jm_set sid s (ps_plans st)"
    have "distinct (map fst ?m)" "\<forall>s \<in> set (map snd ?m). plan_ok zones (sp_plan s)"
      using saved by (simp_all add: store_ok_def save_plan_def Let_def jm_ok_def jm_vals_def)
    from load_plans_stored [of "[]" ?m, OF _ this(2)] this(1) show ?thesis
      by (simp add: create_plan_store_def save_plan_def Let_def plans_json_def)
  qed
qed

definition demo_stored :: stored_plan where
  "demo_stored = \<lparr>sp_plan = demo_plan, sp_space = ''home'', sp_updated_by = ''ann'', sp_updated_at = 5, sp_owner = None\<rparr>"

definition empty_store :: plan_store where
  "empty_store = \<lparr>ps_plans = [], ps_history = [], ps_plans_file = None, ps_history_file = None\<rparr>"

lemma plans_survive_restart_witness:
  "ps_plans (create_plan_store (\<lambda>_. Some (\<lambda>_. 0)) (ps_plans_file (save_plan ''claude'' demo_stored empty_store)) None)
    = [(''claude'', demo_stored)]"
proof -
  have a: "store_ok (\<lambda>_. Some (\<lambda>_. 0)) empty_store" by (simp add: store_ok_def empty_store_def)
  have b: "plan_ok (\<lambda>_. Some (\<lambda>_. 0)) (sp_plan demo_stored)" by code_simp
  from plans_survive_restart [OF a b] show ?thesis
    by (simp add: save_plan_def empty_store_def Let_def jm_set_fresh jm_has_def)
qed

text \<open>
  A start is judged started only by a window that runs in a reading taken after it, and
  then with that window's reset; without such a reading it stays unconfirmed.
\<close>

theorem judge_start_sound:
  "judge_start r source now = (PingStarted, reset) \<longleftrightarrow>
     (\<exists>w. find (\<lambda>w. lw_id w = pg_window r) (ls_windows source) = Some w \<and> \<not> ls_stale source
        \<and> pg_at r \<le> ls_fetched_at source \<and> phase_of w (ls_fetched_at source) now = PhaseRunning \<and> reset = lw_resets_at w)"
proof (cases "find (\<lambda>w. lw_id w = pg_window r) (ls_windows source)")
  case None
  then show ?thesis by (simp add: judge_start_def)
next
  case (Some w)
  have "phase_of w (ls_fetched_at source) now = PhaseRunning \<Longrightarrow> lw_resets_at w \<noteq> None"
    by (auto simp: phase_running_iff)
  with Some show ?thesis
    by (cases "phase_of w (ls_fetched_at source) now") (auto simp: judge_start_def)
qed

definition idle_window :: limit_window where
  "idle_window = \<lparr>lw_id = ''five_hour'', lw_label = ''5h'', lw_used = 0, lw_limit = 100, lw_unit = ''%'',
     lw_resets_at = None, lw_period = Some 18000000\<rparr>"

definition idle_meter :: meter where
  "idle_meter = \<lparr>mt_id = ''all'', mt_label = None, mt_windows = [idle_window], mt_primary = idle_window\<rparr>"

definition idle_source :: limit_source where
  "idle_source = \<lparr>ls_provider = ''claude'', ls_account = None, ls_windows = [idle_window], ls_fetched_at = 32445000, ls_stale = False\<rparr>"

lemmas idle_defs = idle_window_def idle_meter_def idle_source_def

lemma idle_reading:
  "exhausted_until idle_meter now = None"
  "meter_timing idle_meter mode fetched now = (idle_window, Some 0)"
  "lw_period idle_window = Some 18000000"
  by (simp_all add: idle_defs exhausted_until_def meter_timing_def idle_from_of_def phase_of_def is_steerable_def min_period_ms_def)

definition demo_start :: window_start where
  "demo_start = \<lparr>st_at = 32445000, st_reason = ReasonHour, st_target = Some 32400000\<rparr>"

lemma demo_ping:
  "decide (\<lambda>_. Some (\<lambda>_. 0)) demo_plan 0 idle_meter idle_source [] 32445000 = Inr (DecisionPing demo_start idle_window)"
proof -
  have n: "next_start (\<lambda>_. Some (\<lambda>_. 0)) demo_plan 18000000 0 32445000 0 = Inr (Some demo_start)" by code_simp
  have p: "wp_mode demo_plan = PlanHour" "wp_skip_meters demo_plan = None" by code_simp+
  show ?thesis
    by (simp add: decide_def decide_start_def Let_def idle_reading n p spent_def max_pings_per_day_def assumed_over_def)
      (simp add: demo_start_def)
qed

lemma decide_ping_safe_witness:
  "exhausted_until idle_meter 32445000 = None \<and> (\<exists>idle_from. idle_from_of idle_window 32445000 32445000 = Some idle_from
     \<and> idle_from + reset_margin_ms \<le> 32445000)"
proof -
  have "ls_fetched_at idle_source = 32445000" by (simp add: idle_source_def)
  with decide_ping_safe [OF demo_ping] show ?thesis by metis
qed

lemma decide_wait_future_witness: "(0 :: int) < 14445000"
proof -
  have n: "next_start (\<lambda>_. Some (\<lambda>_. 0)) demo_plan 18000000 0 0 0
      = Inr (Some \<lparr>st_at = 14445000, st_reason = ReasonLead, st_target = Some 32400000\<rparr>)" by code_simp
  have p: "wp_mode demo_plan = PlanHour" "wp_skip_meters demo_plan = None" by code_simp+
  have "decide (\<lambda>_. Some (\<lambda>_. 0)) demo_plan 0 idle_meter idle_source [] 0 =
      Inr (DecisionWait 14445000 (Some \<lparr>st_at = 14445000, st_reason = ReasonLead, st_target = Some 32400000\<rparr>) (Some idle_window) None)"
    by (simp add: decide_def decide_start_def Let_def idle_reading n p spent_def max_pings_per_day_def assumed_over_def)
  from decide_wait_future [OF this] show ?thesis .
qed

definition demo_record :: ping_record where
  "demo_record = \<lparr>pg_id = ''a'', pg_at = 32445000, pg_window = ''five_hour'', pg_period = 18000000, pg_reason = ReasonHour,
     pg_target = Some 32400000, pg_provider = ''anthropic'', pg_model = ''haiku'', pg_outcome = PingSending, pg_latency = None,
     pg_reset = None, pg_error = None\<rparr>"

lemma planned_starts_bounded_witness:
  "planned_in_day 32445000 [demo_record] = 1 \<and> (1 :: nat) \<le> max_pings_per_day"
proof -
  have "start_log (\<lambda>_. Some (\<lambda>_. 0)) [demo_record]"
    by (rule planned [OF empty_log _ _ _, of "\<lambda>_. Some (\<lambda>_. 0)" demo_plan 0 idle_meter idle_source 32445000])
      (simp_all add: demo_ping demo_record_def)
  from planned_starts_bounded [OF this, of 32445000] show ?thesis
    by (simp add: planned_in_day_def demo_record_def day_ms_def)
qed

end
