(* ===== verification/WindowModels.thy ===== *)
theory WindowModels
  imports WindowDecide "HOL-Library.Multiset"
begin

text \<open>
  The cheapest model a request can start a window with, packages/limit-windows/src/models.ts,
  with the rule that says which windows meter a model (packages/usage/src/limitSources.ts)
  and the choice of a plan's model (\<open>modelFor\<close> in packages/limit-windows/src/controller.ts).
\<close>

section \<open>Which windows meter a model\<close>

record catalog_model =
  cm_harness :: "string option"
  cm_provider :: string
  cm_model :: string
  cm_resolved :: "string option"
  cm_name :: string
  cm_cost :: "(rat \<times> rat) option" \<comment> \<open>input and output\<close>
  cm_capabilities :: "string list option"
  cm_connected :: "bool option"

definition is_digit_char :: "char \<Rightarrow> bool" where
  "is_digit_char c \<longleftrightarrow> is_digit_upto 9 c"

definition is_word_char :: "char \<Rightarrow> bool" where
  "is_word_char c \<longleftrightarrow> is_lower_letter c \<or> is_digit_char c"

text \<open>\<open>split(/[^a-z0-9]+/).filter(Boolean)\<close> of the lower-case text: its runs of letters and digits.\<close>

fun word_runs :: "string \<Rightarrow> string \<Rightarrow> string list" where
  "word_runs [] run = (if run = [] then [] else [run])"
| "word_runs (c # cs) run =
     (if is_word_char c then word_runs cs (run @ [c])
      else (if run = [] then word_runs cs [] else run # word_runs cs []))"

definition words :: "string \<Rightarrow> string list" where
  "words value = word_runs (lower value) []"

fun contains_text :: "string \<Rightarrow> string \<Rightarrow> bool" where
  "contains_text pat [] \<longleftrightarrow> pat = []"
| "contains_text pat (c # cs) \<longleftrightarrow> prefix pat (c # cs) \<or> contains_text pat cs"

definition window_applies_to_model :: "string \<Rightarrow> string \<Rightarrow> bool" where
  "window_applies_to_model window_id model_id =
     (if CHR ''/'' \<notin> set window_id then True
      else list_all (\<lambda>w. w \<in> set (words model_id)) (words (takeWhile (\<lambda>c. c \<noteq> CHR ''/'') window_id)))"

definition window_meters_model :: "limit_source \<Rightarrow> string \<Rightarrow> string \<Rightarrow> bool" where
  "window_meters_model source window_id model_id =
     (if \<not> window_applies_to_model window_id model_id then False
      else if source_family source \<noteq> ''antigravity'' then True
      else
        (let google = list_ex (\<lambda>p. contains_text p (lower model_id)) [''gemini'', ''gemma'', ''google'']
         in if google_window window_id then google
            else if third_party_window window_id then \<not> google
            else True))"

section \<open>Ranking\<close>

definition not_chat :: "string list" where
  "not_chat = [''embed'', ''embedding'', ''image'', ''imagen'', ''tts'', ''speech'', ''audio'', ''whisper'',
     ''moderation'', ''realtime'', ''transcribe'', ''video'', ''veo'']"

definition account_default :: "string \<Rightarrow> bool" where
  "account_default i \<longleftrightarrow> lower i = ''default'' \<or> lower i = ''auto''"

definition tiers :: "(string list \<times> int) list" where
  "tiers =
    [([''free''], 4),
     ([''nano'', ''lite'', ''mini'', ''tiny'', ''haiku'', ''spark'', ''small'', ''micro'', ''instant'', ''gemma'', ''luna''], 0),
     ([''flash'', ''fast'', ''turbo'', ''speed'', ''swift'', ''air'', ''oss''], 1),
     ([''pro'', ''opus'', ''max'', ''ultra'', ''plus'', ''large'', ''fable'', ''mythos'', ''thinking'', ''deep'', ''reasoner'', ''sol''], 3)]"

definition spaced :: "string \<Rightarrow> string" where
  "spaced s = map (\<lambda>c. if c \<in> set ''-_./'' then CHR '' '' else c) s"

text \<open>A pattern \<open>/\b(a|b|..)\b/i\<close> on spaced text: one of the words is a whole run of the text.\<close>

definition has_word :: "string list \<Rightarrow> string \<Rightarrow> bool" where
  "has_word ws value \<longleftrightarrow> list_ex (\<lambda>w. w \<in> set (words value)) ws"

definition tier_of :: "catalog_model \<Rightarrow> int" where
  "tier_of m =
     (let value = spaced (cm_model m @ '' '' @ nullish (cm_resolved m) [] @ '' '' @ cm_name m)
      in case find (\<lambda>(ws, _). has_word ws value) tiers of None \<Rightarrow> 2 | Some (_, tier) \<Rightarrow> tier)"

definition digits_value :: "string \<Rightarrow> int" where
  "digits_value ds = fold (\<lambda>d n. n * 10 + digit_of d) ds 0"

text \<open>The repeated group \<open>(?:[.-]\d{1,2}(?!\d))*\<close>; \<open>fuel\<close> is the length of the text.\<close>

fun version_groups :: "nat \<Rightarrow> string \<Rightarrow> int list" where
  "version_groups (Suc fuel) (c # cs) =
     (let run = takeWhile is_digit_char cs
      in if (c = CHR ''.'' \<or> c = CHR ''-'') \<and> 1 \<le> length run \<and> length run \<le> 2
         then digits_value run # version_groups fuel (dropWhile is_digit_char cs)
         else [])"
| "version_groups _ _ = []"

definition version_of :: "catalog_model \<Rightarrow> int list option" where
  "version_of m =
     (let rest = dropWhile (\<lambda>c. \<not> is_digit_char c) (nullish (cm_resolved m) (cm_model m));
          run = take 2 (takeWhile is_digit_char rest)
      in if rest = [] then None
         else Some (digits_value run # version_groups (length rest) (drop (length run) rest)))"

fun compare_parts :: "int list \<Rightarrow> int list \<Rightarrow> int" where
  "compare_parts [] [] = 0"
| "compare_parts (a # as) [] = (if a \<noteq> 0 then a else compare_parts as [])"
| "compare_parts [] (b # bs) = (if b \<noteq> 0 then - b else compare_parts [] bs)"
| "compare_parts (a # as) (b # bs) = (if a - b \<noteq> 0 then a - b else compare_parts as bs)"

definition compare_versions :: "catalog_model \<Rightarrow> catalog_model \<Rightarrow> int" where
  "compare_versions a b =
     (case (version_of a, version_of b) of (Some l, Some r) \<Rightarrow> compare_parts l r | _ \<Rightarrow> 0)"

definition price_of :: "catalog_model \<Rightarrow> rat option" where
  "price_of m =
     (case cm_cost m of
        None \<Rightarrow> None
      | Some (i, out) \<Rightarrow> if i + out > 0 then Some (i * 3 + out) else None)"

definition usable :: "catalog_model \<Rightarrow> bool" where
  "usable m \<longleftrightarrow> cm_connected m \<noteq> Some False \<and> \<not> has_word not_chat (spaced (cm_model m @ '' '' @ cm_name m))
     \<and> ''input:none'' \<notin> set (nullish (cm_capabilities m) [])"

text \<open>The sign of a price difference; two unknown prices leave \<open>NaN\<close>, which counts as equal.\<close>

definition compare_prices :: "rat option \<Rightarrow> rat option \<Rightarrow> int" where
  "compare_prices a b =
     (case (a, b) of
        (None, None) \<Rightarrow> 0
      | (None, Some _) \<Rightarrow> 1
      | (Some _, None) \<Rightarrow> -1
      | (Some x, Some y) \<Rightarrow> if x < y then -1 else if y < x then 1 else 0)"

text \<open>A chain \<open>a || b || ..\<close> of differences.\<close>

fun first_nonzero :: "int list \<Rightarrow> int" where
  "first_nonzero [] = 0"
| "first_nonzero (d # ds) = (if d \<noteq> 0 then d else first_nonzero ds)"

definition resolved_rank :: "catalog_model \<Rightarrow> int" where
  "resolved_rank m = (if truthy (cm_resolved m) then 1 else 0)"

definition compare_rows :: "nat \<times> catalog_model \<Rightarrow> nat \<times> catalog_model \<Rightarrow> int" where
  "compare_rows a b =
     first_nonzero
       [compare_prices (price_of (snd a)) (price_of (snd b)), tier_of (snd a) - tier_of (snd b),
        resolved_rank (snd b) - resolved_rank (snd a), compare_versions (snd a) (snd b), int (fst a) - int (fst b)]"

text \<open>
  \<open>Array.sort\<close> as a stable insertion sort. For a comparison that is not transitive the
  language leaves the order to the implementation; this is one of the orders it allows.
\<close>

fun sort_insert :: "('a \<Rightarrow> 'a \<Rightarrow> int) \<Rightarrow> 'a \<Rightarrow> 'a list \<Rightarrow> 'a list" where
  "sort_insert cmp x [] = [x]"
| "sort_insert cmp x (y # ys) = (if cmp x y \<le> 0 then x # y # ys else y # sort_insert cmp x ys)"

definition sort_by :: "('a \<Rightarrow> 'a \<Rightarrow> int) \<Rightarrow> 'a list \<Rightarrow> 'a list" where
  "sort_by cmp xs = foldr (sort_insert cmp) xs []"

definition model_rows :: "catalog_model list \<Rightarrow> limit_source \<Rightarrow> string \<Rightarrow> catalog_model list" where
  "model_rows models source window_id =
     (let fit = filter (\<lambda>m. usable m \<and> window_meters_model source window_id (nullish (cm_resolved m) (cm_model m))) models;
          named = filter (\<lambda>m. \<not> account_default (cm_model m)) fit
      in if named \<noteq> [] then named else fit)"

definition rank_models :: "catalog_model list \<Rightarrow> limit_source \<Rightarrow> string \<Rightarrow> catalog_model list" where
  "rank_models models source window_id =
     map snd (sort_by compare_rows (enumerate 0 (model_rows models source window_id)))"

record model_choice =
  mc_model :: "catalog_model option"
  mc_replaced :: bool
  mc_options :: "catalog_model list"

definition head_option :: "'a list \<Rightarrow> 'a option" where
  "head_option xs = (case xs of [] \<Rightarrow> None | x # _ \<Rightarrow> Some x)"

definition model_for :: "window_plan \<Rightarrow> limit_source \<Rightarrow> meter \<Rightarrow> catalog_model list \<Rightarrow> model_choice" where
  "model_for plan source m models =
     (let options = rank_models models source (lw_id (mt_primary m))
      in case wp_model plan of
           None \<Rightarrow> \<lparr>mc_model = head_option options, mc_replaced = False, mc_options = options\<rparr>
         | Some want \<Rightarrow>
             (case find (\<lambda>row. cm_provider row = pm_provider want \<and> cm_model row = pm_model want) options of
                Some chosen \<Rightarrow> \<lparr>mc_model = Some chosen, mc_replaced = False, mc_options = options\<rparr>
              | None \<Rightarrow> \<lparr>mc_model = head_option options, mc_replaced = True, mc_options = options\<rparr>))"

text \<open>The harness a source's requests run on (\<open>routeOfSource\<close> in serverEntry.ts).\<close>

definition opencode_first :: "string \<Rightarrow> string \<Rightarrow> int" where
  "opencode_first a b = (if b = ''opencode'' then 1 else 0) - (if a = ''opencode'' then 1 else 0)"

definition route_of_source :: "limit_source \<Rightarrow> catalog_model list \<Rightarrow> (string \<Rightarrow> bool) \<Rightarrow> (string \<times> catalog_model list) option" where
  "route_of_source source models registered =
     (let own = nullish (map_option la_harness (ls_account source)) (ls_provider source) in
      if registered own then Some (own, filter (\<lambda>row. cm_harness row = Some own) models)
      else if ls_account source \<noteq> None then None
      else
        (let wanted = canonical_source (ls_provider source);
             rows = filter (\<lambda>row. truthy (cm_harness row) \<and> registered (nullish (cm_harness row) [])
                          \<and> canonical_model_source (cm_provider row) = wanted) models;
             ids = sort_by opencode_first (unique (map (\<lambda>row. nullish (cm_harness row) []) rows))
         in case ids of
              [] \<Rightarrow> None
            | h # _ \<Rightarrow> if h = [] then None else Some (h, filter (\<lambda>row. cm_harness row = Some h) rows)))"

section \<open>Lemmas\<close>

lemma sort_insert_mset: "mset (sort_insert cmp x ys) = add_mset x (mset ys)"
  by (induction ys) auto

lemma sort_by_mset: "mset (sort_by cmp xs) = mset xs"
  by (induction xs) (simp_all add: sort_by_def sort_insert_mset)

lemma sort_insert_set: "set (sort_insert cmp x ys) = insert x (set ys)"
  by (metis sort_insert_mset set_mset_add_mset_insert set_mset_mset)

text \<open>A key that the comparison respects is sorted, even where the comparison is not transitive.\<close>

lemma sort_insert_sorted:
  assumes "\<And>x y. cmp x y \<le> 0 \<Longrightarrow> le x y" "\<And>x y. 0 < cmp x y \<Longrightarrow> le y x" "\<And>x y z. le x y \<Longrightarrow> le y z \<Longrightarrow> le x z"
    and "sorted_wrt le ys"
  shows "sorted_wrt le (sort_insert cmp x ys)"
  using assms(4)
proof (induction ys)
  case (Cons y ys)
  show ?case
  proof (cases "cmp x y \<le> 0")
    case True
    then have "le x y" by (rule assms(1))
    with Cons.prems True assms(3) show ?thesis by auto
  next
    case False
    with assms(2) [of x y] Cons show ?thesis by (auto simp: sort_insert_set)
  qed
qed simp

lemma sort_by_sorted:
  assumes "\<And>x y. cmp x y \<le> 0 \<Longrightarrow> le x y" "\<And>x y. 0 < cmp x y \<Longrightarrow> le y x" "\<And>x y z. le x y \<Longrightarrow> le y z \<Longrightarrow> le x z"
  shows "sorted_wrt le (sort_by cmp xs)"
  unfolding sort_by_def
  by (induction xs) (simp_all add: sort_insert_sorted [of cmp le, OF assms])

text \<open>At most as expensive; an unknown price comes last.\<close>

definition price_le :: "catalog_model \<Rightarrow> catalog_model \<Rightarrow> bool" where
  "price_le a b \<longleftrightarrow>
     (case (price_of a, price_of b) of
        (_, None) \<Rightarrow> True
      | (None, Some _) \<Rightarrow> False
      | (Some x, Some y) \<Rightarrow> x \<le> y)"

lemma price_le_trans: "price_le a b \<Longrightarrow> price_le b c \<Longrightarrow> price_le a c"
  by (auto simp: price_le_def split: option.splits)

lemma compare_rows_price:
  "compare_rows a b \<le> 0 \<Longrightarrow> price_le (snd a) (snd b)"
  "0 < compare_rows a b \<Longrightarrow> price_le (snd b) (snd a)"
  by (auto simp: compare_rows_def compare_prices_def price_le_def split: option.splits if_splits)

lemma rank_models_sorted: "sorted_wrt price_le (rank_models models source window_id)"
proof -
  have "sorted_wrt (\<lambda>a b. price_le (snd a) (snd b)) (sort_by compare_rows (enumerate 0 (model_rows models source window_id)))"
    by (rule sort_by_sorted) (auto intro: compare_rows_price price_le_trans)
  then show ?thesis by (simp add: rank_models_def sorted_wrt_map)
qed

lemma rank_models_mset: "mset (rank_models models source window_id) = mset (model_rows models source window_id)"
proof -
  have "mset (rank_models models source window_id) = mset (map snd (enumerate 0 (model_rows models source window_id)))"
    unfolding rank_models_def mset_map sort_by_mset ..
  then show ?thesis by simp
qed

lemma model_rows_set:
  "set (model_rows models source window_id) \<subseteq>
     {m \<in> set models. usable m \<and> window_meters_model source window_id (nullish (cm_resolved m) (cm_model m))}"
  by (auto simp: model_rows_def Let_def)

text \<open>
  The comparison itself is not transitive: a model whose id names no version compares equal
  to both neighbours, so the catalog order decides there and three models can form a ring.
\<close>

definition ring_model :: "string \<Rightarrow> catalog_model" where
  "ring_model i = \<lparr>cm_harness = None, cm_provider = ''p'', cm_model = i, cm_resolved = None, cm_name = [], cm_cost = None,
     cm_capabilities = None, cm_connected = None\<rparr>"

lemma ranking_has_a_ring:
  "compare_rows (0, ring_model ''m-5'') (1, ring_model ''m'') < 0
   \<and> compare_rows (1, ring_model ''m'') (2, ring_model ''m-4'') < 0
   \<and> compare_rows (2, ring_model ''m-4'') (0, ring_model ''m-5'') < 0"
  by code_simp

text \<open>
  A route never reaches an account by another harness than its own, and only lists models
  of the harness it names.
\<close>

lemma sort_by_set: "set (sort_by cmp xs) = set xs"
  by (metis set_mset_mset sort_by_mset)

lemma route_of_source_own:
  assumes "route_of_source source models registered = Some (h, rows)"
  shows "registered h \<and> (\<forall>row \<in> set rows. cm_harness row = Some h \<and> row \<in> set models)
    \<and> (\<forall>a. ls_account source = Some a \<longrightarrow> h = la_harness a)"
proof (cases "registered (nullish (map_option la_harness (ls_account source)) (ls_provider source))")
  case True
  with assms show ?thesis by (auto simp: route_of_source_def Let_def)
next
  case False
  let ?rows = "filter (\<lambda>row. truthy (cm_harness row) \<and> registered (nullish (cm_harness row) [])
      \<and> canonical_model_source (cm_provider row) = canonical_source (ls_provider source)) models"
  let ?ids = "sort_by opencode_first (unique (map (\<lambda>row. nullish (cm_harness row) []) ?rows))"
  from False assms obtain hs where h: "?ids = h # hs" "rows = filter (\<lambda>row. cm_harness row = Some h) ?rows"
      and own: "ls_account source = None"
    by (auto simp: route_of_source_def Let_def split: if_splits list.splits)
  have "h \<in> set ?ids" using h(1) by simp
  then have "registered h" unfolding sort_by_set by auto
  with h(2) own show ?thesis by auto
qed

section \<open>Properties\<close>

text \<open>
  The ranking lists exactly the usable models that the window meters (the account's
  default aliases only when nothing else is left), each as often as the catalog does, with
  known prices first and never a cheaper one after a dearer one.
\<close>

theorem ranking_by_price:
  "mset (rank_models models source window_id) = mset (model_rows models source window_id)
   \<and> sorted_wrt price_le (rank_models models source window_id)
   \<and> (\<forall>m. m \<in> set (rank_models models source window_id) \<longrightarrow>
        usable m \<and> window_meters_model source window_id (nullish (cm_resolved m) (cm_model m)) \<and> m \<in> set models)"
  using rank_models_mset rank_models_sorted model_rows_set mset_eq_setD [OF rank_models_mset] by blast

lemma ranking_by_price_witness:
  "rank_models [ring_model ''m'', (ring_model ''a'')\<lparr>cm_cost := Some (1, 2)\<rparr>] idle_source ''five_hour''
     = [(ring_model ''a'')\<lparr>cm_cost := Some (1, 2)\<rparr>, ring_model ''m'']
   \<and> sorted_wrt price_le (rank_models [ring_model ''m'', (ring_model ''a'')\<lparr>cm_cost := Some (1, 2)\<rparr>] idle_source ''five_hour'')"
proof
  show "rank_models [ring_model ''m'', (ring_model ''a'')\<lparr>cm_cost := Some (1, 2)\<rparr>] idle_source ''five_hour''
      = [(ring_model ''a'')\<lparr>cm_cost := Some (1, 2)\<rparr>, ring_model ''m'']"
    by code_simp
qed (use ranking_by_price in blast)

end
