(* ===== verification/WindowController.thy ===== *)
theory WindowController
  imports WindowModels
begin

text \<open>
  The controller that applies the decisions, packages/limit-windows/src/controller.ts.

  An asynchronous function is cut at its \<open>await\<close>s: each piece runs without interruption and
  leaves a task that says what the rest is waiting for. The pieces of several calls
  interleave in any order. What the pieces ask the outside (the clock, a fresh reading, the
  catalog, the request itself) is an argument of the piece that receives it.
\<close>

section \<open>Public errors\<close>

text \<open>
  The text of a failed request: the secrets pattern
  \<open>/(bearer|token|key|authorization)([=:\s]+)\S+|[A-Za-z0-9_-]{24,}/gi\<close> replaced, the first
  line, 200 characters at most.
\<close>

definition is_token_char :: "char \<Rightarrow> bool" where
  "is_token_char c \<longleftrightarrow> is_word_char (lower_char c) \<or> c = CHR ''_'' \<or> c = CHR ''-''"

definition is_separator :: "char \<Rightarrow> bool" where
  "is_separator c \<longleftrightarrow> c = CHR ''='' \<or> c = CHR '':'' \<or> is_space_char c"

definition secret_words :: "string list" where
  "secret_words = [''bearer'', ''token'', ''key'', ''authorization'']"

text \<open>What is left after a secret that starts here, if one does.\<close>

definition after_named_secret :: "string \<Rightarrow> string option" where
  "after_named_secret s =
     (case find (\<lambda>w. prefix w (lower (take (length w) s))) secret_words of
        None \<Rightarrow> None
      | Some w \<Rightarrow>
          (let rest = drop (length w) s;
               seps = takeWhile is_separator rest;
               value = dropWhile is_separator rest
           in if seps = [] then None
              else if value \<noteq> [] then Some (dropWhile (\<lambda>c. \<not> is_space_char c) value)
              else
                (let back = dropWhile is_space_char (rev seps)
                 in if length back \<ge> 2 then Some (rev (takeWhile is_space_char (rev seps))) else None)))"

definition after_secret :: "string \<Rightarrow> string option" where
  "after_secret s =
     (case after_named_secret s of
        Some rest \<Rightarrow> Some rest
      | None \<Rightarrow> if 24 \<le> length (takeWhile is_token_char s) then Some (dropWhile is_token_char s) else None)"

fun redact :: "nat \<Rightarrow> string \<Rightarrow> string" where
  "redact 0 s = []"
| "redact (Suc fuel) [] = []"
| "redact (Suc fuel) (c # cs) =
     (case after_secret (c # cs) of
        Some rest \<Rightarrow> ''[redacted]'' @ redact fuel rest
      | None \<Rightarrow> c # redact fuel cs)"

definition public_error :: "string \<Rightarrow> string" where
  "public_error message = take 200 (takeWhile (\<lambda>c. c \<noteq> CHR 0x0A) (redact (Suc (length message)) message))"

section \<open>State\<close>

definition ping_timeout_ms :: int where
  "ping_timeout_ms = 120000"

definition max_flights :: nat where
  "max_flights = 2"

definition max_wait_ms :: int where
  "max_wait_ms = 5 * 60000"

definition read_retry_ms :: int where
  "read_retry_ms = 30000"

definition max_read_retries :: nat where
  "max_read_retries = 3"

type_synonym meter_key = "string \<times> string"

record start_request =
  sr_window :: string
  sr_period :: int
  sr_reason :: start_reason
  sr_target :: "int option"

text \<open>Where a suspended call stands. A \<open>TaskModels\<close> with reason manual belongs to \<open>startNow\<close>.\<close>

datatype task =
    TaskVerify string string ping_record
  | TaskRead string limit_source meter stored_plan
  | TaskModels string meter limit_source window_plan string start_request
  | TaskSend string string start_request ping_record
  | TaskStart string string string "stored_plan option"

record controller =
  ct_store :: plan_store
  ct_checks :: "(meter_key, int) jsmap"
  ct_failures :: "(meter_key, nat) jsmap"
  ct_flights :: "(meter_key, string) jsmap"
  ct_tasks :: "task list"
  ct_requests :: "(string \<times> string \<times> ping_record) list" \<comment> \<open>every request that went out, newest first\<close>

definition off_plan :: window_plan where
  "off_plan = \<lparr>wp_mode = PlanOff, wp_times = [], wp_days = [], wp_lead = 0, wp_rolling = False, wp_active_from = None,
     wp_active_until = None, wp_time_zone = ''UTC'', wp_model = None, wp_skip_meters = None\<rparr>"

definition set_check :: "meter_key \<Rightarrow> int \<Rightarrow> controller \<Rightarrow> controller" where
  "set_check k t c = c\<lparr>ct_checks := jm_set k t (ct_checks c)\<rparr>"

definition await :: "task \<Rightarrow> controller \<Rightarrow> controller" where
  "await t c = c\<lparr>ct_tasks := t # ct_tasks c\<rparr>"

definition finish_task :: "task \<Rightarrow> controller \<Rightarrow> controller" where
  "finish_task t c = c\<lparr>ct_tasks := remove1 t (ct_tasks c)\<rparr>"

definition write_record :: "string \<Rightarrow> string \<Rightarrow> ping_record \<Rightarrow> controller \<Rightarrow> controller" where
  "write_record sid mid r c = c\<lparr>ct_store := put_record sid mid r (ct_store c)\<rparr>"

definition decision_of :: "zone_table \<Rightarrow> int \<Rightarrow> string \<Rightarrow> limit_source \<Rightarrow> meter \<Rightarrow> controller \<Rightarrow> zone_error + decision" where
  "decision_of zones now sid source m c =
     (let stored = jm_get (ps_plans (ct_store c)) sid
      in decide zones (nullish (map_option sp_plan stored) off_plan) (nullish (map_option sp_updated_at stored) 0)
           m source (store_records (ct_store c) sid (mt_id m)) now)"

section \<open>One step of a meter\<close>

definition step_begin :: "zone_table \<Rightarrow> int \<Rightarrow> bool \<Rightarrow> string \<Rightarrow> limit_source \<Rightarrow> meter \<Rightarrow> controller \<Rightarrow> controller" where
  "step_begin zones now authorized sid source m c =
     (let k = (sid, mt_id m) in
      if jm_has (ct_flights c) k then c
      else if now < nullish (jm_get (ct_checks c) k) 0 then c
      else
        (case decision_of zones now sid source m c of
           Inl _ \<Rightarrow> c
         | Inr DecisionOff \<Rightarrow> set_check k (now + max_wait_ms) c
         | Inr (DecisionVerify t r) \<Rightarrow>
             if now < t then set_check k t c else await (TaskVerify sid (mt_id m) r) c
         | Inr (DecisionWait t _ _ _) \<Rightarrow> set_check k (min t (now + max_wait_ms)) c
         | Inr (DecisionPing _ _) \<Rightarrow>
             (case jm_get (ps_plans (ct_store c)) sid of
                None \<Rightarrow> set_check k (now + max_wait_ms) c
              | Some stored \<Rightarrow>
                  if \<not> authorized then set_check k (now + max_wait_ms) c
                  else await (TaskRead sid source m stored) c)))"

definition judged :: "ping_record \<Rightarrow> limit_source \<Rightarrow> int \<Rightarrow> ping_record" where
  "judged r fresh now =
     (case judge_start r fresh now of
        (outcome, None) \<Rightarrow> r\<lparr>pg_outcome := outcome\<rparr>
      | (outcome, Some t) \<Rightarrow> r\<lparr>pg_outcome := outcome, pg_reset := Some t\<rparr>)"

text \<open>The reading to judge a start by arrived, or failed (\<open>None\<close>).\<close>

definition verify_done :: "int \<Rightarrow> string \<Rightarrow> string \<Rightarrow> ping_record \<Rightarrow> limit_source option \<Rightarrow> controller \<Rightarrow> controller" where
  "verify_done now sid mid r fresh c =
     (case fresh of
        None \<Rightarrow> write_record sid mid (r\<lparr>pg_outcome := PingUnconfirmed\<rparr>) c
      | Some reading \<Rightarrow> write_record sid mid (judged r reading now) c)"

text \<open>The reading a due start needs arrived, or failed.\<close>

definition read_done :: "zone_table \<Rightarrow> int \<Rightarrow> string \<Rightarrow> limit_source \<Rightarrow> meter \<Rightarrow> stored_plan \<Rightarrow> limit_source option
    \<Rightarrow> controller \<Rightarrow> controller" where
  "read_done zones now sid source m stored fresh c =
     (let k = (sid, mt_id m);
          unusable = (case fresh of None \<Rightarrow> True | Some f \<Rightarrow> ls_stale f);
          failures = Suc (nullish (jm_get (ct_failures c) k) 0)
      in if unusable \<and> failures \<le> max_read_retries
         then set_check k (now + read_retry_ms) (c\<lparr>ct_failures := jm_set k failures (ct_failures c)\<rparr>)
         else
           (let c1 = c\<lparr>ct_failures := jm_delete k (ct_failures c)\<rparr>;
                reading = nullish fresh source
            in case find (\<lambda>row. mt_id row = mt_id m) (meters_of reading) of
                 None \<Rightarrow> c1
               | Some current \<Rightarrow>
                   (case decision_of zones now sid reading current c1 of
                      Inl _ \<Rightarrow> c1
                    | Inr (DecisionPing start w) \<Rightarrow>
                        await (TaskModels sid current reading (sp_plan stored) (sp_space stored)
                          \<lparr>sr_window = lw_id w, sr_period = nullish (lw_period w) 0, sr_reason = st_reason start,
                           sr_target = st_target start\<rparr>) c1
                    | Inr (DecisionWait t _ _ _) \<Rightarrow> set_check k (min t (now + max_wait_ms)) c1
                    | Inr _ \<Rightarrow> set_check k (now + max_wait_ms) c1)))"

section \<open>Sending\<close>

datatype fire_result = FireNoRoute | FireNoModel | FireSent string ping_record

text \<open>
  The catalog arrived. \<open>route\<close> is what \<open>routeOf\<close> makes of it and \<open>new_id\<close> is a fresh
  \<open>randomUUID\<close>. The record is written before the request goes out.
\<close>

definition fire_target :: "int \<Rightarrow> string \<Rightarrow> meter \<Rightarrow> limit_source \<Rightarrow> window_plan \<Rightarrow> start_request
    \<Rightarrow> (string \<times> catalog_model list) option \<Rightarrow> fire_result" where
  "fire_target now new_id m source plan start route =
     (case route of
        None \<Rightarrow> FireNoRoute
      | Some (harness, models) \<Rightarrow>
          (case mc_model (model_for plan source m models) of
             None \<Rightarrow> FireNoModel
           | Some model \<Rightarrow>
               FireSent harness
                 \<lparr>pg_id = new_id, pg_at = now, pg_window = sr_window start, pg_period = sr_period start,
                  pg_reason = sr_reason start, pg_target = sr_target start, pg_provider = cm_provider model,
                  pg_model = cm_model model, pg_outcome = PingSending, pg_latency = None, pg_reset = None,
                  pg_error = None\<rparr>))"

definition models_done :: "int \<Rightarrow> string \<Rightarrow> string \<Rightarrow> meter \<Rightarrow> limit_source \<Rightarrow> window_plan \<Rightarrow> string \<Rightarrow> start_request
    \<Rightarrow> (string \<times> catalog_model list) option \<Rightarrow> controller \<Rightarrow> controller" where
  "models_done now new_id sid m source plan space start route c =
     (let k = (sid, mt_id m) in
      case fire_target now new_id m source plan start route of
        FireSent harness r \<Rightarrow>
          (let c1 = write_record sid (mt_id m) r c;
               c2 = c1\<lparr>ct_flights := jm_set k new_id (ct_flights c1)\<rparr>
           in await (TaskSend sid (mt_id m) start r) (c2\<lparr>ct_requests := (harness, space, r) # ct_requests c2\<rparr>))
      | _ \<Rightarrow> if sr_reason start = ReasonManual then c else set_check k (now + max_wait_ms) c)"

datatype send_result = SendAnswered | SendInvalidResponse | SendFailed string

definition sent_record :: "int \<Rightarrow> ping_record \<Rightarrow> send_result \<Rightarrow> ping_record" where
  "sent_record now r result =
     (case result of
        SendFailed message \<Rightarrow>
          r\<lparr>pg_outcome := PingFailed, pg_latency := Some (now - pg_at r), pg_error := Some (public_error message)\<rparr>
      | _ \<Rightarrow> r\<lparr>pg_outcome := PingSent, pg_latency := Some (now - pg_at r)\<rparr>)"

definition send_done :: "int \<Rightarrow> string \<Rightarrow> string \<Rightarrow> ping_record \<Rightarrow> send_result \<Rightarrow> controller \<Rightarrow> controller" where
  "send_done now sid mid r result c =
     (let c1 = write_record sid mid (sent_record now r result) c
      in c1\<lparr>ct_flights := jm_delete (sid, mid) (ct_flights c1), ct_checks := jm_delete (sid, mid) (ct_checks c1)\<rparr>)"

section \<open>Start now\<close>

datatype start_problem = ProblemBusy | ProblemNotFound | ProblemSettling | ProblemExhausted | ProblemRunning

definition start_now :: "string \<Rightarrow> string \<Rightarrow> string \<Rightarrow> controller \<Rightarrow> start_problem option \<times> controller" where
  "start_now sid mid space c =
     (if jm_has (ct_flights c) (sid, mid) then (Some ProblemBusy, c)
      else (None, await (TaskStart sid mid space (jm_get (ps_plans (ct_store c)) sid)) c))"

definition start_read :: "int \<Rightarrow> string \<Rightarrow> string \<Rightarrow> string \<Rightarrow> stored_plan option \<Rightarrow> limit_source \<Rightarrow> controller
    \<Rightarrow> start_problem option \<times> controller" where
  "start_read now sid mid space stored fresh c =
     (case find (\<lambda>row. mt_id row = mid) (meters_of fresh) of
        None \<Rightarrow> (Some ProblemNotFound, c)
      | Some m \<Rightarrow>
          (let records = store_records (ct_store c) sid mid in
           if records \<noteq> [] \<and> is_open (hd records) \<and> now < verify_at (hd records) then (Some ProblemSettling, c)
           else if exhausted_until m now \<noteq> None then (Some ProblemExhausted, c)
           else if phase_of (mt_primary m) (ls_fetched_at fresh) now = PhaseRunning then (Some ProblemRunning, c)
           else
             (None, await (TaskModels sid m fresh (nullish (map_option sp_plan stored) off_plan)
                       (nullish (map_option sp_space stored) space)
                       \<lparr>sr_window = lw_id (mt_primary m), sr_period = nullish (lw_period (mt_primary m)) 0,
                        sr_reason = ReasonManual, sr_target = None\<rparr>) c)))"

definition touch :: "string \<Rightarrow> controller \<Rightarrow> controller" where
  "touch sid c = c\<lparr>ct_checks := filter (\<lambda>((s, _), _). s \<noteq> sid) (ct_checks c)\<rparr>"


definition save_controller_plan :: "string \<Rightarrow> stored_plan \<Rightarrow> controller \<Rightarrow> controller" where
  "save_controller_plan sid s c = touch sid (c\<lparr>ct_store := save_plan sid s (ct_store c)\<rparr>)"

section \<open>The interleaving\<close>

fun task_key :: "task \<Rightarrow> meter_key" where
  "task_key (TaskVerify sid mid r) = (sid, mid)"
| "task_key (TaskRead sid source m stored) = (sid, mt_id m)"
| "task_key (TaskModels sid m source plan space start) = (sid, mt_id m)"
| "task_key (TaskSend sid mid start r) = (sid, mid)"
| "task_key (TaskStart sid mid space stored) = (sid, mid)"

text \<open>A task of the timer's pass, as opposed to one of a person's \<open>startNow\<close>.\<close>

fun planned_task :: "task \<Rightarrow> bool" where
  "planned_task (TaskVerify sid mid r) \<longleftrightarrow> True"
| "planned_task (TaskRead sid source m stored) \<longleftrightarrow> True"
| "planned_task (TaskModels sid m source plan space start) \<longleftrightarrow> sr_reason start \<noteq> ReasonManual"
| "planned_task (TaskSend sid mid start r) \<longleftrightarrow> sr_reason start \<noteq> ReasonManual"
| "planned_task (TaskStart sid mid space stored) \<longleftrightarrow> False"

definition request_ids :: "controller \<Rightarrow> string list" where
  "request_ids c = map (\<lambda>(_, _, r). pg_id r) (ct_requests c)"

text \<open>
  A pass (\<open>tick\<close>) works its meters off in two lanes and no two passes overlap, so a step
  begins only while fewer than two planned tasks are open and none of them is of its meter.
\<close>

inductive controller_step :: "zone_table \<Rightarrow> controller \<Rightarrow> controller \<Rightarrow> bool" for zones where
  begins: "m \<in> set (meters_of source) \<Longrightarrow> length (filter planned_task (ct_tasks c)) < max_flights \<Longrightarrow>
    (ls_provider source, mt_id m) \<notin> task_key ` {t \<in> set (ct_tasks c). planned_task t} \<Longrightarrow>
    controller_step zones c (step_begin zones now authorized (ls_provider source) source m c)"
| verifies: "TaskVerify sid mid r \<in> set (ct_tasks c) \<Longrightarrow>
    controller_step zones c (verify_done now sid mid r fresh (finish_task (TaskVerify sid mid r) c))"
| reads: "TaskRead sid source m stored \<in> set (ct_tasks c) \<Longrightarrow>
    controller_step zones c (read_done zones now sid source m stored fresh (finish_task (TaskRead sid source m stored) c))"
| catalogs: "TaskModels sid m source plan space start \<in> set (ct_tasks c) \<Longrightarrow> new_id \<notin> set (request_ids c) \<Longrightarrow>
    new_id \<notin> pg_id ` set (store_records (ct_store c) sid (mt_id m)) \<Longrightarrow>
    controller_step zones c (models_done now new_id sid m source plan space start route
      (finish_task (TaskModels sid m source plan space start) c))"
| no_catalog: "TaskModels sid m source plan space start \<in> set (ct_tasks c) \<Longrightarrow>
    controller_step zones c (finish_task (TaskModels sid m source plan space start) c)"
| sends: "TaskSend sid mid start r \<in> set (ct_tasks c) \<Longrightarrow>
    controller_step zones c (send_done now sid mid r result (finish_task (TaskSend sid mid start r) c))"
| starts: "controller_step zones c (snd (start_now sid mid space c))"
| start_reads: "TaskStart sid mid space stored \<in> set (ct_tasks c) \<Longrightarrow>
    controller_step zones c (snd (start_read now sid mid space stored fresh (finish_task (TaskStart sid mid space stored) c)))"
| no_start: "TaskStart sid mid space stored \<in> set (ct_tasks c) \<Longrightarrow>
    controller_step zones c (finish_task (TaskStart sid mid space stored) c)"
| saves: "controller_step zones c (save_controller_plan sid s c)"

definition new_controller :: "plan_store \<Rightarrow> controller" where
  "new_controller st = \<lparr>ct_store = st, ct_checks = [], ct_failures = [], ct_flights = [], ct_tasks = [], ct_requests = []\<rparr>"

text \<open>
  The invariant: a meter that counts as busy has a request under way, no request was sent
  twice, at most two planned calls are open and never two for one meter.
\<close>

definition lanes :: "task list \<Rightarrow> bool" where
  "lanes ts \<longleftrightarrow> length (filter planned_task ts) \<le> max_flights \<and> distinct (map task_key (filter planned_task ts))"

definition under_way :: "string \<Rightarrow> string \<Rightarrow> task list \<Rightarrow> bool" where
  "under_way s i ts \<longleftrightarrow> (\<exists>start r. TaskSend s i start r \<in> set ts)"

definition controller_ok :: "controller \<Rightarrow> bool" where
  "controller_ok c \<longleftrightarrow> (\<forall>s i. jm_has (ct_flights c) (s, i) \<longrightarrow> under_way s i (ct_tasks c)) \<and> distinct (request_ids c) \<and> lanes (ct_tasks c)"

subsection \<open>Lemmas\<close>

lemma lanes_remove: "lanes ts \<Longrightarrow> lanes (remove1 t ts)"
  unfolding lanes_def filter_remove1
  by (auto simp: length_remove1 distinct_map distinct_remove1 set_remove1_subset intro: inj_on_subset split: if_splits)

lemma lanes_continue:
  assumes "t \<in> set ts" "lanes ts" "task_key t' = task_key t" "planned_task t' \<Longrightarrow> planned_task t"
  shows "lanes (t' # remove1 t ts)"
proof (cases "planned_task t'")
  case True
  then have t: "t \<in> set (filter planned_task ts)" using assms(1,4) by simp
  have inj: "inj_on task_key (set (filter planned_task ts))" "distinct (filter planned_task ts)"
    using assms(2) unfolding lanes_def distinct_map by auto
  have "task_key t \<notin> task_key ` set (remove1 t (filter planned_task ts))"
  proof
    assume "task_key t \<in> task_key ` set (remove1 t (filter planned_task ts))"
    then obtain u where u: "u \<in> set (remove1 t (filter planned_task ts))" "task_key u = task_key t" by auto
    then have "u \<in> set (filter planned_task ts)" by (meson notin_set_remove1)
    with inj(1) t u(2) have "u = t" by (metis inj_onD)
    with u(1) inj(2) show False by simp
  qed
  moreover have "lanes (remove1 t ts)" using assms(2) by (rule lanes_remove)
  moreover have "0 < length (filter planned_task ts)" using t by (cases "filter planned_task ts") auto
  ultimately show ?thesis
    using True assms(2,3) t by (simp add: lanes_def filter_remove1 length_remove1)
next
  case False
  with lanes_remove [OF assms(2), of t] show ?thesis by (simp add: lanes_def)
qed

lemma lanes_other: "\<not> planned_task t \<Longrightarrow> lanes ts \<Longrightarrow> lanes (t # ts)"
  by (simp add: lanes_def)

lemma under_way_cons: "under_way s i ts \<Longrightarrow> under_way s i (t # ts)"
  by (auto simp: under_way_def)

lemma under_way_remove:
  "under_way s i ts \<Longrightarrow> (\<And>start r. t \<noteq> TaskSend s i start r) \<Longrightarrow> under_way s i (remove1 t ts)"
  unfolding under_way_def by (metis in_set_remove1)

text \<open>What the pieces leave alone.\<close>

lemma helper_fields [simp]:
  "ct_tasks (set_check k t c) = ct_tasks c" "ct_flights (set_check k t c) = ct_flights c"
  "ct_requests (set_check k t c) = ct_requests c" "ct_store (set_check k t c) = ct_store c"
  "ct_tasks (await t' c) = t' # ct_tasks c" "ct_flights (await t' c) = ct_flights c"
  "ct_requests (await t' c) = ct_requests c" "ct_store (await t' c) = ct_store c"
  "ct_tasks (finish_task t' c) = remove1 t' (ct_tasks c)" "ct_flights (finish_task t' c) = ct_flights c"
  "ct_requests (finish_task t' c) = ct_requests c" "ct_store (finish_task t' c) = ct_store c"
  "ct_tasks (write_record sid mid r c) = ct_tasks c" "ct_flights (write_record sid mid r c) = ct_flights c"
  "ct_requests (write_record sid mid r c) = ct_requests c"
  by (simp_all add: set_check_def await_def finish_task_def write_record_def)

lemma request_ids_simps [simp]:
  "request_ids (set_check k t c) = request_ids c" "request_ids (await t' c) = request_ids c"
  "request_ids (finish_task t' c) = request_ids c" "request_ids (write_record sid mid r c) = request_ids c"
  by (simp_all add: request_ids_def)

lemma step_begin_effect:
  "ct_requests (step_begin zones now a sid source m c) = ct_requests c
   \<and> ct_flights (step_begin zones now a sid source m c) = ct_flights c
   \<and> ct_store (step_begin zones now a sid source m c) = ct_store c
   \<and> (ct_tasks (step_begin zones now a sid source m c) = ct_tasks c
      \<or> (\<exists>t. ct_tasks (step_begin zones now a sid source m c) = t # ct_tasks c \<and> task_key t = (sid, mt_id m) \<and> planned_task t))"
  by (simp add: step_begin_def Let_def split: sum.split decision.split option.split)

lemma verify_done_effect:
  "ct_requests (verify_done now sid mid r fresh c) = ct_requests c
   \<and> ct_flights (verify_done now sid mid r fresh c) = ct_flights c
   \<and> ct_tasks (verify_done now sid mid r fresh c) = ct_tasks c"
  by (simp add: verify_done_def split: option.split)

text \<open>A planned start goes on only after a decision on the reading that arrived.\<close>

lemma read_done_effect:
  "ct_requests (read_done zones now sid source m stored fresh c) = ct_requests c
   \<and> ct_flights (read_done zones now sid source m stored fresh c) = ct_flights c
   \<and> ct_store (read_done zones now sid source m stored fresh c) = ct_store c
   \<and> (ct_tasks (read_done zones now sid source m stored fresh c) = ct_tasks c
      \<or> (\<exists>current reading start w sr. ct_tasks (read_done zones now sid source m stored fresh c)
            = TaskModels sid current reading (sp_plan stored) (sp_space stored) sr # ct_tasks c
          \<and> mt_id current = mt_id m \<and> reading = nullish fresh source
          \<and> decision_of zones now sid reading current c = Inr (DecisionPing start w) \<and> sr_reason sr = st_reason start))"
proof -
  have same: "decision_of zones now sid reading current (c\<lparr>ct_failures := f\<rparr>) = decision_of zones now sid reading current c"
    for reading current f by (simp add: decision_of_def)
  show ?thesis
    by (auto simp: read_done_def Let_def same split: sum.split decision.split option.split dest: find_SomeD)
qed

text \<open>A request goes out only with its record written down first, and the piece adds one at most.\<close>

lemma models_done_effect:
  "(ct_requests (models_done now new_id sid m source plan space start route c) = ct_requests c
      \<and> ct_flights (models_done now new_id sid m source plan space start route c) = ct_flights c
      \<and> ct_tasks (models_done now new_id sid m source plan space start route c) = ct_tasks c)
   \<or> (\<exists>harness r. ct_requests (models_done now new_id sid m source plan space start route c) = (harness, space, r) # ct_requests c
      \<and> ct_flights (models_done now new_id sid m source plan space start route c) = jm_set (sid, mt_id m) new_id (ct_flights c)
      \<and> ct_tasks (models_done now new_id sid m source plan space start route c) = TaskSend sid (mt_id m) start r # ct_tasks c
      \<and> ct_store (models_done now new_id sid m source plan space start route c) = put_record sid (mt_id m) r (ct_store c)
      \<and> pg_id r = new_id \<and> pg_outcome r = PingSending \<and> pg_at r = now \<and> pg_reason r = sr_reason start)"
proof (cases "fire_target now new_id m source plan start route")
  case (FireSent harness r)
  then have r: "pg_id r = new_id \<and> pg_outcome r = PingSending \<and> pg_at r = now \<and> pg_reason r = sr_reason start"
    by (auto simp: fire_target_def split: option.splits prod.splits)
  show ?thesis
    by (rule disjI2, rule exI [of _ harness], rule exI [of _ r])
      (simp add: models_done_def Let_def FireSent r write_record_def)
qed (simp_all add: models_done_def Let_def)

lemma send_done_effect:
  "ct_requests (send_done now sid mid r result c) = ct_requests c
   \<and> ct_flights (send_done now sid mid r result c) = jm_delete (sid, mid) (ct_flights c)
   \<and> ct_tasks (send_done now sid mid r result c) = ct_tasks c"
  by (simp add: send_done_def Let_def)

lemma start_now_effect:
  "ct_requests (snd (start_now sid mid space c)) = ct_requests c
   \<and> ct_flights (snd (start_now sid mid space c)) = ct_flights c
   \<and> ct_store (snd (start_now sid mid space c)) = ct_store c
   \<and> (ct_tasks (snd (start_now sid mid space c)) = ct_tasks c
      \<or> (\<exists>stored. ct_tasks (snd (start_now sid mid space c)) = TaskStart sid mid space stored # ct_tasks c))"
  by (simp add: start_now_def)

lemma start_read_effect:
  "ct_requests (snd (start_read now sid mid space stored fresh c)) = ct_requests c
   \<and> ct_flights (snd (start_read now sid mid space stored fresh c)) = ct_flights c
   \<and> ct_store (snd (start_read now sid mid space stored fresh c)) = ct_store c
   \<and> (ct_tasks (snd (start_read now sid mid space stored fresh c)) = ct_tasks c
      \<or> (\<exists>m plan sp sr. ct_tasks (snd (start_read now sid mid space stored fresh c)) = TaskModels sid m fresh plan sp sr # ct_tasks c
          \<and> sr_reason sr = ReasonManual))"
  by (simp add: start_read_def Let_def split: option.split)

lemma save_effect:
  "ct_requests (save_controller_plan sid s c) = ct_requests c \<and> ct_flights (save_controller_plan sid s c) = ct_flights c
   \<and> ct_tasks (save_controller_plan sid s c) = ct_tasks c"
  by (simp add: save_controller_plan_def touch_def)

text \<open>Decisions never name the reason manual, so a planned call stays one.\<close>

lemma next_start_reason: "next_start zones plan period idle_from now saved_at = Inr (Some s) \<Longrightarrow> st_reason s \<noteq> ReasonManual"
  by (erule next_start_cases) simp_all

lemma decision_ping_reason:
  assumes "decision_of zones now sid source m c = Inr (DecisionPing start w)"
  shows "st_reason start \<noteq> ReasonManual"
  using decide_start_ping [OF decide_ping(1) [OF assms [unfolded decision_of_def Let_def]]] next_start_reason by metis

lemma under_way_deleted:
  assumes "\<forall>s i. jm_has fl (s, i) \<longrightarrow> under_way s i ts" "jm_has (jm_delete (sid, mid) fl) (s, i)"
  shows "under_way s i (remove1 (TaskSend sid mid start r) ts)"
proof (rule under_way_remove)
  have "jm_has fl (s, i)" "(s, i) \<noteq> (sid, mid)" using assms(2) by (simp_all add: jm_has_update)
  with assms(1) show "under_way s i ts" "TaskSend sid mid start r \<noteq> TaskSend s i start' r'" for start' r'
    by auto
qed

lemma under_way_set:
  assumes "\<forall>s i. jm_has fl (s, i) \<longrightarrow> under_way s i ts" "jm_has (jm_set (sid, mid) v fl) (s, i)"
  shows "under_way s i (TaskSend sid mid start r # ts)"
proof -
  have "(s, i) = (sid, mid) \<or> jm_has fl (s, i)"
    using assms(2) by (simp add: jm_has_update)
  then show ?thesis
  proof
    assume "(s, i) = (sid, mid)"
    then show ?thesis unfolding under_way_def by auto
  next
    assume "jm_has fl (s, i)"
    with assms(1) show ?thesis by (intro under_way_cons) blast
  qed
qed

lemma controller_step_ok:
  assumes "controller_step zones c d" "controller_ok c"
  shows "controller_ok d"
  using assms(1)
proof cases
  case (begins m source now authorized)
  let ?k = "(ls_provider source, mt_id m)"
  have old: "under_way s i (ct_tasks c)" if "jm_has (ct_flights c) (s, i)" for s i
    using assms(2) that by (simp add: controller_ok_def)
  have ids: "distinct (request_ids c)" and lanes: "lanes (ct_tasks c)" using assms(2) by (simp_all add: controller_ok_def)
  have more: "lanes (t # ct_tasks c)" if "task_key t = ?k" "planned_task t" for t
    using that lanes begins(3,4) by (auto simp: lanes_def)
  from step_begin_effect [of zones now authorized "ls_provider source" source m c] show ?thesis
  proof (elim conjE disjE exE)
    assume "ct_tasks (step_begin zones now authorized (ls_provider source) source m c) = ct_tasks c"
      "ct_requests (step_begin zones now authorized (ls_provider source) source m c) = ct_requests c"
      "ct_flights (step_begin zones now authorized (ls_provider source) source m c) = ct_flights c"
    with begins(1) old ids lanes show ?thesis by (simp add: controller_ok_def request_ids_def)
  next
    fix t
    assume "ct_tasks (step_begin zones now authorized (ls_provider source) source m c) = t # ct_tasks c"
      "ct_requests (step_begin zones now authorized (ls_provider source) source m c) = ct_requests c"
      "ct_flights (step_begin zones now authorized (ls_provider source) source m c) = ct_flights c"
      "task_key t = ?k" "planned_task t"
    with begins(1) old ids more under_way_cons show ?thesis by (simp add: controller_ok_def request_ids_def)
  qed
next
  case (verifies sid mid r now fresh)
  with verify_done_effect [of now sid mid r fresh "finish_task (TaskVerify sid mid r) c"] assms(2) show ?thesis
    unfolding controller_ok_def request_ids_def by (auto intro: under_way_remove lanes_remove)
next
  case (reads sid source m stored now fresh)
  let ?t = "TaskRead sid source m stored" and ?c = "finish_task (TaskRead sid source m stored) c"
  have "lanes (ct_tasks d)"
  proof -
    have base: "lanes (ct_tasks c)" using assms(2) by (simp add: controller_ok_def)
    have go: "lanes (TaskModels sid current reading (sp_plan stored) (sp_space stored) sr # remove1 ?t (ct_tasks c))"
      if "mt_id current = mt_id m" for current reading sr
      by (rule lanes_continue [OF reads(2) base]) (use that in simp_all)
    from read_done_effect [of zones now sid source m stored fresh ?c] reads(1) show ?thesis
      by (elim conjE disjE exE) (simp_all add: go lanes_remove [OF base])
  qed
  moreover have "under_way s i (ct_tasks d)" if "under_way s i (ct_tasks c)" for s i
    using read_done_effect [of zones now sid source m stored fresh ?c] reads under_way_remove [OF that, of ?t]
    by (auto intro: under_way_cons)
  ultimately show ?thesis
    using read_done_effect [of zones now sid source m stored fresh ?c] reads assms(2)
    unfolding controller_ok_def request_ids_def by auto
next
  case (catalogs sid m source plan space start new_id now route)
  let ?t = "TaskModels sid m source plan space start"
  have old: "under_way s i (remove1 ?t (ct_tasks c))" if "jm_has (ct_flights c) (s, i)" for s i
    using assms(2) that by (auto simp: controller_ok_def intro: under_way_remove)
  have ids: "distinct (request_ids c)" "new_id \<notin> set (request_ids c)"
    using assms(2) catalogs by (auto simp: controller_ok_def)
  have lanes: "lanes (remove1 ?t (ct_tasks c))" "lanes (TaskSend sid (mt_id m) start r # remove1 ?t (ct_tasks c))" for r
    using assms(2) catalogs by (auto simp: controller_ok_def intro: lanes_remove lanes_continue)
  from models_done_effect [of now new_id sid m source plan space start route "finish_task ?t c"]
  show ?thesis
  proof (elim disjE exE conjE)
    assume "ct_requests (models_done now new_id sid m source plan space start route (finish_task ?t c)) = ct_requests (finish_task ?t c)"
      "ct_flights (models_done now new_id sid m source plan space start route (finish_task ?t c)) = ct_flights (finish_task ?t c)"
      "ct_tasks (models_done now new_id sid m source plan space start route (finish_task ?t c)) = ct_tasks (finish_task ?t c)"
    with catalogs old ids lanes show ?thesis by (auto simp: controller_ok_def request_ids_def)
  next
    fix harness r
    assume "ct_requests (models_done now new_id sid m source plan space start route (finish_task ?t c)) = (harness, space, r) # ct_requests (finish_task ?t c)"
      "ct_flights (models_done now new_id sid m source plan space start route (finish_task ?t c)) = jm_set (sid, mt_id m) new_id (ct_flights (finish_task ?t c))"
      "ct_tasks (models_done now new_id sid m source plan space start route (finish_task ?t c)) = TaskSend sid (mt_id m) start r # ct_tasks (finish_task ?t c)"
      "pg_id r = new_id"
    with catalogs old ids lanes under_way_set [of "ct_flights c" "remove1 ?t (ct_tasks c)"] show ?thesis
      by (simp add: controller_ok_def request_ids_def)
  qed
next
  case (no_catalog sid m source plan space start)
  with assms(2) show ?thesis
    unfolding controller_ok_def by (auto intro: under_way_remove lanes_remove)
next
  case (sends sid mid start r now result)
  with send_done_effect [of now sid mid r result "finish_task (TaskSend sid mid start r) c"] assms(2)
    under_way_deleted [of "ct_flights c" "ct_tasks c" sid mid]
  show ?thesis
    unfolding controller_ok_def request_ids_def by (auto intro: lanes_remove)
next
  case (starts sid mid space)
  from start_now_effect [of sid mid space c] starts assms(2) show ?thesis
    unfolding controller_ok_def request_ids_def
    by (elim conjE disjE exE) (simp_all add: under_way_cons lanes_other)
next
  case (start_reads sid mid space stored now fresh)
  let ?t = "TaskStart sid mid space stored"
  have "under_way s i (remove1 ?t (ct_tasks c))" if "jm_has (ct_flights c) (s, i)" for s i
    using assms(2) that by (auto simp: controller_ok_def intro: under_way_remove)
  with start_reads start_read_effect [of now sid mid space stored fresh "finish_task ?t c"] assms(2) show ?thesis
    unfolding controller_ok_def request_ids_def
    by (elim conjE disjE exE) (simp_all add: under_way_cons lanes_other lanes_remove)
next
  case (no_start sid mid space stored)
  with assms(2) show ?thesis
    unfolding controller_ok_def by (auto intro: under_way_remove lanes_remove)
next
  case (saves sid s)
  with save_effect [of sid s c] assms(2) show ?thesis
    unfolding controller_ok_def request_ids_def by simp
qed

interpretation controller: machine "controller_step zones" controller_ok for zones
  by unfold_locales (rule controller_step_ok)


inductive_cases controller_stepE: "controller_step zones c d"

text \<open>
  The busy check of \<open>startNow\<close> runs before its reading and its catalog are awaited, and the
  meter only counts as busy once the request goes out: two calls that overlap both pass it,
  and one meter has two requests under way.
\<close>

definition race_model :: catalog_model where
  "race_model = ring_model ''haiku''"

definition race_start :: start_request where
  "race_start = \<lparr>sr_window = ''five_hour'', sr_period = 18000000, sr_reason = ReasonManual, sr_target = None\<rparr>"

definition race_task :: task where
  "race_task = TaskStart ''claude'' ''all'' ''home'' None"

definition race_catalog :: task where
  "race_catalog = TaskModels ''claude'' idle_meter idle_source off_plan ''home'' race_start"

definition race1 :: controller where
  "race1 = snd (start_now ''claude'' ''all'' ''home'' (snd (start_now ''claude'' ''all'' ''home'' (new_controller empty_store))))"

definition race2 :: controller where
  "race2 = snd (start_read 0 ''claude'' ''all'' ''home'' None idle_source (finish_task race_task race1))"

definition race3 :: controller where
  "race3 = snd (start_read 0 ''claude'' ''all'' ''home'' None idle_source (finish_task race_task race2))"

definition race4 :: controller where
  "race4 = models_done 0 ''a'' ''claude'' idle_meter idle_source off_plan ''home'' race_start (Some (''claude'', [race_model]))
     (finish_task race_catalog race3)"


lemma idle_meters: "meters_of idle_source = [idle_meter]"
proof -
  have "source_family idle_source = ''claude''" by code_simp
  then have "meter_id_of idle_source i = ''all''" for i by (simp add: meter_id_of_def)
  moreover have "is_steerable idle_window" by (simp add: is_steerable_def idle_window_def min_period_ms_def)
  ultimately show ?thesis
    by (simp add: meters_of_def idle_source_def idle_meter_def meter_of_def jm_set_def jm_has_def jm_get_def map_filter_simps
        meter_labels_def idle_window_def Let_def)
qed

lemma idle_rank: "mc_model (model_for off_plan idle_source idle_meter [race_model]) = Some race_model"
proof -
  have "rank_models [race_model] idle_source (lw_id (mt_primary idle_meter)) = [race_model]" by code_simp
  then show ?thesis by (simp add: model_for_def off_plan_def head_option_def)
qed

lemma race1_eq: "race1 = (new_controller empty_store)\<lparr>ct_tasks := [race_task, race_task]\<rparr>"
  by (simp add: race1_def start_now_def new_controller_def await_def jm_has_def empty_store_def jm_get_def race_task_def)

lemma race_read:
  assumes "ct_store c = empty_store"
  shows "snd (start_read 0 ''claude'' ''all'' ''home'' None idle_source c) = await race_catalog c"
proof -
  have "mt_id idle_meter = ''all''" "mt_primary idle_meter = idle_window" "lw_id idle_window = ''five_hour''"
    by (simp_all add: idle_meter_def idle_window_def)
  moreover have "phase_of idle_window (ls_fetched_at idle_source) 0 \<noteq> PhaseRunning"
    by (simp add: phase_of_def idle_window_def)
  ultimately show ?thesis
    by (simp add: start_read_def idle_meters assms store_records_def empty_store_def jm_get_def idle_reading
        race_catalog_def race_start_def)
qed

lemma race_fields:
  "mt_id idle_meter = ''all''" "cm_provider race_model = ''p''" "cm_model race_model = ''haiku''"
  "sr_window race_start = ''five_hour''" "sr_period race_start = 18000000" "sr_reason race_start = ReasonManual"
  "sr_target race_start = None"
  by (simp_all add: idle_meter_def race_model_def ring_model_def race_start_def)

definition race_record :: "string \<Rightarrow> ping_record" where
  "race_record i = \<lparr>pg_id = i, pg_at = 0, pg_window = ''five_hour'', pg_period = 18000000, pg_reason = ReasonManual, pg_target = None,
     pg_provider = ''p'', pg_model = ''haiku'', pg_outcome = PingSending, pg_latency = None, pg_reset = None, pg_error = None\<rparr>"

lemma race_fire:
  "models_done 0 i ''claude'' idle_meter idle_source off_plan ''home'' race_start (Some (''claude'', [race_model])) c
    = c\<lparr>ct_store := put_record ''claude'' ''all'' (race_record i) (ct_store c),
        ct_flights := jm_set (''claude'', ''all'') i (ct_flights c),
        ct_tasks := TaskSend ''claude'' ''all'' race_start (race_record i) # ct_tasks c,
        ct_requests := (''claude'', ''home'', race_record i) # ct_requests c\<rparr>"
  by (simp add: models_done_def fire_target_def idle_rank race_fields Let_def write_record_def await_def race_record_def)

lemma race_eqs:
  "ct_tasks race1 = [race_task, race_task]" "ct_store race1 = empty_store" "ct_requests race1 = []" "ct_flights race1 = []"
  "ct_tasks race2 = [race_catalog, race_task]" "ct_store race2 = empty_store" "ct_requests race2 = []" "ct_flights race2 = []"
  "ct_tasks race3 = [race_catalog, race_catalog]" "ct_store race3 = empty_store" "ct_requests race3 = []" "ct_flights race3 = []"
proof -
  show 1: "ct_tasks race1 = [race_task, race_task]" "ct_store race1 = empty_store" "ct_requests race1 = []" "ct_flights race1 = []"
    by (simp_all add: race1_eq new_controller_def)
  show 2: "ct_tasks race2 = [race_catalog, race_task]" "ct_store race2 = empty_store" "ct_requests race2 = []" "ct_flights race2 = []"
    by (simp_all add: race2_def race_read 1)
  show "ct_tasks race3 = [race_catalog, race_catalog]" "ct_store race3 = empty_store" "ct_requests race3 = []" "ct_flights race3 = []"
    by (simp_all add: race3_def race_read 2 race_task_def race_catalog_def)
qed

lemma race4_eqs:
  "ct_tasks race4 = [TaskSend ''claude'' ''all'' race_start (race_record ''a''), race_catalog]"
  "ct_requests race4 = [(''claude'', ''home'', race_record ''a'')]" "ct_flights race4 = [((''claude'', ''all''), ''a'')]"
  "store_records (ct_store race4) ''claude'' ''all'' = [race_record ''a'']"
proof -
  have "store_records empty_store ''claude'' ''all'' = []" by (simp add: store_records_def empty_store_def jm_get_def)
  then show "store_records (ct_store race4) ''claude'' ''all'' = [race_record ''a'']"
    by (simp add: race4_def race_fire race_eqs put_record_same next_records_def max_records_def)
qed (simp_all add: race4_def race_fire race_eqs jm_set_def jm_has_def)


subsection \<open>Redaction\<close>

fun short_runs :: "string \<Rightarrow> bool" where
  "short_runs [] \<longleftrightarrow> True"
| "short_runs (c # cs) \<longleftrightarrow> length (takeWhile is_token_char (c # cs)) < 24 \<and> short_runs cs"

lemma redact_head: "length (takeWhile is_token_char (redact fuel s)) \<le> length (takeWhile is_token_char s)"
proof (induction fuel s rule: redact.induct)
  case (3 fuel c cs)
  then show ?case
    by (cases "after_secret (c # cs)") (auto simp: is_token_char_def is_word_char_def lower_char_def is_lower_letter_def
        is_digit_char_def is_digit_upto_def)
qed simp_all

lemma short_runs_marker: "short_runs s \<Longrightarrow> short_runs (''[redacted]'' @ s)"
  by (simp add: is_token_char_def is_word_char_def lower_char_def is_lower_letter_def is_digit_char_def is_digit_upto_def)

lemma redact_short: "short_runs (redact fuel s)"
proof (induction fuel s rule: redact.induct)
  case (3 fuel c cs)
  show ?case
  proof (cases "after_secret (c # cs)")
    case None
    then have "length (takeWhile is_token_char (c # cs)) < 24"
      by (auto simp: after_secret_def split: option.splits if_splits)
    moreover have "length (takeWhile is_token_char (c # redact fuel cs)) \<le> length (takeWhile is_token_char (c # cs))"
      using redact_head [of fuel cs] by simp
    ultimately show ?thesis using None 3(1) [OF None] by simp
  next
    case (Some rest)
    then have "redact (Suc fuel) (c # cs) = ''[redacted]'' @ redact fuel rest" by simp
    with short_runs_marker [OF 3(2) [OF Some]] show ?thesis by (simp only:)
  qed
qed simp_all

lemma takeWhile_take_le: "length (takeWhile P (take n xs)) \<le> length (takeWhile P xs)"
  by (induction xs arbitrary: n) (auto simp: take_Cons split: nat.split)

lemma short_runs_take: "short_runs s \<Longrightarrow> short_runs (take n s)"
proof (induction s arbitrary: n)
  case (Cons c cs)
  show ?case
  proof (cases n)
    case (Suc k)
    from takeWhile_take_le [of is_token_char n "c # cs"] Cons Suc show ?thesis by (auto split: if_splits)
  qed simp
qed simp

lemma takeWhile_eq_take_length: "takeWhile P xs = take (length (takeWhile P xs)) xs"
  by (rule takeWhile_eq_take)

section \<open>Properties\<close>



text \<open>
  A request never leaves without evidence: a step adds at most one request, under an id
  that was not used before, and in the same step its record stands at the head of its
  meter's history as being sent.
\<close>

theorem request_leaves_evidence:
  assumes "controller_step zones c d" "ct_requests d \<noteq> ct_requests c"
  shows "\<exists>sid mid harness space r. ct_requests d = (harness, space, r) # ct_requests c \<and> pg_id r \<notin> set (request_ids c)
    \<and> pg_outcome r = PingSending \<and> store_records (ct_store d) sid mid = take max_records (r # store_records (ct_store c) sid mid)"
  using assms(1)
proof cases
  case (catalogs sid m source plan space start new_id now route)
  let ?c = "finish_task (TaskModels sid m source plan space start) c"
  from models_done_effect [of now new_id sid m source plan space start route ?c] catalogs(1) assms(2)
  obtain harness r where r: "ct_requests d = (harness, space, r) # ct_requests c" "pg_id r = new_id" "pg_outcome r = PingSending"
      "ct_store d = put_record sid (mt_id m) r (ct_store c)" by auto
  have "\<not> list_ex (\<lambda>x. pg_id x = pg_id r) (store_records (ct_store c) sid (mt_id m))"
    using catalogs(4) r(2) by (simp add: list_ex_iff image_iff) metis
  then have "store_records (ct_store d) sid (mt_id m) = take max_records (r # store_records (ct_store c) sid (mt_id m))"
    using r(4) by (simp add: put_record_same next_records_def)
  with r catalogs(3) show ?thesis by blast
qed (use assms(2) step_begin_effect verify_done_effect read_done_effect send_done_effect start_now_effect start_read_effect
      save_effect in auto)

lemma request_leaves_evidence_witness:
  "\<exists>sid mid r. ct_requests race4 = [(''claude'', ''home'', r)] \<and> pg_outcome r = PingSending
    \<and> store_records (ct_store race4) sid mid = take max_records (r # store_records empty_store sid mid)"
proof -
  have step: "controller_step (\<lambda>_. None) race3 race4"
    unfolding race4_def race_catalog_def
    by (rule catalogs) (simp_all add: race_eqs race_catalog_def request_ids_def store_records_def empty_store_def jm_get_def)
  obtain r where r: "ct_requests race4 = [(''claude'', ''home'', r)]" by (simp add: race4_eqs)
  with request_leaves_evidence [OF step] show ?thesis by (simp add: race_eqs)
qed

text \<open>
  A due start goes on to a request only when the decision, made again on the reading that
  was just asked for, still says so; that reading is fresh, or three earlier ones in a row
  had failed.
\<close>

theorem planned_start_confirmed:
  assumes "ct_tasks (read_done zones now sid source m stored fresh c) \<noteq> ct_tasks c"
  shows "\<exists>current reading start w. current \<in> set (meters_of reading) \<and> mt_id current = mt_id m
    \<and> decision_of zones now sid reading current c = Inr (DecisionPing start w) \<and> st_at start \<le> now
    \<and> (fresh = Some reading \<and> \<not> ls_stale reading
       \<or> max_read_retries \<le> nullish (jm_get (ct_failures c) (sid, mt_id m)) 0)"
proof -
  let ?k = "(sid, mt_id m)" and ?reading = "nullish fresh source"
  let ?unusable = "case fresh of None \<Rightarrow> True | Some f \<Rightarrow> ls_stale f"
  have same: "decision_of zones now sid reading current (c\<lparr>ct_failures := f\<rparr>) = decision_of zones now sid reading current c"
    for reading current f by (simp add: decision_of_def)
  have go: "\<not> (?unusable \<and> Suc (nullish (jm_get (ct_failures c) ?k) 0) \<le> max_read_retries)"
    using assms by (auto simp: read_done_def Let_def)
  then obtain current where current: "find (\<lambda>row. mt_id row = mt_id m) (meters_of ?reading) = Some current"
    using assms by (cases "find (\<lambda>row. mt_id row = mt_id m) (meters_of ?reading)") (auto simp: read_done_def Let_def)
  with assms go obtain start w where d: "decision_of zones now sid ?reading current c = Inr (DecisionPing start w)"
    by (auto simp: read_done_def Let_def same split: sum.splits decision.splits)
  have "st_at start \<le> now"
    by (rule decide_start_ping [OF decide_ping(1) [OF d [unfolded decision_of_def Let_def]]])
  moreover have "fresh = Some ?reading \<and> \<not> ls_stale ?reading \<or> max_read_retries \<le> nullish (jm_get (ct_failures c) ?k) 0"
    using go by (cases fresh) auto
  ultimately show ?thesis using find_SomeD [OF current] d by blast
qed

definition due_controller :: controller where
  "due_controller = new_controller (save_plan ''claude'' demo_stored empty_store)"

lemma planned_start_confirmed_witness:
  "\<exists>current reading start w. current \<in> set (meters_of reading)
    \<and> decision_of (\<lambda>_. Some (\<lambda>_. 0)) 32445000 ''claude'' reading current due_controller = Inr (DecisionPing start w)
    \<and> Some idle_source = Some reading \<and> \<not> ls_stale reading"
proof -
  let ?z = "\<lambda>_. Some (\<lambda>_. 0)"
  have store: "ps_plans (ct_store due_controller) = [(''claude'', demo_stored)]" "store_records (ct_store due_controller) s i = []"
    "ct_failures due_controller = []" for s i
    by (simp_all add: due_controller_def new_controller_def save_plan_def empty_store_def jm_set_def jm_has_def Let_def
        store_records_def jm_get_def)
  have start: "next_start ?z demo_plan 18000000 0 32445000 5 = Inr (Some demo_start)" by code_simp
  have p: "wp_mode demo_plan = PlanHour" "wp_skip_meters demo_plan = None" by code_simp+
  have d: "decision_of ?z 32445000 ''claude'' idle_source idle_meter due_controller = Inr (DecisionPing demo_start idle_window)"
    by (simp add: decision_of_def store jm_get_def demo_stored_def decide_def decide_start_def Let_def idle_reading start p
        spent_def max_pings_per_day_def assumed_over_def) (simp add: demo_start_def)
  have "ct_tasks (read_done ?z 32445000 ''claude'' idle_source idle_meter demo_stored (Some idle_source) due_controller)
      \<noteq> ct_tasks due_controller"
  proof -
    have "decision_of ?z 32445000 ''claude'' idle_source idle_meter (due_controller\<lparr>ct_failures := f\<rparr>)
        = Inr (DecisionPing demo_start idle_window)" for f
      using d by (simp add: decision_of_def)
    then show ?thesis
      by (simp add: read_done_def idle_meters Let_def, simp add: idle_source_def)
  qed
  from planned_start_confirmed [OF this] store(3) show ?thesis
    by (auto simp: jm_get_def max_read_retries_def)
qed

text \<open>
  What is stored of an error has at most 200 characters, is one line, and never holds 24
  letters, digits, dashes or underscores in a row.
\<close>

theorem public_error_short:
  "length (public_error message) \<le> 200 \<and> CHR 0x0A \<notin> set (public_error message) \<and> short_runs (public_error message)"
proof -
  have "short_runs (takeWhile (\<lambda>c. c \<noteq> CHR 0x0A) (redact (Suc (length message)) message))"
    using short_runs_take [OF redact_short] by (metis takeWhile_eq_take_length)
  then show ?thesis
    unfolding public_error_def
    by (auto intro: short_runs_take dest: in_set_takeD set_takeWhileD)
qed

end
