(* ===== verification/Kernel.thy ===== *)
theory Kernel
  imports JsMap
begin

text \<open>
  The composition kernel, packages/kernel/src/index.ts: a tree of scopes with their
  providers, listeners, effects and contributions, the plugin loader and the profile
  resolver.

  Scopes live in a store and are named by the number of their creation. Values, callbacks
  and disposers of plugins are labels; whether a disposer fails, and what a listener makes
  of a value, are arguments. What runs is appended to a log. An \<open>async\<close> function runs to its
  end here: the flag \<open>disposed\<close> is set before the first \<open>await\<close> of \<open>dispose\<close>, so nothing can be
  registered in between.
\<close>

section \<open>State\<close>

record 'v provider_entry =
  pe_key :: string
  pe_value :: "'v option" \<comment> \<open>a provider may register \<open>undefined\<close>\<close>
  pe_priority :: int
  pe_order :: nat

record ui_item =
  ui_id :: string
  ui_slot :: string
  ui_order :: "int option"
  ui_module :: string
  ui_props :: json

record contribution =
  cn_item :: ui_item
  cn_handle :: nat
  cn_downstream :: bool \<comment> \<open>also registered with the UI registry\<close>

text \<open>A disposer: the one that \<open>provide\<close> registers, or a plugin's own.\<close>

datatype disposer = RemoveProvider string nat | PluginEffect nat

record 'v scope =
  sc_name :: string
  sc_parent :: "nat option"
  sc_config :: json
  sc_disposed :: bool
  sc_providers :: "(string, 'v provider_entry list) jsmap"
  sc_listeners :: "(string, nat list) jsmap"
  sc_effects :: "disposer list"
  sc_contributions :: "contribution list"
  sc_children :: "nat list"

datatype log_entry =
    RanEffect nat nat            \<comment> \<open>scope and label\<close>
  | SlotAdded nat ui_item
  | SlotRevoked nat              \<comment> \<open>handle\<close>
  | Called nat nat               \<comment> \<open>scope and callback\<close>

record 'v kernel =
  kn_scopes :: "nat \<Rightarrow> 'v scope option"
  kn_next :: nat                 \<comment> \<open>the next scope, and the next handle\<close>
  kn_handles :: nat
  kn_order :: nat                \<comment> \<open>\<open>providerOrder\<close>\<close>
  kn_log :: "log_entry list"     \<comment> \<open>oldest first\<close>

datatype kernel_error = ContextDisposed | NotProvided string | MissingCapabilities "string list" | DuplicateWidget string
  | UnsupportedSlot string | SetupFailed nat | EffectFailed nat | SlotFailed nat | DisposeFailed string "kernel_error list"

definition update_scope :: "nat \<Rightarrow> ('v scope \<Rightarrow> 'v scope) \<Rightarrow> 'v kernel \<Rightarrow> 'v kernel" where
  "update_scope i f k = k\<lparr>kn_scopes := (kn_scopes k)(i := map_option f (kn_scopes k i))\<rparr>"

definition alive :: "'v kernel \<Rightarrow> nat \<Rightarrow> bool" where
  "alive k i \<longleftrightarrow> (case kn_scopes k i of None \<Rightarrow> False | Some s \<Rightarrow> \<not> sc_disposed s)"

section \<open>Providers\<close>

definition add_entry :: "string \<Rightarrow> 'v provider_entry \<Rightarrow> 'v scope \<Rightarrow> 'v scope" where
  "add_entry key e s = s\<lparr>sc_providers := jm_set key (nullish (jm_get (sc_providers s) key) [] @ [e]) (sc_providers s)\<rparr>"

definition add_provider :: "nat \<Rightarrow> string \<Rightarrow> 'v option \<Rightarrow> int \<Rightarrow> 'v kernel \<Rightarrow> 'v kernel" where
  "add_provider i key v priority k =
     (update_scope i (add_entry key \<lparr>pe_key = key, pe_value = v, pe_priority = priority, pe_order = kn_order k\<rparr>) k)
       \<lparr>kn_order := Suc (kn_order k)\<rparr>"

fun best_entry :: "'v provider_entry \<Rightarrow> 'v provider_entry list \<Rightarrow> 'v provider_entry" where
  "best_entry best [] = best"
| "best_entry best (e # es) = best_entry (if pe_priority best \<le> pe_priority e then e else best) es"

definition find_provider :: "'v scope \<Rightarrow> string \<Rightarrow> 'v provider_entry option" where
  "find_provider s key =
     (case jm_get (sc_providers s) key of
        None \<Rightarrow> None
      | Some [] \<Rightarrow> None
      | Some (e # es) \<Rightarrow> Some (best_entry e (e # es)))"

definition register_effect :: "nat \<Rightarrow> disposer \<Rightarrow> 'v kernel \<Rightarrow> 'v kernel" where
  "register_effect i d = update_scope i (\<lambda>s. s\<lparr>sc_effects := sc_effects s @ [d]\<rparr>)"

definition provide :: "nat \<Rightarrow> string \<Rightarrow> 'v option \<Rightarrow> int \<Rightarrow> 'v kernel \<Rightarrow> (kernel_error + disposer) \<times> 'v kernel" where
  "provide i key v priority k =
     (if \<not> alive k i then (Inl ContextDisposed, k)
      else
        (let d = RemoveProvider key (kn_order k)
         in (Inr d, register_effect i d (add_provider i key v priority k))))"

text \<open>Removes exactly the registration it was made for.\<close>

definition remove_entry :: "string \<Rightarrow> nat \<Rightarrow> 'v scope \<Rightarrow> 'v scope" where
  "remove_entry key order s =
     (case jm_get (sc_providers s) key of
        None \<Rightarrow> s
      | Some es \<Rightarrow> s\<lparr>sc_providers := jm_set key (filter (\<lambda>e. pe_order e \<noteq> order) es) (sc_providers s)\<rparr>)"

text \<open>The chain of scopes is followed upwards; a parent is older than its children.\<close>

fun lookup :: "nat \<Rightarrow> 'v kernel \<Rightarrow> nat \<Rightarrow> string \<Rightarrow> 'v option" where
  "lookup 0 k i key = None"
| "lookup (Suc fuel) k i key =
     (case kn_scopes k i of
        None \<Rightarrow> None
      | Some s \<Rightarrow>
          (case find_provider s key of
             Some e \<Rightarrow> pe_value e
           | None \<Rightarrow> (case sc_parent s of None \<Rightarrow> None | Some p \<Rightarrow> lookup fuel k p key)))"

definition inject :: "nat \<Rightarrow> string \<Rightarrow> 'v kernel \<Rightarrow> kernel_error + 'v" where
  "inject i key k =
     (if \<not> alive k i then Inl ContextDisposed
      else (case lookup (Suc i) k i key of None \<Rightarrow> Inl (NotProvided key) | Some v \<Rightarrow> Inr v))"

definition optional :: "nat \<Rightarrow> string \<Rightarrow> 'v kernel \<Rightarrow> 'v option" where
  "optional i key k = (if \<not> alive k i then None else lookup (Suc i) k i key)"

section \<open>Events\<close>

definition on_event :: "nat \<Rightarrow> string \<Rightarrow> nat \<Rightarrow> 'v kernel \<Rightarrow> (kernel_error + unit) \<times> 'v kernel" where
  "on_event i event cb k =
     (if \<not> alive k i then (Inl ContextDisposed, k)
      else (Inr (), update_scope i (\<lambda>s. s\<lparr>sc_listeners :=
              jm_set event (nullish (jm_get (sc_listeners s) event) [] @ [cb]) (sc_listeners s)\<rparr>) k))"

definition off_event :: "nat \<Rightarrow> string \<Rightarrow> nat \<Rightarrow> 'v kernel \<Rightarrow> 'v kernel" where
  "off_event i event cb =
     update_scope i (\<lambda>s. case jm_get (sc_listeners s) event of
         None \<Rightarrow> s
       | Some cbs \<Rightarrow> s\<lparr>sc_listeners := jm_set event (remove1 cb cbs) (sc_listeners s)\<rparr>)"

text \<open>A loop that stops at the first error.\<close>

fun each :: "('a \<Rightarrow> 's \<Rightarrow> ('e + unit) \<times> 's) \<Rightarrow> 'a list \<Rightarrow> 's \<Rightarrow> ('e + unit) \<times> 's" where
  "each f [] s = (Inr (), s)"
| "each f (x # xs) s = (case f x s of (Inl e, s') \<Rightarrow> (Inl e, s') | (Inr _, s') \<Rightarrow> each f xs s')"

definition log_entry :: "log_entry \<Rightarrow> 'v kernel \<Rightarrow> 'v kernel" where
  "log_entry e k = k\<lparr>kn_log := kn_log k @ [e]\<rparr>"

primrec emit :: "nat \<Rightarrow> nat \<Rightarrow> string \<Rightarrow> 'v kernel \<Rightarrow> (kernel_error + unit) \<times> 'v kernel" where
  "emit 0 = (\<lambda>i event k. (Inr (), k))"
| "emit (Suc fuel) =
     (\<lambda>i event k.
        case kn_scopes k i of
          None \<Rightarrow> (Inl ContextDisposed, k)
        | Some s \<Rightarrow>
            if sc_disposed s then (Inl ContextDisposed, k)
            else
              (let k1 = fold (\<lambda>cb. log_entry (Called i cb)) (nullish (jm_get (sc_listeners s) event) []) k
               in each (\<lambda>c. emit fuel c event) (sc_children s) k1))"

text \<open>\<open>transform cb v\<close> is what the listener returns, \<open>None\<close> for \<open>undefined\<close>.\<close>

primrec waterfall :: "nat \<Rightarrow> (nat \<Rightarrow> 'p \<Rightarrow> 'p option) \<Rightarrow> 'v kernel \<Rightarrow> nat \<Rightarrow> string \<Rightarrow> 'p \<Rightarrow> kernel_error + 'p" where
  "waterfall 0 = (\<lambda>transform k i event v. Inr v)"
| "waterfall (Suc fuel) =
     (\<lambda>transform k i event v.
        case kn_scopes k i of
          None \<Rightarrow> Inl ContextDisposed
        | Some s \<Rightarrow>
            if sc_disposed s then Inl ContextDisposed
            else
              (let own = fold (\<lambda>cb current. nullish (transform cb current) current)
                           (nullish (jm_get (sc_listeners s) event) []) v
               in foldl (\<lambda>r c. case r of Inl e \<Rightarrow> Inl e | Inr current \<Rightarrow> waterfall fuel transform k c event current)
                    (Inr own) (sc_children s)))"

definition add_effect :: "nat \<Rightarrow> nat \<Rightarrow> 'v kernel \<Rightarrow> (kernel_error + unit) \<times> 'v kernel" where
  "add_effect i label k =
     (if \<not> alive k i then (Inl ContextDisposed, k) else (Inr (), register_effect i (PluginEffect label) k))"

section \<open>Contributions\<close>

definition ui_capability :: string where
  "ui_capability = ''polyth.ui''"

definition contribute :: "nat \<Rightarrow> ui_item \<Rightarrow> 'v kernel \<Rightarrow> (kernel_error + nat) \<times> 'v kernel" where
  "contribute i item k =
     (if \<not> alive k i then (Inl ContextDisposed, k)
      else
        (let h = kn_handles k;
             down = optional i ui_capability k \<noteq> None;
             k1 = (if down then log_entry (SlotAdded h item) k else k)\<lparr>kn_handles := Suc h\<rparr>
         in (Inr h, update_scope i (\<lambda>s. s\<lparr>sc_contributions := sc_contributions s @
               [\<lparr>cn_item = item, cn_handle = h, cn_downstream = down\<rparr>]\<rparr>) k1)))"

text \<open>The disposable of a contribution: it takes itself off the list, then revokes the slot.\<close>

definition revoke :: "(nat \<Rightarrow> bool) \<Rightarrow> nat \<Rightarrow> nat \<Rightarrow> 'v kernel \<Rightarrow> (kernel_error + unit) \<times> 'v kernel" where
  "revoke slot_fails i h k =
     (case kn_scopes k i of
        None \<Rightarrow> (Inr (), k)
      | Some s \<Rightarrow>
          (case find (\<lambda>c. cn_handle c = h) (sc_contributions s) of
             None \<Rightarrow> (Inr (), k)
           | Some c \<Rightarrow>
               (let k1 = update_scope i (\<lambda>s. s\<lparr>sc_contributions := remove1 c (sc_contributions s)\<rparr>) k
                in if cn_downstream c then (if slot_fails h then Inl (SlotFailed h) else Inr (), log_entry (SlotRevoked h) k1)
                   else (Inr (), k1))))"

definition contributions :: "nat \<Rightarrow> 'v kernel \<Rightarrow> ui_item list" where
  "contributions i k = (case kn_scopes k i of None \<Rightarrow> [] | Some s \<Rightarrow> map cn_item (sc_contributions s))"

section \<open>Scopes and disposal\<close>

definition empty_scope :: "string \<Rightarrow> nat option \<Rightarrow> json \<Rightarrow> 'v scope" where
  "empty_scope name parent config =
     \<lparr>sc_name = name, sc_parent = parent, sc_config = config, sc_disposed = False, sc_providers = [], sc_listeners = [],
      sc_effects = [], sc_contributions = [], sc_children = []\<rparr>"

text \<open>The constructor, with the capabilities it registers under their own id.\<close>

definition create_scope :: "string \<Rightarrow> nat option \<Rightarrow> json \<Rightarrow> (string \<times> 'v) list \<Rightarrow> 'v kernel \<Rightarrow> nat \<times> 'v kernel" where
  "create_scope name parent config capabilities k =
     (let i = kn_next k;
          k1 = k\<lparr>kn_scopes := (kn_scopes k)(i := Some (empty_scope name parent config)), kn_next := Suc i\<rparr>
      in (i, fold (\<lambda>(c, v). add_provider i c (Some v) 0) capabilities k1))"

definition add_child :: "nat \<Rightarrow> nat \<Rightarrow> 'v kernel \<Rightarrow> 'v kernel" where
  "add_child p c = update_scope p (\<lambda>s. s\<lparr>sc_children := sc_children s @ [c]\<rparr>)"

definition new_scope :: "nat \<Rightarrow> string \<Rightarrow> json \<Rightarrow> (string \<times> 'v) list \<Rightarrow> 'v kernel \<Rightarrow> (kernel_error + nat) \<times> 'v kernel" where
  "new_scope p name config capabilities k =
     (case kn_scopes k p of
        None \<Rightarrow> (Inl ContextDisposed, k)
      | Some s \<Rightarrow>
          if sc_disposed s then (Inl ContextDisposed, k)
          else
            (let (c, k1) = create_scope (sc_name s @ ''/'' @ name) (Some p) config capabilities k
             in (Inr c, add_child p c k1)))"

text \<open>Runs every item and collects what they throw.\<close>

fun run_all :: "('a \<Rightarrow> 's \<Rightarrow> ('e + unit) \<times> 's) \<Rightarrow> 'a list \<Rightarrow> 's \<Rightarrow> 'e list \<times> 's" where
  "run_all f [] s = ([], s)"
| "run_all f (x # xs) s =
     (let (r, s1) = f x s; (es, s2) = run_all f xs s1
      in (case r of Inl e \<Rightarrow> e # es | Inr _ \<Rightarrow> es, s2))"

definition run_disposer :: "(nat \<Rightarrow> bool) \<Rightarrow> nat \<Rightarrow> disposer \<Rightarrow> 'v kernel \<Rightarrow> (kernel_error + unit) \<times> 'v kernel" where
  "run_disposer effect_fails i d k =
     (case d of
        RemoveProvider key order \<Rightarrow> (Inr (), update_scope i (remove_entry key order) k)
      | PluginEffect label \<Rightarrow>
          (if effect_fails label then Inl (EffectFailed label) else Inr (), log_entry (RanEffect i label) k))"

text \<open>
  \<open>while (contributionList.length > 0)\<close>: each round revokes the last contribution, which
  takes itself off the list, so as many rounds run as there are contributions.
\<close>

definition revoke_all :: "(nat \<Rightarrow> bool) \<Rightarrow> nat \<Rightarrow> 'v scope \<Rightarrow> 'v kernel \<Rightarrow> kernel_error list \<times> 'v kernel" where
  "revoke_all slot_fails i s = run_all (\<lambda>c. revoke slot_fails i (cn_handle c)) (rev (sc_contributions s))"

definition set_disposed :: "'v scope \<Rightarrow> 'v scope" where
  "set_disposed s = s\<lparr>sc_disposed := True\<rparr>"

definition clear_registries :: "'v scope \<Rightarrow> 'v scope" where
  "clear_registries s = s\<lparr>sc_providers := [], sc_listeners := []\<rparr>"

definition drop_child :: "nat \<Rightarrow> nat option \<Rightarrow> 'v kernel \<Rightarrow> 'v kernel" where
  "drop_child c parent k =
     (case parent of None \<Rightarrow> k | Some p \<Rightarrow> update_scope p (\<lambda>s. s\<lparr>sc_children := removeAll c (sc_children s)\<rparr>) k)"

primrec dispose :: "nat \<Rightarrow> (nat \<Rightarrow> bool) \<Rightarrow> (nat \<Rightarrow> bool) \<Rightarrow> nat \<Rightarrow> 'v kernel \<Rightarrow> (kernel_error + unit) \<times> 'v kernel" where
  "dispose 0 = (\<lambda>effect_fails slot_fails i k. (Inr (), k))"
| "dispose (Suc fuel) =
     (\<lambda>effect_fails slot_fails i k.
        case kn_scopes k i of
          None \<Rightarrow> (Inr (), k)
        | Some s \<Rightarrow>
            if sc_disposed s then (Inr (), k)
            else
              (let k1 = update_scope i set_disposed k;
                   (es1, k2) = run_all (dispose fuel effect_fails slot_fails) (sc_children s) k1;
                   k3 = update_scope i (\<lambda>s. s\<lparr>sc_children := []\<rparr>) k2;
                   (es2, k4) = run_all (run_disposer effect_fails i) (rev (sc_effects s)) k3;
                   k5 = update_scope i (\<lambda>s. s\<lparr>sc_effects := []\<rparr>) k4;
                   (es3, k6) = revoke_all slot_fails i s k5;
                   k7 = drop_child i (sc_parent s) (update_scope i clear_registries k6);
                   errors = es1 @ es2 @ es3
               in (if errors \<noteq> [] then Inl (DisposeFailed (sc_name s) errors) else Inr (), k7)))"

section \<open>Loading a plugin\<close>

record widget =
  wg_id :: string
  wg_module :: string
  wg_default_slot :: string
  wg_supported_slots :: "string list"
  wg_order :: "int option"
  wg_metadata :: "(string \<times> json) list"

record plugin_manifest =
  pm_id :: string
  pm_provides :: "string list"
  pm_requires :: "string list"
  pm_widgets :: "widget list"

definition missing_requirements :: "nat \<Rightarrow> plugin_manifest \<Rightarrow> 'v kernel \<Rightarrow> string list" where
  "missing_requirements i m k = filter (\<lambda>r. optional i r k = None \<and> r \<notin> set (pm_provides m)) (pm_requires m)"

definition widget_item :: "plugin_manifest \<Rightarrow> widget \<Rightarrow> ui_item" where
  "widget_item m w =
     \<lparr>ui_id = wg_id w, ui_slot = ''widget.catalog'', ui_order = wg_order w, ui_module = wg_module w,
      ui_props = JObj (jm_set ''supportedSlots'' (JArr (map JStr (wg_supported_slots w)))
        (jm_set ''defaultSlot'' (JStr (wg_default_slot w)) (jm_set ''pluginId'' (JStr (pm_id m)) (wg_metadata w))))\<rparr>"

fun add_widgets :: "plugin_manifest \<Rightarrow> nat \<Rightarrow> string list \<Rightarrow> widget list \<Rightarrow> 'v kernel \<Rightarrow> (kernel_error + unit) \<times> 'v kernel" where
  "add_widgets m c seen [] k = (Inr (), k)"
| "add_widgets m c seen (w # ws) k =
     (if wg_id w \<in> set seen then (Inl (DuplicateWidget (wg_id w)), k)
      else if wg_default_slot w \<notin> set (wg_supported_slots w) then (Inl (UnsupportedSlot (wg_id w)), k)
      else
        (case contribute c (widget_item m w) k of
           (Inl e, k1) \<Rightarrow> (Inl e, k1)
         | (Inr _, k1) \<Rightarrow> add_widgets m c (wg_id w # seen) ws k1))"

text \<open>\<open>setup\<close> is the plugin's own code, run on its scope.\<close>

definition load_plugin :: "(nat \<Rightarrow> bool) \<Rightarrow> (nat \<Rightarrow> bool) \<Rightarrow> (nat \<Rightarrow> 'v kernel \<Rightarrow> (kernel_error + unit) \<times> 'v kernel)
    \<Rightarrow> nat \<Rightarrow> plugin_manifest \<Rightarrow> json \<Rightarrow> 'v kernel \<Rightarrow> (kernel_error + nat) \<times> 'v kernel" where
  "load_plugin effect_fails slot_fails setup i m config k =
     (let missing = missing_requirements i m k in
      if missing \<noteq> [] then (Inl (MissingCapabilities missing), k)
      else
        (case new_scope i (''plugin:'' @ pm_id m) config [] k of
           (Inl e, k1) \<Rightarrow> (Inl e, k1)
         | (Inr c, k1) \<Rightarrow>
             (let (r, k2) = (case add_widgets m c [] (pm_widgets m) k1 of
                               (Inl e, k2) \<Rightarrow> (Inl e, k2)
                             | (Inr _, k2) \<Rightarrow> setup c k2)
              in case r of
                   Inr _ \<Rightarrow> (Inr c, k2)
                 | Inl e \<Rightarrow>
                     (let (d, k3) = dispose (kn_next k2) effect_fails slot_fails c k2
                      in (case d of Inl e' \<Rightarrow> Inl e' | Inr _ \<Rightarrow> Inl e, k3)))))"

section \<open>Profiles\<close>

record profile_input =
  pi_bundles :: "(string, string list) jsmap"
  pi_bundle_order :: "string list"
  pi_plugins :: "string list"
  pi_patches :: "(string \<times> json) list"

record resolved_profile =
  rp_plugins :: "string list"
  rp_configs :: "(string, json) jsmap"

fun push_ids :: "string list \<Rightarrow> string list \<Rightarrow> string list" where
  "push_ids [] plugins = plugins"
| "push_ids (i # ids) plugins = push_ids ids (if i \<in> set plugins then plugins else plugins @ [i])"

definition patch_prefix :: "string \<Rightarrow> string" where
  "patch_prefix i = takeWhile (\<lambda>c. c \<noteq> CHR ''/'') i"

definition resolve_profile :: "profile_input \<Rightarrow> resolved_profile" where
  "resolve_profile p =
     \<lparr>rp_plugins = push_ids (pi_plugins p)
        (fold (\<lambda>b. push_ids (nullish (jm_get (pi_bundles p) b) [])) (pi_bundle_order p) []),
      rp_configs = fold (\<lambda>(i, config). jm_set (patch_prefix i) config) (pi_patches p) []\<rparr>"

definition scope_residue :: "nat \<Rightarrow> 'v kernel \<Rightarrow> string list \<times> string list \<times> nat" where
  "scope_residue i k =
     (case kn_scopes k i of
        None \<Rightarrow> ([], [], 0)
      | Some s \<Rightarrow> (jm_keys (sc_providers s), jm_keys (sc_listeners s), length (sc_contributions s)))"

definition assert_disposed_clean :: "(nat \<Rightarrow> bool) \<Rightarrow> (nat \<Rightarrow> bool) \<Rightarrow> nat \<Rightarrow> 'v kernel
    \<Rightarrow> (kernel_error + (string list \<times> string list \<times> nat)) \<times> 'v kernel" where
  "assert_disposed_clean effect_fails slot_fails i k =
     (case dispose (kn_next k) effect_fails slot_fails i k of
        (Inl e, k1) \<Rightarrow> (Inl e, k1)
      | (Inr _, k1) \<Rightarrow> (Inr (scope_residue i k1), k1))"

end
