(* ===== verification/KernelRules.thy ===== *)
theory KernelRules
  imports Kernel
begin

text \<open>
  What the composition kernel guarantees: the provider that wins, the complete clean-up of
  a disposed scope and everything below it, the failure of a plugin, and the order of a
  resolved profile.
\<close>

section \<open>Well-formed kernels\<close>

definition clean :: "'v scope \<Rightarrow> bool" where
  "clean s \<longleftrightarrow> sc_disposed s \<and> sc_providers s = [] \<and> sc_listeners s = [] \<and> sc_effects s = [] \<and> sc_contributions s = []
     \<and> sc_children s = []"

definition dead :: "'v kernel \<Rightarrow> nat \<Rightarrow> bool" where
  "dead k i \<longleftrightarrow> (\<exists>s. kn_scopes k i = Some s \<and> clean s)"

definition entries_ok :: "nat \<Rightarrow> 'v scope \<Rightarrow> bool" where
  "entries_ok n s \<longleftrightarrow> (\<forall>key es. jm_get (sc_providers s) key = Some es \<longrightarrow>
     sorted_wrt (\<lambda>a b. pe_order a < pe_order b) es \<and> (\<forall>e \<in> set es. pe_order e < n \<and> pe_key e = key))"

definition scope_ok :: "nat set \<Rightarrow> 'v kernel \<Rightarrow> nat \<Rightarrow> 'v scope \<Rightarrow> bool" where
  "scope_ok busy k i s \<longleftrightarrow>
     i < kn_next k \<and> (\<forall>p. sc_parent s = Some p \<longrightarrow> p < i)
     \<and> (\<forall>c \<in> set (sc_children s). i < c \<and> c < kn_next k \<and> (\<exists>t. kn_scopes k c = Some t \<and> sc_parent t = Some i))
     \<and> distinct (map cn_handle (sc_contributions s)) \<and> (\<forall>c \<in> set (sc_contributions s). cn_handle c < kn_handles k)
     \<and> entries_ok (kn_order k) s
     \<and> (i \<notin> busy \<longrightarrow> sc_disposed s \<longrightarrow> clean s)"

text \<open>\<open>busy\<close> are the scopes in the middle of their disposal.\<close>

definition kernel_ok :: "nat set \<Rightarrow> 'v kernel \<Rightarrow> bool" where
  "kernel_ok busy k \<longleftrightarrow> (\<forall>i s. kn_scopes k i = Some s \<longrightarrow> scope_ok busy k i s)"

definition child_of :: "'v kernel \<Rightarrow> nat \<Rightarrow> nat \<Rightarrow> bool" where
  "child_of k i c \<longleftrightarrow> (\<exists>s. kn_scopes k i = Some s \<and> c \<in> set (sc_children s))"

abbreviation below :: "'v kernel \<Rightarrow> nat \<Rightarrow> nat \<Rightarrow> bool" where
  "below k \<equiv> (child_of k)\<^sup>*\<^sup>*"

section \<open>The effect of a disposal\<close>

text \<open>The plugin effects of a scope that ran so far, and those it would run when disposed.\<close>

definition ran_of :: "'v kernel \<Rightarrow> nat \<Rightarrow> nat list" where
  "ran_of k i = List.map_filter (\<lambda>e. case e of RanEffect j l \<Rightarrow> if j = i then Some l else None | _ \<Rightarrow> None) (kn_log k)"

definition to_run :: "'v scope \<Rightarrow> nat list" where
  "to_run s = rev (List.map_filter (\<lambda>d. case d of PluginEffect l \<Rightarrow> Some l | RemoveProvider _ _ \<Rightarrow> None) (sc_effects s))"

text \<open>A scope is as it was but for children that are gone, or it is cleaned up.\<close>

definition shrinks :: "'v scope \<Rightarrow> 'v scope \<Rightarrow> bool" where
  "shrinks s t \<longleftrightarrow> sc_parent t = sc_parent s \<and> sc_name t = sc_name s \<and> set (sc_children t) \<subseteq> set (sc_children s)
     \<and> (clean t \<or> (\<exists>cs. t = s\<lparr>sc_children := cs\<rparr>))"

definition disposes :: "'v kernel \<Rightarrow> 'v kernel \<Rightarrow> bool" where
  "disposes k k' \<longleftrightarrow> kn_next k' = kn_next k \<and> kn_order k' = kn_order k \<and> kn_handles k' = kn_handles k
     \<and> (\<forall>j. kn_scopes k j = None \<longrightarrow> kn_scopes k' j = None)
     \<and> (\<forall>j s. kn_scopes k j = Some s \<longrightarrow> (\<exists>t. kn_scopes k' j = Some t \<and> shrinks s t
          \<and> (\<forall>c \<in> set (sc_children s). c \<in> set (sc_children t) \<or> dead k' c)
          \<and> ran_of k' j @ to_run t = ran_of k j @ to_run s))"

lemma to_run_children [simp]: "to_run (s\<lparr>sc_children := cs\<rparr>) = to_run s"
  by (simp add: to_run_def)

lemma to_run_clean: "clean s \<Longrightarrow> to_run s = []"
  by (simp add: to_run_def clean_def map_filter_simps)

lemma shrinks_refl: "shrinks s s"
proof -
  have "s = s\<lparr>sc_children := sc_children s\<rparr>" by simp
  then show ?thesis unfolding shrinks_def by blast
qed

lemma disposes_refl: "disposes k k"
  by (simp add: disposes_def shrinks_refl)

lemma shrinks_clean: "shrinks s t \<Longrightarrow> clean s \<Longrightarrow> clean t"
  by (auto simp: shrinks_def clean_def)

lemma dead_disposes: "disposes k k' \<Longrightarrow> dead k i \<Longrightarrow> dead k' i"
  unfolding dead_def disposes_def using shrinks_clean by blast

lemma shrinks_trans:
  assumes "shrinks s t" "shrinks t u"
  shows "shrinks s u"
proof (cases "clean t")
  case True
  from shrinks_clean [OF assms(2) this] assms show ?thesis by (auto simp: shrinks_def)
next
  case False
  with assms(1) obtain cs where t: "t = s\<lparr>sc_children := cs\<rparr>" by (auto simp: shrinks_def)
  from assms(2) consider "clean u" | cs' where "u = t\<lparr>sc_children := cs'\<rparr>" by (auto simp: shrinks_def)
  then show ?thesis using assms t by cases (auto simp: shrinks_def)
qed

lemma disposes_trans:
  assumes "disposes k1 k2" "disposes k2 k3"
  shows "disposes k1 k3"
  unfolding disposes_def
proof (intro conjI allI impI)
  fix j s assume s: "kn_scopes k1 j = Some s"
  then obtain t where t: "kn_scopes k2 j = Some t" "shrinks s t"
      "\<forall>c \<in> set (sc_children s). c \<in> set (sc_children t) \<or> dead k2 c" "ran_of k2 j @ to_run t = ran_of k1 j @ to_run s"
    using assms(1) unfolding disposes_def by blast
  then obtain u where u: "kn_scopes k3 j = Some u" "shrinks t u"
      "\<forall>c \<in> set (sc_children t). c \<in> set (sc_children u) \<or> dead k3 c" "ran_of k3 j @ to_run u = ran_of k2 j @ to_run t"
    using assms(2) unfolding disposes_def by blast
  show "\<exists>u. kn_scopes k3 j = Some u \<and> shrinks s u \<and> (\<forall>c \<in> set (sc_children s). c \<in> set (sc_children u) \<or> dead k3 c)
      \<and> ran_of k3 j @ to_run u = ran_of k1 j @ to_run s"
    using u t shrinks_trans dead_disposes [OF assms(2)] by metis
qed (use assms in \<open>auto simp: disposes_def\<close>)

lemma child_of_disposes:
  assumes "disposes k k'" "child_of k' i c"
  shows "child_of k i c"
proof -
  from assms(2) obtain t where t: "kn_scopes k' i = Some t" "c \<in> set (sc_children t)" by (auto simp: child_of_def)
  with assms(1) obtain s where s: "kn_scopes k i = Some s" by (cases "kn_scopes k i") (auto simp: disposes_def)
  with assms(1) t obtain t' where "kn_scopes k' i = Some t'" "shrinks s t'" unfolding disposes_def by blast
  with t s show ?thesis by (auto simp: child_of_def shrinks_def)
qed

lemma below_disposes: "disposes k k' \<Longrightarrow> below k' i j \<Longrightarrow> below k i j"
  using child_of_disposes rtranclp_mono [of "child_of k'" "child_of k"] by blast

text \<open>A scope that is dead afterwards takes everything below it along.\<close>

lemma dead_below:
  assumes "disposes k k'" "dead k' i" "below k i j"
  shows "dead k' j"
  using assms(3)
proof (induction rule: rtranclp_induct)
  case (step j c)
  then obtain s t where "kn_scopes k j = Some s" "c \<in> set (sc_children s)" "kn_scopes k' j = Some t" "clean t"
    by (auto simp: child_of_def dead_def)
  with assms(1) show ?case by (fastforce simp: disposes_def clean_def)
qed (rule assms(2))

subsection \<open>The pieces of a disposal\<close>

lemma update_scope_simps [simp]:
  "kn_scopes (update_scope i f k) j = (if j = i then map_option f (kn_scopes k i) else kn_scopes k j)"
  "kn_next (update_scope i f k) = kn_next k" "kn_order (update_scope i f k) = kn_order k"
  "kn_handles (update_scope i f k) = kn_handles k" "kn_log (update_scope i f k) = kn_log k"
  by (simp_all add: update_scope_def)

lemma log_entry_simps [simp]:
  "kn_scopes (log_entry e k) = kn_scopes k" "kn_next (log_entry e k) = kn_next k" "kn_order (log_entry e k) = kn_order k"
  "kn_handles (log_entry e k) = kn_handles k" "kn_log (log_entry e k) = kn_log k @ [e]"
  by (simp_all add: log_entry_def)

lemma ran_simps [simp]:
  "ran_of (update_scope i f k) j = ran_of k j"
  "ran_of (log_entry (RanEffect i l) k) j = (if i = j then ran_of k j @ [l] else ran_of k j)"
  "ran_of (log_entry (SlotRevoked h) k) j = ran_of k j"
  by (simp_all add: ran_of_def List.map_filter_def)

text \<open>Running the own disposers touches the providers of this scope and the log only.\<close>

lemma run_disposer_scope:
  assumes "run_disposer ef i d k = (r, k')" "kn_scopes k i = Some s"
  shows "\<exists>p. kn_scopes k' = (kn_scopes k)(i := Some (s\<lparr>sc_providers := p\<rparr>))"
proof -
  have "\<exists>p. remove_entry key order s = s\<lparr>sc_providers := p\<rparr>" for key order
  proof (cases "jm_get (sc_providers s) key")
    case None
    then have "remove_entry key order s = s\<lparr>sc_providers := sc_providers s\<rparr>" by (simp add: remove_entry_def)
    then show ?thesis by blast
  next
    case (Some es)
    then show ?thesis by (auto simp: remove_entry_def)
  qed
  then obtain f where f: "remove_entry key order s = s\<lparr>sc_providers := f key order\<rparr>" for key order by metis
  show ?thesis
  proof (cases d)
    case (RemoveProvider key order)
    with assms have "kn_scopes k' = (kn_scopes k)(i := Some (s\<lparr>sc_providers := f key order\<rparr>))"
      by (auto simp: run_disposer_def f fun_eq_iff)
    then show ?thesis by blast
  next
    case (PluginEffect l)
    with assms have "kn_scopes k' = (kn_scopes k)(i := Some (s\<lparr>sc_providers := sc_providers s\<rparr>))"
      by (auto simp: run_disposer_def fun_eq_iff)
    then show ?thesis by blast
  qed
qed

lemma own_update: "\<exists>p. s = s\<lparr>sc_providers := p\<rparr>" "\<exists>cs. s = s\<lparr>sc_children := cs\<rparr>"
  by (rule exI [of _ "sc_providers s"], simp) (rule exI [of _ "sc_children s"], simp)

definition effect_label :: "disposer \<Rightarrow> nat option" where
  "effect_label d = (case d of PluginEffect l \<Rightarrow> Some l | RemoveProvider _ _ \<Rightarrow> None)"

lemma to_run_eq: "to_run s = List.map_filter effect_label (rev (sc_effects s))"
  by (simp add: to_run_def effect_label_def List.map_filter_def rev_map rev_filter)

definition same_counters :: "'v kernel \<Rightarrow> 'v kernel \<Rightarrow> bool" where
  "same_counters k k' \<longleftrightarrow> kn_next k' = kn_next k \<and> kn_order k' = kn_order k \<and> kn_handles k' = kn_handles k"

lemma run_disposer_log:
  assumes "run_disposer ef i d k = (r, k')"
  shows "same_counters k k' \<and> ran_of k' j = ran_of k j @ (if j = i then List.map_filter effect_label [d] else [])"
  using assms by (cases d) (auto simp: run_disposer_def same_counters_def effect_label_def map_filter_simps split: if_splits)

lemma run_disposers:
  assumes "run_all (run_disposer ef i) ds k = (es, k')" "kn_scopes k i = Some s"
  shows "(\<exists>p. kn_scopes k' = (kn_scopes k)(i := Some (s\<lparr>sc_providers := p\<rparr>))) \<and> same_counters k k'
    \<and> ran_of k' j = ran_of k j @ (if j = i then List.map_filter effect_label ds else [])"
  using assms
proof (induction ds arbitrary: k s es)
  case Nil
  obtain p where "s = s\<lparr>sc_providers := p\<rparr>" using own_update(1) by blast
  with Nil(2) have "kn_scopes k = (kn_scopes k)(i := Some (s\<lparr>sc_providers := p\<rparr>))" by (metis fun_upd_triv)
  moreover have "k' = k" using Nil(1) by simp
  ultimately show ?case
    by (intro conjI exI [of _ p]) (simp_all only: same_counters_def, simp_all add: map_filter_simps)
next
  case (Cons d ds)
  obtain r k1 where d: "run_disposer ef i d k = (r, k1)" by (cases "run_disposer ef i d k")
  obtain es' where ds: "run_all (run_disposer ef i) ds k1 = (es', k')"
    using Cons.prems(1) d by (auto split: prod.splits)
  obtain p where p: "kn_scopes k1 = (kn_scopes k)(i := Some (s\<lparr>sc_providers := p\<rparr>))"
    using run_disposer_scope [OF d Cons.prems(2)] by blast
  then have "kn_scopes k1 i = Some (s\<lparr>sc_providers := p\<rparr>)" by simp
  from Cons.IH [OF ds this] obtain q where q: "kn_scopes k' = (kn_scopes k1)(i := Some (s\<lparr>sc_providers := p, sc_providers := q\<rparr>))"
      and rest: "same_counters k1 k'" "ran_of k' j = ran_of k1 j @ (if j = i then List.map_filter effect_label ds else [])"
    by blast
  have "kn_scopes k' = (kn_scopes k)(i := Some (s\<lparr>sc_providers := q\<rparr>))" unfolding q p by simp
  moreover have "List.map_filter effect_label (d # ds) = List.map_filter effect_label [d] @ List.map_filter effect_label ds"
    by (simp add: List.map_filter_def)
  ultimately show ?case using rest run_disposer_log [OF d, of j] unfolding same_counters_def by auto
qed

lemma revoke_effect:
  assumes "revoke sf i h k = (r, k')" "kn_scopes k i = Some s" "distinct (map cn_handle (sc_contributions s))"
  shows "kn_scopes k' = (kn_scopes k)(i := Some (s\<lparr>sc_contributions := filter (\<lambda>c. cn_handle c \<noteq> h) (sc_contributions s)\<rparr>))
    \<and> same_counters k k' \<and> ran_of k' j = ran_of k j"
proof (cases "find (\<lambda>c. cn_handle c = h) (sc_contributions s)")
  case None
  then have "filter (\<lambda>c. cn_handle c \<noteq> h) (sc_contributions s) = sc_contributions s"
    by (auto simp: find_None_iff intro: filter_True)
  with assms None show ?thesis by (auto simp: revoke_def same_counters_def fun_eq_iff)
next
  case (Some c)
  then have c: "cn_handle c = h" "c \<in> set (sc_contributions s)" by (auto dest: find_SomeD)
  have "remove1 c cs = filter (\<lambda>x. cn_handle x \<noteq> h) cs" if "c \<in> set cs" "distinct (map cn_handle cs)" for cs
    using that
  proof (induction cs)
    case (Cons x cs)
    have "filter (\<lambda>x. cn_handle x \<noteq> h) cs = cs" if "x = c"
    proof (rule filter_True, rule ballI)
      fix y assume "y \<in> set cs"
      then have "cn_handle y \<in> cn_handle ` set cs" by simp
      with Cons.prems(2) c(1) that show "cn_handle y \<noteq> h" by auto
    qed
    with Cons c(1) show ?case by (cases "x = c") auto
  qed simp
  from this [OF c(2) assms(3)] assms Some show ?thesis
    by (auto simp: revoke_def Let_def same_counters_def fun_eq_iff split: if_splits)
qed

lemma revoke_run:
  assumes "run_all (\<lambda>c. revoke sf i (cn_handle c)) cs k = (es, k')" "kn_scopes k i = Some s"
    "distinct (map cn_handle (sc_contributions s))"
  shows "kn_scopes k' = (kn_scopes k)(i := Some (s\<lparr>sc_contributions := filter (\<lambda>c. cn_handle c \<notin> cn_handle ` set cs) (sc_contributions s)\<rparr>))
    \<and> same_counters k k' \<and> ran_of k' j = ran_of k j"
  using assms
proof (induction cs arbitrary: k s es)
  case Nil
  then show ?case by (auto simp: same_counters_def fun_eq_iff)
next
  case (Cons c cs)
  obtain r k1 where c: "revoke sf i (cn_handle c) k = (r, k1)" by (cases "revoke sf i (cn_handle c) k")
  obtain es' where cs: "run_all (\<lambda>c. revoke sf i (cn_handle c)) cs k1 = (es', k')"
    using Cons.prems(1) c by (auto split: prod.splits)
  let ?s = "s\<lparr>sc_contributions := filter (\<lambda>x. cn_handle x \<noteq> cn_handle c) (sc_contributions s)\<rparr>"
  note step = revoke_effect [OF c Cons.prems(2,3), of j]
  then have "kn_scopes k1 i = Some ?s" "distinct (map cn_handle (sc_contributions ?s))"
    using Cons.prems(3) by (auto simp: distinct_map_filter)
  from Cons.IH [OF cs this] step show ?case
    by (auto simp: same_counters_def fun_eq_iff intro: filter_cong)
qed

section \<open>Disposal\<close>

lemma below_ge:
  assumes "kernel_ok busy k" "below k i j"
  shows "i \<le> j"
  using assms(2)
proof (induction rule: rtranclp_induct)
  case (step j c)
  then obtain s where "kn_scopes k j = Some s" "c \<in> set (sc_children s)" by (auto simp: child_of_def)
  with assms(1) have "j < c" by (auto simp: kernel_ok_def scope_ok_def)
  with step show ?case by simp
qed simp

definition disposed_below :: "nat set \<Rightarrow> nat \<Rightarrow> 'v kernel \<Rightarrow> 'v kernel \<Rightarrow> bool" where
  "disposed_below busy i k k' \<longleftrightarrow> disposes k k' \<and> kernel_ok busy k' \<and> (kn_scopes k i \<noteq> None \<longrightarrow> dead k' i)
     \<and> (\<forall>j. \<not> below k i j \<longrightarrow> kn_scopes k' j \<noteq> kn_scopes k j \<longrightarrow>
          (\<exists>s t cs. kn_scopes k i = Some s \<and> sc_parent s = Some j \<and> kn_scopes k j = Some t
             \<and> kn_scopes k' j = Some (t\<lparr>sc_children := cs\<rparr>)))"

lemma run_children:
  assumes IH: "\<And>(k :: 'v kernel) c r k'. kernel_ok busy k \<Longrightarrow> kn_next k \<le> fuel + c \<Longrightarrow> \<forall>b \<in> busy. b < c \<Longrightarrow>
      dispose fuel ef sf c k = (r, k') \<Longrightarrow> disposed_below busy c k k'"
    and "kernel_ok busy (k :: 'v kernel)" "\<forall>c \<in> set cs. kn_next k \<le> fuel + c \<and> (\<forall>b \<in> busy. b < c) \<and> i < c
      \<and> (\<exists>t. kn_scopes k c = Some t \<and> sc_parent t = Some i)"
    and "kn_scopes k i = Some s" "run_all (dispose fuel ef sf) cs k = (es, k')"
  shows "disposes k k' \<and> kernel_ok busy k' \<and> (\<forall>c \<in> set cs. dead k' c) \<and> (\<exists>cs'. kn_scopes k' i = Some (s\<lparr>sc_children := cs'\<rparr>))
    \<and> (\<forall>j. j \<noteq> i \<longrightarrow> kn_scopes k' j \<noteq> kn_scopes k j \<longrightarrow> (\<exists>c \<in> set cs. below k c j))"
  using assms(2-)
proof (induction cs arbitrary: k s es)
  case Nil
  then have same: "k' = k" by simp
  obtain cs where "s = s\<lparr>sc_children := cs\<rparr>" using own_update(2) by blast
  with Nil(3) have "kn_scopes k i = Some (s\<lparr>sc_children := cs\<rparr>)" by metis
  with Nil(1) show ?case unfolding same using disposes_refl by auto
next
  case (Cons c cs)
  obtain r k1 where c: "dispose fuel ef sf c k = (r, k1)" by (cases "dispose fuel ef sf c k")
  obtain es' where cs: "run_all (dispose fuel ef sf) cs k1 = (es', k')"
    using Cons.prems(4) c by (auto split: prod.splits)
  have pre: "kn_next k \<le> fuel + c" "\<forall>b \<in> busy. b < c" "i < c" using Cons.prems(2) by auto
  obtain t where t: "kn_scopes k c = Some t" "sc_parent t = Some i" using Cons.prems(2) by auto
  from IH [OF Cons.prems(1) pre(1,2) c] have first: "disposes k k1" "kernel_ok busy k1" "dead k1 c"
    and other: "\<And>j. \<not> below k c j \<Longrightarrow> kn_scopes k1 j \<noteq> kn_scopes k j \<Longrightarrow>
          i = j \<and> (\<exists>u cs. kn_scopes k j = Some u \<and> kn_scopes k1 j = Some (u\<lparr>sc_children := cs\<rparr>))"
    using t unfolding disposed_below_def by auto
  have "\<not> below k c i" using below_ge [OF Cons.prems(1)] pre(3) by force
  have "\<exists>cs1. kn_scopes k1 i = Some (s\<lparr>sc_children := cs1\<rparr>)"
  proof (cases "kn_scopes k1 i = kn_scopes k i")
    case True
    with Cons.prems(3) own_update(2) [of s] show ?thesis by metis
  next
    case False
    from other [OF \<open>\<not> below k c i\<close> False] Cons.prems(3) show ?thesis by auto
  qed
  then obtain cs1 where cs1: "kn_scopes k1 i = Some (s\<lparr>sc_children := cs1\<rparr>)" by blast
  have "\<exists>u. kn_scopes k1 d = Some u \<and> sc_parent u = Some i" if "d \<in> set cs" for d
  proof -
    from Cons.prems(2) that obtain u where "kn_scopes k d = Some u" "sc_parent u = Some i" by auto
    with first(1) show ?thesis by (fastforce simp: disposes_def shrinks_def)
  qed
  moreover have "kn_next k1 = kn_next k" using first(1) by (simp add: disposes_def)
  ultimately have "\<forall>c \<in> set cs. kn_next k1 \<le> fuel + c \<and> (\<forall>b \<in> busy. b < c) \<and> i < c
      \<and> (\<exists>t. kn_scopes k1 c = Some t \<and> sc_parent t = Some i)"
    using Cons.prems(2) by simp
  from Cons.IH [OF first(2) this cs1 cs] have rest: "disposes k1 k'" "kernel_ok busy k'" "\<forall>c \<in> set cs. dead k' c"
      "\<exists>cs'. kn_scopes k' i = Some (s\<lparr>sc_children := cs'\<rparr>)"
      "\<forall>j. j \<noteq> i \<longrightarrow> kn_scopes k' j \<noteq> kn_scopes k1 j \<longrightarrow> (\<exists>c \<in> set cs. below k1 c j)"
    by auto
  have "\<exists>d \<in> set (c # cs). below k d j" if "j \<noteq> i" "kn_scopes k' j \<noteq> kn_scopes k j" for j
  proof (cases "kn_scopes k' j = kn_scopes k1 j")
    case True
    with that other [of j] show ?thesis by auto
  next
    case False
    with rest(5) that(1) obtain d where "d \<in> set cs" "below k1 d j" by blast
    with below_disposes [OF first(1)] show ?thesis by auto
  qed
  with rest disposes_trans [OF first(1) rest(1)] dead_disposes [OF rest(1) first(3)] show ?case by simp
qed

lemma dispose_spec:
  "kernel_ok busy k \<Longrightarrow> kn_next k \<le> fuel + i \<Longrightarrow> \<forall>b \<in> busy. b < i \<Longrightarrow> dispose fuel ef sf i k = (r, k') \<Longrightarrow>
     disposed_below busy i k k'"
proof (induction fuel arbitrary: busy k i r k')
  case 0
  have "kn_scopes k i = None"
  proof (rule ccontr)
    assume "kn_scopes k i \<noteq> None"
    with 0(1) have "i < kn_next k" by (auto simp: kernel_ok_def scope_ok_def)
    with 0(2) show False by simp
  qed
  with 0 show ?case by (simp add: disposed_below_def disposes_refl)
next
  case (Suc fuel)
  show ?case
  proof (cases "kn_scopes k i")
    case None
    with Suc.prems show ?thesis by (simp add: disposed_below_def disposes_refl)
  next
    case (Some s)
    have ok: "scope_ok busy k i s" using Suc.prems(1) Some by (simp add: kernel_ok_def)
    have idle: "i \<notin> busy" using Suc.prems(3) by auto
    show ?thesis
    proof (cases "sc_disposed s")
      case True
      with ok idle have "clean s" by (simp add: scope_ok_def)
      with Suc.prems Some True show ?thesis by (auto simp: disposed_below_def disposes_refl dead_def)
    next
      case False
      let ?k1 = "update_scope i set_disposed k"
      obtain es1 k2 where c: "run_all (dispose fuel ef sf) (sc_children s) ?k1 = (es1, k2)"
        by (cases "run_all (dispose fuel ef sf) (sc_children s) ?k1")
      let ?k3 = "update_scope i (\<lambda>s. s\<lparr>sc_children := []\<rparr>) k2"
      obtain es2 k4 where e: "run_all (run_disposer ef i) (rev (sc_effects s)) ?k3 = (es2, k4)"
        by (cases "run_all (run_disposer ef i) (rev (sc_effects s)) ?k3")
      let ?k5 = "update_scope i (\<lambda>s. s\<lparr>sc_effects := []\<rparr>) k4"
      obtain es3 k6 where v: "revoke_all sf i s ?k5 = (es3, k6)" by (cases "revoke_all sf i s ?k5")
      have k': "k' = drop_child i (sc_parent s) (update_scope i clear_registries k6)"
        using Suc.prems(4) Some False c e v by (simp add: Let_def)
      \<comment> \<open>the children\<close>
      have children: "\<forall>c \<in> set (sc_children s). i < c \<and> c < kn_next k \<and> (\<exists>t. kn_scopes k c = Some t \<and> sc_parent t = Some i)"
        and parent: "\<And>p. sc_parent s = Some p \<Longrightarrow> p < i"
        and handles: "distinct (map cn_handle (sc_contributions s))"
        using ok by (auto simp: scope_ok_def)
      have scope1: "kn_scopes ?k1 i = Some (set_disposed s)" using Some by simp
      have ok1: "kernel_ok (insert i busy) ?k1"
        unfolding kernel_ok_def
      proof (intro allI impI)
        fix j t assume t: "kn_scopes ?k1 j = Some t"
        have keep: "\<exists>u'. kn_scopes ?k1 c = Some u' \<and> sc_parent u' = sc_parent u" if "kn_scopes k c = Some u" for c u
          using that by (auto simp: set_disposed_def)
        show "scope_ok (insert i busy) ?k1 j t"
        proof (cases "j = i")
          case True
          with t Some have "t = set_disposed s" by simp
          with ok True keep show ?thesis by (fastforce simp: scope_ok_def set_disposed_def entries_ok_def)
        next
          case False
          with t have "scope_ok busy k j t" using Suc.prems(1) by (simp add: kernel_ok_def)
          with False keep show ?thesis by (fastforce simp: scope_ok_def)
        qed
      qed
      have pre: "\<forall>c \<in> set (sc_children s). kn_next ?k1 \<le> fuel + c \<and> (\<forall>b \<in> insert i busy. b < c) \<and> i < c
          \<and> (\<exists>t. kn_scopes ?k1 c = Some t \<and> sc_parent t = Some i)"
        using children Suc.prems(2,3) by (fastforce dest: bspec)
      have kids0: "disposes ?k1 k2 \<and> kernel_ok (insert i busy) k2 \<and> (\<forall>c \<in> set (sc_children s). dead k2 c)
          \<and> (\<exists>cs. kn_scopes k2 i = Some (set_disposed s\<lparr>sc_children := cs\<rparr>))
          \<and> (\<forall>j. j \<noteq> i \<longrightarrow> kn_scopes k2 j \<noteq> kn_scopes ?k1 j \<longrightarrow> (\<exists>c \<in> set (sc_children s). below ?k1 c j))"
        by (rule run_children [OF _ ok1 pre scope1 c]) (rule Suc.IH)
      have kids: "disposes ?k1 k2" "kernel_ok (insert i busy) k2" "\<forall>c \<in> set (sc_children s). dead k2 c"
          "\<forall>j. j \<noteq> i \<longrightarrow> kn_scopes k2 j \<noteq> kn_scopes ?k1 j \<longrightarrow> (\<exists>c \<in> set (sc_children s). below ?k1 c j)"
        using kids0 by - (elim conjE, assumption)+
      have "\<exists>cs. kn_scopes k2 i = Some (set_disposed s\<lparr>sc_children := cs\<rparr>)" using kids0 by (elim conjE)
      then obtain cs where scope2: "kn_scopes k2 i = Some (set_disposed s\<lparr>sc_children := cs\<rparr>)" by blast
      \<comment> \<open>the scope itself\<close>
      let ?s3 = "set_disposed s\<lparr>sc_children := []\<rparr>"
      have scope3: "kn_scopes ?k3 i = Some ?s3" using scope2 by simp
      from run_disposers [OF e scope3] obtain p where k4: "kn_scopes k4 = (kn_scopes ?k3)(i := Some (?s3\<lparr>sc_providers := p\<rparr>))" by blast
      let ?s5 = "?s3\<lparr>sc_providers := p, sc_effects := []\<rparr>"
      have scope5: "kn_scopes ?k5 i = Some ?s5" using k4 by simp
      have "distinct (map cn_handle (sc_contributions ?s5))" using handles by (simp add: set_disposed_def)
      note rev = revoke_run [OF v [unfolded revoke_all_def] scope5 this]
      have gone: "filter (\<lambda>c. cn_handle c \<notin> cn_handle ` set (rev (sc_contributions s))) (sc_contributions ?s5) = []"
        by (auto simp: set_disposed_def filter_empty_conv)
      let ?last = "clear_registries (?s5\<lparr>sc_contributions := []\<rparr>)"
      have scope_end: "clean ?last" "sc_parent ?last = sc_parent s" "sc_name ?last = sc_name s"
        by (simp_all add: clean_def clear_registries_def set_disposed_def)
      have others6: "kn_scopes k6 j = kn_scopes k2 j" if "j \<noteq> i" for j
        using rev [of 0] k4 that by simp
      have scope6: "kn_scopes (update_scope i clear_registries k6) i = Some ?last"
        using rev [of 0] gone by simp
      have end_i: "kn_scopes k' i = Some ?last"
        using scope6 parent by (cases "sc_parent s") (auto simp: k' drop_child_def)
      have end_other: "kn_scopes k' j = (if sc_parent s = Some j then map_option (\<lambda>t. t\<lparr>sc_children := removeAll i (sc_children t)\<rparr>) (kn_scopes k2 j)
          else kn_scopes k2 j)" if "j \<noteq> i" for j
        using others6 [OF that] that by (cases "sc_parent s") (auto simp: k' drop_child_def)
      have counters: "kn_next k' = kn_next k" "kn_order k' = kn_order k" "kn_handles k' = kn_handles k"
        using kids(1) run_disposers [OF e scope3, of 0] rev [of 0]
        by (cases "sc_parent s"; simp add: k' drop_child_def disposes_def same_counters_def)+
      have log: "ran_of k' j = ran_of k2 j @ (if j = i then to_run s else [])" for j
        using run_disposers [OF e scope3, of j] rev [of j]
        by (cases "sc_parent s") (auto simp: k' drop_child_def to_run_eq)
      have dead_i: "dead k' i" using end_i scope_end(1) by (auto simp: dead_def)
      have dead_keep: "dead k' c" if "dead k2 c" for c
        using that dead_i end_other [of c] by (cases "c = i") (auto simp: dead_def clean_def)
      have below_k: "below k i j" if "c \<in> set (sc_children s)" "below ?k1 c j" for c j
      proof -
        have "child_of ?k1 = child_of k" using Some by (auto simp: child_of_def fun_eq_iff set_disposed_def)
        moreover have "child_of k i c" using Some that(1) by (auto simp: child_of_def)
        ultimately show ?thesis using that(2) by (metis converse_rtranclp_into_rtranclp)
      qed
      have untouched: "kn_scopes k2 j = kn_scopes k j" if "\<not> below k i j" for j
        using kids(4) below_k that by (cases "j = i") auto
      have parent_above: "\<not> below k i j" if "sc_parent s = Some j" for j
        using parent [OF that] below_ge [OF Suc.prems(1)] by force
      \<comment> \<open>the parts of the claim\<close>
      have part1: "disposes k k'"
        unfolding disposes_def
      proof (intro conjI allI impI)
        show "kn_next k' = kn_next k" "kn_order k' = kn_order k" "kn_handles k' = kn_handles k" by (fact counters)+
      next
        fix j assume "kn_scopes k j = None"
        with Some kids(1) end_other [of j] show "kn_scopes k' j = None" by (cases "j = i") (auto simp: disposes_def)
      next
        fix j t assume t: "kn_scopes k j = Some t"
        show "\<exists>u. kn_scopes k' j = Some u \<and> shrinks t u \<and> (\<forall>c \<in> set (sc_children t). c \<in> set (sc_children u) \<or> dead k' c)
            \<and> ran_of k' j @ to_run u = ran_of k j @ to_run t"
        proof (cases "j = i")
          case True
          then have ts: "t = s" using t Some by simp
          have "\<exists>u. kn_scopes k2 i = Some u \<and> ran_of k2 i @ to_run u = ran_of ?k1 i @ to_run (set_disposed s)"
            using kids(1) scope1 unfolding disposes_def by blast
          then have "ran_of k2 i = ran_of k i" using scope2 by (auto simp: to_run_def set_disposed_def)
          then show ?thesis
            using True ts end_i scope_end kids(3) dead_keep log [of i]
            by (auto simp: shrinks_def to_run_clean clean_def)
        next
          case False
          then have t1: "kn_scopes ?k1 j = Some t" using t by simp
          then obtain u where u: "kn_scopes k2 j = Some u" "shrinks t u"
              "\<forall>c \<in> set (sc_children t). c \<in> set (sc_children u) \<or> dead k2 c" "ran_of k2 j @ to_run u = ran_of k j @ to_run t"
            using kids(1) unfolding disposes_def by fastforce
          show ?thesis
          proof (cases "sc_parent s = Some j")
            case True
            let ?u = "u\<lparr>sc_children := removeAll i (sc_children u)\<rparr>"
            have "shrinks u ?u" by (auto simp: shrinks_def)
            then have "shrinks t ?u" using u(2) shrinks_trans by blast
            moreover have "kn_scopes k' j = Some ?u" using end_other [OF False] True u(1) by simp
            ultimately show ?thesis using u(3,4) dead_keep dead_i log [of j] False by auto
          next
            case not_parent: False
            then have "kn_scopes k' j = Some u" using end_other [OF False] u(1) by simp
            with u dead_keep log [of j] False show ?thesis by auto
          qed
        qed
      qed
      have part2: "kernel_ok busy k'"
        unfolding kernel_ok_def
      proof (intro allI impI)
        fix j t assume t: "kn_scopes k' j = Some t"
        show "scope_ok busy k' j t"
        proof (cases "j = i")
          case True
          with t end_i have "t = ?last" by simp
          with True scope_end ok parent counters show ?thesis
            by (auto simp: scope_ok_def clean_def entries_ok_def jm_get_def)
        next
          case False
          then obtain u where u: "kn_scopes k2 j = Some u" "t = u \<or> sc_parent s = Some j \<and> t = u\<lparr>sc_children := removeAll i (sc_children u)\<rparr>"
            using t end_other [OF False] by (auto split: if_splits)
          have "scope_ok (insert i busy) k2 j u" using kids(2) u(1) by (simp add: kernel_ok_def)
          moreover have "\<exists>x'. kn_scopes k' c = Some x' \<and> sc_parent x' = sc_parent x" if "kn_scopes k2 c = Some x" for c x
            using that end_i scope_end(2) scope2 end_other [of c] by (cases "c = i") (auto simp: set_disposed_def)
          moreover have "kn_next k2 = kn_next k" "kn_order k2 = kn_order k" "kn_handles k2 = kn_handles k"
            using kids(1) by (simp_all add: disposes_def)
          ultimately show ?thesis
            using u(2) False counters unfolding scope_ok_def
            by (elim disjE conjE) (fastforce simp: entries_ok_def clean_def)+
        qed
      qed
      have part3: "\<exists>s t cs. kn_scopes k i = Some s \<and> sc_parent s = Some j \<and> kn_scopes k j = Some t
          \<and> kn_scopes k' j = Some (t\<lparr>sc_children := cs\<rparr>)" if j: "\<not> below k i j" "kn_scopes k' j \<noteq> kn_scopes k j" for j
      proof -
        have ne: "j \<noteq> i" using j(1) by auto
        from untouched [OF j(1)] end_other [OF ne] j(2) have p: "sc_parent s = Some j" by (auto split: if_splits)
        with untouched [OF j(1)] end_other [OF ne] j(2) Some show ?thesis by (cases "kn_scopes k j") auto
      qed
      show ?thesis using part1 part2 part3 dead_i by (simp add: disposed_below_def)
    qed
  qed
qed

section \<open>The operations of plugins\<close>

text \<open>Any interleaving of the operations of all scopes.\<close>

inductive kernel_step :: "(nat \<Rightarrow> bool) \<Rightarrow> (nat \<Rightarrow> bool) \<Rightarrow> 'v kernel \<Rightarrow> 'v kernel \<Rightarrow> bool" for ef sf where
  creates: "parent = None \<or> (\<exists>p. parent = Some p \<and> kn_scopes k p \<noteq> None) \<Longrightarrow>
    kernel_step ef sf k (snd (create_scope name parent config caps k))"
| scopes: "kernel_step ef sf k (snd (new_scope p name config caps k))"
| provides: "kernel_step ef sf k (snd (provide i key v priority k))"
| unprovides: "kernel_step ef sf k (snd (run_disposer ef i (RemoveProvider key order) k))"
| listens: "kernel_step ef sf k (snd (on_event i event cb k))"
| unlistens: "kernel_step ef sf k (off_event i event cb k)"
| emits: "kernel_step ef sf k (log_entry (Called i cb) k)"
| effects: "kernel_step ef sf k (snd (add_effect i label k))"
| contributes: "kernel_step ef sf k (snd (contribute i item k))"
| revokes: "kernel_step ef sf k (snd (revoke sf i h k))"
| disposals: "kernel_step ef sf k (snd (dispose (kn_next k) ef sf i k))"

definition empty_kernel :: "'v kernel" where
  "empty_kernel = \<lparr>kn_scopes = (\<lambda>_. None), kn_next = 0, kn_handles = 0, kn_order = 0, kn_log = []\<rparr>"

lemma kernel_okD: "kernel_ok busy k \<Longrightarrow> kn_scopes k i = Some s \<Longrightarrow> scope_ok busy k i s"
  by (simp add: kernel_ok_def)

lemma entries_ok_mono: "entries_ok n s \<Longrightarrow> n \<le> m \<Longrightarrow> entries_ok m s"
  unfolding entries_ok_def by (meson less_le_trans)

lemma kernel_ok_change:
  assumes "kernel_ok {} k" "kn_next k' = kn_next k" "kn_order k \<le> kn_order k'" "kn_handles k \<le> kn_handles k'"
    and "\<And>j. kn_scopes k' j = (if j = i then map_option f (kn_scopes k i) else kn_scopes k j)"
    and "\<And>s. kn_scopes k i = Some s \<Longrightarrow> scope_ok {} k i s \<Longrightarrow>
      sc_parent (f s) = sc_parent s \<and> sc_children (f s) = sc_children s \<and> entries_ok (kn_order k') (f s)
      \<and> distinct (map cn_handle (sc_contributions (f s))) \<and> (\<forall>c \<in> set (sc_contributions (f s)). cn_handle c < kn_handles k')
      \<and> (sc_disposed (f s) \<longrightarrow> clean (f s))"
  shows "kernel_ok {} k'"
  unfolding kernel_ok_def
proof (intro allI impI)
  fix j t assume t: "kn_scopes k' j = Some t"
  have keep: "\<exists>u'. kn_scopes k' c = Some u' \<and> sc_parent u' = sc_parent u" if "kn_scopes k c = Some u" for c u
    using that assms(5) [of c] assms(6) kernel_okD [OF assms(1)] by (cases "c = i") auto
  show "scope_ok {} k' j t"
  proof (cases "j = i")
    case True
    with t assms(5) obtain s where s: "kn_scopes k i = Some s" "t = f s" by auto
    from assms(6) [OF s(1) kernel_okD [OF assms(1) s(1)]] kernel_okD [OF assms(1) s(1)] s(2) True keep assms(2)
    show ?thesis unfolding scope_ok_def by fastforce
  next
    case False
    with t assms(5) have "scope_ok {} k j t" using kernel_okD [OF assms(1)] by simp
    with False keep assms(2-4) show ?thesis unfolding scope_ok_def by (fastforce intro: entries_ok_mono)
  qed
qed

lemma entries_ok_append:
  assumes "entries_ok n s"
  shows "entries_ok (Suc n) (add_entry key \<lparr>pe_key = key, pe_value = v, pe_priority = p, pe_order = n\<rparr> s)"
  unfolding entries_ok_def
proof (intro allI impI)
  fix k es assume es: "jm_get (sc_providers (add_entry key \<lparr>pe_key = key, pe_value = v, pe_priority = p, pe_order = n\<rparr> s)) k = Some es"
  show "sorted_wrt (\<lambda>a b. pe_order a < pe_order b) es \<and> (\<forall>e \<in> set es. pe_order e < Suc n \<and> pe_key e = k)"
  proof (cases "k = key")
    case True
    let ?old = "nullish (jm_get (sc_providers s) key) []"
    from es True have eq: "es = ?old @ [\<lparr>pe_key = key, pe_value = v, pe_priority = p, pe_order = n\<rparr>]"
      by (simp add: add_entry_def store_simps)
    have "sorted_wrt (\<lambda>a b. pe_order a < pe_order b) ?old \<and> (\<forall>e \<in> set ?old. pe_order e < n \<and> pe_key e = key)"
      using assms by (cases "jm_get (sc_providers s) key") (auto simp: entries_ok_def)
    with eq True show ?thesis by (auto simp: sorted_wrt_append)
  next
    case False
    with es have "jm_get (sc_providers s) k = Some es" by (simp add: add_entry_def store_simps)
    with assms show ?thesis by (fastforce simp: entries_ok_def)
  qed
qed

lemma entries_ok_remove: "entries_ok n s \<Longrightarrow> entries_ok n (remove_entry key order s)"
  unfolding entries_ok_def remove_entry_def
  by (auto simp: store_simps sorted_wrt_filter split: option.splits if_splits)

lemma add_provider_ok:
  assumes ok: "kernel_ok {} k" and alive: "alive k i \<or> kn_scopes k i = None"
  shows "kernel_ok {} (add_provider i key v p k)"
proof (rule kernel_ok_change [OF ok, where i = i and f = "add_entry key \<lparr>pe_key = key, pe_value = v, pe_priority = p, pe_order = kn_order k\<rparr>"])
  fix s assume s: "kn_scopes k i = Some s" "scope_ok {} k i s"
  from s(1) alive have "\<not> sc_disposed s" by (simp add: alive_def)
  moreover have "entries_ok (kn_order k) s" "distinct (map cn_handle (sc_contributions s))"
      "\<forall>c \<in> set (sc_contributions s). cn_handle c < kn_handles k"
    using s(2) by (simp_all add: scope_ok_def)
  ultimately show "sc_parent (add_entry key \<lparr>pe_key = key, pe_value = v, pe_priority = p, pe_order = kn_order k\<rparr> s) = sc_parent s
    \<and> sc_children (add_entry key \<lparr>pe_key = key, pe_value = v, pe_priority = p, pe_order = kn_order k\<rparr> s) = sc_children s
    \<and> entries_ok (kn_order (add_provider i key v p k)) (add_entry key \<lparr>pe_key = key, pe_value = v, pe_priority = p, pe_order = kn_order k\<rparr> s)
    \<and> distinct (map cn_handle (sc_contributions (add_entry key \<lparr>pe_key = key, pe_value = v, pe_priority = p, pe_order = kn_order k\<rparr> s)))
    \<and> (\<forall>c \<in> set (sc_contributions (add_entry key \<lparr>pe_key = key, pe_value = v, pe_priority = p, pe_order = kn_order k\<rparr> s)).
         cn_handle c < kn_handles (add_provider i key v p k))
    \<and> (sc_disposed (add_entry key \<lparr>pe_key = key, pe_value = v, pe_priority = p, pe_order = kn_order k\<rparr> s)
        \<longrightarrow> clean (add_entry key \<lparr>pe_key = key, pe_value = v, pe_priority = p, pe_order = kn_order k\<rparr> s))"
    by (simp add: add_provider_def entries_ok_append) (simp add: add_entry_def)
qed (simp_all add: add_provider_def)

text \<open>The registrations that leave the providers alone.\<close>

lemma change_alive_ok:
  assumes ok: "kernel_ok {} k" and alive: "alive k i"
    and "kn_next k' = kn_next k" "kn_order k' = kn_order k" "kn_handles k \<le> kn_handles k'"
    and "kn_scopes k' = (kn_scopes k)(i := map_option f (kn_scopes k i))"
    and f: "\<And>s. sc_parent (f s) = sc_parent s" "\<And>s. sc_children (f s) = sc_children s"
      "\<And>s. sc_disposed (f s) = sc_disposed s" "\<And>s. sc_providers (f s) = sc_providers s"
    and c: "\<And>s. distinct (map cn_handle (sc_contributions s)) \<Longrightarrow> \<forall>c \<in> set (sc_contributions s). cn_handle c < kn_handles k \<Longrightarrow>
      distinct (map cn_handle (sc_contributions (f s))) \<and> (\<forall>c \<in> set (sc_contributions (f s)). cn_handle c < kn_handles k')"
  shows "kernel_ok {} k'"
proof (rule kernel_ok_change [OF ok, where i = i and f = f])
  fix s assume s: "kn_scopes k i = Some s" "scope_ok {} k i s"
  from s(1) alive have "\<not> sc_disposed s" by (simp add: alive_def)
  with s(2) c [of s] assms(4) f show "sc_parent (f s) = sc_parent s \<and> sc_children (f s) = sc_children s \<and> entries_ok (kn_order k') (f s)
      \<and> distinct (map cn_handle (sc_contributions (f s))) \<and> (\<forall>c \<in> set (sc_contributions (f s)). cn_handle c < kn_handles k')
      \<and> (sc_disposed (f s) \<longrightarrow> clean (f s))"
    unfolding scope_ok_def by (simp add: entries_ok_def)
qed (simp_all add: assms)

lemma alive_add_provider: "alive (add_provider i key v p k) j \<longleftrightarrow> alive k j"
  by (auto simp: alive_def add_provider_def add_entry_def split: option.splits)

lemma register_effect_ok:
  assumes "kernel_ok {} k" "alive k i"
  shows "kernel_ok {} (register_effect i d k)"
  by (rule change_alive_ok [OF assms, where f = "\<lambda>s. s\<lparr>sc_effects := sc_effects s @ [d]\<rparr>"])
    (simp_all add: register_effect_def update_scope_def)

lemma create_scope_ok:
  assumes "kernel_ok {} k" "parent = None \<or> (\<exists>p. parent = Some p \<and> kn_scopes k p \<noteq> None)"
  shows "kernel_ok {} (snd (create_scope name parent config caps k))
    \<and> alive (snd (create_scope name parent config caps k)) (kn_next k)
    \<and> fst (create_scope name parent config caps k) = kn_next k
    \<and> kn_next (snd (create_scope name parent config caps k)) = Suc (kn_next k)
    \<and> (\<forall>j. j \<noteq> kn_next k \<longrightarrow> kn_scopes (snd (create_scope name parent config caps k)) j = kn_scopes k j)
    \<and> (\<exists>s. kn_scopes (snd (create_scope name parent config caps k)) (kn_next k) = Some s \<and> sc_parent s = parent \<and> sc_children s = [])"
proof -
  let ?i = "kn_next k"
  let ?k1 = "k\<lparr>kn_scopes := (kn_scopes k)(?i := Some (empty_scope name parent config)), kn_next := Suc ?i\<rparr>"
  have p: "p < ?i" if "parent = Some p" for p
    using assms that kernel_okD [OF assms(1)] by (auto simp: scope_ok_def)
  have ok: "kernel_ok {} ?k1"
    unfolding kernel_ok_def
  proof (intro allI impI)
    fix j t assume t: "kn_scopes ?k1 j = Some t"
    show "scope_ok {} ?k1 j t"
    proof (cases "j = ?i")
      case True
      with t p show ?thesis by (auto simp: scope_ok_def empty_scope_def entries_ok_def jm_get_def)
    next
      case False
      with t have "scope_ok {} k j t" using kernel_okD [OF assms(1)] by simp
      then show ?thesis unfolding scope_ok_def by (auto simp: less_SucI)
    qed
  qed
  have al: "alive ?k1 ?i" by (simp add: alive_def empty_scope_def)
  have "kernel_ok {} (fold (\<lambda>(c, v). add_provider ?i c (Some v) 0) caps k2)
      \<and> alive (fold (\<lambda>(c, v). add_provider ?i c (Some v) 0) caps k2) ?i
      \<and> kn_next (fold (\<lambda>(c, v). add_provider ?i c (Some v) 0) caps k2) = kn_next k2
      \<and> (\<forall>j. j \<noteq> ?i \<longrightarrow> kn_scopes (fold (\<lambda>(c, v). add_provider ?i c (Some v) 0) caps k2) j = kn_scopes k2 j)
      \<and> (\<exists>s. kn_scopes (fold (\<lambda>(c, v). add_provider ?i c (Some v) 0) caps k2) ?i = Some s \<and> sc_parent s = parent \<and> sc_children s = [])"
    if "kernel_ok {} k2" "alive k2 ?i" "\<exists>s. kn_scopes k2 ?i = Some s \<and> sc_parent s = parent \<and> sc_children s = []" for k2
    using that
  proof (induction caps arbitrary: k2)
    case (Cons cv caps)
    obtain c v where cv: "cv = (c, v)" by (cases cv)
    have "kernel_ok {} (add_provider ?i c (Some v) 0 k2)" "alive (add_provider ?i c (Some v) 0 k2) ?i"
      using Cons.prems add_provider_ok alive_add_provider by blast+
    moreover have "\<exists>s. kn_scopes (add_provider ?i c (Some v) 0 k2) ?i = Some s \<and> sc_parent s = parent \<and> sc_children s = []"
      using Cons.prems(3) by (auto simp: add_provider_def add_entry_def)
    ultimately show ?case using Cons.IH [of "add_provider ?i c (Some v) 0 k2"] cv by (simp add: add_provider_def)
  qed auto
  from this [OF ok al] show ?thesis by (simp add: create_scope_def Let_def empty_scope_def)
qed

lemma add_child_ok:
  assumes "kernel_ok {} k" "kn_scopes k c = Some t" "sc_parent t = Some p" "p < c" "alive k p"
  shows "kernel_ok {} (add_child p c k)"
  unfolding kernel_ok_def
proof (intro allI impI)
  fix j u assume u: "kn_scopes (add_child p c k) j = Some u"
  have keep: "\<exists>x'. kn_scopes (add_child p c k) d = Some x' \<and> sc_parent x' = sc_parent x" if "kn_scopes k d = Some x" for d x
    using that by (auto simp: add_child_def)
  have c: "c < kn_next k" using kernel_okD [OF assms(1,2)] by (simp add: scope_ok_def)
  show "scope_ok {} (add_child p c k) j u"
  proof (cases "j = p")
    case True
    then obtain s where s: "kn_scopes k p = Some s" "u = s\<lparr>sc_children := sc_children s @ [c]\<rparr>" "\<not> sc_disposed s"
      using u assms(5) by (auto simp: add_child_def alive_def)
    from kernel_okD [OF assms(1) s(1)] s True c keep assms(2-4) show ?thesis
      unfolding scope_ok_def by (fastforce simp: add_child_def entries_ok_def)
  next
    case False
    with u have "kn_scopes k j = Some u" by (simp add: add_child_def)
    from kernel_okD [OF assms(1) this] keep show ?thesis
      unfolding scope_ok_def by (fastforce simp: add_child_def)
  qed
qed

lemma new_scope_ok:
  assumes ok: "kernel_ok {} k"
  shows "kernel_ok {} (snd (new_scope p name config caps k))"
proof (cases "alive k p")
  case False
  then show ?thesis using ok by (auto simp: new_scope_def alive_def split: option.splits)
next
  case True
  then obtain s where s: "kn_scopes k p = Some s" "\<not> sc_disposed s" by (auto simp: alive_def split: option.splits)
  obtain c k1 where c: "create_scope (sc_name s @ ''/'' @ name) (Some p) config caps k = (c, k1)" by (cases "create_scope (sc_name s @ ''/'' @ name) (Some p) config caps k")
  have less: "p < kn_next k" using kernel_okD [OF ok s(1)] by (simp add: scope_ok_def)
  have "Some p = None \<or> (\<exists>q. Some p = Some q \<and> kn_scopes k q \<noteq> None)" using s(1) by simp
  from create_scope_ok [OF ok this, of "sc_name s @ ''/'' @ name" config caps] c
  obtain t where k1: "kernel_ok {} k1" "c = kn_next k" "kn_scopes k1 p = kn_scopes k p"
      "kn_scopes k1 c = Some t" "sc_parent t = Some p"
    using less by auto
  have "kernel_ok {} (add_child p c k1)"
    by (rule add_child_ok [OF k1(1,4,5)]) (use k1 less True in \<open>simp_all add: alive_def\<close>)
  then show ?thesis using s c by (simp add: new_scope_def)
qed

lemma dead_fields: "scope_ok {} k i s \<Longrightarrow> sc_disposed s \<Longrightarrow> clean s"
  by (simp add: scope_ok_def)

lemma remove_provider_ok:
  assumes ok: "kernel_ok {} k"
  shows "kernel_ok {} (snd (run_disposer ef i (RemoveProvider key order) k))"
proof (rule kernel_ok_change [OF ok, where i = i and f = "remove_entry key order"])
  fix s assume s: "scope_ok {} k i s"
  have fields: "sc_parent (remove_entry key order s) = sc_parent s" "sc_children (remove_entry key order s) = sc_children s"
      "sc_contributions (remove_entry key order s) = sc_contributions s" "sc_disposed (remove_entry key order s) = sc_disposed s"
    by (simp_all add: remove_entry_def split: option.splits)
  have "clean (remove_entry key order s)" if "clean s"
    using that by (simp add: clean_def remove_entry_def jm_get_def)
  with s dead_fields [OF s] fields entries_ok_remove [of "kn_order k" s]
  show "sc_parent (remove_entry key order s) = sc_parent s \<and> sc_children (remove_entry key order s) = sc_children s
      \<and> entries_ok (kn_order (snd (run_disposer ef i (RemoveProvider key order) k))) (remove_entry key order s)
      \<and> distinct (map cn_handle (sc_contributions (remove_entry key order s)))
      \<and> (\<forall>c \<in> set (sc_contributions (remove_entry key order s)). cn_handle c < kn_handles (snd (run_disposer ef i (RemoveProvider key order) k)))
      \<and> (sc_disposed (remove_entry key order s) \<longrightarrow> clean (remove_entry key order s))"
    by (simp add: run_disposer_def scope_ok_def)
qed (simp_all add: run_disposer_def)

lemma off_event_ok:
  assumes ok: "kernel_ok {} k"
  shows "kernel_ok {} (off_event i event cb k)"
proof -
  define f where "f s = (case jm_get (sc_listeners s) event of None \<Rightarrow> s
      | Some cbs \<Rightarrow> s\<lparr>sc_listeners := jm_set event (remove1 cb cbs) (sc_listeners s)\<rparr>)" for s :: "'a scope"
  show ?thesis
  proof (rule kernel_ok_change [OF ok, where i = i and f = f])
    fix s assume s: "scope_ok {} k i s"
    have fields: "sc_parent (f s) = sc_parent s" "sc_children (f s) = sc_children s" "sc_providers (f s) = sc_providers s"
        "sc_contributions (f s) = sc_contributions s" "sc_disposed (f s) = sc_disposed s"
      by (simp_all add: f_def split: option.splits)
    have "clean (f s)" if "clean s" using that by (simp add: clean_def f_def jm_get_def)
    with s dead_fields [OF s] fields
    show "sc_parent (f s) = sc_parent s \<and> sc_children (f s) = sc_children s \<and> entries_ok (kn_order (off_event i event cb k)) (f s)
        \<and> distinct (map cn_handle (sc_contributions (f s)))
        \<and> (\<forall>c \<in> set (sc_contributions (f s)). cn_handle c < kn_handles (off_event i event cb k)) \<and> (sc_disposed (f s) \<longrightarrow> clean (f s))"
      by (simp add: off_event_def scope_ok_def entries_ok_def)
  qed (simp_all add: off_event_def f_def [abs_def])
qed

lemma log_entry_ok: "kernel_ok busy k \<Longrightarrow> kernel_ok busy (log_entry e k)"
  by (simp add: kernel_ok_def scope_ok_def)

lemma revoke_ok:
  assumes ok: "kernel_ok {} k"
  shows "kernel_ok {} (snd (revoke sf i h k))"
proof (cases "kn_scopes k i")
  case None
  then show ?thesis using ok by (simp add: revoke_def)
next
  case (Some s)
  define f where "f s = s\<lparr>sc_contributions := filter (\<lambda>c. cn_handle c \<noteq> h) (sc_contributions s)\<rparr>" for s :: "'a scope"
  obtain r k' where r: "revoke sf i h k = (r, k')" by (cases "revoke sf i h k")
  have s: "scope_ok {} k i s" by (rule kernel_okD [OF ok Some])
  then have "distinct (map cn_handle (sc_contributions s))" by (simp add: scope_ok_def)
  from revoke_effect [OF r Some this] have k': "kn_scopes k' = (kn_scopes k)(i := Some (f s))" "same_counters k k'"
    by (auto simp: f_def)
  have "kernel_ok {} k'"
  proof (rule kernel_ok_change [OF ok, where i = i and f = f])
    fix u assume u: "scope_ok {} k i u"
    have "clean (f u)" if "clean u" using that by (simp add: clean_def f_def)
    with u dead_fields [OF u] k'(2) show "sc_parent (f u) = sc_parent u \<and> sc_children (f u) = sc_children u \<and> entries_ok (kn_order k') (f u)
        \<and> distinct (map cn_handle (sc_contributions (f u))) \<and> (\<forall>c \<in> set (sc_contributions (f u)). cn_handle c < kn_handles k')
        \<and> (sc_disposed (f u) \<longrightarrow> clean (f u))"
      by (simp add: f_def scope_ok_def entries_ok_def same_counters_def distinct_map_filter)
  qed (use k' Some in \<open>simp_all add: same_counters_def\<close>)
  with r show ?thesis by simp
qed

lemma contribute_ok:
  assumes ok: "kernel_ok {} k"
  shows "kernel_ok {} (snd (contribute i item k))"
proof (cases "alive k i")
  case False
  then show ?thesis using ok by (simp add: contribute_def)
next
  case True
  let ?c = "\<lparr>cn_item = item, cn_handle = kn_handles k, cn_downstream = optional i ui_capability k \<noteq> None\<rparr>"
  show ?thesis
    by (rule change_alive_ok [OF ok True, where f = "\<lambda>s. s\<lparr>sc_contributions := sc_contributions s @ [?c]\<rparr>"])
      (use True in \<open>auto simp: contribute_def Let_def less_SucI\<close>)
qed

lemma on_event_ok:
  assumes ok: "kernel_ok {} k"
  shows "kernel_ok {} (snd (on_event i event cb k))"
proof (cases "alive k i")
  case True
  show ?thesis
    by (rule change_alive_ok [OF ok True, where f = "\<lambda>s. s\<lparr>sc_listeners :=
          jm_set event (nullish (jm_get (sc_listeners s) event) [] @ [cb]) (sc_listeners s)\<rparr>"])
      (use True in \<open>simp_all add: on_event_def update_scope_def\<close>)
qed (use ok in \<open>simp add: on_event_def\<close>)

lemma provide_ok: "kernel_ok {} k \<Longrightarrow> kernel_ok {} (snd (provide i key v p k))"
  by (simp add: provide_def Let_def add_provider_ok register_effect_ok alive_add_provider)

lemma add_effect_ok: "kernel_ok {} k \<Longrightarrow> kernel_ok {} (snd (add_effect i label k))"
  by (simp add: add_effect_def register_effect_ok)

lemma dispose_ok: "kernel_ok {} k \<Longrightarrow> kernel_ok {} (snd (dispose (kn_next k) ef sf i k))"
  using dispose_spec [of "{}" k "kn_next k" i ef sf] by (cases "dispose (kn_next k) ef sf i k") (simp add: disposed_below_def)

interpretation kernel: machine "kernel_step ef sf" "kernel_ok {}" for ef sf
proof
  fix k k' :: "'v kernel" assume "kernel_step ef sf k k'" "kernel_ok {} k"
  then show "kernel_ok {} k'"
  proof cases
    case creates
    with \<open>kernel_ok {} k\<close> show ?thesis using create_scope_ok by blast
  qed (simp_all add: new_scope_ok provide_ok remove_provider_ok on_event_ok off_event_ok log_entry_ok add_effect_ok contribute_ok
    revoke_ok dispose_ok)
qed

lemma empty_kernel_ok: "kernel_ok {} empty_kernel"
  by (simp add: kernel_ok_def empty_kernel_def)

lemmas reachable_kernel_ok = kernel.reachable_inv [OF _ empty_kernel_ok]

end
