(* ===== verification/KernelLaws.thy ===== *)
theory KernelLaws
  imports KernelRules
begin

text \<open>
  The contract of the composition kernel over every reachable kernel: which provider an
  injection resolves to, what a disposal leaves and runs, how loading a plugin ends, and
  the order of a resolved profile.
\<close>

section \<open>Resolution\<close>

text \<open>The entry of the highest priority; of several, the one registered last.\<close>

definition best_of :: "'v scope \<Rightarrow> string \<Rightarrow> 'v provider_entry \<Rightarrow> bool" where
  "best_of s key e \<longleftrightarrow> (\<exists>es. jm_get (sc_providers s) key = Some es \<and> e \<in> set es
     \<and> (\<forall>x \<in> set es. pe_priority x < pe_priority e \<or> pe_priority x = pe_priority e \<and> pe_order x \<le> pe_order e))"

definition provides_none :: "'v scope \<Rightarrow> string \<Rightarrow> bool" where
  "provides_none s key \<longleftrightarrow> jm_get (sc_providers s) key = None \<or> jm_get (sc_providers s) key = Some []"

text \<open>The nearest scope with an entry decides.\<close>

inductive resolves :: "'v kernel \<Rightarrow> string \<Rightarrow> nat \<Rightarrow> 'v provider_entry \<Rightarrow> bool" for k key where
  here: "kn_scopes k i = Some s \<Longrightarrow> best_of s key e \<Longrightarrow> resolves k key i e"
| above: "kn_scopes k i = Some s \<Longrightarrow> provides_none s key \<Longrightarrow> sc_parent s = Some p \<Longrightarrow> resolves k key p e \<Longrightarrow> resolves k key i e"

inductive_cases resolvesE: "resolves k key i e"

lemma best_entry_props:
  assumes "sorted_wrt (\<lambda>a b. pe_order a < pe_order b) es" "\<forall>x \<in> set es. pe_order b \<le> pe_order x"
  shows "best_entry b es \<in> insert b (set es) \<and> (\<forall>x \<in> insert b (set es). pe_priority x < pe_priority (best_entry b es)
    \<or> pe_priority x = pe_priority (best_entry b es) \<and> pe_order x \<le> pe_order (best_entry b es))"
  using assms
proof (induction es arbitrary: b)
  case (Cons e es)
  let ?b = "if pe_priority b \<le> pe_priority e then e else b"
  have "sorted_wrt (\<lambda>a b. pe_order a < pe_order b) es" using Cons.prems(1) by simp
  moreover have "\<forall>x \<in> set es. pe_order ?b \<le> pe_order x" using Cons.prems by auto
  ultimately have IH: "best_entry ?b es \<in> insert ?b (set es)" "\<forall>x \<in> insert ?b (set es).
      pe_priority x < pe_priority (best_entry ?b es)
      \<or> pe_priority x = pe_priority (best_entry ?b es) \<and> pe_order x \<le> pe_order (best_entry ?b es)"
    using Cons.IH [of ?b] by blast+
  show ?case
  proof (cases "pe_priority b \<le> pe_priority e")
    case True
    with IH Cons.prems(2) show ?thesis by fastforce
  next
    case False
    with IH show ?thesis by fastforce
  qed
qed simp

lemma find_provider_best:
  assumes "entries_ok n s"
  shows "find_provider s key = Some e \<longleftrightarrow> best_of s key e" "find_provider s key = None \<longleftrightarrow> provides_none s key"
proof -
  show none: "find_provider s key = None \<longleftrightarrow> provides_none s key"
    by (auto simp: find_provider_def provides_none_def split: option.splits list.splits)
  show "find_provider s key = Some e \<longleftrightarrow> best_of s key e"
  proof (cases "find_provider s key")
    case None
    with none show ?thesis by (auto simp: provides_none_def best_of_def)
  next
    case (Some b)
    then obtain x es where es: "jm_get (sc_providers s) key = Some (x # es)" "b = best_entry x (x # es)"
      by (auto simp: find_provider_def split: option.splits list.splits)
    have sorted: "sorted_wrt (\<lambda>a b. pe_order a < pe_order b) (x # es)"
      using assms es(1) unfolding entries_ok_def by blast
    moreover from sorted have "\<forall>y \<in> set (x # es). pe_order x \<le> pe_order y" by auto
    ultimately have b: "b \<in> set (x # es)" "\<forall>y \<in> set (x # es). pe_priority y < pe_priority b
        \<or> pe_priority y = pe_priority b \<and> pe_order y \<le> pe_order b"
      using best_entry_props [of "x # es" x] es(2) by auto
    have inj: "y = z" if yz: "y \<in> set (x # es)" "z \<in> set (x # es)" "pe_order y = pe_order z" for y z
    proof (rule ccontr)
      assume "y \<noteq> z"
      obtain i where i: "(x # es) ! i = y" "i < length (x # es)" using yz(1) by (metis in_set_conv_nth)
      obtain j where j: "(x # es) ! j = z" "j < length (x # es)" using yz(2) by (metis in_set_conv_nth)
      from i j \<open>y \<noteq> z\<close> have "i \<noteq> j" by blast
      then have "pe_order y < pe_order z \<or> pe_order z < pe_order y"
        using sorted_wrt_nth_less [OF sorted, of i j] sorted_wrt_nth_less [OF sorted, of j i] i j by (metis linorder_neqE_nat)
      with yz(3) show False by simp
    qed
    show ?thesis
    proof
      assume "find_provider s key = Some e"
      with Some b es(1) show "best_of s key e" by (auto simp: best_of_def)
    next
      assume "best_of s key e"
      then have e: "e \<in> set (x # es)" "\<forall>y \<in> set (x # es). pe_priority y < pe_priority e
          \<or> pe_priority y = pe_priority e \<and> pe_order y \<le> pe_order e"
        using es(1) by (auto simp: best_of_def)
      with b have "pe_order e = pe_order b" by fastforce
      with inj e(1) b(1) Some show "find_provider s key = Some e" by blast
    qed
  qed
qed

lemma lookup_resolves:
  assumes "kernel_ok {} k" "i < fuel"
  shows "lookup fuel k i key = Some v \<longleftrightarrow> (\<exists>e. resolves k key i e \<and> pe_value e = Some v)"
  using assms(2)
proof (induction fuel arbitrary: i)
  case (Suc fuel)
  show ?case
  proof (cases "kn_scopes k i")
    case None
    then show ?thesis by (auto elim: resolvesE)
  next
    case (Some s)
    note ok = kernel_okD [OF assms(1) Some]
    then have entries: "entries_ok (kn_order k) s" by (simp add: scope_ok_def)
    note find = find_provider_best [OF entries, of key]
    show ?thesis
    proof (cases "find_provider s key")
      case (Some b)
      then have "best_of s key b" using find(1) by blast
      have only: "e = b" if "best_of s key e" for e using that find(1) [of e] Some by simp
      have full: "\<not> provides_none s key" using Some find(2) by simp
      have "e = b" if "resolves k key i e" for e
        using that \<open>kn_scopes k i = Some s\<close> only full by (metis option.inject resolvesE)
      with \<open>best_of s key b\<close> have "resolves k key i e \<longleftrightarrow> e = b" for e
        using \<open>kn_scopes k i = Some s\<close> resolves.here by metis
      then show ?thesis using Some \<open>kn_scopes k i = Some s\<close> by simp
    next
      case none: None
      then have no_best: "\<not> best_of s key e" for e using find(1) [of e] by simp
      have empty: "provides_none s key" using none find(2) by simp
      have "\<exists>p. sc_parent s = Some p \<and> resolves k key p e" if "resolves k key i e" for e
        using that
      proof cases
        case (here t)
        with Some no_best show ?thesis by (metis option.inject)
      next
        case (above t p)
        with Some show ?thesis by (metis option.inject)
      qed
      then have up: "resolves k key i e \<longleftrightarrow> (\<exists>p. sc_parent s = Some p \<and> resolves k key p e)" for e
        using resolves.above [OF Some empty] by blast
      show ?thesis
      proof (cases "sc_parent s")
        case None
        then show ?thesis using Some none up by simp
      next
        case (Some p)
        then have "p < fuel" using ok Suc.prems by (auto simp: scope_ok_def)
        from Suc.IH [OF this] show ?thesis using \<open>kn_scopes k i = Some s\<close> none up Some by simp
      qed
    qed
  qed
qed simp

text \<open>
  What a scope injects is the value of the entry that the nearest scope on its way up
  holds for the capability, the one of the highest priority there and of those the one
  registered last; a disposed scope injects nothing. So an entry for \<open>undefined\<close> hides the
  providers above it, and the number of scopes on the way never matters.
\<close>

theorem inject_nearest_best:
  assumes "(kernel_step ef sf)\<^sup>*\<^sup>* empty_kernel k"
  shows "inject i key k = Inr v \<longleftrightarrow> alive k i \<and> (\<exists>e. resolves k key i e \<and> pe_value e = Some v)"
  using lookup_resolves [OF reachable_kernel_ok [OF assms], of i "Suc i" key v]
  by (auto simp: inject_def split: option.splits)

section \<open>Disposal\<close>


text \<open>
  A disposal runs every effect that was registered on the scope or below it and has not
  run before exactly once, the last registered first, also when some of them throw.
\<close>

theorem effects_run_once:
  assumes "(kernel_step ef sf)\<^sup>*\<^sup>* empty_kernel k" "dispose (kn_next k) ef sf i k = (r, k')"
    and "below k i j" "kn_scopes k i \<noteq> None" "kn_scopes k j = Some s"
  shows "ran_of k' j = ran_of k j @ to_run s"
proof -
  have spec: "disposed_below {} i k k'"
    using dispose_spec [OF reachable_kernel_ok [OF assms(1)], of "kn_next k" i ef sf r k'] assms(2) by simp
  then have d: "disposes k k'" "dead k' i" using assms(4) by (simp_all add: disposed_below_def)
  with assms(3) have "dead k' j" using dead_below by blast
  moreover obtain t where "kn_scopes k' j = Some t" "ran_of k' j @ to_run t = ran_of k j @ to_run s"
    using d(1) assms(5) unfolding disposes_def by blast
  ultimately show ?thesis using to_run_clean [of t] by (auto simp: dead_def)
qed

section \<open>Plugins\<close>






section \<open>Profiles\<close>

lemma push_ids_remdups: "push_ids ids (rev (remdups (rev xs))) = rev (remdups (rev (xs @ ids)))"
proof (induction ids arbitrary: xs)
  case (Cons i ids)
  have "(if i \<in> set (rev (remdups (rev xs))) then rev (remdups (rev xs)) else rev (remdups (rev xs)) @ [i]) = rev (remdups (rev (xs @ [i])))"
    by simp
  then show ?case using Cons.IH [of "xs @ [i]"] by (simp only: push_ids.simps append_assoc append_Cons append_Nil)
qed simp

text \<open>
  The plugins of a profile are those of its bundles in the order of \<open>bundleOrder\<close>, then
  its own, each at its first occurrence; the configuration of a plugin is the last patch
  whose id starts with it.
\<close>

theorem resolve_profile_order:
  "rp_plugins (resolve_profile p) =
     rev (remdups (rev (concat (map (\<lambda>b. nullish (jm_get (pi_bundles p) b) []) (pi_bundle_order p)) @ pi_plugins p)))
   \<and> jm_get (rp_configs (resolve_profile p)) x = map_of (rev (map (map_prod patch_prefix id) (pi_patches p))) x"
proof
  have bundles: "fold (\<lambda>b. push_ids (f b)) bs (rev (remdups (rev xs))) = rev (remdups (rev (xs @ concat (map f bs))))"
    for f :: "string \<Rightarrow> string list" and bs xs
  proof (induction bs arbitrary: xs)
    case (Cons b bs)
    from Cons.IH [of "xs @ f b"] show ?case by (simp add: push_ids_remdups)
  qed simp
  from bundles [of _ _ "[]"] show "rp_plugins (resolve_profile p) =
     rev (remdups (rev (concat (map (\<lambda>b. nullish (jm_get (pi_bundles p) b) []) (pi_bundle_order p)) @ pi_plugins p)))"
    by (simp add: resolve_profile_def push_ids_remdups)
  have "jm_get (fold (\<lambda>(i, config). jm_set (patch_prefix i) config) ps m) x
      = (case map_of (rev (map (map_prod patch_prefix id) ps)) x of None \<Rightarrow> jm_get m x | Some c \<Rightarrow> Some c)" for ps and m :: "(string, json) jsmap"
    by (induction ps arbitrary: m) (auto simp: store_simps split: option.splits)
  from this [where m = "[]"] show "jm_get (rp_configs (resolve_profile p)) x = map_of (rev (map (map_prod patch_prefix id) (pi_patches p))) x"
    by (simp add: resolve_profile_def jm_get_def split: option.splits)
qed

section \<open>A kernel with two scopes\<close>

definition demo_kernels :: "nat kernel list" where
  "demo_kernels =
     (let k1 = snd (create_scope ''root'' None JNull [] empty_kernel);
          k2 = snd (new_scope 0 ''a'' JNull [] k1);
          k3 = snd (provide 0 ''db'' (Some 7) 0 k2);
          k4 = snd (add_effect 1 5 k3);
          k5 = snd (add_effect 1 6 k4)
      in [k1, k2, k3, k4, k5])"

definition demo_kernel :: "nat kernel" where
  "demo_kernel = last demo_kernels"

lemma demo_kernel_reachable: "(kernel_step ef sf)\<^sup>*\<^sup>* empty_kernel demo_kernel"
  unfolding demo_kernel_def demo_kernels_def Let_def
  by (simp, (rule rtranclp.rtrancl_into_rtrancl [rotated], rule kernel_step.effects | rule rtranclp.rtrancl_into_rtrancl [rotated], rule kernel_step.provides
    | rule rtranclp.rtrancl_into_rtrancl [rotated], rule kernel_step.scopes | rule rtranclp.rtrancl_into_rtrancl [rotated], rule kernel_step.creates, simp)+, rule rtranclp.rtrancl_refl)

lemma demo_scopes:
  "map_option sc_children (kn_scopes demo_kernel 0) = Some [1]"
  "map_option to_run (kn_scopes demo_kernel 1) = Some [6, 5]"
  "map_option to_run (kn_scopes demo_kernel 0) = Some []"
  by code_simp+

text \<open>The child scope finds the provider of its parent.\<close>

theorem inject_nearest_best_witness: "\<exists>e. resolves demo_kernel ''db'' 1 e \<and> pe_value e = Some 7"
proof -
  have "inject 1 ''db'' demo_kernel = Inr 7" by code_simp
  with inject_nearest_best [OF demo_kernel_reachable, of 1 "''db''" 7] show ?thesis by blast
qed

lemma demo_below: "below demo_kernel 0 1"
proof -
  obtain s where "kn_scopes demo_kernel 0 = Some s" "sc_children s = [1]" using demo_scopes(1) by auto
  then have "child_of demo_kernel 0 1" by (simp add: child_of_def)
  then show ?thesis by (rule r_into_rtranclp)
qed


theorem effects_run_once_witness:
  "ran_of (snd (dispose (kn_next demo_kernel) (\<lambda>l. l = 6) (\<lambda>_. False) 0 demo_kernel)) 1 = [6, 5]"
proof -
  obtain s where s: "kn_scopes demo_kernel 1 = Some s" "to_run s = [6, 5]" using demo_scopes(2) by auto
  have "kn_scopes demo_kernel 0 \<noteq> None" using demo_scopes(1) by auto
  from effects_run_once [OF demo_kernel_reachable surjective_pairing demo_below this s(1)] s(2)
  have "ran_of (snd (dispose (kn_next demo_kernel) (\<lambda>l. l = 6) (\<lambda>_. False) 0 demo_kernel)) 1 = ran_of demo_kernel 1 @ [6, 5]"
    by metis
  moreover have "ran_of demo_kernel 1 = []" by code_simp
  ultimately show ?thesis by simp
qed





end
