(* ===== verification/Identity.thy ===== *)
theory Identity
  imports ControlPlane JsMap
begin

text \<open>
  The identity package: signed-in sessions (packages/identity/src/sessions.ts, access.ts,
  validation.ts) and the per-account settings of the instance owner (limits.ts, guardrails.ts,
  permissions.ts), on their tables of the control plane.

  The token hash is a parameter, tokens and ids drawn at random are arguments, and so are the
  normalizers the host hands in. One operation reads the clock once.
\<close>

section \<open>Tables\<close>

datatype installation_state = Uninitialized | Claimed | Configuring | Ready | Recovery

record user_row =
  us_id :: string
  us_name :: string

record authority_row =
  ap_id :: string
  ap_kind :: principal_kind
  ap_status :: principal_status
  ap_revision :: int
  ap_epoch :: int

record session_row =
  as_id :: string
  as_user :: string
  as_hash :: string
  as_created :: int
  as_seen :: int
  as_expires :: int
  as_label :: string
  as_epoch :: int
  as_elevated :: "int option"
  as_revision :: int

text \<open>A JSON column; a text that does not parse is kept apart.\<close>

datatype stored_json = BadText | StoredJson json

record setting_row =
  st_user :: string
  st_json :: "stored_json option"
  st_revision :: int
  st_updated_by :: string
  st_updated_at :: int

record usage_row =
  uu_user :: string
  uu_day :: string
  uu_messages :: int
  uu_chats :: int

record auth_event =
  ae_actor :: string
  ae_action :: string
  ae_resource :: string
  ae_epoch :: int

record auth_db =
  ad_state :: installation_state
  ad_local :: bool               \<comment> \<open>the access mode of an owner without a credential\<close>
  ad_users :: "user_row list"
  ad_principals :: "authority_row list"
  ad_owners :: "string list"     \<comment> \<open>the instance roles \<open>owner\<close>\<close>
  ad_sessions :: "session_row list"
  ad_limits :: "setting_row list"
  ad_guardrails :: "setting_row list"
  ad_permissions :: "setting_row list"
  ad_usage :: "usage_row list"
  ad_events :: "auth_event list"
  ad_epoch :: int

definition get_user :: "auth_db \<Rightarrow> string \<Rightarrow> user_row option" where
  "get_user d u = sql_get (\<lambda>r. us_id r = u) (ad_users d)"

definition get_authority :: "auth_db \<Rightarrow> string \<Rightarrow> authority_row option" where
  "get_authority d u = sql_get (\<lambda>r. ap_id r = u) (ad_principals d)"

definition bump_epoch :: "auth_db \<Rightarrow> auth_db" where
  "bump_epoch d = d\<lparr>ad_epoch := ad_epoch d + 1\<rparr>"

definition audit_event :: "string \<Rightarrow> string \<Rightarrow> string \<Rightarrow> auth_db \<Rightarrow> auth_db" where
  "audit_event actor action resource d =
     d\<lparr>ad_events := ad_events d @
        [\<lparr>ae_actor = actor, ae_action = action, ae_resource = resource, ae_epoch = ad_epoch d\<rparr>]\<rparr>"

section \<open>Sessions\<close>

record session_config =
  cf_hash :: "string \<Rightarrow> string"
  cf_idle :: int
  cf_absolute :: int

definition default_idle_ms :: int where
  "default_idle_ms = 7 * 24 * 60 * 60000"

definition default_absolute_ms :: int where
  "default_absolute_ms = 30 * 24 * 60 * 60000"

definition create_sessions :: "(string \<Rightarrow> string) \<Rightarrow> int option \<Rightarrow> int option \<Rightarrow> control_error + session_config" where
  "create_sessions hash idle absolute =
     (let i = nullish idle default_idle_ms; a = nullish absolute default_absolute_ms
      in if \<bar>i\<bar> > max_safe_integer \<or> \<bar>a\<bar> > max_safe_integer \<or> i \<le> 0 \<or> a < i then Inl InvalidInput
         else Inr \<lparr>cf_hash = hash, cf_idle = i, cf_absolute = a\<rparr>)"

text \<open>What is shown of a session.\<close>

record identity_session =
  is_id :: string
  is_user :: string
  is_name :: string
  is_user_revision :: int
  is_created :: int
  is_expires :: int
  is_elevated :: "int option"

definition is_hex :: "char \<Rightarrow> bool" where
  "is_hex c \<longleftrightarrow> is_digit c \<or> within CHR ''a'' CHR ''f'' c"

definition valid_token :: "string option \<Rightarrow> bool" where
  "valid_token t \<longleftrightarrow> (case t of None \<Rightarrow> False | Some s \<Rightarrow> length s = 64 \<and> list_all is_hex s)"

definition is_session_id :: "string \<Rightarrow> bool" where
  "is_session_id s \<longleftrightarrow> take 4 s = ''ses_'' \<and> length s = 40 \<and> list_all (\<lambda>c. is_hex c \<or> c = CHR ''-'') (drop 4 s)"

text \<open>The join with users and principals and the conditions of the query.\<close>

definition live_view :: "session_config \<Rightarrow> int \<Rightarrow> auth_db \<Rightarrow> session_row \<Rightarrow> identity_session option" where
  "live_view cfg now d s =
     (case get_user d (as_user s) of
        None \<Rightarrow> None
      | Some u \<Rightarrow>
          (case get_authority d (us_id u) of
             None \<Rightarrow> None
           | Some p \<Rightarrow>
               if ap_status p = StatusActive \<and> ap_kind p = KindUser \<and> as_epoch s = ap_epoch p
                  \<and> now < as_expires s \<and> now - cf_idle cfg < as_seen s \<and> as_created s \<le> now
               then Some \<lparr>is_id = as_id s, is_user = as_user s, is_name = us_name u, is_user_revision = ap_revision p,
                      is_created = as_created s, is_expires = as_expires s, is_elevated = as_elevated s\<rparr>
               else None))"

definition live_by_id :: "session_config \<Rightarrow> int \<Rightarrow> string \<Rightarrow> string option \<Rightarrow> auth_db \<Rightarrow> identity_session option" where
  "live_by_id cfg now i expected d =
     (if \<not> is_session_id i \<or> ad_state d \<noteq> Ready then None
      else
        (case sql_get (\<lambda>s. as_id s = i \<and> live_view cfg now d s \<noteq> None \<and> (truthy expected \<longrightarrow> Some (as_user s) = expected)) (ad_sessions d) of
           None \<Rightarrow> None
         | Some s \<Rightarrow> live_view cfg now d s))"

text \<open>The last use is written at most once in this interval.\<close>

definition touch_interval :: "session_config \<Rightarrow> int" where
  "touch_interval cfg = min 60000 (max 1 (cf_idle cfg div 4))"

definition touch_session :: "int \<Rightarrow> session_row \<Rightarrow> auth_db \<Rightarrow> auth_db" where
  "touch_session now s d =
     d\<lparr>ad_sessions := sql_update (\<lambda>x. as_id x = as_id s \<and> as_seen x = as_seen s) (\<lambda>x. x\<lparr>as_seen := now\<rparr>) (ad_sessions d)\<rparr>"

definition session_of_token :: "session_config \<Rightarrow> int \<Rightarrow> string \<Rightarrow> auth_db \<Rightarrow> session_row option" where
  "session_of_token cfg now token d = sql_get (\<lambda>s. as_hash s = cf_hash cfg token \<and> live_view cfg now d s \<noteq> None) (ad_sessions d)"

definition resolve_session :: "session_config \<Rightarrow> int \<Rightarrow> string option \<Rightarrow> auth_db \<Rightarrow> identity_session option \<times> auth_db" where
  "resolve_session cfg now token d =
     (if \<not> valid_token token \<or> ad_state d \<noteq> Ready then (None, d)
      else
        (case session_of_token cfg now (the token) d of
           None \<Rightarrow> (None, d)
         | Some s \<Rightarrow> (live_view cfg now d s, if now - as_seen s \<ge> touch_interval cfg then touch_session now s d else d)))"

definition elevation_ms :: int where
  "elevation_ms = 5 * 60000"

definition require_session :: "session_config \<Rightarrow> int \<Rightarrow> string option \<Rightarrow> bool \<Rightarrow> auth_db \<Rightarrow> (control_error + identity_session) \<times> auth_db" where
  "require_session cfg now token elevated d =
     (let (r, d1) = resolve_session cfg now token d in
      case r of
        None \<Rightarrow> (Inl Unauthorized, d1)
      | Some v \<Rightarrow>
          if elevated \<and> ad_local d1 then (Inl OwnerCredentialRequired, d1)
          else if elevated \<and> (case is_elevated v of None \<Rightarrow> True | Some t \<Rightarrow> now - t \<ge> elevation_ms \<or> t > now)
          then (Inl ReauthRequired, d1)
          else (Inr v, d1))"

definition is_control :: "char \<Rightarrow> bool" where
  "is_control c \<longleftrightarrow> (of_char c :: nat) < 32 \<or> (of_char c :: nat) = 127"

definition clean_label :: "string \<Rightarrow> string" where
  "clean_label s = take 120 (filter (\<lambda>c. \<not> is_control c) s)"

text \<open>Runs in a transaction of its caller; \<open>token\<close> and \<open>i\<close> are the fresh ones.\<close>

definition issue_session :: "session_config \<Rightarrow> int \<Rightarrow> string \<Rightarrow> string \<Rightarrow> string \<Rightarrow> string \<Rightarrow> auth_db \<Rightarrow> (control_error + identity_session) \<times> auth_db" where
  "issue_session cfg now token i user label d =
     (case (get_user d user, get_authority d user) of
        (Some u, Some p) \<Rightarrow>
          if ap_status p \<noteq> StatusActive \<or> ap_kind p \<noteq> KindUser \<or> ad_state d \<noteq> Ready then (Inl Unauthorized, d)
          else if i \<in> as_id ` set (ad_sessions d) \<or> cf_hash cfg token \<in> as_hash ` set (ad_sessions d) then (Inl ConstraintFailed, d)
          else
            (let row = \<lparr>as_id = i, as_user = user, as_hash = cf_hash cfg token, as_created = now, as_seen = now,
                   as_expires = now + cf_absolute cfg, as_label = clean_label label, as_epoch = ap_epoch p,
                   as_elevated = Some now, as_revision = 1\<rparr>
             in (Inr \<lparr>is_id = i, is_user = user, is_name = us_name u, is_user_revision = ap_revision p, is_created = now,
                     is_expires = now + cf_absolute cfg, is_elevated = Some now\<rparr>,
                 audit_event user ''auth.session-created'' i (d\<lparr>ad_sessions := ad_sessions d @ [row]\<rparr>)))
      | _ \<Rightarrow> (Inl Unauthorized, d))"

definition logout :: "session_config \<Rightarrow> string option \<Rightarrow> auth_db \<Rightarrow> auth_db" where
  "logout cfg token d =
     (if \<not> valid_token token then d
      else
        (case sql_get (\<lambda>s. as_hash s = cf_hash cfg (the token)) (ad_sessions d) of
           None \<Rightarrow> d
         | Some s \<Rightarrow>
             audit_event (as_user s) ''auth.logout'' (as_id s)
               (bump_epoch (d\<lparr>ad_sessions := sql_delete (\<lambda>x. as_id x = as_id s) (ad_sessions d)\<rparr>))))"

definition bump_authority :: "string \<Rightarrow> auth_db \<Rightarrow> auth_db" where
  "bump_authority user d =
     d\<lparr>ad_principals := sql_update (\<lambda>p. ap_id p = user) (\<lambda>p. p\<lparr>ap_epoch := ap_epoch p + 1\<rparr>) (ad_principals d)\<rparr>"

definition logout_all_work :: "session_config \<Rightarrow> int \<Rightarrow> string option \<Rightarrow> auth_db \<Rightarrow> (control_error + unit) \<times> auth_db" where
  "logout_all_work cfg now token d =
     (case require_session cfg now token False d of
        (Inl e, d1) \<Rightarrow> (Inl e, d1)
      | (Inr actor, d1) \<Rightarrow>
          (let d2 = bump_authority (is_user actor) d1
           in (Inr (), audit_event (is_user actor) ''auth.logout-all'' (is_user actor)
                (bump_epoch (d2\<lparr>ad_sessions := sql_delete (\<lambda>s. as_user s = is_user actor) (ad_sessions d2)\<rparr>)))))"

definition logout_all :: "session_config \<Rightarrow> int \<Rightarrow> string option \<Rightarrow> auth_db \<Rightarrow> (control_error + unit) \<times> auth_db" where
  "logout_all cfg now token = transaction (logout_all_work cfg now token)"

text \<open>The newest first, then by id.\<close>

definition list_sessions :: "session_config \<Rightarrow> int \<Rightarrow> string option \<Rightarrow> auth_db \<Rightarrow> (control_error + (session_row \<times> bool) list) \<times> auth_db" where
  "list_sessions cfg now token d =
     (case require_session cfg now token False d of
        (Inl e, d1) \<Rightarrow> (Inl e, d1)
      | (Inr actor, d1) \<Rightarrow>
          (Inr (map (\<lambda>s. (s, as_id s = is_id actor))
             (sort_key (\<lambda>s. (- as_created s, as_id s))
               (filter (\<lambda>s. as_user s = is_user actor \<and> Some (as_epoch s) = map_option ap_epoch (get_authority d1 (is_user actor))
                  \<and> now < as_expires s \<and> now - cf_idle cfg < as_seen s \<and> as_created s \<le> now) (ad_sessions d1)))), d1))"

definition revoke_work :: "session_config \<Rightarrow> int \<Rightarrow> string option \<Rightarrow> string \<Rightarrow> int \<Rightarrow> auth_db \<Rightarrow> (control_error + unit) \<times> auth_db" where
  "revoke_work cfg now token i expected d =
     (case require_session cfg now token False d of
        (Inl e, d1) \<Rightarrow> (Inl e, d1)
      | (Inr actor, d1) \<Rightarrow>
          (case sql_get (\<lambda>s. as_id s = i \<and> as_user s = is_user actor) (ad_sessions d1) of
             None \<Rightarrow> (Inl NotFound, d1)
           | Some s \<Rightarrow>
               if as_revision s \<noteq> expected then (Inl Conflict, d1)
               else (Inr (), audit_event (is_user actor) ''auth.session-revoked'' i
                      (bump_epoch (d1\<lparr>ad_sessions :=
                         sql_delete (\<lambda>s. as_id s = i \<and> as_user s = is_user actor \<and> as_revision s = expected) (ad_sessions d1)\<rparr>)))))"

definition revoke_session :: "session_config \<Rightarrow> int \<Rightarrow> string option \<Rightarrow> string \<Rightarrow> int \<Rightarrow> auth_db \<Rightarrow> (control_error + unit) \<times> auth_db" where
  "revoke_session cfg now token i expected d =
     (if \<not> is_revision expected then (Inl InvalidInput, d)
      else transaction (revoke_work cfg now token i expected) d)"

end
