(* ===== verification/IdentitySessions.thy ===== *)
theory IdentitySessions
  imports Identity
begin

text \<open>
  What signed-in sessions guarantee over every history of the identity package: bounded
  lifetimes, ended sessions that stay ended, the window of an elevated action, and
  revocation that reaches the actor's own sessions only.
\<close>

section \<open>Histories\<close>

text \<open>
  What other operations of the package do to the sessions: they drop some, confirm others
  anew and raise the epochs of principals.
\<close>

definition elsewhere :: "auth_db \<Rightarrow> auth_db \<Rightarrow> bool" where
  "elsewhere d d' \<longleftrightarrow> (\<exists>P e r. ad_sessions d' = map (\<lambda>s. s\<lparr>as_elevated := e s, as_revision := r s\<rparr>) (filter P (ad_sessions d)))"

text \<open>A step is labelled with the token hash it issues.\<close>

inductive session_step :: "session_config \<Rightarrow> string option \<Rightarrow> auth_db \<Rightarrow> auth_db \<Rightarrow> bool" for cfg where
  resolves: "session_step cfg None d (snd (resolve_session cfg now token d))"
| issues: "session_step cfg (Some (cf_hash cfg token)) d (snd (transaction (issue_session cfg now token i user label) d))"
| logouts: "session_step cfg None d (logout cfg token d)"
| logout_alls: "session_step cfg None d (snd (logout_all cfg now token d))"
| revokes: "session_step cfg None d (snd (revoke_session cfg now token i expected d))"
| others: "elsewhere d d' \<Longrightarrow> session_step cfg None d d'"

abbreviation any_session_step :: "session_config \<Rightarrow> auth_db \<Rightarrow> auth_db \<Rightarrow> bool" where
  "any_session_step cfg d d' \<equiv> \<exists>l. session_step cfg l d d'"

definition row_lifetime_ok :: "session_config \<Rightarrow> session_row \<Rightarrow> bool" where
  "row_lifetime_ok cfg s \<longleftrightarrow> as_created s \<le> as_seen s \<and> as_expires s = as_created s + cf_absolute cfg"

definition sessions_ok :: "session_config \<Rightarrow> auth_db \<Rightarrow> bool" where
  "sessions_ok cfg d \<longleftrightarrow> distinct (map as_id (ad_sessions d)) \<and> distinct (map as_hash (ad_sessions d))
     \<and> list_all (row_lifetime_ok cfg) (ad_sessions d)"

subsection \<open>What the operations do to the table\<close>

named_theorems session_tables \<open>the sessions after each statement\<close>

lemma audit_sessions [simp, session_tables]: "ad_sessions (audit_event a b c d) = ad_sessions d"
  by (simp add: audit_event_def)

lemma bump_sessions [simp, session_tables]:
  "ad_sessions (bump_epoch d) = ad_sessions d" "ad_sessions (bump_authority u d) = ad_sessions d"
  by (simp_all add: bump_epoch_def bump_authority_def)

lemma live_viewD:
  assumes "live_view cfg now d s = Some v"
  shows "is_id v = as_id s \<and> is_user v = as_user s \<and> is_created v = as_created s \<and> is_elevated v = as_elevated s
    \<and> now < as_expires s \<and> now - cf_idle cfg < as_seen s \<and> as_created s \<le> now
    \<and> (\<exists>p. get_authority d (as_user s) = Some p \<and> ap_status p = StatusActive \<and> ap_kind p = KindUser \<and> ap_epoch p = as_epoch s)"
proof -
  obtain u where u: "get_user d (as_user s) = Some u" using assms by (cases "get_user d (as_user s)") (auto simp: live_view_def)
  moreover from u have "us_id u = as_user s" by (auto simp: get_user_def dest: sql_get_SomeD)
  ultimately show ?thesis using assms by (auto simp: live_view_def split: option.splits if_splits)
qed

lemma resolve_cases:
  obtains "fst (resolve_session cfg now token d) = None" "snd (resolve_session cfg now token d) = d"
  | t s v where "token = Some t" "valid_token token" "s \<in> set (ad_sessions d)" "as_hash s = cf_hash cfg t" "live_view cfg now d s = Some v"
      "fst (resolve_session cfg now token d) = Some v"
      "snd (resolve_session cfg now token d) = (if now - as_seen s \<ge> touch_interval cfg then touch_session now s d else d)"
proof (cases "valid_token token \<and> ad_state d = Ready")
  case True
  then obtain t where t: "token = Some t" by (auto simp: valid_token_def split: option.splits)
  show ?thesis
  proof (cases "session_of_token cfg now t d")
    case None
    then show ?thesis using True t that(1) by (simp add: resolve_session_def)
  next
    case (Some s)
    then have s: "as_hash s = cf_hash cfg t" "live_view cfg now d s \<noteq> None" "s \<in> set (ad_sessions d)"
      by (auto simp: session_of_token_def dest: sql_get_SomeD)
    then show ?thesis using True t Some that(2) by (auto simp: resolve_session_def)
  qed
qed (auto simp: resolve_session_def intro: that(1))

text \<open>The rows that a step leaves: some are gone, the others keep what identifies them.\<close>

definition same_session :: "session_row \<Rightarrow> session_row \<Rightarrow> bool" where
  "same_session s t \<longleftrightarrow> as_id t = as_id s \<and> as_user t = as_user s \<and> as_hash t = as_hash s \<and> as_created t = as_created s
     \<and> as_expires t = as_expires s \<and> as_epoch t = as_epoch s \<and> (as_created s \<le> as_seen s \<longrightarrow> as_created t \<le> as_seen t)"

definition thins :: "session_row list \<Rightarrow> session_row list \<Rightarrow> bool" where
  "thins xs ys \<longleftrightarrow> (\<exists>P f. ys = map f (filter P xs) \<and> (\<forall>s \<in> set xs. same_session s (f s)))"

lemma thinsI: "ys = map f (filter P xs) \<Longrightarrow> (\<And>s. s \<in> set xs \<Longrightarrow> same_session s (f s)) \<Longrightarrow> thins xs ys"
  unfolding thins_def by blast

lemma same_session_refl: "same_session s s"
  by (simp add: same_session_def)

lemma thins_filter: "thins xs (filter P xs)"
  by (rule thinsI [where f = id and P = P]) (simp_all add: same_session_refl)

lemma thins_refl: "thins xs xs"
  using thins_filter [of xs "\<lambda>_. True"] by simp

lemma thins_trans:
  assumes "thins xs ys" "thins ys zs"
  shows "thins xs zs"
proof -
  obtain P f where f: "ys = map f (filter P xs)" "\<forall>s \<in> set xs. same_session s (f s)" using assms(1) by (auto simp: thins_def)
  obtain Q g where g: "zs = map g (filter Q ys)" "\<forall>s \<in> set ys. same_session s (g s)" using assms(2) by (auto simp: thins_def)
  have "zs = map (\<lambda>s. if P s \<and> Q (f s) then g (f s) else f s) (filter (\<lambda>s. P s \<and> Q (f s)) xs)"
    unfolding g(1) f(1) by (induction xs) auto
  then show ?thesis
  proof (rule thinsI)
    fix s assume s: "s \<in> set xs"
    show "same_session s (if P s \<and> Q (f s) then g (f s) else f s)"
    proof (cases "P s \<and> Q (f s)")
      case True
      with s f(1) have "f s \<in> set ys" by auto
      with g(2) f(2) s True show ?thesis by (fastforce simp: same_session_def)
    qed (use s f(2) in auto)
  qed
qed

lemma thins_touch: "as_created s \<le> now \<Longrightarrow> thins (ad_sessions d) (ad_sessions (touch_session now s d))"
  if "\<forall>x \<in> set (ad_sessions d). as_id x = as_id s \<longrightarrow> as_created x = as_created s"
  by (rule thinsI [where P = "\<lambda>_. True" and f = "\<lambda>x. if as_id x = as_id s \<and> as_seen x = as_seen s then x\<lparr>as_seen := now\<rparr> else x"])
    (use that in \<open>auto simp: touch_session_def sql_update_def same_session_def\<close>)

lemma resolve_thins:
  assumes "sessions_ok cfg d"
  shows "thins (ad_sessions d) (ad_sessions (snd (resolve_session cfg now token d)))"
proof (cases cfg now token d rule: resolve_cases)
  case 1
  then show ?thesis by (simp add: thins_refl)
next
  case (2 t s v)
  have "inj_on as_id (set (ad_sessions d))" using assms by (simp add: sessions_ok_def distinct_map)
  then have "\<forall>x \<in> set (ad_sessions d). as_id x = as_id s \<longrightarrow> as_created x = as_created s"
    using 2(3) by (metis inj_onD)
  moreover have "as_created s \<le> now" using live_viewD [OF 2(5)] by blast
  ultimately have "thins (ad_sessions d) (ad_sessions (touch_session now s d))" by (rule thins_touch)
  then show ?thesis unfolding 2(7) using thins_refl by (simp split: if_split)
qed

lemma require_snd: "snd (require_session cfg now token e d) = snd (resolve_session cfg now token d)"
  by (auto simp: require_session_def Let_def split: prod.splits option.splits)

lemma requireD:
  assumes "require_session cfg now token e d = (Inr v, d')"
  shows "fst (resolve_session cfg now token d) = Some v \<and> d' = snd (resolve_session cfg now token d)"
  using assms by (auto simp: require_session_def Let_def split: prod.splits option.splits if_splits)

lemma thins_ok:
  assumes "thins (ad_sessions d) (ad_sessions d')" "sessions_ok cfg d"
  shows "sessions_ok cfg d'"
proof -
  obtain P f where f: "ad_sessions d' = map f (filter P (ad_sessions d))" "\<forall>s \<in> set (ad_sessions d). same_session s (f s)"
    using assms(1) by (auto simp: thins_def)
  have keys: "map as_id (ad_sessions d') = map as_id (filter P (ad_sessions d))" "map as_hash (ad_sessions d') = map as_hash (filter P (ad_sessions d))"
    using f(2) unfolding f(1) map_map by (simp_all add: same_session_def)
  have "list_all (row_lifetime_ok cfg) (ad_sessions d')"
    using f assms(2) by (auto simp: sessions_ok_def list_all_iff row_lifetime_ok_def same_session_def)
  with keys assms(2) show ?thesis by (simp add: sessions_ok_def distinct_map_filter)
qed

text \<open>A step issues one row at most and thins the others out.\<close>

lemma logout_all_thins:
  assumes "sessions_ok cfg d"
  shows "thins (ad_sessions d) (ad_sessions (snd (logout_all cfg now token d)))"
proof (cases "require_session cfg now token False d")
  case (Pair r d1)
  then have d1: "thins (ad_sessions d) (ad_sessions d1)" using resolve_thins [OF assms] require_snd [of cfg now token False d] by simp
  show ?thesis
  proof (cases r)
    case (Inr v)
    with Pair d1 show ?thesis
      by (auto simp: logout_all_def transaction_def logout_all_work_def Let_def sql_delete_def intro: thins_trans thins_filter)
  qed (use Pair in \<open>simp add: logout_all_def transaction_def logout_all_work_def thins_refl\<close>)
qed

lemma revoke_thins:
  assumes "sessions_ok cfg d"
  shows "thins (ad_sessions d) (ad_sessions (snd (revoke_session cfg now token i expected d)))"
proof (cases "require_session cfg now token False d")
  case (Pair r d1)
  then have d1: "thins (ad_sessions d) (ad_sessions d1)" using resolve_thins [OF assms] require_snd [of cfg now token False d] by simp
  show ?thesis
  proof (cases r)
    case (Inr v)
    with Pair d1 show ?thesis
      by (auto simp: revoke_session_def transaction_def revoke_work_def Let_def sql_delete_def thins_refl intro: thins_trans thins_filter split: option.splits)
  qed (use Pair in \<open>simp add: revoke_session_def transaction_def revoke_work_def thins_refl\<close>)
qed

lemma step_rows:
  assumes "session_step cfg l d d'" "sessions_ok cfg d"
  shows "thins (ad_sessions d) (ad_sessions d') \<or>
    (\<exists>s. ad_sessions d' = ad_sessions d @ [s] \<and> l = Some (as_hash s) \<and> row_lifetime_ok cfg s
       \<and> as_id s \<notin> as_id ` set (ad_sessions d) \<and> as_hash s \<notin> as_hash ` set (ad_sessions d))"
  using assms(1)
proof cases
  case resolves
  with resolve_thins [OF assms(2)] show ?thesis by simp
next
  case (issues token now i user label)
  show ?thesis
  proof (cases "fst (issue_session cfg now token i user label d)")
    case (Inl e)
    with issues show ?thesis by (simp add: transaction_def thins_refl split: prod.splits)
  next
    case (Inr v)
    with issues show ?thesis
      by (auto simp: transaction_def issue_session_def Let_def row_lifetime_ok_def split: option.splits if_splits)
  qed
next
  case logouts
  then show ?thesis by (auto simp: logout_def sql_delete_def thins_refl thins_filter split: option.splits)
next
  case logout_alls
  with logout_all_thins [OF assms(2)] show ?thesis by simp
next
  case revokes
  with revoke_thins [OF assms(2)] show ?thesis by simp
next
  case others
  then obtain P e r where "ad_sessions d' = map (\<lambda>s. s\<lparr>as_elevated := e s, as_revision := r s\<rparr>) (filter P (ad_sessions d))"
    by (auto simp: elsewhere_def)
  then have "thins (ad_sessions d) (ad_sessions d')" by (rule thinsI) (simp add: same_session_def)
  then show ?thesis ..
qed

interpretation sessions: machine "any_session_step cfg" "sessions_ok cfg" for cfg
proof
  fix d d' assume "any_session_step cfg d d'" and ok: "sessions_ok cfg d"
  then obtain l where "session_step cfg l d d'" by blast
  from step_rows [OF this ok] show "sessions_ok cfg d'"
    using thins_ok [OF _ ok] ok by (auto simp: sessions_ok_def)
qed

section \<open>Lifetimes\<close>

lemma no_sessions_ok: "ad_sessions d = [] \<Longrightarrow> sessions_ok cfg d"
  by (simp add: sessions_ok_def)

lemmas reachable_sessions_ok = sessions.reachable_inv [OF _ no_sessions_ok]

text \<open>
  C32: In every history, a token resolves only while its session is younger than the absolute
  lifetime, was used within the idle window, and belongs to an active person whose epoch has
  not moved on since: using a session slides its idle window but never its end.
\<close>

theorem session_lifetime_bounded:
  assumes "(any_session_step cfg)\<^sup>*\<^sup>* d0 d" "ad_sessions d0 = []"
    and "fst (resolve_session cfg now token d) = Some v"
  shows "is_created v \<le> now \<and> now < is_created v + cf_absolute cfg
    \<and> (\<exists>s \<in> set (ad_sessions d). as_id s = is_id v \<and> as_user s = is_user v \<and> now < as_seen s + cf_idle cfg
         \<and> map_option (cf_hash cfg) token = Some (as_hash s)
         \<and> (\<exists>p. get_authority d (is_user v) = Some p \<and> ap_status p = StatusActive \<and> ap_kind p = KindUser \<and> ap_epoch p = as_epoch s))"
proof (cases cfg now token d rule: resolve_cases)
  case (2 t s w)
  then have w: "w = v" using assms(3) by simp
  have "row_lifetime_ok cfg s"
    using reachable_sessions_ok [OF assms(1,2)] 2(3) by (simp add: sessions_ok_def list_all_iff)
  then show ?thesis using live_viewD [OF 2(5)] 2(1,3,4) unfolding w
    by (intro conjI bexI [of _ s]) (auto simp: row_lifetime_ok_def)
qed (use assms(3) in simp)

section \<open>Ended sessions\<close>

definition hash_gone :: "string \<Rightarrow> auth_db \<Rightarrow> bool" where
  "hash_gone h d \<longleftrightarrow> list_all (\<lambda>s. as_hash s \<noteq> h) (ad_sessions d)"

abbreviation steps_without :: "session_config \<Rightarrow> string \<Rightarrow> auth_db \<Rightarrow> auth_db \<Rightarrow> bool" where
  "steps_without cfg h \<equiv> (\<lambda>x y. \<exists>l. l \<noteq> Some h \<and> session_step cfg l x y)\<^sup>*\<^sup>*"

lemma thins_hashes:
  assumes "thins xs ys" "list_all (\<lambda>s. as_hash s \<noteq> h) xs"
  shows "list_all (\<lambda>s. as_hash s \<noteq> h) ys"
proof -
  obtain P f where f: "ys = map f (filter P xs)" "\<forall>s \<in> set xs. same_session s (f s)" using assms(1) by (auto simp: thins_def)
  from f(2) have "as_hash (f s) = as_hash s" if "s \<in> set xs" for s using that by (simp add: same_session_def)
  with assms(2) show ?thesis unfolding f(1) list_all_iff by simp
qed

lemma hash_gone_stays:
  assumes "steps_without cfg h d d'" "sessions_ok cfg d" "hash_gone h d"
  shows "sessions_ok cfg d' \<and> hash_gone h d'"
  using assms(1)
proof (induction rule: rtranclp_induct)
  case (step x y)
  then obtain l where l: "l \<noteq> Some h" "session_step cfg l x y" by blast
  then have "sessions_ok cfg y" using sessions.step_inv step.IH by blast
  moreover have "hash_gone h y"
    using step_rows [OF l(2) conjunct1 [OF step.IH]]
  proof
    assume "thins (ad_sessions x) (ad_sessions y)"
    with thins_hashes step.IH show ?thesis by (simp add: hash_gone_def)
  qed (use step.IH l(1) in \<open>auto simp: hash_gone_def\<close>)
  ultimately show ?case by blast
qed (use assms in simp)

lemma gone_resolves_to_none:
  assumes "hash_gone (cf_hash cfg t) d"
  shows "fst (resolve_session cfg now (Some t) d) = None"
  by (cases cfg now "Some t" d rule: resolve_cases) (use assms in \<open>auto simp: hash_gone_def list_all_iff\<close>)

lemma logout_all_result:
  assumes "logout_all cfg now token d = (Inr (), d1)" "sessions_ok cfg d"
  obtains v and d0 :: auth_db where "fst (resolve_session cfg now token d) = Some v" "thins (ad_sessions d) (ad_sessions d0)"
    "ad_sessions d1 = filter (\<lambda>s. as_user s \<noteq> is_user v) (ad_sessions d0)"
proof (cases "require_session cfg now token False d")
  case (Pair r d2)
  show ?thesis
  proof (cases r)
    case (Inr v)
    with Pair have "require_session cfg now token False d = (Inr v, d2)" by simp
    from requireD [OF this] resolve_thins [OF assms(2), of now token] Pair Inr assms(1) show ?thesis
      by (intro that [of v d2]) (auto simp: logout_all_def transaction_def logout_all_work_def Let_def sql_delete_def)
  qed (use Pair assms(1) in \<open>simp add: logout_all_def transaction_def logout_all_work_def\<close>)
qed

text \<open>
  Signing out everywhere ends every session of the person for good: whatever happens later,
  none of the tokens that were open resolves again, unless the very same token is issued
  anew.
\<close>

theorem logout_all_ends_every_session:
  assumes "(any_session_step cfg)\<^sup>*\<^sup>* d0 d" "ad_sessions d0 = []"
    and "logout_all cfg now token d = (Inr (), d1)"
    and "fst (resolve_session cfg now token d) = Some v" "s \<in> set (ad_sessions d)" "as_user s = is_user v"
    and "steps_without cfg (as_hash s) d1 d2" "cf_hash cfg t = as_hash s"
  shows "fst (resolve_session cfg later (Some t) d2) = None"
proof -
  have ok: "sessions_ok cfg d" by (rule reachable_sessions_ok [OF assms(1,2)])
  obtain w and e :: auth_db where w: "fst (resolve_session cfg now token d) = Some w" "thins (ad_sessions d) (ad_sessions e)"
      "ad_sessions d1 = filter (\<lambda>s. as_user s \<noteq> is_user w) (ad_sessions e)"
    using logout_all_result [OF assms(3) ok] by blast
  have "as_hash s \<noteq> as_hash x" if x: "x \<in> set (ad_sessions d1)" for x
  proof
    assume eq: "as_hash s = as_hash x"
    obtain P f where f: "ad_sessions e = map f (filter P (ad_sessions d))" "\<forall>s \<in> set (ad_sessions d). same_session s (f s)"
      using w(2) unfolding thins_def by blast
    have "x \<in> set (map f (filter P (ad_sessions d)))" using x w(3) f(1) by simp
    then obtain y where y: "y \<in> set (ad_sessions d)" "x = f y" by auto
    with f(2) have "same_session y x" by blast
    with eq have "as_hash y = as_hash s" "as_user y = as_user x" by (simp_all add: same_session_def)
    moreover have "inj_on as_hash (set (ad_sessions d))" using ok by (simp add: sessions_ok_def distinct_map)
    ultimately have "as_user x = as_user s" using y(1) assms(5) by (metis inj_onD)
    with x w(1,3) assms(4,6) show False by simp
  qed
  then have "hash_gone (as_hash s) d1" unfolding hash_gone_def list_all_iff by metis
  moreover have "sessions_ok cfg d1" using thins_ok [OF _ ok] logout_all_thins [OF ok, of now token] assms(3) by simp
  ultimately have "hash_gone (as_hash s) d2" using hash_gone_stays [OF assms(7)] by blast
  then show ?thesis using gone_resolves_to_none [of cfg t d2 later] assms(8) by simp
qed

section \<open>Signing in and confirming\<close>

text \<open>
  A session that was just issued resolves to itself, by its token, for as long as the idle
  window lasts.
\<close>

theorem issued_session_resolves:
  assumes "issue_session cfg now token i user label d = (Inr v, d')" "valid_token (Some token)"
    and "now \<le> t" "t < now + cf_idle cfg" "cf_idle cfg \<le> cf_absolute cfg"
  shows "fst (resolve_session cfg t (Some token) d') = Some v"
proof -
  obtain u p where up: "get_user d user = Some u" "get_authority d user = Some p" "ap_status p = StatusActive" "ap_kind p = KindUser"
      "ad_state d = Ready" "i \<notin> as_id ` set (ad_sessions d)" "cf_hash cfg token \<notin> as_hash ` set (ad_sessions d)"
    using assms(1) by (auto simp: issue_session_def split: option.splits if_splits)
  let ?row = "\<lparr>as_id = i, as_user = user, as_hash = cf_hash cfg token, as_created = now, as_seen = now,
      as_expires = now + cf_absolute cfg, as_label = clean_label label, as_epoch = ap_epoch p, as_elevated = Some now, as_revision = 1\<rparr>"
  have d': "d' = audit_event user ''auth.session-created'' i (d\<lparr>ad_sessions := ad_sessions d @ [?row]\<rparr>)"
    and v: "v = \<lparr>is_id = i, is_user = user, is_name = us_name u, is_user_revision = ap_revision p, is_created = now,
        is_expires = now + cf_absolute cfg, is_elevated = Some now\<rparr>"
    using assms(1) up by (auto simp: issue_session_def Let_def)
  have same: "get_user d' x = get_user d x" "get_authority d' x = get_authority d x" "ad_state d' = Ready" for x
    using up(5) by (simp_all add: d' audit_event_def get_user_def get_authority_def)
  have "us_id u = user" using up(1) by (auto simp: get_user_def dest: sql_get_SomeD)
  then have view: "live_view cfg t d' ?row = Some v"
    using up(1-4) assms(3-5) by (simp add: live_view_def same v)
  have "sql_get (\<lambda>s. as_hash s = cf_hash cfg token \<and> live_view cfg t d' s \<noteq> None) (ad_sessions d) = None"
    unfolding sql_get_None using up(7) by (metis imageI)
  then have "session_of_token cfg t token d' = Some ?row"
    using view by (simp add: session_of_token_def sql_get_append, simp add: d' sql_get_append)
  then show ?thesis using assms(2) same(3) view by (simp add: resolve_session_def)
qed

text \<open>
  An elevated action is let through only for an owner with a credential and a session that
  was confirmed less than five minutes ago and not in the future.
\<close>

theorem elevated_needs_fresh_confirmation:
  assumes "require_session cfg now token True d = (Inr v, d')"
  shows "\<not> ad_local d' \<and> fst (resolve_session cfg now token d) = Some v
    \<and> (\<exists>t. is_elevated v = Some t \<and> t \<le> now \<and> now < t + elevation_ms)"
  using assms by (auto simp: require_session_def Let_def split: prod.splits option.splits if_splits)

text \<open>
  Revoking a session removes exactly the row of that id, which is the actor's own and has
  the expected revision.
\<close>

theorem revoke_reaches_own_session:
  assumes "(any_session_step cfg)\<^sup>*\<^sup>* d0 d" "ad_sessions d0 = []"
    and "revoke_session cfg now token i expected d = (Inr (), d')"
  shows "\<exists>v d1 s. fst (resolve_session cfg now token d) = Some v \<and> d1 = snd (resolve_session cfg now token d)
    \<and> s \<in> set (ad_sessions d1) \<and> as_id s = i \<and> as_user s = is_user v \<and> as_revision s = expected
    \<and> ad_sessions d' = filter (\<lambda>x. as_id x \<noteq> i) (ad_sessions d1)"
proof -
  have ok: "sessions_ok cfg d" by (rule reachable_sessions_ok [OF assms(1,2)])
  obtain r d1 where r: "require_session cfg now token False d = (r, d1)" by (cases "require_session cfg now token False d")
  then obtain v where v: "r = Inr v" using assms(3)
    by (cases r) (auto simp: revoke_session_def transaction_def revoke_work_def split: if_splits)
  from requireD [OF r [unfolded v]] have d1: "fst (resolve_session cfg now token d) = Some v" "d1 = snd (resolve_session cfg now token d)" by simp_all
  then have ok1: "sessions_ok cfg d1" using thins_ok [OF resolve_thins [OF ok] ok] by simp
  from assms(3) r v obtain s where s: "sql_get (\<lambda>s. as_id s = i \<and> as_user s = is_user v) (ad_sessions d1) = Some s" "as_revision s = expected"
      "ad_sessions d' = sql_delete (\<lambda>s. as_id s = i \<and> as_user s = is_user v \<and> as_revision s = expected) (ad_sessions d1)"
    by (auto simp: revoke_session_def transaction_def revoke_work_def Let_def split: option.splits if_splits)
  from sql_get_SomeD [OF s(1)] have mem: "s \<in> set (ad_sessions d1)" "as_id s = i" "as_user s = is_user v" by simp_all
  have "inj_on as_id (set (ad_sessions d1))" using ok1 by (simp add: sessions_ok_def distinct_map)
  then have "x = s" if "x \<in> set (ad_sessions d1)" "as_id x = i" for x using that mem(1,2) by (metis inj_onD)
  then have "ad_sessions d' = filter (\<lambda>x. as_id x \<noteq> i) (ad_sessions d1)"
    unfolding s(3) sql_delete_def using mem(2,3) s(2) by (intro filter_cong) (simp, metis)
  with d1 mem s(2) show ?thesis by blast
qed

section \<open>One person with two sessions\<close>

definition demo_config :: session_config where
  "demo_config = \<lparr>cf_hash = (\<lambda>t. t), cf_idle = 1000, cf_absolute = 5000\<rparr>"

definition demo_accounts :: auth_db where
  "demo_accounts =
     \<lparr>ad_state = Ready, ad_local = False, ad_users = [\<lparr>us_id = ''ann'', us_name = ''Ann''\<rparr>],
      ad_principals = [\<lparr>ap_id = ''ann'', ap_kind = KindUser, ap_status = StatusActive, ap_revision = 1, ap_epoch = 1\<rparr>],
      ad_owners = [''ann''], ad_sessions = [], ad_limits = [], ad_guardrails = [], ad_permissions = [], ad_usage = [],
      ad_events = [], ad_epoch = 1\<rparr>"

definition token_a :: string where
  "token_a = replicate 64 CHR ''a''"

definition token_b :: string where
  "token_b = replicate 64 CHR ''b''"

definition demo_first :: auth_db where
  "demo_first = snd (transaction (issue_session demo_config 10 token_a ''s1'' ''ann'' []) demo_accounts)"

definition demo_second :: auth_db where
  "demo_second = snd (transaction (issue_session demo_config 20 token_b ''s2'' ''ann'' []) demo_first)"

lemma demo_second_reached: "(any_session_step demo_config)\<^sup>*\<^sup>* demo_accounts demo_second"
proof -
  have step: "any_session_step demo_config d (snd (transaction (issue_session demo_config now t i u l) d))" for d now t i u l
    by (rule exI) (rule session_step.issues)
  show ?thesis unfolding demo_second_def demo_first_def
    by (rule rtranclp.rtrancl_into_rtrancl [OF r_into_rtranclp]) (rule step)+
qed

lemma demo_accounts_empty: "ad_sessions demo_accounts = []"
  by (simp add: demo_accounts_def)

lemma demo_resolved: "map_option is_id (fst (resolve_session demo_config 30 (Some token_b) demo_second)) = Some ''s2''"
  by code_simp

theorem session_lifetime_bounded_witness: "\<exists>v. fst (resolve_session demo_config 30 (Some token_b) demo_second) = Some v \<and> 30 < is_created v + 5000"
proof -
  obtain v where v: "fst (resolve_session demo_config 30 (Some token_b) demo_second) = Some v" using demo_resolved by auto
  from session_lifetime_bounded [OF demo_second_reached demo_accounts_empty v] v show ?thesis by (simp add: demo_config_def)
qed

text \<open>The first session is gone after the second one signed out everywhere.\<close>

theorem logout_all_ends_every_session_witness:
  "fst (resolve_session demo_config 50 (Some token_a) (snd (logout_all demo_config 30 (Some token_b) demo_second))) = None"
proof -
  let ?r = "logout_all demo_config 30 (Some token_b) demo_second"
  obtain v where v: "fst (resolve_session demo_config 30 (Some token_b) demo_second) = Some v" using demo_resolved by auto
  have "map_option is_user (fst (resolve_session demo_config 30 (Some token_b) demo_second)) = Some ''ann''" by code_simp
  then have user: "is_user v = ''ann''" using v by simp
  have "fst ?r = Inr ()" by code_simp
  then have r: "?r = (Inr (), snd ?r)" by (metis prod.collapse)
  have "map as_hash (ad_sessions demo_second) = [token_a, token_b]" "map as_user (ad_sessions demo_second) = [''ann'', ''ann'']" by code_simp+
  then obtain s where s: "s \<in> set (ad_sessions demo_second)" "as_hash s = token_a" "as_user s = ''ann''"
    by (cases "ad_sessions demo_second") auto
  show ?thesis
    by (rule logout_all_ends_every_session [OF demo_second_reached demo_accounts_empty r v s(1)])
      (simp_all add: s user demo_config_def)
qed

theorem issued_session_resolves_witness: "map_option is_name (fst (resolve_session demo_config 30 (Some token_a) demo_first)) = Some ''Ann''"
proof -
  have "case issue_session demo_config 10 token_a ''s1'' ''ann'' [] demo_accounts of (Inr v, d) \<Rightarrow> is_name v = ''Ann'' | _ \<Rightarrow> False" by code_simp
  then obtain v d where i: "issue_session demo_config 10 token_a ''s1'' ''ann'' [] demo_accounts = (Inr v, d)" "is_name v = ''Ann''"
    by (auto split: prod.splits sum.splits)
  have "valid_token (Some token_a)" by code_simp
  moreover have "d = demo_first" using i(1) by (simp add: demo_first_def transaction_def)
  ultimately show ?thesis using issued_session_resolves [OF i(1), of 30] i(2) by (simp add: demo_config_def)
qed

theorem elevated_needs_fresh_confirmation_witness:
  "\<exists>v t. fst (require_session demo_config 40 (Some token_a) True demo_first) = Inr v \<and> is_elevated v = Some t \<and> t \<le> 40"
proof -
  have "case fst (require_session demo_config 40 (Some token_a) True demo_first) of Inr v \<Rightarrow> True | _ \<Rightarrow> False" by code_simp
  then obtain v where v: "fst (require_session demo_config 40 (Some token_a) True demo_first) = Inr v" by (auto split: sum.splits)
  then have "require_session demo_config 40 (Some token_a) True demo_first = (Inr v, snd (require_session demo_config 40 (Some token_a) True demo_first))"
    by (metis prod.collapse)
  from elevated_needs_fresh_confirmation [OF this] v show ?thesis by blast
qed

theorem revoke_reaches_own_session_witness:
  "map as_id (ad_sessions (snd (revoke_session demo_config 30 (Some token_b) ''s1'' 1 demo_second))) = [''s2'']"
proof -
  let ?r = "revoke_session demo_config 30 (Some token_b) ''s1'' 1 demo_second"
  have "fst ?r = Inr ()" by code_simp
  then have r: "?r = (Inr (), snd ?r)" by (metis prod.collapse)
  have "map as_id (ad_sessions (snd (resolve_session demo_config 30 (Some token_b) demo_second))) = [''s1'', ''s2'']" by code_simp
  moreover have "map as_id (filter (\<lambda>x. as_id x \<noteq> ''s1'') xs) = filter (\<lambda>i. i \<noteq> ''s1'') (map as_id xs)" for xs :: "session_row list"
    by (induction xs) auto
  ultimately show ?thesis
    using revoke_reaches_own_session [OF demo_second_reached demo_accounts_empty r] by (elim exE conjE) simp
qed

end
