(* ===== verification/IdentitySettings.thy ===== *)
theory IdentitySettings
  imports IdentitySessions
begin

text \<open>
  What the instance owner sets for an account: limits and their daily counters
  (packages/identity/src/limits.ts), guardrails (guardrails.ts) and permissions
  (permissions.ts). The cache of limits and permissions lives in the process: a transaction
  that throws puts the tables back and leaves the cache as it is.
\<close>

section \<open>Shared pieces\<close>

definition is_instance_owner :: "string \<Rightarrow> auth_db \<Rightarrow> bool" where
  "is_instance_owner user d \<longleftrightarrow> user \<in> set (ad_owners d)"

definition is_user_account :: "string \<Rightarrow> auth_db \<Rightarrow> bool" where
  "is_user_account user d \<longleftrightarrow> get_user d user \<noteq> None \<and>
     (case get_authority d user of None \<Rightarrow> False | Some p \<Rightarrow> ap_kind p = KindUser)"

record 'v stored_setting =
  ss_user :: string
  ss_value :: 'v
  ss_revision :: int

definition is_expected_revision :: "int \<Rightarrow> bool" where
  "is_expected_revision n \<longleftrightarrow> 0 \<le> n \<and> n \<le> max_safe_integer"

definition setting_of :: "string \<Rightarrow> setting_row list \<Rightarrow> setting_row option" where
  "setting_of user rows = sql_get (\<lambda>r. st_user r = user) rows"

text \<open>\<open>INSERT ... ON CONFLICT(user_id) DO UPDATE\<close>.\<close>

definition put_setting :: "string \<Rightarrow> stored_json option \<Rightarrow> string \<Rightarrow> int \<Rightarrow> setting_row list \<Rightarrow> setting_row list" where
  "put_setting user json actor now rows =
     (if setting_of user rows = None
      then rows @ [\<lparr>st_user = user, st_json = json, st_revision = 1, st_updated_by = actor, st_updated_at = now\<rparr>]
      else sql_update (\<lambda>r. st_user r = user)
             (\<lambda>r. r\<lparr>st_json := json, st_revision := st_revision r + 1, st_updated_by := actor, st_updated_at := now\<rparr>) rows)"

text \<open>The checks every \<open>set\<close> makes on the actor and the account.\<close>

definition setting_actor :: "session_config \<Rightarrow> int \<Rightarrow> string option \<Rightarrow> string \<Rightarrow> auth_db \<Rightarrow> (control_error + identity_session) \<times> auth_db" where
  "setting_actor cfg now token user d =
     (case require_session cfg now token True d of
        (Inl e, d1) \<Rightarrow> (Inl e, d1)
      | (Inr actor, d1) \<Rightarrow>
          if \<not> is_instance_owner (is_user actor) d1 then (Inl Forbidden, d1)
          else if \<not> is_user_account user d1 then (Inl NotFound, d1)
          else if is_instance_owner user d1 then (Inl InvalidInput, d1)
          else (Inr actor, d1))"

definition read_allowed :: "session_config \<Rightarrow> int \<Rightarrow> string option \<Rightarrow> string \<Rightarrow> auth_db \<Rightarrow> (control_error + unit) \<times> auth_db" where
  "read_allowed cfg now token user d =
     (case require_session cfg now token False d of
        (Inl e, d1) \<Rightarrow> (Inl e, d1)
      | (Inr actor, d1) \<Rightarrow>
          if is_user actor \<noteq> user \<and> \<not> is_instance_owner (is_user actor) d1 then (Inl NotFound, d1)
          else if \<not> is_user_account user d1 then (Inl NotFound, d1)
          else (Inr (), d1))"

section \<open>Guardrails\<close>

definition guard_fail_closed :: json where
  "guard_fail_closed = JObj [(''grants'', JArr []), (''models'', JArr []), (''approvals'', JStr ''none'')]"

definition guardrails_for :: "(json \<Rightarrow> control_error + json) \<Rightarrow> string \<Rightarrow> auth_db \<Rightarrow> json option stored_setting" where
  "guardrails_for canon user d =
     (case setting_of user (ad_guardrails d) of
        None \<Rightarrow> \<lparr>ss_user = user, ss_value = None, ss_revision = 0\<rparr>
      | Some r \<Rightarrow>
          \<lparr>ss_user = user,
           ss_value = (case st_json r of
              None \<Rightarrow> None
            | Some BadText \<Rightarrow> Some guard_fail_closed
            | Some (StoredJson j) \<Rightarrow> (case canon j of Inl _ \<Rightarrow> Some guard_fail_closed | Inr g \<Rightarrow> Some g)),
           ss_revision = st_revision r\<rparr>)"

definition guardrails_get :: "(json \<Rightarrow> control_error + json) \<Rightarrow> session_config \<Rightarrow> int \<Rightarrow> string option \<Rightarrow> string \<Rightarrow> auth_db
    \<Rightarrow> (control_error + json option stored_setting) \<times> auth_db" where
  "guardrails_get canon cfg now token user d =
     (case read_allowed cfg now token user d of
        (Inl e, d1) \<Rightarrow> (Inl e, d1)
      | (Inr _, d1) \<Rightarrow> (Inr (guardrails_for canon user d1), d1))"

definition guardrails_work :: "(json \<Rightarrow> control_error + json) \<Rightarrow> session_config \<Rightarrow> int \<Rightarrow> string option \<Rightarrow> string \<Rightarrow> json option \<Rightarrow> int
    \<Rightarrow> auth_db \<Rightarrow> (control_error + json option stored_setting) \<times> auth_db" where
  "guardrails_work canon cfg now token user guardrails expected d =
     (case setting_actor cfg now token user d of
        (Inl e, d1) \<Rightarrow> (Inl e, d1)
      | (Inr actor, d1) \<Rightarrow>
          if ss_revision (guardrails_for canon user d1) \<noteq> expected then (Inl Conflict, d1)
          else
            (let d2 = audit_event (is_user actor)
                   (if guardrails = None then ''identity.guardrails-removed'' else ''identity.guardrails-updated'') user
                   (bump_epoch (d1\<lparr>ad_guardrails := put_setting user (map_option StoredJson guardrails) (is_user actor) now (ad_guardrails d1)\<rparr>))
             in (Inr (guardrails_for canon user d2), d2)))"

definition guardrails_set :: "(json \<Rightarrow> control_error + json) \<Rightarrow> session_config \<Rightarrow> int \<Rightarrow> string option \<Rightarrow> string \<Rightarrow> json \<Rightarrow> int
    \<Rightarrow> auth_db \<Rightarrow> (control_error + json option stored_setting) \<times> auth_db" where
  "guardrails_set canon cfg now token user raw expected d =
     (if \<not> is_expected_revision expected then (Inl InvalidInput, d)
      else
        (case (if raw = JNull then Inr None else map_sum id Some (canon raw)) of
           Inl e \<Rightarrow> (Inl e, d)
         | Inr guardrails \<Rightarrow> transaction (guardrails_work canon cfg now token user guardrails expected) d))"

section \<open>Permissions\<close>

type_synonym 'v cached = "(string, 'v stored_setting) jsmap \<times> auth_db"

definition read_permissions :: "(json \<Rightarrow> control_error + string list) \<Rightarrow> string \<Rightarrow> auth_db \<Rightarrow> string list stored_setting" where
  "read_permissions canon user d =
     (case setting_of user (ad_permissions d) of
        None \<Rightarrow> \<lparr>ss_user = user, ss_value = [], ss_revision = 0\<rparr>
      | Some r \<Rightarrow>
          \<lparr>ss_user = user,
           ss_value = (case st_json r of
              Some (StoredJson j) \<Rightarrow> (case canon j of Inl _ \<Rightarrow> [] | Inr ps \<Rightarrow> ps)
            | _ \<Rightarrow> []),
           ss_revision = st_revision r\<rparr>)"

text \<open>A lookup with the per-account cache; \<open>read\<close> goes to the table.\<close>

definition cached_for :: "(string \<Rightarrow> auth_db \<Rightarrow> 'v stored_setting) \<Rightarrow> string \<Rightarrow> 'v cached \<Rightarrow> 'v stored_setting \<times> 'v cached" where
  "cached_for read user s =
     (case jm_get (fst s) user of
        Some v \<Rightarrow> (v, s)
      | None \<Rightarrow> (let v = read user (snd s) in (v, (jm_set user v (fst s), snd s))))"

definition permissions_for :: "(json \<Rightarrow> control_error + string list) \<Rightarrow> string \<Rightarrow> string list cached \<Rightarrow> string list stored_setting \<times> string list cached" where
  "permissions_for canon = cached_for (read_permissions canon)"

definition has_permission :: "(json \<Rightarrow> control_error + string list) \<Rightarrow> string \<Rightarrow> string \<Rightarrow> string list cached \<Rightarrow> bool \<times> string list cached" where
  "has_permission canon user permission s =
     (if is_instance_owner user (snd s) then (True, s)
      else (let (v, s1) = permissions_for canon user s in (permission \<in> set (ss_value v), s1)))"

definition permissions_get :: "(json \<Rightarrow> control_error + string list) \<Rightarrow> session_config \<Rightarrow> int \<Rightarrow> string option \<Rightarrow> string \<Rightarrow> string list cached
    \<Rightarrow> (control_error + string list stored_setting) \<times> string list cached" where
  "permissions_get canon cfg now token user s =
     (case read_allowed cfg now token user (snd s) of
        (Inl e, d1) \<Rightarrow> (Inl e, (fst s, d1))
      | (Inr _, d1) \<Rightarrow> (let (v, s1) = permissions_for canon user (fst s, d1) in (Inr v, s1)))"

definition permissions_work :: "(json \<Rightarrow> control_error + string list) \<Rightarrow> session_config \<Rightarrow> int \<Rightarrow> string option \<Rightarrow> string \<Rightarrow> string list \<Rightarrow> int
    \<Rightarrow> string list cached \<Rightarrow> (control_error + string list stored_setting) \<times> string list cached" where
  "permissions_work canon cfg now token user permissions expected s =
     (case setting_actor cfg now token user (snd s) of
        (Inl e, d1) \<Rightarrow> (Inl e, (fst s, d1))
      | (Inr actor, d1) \<Rightarrow>
          (let (current, s2) = permissions_for canon user (jm_delete user (fst s), d1) in
           if ss_revision current \<noteq> expected then (Inl Conflict, s2)
           else
             (let d3 = audit_event (is_user actor) ''identity.permissions-updated'' user
                    (bump_epoch (d1\<lparr>ad_permissions :=
                       put_setting user (Some (StoredJson (JArr (map JStr permissions)))) (is_user actor) now (ad_permissions d1)\<rparr>));
                  (v, s4) = permissions_for canon user (jm_delete user (fst s2), d3)
              in (Inr v, s4))))"

text \<open>A throw rolls the tables back, the cache stays.\<close>

definition keeping_cache :: "('c \<times> 'd \<Rightarrow> ('e + 'a) \<times> ('c \<times> 'd)) \<Rightarrow> 'c \<times> 'd \<Rightarrow> ('e + 'a) \<times> ('c \<times> 'd)" where
  "keeping_cache work s =
     (case work s of
        (Inr x, s') \<Rightarrow> (Inr x, s')
      | (Inl e, s') \<Rightarrow> (Inl e, (fst s', snd s)))"

definition permissions_set :: "(json \<Rightarrow> control_error + string list) \<Rightarrow> session_config \<Rightarrow> int \<Rightarrow> string option \<Rightarrow> string \<Rightarrow> json \<Rightarrow> int
    \<Rightarrow> string list cached \<Rightarrow> (control_error + string list stored_setting) \<times> string list cached" where
  "permissions_set canon cfg now token user raw expected s =
     (if \<not> is_expected_revision expected then (Inl InvalidInput, s)
      else
        (case canon raw of
           Inl e \<Rightarrow> (Inl e, s)
         | Inr permissions \<Rightarrow> keeping_cache (permissions_work canon cfg now token user permissions expected) s))"

section \<open>Limits\<close>

definition limits_fail_closed :: json where
  "limits_fail_closed = JObj [(''projects'', JArr []), (''harnesses'', JArr []), (''messagesPerDay'', JNum 0), (''chatsPerDay'', JNum 0)]"

definition read_limits :: "(json \<Rightarrow> control_error + json option) \<Rightarrow> string \<Rightarrow> auth_db \<Rightarrow> json option stored_setting" where
  "read_limits canon user d =
     (case setting_of user (ad_limits d) of
        None \<Rightarrow> \<lparr>ss_user = user, ss_value = None, ss_revision = 0\<rparr>
      | Some r \<Rightarrow>
          \<lparr>ss_user = user,
           ss_value = (case st_json r of
              None \<Rightarrow> None
            | Some BadText \<Rightarrow> Some limits_fail_closed
            | Some (StoredJson j) \<Rightarrow> (case canon j of Inl _ \<Rightarrow> Some limits_fail_closed | Inr v \<Rightarrow> v)),
           ss_revision = st_revision r\<rparr>)"

definition limits_for :: "(json \<Rightarrow> control_error + json option) \<Rightarrow> string \<Rightarrow> json option cached \<Rightarrow> json option stored_setting \<times> json option cached" where
  "limits_for canon = cached_for (read_limits canon)"

datatype usage_metric = Messages | Chats

fun metric_count :: "usage_metric \<Rightarrow> usage_row \<Rightarrow> int" where
  "metric_count Messages r = uu_messages r"
| "metric_count Chats r = uu_chats r"

fun add_metric :: "usage_metric \<Rightarrow> int \<Rightarrow> usage_row \<Rightarrow> usage_row" where
  "add_metric Messages n r = r\<lparr>uu_messages := uu_messages r + n\<rparr>"
| "add_metric Chats n r = r\<lparr>uu_chats := uu_chats r + n\<rparr>"

definition no_usage :: "string \<Rightarrow> string \<Rightarrow> usage_row" where
  "no_usage user day = \<lparr>uu_user = user, uu_day = day, uu_messages = 0, uu_chats = 0\<rparr>"

definition usage_on :: "string \<Rightarrow> string \<Rightarrow> auth_db \<Rightarrow> usage_row" where
  "usage_on user day d = nullish (sql_get (\<lambda>r. uu_user r = user \<and> uu_day r = day) (ad_usage d)) (no_usage user day)"

definition limits_get :: "(json \<Rightarrow> control_error + json option) \<Rightarrow> session_config \<Rightarrow> int \<Rightarrow> string \<Rightarrow> string option \<Rightarrow> string \<Rightarrow> json option cached
    \<Rightarrow> (control_error + json option stored_setting \<times> usage_row) \<times> json option cached" where
  "limits_get canon cfg now day token user s =
     (case read_allowed cfg now token user (snd s) of
        (Inl e, d1) \<Rightarrow> (Inl e, (fst s, d1))
      | (Inr _, d1) \<Rightarrow> (let (v, s1) = limits_for canon user (fst s, d1) in (Inr (v, usage_on user day d1), s1)))"

definition limits_work :: "(json \<Rightarrow> control_error + json option) \<Rightarrow> session_config \<Rightarrow> int \<Rightarrow> string option \<Rightarrow> string \<Rightarrow> json option \<Rightarrow> int
    \<Rightarrow> json option cached \<Rightarrow> (control_error + json option stored_setting) \<times> json option cached" where
  "limits_work canon cfg now token user limits expected s =
     (case setting_actor cfg now token user (snd s) of
        (Inl e, d1) \<Rightarrow> (Inl e, (fst s, d1))
      | (Inr actor, d1) \<Rightarrow>
          (let (current, s2) = limits_for canon user (jm_delete user (fst s), d1) in
           if ss_revision current \<noteq> expected then (Inl Conflict, s2)
           else
             (let d3 = audit_event (is_user actor) (if limits = None then ''identity.limits-removed'' else ''identity.limits-updated'') user
                    (bump_epoch (d1\<lparr>ad_limits := put_setting user (map_option StoredJson limits) (is_user actor) now (ad_limits d1)\<rparr>));
                  (v, s4) = limits_for canon user (jm_delete user (fst s2), d3)
              in (Inr v, s4))))"

definition limits_set :: "(json \<Rightarrow> control_error + json option) \<Rightarrow> session_config \<Rightarrow> int \<Rightarrow> string \<Rightarrow> string option \<Rightarrow> string \<Rightarrow> json \<Rightarrow> int
    \<Rightarrow> json option cached \<Rightarrow> (control_error + json option stored_setting \<times> usage_row) \<times> json option cached" where
  "limits_set canon cfg now day token user raw expected s =
     (if \<not> is_expected_revision expected then (Inl InvalidInput, s)
      else
        (case (if raw = JNull then Inr None else canon raw) of
           Inl e \<Rightarrow> (Inl e, s)
         | Inr limits \<Rightarrow>
             (case keeping_cache (limits_work canon cfg now token user limits expected) s of
                (Inl e, s1) \<Rightarrow> (Inl e, s1)
              | (Inr stored, s1) \<Rightarrow> (Inr (stored, usage_on user day (snd s1)), s1))))"

text \<open>Counts a use of \<open>day\<close>; a principal without a users row is never counted.\<close>

definition count_use :: "string \<Rightarrow> usage_metric \<Rightarrow> string \<Rightarrow> auth_db \<Rightarrow> auth_db" where
  "count_use user metric day d =
     (if get_user d user = None then d
      else if sql_get (\<lambda>r. uu_user r = user \<and> uu_day r = day) (ad_usage d) = None
      then d\<lparr>ad_usage := ad_usage d @ [add_metric metric 1 (no_usage user day)]\<rparr>
      else d\<lparr>ad_usage := sql_update (\<lambda>r. uu_user r = user \<and> uu_day r = day) (add_metric metric 1) (ad_usage d)\<rparr>)"

definition consume_usage :: "string \<Rightarrow> usage_metric \<Rightarrow> int option \<Rightarrow> string \<Rightarrow> auth_db \<Rightarrow> string option \<times> auth_db" where
  "consume_usage user metric cap day d =
     (if (case cap of None \<Rightarrow> False | Some c \<Rightarrow> metric_count metric (usage_on user day d) \<ge> c) then (None, d)
      else (Some day, count_use user metric day d))"

definition refund_usage :: "string \<Rightarrow> usage_metric \<Rightarrow> string \<Rightarrow> auth_db \<Rightarrow> auth_db" where
  "refund_usage user metric day d =
     d\<lparr>ad_usage := sql_update (\<lambda>r. uu_user r = user \<and> uu_day r = day \<and> metric_count metric r > 0) (add_metric metric (- 1)) (ad_usage d)\<rparr>"

end
