(* ===== verification/Revisions.thy ===== *)
theory Revisions
  imports Prelude
begin

text \<open>
  Stores that compare the revision a writer has seen with the one that is stored: the contract
  of the account settings and of the monitoring policies, and what follows from it alone.
\<close>

section \<open>The contract of a revisioned setting\<close>

text \<open>
  \<open>current\<close> is what is stored, \<open>put a u e\<close> a write for the key \<open>u\<close> by someone who saw
  revision \<open>e\<close>. A write either stores its value under the next revision and leaves the other keys alone,
  or changes nothing.
\<close>

locale revisioned =
  fixes rev_of :: "'v \<Rightarrow> int"
    and current :: "string \<Rightarrow> 's \<Rightarrow> 'v"
    and put :: "'a \<Rightarrow> string \<Rightarrow> int \<Rightarrow> 's \<Rightarrow> (control_error + 'v) \<times> 's"
    and inv :: "'s \<Rightarrow> bool"
    and room :: "int \<Rightarrow> bool" \<comment> \<open>the revisions that have a successor\<close>
  assumes put_done: "inv s \<Longrightarrow> room e \<Longrightarrow> put a u e s = (Inr v, s') \<Longrightarrow>
      inv s' \<and> v = current u s' \<and> rev_of (current u s) = e \<and> rev_of v = e + 1 \<and> (\<forall>w. w \<noteq> u \<longrightarrow> current w s' = current w s)"
    and put_refused: "inv s \<Longrightarrow> put a u e s = (Inl x, s') \<Longrightarrow> inv s' \<and> (\<forall>w. current w s' = current w s)"
begin

lemma stale_put_refused:
  assumes "inv s" "put a u e s = (Inr v, s1)" "room e"
  shows "\<exists>x. fst (put b u e s1) = Inl x"
proof (rule ccontr)
  assume "\<nexists>x. fst (put b u e s1) = Inl x"
  then obtain v' s2 where "put b u e s1 = (Inr v', s2)" by (cases "put b u e s1"; cases "fst (put b u e s1)") auto
  with put_done [OF assms(1,3,2)] put_done [of s1 e b u v' s2] assms(3) show False by auto
qed

definition puts :: "'s \<Rightarrow> 's \<Rightarrow> bool" where
  "puts s s' \<longleftrightarrow> (\<exists>a u e. room e \<and> s' = snd (put a u e s))"

lemma puts_step:
  assumes "puts s s'" "inv s"
  shows "inv s' \<and> (rev_of (current u s) \<le> rev_of (current u s'))
    \<and> (rev_of (current u s') = rev_of (current u s) \<longrightarrow> current u s' = current u s)"
proof -
  obtain a w e where s': "room e" "s' = snd (put a w e s)" using assms(1) by (auto simp: puts_def)
  show ?thesis
  proof (cases "fst (put a w e s)")
    case (Inl x)
    with s' have "put a w e s = (Inl x, s')" by (simp add: prod_eq_iff)
    from put_refused [OF assms(2) this] show ?thesis by simp
  next
    case (Inr v)
    with s' have "put a w e s = (Inr v, s')" by (simp add: prod_eq_iff)
    from put_done [OF assms(2) s'(1) this] show ?thesis by (cases "u = w") auto
  qed
qed

text \<open>Along any writes the revision of a key says which value it has.\<close>

lemma revision_names_value:
  assumes "puts\<^sup>*\<^sup>* s s'" "inv s"
  shows "inv s' \<and> rev_of (current u s) \<le> rev_of (current u s')
    \<and> (rev_of (current u s') = rev_of (current u s) \<longrightarrow> current u s' = current u s)"
  using assms(1)
proof (induction rule: rtranclp_induct)
  case (step x y)
  then show ?case using puts_step [of x y u] by auto
qed (use assms(2) in simp)

end

end
