(* ===== verification/IdentityRules.thy ===== *)
theory IdentityRules
  imports IdentitySettings Revisions
begin

text \<open>
  The settings of an account: only a freshly confirmed instance owner changes them, a writer
  that missed a change is refused, the caches answer what the tables say, a damaged row
  closes everything, and counted uses stay within their cap.
\<close>

section \<open>Tables that an authorization leaves alone\<close>

lemma resolve_tables [simp]:
  "ad_limits (snd (resolve_session cfg now token d)) = ad_limits d"
  "ad_guardrails (snd (resolve_session cfg now token d)) = ad_guardrails d"
  "ad_permissions (snd (resolve_session cfg now token d)) = ad_permissions d"
  "ad_owners (snd (resolve_session cfg now token d)) = ad_owners d"
  by (simp_all add: resolve_session_def touch_session_def split: option.split)

lemma require_tables:
  assumes "require_session cfg now token e d = (r, d1)"
  shows "ad_limits d1 = ad_limits d \<and> ad_guardrails d1 = ad_guardrails d \<and> ad_permissions d1 = ad_permissions d \<and> ad_owners d1 = ad_owners d"
  using require_snd [of cfg now token e d] assms by simp

lemma setting_actor_tables:
  assumes "setting_actor cfg now token user d = (r, d1)"
  shows "ad_limits d1 = ad_limits d \<and> ad_guardrails d1 = ad_guardrails d \<and> ad_permissions d1 = ad_permissions d \<and> ad_owners d1 = ad_owners d"
  using assms require_tables [of cfg now token True d] by (auto simp: setting_actor_def split: prod.splits sum.splits if_splits)

lemma read_allowed_tables:
  assumes "read_allowed cfg now token user d = (r, d1)"
  shows "ad_limits d1 = ad_limits d \<and> ad_guardrails d1 = ad_guardrails d \<and> ad_permissions d1 = ad_permissions d \<and> ad_owners d1 = ad_owners d"
  using assms require_tables [of cfg now token False d] by (auto simp: read_allowed_def split: prod.splits sum.splits if_splits)

lemma event_tables [simp]:
  "ad_limits (audit_event a b c d) = ad_limits d" "ad_guardrails (audit_event a b c d) = ad_guardrails d"
  "ad_permissions (audit_event a b c d) = ad_permissions d"
  "ad_limits (bump_epoch d) = ad_limits d" "ad_guardrails (bump_epoch d) = ad_guardrails d" "ad_permissions (bump_epoch d) = ad_permissions d"
  by (simp_all add: audit_event_def bump_epoch_def)

lemma setting_of_put:
  "setting_of w (put_setting u j a n rows) =
     (if w = u then Some \<lparr>st_user = u, st_json = j, st_revision = (case setting_of u rows of None \<Rightarrow> 0 | Some r \<Rightarrow> st_revision r) + 1,
        st_updated_by = a, st_updated_at = n\<rparr>
      else setting_of w rows)"
proof (cases "setting_of u rows")
  case None
  then show ?thesis by (auto simp: put_setting_def setting_of_def sql_get_append split: option.splits)
next
  case (Some r)
  then have "st_user r = u" by (auto simp: setting_of_def dest: sql_get_SomeD)
  let ?f = "\<lambda>r. r\<lparr>st_json := j, st_revision := st_revision r + 1, st_updated_by := a, st_updated_at := n\<rparr>"
  have "setting_of w (sql_update (\<lambda>r. st_user r = u) ?f rows) = map_option (\<lambda>r. if st_user r = u then ?f r else r) (setting_of w rows)"
    unfolding setting_of_def by (rule sql_get_update) simp
  then have put: "setting_of w (put_setting u j a n rows) = map_option (\<lambda>r. if st_user r = u then ?f r else r) (setting_of w rows)"
    using Some by (simp add: put_setting_def)
  show ?thesis
  proof (cases "w = u")
    case True
    have "?f r = \<lparr>st_user = u, st_json = j, st_revision = st_revision r + 1, st_updated_by = a, st_updated_at = n\<rparr>"
      using \<open>st_user r = u\<close> by (cases r) simp
    then show ?thesis using True put Some \<open>st_user r = u\<close> by simp
  next
    case False
    have "st_user x \<noteq> u" if "setting_of w rows = Some x" for x
      using that False by (auto simp: setting_of_def dest: sql_get_SomeD)
    then show ?thesis using False put by (cases "setting_of w rows") simp_all
  qed
qed

section \<open>The three services\<close>

lemma guardrails_for_put:
  "guardrails_for canon w (d\<lparr>ad_guardrails := put_setting u j a n (ad_guardrails d)\<rparr>) =
     (if w = u then guardrails_for canon u (d\<lparr>ad_guardrails := put_setting u j a n (ad_guardrails d)\<rparr>) else guardrails_for canon w d)"
  by (simp add: guardrails_for_def setting_of_put)

lemma guardrails_tables: "ad_guardrails d' = ad_guardrails d \<Longrightarrow> guardrails_for canon u d' = guardrails_for canon u d"
  by (simp add: guardrails_for_def)

lemma guardrails_revision: "ss_revision (guardrails_for canon u d) = (case setting_of u (ad_guardrails d) of None \<Rightarrow> 0 | Some r \<Rightarrow> st_revision r)"
  by (simp add: guardrails_for_def split: option.split)

lemma guardrails_set_done:
  assumes "guardrails_set canon cfg now token user raw expected d = (Inr v, d')"
  obtains actor d1 g where "setting_actor cfg now token user d = (Inr actor, d1)" "ss_revision (guardrails_for canon user d) = expected"
    "ad_guardrails d' = put_setting user (map_option StoredJson g) (is_user actor) now (ad_guardrails d)" "v = guardrails_for canon user d'"
proof -
  from assms obtain g where g: "guardrails_work canon cfg now token user g expected d = (Inr v, d')"
    by (auto simp: guardrails_set_def transaction_Inr split: if_splits sum.splits)
  obtain r d1 where r: "setting_actor cfg now token user d = (r, d1)" by (cases "setting_actor cfg now token user d")
  then obtain actor where "r = Inr actor" using g by (cases r) (auto simp: guardrails_work_def)
  then have actor: "setting_actor cfg now token user d = (Inr actor, d1)" using r by simp
  have tables: "ad_guardrails d1 = ad_guardrails d" using setting_actor_tables [OF r] by simp
  have "ss_revision (guardrails_for canon user d1) = expected" using g actor by (simp add: guardrails_work_def split: if_splits)
  moreover from this g actor have "ad_guardrails d' = put_setting user (map_option StoredJson g) (is_user actor) now (ad_guardrails d1)"
      "v = guardrails_for canon user d'"
    by (auto simp: guardrails_work_def Let_def)
  ultimately show ?thesis using that [OF actor] tables guardrails_tables [of d1 d canon user] by simp
qed

interpretation guardrails: revisioned ss_revision "guardrails_for canon" "\<lambda>(cfg, now, token, raw) u e. guardrails_set canon cfg now token u raw e" "\<lambda>_. True" "\<lambda>_. True" for canon
proof
  fix d d' :: auth_db and a :: "session_config \<times> int \<times> string option \<times> json" and u e v
  assume put: "(case a of (cfg, now, token, raw) \<Rightarrow> \<lambda>u e. guardrails_set canon cfg now token u raw e) u e d = (Inr v, d')"
  obtain cfg now token raw where a: "a = (cfg, now, token, raw)" by (cases a)
  from put [unfolded a prod.case] obtain actor :: identity_session and g where g: "ss_revision (guardrails_for canon u d) = e"
      "ad_guardrails d' = put_setting u (map_option StoredJson g) (is_user actor) now (ad_guardrails d)" "v = guardrails_for canon u d'"
    by (elim guardrails_set_done) blast
  then show "True \<and> v = guardrails_for canon u d' \<and> ss_revision (guardrails_for canon u d) = e \<and> ss_revision v = e + 1
      \<and> (\<forall>w. w \<noteq> u \<longrightarrow> guardrails_for canon w d' = guardrails_for canon w d)"
    by (auto simp: guardrails_revision setting_of_put) (simp add: guardrails_for_def setting_of_put)
next
  fix d d' :: auth_db and a :: "session_config \<times> int \<times> string option \<times> json" and u e x
  assume put: "(case a of (cfg, now, token, raw) \<Rightarrow> \<lambda>u e. guardrails_set canon cfg now token u raw e) u e d = (Inl x, d')"
  obtain cfg now token raw where a: "a = (cfg, now, token, raw)" by (cases a)
  from put have "d' = d" unfolding a guardrails_set_def
    by (auto dest: transaction_Inl split: if_splits sum.splits)
  then show "True \<and> (\<forall>w. guardrails_for canon w d' = guardrails_for canon w d)" by simp
qed

subsection \<open>Services with a cache\<close>

text \<open>The cache holds nothing but what the table says.\<close>

definition cache_exact :: "(string \<Rightarrow> auth_db \<Rightarrow> 'v stored_setting) \<Rightarrow> 'v cached \<Rightarrow> bool" where
  "cache_exact read s \<longleftrightarrow> (\<forall>u v. jm_get (fst s) u = Some v \<longrightarrow> v = read u (snd s))"

lemma cached_for_result:
  assumes "cache_exact read s"
  shows "fst (cached_for read u s) = read u (snd s)" "cache_exact read (snd (cached_for read u s))"
    "snd (snd (cached_for read u s)) = snd s"
  using assms by (auto simp: cached_for_def cache_exact_def Let_def store_simps split: option.splits)

lemma cache_exact_delete: "cache_exact read (c, d) \<Longrightarrow> cache_exact read (jm_delete u c, d)"
  by (simp add: cache_exact_def store_simps)

lemma cache_exact_tables:
  "cache_exact read (c, d) \<Longrightarrow> (\<And>u. read u d' = read u d) \<Longrightarrow> cache_exact read (c, d')"
  by (simp add: cache_exact_def)

lemma cache_exact_written:
  "cache_exact read (c, d) \<Longrightarrow> (\<And>w. w \<noteq> u \<Longrightarrow> read w d' = read w d) \<Longrightarrow> cache_exact read (jm_delete u c, d')"
  by (simp add: cache_exact_def store_simps)

lemma permissions_tables: "ad_permissions d' = ad_permissions d \<Longrightarrow> read_permissions canon u d' = read_permissions canon u d"
  by (simp add: read_permissions_def)

lemma limits_tables: "ad_limits d' = ad_limits d \<Longrightarrow> read_limits canon u d' = read_limits canon u d"
  by (simp add: read_limits_def)

lemma permissions_revision: "ss_revision (read_permissions canon u d) = (case setting_of u (ad_permissions d) of None \<Rightarrow> 0 | Some r \<Rightarrow> st_revision r)"
  by (simp add: read_permissions_def split: option.split)

lemma limits_revision: "ss_revision (read_limits canon u d) = (case setting_of u (ad_limits d) of None \<Rightarrow> 0 | Some r \<Rightarrow> st_revision r)"
  by (simp add: read_limits_def split: option.split)

text \<open>
  The part the cached services share: read the current revision past the cache, compare, and
  read what was written. \<open>da\<close> is the database after the authorization, \<open>dw\<close> after the write.
\<close>

lemma cached_write:
  assumes exact: "cache_exact read s" and same: "\<And>u. read u da = read u (snd s)" and other: "\<And>w. w \<noteq> user \<Longrightarrow> read w dw = read w da"
    and "(r, s') = (let (current, s2) = cached_for read user (jm_delete user (fst s), da) in
           if ss_revision current \<noteq> expected then (Inl Conflict, s2)
           else (let (v, s4) = cached_for read user (jm_delete user (fst s2), dw) in (Inr v, s4)))"
  shows "case r of
      Inl e \<Rightarrow> cache_exact read (fst s', snd s)
    | Inr v \<Rightarrow> cache_exact read s' \<and> v = read user dw \<and> ss_revision (read user (snd s)) = expected \<and> snd s' = dw"
proof -
  have ex1: "cache_exact read (jm_delete user (fst s), da)"
    using exact cache_exact_tables [of read "fst s" "snd s" da] same by (intro cache_exact_delete) simp
  obtain current s2 where c: "cached_for read user (jm_delete user (fst s), da) = (current, s2)"
    by (cases "cached_for read user (jm_delete user (fst s), da)")
  with cached_for_result [OF ex1, of user] have s2: "current = read user (snd s)" "cache_exact read (fst s2, da)" "snd s2 = da"
    by (auto simp: same)
  show ?thesis
  proof (cases "ss_revision current = expected")
    case False
    then have "r = Inl Conflict" "s' = s2" using assms(4) c by simp_all
    moreover have "cache_exact read (fst s2, snd s)" using cache_exact_tables [OF s2(2)] same by simp
    ultimately show ?thesis by simp
  next
    case True
    note ex3 = cache_exact_written [OF s2(2) other, of user]
    have "(r, s') = (Inr (fst (cached_for read user (jm_delete user (fst s2), dw))), snd (cached_for read user (jm_delete user (fst s2), dw)))"
      using assms(4) c True by (simp split: prod.splits)
    with cached_for_result [OF ex3, of user] True s2(1) show ?thesis by simp
  qed
qed

lemma permissions_work_result:
  assumes "cache_exact (read_permissions canon) s" "permissions_work canon cfg now token user ps expected s = (r, s')"
  shows "case r of
      Inl e \<Rightarrow> cache_exact (read_permissions canon) (fst s', snd s)
    | Inr v \<Rightarrow> cache_exact (read_permissions canon) s' \<and> v = read_permissions canon user (snd s')
        \<and> ss_revision (read_permissions canon user (snd s)) = expected
        \<and> (\<exists>actor d1. setting_actor cfg now token user (snd s) = (Inr actor, d1)
             \<and> ad_permissions (snd s') = put_setting user (Some (StoredJson (JArr (map JStr ps)))) (is_user actor) now (ad_permissions (snd s)))"
proof -
  obtain q d1 where q: "setting_actor cfg now token user (snd s) = (q, d1)" by (cases "setting_actor cfg now token user (snd s)")
  note tables = setting_actor_tables [OF q]
  show ?thesis
  proof (cases q)
    case (Inl e)
    with q assms show ?thesis by (auto simp: permissions_work_def)
  next
    case (Inr actor)
    let ?d3 = "audit_event (is_user actor) ''identity.permissions-updated'' user
        (bump_epoch (d1\<lparr>ad_permissions := put_setting user (Some (StoredJson (JArr (map JStr ps)))) (is_user actor) now (ad_permissions d1)\<rparr>))"
    have "case r of
        Inl e \<Rightarrow> cache_exact (read_permissions canon) (fst s', snd s)
      | Inr v \<Rightarrow> cache_exact (read_permissions canon) s' \<and> v = read_permissions canon user ?d3
          \<and> ss_revision (read_permissions canon user (snd s)) = expected \<and> snd s' = ?d3"
      by (rule cached_write [where da = d1, OF assms(1)])
        (use tables assms(2) [unfolded permissions_work_def permissions_for_def q Inr prod.case sum.case] in
          \<open>simp_all add: read_permissions_def setting_of_put Let_def cong: if_cong\<close>)
    with tables q Inr show ?thesis by (cases r) auto
  qed
qed

lemma limits_work_result:
  assumes "cache_exact (read_limits canon) s" "limits_work canon cfg now token user ls expected s = (r, s')"
  shows "case r of
      Inl e \<Rightarrow> cache_exact (read_limits canon) (fst s', snd s)
    | Inr v \<Rightarrow> cache_exact (read_limits canon) s' \<and> v = read_limits canon user (snd s')
        \<and> ss_revision (read_limits canon user (snd s)) = expected
        \<and> (\<exists>actor d1. setting_actor cfg now token user (snd s) = (Inr actor, d1)
             \<and> ad_limits (snd s') = put_setting user (map_option StoredJson ls) (is_user actor) now (ad_limits (snd s)))"
proof -
  obtain q d1 where q: "setting_actor cfg now token user (snd s) = (q, d1)" by (cases "setting_actor cfg now token user (snd s)")
  note tables = setting_actor_tables [OF q]
  show ?thesis
  proof (cases q)
    case (Inl e)
    with q assms show ?thesis by (auto simp: limits_work_def)
  next
    case (Inr actor)
    let ?d3 = "audit_event (is_user actor) (if ls = None then ''identity.limits-removed'' else ''identity.limits-updated'') user
        (bump_epoch (d1\<lparr>ad_limits := put_setting user (map_option StoredJson ls) (is_user actor) now (ad_limits d1)\<rparr>))"
    have "case r of
        Inl e \<Rightarrow> cache_exact (read_limits canon) (fst s', snd s)
      | Inr v \<Rightarrow> cache_exact (read_limits canon) s' \<and> v = read_limits canon user ?d3
          \<and> ss_revision (read_limits canon user (snd s)) = expected \<and> snd s' = ?d3"
      by (rule cached_write [where da = d1, OF assms(1)])
        (use tables assms(2) [unfolded limits_work_def limits_for_def q Inr prod.case sum.case] in
          \<open>simp_all add: read_limits_def setting_of_put Let_def cong: if_cong\<close>)
    with tables q Inr show ?thesis by (cases r) auto
  qed
qed

lemma permissions_set_result:
  assumes "cache_exact (read_permissions canon) s" "permissions_set canon cfg now token user raw expected s = (r, s')"
  shows "cache_exact (read_permissions canon) s' \<and> (case r of
      Inl e \<Rightarrow> snd s' = snd s
    | Inr v \<Rightarrow> v = read_permissions canon user (snd s') \<and> ss_revision (read_permissions canon user (snd s)) = expected
        \<and> (\<exists>actor d1 j. setting_actor cfg now token user (snd s) = (Inr actor, d1)
             \<and> ad_permissions (snd s') = put_setting user j (is_user actor) now (ad_permissions (snd s))))"
proof (cases "is_expected_revision expected \<and> (\<exists>ps. canon raw = Inr ps)")
  case True
  then obtain ps where ps: "canon raw = Inr ps" by blast
  obtain q t where q: "permissions_work canon cfg now token user ps expected s = (q, t)"
    by (cases "permissions_work canon cfg now token user ps expected s")
  from permissions_work_result [OF assms(1) q] q assms(2) True ps show ?thesis
    by (cases q) (auto simp: permissions_set_def keeping_cache_def)
qed (use assms in \<open>auto simp: permissions_set_def split: sum.splits if_splits\<close>)

lemma limits_set_result:
  assumes "cache_exact (read_limits canon) s" "limits_set canon cfg now day token user raw expected s = (r, s')"
  shows "cache_exact (read_limits canon) s' \<and> (case r of
      Inl e \<Rightarrow> snd s' = snd s
    | Inr (v, _) \<Rightarrow> v = read_limits canon user (snd s') \<and> ss_revision (read_limits canon user (snd s)) = expected
        \<and> (\<exists>actor d1 j. setting_actor cfg now token user (snd s) = (Inr actor, d1)
             \<and> ad_limits (snd s') = put_setting user j (is_user actor) now (ad_limits (snd s))))"
proof (cases "is_expected_revision expected \<and> (\<exists>ls. (if raw = JNull then Inr None else canon raw) = Inr ls)")
  case True
  then obtain ls where ls: "(if raw = JNull then Inr None else canon raw) = Inr ls" by blast
  obtain q t where q: "limits_work canon cfg now token user ls expected s = (q, t)"
    by (cases "limits_work canon cfg now token user ls expected s")
  from limits_work_result [OF assms(1) q] q assms(2) True ls show ?thesis
    by (cases q) (auto simp: limits_set_def keeping_cache_def)
qed (use assms in \<open>auto simp: limits_set_def split: sum.splits if_splits\<close>)

interpretation permissions: revisioned ss_revision "\<lambda>u s. read_permissions canon u (snd s)"
  "\<lambda>(cfg, now, token, raw) u e. permissions_set canon cfg now token u raw e" "cache_exact (read_permissions canon)" "\<lambda>_. True" for canon
proof
  fix s s' :: "string list cached" and a :: "session_config \<times> int \<times> string option \<times> json" and u e v
  assume ok: "cache_exact (read_permissions canon) s"
    and put: "(case a of (cfg, now, token, raw) \<Rightarrow> \<lambda>u e. permissions_set canon cfg now token u raw e) u e s = (Inr v, s')"
  obtain cfg now token raw where a: "a = (cfg, now, token, raw)" by (cases a)
  from permissions_set_result [OF ok put [unfolded a prod.case]] obtain who j where w: "cache_exact (read_permissions canon) s'"
      "v = read_permissions canon u (snd s')" "ss_revision (read_permissions canon u (snd s)) = e"
      "ad_permissions (snd s') = put_setting u j who now (ad_permissions (snd s))"
    by auto
  then show "cache_exact (read_permissions canon) s' \<and> v = read_permissions canon u (snd s')
      \<and> ss_revision (read_permissions canon u (snd s)) = e \<and> ss_revision v = e + 1
      \<and> (\<forall>w. w \<noteq> u \<longrightarrow> read_permissions canon w (snd s') = read_permissions canon w (snd s))"
    by (auto simp: permissions_revision setting_of_put) (simp add: read_permissions_def setting_of_put)
next
  fix s s' :: "string list cached" and a :: "session_config \<times> int \<times> string option \<times> json" and u e x
  assume ok: "cache_exact (read_permissions canon) s"
    and put: "(case a of (cfg, now, token, raw) \<Rightarrow> \<lambda>u e. permissions_set canon cfg now token u raw e) u e s = (Inl x, s')"
  obtain cfg now token raw where a: "a = (cfg, now, token, raw)" by (cases a)
  from permissions_set_result [OF ok put [unfolded a prod.case]]
  show "cache_exact (read_permissions canon) s' \<and> (\<forall>w. read_permissions canon w (snd s') = read_permissions canon w (snd s))" by simp
qed

interpretation limits: revisioned ss_revision "\<lambda>u s. read_limits canon u (snd s)"
  "\<lambda>(cfg, now, day, token, raw) u e s. (case limits_set canon cfg now day token u raw e s of (r, t) \<Rightarrow> (map_sum id fst r, t))"
  "cache_exact (read_limits canon)" "\<lambda>_. True" for canon
proof
  fix s s' :: "json option cached" and a :: "session_config \<times> int \<times> string \<times> string option \<times> json" and u e v
  assume ok: "cache_exact (read_limits canon) s"
    and put: "(case a of (cfg, now, day, token, raw) \<Rightarrow> \<lambda>u e s. (case limits_set canon cfg now day token u raw e s of (r, t) \<Rightarrow> (map_sum id fst r, t))) u e s = (Inr v, s')"
  obtain cfg now day token raw where a: "a = (cfg, now, day, token, raw)" by (cases a)
  obtain c where c: "limits_set canon cfg now day token u raw e s = (Inr (v, c), s')"
    using put unfolding a by (auto split: prod.splits)
  from limits_set_result [OF ok c] obtain who j where w: "cache_exact (read_limits canon) s'"
      "v = read_limits canon u (snd s')" "ss_revision (read_limits canon u (snd s)) = e"
      "ad_limits (snd s') = put_setting u j who now (ad_limits (snd s))"
    by auto
  then show "cache_exact (read_limits canon) s' \<and> v = read_limits canon u (snd s')
      \<and> ss_revision (read_limits canon u (snd s)) = e \<and> ss_revision v = e + 1
      \<and> (\<forall>w. w \<noteq> u \<longrightarrow> read_limits canon w (snd s') = read_limits canon w (snd s))"
    by (auto simp: limits_revision setting_of_put) (simp add: read_limits_def setting_of_put)
next
  fix s s' :: "json option cached" and a :: "session_config \<times> int \<times> string \<times> string option \<times> json" and u e x
  assume ok: "cache_exact (read_limits canon) s"
    and put: "(case a of (cfg, now, day, token, raw) \<Rightarrow> \<lambda>u e s. (case limits_set canon cfg now day token u raw e s of (r, t) \<Rightarrow> (map_sum id fst r, t))) u e s = (Inl x, s')"
  obtain cfg now day token raw where a: "a = (cfg, now, day, token, raw)" by (cases a)
  obtain y where c: "limits_set canon cfg now day token u raw e s = (Inl y, s')"
    using put unfolding a by (auto split: prod.splits)
  from limits_set_result [OF ok c]
  show "cache_exact (read_limits canon) s' \<and> (\<forall>w. read_limits canon w (snd s') = read_limits canon w (snd s))" by simp
qed

section \<open>What the settings promise\<close>

text \<open>Any use of the two cached services; other operations leave their tables alone.\<close>

inductive permission_step :: "(json \<Rightarrow> control_error + string list) \<Rightarrow> string list cached \<Rightarrow> string list cached \<Rightarrow> bool" for canon where
  checks: "permission_step canon s (snd (has_permission canon user p s))"
| gets: "permission_step canon s (snd (permissions_get canon cfg now token user s))"
| sets: "permission_step canon s (snd (permissions_set canon cfg now token user raw expected s))"
| others: "ad_permissions d = ad_permissions (snd s) \<Longrightarrow> permission_step canon s (fst s, d)"

inductive limits_step :: "(json \<Rightarrow> control_error + json option) \<Rightarrow> json option cached \<Rightarrow> json option cached \<Rightarrow> bool" for canon where
  lookups: "limits_step canon s (snd (limits_for canon user s))"
| gets: "limits_step canon s (snd (limits_get canon cfg now day token user s))"
| sets: "limits_step canon s (snd (limits_set canon cfg now day token user raw expected s))"
| others: "ad_limits d = ad_limits (snd s) \<Longrightarrow> limits_step canon s (fst s, d)"

lemma read_then_lookup:
  assumes "cache_exact read s" "read_allowed cfg now token user (snd s) = (r, d1)" "\<And>u. read u d1 = read u (snd s)"
  shows "cache_exact read (fst s, d1)" "cache_exact read (snd (cached_for read user (fst s, d1)))"
proof -
  show "cache_exact read (fst s, d1)" using assms(1,3) cache_exact_tables [of read "fst s" "snd s" d1] by simp
  then show "cache_exact read (snd (cached_for read user (fst s, d1)))" by (rule cached_for_result(2))
qed

interpretation permission_cache: machine "permission_step canon" "cache_exact (read_permissions canon)" for canon
proof
  fix s t assume "permission_step canon s t" and ok: "cache_exact (read_permissions canon) s"
  then show "cache_exact (read_permissions canon) t"
  proof cases
    case (checks user p)
    with ok cached_for_result(2) [OF ok, of user] show ?thesis
      by (auto simp: has_permission_def permissions_for_def split: prod.splits)
  next
    case (gets cfg now token user)
    obtain r d1 where r: "read_allowed cfg now token user (snd s) = (r, d1)" by (cases "read_allowed cfg now token user (snd s)")
    have "read_permissions canon u d1 = read_permissions canon u (snd s)" for u
      using read_allowed_tables [OF r] by (intro permissions_tables) simp
    from read_then_lookup [OF ok r this] gets r show ?thesis
      by (cases r) (auto simp: permissions_get_def permissions_for_def split: prod.splits)
  next
    case (sets cfg now token user raw expected)
    with permissions_set_result [OF ok surjective_pairing] show ?thesis by simp
  next
    case (others d)
    have "read_permissions canon u d = read_permissions canon u (snd s)" for u by (rule permissions_tables) (fact others(2))
    with ok cache_exact_tables [of "read_permissions canon" "fst s" "snd s" d] show ?thesis by (simp add: others(1))
  qed
qed

interpretation limits_cache: machine "limits_step canon" "cache_exact (read_limits canon)" for canon
proof
  fix s t assume "limits_step canon s t" and ok: "cache_exact (read_limits canon) s"
  then show "cache_exact (read_limits canon) t"
  proof cases
    case (lookups user)
    with cached_for_result(2) [OF ok, of user] show ?thesis by (simp add: limits_for_def)
  next
    case (gets cfg now day token user)
    obtain r d1 where r: "read_allowed cfg now token user (snd s) = (r, d1)" by (cases "read_allowed cfg now token user (snd s)")
    have "read_limits canon u d1 = read_limits canon u (snd s)" for u
      using read_allowed_tables [OF r] by (intro limits_tables) simp
    from read_then_lookup [OF ok r this] gets r show ?thesis
      by (cases r) (auto simp: limits_get_def limits_for_def split: prod.splits)
  next
    case (sets cfg now day token user raw expected)
    with limits_set_result [OF ok surjective_pairing] show ?thesis by simp
  next
    case (others d)
    have "read_limits canon u d = read_limits canon u (snd s)" for u by (rule limits_tables) (fact others(2))
    with ok cache_exact_tables [of "read_limits canon" "fst s" "snd s" d] show ?thesis by (simp add: others(1))
  qed
qed

lemma empty_cache_exact: "fst s = [] \<Longrightarrow> cache_exact read s"
  by (simp add: cache_exact_def)

text \<open>
  C33: In every history, and although answers come from a cache that a rolled-back write has
  touched, a permission check answers what the tables say at that moment: an instance owner
  holds every permission, anyone else those of their row, and none of them if the row is
  damaged.
\<close>

theorem permission_check_current:
  assumes "(permission_step canon)\<^sup>*\<^sup>* s0 s" "fst s0 = []"
  shows "fst (has_permission canon user p s) \<longleftrightarrow> is_instance_owner user (snd s) \<or>
    (\<exists>r j ps. setting_of user (ad_permissions (snd s)) = Some r \<and> st_json r = Some (StoredJson j) \<and> canon j = Inr ps \<and> p \<in> set ps)"
proof -
  have "cache_exact (read_permissions canon) s" by (rule permission_cache.reachable_inv [OF assms(1) empty_cache_exact [OF assms(2)]])
  from cached_for_result(1) [OF this, of user] show ?thesis
    by (auto simp: has_permission_def permissions_for_def read_permissions_def split: prod.splits option.splits stored_json.splits sum.splits)
qed

text \<open>
  Of two writers who saw the same limits, only one succeeds: once a write has gone through,
  any other write that expects the same revision is refused, whoever sends it and whenever
  the cache was filled.
\<close>

theorem limits_no_lost_update:
  assumes "(limits_step canon)\<^sup>*\<^sup>* s0 s" "fst s0 = []"
    and "limits_set canon cfg now day token user raw expected s = (Inr v, s1)"
  shows "\<exists>e. fst (limits_set canon cfg' now' day' token' user raw' expected s1) = Inl e"
proof -
  let ?put = "\<lambda>(cfg, now, day, token, raw) u e s. (case limits_set canon cfg now day token u raw e s of (r, t) \<Rightarrow> (map_sum id fst r, t))"
  have ok: "cache_exact (read_limits canon) s" by (rule limits_cache.reachable_inv [OF assms(1) empty_cache_exact [OF assms(2)]])
  have "?put (cfg, now, day, token, raw) user expected s = (Inr (fst v), s1)" using assms(3) by simp
  from limits.stale_put_refused [OF ok this TrueI, of "(cfg', now', day', token', raw')"] show ?thesis
    by (auto split: prod.splits)
qed

text \<open>
  Limits change only by the hand of an instance owner who confirmed their sign-in within the
  last five minutes and has a credential, never for an instance owner, and never for someone
  without an account.
\<close>

theorem limits_set_by_confirmed_owner:
  assumes "limits_set canon cfg now day token user raw expected s = (Inr v, s')"
  shows "\<exists>actor t. fst (resolve_session cfg now token (snd s)) = Some actor \<and> is_instance_owner (is_user actor) (snd s)
    \<and> is_elevated actor = Some t \<and> t \<le> now \<and> now < t + elevation_ms
    \<and> \<not> is_instance_owner user (snd s) \<and> user \<noteq> is_user actor"
proof -
  obtain ls x t where "limits_work canon cfg now token user ls expected s = (Inr x, t)"
    using assms by (auto simp: limits_set_def keeping_cache_def split: if_splits sum.splits prod.splits)
  then obtain actor d1 where a: "setting_actor cfg now token user (snd s) = (Inr actor, d1)"
    by (auto simp: limits_work_def split: prod.splits sum.splits)
  then obtain d2 where r: "require_session cfg now token True (snd s) = (Inr actor, d2)" "d1 = d2"
      "is_instance_owner (is_user actor) d2" "\<not> is_instance_owner user d2"
    by (auto simp: setting_actor_def split: prod.splits sum.splits if_splits)
  moreover have "ad_owners d2 = ad_owners (snd s)" using require_tables [OF r(1)] by simp
  moreover have "fst (resolve_session cfg now token (snd s)) = Some actor" using requireD [OF r(1)] by simp
  moreover have "\<exists>t. is_elevated actor = Some t \<and> t \<le> now \<and> now < t + elevation_ms"
    using r(1) by (auto simp: require_session_def Let_def split: prod.splits option.splits if_splits)
  ultimately show ?thesis by (auto simp: is_instance_owner_def)
qed

text \<open>
  A row that does not parse, or that the normalizer of today refuses, closes everything:
  no project, no harness and no use for limits, no grant, no model and no approval for
  guardrails, no permission.
\<close>

theorem damaged_row_closes:
  assumes "\<And>j. t = StoredJson j \<Longrightarrow> \<exists>e. lcanon j = Inl e" "\<And>j. t = StoredJson j \<Longrightarrow> \<exists>e. gcanon j = Inl e" "\<And>j. t = StoredJson j \<Longrightarrow> \<exists>e. pcanon j = Inl e"
    and "setting_of user (ad_limits d) = Some r" "st_json r = Some t"
    and "setting_of user (ad_guardrails d) = Some q" "st_json q = Some t"
    and "setting_of user (ad_permissions d) = Some w" "st_json w = Some t"
  shows "ss_value (read_limits lcanon user d) = Some limits_fail_closed \<and> ss_value (guardrails_for gcanon user d) = Some guard_fail_closed
    \<and> ss_value (read_permissions pcanon user d) = []"
proof (cases t)
  case BadText
  with assms(4-) show ?thesis by (simp add: read_limits_def guardrails_for_def read_permissions_def)
next
  case (StoredJson j)
  from assms(1-3) [OF this] obtain a b c where "lcanon j = Inl a" "gcanon j = Inl b" "pcanon j = Inl c" by blast
  with StoredJson assms(4-) show ?thesis by (simp add: read_limits_def guardrails_for_def read_permissions_def)
qed

section \<open>Counted uses\<close>

text \<open>
  Uses and refunds of all accounts, in any order; every use of \<open>metric\<close> by \<open>user\<close> is asked for
  under a cap of at most \<open>cap\<close>.
\<close>

inductive usage_step :: "string \<Rightarrow> usage_metric \<Rightarrow> int \<Rightarrow> auth_db \<Rightarrow> auth_db \<Rightarrow> bool" for user metric cap where
  consumes: "(w = user \<and> m = metric \<Longrightarrow> \<exists>k \<le> cap. c = Some k) \<Longrightarrow> usage_step user metric cap d (snd (consume_usage w m c day d))"
| refunds: "usage_step user metric cap d (refund_usage w m day d)"

definition usage_row_ok :: "string \<Rightarrow> usage_metric \<Rightarrow> int \<Rightarrow> usage_row \<Rightarrow> bool" where
  "usage_row_ok user metric cap r \<longleftrightarrow> 0 \<le> uu_messages r \<and> 0 \<le> uu_chats r \<and> (uu_user r = user \<longrightarrow> metric_count metric r \<le> cap)"

definition usage_ok :: "string \<Rightarrow> usage_metric \<Rightarrow> int \<Rightarrow> auth_db \<Rightarrow> bool" where
  "usage_ok user metric cap d \<longleftrightarrow> 0 \<le> cap \<and> distinct (map (\<lambda>r. (uu_user r, uu_day r)) (ad_usage d)) \<and> list_all (usage_row_ok user metric cap) (ad_usage d)"

lemma add_metric_simps [simp]:
  "uu_user (add_metric m n r) = uu_user r" "uu_day (add_metric m n r) = uu_day r"
  "metric_count k (add_metric m n r) = metric_count k r + (if k = m then n else 0)"
  "uu_messages (add_metric m n r) = uu_messages r + (if m = Messages then n else 0)"
  "uu_chats (add_metric m n r) = uu_chats r + (if m = Chats then n else 0)"
  by (cases m; cases k; simp)+

lemma no_usage_simps [simp]: "uu_user (no_usage u t) = u" "uu_day (no_usage u t) = t" "metric_count m (no_usage u t) = 0"
  "uu_messages (no_usage u t) = 0" "uu_chats (no_usage u t) = 0"
  by (cases m; simp add: no_usage_def)+

lemma update_usage_ok:
  assumes "usage_ok user metric cap d" "\<And>r. r \<in> set (ad_usage d) \<Longrightarrow> P r \<Longrightarrow> usage_row_ok user metric cap r \<Longrightarrow> usage_row_ok user metric cap (add_metric m n r)"
  shows "usage_ok user metric cap (d\<lparr>ad_usage := sql_update P (add_metric m n) (ad_usage d)\<rparr>)"
proof -
  have "map (\<lambda>r. (uu_user r, uu_day r)) (sql_update P (add_metric m n) (ad_usage d)) = map (\<lambda>r. (uu_user r, uu_day r)) (ad_usage d)"
    by (simp add: sql_update_def)
  then show ?thesis using assms by (auto simp: usage_ok_def list_all_iff set_sql_update)
qed

interpretation usage: machine "usage_step user metric cap" "usage_ok user metric cap" for user metric cap
proof
  fix d d' assume "usage_step user metric cap d d'" and ok: "usage_ok user metric cap d"
  then show "usage_ok user metric cap d'"
  proof cases
    case (refunds w m day)
    show ?thesis unfolding refunds refund_usage_def
    proof (rule update_usage_ok [OF ok])
      fix r assume "uu_user r = w \<and> uu_day r = day \<and> metric_count m r > 0" "usage_row_ok user metric cap r"
      then show "usage_row_ok user metric cap (add_metric m (- 1) r)" by (cases m; cases metric) (auto simp: usage_row_ok_def)
    qed
  next
    case (consumes w m c day)
    let ?key = "\<lambda>r. uu_user r = w \<and> uu_day r = day"
    show ?thesis
    proof (cases "(case c of None \<Rightarrow> False | Some k \<Rightarrow> metric_count m (usage_on w day d) \<ge> k) \<or> get_user d w = None")
      case True
      with consumes ok show ?thesis by (auto simp: consume_usage_def count_use_def)
    next
      case False
      have below: "metric_count m (usage_on w day d) < cap" if "w = user" "m = metric"
        using consumes(2) that False by auto
      show ?thesis
      proof (cases "sql_get ?key (ad_usage d)")
        case None
        then have "d' = d\<lparr>ad_usage := ad_usage d @ [add_metric m 1 (no_usage w day)]\<rparr>"
          using consumes(1) False by (simp add: consume_usage_def count_use_def)
        moreover have "usage_row_ok user metric cap (add_metric m 1 (no_usage w day))"
          using below None ok by (auto simp: usage_row_ok_def usage_on_def usage_ok_def)
        moreover have "(w, day) \<notin> set (map (\<lambda>r. (uu_user r, uu_day r)) (ad_usage d))"
          using None by (auto simp: sql_get_None)
        ultimately show ?thesis using ok by (simp add: usage_ok_def)
      next
        case (Some x)
        then have d': "d' = d\<lparr>ad_usage := sql_update ?key (add_metric m 1) (ad_usage d)\<rparr>"
          using consumes(1) False by (auto simp: consume_usage_def count_use_def)
        show ?thesis unfolding d'
        proof (rule update_usage_ok [OF ok])
          fix r assume r: "r \<in> set (ad_usage d)" "uu_user r = w \<and> uu_day r = day" "usage_row_ok user metric cap r"
          have "sql_get (\<lambda>x. (uu_user x, uu_day x) = (w, day)) (ad_usage d) = Some r"
            using ok r(1,2) by (subst sql_get_unique_iff) (simp_all add: usage_ok_def)
          then have "usage_on w day d = r" by (simp add: usage_on_def)
          with below r(2,3) show "usage_row_ok user metric cap (add_metric m 1 r)" by (auto simp: usage_row_ok_def)
        qed
      qed
    qed
  qed
qed

text \<open>
  C34: Whatever is used and refunded, in any order and on any day, the counter of an account never
  leaves the range from zero to its cap.
\<close>

theorem usage_within_cap:
  assumes "(usage_step user metric cap)\<^sup>*\<^sup>* d0 d" "ad_usage d0 = []" "0 \<le> cap"
  shows "0 \<le> metric_count metric (usage_on user day d) \<and> metric_count metric (usage_on user day d) \<le> cap"
proof -
  have "usage_ok user metric cap d"
    by (rule usage.reachable_inv [OF assms(1)]) (simp add: usage_ok_def assms(2,3))
  then have "usage_row_ok user metric cap r" if "r \<in> set (ad_usage d)" for r using that by (simp add: usage_ok_def list_all_iff)
  moreover have "usage_on user day d = no_usage user day \<or> usage_on user day d \<in> set (ad_usage d) \<and> uu_user (usage_on user day d) = user"
    by (cases "sql_get (\<lambda>r. uu_user r = user \<and> uu_day r = day) (ad_usage d)") (auto simp: usage_on_def dest: sql_get_SomeD)
  ultimately show ?thesis using assms(3) by (cases metric) (auto simp: usage_row_ok_def)
qed

section \<open>Ann limits Ben\<close>

definition demo_two :: auth_db where
  "demo_two = demo_accounts\<lparr>ad_users := [\<lparr>us_id = ''ann'', us_name = ''Ann''\<rparr>, \<lparr>us_id = ''ben'', us_name = ''Ben''\<rparr>],
     ad_principals := [\<lparr>ap_id = ''ann'', ap_kind = KindUser, ap_status = StatusActive, ap_revision = 1, ap_epoch = 1\<rparr>,
       \<lparr>ap_id = ''ben'', ap_kind = KindUser, ap_status = StatusActive, ap_revision = 1, ap_epoch = 1\<rparr>]\<rparr>"

definition demo_signed_in :: auth_db where
  "demo_signed_in = snd (issue_session demo_config 10 token_a ''s1'' ''ann'' [] demo_two)"

definition keep_json :: "json \<Rightarrow> control_error + json option" where
  "keep_json j = Inr (Some j)"

definition demo_limits_set :: "(control_error + json option stored_setting \<times> usage_row) \<times> json option cached" where
  "demo_limits_set = limits_set keep_json demo_config 20 ''2026-01-01'' (Some token_a) ''ben'' (JNum 3) 0 ([], demo_signed_in)"

lemma demo_limits_done: "\<exists>v. demo_limits_set = (Inr v, snd demo_limits_set)"
proof -
  have "case fst demo_limits_set of Inr v \<Rightarrow> True | Inl _ \<Rightarrow> False" by code_simp
  then obtain v where "fst demo_limits_set = Inr v" by (auto split: sum.splits)
  then show ?thesis by (metis prod.collapse)
qed

theorem limits_no_lost_update_witness:
  "\<exists>e. fst (limits_set keep_json demo_config 21 ''2026-01-01'' (Some token_a) ''ben'' (JNum 9) 0 (snd demo_limits_set)) = Inl e"
proof -
  obtain v where "demo_limits_set = (Inr v, snd demo_limits_set)" using demo_limits_done by blast
  from limits_no_lost_update [OF rtranclp.rtrancl_refl _ this [unfolded demo_limits_set_def], folded demo_limits_set_def] show ?thesis by simp
qed

theorem limits_set_by_confirmed_owner_witness: "\<exists>actor :: identity_session. is_instance_owner (is_user actor) demo_signed_in \<and> ''ben'' \<noteq> is_user actor"
proof -
  obtain v where "demo_limits_set = (Inr v, snd demo_limits_set)" using demo_limits_done by blast
  from limits_set_by_confirmed_owner [OF this [unfolded demo_limits_set_def]] show ?thesis
    unfolding snd_conv by blast
qed

definition strings_of :: "json \<Rightarrow> control_error + string list" where
  "strings_of j = (case j of JArr xs \<Rightarrow> Inr (map (\<lambda>x. case x of JStr s \<Rightarrow> s | _ \<Rightarrow> []) xs) | _ \<Rightarrow> Inl InvalidInput)"

theorem permission_check_current_witness:
  "fst (has_permission strings_of ''ben'' ''invite''
     (snd (permissions_set strings_of demo_config 20 (Some token_a) ''ben'' (JArr [JStr ''invite'']) 0 ([], demo_signed_in))))"
proof -
  let ?s = "snd (permissions_set strings_of demo_config 20 (Some token_a) ''ben'' (JArr [JStr ''invite'']) 0 ([], demo_signed_in))"
  have step: "(permission_step strings_of)\<^sup>*\<^sup>* ([], demo_signed_in) ?s" by (rule r_into_rtranclp) (rule permission_step.sets)
  have "map_option st_json (setting_of ''ben'' (ad_permissions (snd ?s))) = Some (Some (StoredJson (JArr [JStr ''invite''])))" by code_simp
  moreover have "strings_of (JArr [JStr ''invite'']) = Inr [''invite'']" by code_simp
  ultimately show ?thesis using permission_check_current [OF step, of "''ben''" "''invite''"] by auto
qed

theorem damaged_row_closes_witness:
  "ss_value (read_permissions (\<lambda>_. Inr [''invite'']) ''ben'' (demo_two\<lparr>ad_limits := [\<lparr>st_user = ''ben'', st_json = Some BadText, st_revision = 1, st_updated_by = ''ann'', st_updated_at = 0\<rparr>],
      ad_guardrails := [\<lparr>st_user = ''ben'', st_json = Some BadText, st_revision = 1, st_updated_by = ''ann'', st_updated_at = 0\<rparr>],
      ad_permissions := [\<lparr>st_user = ''ben'', st_json = Some BadText, st_revision = 1, st_updated_by = ''ann'', st_updated_at = 0\<rparr>]\<rparr>)) = []"
proof -
  let ?r = "\<lparr>st_user = ''ben'', st_json = Some BadText, st_revision = 1, st_updated_by = ''ann'', st_updated_at = 0\<rparr>"
  show ?thesis
    by (rule damaged_row_closes [where t = BadText and r = ?r and q = ?r and w = ?r and lcanon = keep_json and gcanon = "\<lambda>j. Inr j",
        THEN conjunct2, THEN conjunct2]) (simp_all add: setting_of_def)
qed

text \<open>Three uses under a cap of two, then one given back.\<close>

definition demo_uses :: "auth_db list" where
  "demo_uses =
     (let use = (\<lambda>d. snd (consume_usage ''ben'' Messages (Some 2) ''2026-01-01'' d));
          d1 = use demo_two; d2 = use d1; d3 = use d2; d4 = refund_usage ''ben'' Messages ''2026-01-01'' d3
      in [d1, d2, d3, d4])"

theorem usage_within_cap_witness:
  "map (\<lambda>d. uu_messages (usage_on ''ben'' ''2026-01-01'' d)) demo_uses = [1, 2, 2, 1]
   \<and> metric_count Messages (usage_on ''ben'' ''2026-01-01'' (last demo_uses)) \<le> 2"
proof
  show "map (\<lambda>d. uu_messages (usage_on ''ben'' ''2026-01-01'' d)) demo_uses = [1, 2, 2, 1]" by code_simp
  let ?step = "usage_step ''ben'' Messages 2"
  let ?use = "\<lambda>d. snd (consume_usage ''ben'' Messages (Some 2) ''2026-01-01'' d)"
  have use: "?step d (?use d)" for d by (rule usage_step.consumes) auto
  have "?step\<^sup>*\<^sup>* demo_two (?use (?use (?use demo_two)))"
    by (rule rtranclp.rtrancl_into_rtrancl [OF rtranclp.rtrancl_into_rtrancl [OF r_into_rtranclp]]) (rule use)+
  from rtranclp.rtrancl_into_rtrancl [OF this usage_step.refunds]
  have "?step\<^sup>*\<^sup>* demo_two (last demo_uses)" by (simp add: demo_uses_def Let_def)
  moreover have "ad_usage demo_two = []" by (simp add: demo_two_def demo_accounts_def)
  ultimately show "metric_count Messages (usage_on ''ben'' ''2026-01-01'' (last demo_uses)) \<le> 2"
    using usage_within_cap by fastforce
qed

end
