(* ===== verification/WorkflowGraph.thy ===== *)
theory WorkflowGraph
  imports JsMap "HOL-Library.List_Lexorder" "HOL-Library.Char_ord" "HOL-Library.Multiset"
begin

text \<open>
  The graph of a workflow, packages/workflow/src/graph.ts: the layers that can execute
  concurrently (Kahn's algorithm), the check for a cycle that a new edge would close, and
  the ancestors of a node.
\<close>

section \<open>Graphs\<close>

record workflow_edge =
  we_id :: string
  we_source :: string
  we_target :: string

record workflow_graph =
  wf_nodes :: "string list"
  wf_edges :: "workflow_edge list"

datatype layer_error = NoNodes | BlankNode | DuplicateNode string | UnknownSource string string | UnknownTarget string string
  | SelfLoop string | HasCycle

definition edge_pairs :: "workflow_graph \<Rightarrow> (string \<times> string) set" where
  "edge_pairs g = (\<lambda>e. (we_source e, we_target e)) ` set (wf_edges g)"

section \<open>Layers\<close>

text \<open>The ids in the order of the nodes.\<close>

fun check_nodes :: "string list \<Rightarrow> string list \<Rightarrow> layer_error + string list" where
  "check_nodes ids [] = Inr ids"
| "check_nodes ids (n # ns) =
     (if trim n = [] then Inl BlankNode
      else if n \<in> set ids then Inl (DuplicateNode n)
      else check_nodes (ids @ [n]) ns)"

record kahn =
  kh_seen :: "string list"
  kh_indegree :: "(string, int) jsmap"
  kh_outgoing :: "(string, string list) jsmap"

definition edge_key :: "workflow_edge \<Rightarrow> string" where
  "edge_key e = we_source e @ [char_of (0 :: nat)] @ we_target e"

fun add_edges :: "string list \<Rightarrow> kahn \<Rightarrow> workflow_edge list \<Rightarrow> layer_error + kahn" where
  "add_edges ids k [] = Inr k"
| "add_edges ids k (e # es) =
     (if we_source e \<notin> set ids then Inl (UnknownSource (we_id e) (we_source e))
      else if we_target e \<notin> set ids then Inl (UnknownTarget (we_id e) (we_target e))
      else if we_source e = we_target e then Inl (SelfLoop (we_id e))
      else if edge_key e \<in> set (kh_seen k) then add_edges ids k es
      else add_edges ids
        \<lparr>kh_seen = edge_key e # kh_seen k,
         kh_indegree = jm_set (we_target e) (nullish (jm_get (kh_indegree k) (we_target e)) 0 + 1) (kh_indegree k),
         kh_outgoing = jm_set (we_source e) (nullish (jm_get (kh_outgoing k) (we_source e)) [] @ [we_target e]) (kh_outgoing k)\<rparr> es)"

definition empty_kahn :: "string list \<Rightarrow> kahn" where
  "empty_kahn ids = \<lparr>kh_seen = [], kh_indegree = map (\<lambda>i. (i, 0)) ids, kh_outgoing = map (\<lambda>i. (i, [])) ids\<rparr>"

text \<open>One target of a node that is placed; the next frontier in the order it fills up.\<close>

definition release :: "string \<Rightarrow> (string, int) jsmap \<times> string list \<Rightarrow> (string, int) jsmap \<times> string list" where
  "release target s =
     (let remaining = nullish (jm_get (fst s) target) 0 - 1
      in (jm_set target remaining (fst s), if remaining = 0 then snd s @ [target] else snd s))"

definition release_all :: "(string, string list) jsmap \<Rightarrow> string list \<Rightarrow> (string, int) jsmap \<Rightarrow> (string, int) jsmap \<times> string list" where
  "release_all outgoing frontier indegree =
     fold (\<lambda>i. fold release (nullish (jm_get outgoing i) [])) frontier (indegree, [])"

text \<open>
  The loop over the frontiers. Every frontier places nodes that were not placed before, so as
  many rounds as there are nodes and one are enough.
\<close>

fun frontiers :: "nat \<Rightarrow> (string, string list) jsmap \<Rightarrow> (string, int) jsmap \<Rightarrow> string list \<Rightarrow> string list list" where
  "frontiers 0 outgoing indegree frontier = []"
| "frontiers (Suc fuel) outgoing indegree frontier =
     (if frontier = [] then []
      else
        (let (indegree', next_frontier) = release_all outgoing frontier indegree
         in frontier # frontiers fuel outgoing indegree' (sort next_frontier)))"

definition layerize :: "workflow_graph \<Rightarrow> layer_error + string list list" where
  "layerize g =
     (if wf_nodes g = [] then Inl NoNodes
      else
        (case check_nodes [] (wf_nodes g) of
           Inl e \<Rightarrow> Inl e
         | Inr ids \<Rightarrow>
             (case add_edges ids (empty_kahn ids) (wf_edges g) of
                Inl e \<Rightarrow> Inl e
              | Inr k \<Rightarrow>
                  (let layers = frontiers (Suc (length ids)) (kh_outgoing k) (kh_indegree k)
                         (sort (filter (\<lambda>i. jm_get (kh_indegree k) i = Some 0) ids))
                   in if sum_list (map length layers) = length ids then Inr layers else Inl HasCycle))))"

section \<open>Cycles and ancestors\<close>

definition outgoing_of :: "workflow_graph \<Rightarrow> (string, string list) jsmap" where
  "outgoing_of g =
     fold (\<lambda>e m. jm_set (we_source e) (nullish (jm_get m (we_source e)) [] @ [we_target e]) m) (wf_edges g) []"

text \<open>
  The search takes the last entry of the stack and puts what follows it on top. The list here
  starts at the top.
\<close>

function search :: "(string, string list) jsmap \<Rightarrow> string \<Rightarrow> string list \<Rightarrow> string list \<Rightarrow> bool" where
  "search outgoing source [] seen = False"
| "search outgoing source (i # stack) seen =
     (if i = source then True
      else if i \<in> set seen then search outgoing source stack seen
      else search outgoing source (rev (nullish (jm_get outgoing i) []) @ stack) (i # seen))"
  by pat_completeness auto

text \<open>A node that is seen for the first time either has an entry or adds nothing to the stack.\<close>

lemma unseen_shrinks:
  assumes "i \<notin> set seen"
  shows "length (filter (\<lambda>k. k \<notin> set (i # seen)) ks) \<le> length (filter (\<lambda>k. k \<notin> set seen) ks)"
    "i \<in> set ks \<Longrightarrow> length (filter (\<lambda>k. k \<notin> set (i # seen)) ks) < length (filter (\<lambda>k. k \<notin> set seen) ks)"
proof -
  show "length (filter (\<lambda>k. k \<notin> set (i # seen)) ks) \<le> length (filter (\<lambda>k. k \<notin> set seen) ks)"
    by (induction ks) auto
  have "filter (\<lambda>k. k \<notin> set (i # seen)) ks = filter (\<lambda>k. k \<noteq> i) (filter (\<lambda>k. k \<notin> set seen) ks)"
    by (induction ks) auto
  moreover assume "i \<in> set ks"
  then have "i \<in> set (filter (\<lambda>k. k \<notin> set seen) ks)" using assms by simp
  ultimately show "length (filter (\<lambda>k. k \<notin> set (i # seen)) ks) < length (filter (\<lambda>k. k \<notin> set seen) ks)"
    using length_filter_less [of i "filter (\<lambda>k. k \<notin> set seen) ks" "\<lambda>k. k \<noteq> i"] by simp
qed

lemma no_entry: "i \<notin> set (jm_keys m) \<Longrightarrow> jm_get m i = None"
  by (simp add: jm_get_def jm_keys_def map_of_eq_None_iff)

termination search
proof (relation "measures [\<lambda>(outgoing, source, stack, seen). length (filter (\<lambda>k. k \<notin> set seen) (jm_keys outgoing)),
    \<lambda>(outgoing, source, stack, seen). length stack]")
  fix outgoing :: "(string, string list) jsmap" and source i :: string and stack seen :: "string list"
  assume new: "i \<notin> set seen"
  show "((outgoing, source, rev (nullish (jm_get outgoing i) []) @ stack, i # seen), (outgoing, source, i # stack, seen))
    \<in> measures [\<lambda>(outgoing, source, stack, seen). length (filter (\<lambda>k. k \<notin> set seen) (jm_keys outgoing)),
         \<lambda>(outgoing, source, stack, seen). length stack]"
  proof (cases "i \<in> set (jm_keys outgoing)")
    case True
    with unseen_shrinks(2) [OF new] show ?thesis by simp
  next
    case False
    with unseen_shrinks(1) [OF new, of "jm_keys outgoing"] no_entry [OF False] show ?thesis by (auto simp: le_less)
  qed
qed auto

definition would_cycle :: "workflow_graph \<Rightarrow> string \<Rightarrow> string \<Rightarrow> bool" where
  "would_cycle g source target \<longleftrightarrow> source = target \<or> search (outgoing_of g) source [target] []"

definition upstream :: "workflow_graph \<Rightarrow> string \<Rightarrow> string list" where
  "upstream g i = rev (remdups (rev (map we_source (filter (\<lambda>e. we_target e = i) (wf_edges g)))))"

function collect :: "workflow_graph \<Rightarrow> string list \<Rightarrow> string list \<Rightarrow> string list" where
  "collect g [] found = found"
| "collect g (i # stack) found =
     (if i \<in> set found then collect g stack found
      else collect g (rev (upstream g i) @ stack) (i # found))"
  by pat_completeness auto

termination collect
proof (relation "measures [\<lambda>(g, stack, found). length (filter (\<lambda>k. k \<notin> set found) (map we_target (wf_edges g))),
    \<lambda>(g, stack, found). length stack]")
  fix g :: workflow_graph and i :: string and stack found :: "string list"
  assume new: "i \<notin> set found"
  show "((g, rev (upstream g i) @ stack, i # found), (g, i # stack, found))
    \<in> measures [\<lambda>(g, stack, found). length (filter (\<lambda>k. k \<notin> set found) (map we_target (wf_edges g))),
         \<lambda>(g, stack, found). length stack]"
  proof (cases "i \<in> set (map we_target (wf_edges g))")
    case True
    with unseen_shrinks(2) [OF new True] show ?thesis by simp
  next
    case False
    then have "upstream g i = []" by (auto simp: upstream_def filter_empty_conv)
    with unseen_shrinks(1) [OF new, of "map we_target (wf_edges g)"] show ?thesis by (auto simp: le_less)
  qed
qed auto

definition ancestors :: "workflow_graph \<Rightarrow> string \<Rightarrow> string list" where
  "ancestors g i = collect g (rev (upstream g i)) []"

end
