(* ===== verification/WorkflowLayers.thy ===== *)
theory WorkflowLayers
  imports WorkflowGraph
begin

text \<open>
  The layers of a workflow are exactly the levels of its graph, a cycle is reported exactly
  when there is one, and the two searches decide reachability.
\<close>

section \<open>Searching\<close>

definition successors :: "(string, string list) jsmap \<Rightarrow> (string \<times> string) set" where
  "successors m = {(i, t). t \<in> set (nullish (jm_get m i) [])}"

lemma closed_reaches:
  assumes "\<forall>s \<in> S. \<forall>t. (s, t) \<in> R \<longrightarrow> t \<in> S" "(x, y) \<in> R\<^sup>*" "x \<in> S"
  shows "y \<in> S"
  using assms(2,3,1) by (induction rule: converse_rtrancl_induct) auto

lemma step_back:
  "(\<exists>x \<in> insert i A. (x, y) \<in> R\<^sup>*) \<longleftrightarrow> (\<exists>x \<in> A \<union> {t. (i, t) \<in> R}. (x, y) \<in> R\<^sup>*) \<or> i = y"
  by (auto elim: converse_rtranclE intro: converse_rtrancl_into_rtrancl)

lemma search_correct:
  assumes "\<forall>s \<in> set seen. s \<noteq> source \<and> (\<forall>t. (s, t) \<in> successors m \<longrightarrow> t \<in> set seen \<union> set stack)"
  shows "search m source stack seen \<longleftrightarrow> (\<exists>x \<in> set seen \<union> set stack. (x, source) \<in> (successors m)\<^sup>*)"
  using assms
proof (induction m source stack seen rule: search.induct)
  case (1 m source seen)
  then show ?case using closed_reaches [of "set seen" "successors m" _ source] by auto
next
  case (2 m source i stack seen)
  consider "i = source" | "i \<noteq> source" "i \<in> set seen" | "i \<noteq> source" "i \<notin> set seen" by blast
  then show ?case
  proof cases
    case 1
    then show ?thesis by auto
  next
    case 2
    then have same: "set seen \<union> set (i # stack) = set seen \<union> set stack" by auto
    show ?thesis using 2 "2.IH"(1) [OF 2] "2.prems" unfolding same by simp
  next
    case 3
    let ?new = "nullish (jm_get m i) []"
    have "\<forall>s \<in> set (i # seen). s \<noteq> source \<and> (\<forall>t. (s, t) \<in> successors m \<longrightarrow> t \<in> set (i # seen) \<union> set (rev ?new @ stack))"
      using "2.prems" 3 by (auto simp: successors_def)
    from "2.IH"(2) [OF 3 this] have "search m source (i # stack) seen \<longleftrightarrow>
        (\<exists>x \<in> set (i # seen) \<union> set (rev ?new @ stack). (x, source) \<in> (successors m)\<^sup>*)"
      using 3 by simp
    also have "set (i # seen) \<union> set (rev ?new @ stack) = insert i (set seen \<union> set stack \<union> {t. (i, t) \<in> successors m})"
      by (auto simp: successors_def)
    also have "(\<exists>x \<in> \<dots>. (x, source) \<in> (successors m)\<^sup>*) \<longleftrightarrow> (\<exists>x \<in> insert i (set seen \<union> set stack). (x, source) \<in> (successors m)\<^sup>*)"
      unfolding step_back by auto
    finally show ?thesis by simp
  qed
qed

lemma outgoing_fold:
  "nullish (jm_get (fold (\<lambda>e m. jm_set (we_source e) (nullish (jm_get m (we_source e)) [] @ [we_target e]) m) es m) i) []
   = nullish (jm_get m i) [] @ map we_target (filter (\<lambda>e. we_source e = i) es)"
  by (induction es arbitrary: m) (auto simp: store_simps)

lemma successors_outgoing: "successors (outgoing_of g) = edge_pairs g"
proof -
  have "successors (outgoing_of g) = {(i, t). \<exists>e \<in> set (wf_edges g). we_source e = i \<and> t = we_target e}"
    by (auto simp: successors_def outgoing_of_def outgoing_fold)
  then show ?thesis by (force simp: edge_pairs_def)
qed

text \<open>
  An edge from \<open>source\<close> to \<open>target\<close> would close a cycle exactly when \<open>target\<close> already leads
  to \<open>source\<close>; so a graph without cycles stays without cycles when the answer is no.
\<close>

theorem would_cycle_reachable:
  "(would_cycle g source target \<longleftrightarrow> (target, source) \<in> (edge_pairs g)\<^sup>*)
   \<and> (acyclic (edge_pairs g) \<longrightarrow> acyclic (insert (source, target) (edge_pairs g)) = (\<not> would_cycle g source target))"
proof -
  have "search (outgoing_of g) source [target] [] \<longleftrightarrow> (target, source) \<in> (edge_pairs g)\<^sup>*"
    using search_correct [of "[]" source "outgoing_of g" "[target]"] by (simp add: successors_outgoing)
  then have iff: "would_cycle g source target \<longleftrightarrow> (target, source) \<in> (edge_pairs g)\<^sup>*" by (auto simp: would_cycle_def)
  then show ?thesis by (simp add: acyclic_insert)
qed

lemma collect_correct:
  assumes "\<forall>s \<in> set found. \<forall>t. (t, s) \<in> edge_pairs g \<longrightarrow> t \<in> set found \<union> set stack"
  shows "set (collect g stack found) = {x. \<exists>y \<in> set found \<union> set stack. (x, y) \<in> (edge_pairs g)\<^sup>*}"
  using assms
proof (induction g stack found rule: collect.induct)
  case (1 g found)
  have "x \<in> set found" if "y \<in> set found" "(x, y) \<in> (edge_pairs g)\<^sup>*" for x y
    using closed_reaches [of "set found" "(edge_pairs g)\<inverse>" y x] 1 that by (simp add: rtrancl_converse)
  then show ?case by auto
next
  case (2 g i stack found)
  show ?case
  proof (cases "i \<in> set found")
    case True
    then have same: "set found \<union> set (i # stack) = set found \<union> set stack" by auto
    show ?thesis using True "2.IH"(1) [OF True] "2.prems" unfolding same by simp
  next
    case False
    have up: "set (upstream g i) = {t. (t, i) \<in> edge_pairs g}" by (auto simp: upstream_def edge_pairs_def)
    then have "\<forall>s \<in> set (i # found). \<forall>t. (t, s) \<in> edge_pairs g \<longrightarrow> t \<in> set (i # found) \<union> set (rev (upstream g i) @ stack)"
      using "2.prems" by auto
    from "2.IH"(2) [OF False this] have "set (collect g (i # stack) found) =
        {x. \<exists>y \<in> insert i (set found \<union> set stack \<union> {t. (t, i) \<in> edge_pairs g}). (x, y) \<in> (edge_pairs g)\<^sup>*}"
      using False up by (simp add: Un_ac)
    also have "\<dots> = {x. \<exists>y \<in> insert i (set found \<union> set stack). (x, y) \<in> (edge_pairs g)\<^sup>*}"
      using rtrancl_into_rtrancl by fastforce
    finally show ?thesis by simp
  qed
qed

text \<open>
  The ancestors of a node are the nodes that lead to it by one edge or more; the node itself
  is among them exactly when it lies on a cycle.
\<close>

theorem ancestors_reachable: "set (ancestors g i) = {x. (x, i) \<in> (edge_pairs g)\<^sup>+}"
proof -
  have "set (upstream g i) = {t. (t, i) \<in> edge_pairs g}" by (auto simp: upstream_def edge_pairs_def)
  then have "set (ancestors g i) = {x. \<exists>y. (y, i) \<in> edge_pairs g \<and> (x, y) \<in> (edge_pairs g)\<^sup>*}"
    using collect_correct [of "[]" g "rev (upstream g i)"] by (auto simp: ancestors_def)
  then show ?thesis unfolding trancl_unfold_right by blast
qed

section \<open>Reading the graph\<close>

lemma check_nodes_ok:
  "check_nodes ids ns = Inr r \<Longrightarrow> distinct ids \<Longrightarrow> r = ids @ ns \<and> distinct r"
proof (induction ns arbitrary: ids)
  case (Cons n ns)
  then have "check_nodes (ids @ [n]) ns = Inr r" "distinct (ids @ [n])" by (auto split: if_splits)
  from Cons.IH [OF this] show ?case by auto
qed simp

definition plain_ids :: "string list \<Rightarrow> bool" where
  "plain_ids ids \<longleftrightarrow> list_all (\<lambda>i. char_of (0 :: nat) \<notin> set i) ids"

lemma edge_key_inj:
  assumes "char_of (0 :: nat) \<notin> set (we_source e)" "char_of (0 :: nat) \<notin> set (we_source f)" "edge_key e = edge_key f"
  shows "we_source e = we_source f \<and> we_target e = we_target f"
proof -
  let ?z = "char_of (0 :: nat) :: char"
  have "takeWhile (\<lambda>c. c \<noteq> ?z) (a @ [?z] @ b) = a" if "?z \<notin> set a" for a b
    using that by (induction a) auto
  from this [OF assms(1), of "we_target e"] this [OF assms(2), of "we_target f"] assms(3)
  have "we_source e = we_source f" by (simp add: edge_key_def)
  with assms(3) show ?thesis by (simp add: edge_key_def)
qed

text \<open>\<open>ps\<close> are the pairs counted so far, each once.\<close>

definition counts :: "string list \<Rightarrow> (string \<times> string) list \<Rightarrow> kahn \<Rightarrow> bool" where
  "counts ids ps k \<longleftrightarrow> distinct ps \<and> set (kh_seen k) = (\<lambda>(s, t). s @ [char_of (0 :: nat)] @ t) ` set ps
     \<and> (\<forall>i \<in> set ids. jm_get (kh_indegree k) i = Some (int (length (filter (\<lambda>p. snd p = i) ps)))
          \<and> jm_get (kh_outgoing k) i = Some (map snd (filter (\<lambda>p. fst p = i) ps)))"

lemma counts_empty: "counts ids [] (empty_kahn ids)"
proof -
  have "map_of (map (\<lambda>i. (i, c)) ids) i = Some c" if "i \<in> set ids" for i and c :: int
    using that by (induction ids) auto
  moreover have "map_of (map (\<lambda>i. (i, c)) ids) i = Some c" if "i \<in> set ids" for i and c :: "string list"
    using that by (induction ids) auto
  ultimately show ?thesis by (simp add: counts_def empty_kahn_def jm_get_def)
qed

lemma add_edges_counts:
  assumes "plain_ids ids" "counts ids ps k" "set ps \<subseteq> set ids \<times> set ids" "add_edges ids k es = Inr k'"
  shows "\<exists>ps'. counts ids ps' k' \<and> set ps' = set ps \<union> (\<lambda>e. (we_source e, we_target e)) ` set es
    \<and> (\<forall>e \<in> set es. we_source e \<in> set ids \<and> we_target e \<in> set ids \<and> we_source e \<noteq> we_target e)"
  using assms(2-)
proof (induction es arbitrary: ps k)
  case (Cons e es)
  let ?p = "(we_source e, we_target e)"
  from Cons.prems(3) have e: "we_source e \<in> set ids" "we_target e \<in> set ids" "we_source e \<noteq> we_target e"
    by (auto split: if_splits)
  have key: "edge_key e \<in> set (kh_seen k) \<longleftrightarrow> ?p \<in> set ps"
  proof
    assume "edge_key e \<in> set (kh_seen k)"
    then have "edge_key e \<in> (\<lambda>(s, t). s @ [char_of (0 :: nat)] @ t) ` set ps" using Cons.prems(1) by (simp add: counts_def)
    then obtain s t where st: "(s, t) \<in> set ps" "edge_key e = s @ [char_of (0 :: nat)] @ t"
      by (elim imageE) (simp split: prod.splits)
    have "s \<in> set ids" using st(1) Cons.prems(2) by blast
    with e(1) assms(1) have "char_of (0 :: nat) \<notin> set s" "char_of (0 :: nat) \<notin> set (we_source e)"
      unfolding plain_ids_def list_all_iff by blast+
    moreover have "edge_key e = edge_key \<lparr>we_id = [], we_source = s, we_target = t\<rparr>" unfolding st(2) by (simp add: edge_key_def)
    ultimately have "we_source e = s" "we_target e = t"
      using edge_key_inj [of e "\<lparr>we_id = [], we_source = s, we_target = t\<rparr>"] by simp_all
    with st(1) show "?p \<in> set ps" by simp
  next
    assume "?p \<in> set ps"
    then have "edge_key e \<in> (\<lambda>(s, t). s @ [char_of (0 :: nat)] @ t) ` set ps"
      by (rule rev_image_eqI) (simp add: edge_key_def)
    then show "edge_key e \<in> set (kh_seen k)" using Cons.prems(1) by (simp add: counts_def)
  qed
  show ?case
  proof (cases "?p \<in> set ps")
    case True
    then have "add_edges ids k es = Inr k'" using Cons.prems(3) e key by simp
    from Cons.IH [OF Cons.prems(1,2) this] True e show ?thesis by (auto simp: insert_absorb)
  next
    case False
    let ?k = "\<lparr>kh_seen = edge_key e # kh_seen k,
         kh_indegree = jm_set (we_target e) (nullish (jm_get (kh_indegree k) (we_target e)) 0 + 1) (kh_indegree k),
         kh_outgoing = jm_set (we_source e) (nullish (jm_get (kh_outgoing k) (we_source e)) [] @ [we_target e]) (kh_outgoing k)\<rparr>"
    have "add_edges ids ?k es = Inr k'" using Cons.prems(3) e key False by simp
    moreover have "counts ids (ps @ [?p]) ?k"
      using Cons.prems(1) False e by (auto simp: counts_def store_simps edge_key_def)
    moreover have "set (ps @ [?p]) \<subseteq> set ids \<times> set ids" using Cons.prems(2) e by simp
    ultimately show ?thesis using Cons.IH [of "ps @ [?p]" ?k] e by auto
  qed
qed auto

section \<open>One round\<close>

definition degree :: "(string, int) jsmap \<Rightarrow> string \<Rightarrow> int" where
  "degree m i = nullish (jm_get m i) 0"

lemma release_fold:
  assumes "\<forall>v \<in> set ts. int (count_list ts v) \<le> degree m v"
  shows "\<exists>m' news. fold release ts (m, nx) = (m', nx @ news)
    \<and> (\<forall>v. degree m' v = degree m v - int (count_list ts v)) \<and> distinct news
    \<and> set news = {v \<in> set ts. degree m v = int (count_list ts v)}"
  using assms
proof (induction ts arbitrary: m nx)
  case (Cons t ts)
  let ?m = "jm_set t (degree m t - 1) m"
  let ?n = "if degree m t - 1 = 0 then [t] else []"
  have deg: "degree ?m v = (if v = t then degree m t - 1 else degree m v)" for v by (simp add: degree_def store_simps)
  have "\<forall>v \<in> set ts. int (count_list ts v) \<le> degree ?m v" using Cons.prems by (auto simp: deg split: if_splits)
  from Cons.IH [OF this, of "nx @ ?n"] obtain m' news where IH: "fold release ts (?m, nx @ ?n) = (m', (nx @ ?n) @ news)"
      "\<forall>v. degree m' v = degree ?m v - int (count_list ts v)" "distinct news"
      "set news = {v \<in> set ts. degree ?m v = int (count_list ts v)}"
    by blast
  have first: "release t (m, nx) = (?m, nx @ ?n)" by (simp add: release_def Let_def degree_def)
  have "fold release (t # ts) (m, nx) = (m', nx @ (?n @ news))" using IH(1) first by simp
  moreover have "\<forall>v. degree m' v = degree m v - int (count_list (t # ts) v)" using IH(2) by (simp add: deg)
  moreover have none: "t \<notin> set news" if "degree m t = 1"
  proof
    assume "t \<in> set news"
    then have "t \<in> set ts" "degree ?m t = int (count_list ts t)" unfolding IH(4) by simp_all
    with deg [of t] that show False by (simp add: count_list_0_iff)
  qed
  then have "distinct (?n @ news)" using IH(3) by auto
  moreover have "set (?n @ news) = {v \<in> set (t # ts). degree m v = int (count_list (t # ts) v)}"
  proof (cases "t \<in> set ts")
    case True
    then have "count_list ts t \<noteq> 0" by (simp add: count_list_0_iff)
    then show ?thesis using True Cons.prems by (auto simp: IH(4) deg)
  next
    case False
    then have "count_list ts t = 0" by (simp add: count_list_0_iff)
    then show ?thesis using False by (auto simp: IH(4) deg)
  qed
  ultimately show ?case by blast
qed simp

lemma release_all_fold:
  "release_all outgoing frontier m = fold release (concat (map (\<lambda>i. nullish (jm_get outgoing i) []) frontier)) (m, [])"
proof -
  have "fold (\<lambda>i. fold release (f i)) xs s = fold release (concat (map f xs)) s" for f xs s
    by (induction xs arbitrary: s) simp_all
  then show ?thesis by (simp add: release_all_def)
qed

text \<open>How often a node is released by a frontier: once for every predecessor in it.\<close>

lemma count_pairs:
  assumes "distinct ps" "distinct frontier"
  shows "count_list (concat (map (\<lambda>i. map snd (filter (\<lambda>p. fst p = i) ps)) frontier)) v = card {s \<in> set frontier. (s, v) \<in> set ps}"
  using assms(2)
proof (induction frontier)
  case (Cons i frontier)
  have "count_list (map snd (filter (\<lambda>p. fst p = i) ps)) v = (if (i, v) \<in> set ps then 1 else 0)"
    using assms(1) by (induction ps) auto
  moreover have "{s \<in> set (i # frontier). (s, v) \<in> set ps} = (if (i, v) \<in> set ps then insert i {s \<in> set frontier. (s, v) \<in> set ps} else {s \<in> set frontier. (s, v) \<in> set ps})"
    by auto
  ultimately show ?case using Cons by simp
qed simp

section \<open>The levels of a graph\<close>

text \<open>
  The reference: a layer holds, in order, every node that is not placed and all of whose
  predecessors are; the last layer is the one after which no such node is left.
\<close>

definition ready :: "string set \<Rightarrow> (string \<times> string) set \<Rightarrow> string set \<Rightarrow> string set" where
  "ready ids E P = {v \<in> ids - P. \<forall>s. (s, v) \<in> E \<longrightarrow> s \<in> P}"

fun levels :: "string set \<Rightarrow> (string \<times> string) set \<Rightarrow> string set \<Rightarrow> string list list \<Rightarrow> bool" where
  "levels ids E P [] \<longleftrightarrow> ready ids E P = {}"
| "levels ids E P (l # ls) \<longleftrightarrow> l \<noteq> [] \<and> l = sorted_list_of_set (ready ids E P) \<and> levels ids E (P \<union> set l) ls"

definition degrees_ok :: "string set \<Rightarrow> (string \<times> string) set \<Rightarrow> string set \<Rightarrow> (string, int) jsmap \<Rightarrow> bool" where
  "degrees_ok ids E P m \<longleftrightarrow> P \<subseteq> ids \<and> (\<forall>v \<in> P. \<forall>s. (s, v) \<in> E \<longrightarrow> s \<in> P)
     \<and> (\<forall>v \<in> ids - P. degree m v = int (card ({s. (s, v) \<in> E} - P)))"

lemma round:
  assumes k: "counts ids ps k" and E: "set ps = E" "E \<subseteq> set ids \<times> set ids"
    and ok: "degrees_ok (set ids) E P m" and F: "set frontier = ready (set ids) E P" "distinct frontier"
    and res: "release_all (kh_outgoing k) frontier m = (m', next_frontier)"
  shows "degrees_ok (set ids) E (P \<union> set frontier) m' \<and> distinct next_frontier
    \<and> set next_frontier = ready (set ids) E (P \<union> set frontier)"
proof -
  let ?pre = "\<lambda>v. {s. (s, v) \<in> E}"
  let ?Q = "P \<union> set frontier"
  let ?ts = "concat (map (\<lambda>i. nullish (jm_get (kh_outgoing k) i) []) frontier)"
  have fin: "finite (?pre v)" for v
    by (rule finite_subset [of _ "set ids"]) (use E(2) in auto)
  have "?ts = concat (map (\<lambda>i. map snd (filter (\<lambda>p. fst p = i) ps)) frontier)"
    using k F(1) by (intro arg_cong [of _ _ concat] map_cong) (auto simp: counts_def ready_def)
  then have count: "count_list ?ts v = card (?pre v \<inter> set frontier)" for v
    using count_pairs [of ps frontier v] k F(2) E(1) by (simp add: counts_def Int_def conj_commute)
  have disj: "set frontier \<inter> P = {}" using F(1) by (auto simp: ready_def)
  have target: "v \<in> set ids - ?Q" if "v \<in> set ?ts" for v
  proof -
    have "count_list ?ts v \<noteq> 0" using that by (simp add: count_list_0_iff)
    then have "?pre v \<inter> set frontier \<noteq> {}" unfolding count by auto
    then obtain s where s: "(s, v) \<in> E" "s \<in> set frontier" by blast
    then have "s \<notin> P" "v \<in> set ids" using disj E(2) by auto
    with s(1) show ?thesis using ok F(1) by (auto simp: degrees_ok_def ready_def)
  qed
  have bound: "\<forall>v \<in> set ?ts. int (count_list ?ts v) \<le> degree m v"
  proof
    fix v assume "v \<in> set ?ts"
    then have "degree m v = int (card (?pre v - P))" using target ok by (auto simp: degrees_ok_def)
    moreover have "card (?pre v \<inter> set frontier) \<le> card (?pre v - P)"
      using disj fin by (intro card_mono) auto
    ultimately show "int (count_list ?ts v) \<le> degree m v" by (simp add: count)
  qed
  from release_fold [OF bound, of "[]"] res obtain news where r: "next_frontier = news" "distinct news"
      "\<forall>v. degree m' v = degree m v - int (count_list ?ts v)" "set news = {v \<in> set ?ts. degree m v = int (count_list ?ts v)}"
    by (auto simp: release_all_fold)
  have deg: "degree m' v = int (card (?pre v - ?Q))" if "v \<in> set ids - ?Q" for v
  proof -
    have "?pre v - P = (?pre v - ?Q) \<union> (?pre v \<inter> set frontier)" using disj by auto
    then have "card (?pre v - P) = card (?pre v - ?Q) + card (?pre v \<inter> set frontier)"
      using fin by (metis (no_types, lifting) Diff_disjoint Int_Diff Int_commute Un_Diff_Int card_Un_disjoint finite_Diff finite_Int inf_sup_absorb Diff_Un inf.assoc)
    with r(3) that ok count show ?thesis by (auto simp: degrees_ok_def)
  qed
  have closed: "s \<in> ?Q" if "v \<in> ?Q" "(s, v) \<in> E" for s v
    using that ok F(1) by (auto simp: degrees_ok_def ready_def)
  have "set news = ready (set ids) E ?Q"
  proof (intro set_eqI iffI)
    fix v assume v: "v \<in> set news"
    then have "v \<in> set ids - ?Q" "degree m' v = 0" using r(3,4) target by auto
    with deg have "?pre v - ?Q = {}" using fin by (metis card_0_eq finite_Diff of_nat_eq_0_iff)
    with \<open>v \<in> set ids - ?Q\<close> show "v \<in> ready (set ids) E ?Q" by (auto simp: ready_def)
  next
    fix v assume v: "v \<in> ready (set ids) E ?Q"
    then have vq: "v \<in> set ids - ?Q" "?pre v - ?Q = {}" by (auto simp: ready_def)
    then have "v \<notin> ready (set ids) E P" using F(1) by auto
    then obtain s where "(s, v) \<in> E" "s \<notin> P" using vq(1) by (auto simp: ready_def)
    with vq(2) have "s \<in> ?pre v \<inter> set frontier" by auto
    then have "card (?pre v \<inter> set frontier) \<noteq> 0" using fin [of v] by (metis card_0_eq empty_iff finite_Int)
    then have "v \<in> set ?ts" using count [of v] by (metis count_list_0_iff)
    moreover have "degree m' v = 0" using deg [OF vq(1)] vq(2) by simp
    ultimately show "v \<in> set news" using r(3,4) by auto
  qed
  then show ?thesis using r(1,2) deg closed ok F(1) by (auto simp: degrees_ok_def ready_def)
qed

section \<open>All rounds\<close>

lemma frontiers_levels:
  assumes k: "counts ids ps k" and E: "set ps = E" "E \<subseteq> set ids \<times> set ids"
    and "degrees_ok (set ids) E P m" "set frontier = ready (set ids) E P" "distinct frontier" "sorted frontier" "card (set ids - P) < fuel"
  shows "levels (set ids) E P (frontiers fuel (kh_outgoing k) m frontier)"
  using assms(4-)
proof (induction fuel arbitrary: P m frontier)
  case (Suc fuel)
  show ?case
  proof (cases "frontier = []")
    case True
    with Suc.prems(2) show ?thesis by simp
  next
    case False
    obtain m' next_frontier where r: "release_all (kh_outgoing k) frontier m = (m', next_frontier)"
      by (cases "release_all (kh_outgoing k) frontier m")
    from round [OF k E Suc.prems(1-3) r] have next_ok: "degrees_ok (set ids) E (P \<union> set frontier) m'"
        "set (sort next_frontier) = ready (set ids) E (P \<union> set frontier)" "distinct (sort next_frontier)"
      by simp_all
    have "set ids - (P \<union> set frontier) \<subset> set ids - P"
    proof -
      obtain v where "v \<in> set frontier" using False by (cases frontier) auto
      moreover from this have "v \<in> set ids - P" unfolding Suc.prems(2) by (simp add: ready_def)
      ultimately show ?thesis by blast
    qed
    then have "card (set ids - (P \<union> set frontier)) < card (set ids - P)" by (intro psubset_card_mono) auto
    then have "card (set ids - (P \<union> set frontier)) < fuel" using Suc.prems(5) by simp
    from Suc.IH [OF next_ok(1,2,3) _ this] have "levels (set ids) E (P \<union> set frontier) (frontiers fuel (kh_outgoing k) m' (sort next_frontier))"
      by simp
    moreover have "frontier = sorted_list_of_set (ready (set ids) E P)"
      using Suc.prems(2-4) by (metis sorted_list_of_set.idem_if_sorted_distinct)
    ultimately show ?thesis using False r by simp
  qed
qed simp

lemma finite_ready: "finite ids \<Longrightarrow> finite (ready ids E P)"
  by (simp add: ready_def)

lemma levels_distinct:
  assumes "levels ids E P ls" "finite ids"
  shows "distinct (concat ls) \<and> set (concat ls) \<subseteq> ids - P"
  using assms
proof (induction ls arbitrary: P)
  case (Cons l ls)
  then have l: "l = sorted_list_of_set (ready ids E P)" by simp
  have "distinct l" unfolding l by (rule distinct_sorted_list_of_set)
  moreover have "set l \<subseteq> ids - P" unfolding l using finite_ready [OF Cons.prems(2)] by (auto simp: ready_def)
  ultimately show ?case using Cons by auto
qed simp

lemma levels_length:
  assumes "levels ids E P ls" "finite ids"
  shows "sum_list (map length ls) = card (set (concat ls))"
proof -
  have "distinct (concat ls)" using levels_distinct [OF assms] by simp
  from distinct_card [OF this] show ?thesis by (simp add: length_concat)
qed

lemma levels_nth:
  assumes "levels ids E P ls" "i < length ls"
  shows "ls ! i \<noteq> [] \<and> ls ! i = sorted_list_of_set (ready ids E (P \<union> set (concat (take i ls))))"
  using assms
proof (induction ls arbitrary: P i)
  case (Cons l ls)
  show ?case
  proof (cases i)
    case (Suc j)
    have "levels ids E (P \<union> set l) ls" using Cons.prems(1) unfolding levels.simps by (elim conjE)
    then have tail: "ls ! j \<noteq> [] \<and> ls ! j = sorted_list_of_set (ready ids E ((P \<union> set l) \<union> set (concat (take j ls))))"
      by (rule Cons.IH) (use Cons.prems(2) Suc in simp)
    have eqs: "(l # ls) ! i = ls ! j" "P \<union> set (concat (take i (l # ls))) = (P \<union> set l) \<union> set (concat (take j ls))"
      by (simp_all add: Suc Un_assoc)
    show ?thesis unfolding eqs by (rule tail)
  next
    case 0
    have "l \<noteq> [] \<and> l = sorted_list_of_set (ready ids E P)" using Cons.prems(1) unfolding levels.simps by (elim conjE) (rule conjI)
    moreover have eqs: "(l # ls) ! i = l" "P \<union> set (concat (take i (l # ls))) = P" by (simp_all add: 0)
    ultimately show ?thesis unfolding eqs by (elim conjE) (rule conjI)
  qed
qed simp

lemma levels_end: "levels ids E P ls \<Longrightarrow> ready ids E (P \<union> set (concat ls)) = {}"
proof (induction ls arbitrary: P)
  case (Cons l ls)
  have "levels ids E (P \<union> set l) ls" using Cons.prems unfolding levels.simps by (elim conjE)
  from Cons.IH [OF this] show ?case by (simp only: concat.simps set_append Un_assoc)
qed simp

lemma levels_acyclic:
  assumes "levels ids E {} ls" "finite ids" "set (concat ls) = ids" "E \<subseteq> ids \<times> ids"
  shows "acyclic E"
proof -
  define f where "f v = (LEAST i. i < length ls \<and> v \<in> set (ls ! i))" for v
  have f: "f v < length ls \<and> v \<in> set (ls ! f v)" if "v \<in> ids" for v
    unfolding f_def by (rule LeastI_ex) (use that assms(3) in \<open>auto simp: in_set_conv_nth [of _ ls]\<close>)
  have "f s < f t" if "(s, t) \<in> E" for s t
  proof -
    have t: "f t < length ls" "t \<in> set (ls ! f t)" using f that assms(4) by auto
    with levels_nth [OF assms(1) t(1)] finite_ready [OF assms(2)] have "t \<in> ready ids E (set (concat (take (f t) ls)))" by auto
    with that have "s \<in> set (concat (take (f t) ls))" by (auto simp: ready_def)
    then obtain l where l: "l \<in> set (take (f t) ls)" "s \<in> set l" by auto
    then obtain i where "i < f t" "i < length ls" "ls ! i = l" by (auto simp: in_set_conv_nth)
    with l(2) have "f s \<le> i" unfolding f_def by (intro Least_le) simp
    with \<open>i < f t\<close> show ?thesis by simp
  qed
  then have "E \<subseteq> measure f" by auto
  then show ?thesis using acyclic_subset wf_acyclic wf_measure by blast
qed

lemma levels_cycle:
  assumes "levels ids E {} ls" "finite ids" "set (concat ls) \<noteq> ids" "E \<subseteq> ids \<times> ids"
  shows "\<not> acyclic E"
proof
  assume "acyclic E"
  then have wf: "wf E" using assms(2,4) by (meson finite_SigmaI finite_acyclic_wf finite_subset)
  let ?R = "ids - set (concat ls)"
  have "set (concat ls) \<subseteq> ids" using levels_distinct [OF assms(1,2)] by auto
  then obtain v where "v \<in> ?R" using assms(3) by auto
  from wfE_min [OF wf this] obtain w where w: "w \<in> ?R" "\<And>s. (s, w) \<in> E \<Longrightarrow> s \<notin> ?R" by blast
  with assms(4) have "w \<in> ready ids E (set (concat ls))" by (auto simp: ready_def)
  with levels_end [OF assms(1)] show False by simp
qed

section \<open>What layerize returns\<close>

definition well_formed :: "workflow_graph \<Rightarrow> bool" where
  "well_formed g \<longleftrightarrow> wf_nodes g \<noteq> [] \<and> distinct (wf_nodes g) \<and> (\<forall>n \<in> set (wf_nodes g). trim n \<noteq> [])
     \<and> (\<forall>e \<in> set (wf_edges g). we_source e \<in> set (wf_nodes g) \<and> we_target e \<in> set (wf_nodes g) \<and> we_source e \<noteq> we_target e)"

lemma check_nodes_iff:
  "(\<exists>r. check_nodes ids ns = Inr r) \<longleftrightarrow> distinct ns \<and> set ids \<inter> set ns = {} \<and> (\<forall>n \<in> set ns. trim n \<noteq> [])"
  by (induction ns arbitrary: ids) auto

lemma add_edges_iff:
  "(\<exists>k'. add_edges ids k es = Inr k') \<longleftrightarrow> (\<forall>e \<in> set es. we_source e \<in> set ids \<and> we_target e \<in> set ids \<and> we_source e \<noteq> we_target e)"
  by (induction es arbitrary: k) auto

text \<open>The frontier the loop starts with, and the run of the loop with any fuel above the number of nodes.\<close>

definition first_frontier :: "workflow_graph \<Rightarrow> kahn \<Rightarrow> string list" where
  "first_frontier g k = sort (filter (\<lambda>i. jm_get (kh_indegree k) i = Some 0) (wf_nodes g))"

lemma kahn_degree:
  assumes "counts ids ps k" "v \<in> set ids"
  shows "degree (kh_indegree k) v = int (card {s. (s, v) \<in> set ps})" "jm_get (kh_indegree k) v = Some (degree (kh_indegree k) v)"
proof -
  have "length (filter (\<lambda>p. snd p = v) ps) = card {s. (s, v) \<in> set ps}"
  proof -
    have "distinct ps" using assms(1) by (simp add: counts_def)
    then have "length (filter (\<lambda>p. snd p = v) ps) = card (set (filter (\<lambda>p. snd p = v) ps))" by (intro distinct_card [symmetric] distinct_filter)
    also have "set (filter (\<lambda>p. snd p = v) ps) = (\<lambda>s. (s, v)) ` {s. (s, v) \<in> set ps}" by force
    finally show ?thesis by (simp add: card_image inj_on_def)
  qed
  then show "degree (kh_indegree k) v = int (card {s. (s, v) \<in> set ps})" "jm_get (kh_indegree k) v = Some (degree (kh_indegree k) v)"
    using assms by (simp_all add: counts_def degree_def)
qed

lemma frontiers_all:
  assumes "plain_ids (wf_nodes g)" "well_formed g" "add_edges (wf_nodes g) (empty_kahn (wf_nodes g)) (wf_edges g) = Inr k"
    and "length (wf_nodes g) < fuel"
  shows "levels (set (wf_nodes g)) (edge_pairs g) {} (frontiers fuel (kh_outgoing k) (kh_indegree k) (first_frontier g k))"
proof -
  let ?ids = "wf_nodes g"
  from add_edges_counts [OF assms(1) counts_empty _ assms(3)] obtain ps where ps: "counts ?ids ps k" "set ps = edge_pairs g"
    by (auto simp: edge_pairs_def)
  have E: "edge_pairs g \<subseteq> set ?ids \<times> set ?ids" using assms(2) by (auto simp: well_formed_def edge_pairs_def)
  note deg = kahn_degree [OF ps(1), unfolded ps(2)]
  have ok: "degrees_ok (set ?ids) (edge_pairs g) {} (kh_indegree k)" using deg by (simp add: degrees_ok_def)
  have fin: "finite {s. (s, v) \<in> edge_pairs g}" for v by (rule finite_subset [of _ "set ?ids"]) (use E in auto)
  have first: "set (first_frontier g k) = ready (set ?ids) (edge_pairs g) {}"
    using deg fin by (auto simp: ready_def first_frontier_def)
  have "distinct ?ids" using assms(2) by (simp add: well_formed_def)
  then have "distinct (first_frontier g k)" "sorted (first_frontier g k)" "card (set ?ids - {}) < fuel"
    using assms(4) by (simp_all add: first_frontier_def distinct_card)
  from frontiers_levels [OF ps E ok first this] show ?thesis .
qed

lemma layerize_levels:
  assumes "plain_ids (wf_nodes g)" "well_formed g"
  obtains layers where "levels (set (wf_nodes g)) (edge_pairs g) {} layers"
    "layerize g = (if set (concat layers) = set (wf_nodes g) then Inr layers else Inl HasCycle)"
proof -
  let ?ids = "wf_nodes g"
  obtain r where r: "check_nodes [] ?ids = Inr r" using check_nodes_iff [of "[]" ?ids] assms(2) by (auto simp: well_formed_def)
  then have ids: "check_nodes [] ?ids = Inr ?ids" "distinct ?ids" using check_nodes_ok [of "[]" ?ids r] by auto
  obtain k where k: "add_edges ?ids (empty_kahn ?ids) (wf_edges g) = Inr k"
    using add_edges_iff assms(2) unfolding well_formed_def by blast
  let ?layers = "frontiers (Suc (length ?ids)) (kh_outgoing k) (kh_indegree k) (first_frontier g k)"
  have levels: "levels (set ?ids) (edge_pairs g) {} ?layers" by (rule frontiers_all [OF assms k]) simp
  have "sum_list (map length ?layers) = card (set (concat ?layers))" by (rule levels_length [OF levels]) simp
  moreover have "set (concat ?layers) \<subseteq> set ?ids" using levels_distinct [OF levels] by blast
  ultimately have "sum_list (map length ?layers) = length ?ids \<longleftrightarrow> set (concat ?layers) = set ?ids"
    using ids(2) by (metis card_subset_eq distinct_card finite_set)
  then have "layerize g = (if set (concat ?layers) = set ?ids then Inr ?layers else Inl HasCycle)"
    using assms(2) ids(1) k unfolding layerize_def Let_def well_formed_def first_frontier_def by (simp only: sum.case if_False simp_thms)
  with levels show ?thesis by (rule that)
qed

lemma levels_unique:
  assumes "levels ids E P ls" "levels ids E P ms" "finite ids"
  shows "ls = ms"
  using assms
proof (induction ls arbitrary: P ms)
  case Nil
  then show ?case by (cases ms) simp_all
next
  case (Cons l ls)
  have "l \<noteq> [] \<and> l = sorted_list_of_set (ready ids E P) \<and> levels ids E (P \<union> set l) ls"
    using Cons.prems(1) unfolding levels.simps .
  then have l: "l \<noteq> []" "l = sorted_list_of_set (ready ids E P)" "levels ids E (P \<union> set l) ls" by blast+
  have ne: "ready ids E P \<noteq> {}" using l(1,2) by (metis sorted_list_of_set.sorted_key_list_of_set_empty)
  then obtain m ms' where ms: "ms = m # ms'" using Cons.prems(2) by (cases ms) auto
  then have m: "m = l" "levels ids E (P \<union> set m) ms'" using Cons.prems(2) l(2) by auto
  from Cons.IH [OF l(3)] m Cons.prems(3) show ?case unfolding ms by metis
qed

text \<open>
  C36: The loop that peels off the layers ends: with any fuel above the number of nodes it stops at
  an empty frontier, and always with the same layers.
\<close>

theorem layering_terminates:
  assumes "plain_ids (wf_nodes g)" "well_formed g" "add_edges (wf_nodes g) (empty_kahn (wf_nodes g)) (wf_edges g) = Inr k"
    and "length (wf_nodes g) < fuel"
  shows "frontiers fuel (kh_outgoing k) (kh_indegree k) (first_frontier g k) =
      frontiers (Suc (length (wf_nodes g))) (kh_outgoing k) (kh_indegree k) (first_frontier g k)
    \<and> ready (set (wf_nodes g)) (edge_pairs g) (set (concat (frontiers fuel (kh_outgoing k) (kh_indegree k) (first_frontier g k)))) = {}"
  using levels_unique [OF frontiers_all [OF assms] frontiers_all [OF assms(1-3) lessI] finite_set]
    levels_end [OF frontiers_all [OF assms]] by simp

lemma layerize_ok_iff:
  assumes "plain_ids (wf_nodes g)"
  shows "(\<exists>layers. layerize g = Inr layers) \<longleftrightarrow> well_formed g \<and> acyclic (edge_pairs g)"
proof (cases "well_formed g")
  case True
  obtain layers where l: "levels (set (wf_nodes g)) (edge_pairs g) {} layers"
      "layerize g = (if set (concat layers) = set (wf_nodes g) then Inr layers else Inl HasCycle)"
    by (rule layerize_levels [OF assms True])
  have E: "edge_pairs g \<subseteq> set (wf_nodes g) \<times> set (wf_nodes g)" using True by (auto simp: well_formed_def edge_pairs_def)
  show ?thesis using levels_acyclic [OF l(1) _ _ E] levels_cycle [OF l(1) _ _ E] l(2) True by auto
next
  case False
  have "layerize g \<noteq> Inr layers" for layers
  proof
    assume ok: "layerize g = Inr layers"
    then obtain ids where ids: "wf_nodes g \<noteq> []" "check_nodes [] (wf_nodes g) = Inr ids" by (auto simp: layerize_def split: if_splits sum.splits)
    then have "ids = wf_nodes g" using check_nodes_ok by fastforce
    with ok ids have "\<exists>k. add_edges (wf_nodes g) (empty_kahn (wf_nodes g)) (wf_edges g) = Inr k" by (auto simp: layerize_def split: sum.splits)
    with ids check_nodes_iff [of "[]" "wf_nodes g"] False show False unfolding add_edges_iff well_formed_def by auto
  qed
  with False show ?thesis by blast
qed

text \<open>
  C35: A workflow has layers exactly when its nodes are named and distinct, its edges join two
  different nodes of it, and it has no cycle.
\<close>

theorem layerize_accepts:
  assumes "plain_ids (wf_nodes g)"
  shows "(\<exists>layers. layerize g = Inr layers) \<longleftrightarrow> well_formed g \<and> acyclic (edge_pairs g)"
  by (rule layerize_ok_iff [OF assms])

text \<open>
  The layers are the levels of the graph: every node is in exactly one of them, and each
  layer holds, in order, the nodes whose predecessors are all in earlier layers and that are
  in none of those. So an edge always leads to a later layer, and no node waits longer than
  its predecessors make it wait.
\<close>

theorem layerize_topological:
  assumes "plain_ids (wf_nodes g)" "layerize g = Inr layers"
  shows "distinct (concat layers) \<and> set (concat layers) = set (wf_nodes g)
    \<and> (\<forall>i < length layers. layers ! i \<noteq> []
         \<and> layers ! i = sorted_list_of_set (ready (set (wf_nodes g)) (edge_pairs g) (set (concat (take i layers)))))"
proof -
  have "well_formed g" using layerize_ok_iff [OF assms(1)] assms(2) by blast
  from layerize_levels [OF assms(1) this] obtain ls where ls: "levels (set (wf_nodes g)) (edge_pairs g) {} ls"
      "layerize g = (if set (concat ls) = set (wf_nodes g) then Inr ls else Inl HasCycle)"
    by blast
  then have "ls = layers" "set (concat ls) = set (wf_nodes g)" using assms(2) by (auto split: if_splits)
  moreover from levels_nth [OF ls(1)] have "\<forall>i < length ls. ls ! i \<noteq> []
      \<and> ls ! i = sorted_list_of_set (ready (set (wf_nodes g)) (edge_pairs g) (set (concat (take i ls))))"
    unfolding Un_empty_left by blast
  moreover have "distinct (concat ls)" using levels_distinct [OF ls(1)] by simp
  ultimately show ?thesis by metis
qed

section \<open>A diamond\<close>

definition diamond :: workflow_graph where
  "diamond = \<lparr>wf_nodes = [''d'', ''b'', ''c'', ''a''],
     wf_edges = [\<lparr>we_id = ''1'', we_source = ''a'', we_target = ''b''\<rparr>, \<lparr>we_id = ''2'', we_source = ''a'', we_target = ''c''\<rparr>,
       \<lparr>we_id = ''3'', we_source = ''b'', we_target = ''d''\<rparr>, \<lparr>we_id = ''4'', we_source = ''c'', we_target = ''d''\<rparr>]\<rparr>"

lemma diamond_layers: "layerize diamond = Inr [[''a''], [''b'', ''c''], [''d'']]" "plain_ids (wf_nodes diamond)"
  by code_simp+

lemma diamond_ok: "well_formed diamond \<and> acyclic (edge_pairs diamond)"
  using layerize_ok_iff [OF diamond_layers(2)] diamond_layers(1) by blast

theorem layering_terminates_witness:
  "\<exists>k. frontiers 9 (kh_outgoing k) (kh_indegree k) (first_frontier diamond k) = frontiers (Suc 4) (kh_outgoing k) (kh_indegree k) (first_frontier diamond k)
    \<and> ready (set (wf_nodes diamond)) (edge_pairs diamond) (set (concat (frontiers 9 (kh_outgoing k) (kh_indegree k) (first_frontier diamond k)))) = {}"
proof -
  have "case add_edges (wf_nodes diamond) (empty_kahn (wf_nodes diamond)) (wf_edges diamond) of Inr k \<Rightarrow> True | Inl e \<Rightarrow> False" by code_simp
  then obtain k where k: "add_edges (wf_nodes diamond) (empty_kahn (wf_nodes diamond)) (wf_edges diamond) = Inr k" by (auto split: sum.splits)
  have four: "length (wf_nodes diamond) = 4" by (simp add: diamond_def)
  have "well_formed diamond" "length (wf_nodes diamond) < 9" using diamond_ok by (simp_all add: four)
  from layering_terminates [OF diamond_layers(2) this(1) k this(2)] have
    "frontiers 9 (kh_outgoing k) (kh_indegree k) (first_frontier diamond k) = frontiers (Suc 4) (kh_outgoing k) (kh_indegree k) (first_frontier diamond k)
      \<and> ready (set (wf_nodes diamond)) (edge_pairs diamond) (set (concat (frontiers 9 (kh_outgoing k) (kh_indegree k) (first_frontier diamond k)))) = {}"
    unfolding four .
  then show ?thesis by (rule exI)
qed

theorem layerize_accepts_witness: "well_formed diamond \<and> acyclic (edge_pairs diamond)"
  using layerize_accepts [OF diamond_layers(2)] diamond_layers(1) by blast

theorem layerize_topological_witness: "distinct (concat [[''a''], [''b'', ''c''], [''d'']]) \<and> set (wf_nodes diamond) = {''a'', ''b'', ''c'', ''d''}"
  using layerize_topological [OF diamond_layers(2,1)] by simp

theorem would_cycle_reachable_witness: "acyclic (edge_pairs diamond) \<and> acyclic (insert (''a'', ''d'') (edge_pairs diamond))"
proof -
  have "\<not> would_cycle diamond ''a'' ''d''" by code_simp
  then show ?thesis using would_cycle_reachable [of diamond "''a''" "''d''"] diamond_ok by blast
qed

text \<open>
  The key under which an edge is remembered joins the two ids with a NUL. When ids contain
  one, two different edges can share a key and the second is dropped: here the node that
  \<open>a\<close> leads to is put into the first layer together with \<open>a\<close>.
\<close>

lemma nul_ids_drop_an_edge:
  "let z = char_of (0 :: nat) in
   layerize \<lparr>wf_nodes = [''a'' @ [z] @ ''b'', ''c'', ''a'', ''b'' @ [z] @ ''c''],
     wf_edges = [\<lparr>we_id = ''1'', we_source = ''a'' @ [z] @ ''b'', we_target = ''c''\<rparr>, \<lparr>we_id = ''2'', we_source = ''a'', we_target = ''b'' @ [z] @ ''c''\<rparr>]\<rparr>
   = Inr [[''a'', ''a'' @ [z] @ ''b'', ''b'' @ [z] @ ''c''], [''c'']]"
  by code_simp

end
