(* ===== verification/MonitoringPolicy.thy ===== *)
theory MonitoringPolicy
  imports ControlPlane Revisions JsMap
begin

text \<open>
  What agents may read of a host, packages/monitoring/src/policy.ts and the grants of
  packages/monitoring/src/service.ts: the names a policy may approve, parsing and storing a
  policy, who may approve what, and which log source an approval opens.

  The file of a Space is the JSON value it holds; thresholds are whole numbers. An error
  that carries no code of its own is \<open>IoFailure\<close>.
\<close>

section \<open>Names a policy may approve\<close>

fun split_slash :: "string \<Rightarrow> string list" where
  "split_slash [] = [[]]"
| "split_slash (c # cs) =
     (if c = CHR ''/'' then [] # split_slash cs
      else (case split_slash cs of p # ps \<Rightarrow> (c # p) # ps | [] \<Rightarrow> [[c]]))"

definition ends_with :: "string \<Rightarrow> string \<Rightarrow> bool" where
  "ends_with tail s \<longleftrightarrow> length tail \<le> length s \<and> drop (length s - length tail) s = tail"

definition is_alnum :: "char \<Rightarrow> bool" where
  "is_alnum c \<longleftrightarrow> is_letter c \<or> is_digit c"

text \<open>The pattern \<open>^[A-Za-z0-9][A-Za-z0-9_.@:-]{0,119}\.service$\<close>.\<close>

definition valid_unit :: "string \<Rightarrow> bool" where
  "valid_unit s \<longleftrightarrow> ends_with ''.service'' s
     \<and> (let body = take (length s - 8) s
        in 1 \<le> length body \<and> length body \<le> 120 \<and> is_alnum (hd body)
           \<and> list_all (\<lambda>c. is_alnum c \<or> c \<in> set ''_.@:-'') (tl body))"

definition is_log_char :: "char \<Rightarrow> bool" where
  "is_log_char c \<longleftrightarrow> (let n = of_char c :: nat in 32 \<le> n \<and> n \<noteq> 127 \<and> n \<noteq> 92)"

definition valid_log_path :: "string \<Rightarrow> bool" where
  "valid_log_path s \<longleftrightarrow> length s \<le> 240 \<and> take 1 s \<noteq> ''/'' \<and> list_all is_log_char s
     \<and> list_all (\<lambda>p. p \<noteq> [] \<and> p \<noteq> ''.'' \<and> p \<noteq> ''..'' \<and> take 1 p \<noteq> ''.'') (split_slash s)
     \<and> ends_with ''.log'' s"

definition is_host_char :: "char \<Rightarrow> bool" where
  "is_host_char c \<longleftrightarrow> is_alnum c \<or> c \<in> set ''._@+/-''"

definition starts_with :: "string \<Rightarrow> string \<Rightarrow> bool" where
  "starts_with p s \<longleftrightarrow> take (length p) s = p"

definition pseudo_roots :: "string list" where
  "pseudo_roots = [''/proc/'', ''/sys/'', ''/dev/'', ''/run/'']"

definition valid_host_log_path :: "string \<Rightarrow> bool" where
  "valid_host_log_path s \<longleftrightarrow> length s \<le> 240
     \<and> (2 \<le> length s \<and> hd s = CHR ''/'' \<and> list_all is_host_char (tl s))
     \<and> list_all (\<lambda>p. p \<noteq> [] \<and> p \<noteq> ''.'' \<and> p \<noteq> ''..'') (split_slash (tl s))
     \<and> \<not> list_ex (\<lambda>p. starts_with p s) pseudo_roots
     \<and> (starts_with ''/var/log/'' s \<or> ends_with ''.log'' s)"

definition valid_journal_source :: "string \<Rightarrow> bool" where
  "valid_journal_source s \<longleftrightarrow> s = ''journal'' \<or> s = ''kernel'' \<or> starts_with ''journal:'' s \<and> valid_unit (drop 8 s)"

definition valid_log_source :: "string \<Rightarrow> bool" where
  "valid_log_source s \<longleftrightarrow> valid_log_path s \<or> valid_host_log_path s \<or> valid_journal_source s"

definition log_source_limit :: nat where
  "log_source_limit = 24"

section \<open>Policies\<close>

datatype probe_kind = OpMetrics | OpServices | OpLogs | OpProcesses

record monitoring_policy =
  mp_revision :: int
  mp_metrics :: bool
  mp_services :: bool
  mp_logs :: bool
  mp_processes :: bool
  mp_units :: "string list"
  mp_paths :: "string list"
  mp_memory :: int
  mp_load :: int
  mp_disk :: int

definition default_disk :: int where
  "default_disk = 90"

definition default_policy :: monitoring_policy where
  "default_policy = \<lparr>mp_revision = 0, mp_metrics = False, mp_services = False, mp_logs = False, mp_processes = False,
     mp_units = [], mp_paths = [], mp_memory = 85, mp_load = 1, mp_disk = default_disk\<rparr>"

definition allows :: "monitoring_policy \<Rightarrow> probe_kind \<Rightarrow> bool" where
  "allows p f = (case f of OpMetrics \<Rightarrow> mp_metrics p | OpServices \<Rightarrow> mp_services p | OpLogs \<Rightarrow> mp_logs p | OpProcesses \<Rightarrow> mp_processes p)"

fun as_bool :: "json option \<Rightarrow> bool option" where
  "as_bool (Some (JBool b)) = Some b"
| "as_bool _ = None"

fun as_string :: "json \<Rightarrow> string option" where
  "as_string (JStr s) = Some s"
| "as_string _ = None"

text \<open>\<open>[...new Set(values)]\<close>.\<close>

definition dedupe :: "'a list \<Rightarrow> 'a list" where
  "dedupe xs = fold (\<lambda>x acc. if x \<in> set acc then acc else acc @ [x]) xs []"

definition parse_list :: "json option \<Rightarrow> (string \<Rightarrow> bool) \<Rightarrow> nat \<Rightarrow> string list option" where
  "parse_list j valid limit =
     (case j of
        Some (JArr xs) \<Rightarrow>
          if length xs \<le> limit \<and> list_all (\<lambda>x. case as_string x of Some s \<Rightarrow> valid s | None \<Rightarrow> False) xs
          then Some (dedupe (map (\<lambda>x. the (as_string x)) xs)) else None
      | _ \<Rightarrow> None)"

definition parse_threshold :: "json option \<Rightarrow> int \<Rightarrow> int option" where
  "parse_threshold j upper = (case j of Some (JNum n) \<Rightarrow> if 1 \<le> n \<and> n \<le> upper then Some n else None | _ \<Rightarrow> None)"

text \<open>Absent process access is denied, an explicit value must be a boolean.\<close>

definition parse_processes :: "json option \<Rightarrow> bool option" where
  "parse_processes j = (case j of None \<Rightarrow> Some False | Some v \<Rightarrow> as_bool (Some v))"

definition parse_policy :: "json \<Rightarrow> int \<Rightarrow> int \<Rightarrow> control_error + monitoring_policy" where
  "parse_policy j revision keep_disk =
     (case j of
        JObj input \<Rightarrow>
          (let access = nullish (map_of input ''agentAccess'') JNull;
               disk = nullish (json_present (map_of input ''diskWarningPercent'')) (JNum keep_disk)
           in case (as_bool (json_field access ''metrics''), as_bool (json_field access ''services''), as_bool (json_field access ''logs''),
                    parse_processes (json_field access ''processes'')) of
                (Some me, Some se, Some lo, Some pr) \<Rightarrow>
                  (case (parse_threshold (map_of input ''memoryWarningPercent'') 100, parse_threshold (map_of input ''loadWarningRatio'') 10,
                         parse_threshold (Some disk) 100,
                         parse_list (map_of input ''serviceUnits'') valid_unit 12,
                         parse_list (map_of input ''logPaths'') valid_log_source log_source_limit) of
                     (Some memory, Some load, Some d, Some units, Some paths) \<Rightarrow>
                       Inr \<lparr>mp_revision = revision, mp_metrics = me, mp_services = se, mp_logs = lo, mp_processes = pr,
                            mp_units = units, mp_paths = paths, mp_memory = memory, mp_load = load, mp_disk = d\<rparr>
                   | _ \<Rightarrow> Inl InvalidInput)
              | _ \<Rightarrow> Inl InvalidInput)
      | _ \<Rightarrow> Inl InvalidInput)"

definition require_agent_access :: "monitoring_policy \<Rightarrow> probe_kind \<Rightarrow> control_error option" where
  "require_agent_access p f = (if allows p f then None else Some Forbidden)"

section \<open>The store\<close>

definition read_policies :: "file_read \<Rightarrow> control_error + (string, json) jsmap" where
  "read_policies f =
     (case f of
        FMissing \<Rightarrow> Inr []
      | FFailed \<Rightarrow> Inl IoFailure
      | FJson (JObj kvs) \<Rightarrow> Inr kvs
      | FJson _ \<Rightarrow> Inl Unavailable)"

definition stored_policy :: "json \<Rightarrow> control_error + monitoring_policy" where
  "stored_policy j =
     (if j = JNull then Inl IoFailure
      else (case json_num (json_field j ''revision'') of
              None \<Rightarrow> Inl Unavailable
            | Some r \<Rightarrow> if is_revision r then parse_policy j r default_disk else Inl Unavailable))"

definition policy_get :: "string \<Rightarrow> file_read \<Rightarrow> control_error + monitoring_policy" where
  "policy_get p f =
     (case read_policies f of
        Inl e \<Rightarrow> Inl e
      | Inr kvs \<Rightarrow> (case jm_get kvs p of None \<Rightarrow> Inr default_policy | Some j \<Rightarrow> stored_policy j))"

definition policy_json :: "monitoring_policy \<Rightarrow> json" where
  "policy_json p = JObj
     [(''revision'', JNum (mp_revision p)),
      (''agentAccess'', JObj [(''metrics'', JBool (mp_metrics p)), (''services'', JBool (mp_services p)),
         (''logs'', JBool (mp_logs p)), (''processes'', JBool (mp_processes p))]),
      (''serviceUnits'', JArr (map JStr (mp_units p))), (''logPaths'', JArr (map JStr (mp_paths p))),
      (''memoryWarningPercent'', JNum (mp_memory p)), (''loadWarningRatio'', JNum (mp_load p)), (''diskWarningPercent'', JNum (mp_disk p))]"

text \<open>\<open>disk_ok\<close>: the atomic write succeeds; otherwise it throws and the old file stays.\<close>

definition policy_put :: "bool \<Rightarrow> string \<Rightarrow> json \<Rightarrow> json \<Rightarrow> file_read \<Rightarrow> (control_error + monitoring_policy) \<times> file_read" where
  "policy_put disk_ok p value expected f =
     (case policy_get p f of
        Inl e \<Rightarrow> (Inl e, f)
      | Inr current \<Rightarrow>
          if expected \<noteq> JNum (mp_revision current) then (Inl Conflict, f)
          else (case parse_policy value (mp_revision current + 1) (mp_disk current) of
                  Inl e \<Rightarrow> (Inl e, f)
                | Inr next_policy \<Rightarrow>
                    (case read_policies f of
                       Inl e \<Rightarrow> (Inl e, f)
                     | Inr kvs \<Rightarrow>
                         if disk_ok then (Inr next_policy, FJson (JObj (jm_set p (policy_json next_policy) kvs)))
                         else (Inl IoFailure, f))))"

section \<open>Who may approve what\<close>

fun added_strings :: "json option \<Rightarrow> string list \<Rightarrow> string list" where
  "added_strings (Some (JArr xs)) old = filter (\<lambda>s. s \<notin> set old) (List.map_filter as_string xs)"
| "added_strings _ old = []"

text \<open>A new approval that reaches beyond the project's own files.\<close>

definition approves_host_wide :: "json \<Rightarrow> monitoring_policy \<Rightarrow> bool" where
  "approves_host_wide value current \<longleftrightarrow>
     list_ex (\<lambda>s. valid_host_log_path s \<or> valid_journal_source s) (added_strings (json_field value ''logPaths'') (mp_paths current))
     \<or> added_strings (json_field value ''serviceUnits'') (mp_units current) \<noteq> []
     \<or> (as_bool (json_field (nullish (json_field value ''agentAccess'') JNull) ''processes'') = Some True \<and> \<not> mp_processes current)"

text \<open>
  \<open>putPolicy\<close> of a project that exists, while monitoring is admitted: the role is checked after the
  policy is read, and what follows runs without another wait.
\<close>

definition put_policy :: "bool \<Rightarrow> bool \<Rightarrow> bool option \<Rightarrow> bool \<Rightarrow> string \<Rightarrow> json \<Rightarrow> json \<Rightarrow> file_read
    \<Rightarrow> (control_error + monitoring_policy) \<times> file_read" where
  "put_policy admin remote instance_owner disk_ok p value expected f =
     (case policy_get p f of
        Inl e \<Rightarrow> (Inl e, f)
      | Inr current \<Rightarrow>
          if \<not> admin then (Inl Forbidden, f)
          else if \<not> remote \<and> instance_owner = Some False \<and> approves_host_wide value current then (Inl Forbidden, f)
          else policy_put disk_ok p value expected f)"

datatype log_kind = JournalLog | HostFile | ProjectFile

text \<open>The source that \<open>logs\<close> opens. A project file of a remote project is not supported (\<open>Unavailable\<close> stands for that code).\<close>

definition open_log :: "bool \<Rightarrow> monitoring_policy \<Rightarrow> string \<Rightarrow> control_error + log_kind" where
  "open_log remote p source =
     (if \<not> (source \<in> set (mp_paths p) \<or> starts_with ''journal:'' source \<and> drop 8 source \<in> set (mp_units p)) then Inl Forbidden
      else if valid_journal_source source then Inr JournalLog
      else if valid_host_log_path source then Inr HostFile
      else if valid_log_path source then (if remote then Inl Unavailable else Inr ProjectFile)
      else Inl InvalidInput)"

section \<open>An agent's reading\<close>

text \<open>The switch of the package. Switching off also flushes the histories (\<open>history_flush\<close>); that is another state.\<close>

record monitoring_gate =
  mg_enabled :: bool
  mg_generation :: nat

definition gate_enable :: "monitoring_gate \<Rightarrow> monitoring_gate" where
  "gate_enable g = (if mg_enabled g then g else g\<lparr>mg_enabled := True, mg_generation := mg_generation g + 1\<rparr>)"

definition gate_disable :: "monitoring_gate \<Rightarrow> monitoring_gate" where
  "gate_disable g = g\<lparr>mg_enabled := False, mg_generation := mg_generation g + 1\<rparr>"

definition admitted :: "bool \<Rightarrow> monitoring_gate \<Rightarrow> control_error + nat" where
  "admitted sandboxed g =
     (if \<not> mg_enabled g then Inl Unavailable else if sandboxed then Inl Forbidden else Inr (mg_generation g))"

definition still_current :: "nat \<Rightarrow> monitoring_gate \<Rightarrow> control_error option" where
  "still_current epoch g = (if \<not> mg_enabled g \<or> epoch \<noteq> mg_generation g then Some Unavailable else None)"

text \<open>
  The reading starts with the epoch that was admitted and a policy that grants it, the probe
  runs, and its result is given away only if policy and epoch still hold.
\<close>

definition read_begin :: "bool \<Rightarrow> string \<Rightarrow> probe_kind \<Rightarrow> monitoring_gate \<Rightarrow> file_read \<Rightarrow> control_error + nat" where
  "read_begin sandboxed p oper g f =
     (case admitted sandboxed g of
        Inl e \<Rightarrow> Inl e
      | Inr epoch \<Rightarrow>
          (case policy_get p f of
             Inl e \<Rightarrow> Inl e
           | Inr policy \<Rightarrow> (case require_agent_access policy oper of Some e \<Rightarrow> Inl e | None \<Rightarrow> Inr epoch)))"

definition read_end :: "nat \<Rightarrow> string \<Rightarrow> probe_kind \<Rightarrow> monitoring_gate \<Rightarrow> file_read \<Rightarrow> 'a \<Rightarrow> control_error + 'a" where
  "read_end epoch p oper g f result =
     (case policy_get p f of
        Inl e \<Rightarrow> Inl e
      | Inr policy \<Rightarrow>
          (case require_agent_access policy oper of
             Some e \<Rightarrow> Inl e
           | None \<Rightarrow> (case still_current epoch g of Some e \<Rightarrow> Inl e | None \<Rightarrow> Inr result)))"


section \<open>A stored policy reads back\<close>

lemma dedupe_fold:
  "distinct acc \<Longrightarrow> distinct (fold (\<lambda>x acc. if x \<in> set acc then acc else acc @ [x]) xs acc)
    \<and> set (fold (\<lambda>x acc. if x \<in> set acc then acc else acc @ [x]) xs acc) = set acc \<union> set xs
    \<and> length (fold (\<lambda>x acc. if x \<in> set acc then acc else acc @ [x]) xs acc) \<le> length acc + length xs"
proof (induction xs arbitrary: acc)
  case (Cons x xs)
  have "distinct (if x \<in> set acc then acc else acc @ [x])" using Cons.prems by simp
  from Cons.IH [OF this] show ?case by (cases "x \<in> set acc") auto
qed simp

lemma dedupe_props: "distinct (dedupe xs)" "set (dedupe xs) = set xs" "length (dedupe xs) \<le> length xs"
  using dedupe_fold [of "[]" xs] by (simp_all add: dedupe_def)

lemma dedupe_distinct: "distinct xs \<Longrightarrow> dedupe xs = xs"
proof -
  have "distinct (acc @ xs) \<Longrightarrow> fold (\<lambda>x acc. if x \<in> set acc then acc else acc @ [x]) xs acc = acc @ xs" for acc
    by (induction xs arbitrary: acc) auto
  from this [of "[]"] show "distinct xs \<Longrightarrow> dedupe xs = xs" by (simp add: dedupe_def)
qed

definition policy_ok :: "monitoring_policy \<Rightarrow> bool" where
  "policy_ok p \<longleftrightarrow> distinct (mp_units p) \<and> length (mp_units p) \<le> 12 \<and> (\<forall>u \<in> set (mp_units p). valid_unit u)
     \<and> distinct (mp_paths p) \<and> length (mp_paths p) \<le> log_source_limit \<and> (\<forall>s \<in> set (mp_paths p). valid_log_source s)
     \<and> 1 \<le> mp_memory p \<and> mp_memory p \<le> 100 \<and> 1 \<le> mp_load p \<and> mp_load p \<le> 10 \<and> 1 \<le> mp_disk p \<and> mp_disk p \<le> 100"

lemma parse_list_ok:
  assumes "parse_list j valid limit = Some xs"
  shows "distinct xs \<and> length xs \<le> limit \<and> (\<forall>x \<in> set xs. valid x)"
proof -
  obtain js where "j = Some (JArr js)" and js: "length js \<le> limit" "xs = dedupe (map (\<lambda>x. the (as_string x)) js)"
      "list_all (\<lambda>x. case as_string x of Some s \<Rightarrow> valid s | None \<Rightarrow> False) js"
    using assms by (auto simp: parse_list_def split: option.splits json.splits if_splits)
  have "length xs \<le> limit" using js(1,2) dedupe_props(3) [of "map (\<lambda>x. the (as_string x)) js"] by simp
  moreover have "valid x" if "x \<in> set xs" for x
    using that js(2,3) by (auto simp: dedupe_props(2) list_all_iff split: option.splits)
  ultimately show ?thesis using js(2) dedupe_props(1) by simp
qed

lemma parse_list_strings:
  "distinct xs \<Longrightarrow> length xs \<le> limit \<Longrightarrow> \<forall>x \<in> set xs. valid x \<Longrightarrow> parse_list (Some (JArr (map JStr xs))) valid limit = Some xs"
  by (simp add: parse_list_def list_all_iff dedupe_distinct comp_def)

lemma parse_threshold_ok: "parse_threshold j upper = Some n \<Longrightarrow> 1 \<le> n \<and> n \<le> upper"
  by (auto simp: parse_threshold_def split: option.splits json.splits if_splits)

lemma parse_policy_ok:
  assumes "parse_policy j r d = Inr p"
  shows "policy_ok p \<and> mp_revision p = r"
  using assms
  by (auto simp: parse_policy_def Let_def policy_ok_def split: json.splits option.splits
      dest!: parse_list_ok parse_threshold_ok)

lemma parse_policy_json:
  assumes "policy_ok p"
  shows "parse_policy (policy_json p) r d = Inr (p\<lparr>mp_revision := r\<rparr>)"
  using assms by (simp add: parse_policy_def policy_json_def policy_ok_def parse_threshold_def parse_processes_def parse_list_strings)

lemma default_policy_ok [simp]: "policy_ok default_policy"
  by (simp add: policy_ok_def default_policy_def default_disk_def log_source_limit_def)

lemma stored_policy_ok: "stored_policy j = Inr p \<Longrightarrow> policy_ok p \<and> is_revision (mp_revision p)"
  by (auto simp: stored_policy_def split: if_splits option.splits dest: parse_policy_ok)

lemma policy_get_ok: "policy_get p f = Inr pol \<Longrightarrow> policy_ok pol \<and> (pol = default_policy \<or> is_revision (mp_revision pol))"
  by (auto simp: policy_get_def split: sum.splits option.splits dest: stored_policy_ok)

lemma stored_policy_json:
  assumes "policy_ok p" "is_revision (mp_revision p)"
  shows "stored_policy (policy_json p) = Inr p"
  using assms parse_policy_json [OF assms(1), of "mp_revision p"] by (simp add: stored_policy_def policy_json_def)

lemma policy_put_done:
  assumes "policy_put disk_ok p value expected f = (Inr v, f')"
  obtains current kvs where "policy_get p f = Inr current" "expected = JNum (mp_revision current)" "mp_revision v = mp_revision current + 1"
    "parse_policy value (mp_revision current + 1) (mp_disk current) = Inr v"
    "policy_ok v" "read_policies f = Inr kvs" "f' = FJson (JObj (jm_set p (policy_json v) kvs))"
  using assms by (auto simp: policy_put_def split: sum.splits if_splits dest: parse_policy_ok)

lemma policy_put_refused: "policy_put disk_ok p value expected f = (Inl e, f') \<Longrightarrow> f' = f"
  by (auto simp: policy_put_def split: sum.splits if_splits)

lemma policy_get_put:
  assumes "policy_put disk_ok p value expected f = (Inr v, f')" "mp_revision v \<le> max_safe_integer"
  shows "policy_get q f' = (if q = p then Inr v else policy_get q f)"
proof -
  obtain current kvs where put: "policy_get p f = Inr current" "mp_revision v = mp_revision current + 1" "policy_ok v"
      "read_policies f = Inr kvs" "f' = FJson (JObj (jm_set p (policy_json v) kvs))"
    by (rule policy_put_done [OF assms(1)])
  have "0 \<le> mp_revision current" using policy_get_ok [OF put(1)] by (auto simp: default_policy_def is_revision_def)
  then have "is_revision (mp_revision v)" using put(2) assms(2) by (simp add: is_revision_def)
  with put show ?thesis by (simp add: policy_get_def read_policies_def jm_lookup stored_policy_json)
qed

section \<open>The contract of revisions\<close>

text \<open>A file in which every project can be read. Revisions that JavaScript still counts exactly have a successor.\<close>

definition policies_readable :: "file_read \<Rightarrow> bool" where
  "policies_readable f \<longleftrightarrow> (\<forall>p. \<exists>v. policy_get p f = Inr v)"

definition policy_now :: "string \<Rightarrow> file_read \<Rightarrow> monitoring_policy" where
  "policy_now p f = (case policy_get p f of Inr v \<Rightarrow> v | Inl e \<Rightarrow> default_policy)"

interpretation policies: revisioned mp_revision policy_now "\<lambda>(disk_ok, value) p e. policy_put disk_ok p value (JNum e)" policies_readable "\<lambda>e. e < max_safe_integer"
proof
  fix f f' and a :: "bool \<times> json" and p e v
  assume ok: "policies_readable f" and e: "e < max_safe_integer"
    and put: "(case a of (disk_ok, value) \<Rightarrow> \<lambda>p e. policy_put disk_ok p value (JNum e)) p e f = (Inr v, f')"
  obtain disk_ok val where "a = (disk_ok, val)" by (cases a)
  with put have put': "policy_put disk_ok p val (JNum e) f = (Inr v, f')" by simp
  obtain current where cur: "policy_get p f = Inr current" "JNum e = JNum (mp_revision current)" "mp_revision v = mp_revision current + 1"
    by (rule policy_put_done [OF put'])
  have get: "policy_get q f' = (if q = p then Inr v else policy_get q f)" for q
    by (rule policy_get_put [OF put']) (use cur e in simp)
  show "policies_readable f' \<and> v = policy_now p f' \<and> mp_revision (policy_now p f) = e \<and> mp_revision v = e + 1
      \<and> (\<forall>w. w \<noteq> p \<longrightarrow> policy_now w f' = policy_now w f)"
    using ok cur by (simp add: policies_readable_def policy_now_def get)
next
  fix f f' and a :: "bool \<times> json" and p e x
  assume ok: "policies_readable f"
    and put: "(case a of (disk_ok, value) \<Rightarrow> \<lambda>p e. policy_put disk_ok p value (JNum e)) p e f = (Inl x, f')"
  then have "f' = f" by (cases a) (auto dest: policy_put_refused)
  with ok show "policies_readable f' \<and> (\<forall>w. policy_now w f' = policy_now w f)" by simp
qed


text \<open>
  A policy that was saved is the one that is read next, and no other project's policy changes.
\<close>

theorem saved_policy_reads_back:
  assumes "policy_put disk_ok p val expected f = (Inr v, f')" "mp_revision v \<le> max_safe_integer"
  shows "policy_get q f' = (if q = p then Inr v else policy_get q f)"
  by (rule policy_get_put [OF assms])

text \<open>
  Along any saves of any projects a project's revision never falls, and the same revision means
  the same policy: no save overwrites one it has not seen.
\<close>

theorem policy_revision_names_policy:
  assumes "policies.puts\<^sup>*\<^sup>* f f'" "policies_readable f"
  shows "mp_revision (policy_now p f) \<le> mp_revision (policy_now p f')
    \<and> (mp_revision (policy_now p f') = mp_revision (policy_now p f) \<longrightarrow> policy_now p f' = policy_now p f)"
  using policies.revision_names_value [OF assms, of p] by blast

section \<open>Only the instance owner opens the server's own sources\<close>

text \<open>Saves of Space members who are not the instance owner, for any local project.\<close>

inductive member_save :: "file_read \<Rightarrow> file_read \<Rightarrow> bool" where
  "member_save f (snd (put_policy admin False (Some False) disk_ok p val expected f))"

definition host_sources :: "monitoring_policy \<Rightarrow> string set" where
  "host_sources p = {s \<in> set (mp_paths p). valid_host_log_path s \<or> valid_journal_source s}"

text \<open>What a later policy grants beyond the project's files, an earlier one granted.\<close>

definition no_wider :: "monitoring_policy \<Rightarrow> monitoring_policy \<Rightarrow> bool" where
  "no_wider old new \<longleftrightarrow> host_sources new \<subseteq> host_sources old \<and> set (mp_units new) \<subseteq> set (mp_units old)
     \<and> (mp_processes new \<longrightarrow> mp_processes old)"

lemma no_wider_refl [simp]: "no_wider p p"
  by (simp add: no_wider_def)

lemma no_wider_trans: "no_wider p q \<Longrightarrow> no_wider q r \<Longrightarrow> no_wider p r"
  by (auto simp: no_wider_def)

lemma in_map_filter: "x \<in> set xs \<Longrightarrow> f x = Some y \<Longrightarrow> y \<in> set (List.map_filter f xs)"
  by (force simp: List.map_filter_def)

lemma parse_list_added:
  assumes "parse_list j valid limit = Some xs" "s \<in> set xs" "s \<notin> set old"
  shows "s \<in> set (added_strings j old)"
proof -
  obtain js where j: "j = Some (JArr js)" and xs: "xs = dedupe (map (\<lambda>x. the (as_string x)) js)"
      "list_all (\<lambda>x. case as_string x of Some s \<Rightarrow> valid s | None \<Rightarrow> False) js"
    using assms(1) by (auto simp: parse_list_def split: option.splits json.splits if_splits)
  with assms(2) obtain x where "x \<in> set js" "as_string x = Some s"
    by (auto simp: dedupe_props(2) list_all_iff split: option.splits)
  with assms(3) j show ?thesis by (simp add: in_map_filter)
qed

lemma parse_policy_no_wider:
  assumes "parse_policy val r d = Inr v" "\<not> approves_host_wide val old"
  shows "no_wider old v"
proof -
  obtain input where val: "val = JObj input" using assms(1) by (auto simp: parse_policy_def split: json.splits)
  have lists: "parse_list (map_of input ''serviceUnits'') valid_unit 12 = Some (mp_units v)"
      "parse_list (map_of input ''logPaths'') valid_log_source log_source_limit = Some (mp_paths v)"
      "parse_processes (json_field (nullish (map_of input ''agentAccess'') JNull) ''processes'') = Some (mp_processes v)"
    using assms(1) unfolding val by (auto simp: parse_policy_def Let_def split: option.splits)
  have "s \<in> set (mp_paths old)" if "s \<in> set (mp_paths v)" "valid_host_log_path s \<or> valid_journal_source s" for s
    using parse_list_added [OF lists(2) that(1)] that(2) assms(2) by (auto simp: approves_host_wide_def val list_ex_iff)
  moreover have "u \<in> set (mp_units old)" if "u \<in> set (mp_units v)" for u
    using parse_list_added [OF lists(1) that, of "mp_units old"] assms(2) by (auto simp: approves_host_wide_def val)
  moreover have "mp_processes v \<longrightarrow> mp_processes old"
    using lists(3) assms(2) by (auto simp: approves_host_wide_def val parse_processes_def split: option.splits)
  ultimately show ?thesis by (auto simp: no_wider_def host_sources_def)
qed

lemma put_policy_member:
  assumes "put_policy admin False (Some False) disk_ok p val expected f = (r, f')" "policy_get q f' = Inr new"
  shows "\<exists>old. policy_get q f = Inr old \<and> no_wider old new"
proof (cases "f' = f")
  case False
  then obtain current v where cur: "policy_get p f = Inr current" "\<not> approves_host_wide val current"
      "policy_put disk_ok p val expected f = (Inr v, f')"
    using assms(1) by (auto simp: put_policy_def split: sum.splits if_splits dest: policy_put_refused) (metis obj_sumE policy_put_refused)
  obtain c where put: "policy_get p f = Inr c" "parse_policy val (mp_revision c + 1) (mp_disk c) = Inr v" "mp_revision v = mp_revision c + 1"
    by (rule policy_put_done [OF cur(3)])
  have "no_wider current v" using put cur(1,2) by (intro parse_policy_no_wider) auto
  show ?thesis
  proof (cases "mp_revision v \<le> max_safe_integer")
    case True
    from policy_get_put [OF cur(3) this, of q] assms(2) have "q = p \<and> new = v \<or> policy_get q f = Inr new"
      by (cases "q = p") simp_all
    then show ?thesis using cur(1) \<open>no_wider current v\<close> by auto
  next
    case False
    obtain kvs where kvs: "read_policies f = Inr kvs" "f' = FJson (JObj (jm_set p (policy_json v) kvs))"
      by (rule policy_put_done [OF cur(3)])
    have "q \<noteq> p"
      using assms(2) False by (auto simp: kvs policy_get_def read_policies_def jm_lookup stored_policy_def policy_json_def is_revision_def split: if_splits)
    then show ?thesis using assms(2) kvs by (simp add: policy_get_def read_policies_def jm_lookup)
  qed
qed (use assms(2) in simp)

text \<open>
  C38: However members who are not the instance owner save the policies of local projects, a journal
  or a host file that a policy opens in the end was open before, and so were the services and
  the process names.
\<close>

theorem host_wide_needs_owner:
  assumes "member_save\<^sup>*\<^sup>* f f'" "policy_get p f' = Inr new"
  shows "\<exists>old. policy_get p f = Inr old
    \<and> (\<forall>source kind. open_log False new source = Inr kind \<and> kind \<noteq> ProjectFile \<longrightarrow> open_log False old source = Inr kind)
    \<and> set (mp_units new) \<subseteq> set (mp_units old) \<and> (mp_processes new \<longrightarrow> mp_processes old)"
proof -
  have "\<exists>old. policy_get p f = Inr old \<and> no_wider old new"
    using assms
  proof (induction arbitrary: new rule: rtranclp_induct)
    case (step g h)
    from step.hyps(2) obtain admin disk_ok q val expected where "h = snd (put_policy admin False (Some False) disk_ok q val expected g)"
      by cases auto
    then obtain r where "put_policy admin False (Some False) disk_ok q val expected g = (r, h)" by (metis prod.collapse)
    from put_policy_member [OF this step.prems] step.IH show ?case by (metis no_wider_trans)
  qed (auto intro: exI)
  then obtain old where old: "policy_get p f = Inr old" "no_wider old new" by blast
  then show ?thesis
    by (intro exI [of _ old]) (auto simp: no_wider_def host_sources_def open_log_def split: if_splits)
qed


section \<open>An approved path stays where it is\<close>

text \<open>Resolving the segments of a path below a directory, as \<open>path.resolve\<close> does.\<close>

fun resolve_path :: "string list \<Rightarrow> string list \<Rightarrow> string list" where
  "resolve_path dir [] = dir"
| "resolve_path dir (p # ps) =
     (if p = [] \<or> p = ''.'' then resolve_path dir ps
      else if p = ''..'' then resolve_path (butlast dir) ps
      else resolve_path (dir @ [p]) ps)"

lemma resolve_plain: "\<forall>p \<in> set ps. p \<noteq> [] \<and> p \<noteq> ''.'' \<and> p \<noteq> ''..'' \<Longrightarrow> resolve_path dir ps = dir @ ps"
  by (induction ps arbitrary: dir) auto

lemma split_slash_ne [simp]: "split_slash s \<noteq> []"
  by (induction s) (auto split: list.split)

lemma split_slash_hd: "hd (split_slash s) = takeWhile (\<lambda>c. c \<noteq> CHR ''/'') s"
proof (induction s)
  case (Cons c cs)
  then show ?case by (cases "split_slash cs") (auto simp: split_slash_ne)
qed simp

lemma valid_log_path_segments:
  "valid_log_path s \<Longrightarrow> p \<in> set (split_slash s) \<Longrightarrow> p \<noteq> [] \<and> p \<noteq> ''.'' \<and> p \<noteq> ''..'' \<and> take 1 p \<noteq> ''.''"
  by (simp add: valid_log_path_def list_all_iff)

lemma valid_host_segments:
  "valid_host_log_path s \<Longrightarrow> p \<in> set (split_slash (tl s)) \<Longrightarrow> p \<noteq> [] \<and> p \<noteq> ''.'' \<and> p \<noteq> ''..''"
  by (simp add: valid_host_log_path_def list_all_iff)

text \<open>
  Whatever the file of policies holds: a project file that a policy opens lies inside the
  project and is not hidden, and a host file is the one its path spells, with a name below the
  root.
\<close>

theorem opened_logs_stay_inside:
  assumes "policy_get p f = Inr pol" "open_log remote pol source = Inr kind" "kind \<noteq> JournalLog"
  shows "(if kind = ProjectFile then
      \<not> remote \<and> resolve_path dir (split_slash source) = dir @ split_slash source \<and> (\<forall>name \<in> set (split_slash source). take 1 name \<noteq> ''.'')
    else source = CHR ''/'' # tl source \<and> resolve_path [] (split_slash source) = split_slash (tl source))"
proof (cases kind)
  case ProjectFile
  then have "valid_log_path source \<and> \<not> remote" using assms(2) by (auto simp: open_log_def split: if_splits)
  then show ?thesis using ProjectFile valid_log_path_segments [of source] resolve_plain [of "split_slash source"] by auto
next
  case HostFile
  then have v: "valid_host_log_path source" using assms(2) by (auto simp: open_log_def split: if_splits)
  then have "source = CHR ''/'' # tl source" by (cases source) (auto simp: valid_host_log_path_def)
  moreover from this have "split_slash source = [] # split_slash (tl source)" by (metis split_slash.simps(2))
  ultimately show ?thesis using HostFile valid_host_segments [OF v] resolve_plain [of "split_slash (tl source)" "[]"] by auto
qed (use assms in simp)

section \<open>A reading needs a grant that still stands\<close>

definition gate_event :: "bool \<Rightarrow> monitoring_gate \<Rightarrow> monitoring_gate" where
  "gate_event on g = (if on then gate_enable g else gate_disable g)"

lemma gate_generation: "mg_generation g \<le> mg_generation (fold gate_event evs g)"
proof (induction evs arbitrary: g)
  case (Cons e evs)
  have "mg_generation g \<le> mg_generation (gate_event e g)" by (simp add: gate_event_def gate_enable_def gate_disable_def)
  with Cons [of "gate_event e g"] show ?case by simp
qed simp

lemma gate_same_generation:
  assumes "mg_enabled g" "mg_generation (fold gate_event evs g) = mg_generation g"
  shows "False \<notin> set evs"
  using assms
proof (induction evs)
  case (Cons e evs)
  have "mg_generation (gate_event e g) \<le> mg_generation g" using Cons.prems(2) gate_generation [of "gate_event e g" evs] by simp
  then have "e" by (cases e) (simp_all add: gate_event_def gate_disable_def)
  with Cons show ?case by (simp add: gate_event_def gate_enable_def)
qed simp

text \<open>
  An agent gets the result of a probe only if the policy granted the operation when it started
  and still grants it at the end, and monitoring was never switched off meanwhile.
\<close>

theorem reading_needs_standing_grant:
  assumes "read_begin sandboxed p oper g f = Inr epoch"
    and "read_end epoch p oper (fold gate_event evs g) f' result = Inr x"
  shows "False \<notin> set evs \<and> \<not> sandboxed \<and> x = result
    \<and> (\<exists>first last_one. policy_get p f = Inr first \<and> allows first oper \<and> policy_get p f' = Inr last_one \<and> allows last_one oper)"
proof -
  obtain first where first: "mg_enabled g" "\<not> sandboxed" "epoch = mg_generation g" "policy_get p f = Inr first" "allows first oper"
    using assms(1) by (auto simp: read_begin_def admitted_def require_agent_access_def split: sum.splits if_splits)
  obtain last_one where last_one: "policy_get p f' = Inr last_one" "allows last_one oper" "mg_generation (fold gate_event evs g) = epoch" "x = result"
    using assms(2) by (auto simp: read_end_def still_current_def require_agent_access_def split: sum.splits if_splits)
  have "False \<notin> set evs" by (rule gate_same_generation [OF first(1)]) (simp add: last_one(3) first(3))
  with first last_one show ?thesis by blast
qed

section \<open>A project with a policy\<close>

definition demo_policy :: monitoring_policy where
  "demo_policy = default_policy\<lparr>mp_revision := 1, mp_metrics := True, mp_units := [''nginx.service''],
     mp_paths := [''logs/app.log'', ''/var/log/syslog'']\<rparr>"

definition demo_file :: file_read where
  "demo_file = FJson (JObj [(''p'', policy_json demo_policy)])"

lemma demo_get: "policy_get ''p'' demo_file = Inr demo_policy"
  by code_simp

lemma demo_save: "policy_put True ''q'' (policy_json demo_policy) (JNum 0) demo_file =
    (Inr demo_policy, FJson (JObj [(''p'', policy_json demo_policy), (''q'', policy_json demo_policy)]))"
  by code_simp

theorem saved_policy_reads_back_witness:
  "policy_get ''q'' (FJson (JObj [(''p'', policy_json demo_policy), (''q'', policy_json demo_policy)])) =
     (if (''q'' :: string) = ''q'' then Inr demo_policy else policy_get ''q'' demo_file)"
  by (rule saved_policy_reads_back [OF demo_save]) (simp add: demo_policy_def max_safe_integer_def)

lemma demo_readable: "policies_readable demo_file"
  unfolding policies_readable_def
proof
  fix q
  show "\<exists>v. policy_get q demo_file = Inr v"
  proof (cases "q = ''p''")
    case True
    with demo_get show ?thesis by blast
  qed (simp add: policy_get_def demo_file_def read_policies_def jm_get_def)
qed

theorem policy_revision_names_policy_witness:
  "mp_revision (policy_now ''p'' demo_file) \<le> mp_revision (policy_now ''p'' (snd (policy_put True ''q'' (policy_json demo_policy) (JNum 0) demo_file)))
    \<and> (mp_revision (policy_now ''p'' (snd (policy_put True ''q'' (policy_json demo_policy) (JNum 0) demo_file))) = mp_revision (policy_now ''p'' demo_file)
       \<longrightarrow> policy_now ''p'' (snd (policy_put True ''q'' (policy_json demo_policy) (JNum 0) demo_file)) = policy_now ''p'' demo_file)"
proof -
  have "policies.puts demo_file (snd (policy_put True ''q'' (policy_json demo_policy) (JNum 0) demo_file))"
    unfolding policies.puts_def
    by (intro exI [of _ "(True, policy_json demo_policy)"] exI [of _ "''q''"] exI [of _ 0]) (simp add: max_safe_integer_def)
  then have "policies.puts\<^sup>*\<^sup>* demo_file (snd (policy_put True ''q'' (policy_json demo_policy) (JNum 0) demo_file))"
    by (rule r_into_rtranclp)
  from policy_revision_names_policy [OF this demo_readable] show ?thesis .
qed

theorem host_wide_needs_owner_witness:
  "\<exists>old. policy_get ''p'' demo_file = Inr old
    \<and> (\<forall>source kind. open_log False demo_policy source = Inr kind \<and> kind \<noteq> ProjectFile \<longrightarrow> open_log False old source = Inr kind)
    \<and> set (mp_units demo_policy) \<subseteq> set (mp_units old) \<and> (mp_processes demo_policy \<longrightarrow> mp_processes old)"
proof -
  have "member_save demo_file (snd (put_policy True False (Some False) True ''p'' (JObj []) (JNum 1) demo_file))"
    by (rule member_save.intros)
  moreover have "policy_get ''p'' (snd (put_policy True False (Some False) True ''p'' (JObj []) (JNum 1) demo_file)) = Inr demo_policy"
    by code_simp
  ultimately show ?thesis using host_wide_needs_owner r_into_rtranclp by metis
qed

theorem opened_logs_stay_inside_witness:
  "(if ProjectFile = ProjectFile then
      \<not> False \<and> resolve_path [''home''] (split_slash ''logs/app.log'') = [''home''] @ split_slash ''logs/app.log''
        \<and> (\<forall>name \<in> set (split_slash ''logs/app.log''). take 1 name \<noteq> ''.'')
    else ''logs/app.log'' = CHR ''/'' # tl ''logs/app.log'' \<and> resolve_path [] (split_slash ''logs/app.log'') = split_slash (tl ''logs/app.log''))"
  by (rule opened_logs_stay_inside [OF demo_get, of False "''logs/app.log''" ProjectFile]) (code_simp, simp)

theorem reading_needs_standing_grant_witness:
  "False \<notin> set [True] \<and> \<not> False \<and> (7 :: int) = 7
    \<and> (\<exists>first last_one. policy_get ''p'' demo_file = Inr first \<and> allows first OpMetrics \<and> policy_get ''p'' demo_file = Inr last_one \<and> allows last_one OpMetrics)"
proof -
  have "read_begin False ''p'' OpMetrics \<lparr>mg_enabled = True, mg_generation = 3\<rparr> demo_file = Inr 3"
    by (simp add: read_begin_def admitted_def demo_get require_agent_access_def allows_def demo_policy_def)
  moreover have "read_end 3 ''p'' OpMetrics (fold gate_event [True] \<lparr>mg_enabled = True, mg_generation = 3\<rparr>) demo_file (7 :: int) = Inr 7"
    by (simp add: read_end_def still_current_def gate_event_def gate_enable_def demo_get require_agent_access_def allows_def demo_policy_def)
  ultimately show ?thesis by (rule reading_needs_standing_grant)
qed

end
