(* ===== verification/MonitoringHistory.thy ===== *)
theory MonitoringHistory
  imports JsMap
begin

text \<open>
  The chart of a machine, packages/monitoring/src/history.ts, with the readings of
  packages/monitoring/src/contracts.ts: three tiers of points, each holding the highest
  reading of its step, written to a file at most every five minutes.

  Loads and percentages are whole hundredths, also where they stand in the file (the code
  keeps two decimals); sizes are bytes. Divisions are exact: the rounding of floating point
  is not modelled.
\<close>

section \<open>Readings\<close>

record disk_usage =
  du_mount :: string
  du_used :: int
  du_available :: int

record host_metrics =
  hm_hostname :: string
  hm_cpus :: int
  hm_load :: int \<comment> \<open>the 5-minute load in hundredths\<close>
  hm_memory_total :: int
  hm_memory_available :: int
  hm_disks :: "disk_usage list"

text \<open>\<open>Math.round\<close> of a quotient with a positive denominator.\<close>

definition round_div :: "int \<Rightarrow> int \<Rightarrow> int" where
  "round_div a b = (2 * a + b) div (2 * b)"

text \<open>\<open>rounded(loadRatio(metrics))\<close> and \<open>rounded(memoryPercent(metrics))\<close>, in hundredths.\<close>

definition load_ratio :: "host_metrics \<Rightarrow> int" where
  "load_ratio m = round_div (hm_load m) (hm_cpus m)"

definition memory_percent :: "host_metrics \<Rightarrow> int" where
  "memory_percent m = round_div (10000 * (hm_memory_total m - hm_memory_available m)) (hm_memory_total m)"

text \<open>\<open>Math.ceil(used / total * 100 - 1e-9)\<close>, a whole percentage.\<close>

definition disk_percent :: "disk_usage \<Rightarrow> int" where
  "disk_percent d =
     (let total = du_used d + du_available d
      in if 0 < total then - ((total - du_used d * 100 * 10 ^ 9) div (total * 10 ^ 9)) else 0)"

definition worst_disk :: "host_metrics \<Rightarrow> disk_usage option" where
  "worst_disk m =
     fold (\<lambda>d worst. case worst of None \<Rightarrow> Some d | Some w \<Rightarrow> if disk_percent w < disk_percent d then Some d else Some w)
       (hm_disks m) None"

type_synonym reading = "int \<times> int \<times> int option"

definition reading_of :: "host_metrics \<Rightarrow> reading" where
  "reading_of m = (load_ratio m, memory_percent m, map_option (\<lambda>d. 100 * disk_percent d) (worst_disk m))"

section \<open>Tiers\<close>

datatype history_range = Hour | Day | Week

definition step_ms :: "history_range \<Rightarrow> int" where
  "step_ms r = (case r of Hour \<Rightarrow> 60000 | Day \<Rightarrow> 5 * 60000 | Week \<Rightarrow> 30 * 60000)"

definition span_ms :: "history_range \<Rightarrow> int" where
  "span_ms r = (case r of Hour \<Rightarrow> 60 * 60000 | Day \<Rightarrow> 24 * 60 * 60000 | Week \<Rightarrow> 7 * 24 * 60 * 60000)"

type_synonym history_point = "int \<times> int option \<times> int option \<times> int option"

record metric_tiers =
  tr_hour :: "history_point list"
  tr_day :: "history_point list"
  tr_week :: "history_point list"

definition no_tiers :: metric_tiers where
  "no_tiers = \<lparr>tr_hour = [], tr_day = [], tr_week = []\<rparr>"

definition tier :: "history_range \<Rightarrow> metric_tiers \<Rightarrow> history_point list" where
  "tier r t = (case r of Hour \<Rightarrow> tr_hour t | Day \<Rightarrow> tr_day t | Week \<Rightarrow> tr_week t)"

fun higher_value :: "int option \<Rightarrow> int option \<Rightarrow> int option" where
  "higher_value None b = b"
| "higher_value a None = a"
| "higher_value (Some a) (Some b) = Some (max a b)"

definition slot_of :: "history_range \<Rightarrow> int \<Rightarrow> int" where
  "slot_of r at_ms = at_ms div step_ms r * step_ms r"

fun raise_point :: "reading \<Rightarrow> history_point \<Rightarrow> history_point" where
  "raise_point (l, m, d) (s, pl, pm, pd) = (s, higher_value pl (Some l), higher_value pm (Some m), higher_value pd d)"

definition new_point :: "int \<Rightarrow> reading \<Rightarrow> history_point" where
  "new_point s x = (case x of (l, m, d) \<Rightarrow> (s, Some l, Some m, d))"

definition put_point :: "history_range \<Rightarrow> int \<Rightarrow> reading \<Rightarrow> history_point list \<Rightarrow> history_point list" where
  "put_point r at_ms x points =
     (let s = slot_of r at_ms
      in if points \<noteq> [] \<and> fst (last points) = s then butlast points @ [raise_point x (last points)]
         else points @ [new_point s x])"

definition drop_old :: "history_range \<Rightarrow> int \<Rightarrow> history_point list \<Rightarrow> history_point list" where
  "drop_old r at_ms = dropWhile (\<lambda>p. fst p < at_ms - span_ms r - step_ms r)"

definition add_reading :: "history_range \<Rightarrow> int \<Rightarrow> reading \<Rightarrow> history_point list \<Rightarrow> history_point list" where
  "add_reading r at_ms x points = drop_old r at_ms (put_point r at_ms x points)"

definition add_to_tiers :: "int \<Rightarrow> reading \<Rightarrow> metric_tiers \<Rightarrow> metric_tiers" where
  "add_to_tiers at_ms x t =
     \<lparr>tr_hour = add_reading Hour at_ms x (tr_hour t), tr_day = add_reading Day at_ms x (tr_day t),
      tr_week = add_reading Week at_ms x (tr_week t)\<rparr>"

section \<open>The store\<close>

definition history_flush_ms :: int where
  "history_flush_ms = 5 * 60000"

definition machine_limit :: nat where
  "machine_limit = 64"

record history_store =
  hs_machines :: "(string, metric_tiers) jsmap option" \<comment> \<open>\<open>None\<close>: not read yet\<close>
  hs_dirty :: bool
  hs_written_at :: int
  hs_file :: file_read

definition fresh_history :: "file_read \<Rightarrow> history_store" where
  "fresh_history f = \<lparr>hs_machines = None, hs_dirty = False, hs_written_at = 0, hs_file = f\<rparr>"

definition is_hex_char :: "char \<Rightarrow> bool" where
  "is_hex_char c \<longleftrightarrow> c \<in> set ''0123456789abcdef''"

definition valid_machine :: "string \<Rightarrow> bool" where
  "valid_machine s \<longleftrightarrow> s = ''local'' \<or> take 4 s = ''ssh-'' \<and> length s = 20 \<and> list_all is_hex_char (drop 4 s)"

fun parse_value :: "json \<Rightarrow> int option option" where
  "parse_value JNull = Some None"
| "parse_value (JNum n) = Some (Some n)"
| "parse_value _ = None"

fun parse_point :: "json \<Rightarrow> history_point option" where
  "parse_point (JArr [JNum s, l, m, d]) =
     (case (parse_value l, parse_value m, parse_value d) of
        (Some l', Some m', Some d') \<Rightarrow> Some (s, l', m', d')
      | _ \<Rightarrow> None)"
| "parse_point _ = None"

fun parse_tier :: "json option \<Rightarrow> history_point list" where
  "parse_tier (Some (JArr xs)) = List.map_filter parse_point xs"
| "parse_tier _ = []"

definition parse_tiers :: "json \<Rightarrow> metric_tiers" where
  "parse_tiers j = \<lparr>tr_hour = parse_tier (json_field j ''1h''), tr_day = parse_tier (json_field j ''24h''), tr_week = parse_tier (json_field j ''7d'')\<rparr>"

definition parse_machines :: "(string \<times> json) list \<Rightarrow> (string, metric_tiers) jsmap" where
  "parse_machines entries = fold (\<lambda>(k, j) m. if valid_machine k then jm_set k (parse_tiers j) m else m) entries []"

definition load_machines :: "file_read \<Rightarrow> (string, metric_tiers) jsmap" where
  "load_machines f =
     (case f of
        FJson (JObj kvs) \<Rightarrow>
          if map_of kvs ''v'' = Some (JNum 1) then
            (case map_of kvs ''machines'' of Some (JObj entries) \<Rightarrow> parse_machines entries | _ \<Rightarrow> [])
          else []
      | _ \<Rightarrow> [])"

definition machines_of :: "history_store \<Rightarrow> (string, metric_tiers) jsmap" where
  "machines_of s = (case hs_machines s of Some m \<Rightarrow> m | None \<Rightarrow> load_machines (hs_file s))"

definition value_json :: "int option \<Rightarrow> json" where
  "value_json v = (case v of None \<Rightarrow> JNull | Some n \<Rightarrow> JNum n)"

definition point_json :: "history_point \<Rightarrow> json" where
  "point_json p = (case p of (s, l, m, d) \<Rightarrow> JArr [JNum s, value_json l, value_json m, value_json d])"

definition tiers_json :: "metric_tiers \<Rightarrow> json" where
  "tiers_json t = JObj [(''1h'', JArr (map point_json (tr_hour t))), (''24h'', JArr (map point_json (tr_day t))), (''7d'', JArr (map point_json (tr_week t)))]"

definition history_json :: "(string, metric_tiers) jsmap \<Rightarrow> json" where
  "history_json m = JObj [(''v'', JNum 1), (''machines'', JObj (map (\<lambda>(k, t). (k, tiers_json t)) m))]"

text \<open>\<open>disk_ok\<close>: the atomic write succeeds; otherwise it throws and the store stays dirty.\<close>

definition history_flush :: "bool \<Rightarrow> int \<Rightarrow> history_store \<Rightarrow> control_error option \<times> history_store" where
  "history_flush disk_ok at_ms s =
     (if \<not> hs_dirty s then (None, s)
      else if disk_ok then
        (None, s\<lparr>hs_machines := Some (machines_of s), hs_dirty := False, hs_written_at := at_ms,
                 hs_file := FJson (history_json (machines_of s))\<rparr>)
      else (Some IoFailure, s\<lparr>hs_machines := Some (machines_of s)\<rparr>))"

text \<open>The machine whose last minute is the oldest, the first of those in insertion order.\<close>

definition last_minute :: "metric_tiers \<Rightarrow> int" where
  "last_minute t = (if tr_hour t = [] then 0 else fst (last (tr_hour t)))"

fun stalest :: "(string, metric_tiers) jsmap \<Rightarrow> string option" where
  "stalest [] = None"
| "stalest (x # xs) = Some (fst (fold (\<lambda>y best. if last_minute (snd y) < last_minute (snd best) then y else best) xs x))"

definition make_room :: "(string, metric_tiers) jsmap \<Rightarrow> (string, metric_tiers) jsmap" where
  "make_room m = (if machine_limit \<le> length m then (case stalest m of Some k \<Rightarrow> jm_delete k m | None \<Rightarrow> m) else m)"

definition record_machines :: "string \<Rightarrow> reading \<Rightarrow> int \<Rightarrow> (string, metric_tiers) jsmap \<Rightarrow> (string, metric_tiers) jsmap" where
  "record_machines k x at_ms m =
     (case jm_get m k of
        Some t \<Rightarrow> jm_set k (add_to_tiers at_ms x t) m
      | None \<Rightarrow> jm_set k (add_to_tiers at_ms x no_tiers) (make_room m))"

definition history_record :: "bool \<Rightarrow> string \<Rightarrow> host_metrics \<Rightarrow> int \<Rightarrow> history_store \<Rightarrow> control_error option \<times> history_store" where
  "history_record disk_ok k metrics at_ms s =
     (let s1 = s\<lparr>hs_machines := Some (record_machines k (reading_of metrics) at_ms (machines_of s)), hs_dirty := True\<rparr>
      in if history_flush_ms \<le> at_ms - hs_written_at s then history_flush disk_ok at_ms s1 else (None, s1))"

definition history_read :: "string \<Rightarrow> history_range \<Rightarrow> int \<Rightarrow> history_store \<Rightarrow> history_point list" where
  "history_read k r at_ms s =
     filter (\<lambda>p. at_ms - span_ms r \<le> fst p) (case jm_get (machines_of s) k of Some t \<Rightarrow> tier r t | None \<Rightarrow> [])"


section \<open>A tier holds the peaks of its readings\<close>

definition peak :: "int list \<Rightarrow> int option" where
  "peak xs = (if xs = [] then None else Some (Max (set xs)))"

definition slot_readings :: "history_range \<Rightarrow> (int \<times> reading) list \<Rightarrow> int \<Rightarrow> reading list" where
  "slot_readings r rs s = map snd (filter (\<lambda>(t, x). slot_of r t = s) rs)"

text \<open>The point a chart should show for a slot: the highest of the readings that fall into it.\<close>

definition slot_point :: "history_range \<Rightarrow> (int \<times> reading) list \<Rightarrow> int \<Rightarrow> history_point" where
  "slot_point r rs s =
     (let xs = slot_readings r rs s
      in (s, peak (map fst xs), peak (map (fst \<circ> snd) xs), peak (List.map_filter (snd \<circ> snd) xs)))"

definition slots :: "history_range \<Rightarrow> (int \<times> reading) list \<Rightarrow> int list" where
  "slots r rs = remdups_adj (map (\<lambda>(t, x). slot_of r t) rs)"

definition peaks :: "history_range \<Rightarrow> (int \<times> reading) list \<Rightarrow> history_point list" where
  "peaks r rs = map (slot_point r rs) (slots r rs)"

definition run_tier :: "history_range \<Rightarrow> (int \<times> reading) list \<Rightarrow> history_point list" where
  "run_tier r rs = fold (\<lambda>(t, x). add_reading r t x) rs []"

lemma step_pos [simp]: "0 < step_ms r" and span_pos [simp]: "0 < span_ms r"
  by (cases r; simp add: step_ms_def span_ms_def)+

lemma slot_le: "slot_of r t \<le> t" and slot_gt: "t - step_ms r < slot_of r t"
proof -
  have "t = slot_of r t + t mod step_ms r" by (simp add: slot_of_def)
  with pos_mod_bound [OF step_pos, of t r] pos_mod_sign [OF step_pos, of t r]
  show "slot_of r t \<le> t" "t - step_ms r < slot_of r t" by linarith+
qed

lemma slot_mono: "t \<le> u \<Longrightarrow> slot_of r t \<le> slot_of r u"
  unfolding slot_of_def by (intro mult_right_mono zdiv_mono1) (simp_all add: less_imp_le)

lemma peak_append [simp]: "peak (xs @ [x]) = higher_value (peak xs) (Some x)"
  by (simp add: peak_def max.commute)

lemma higher_None [simp]: "higher_value a None = a"
  by (cases a) simp_all

lemma map_filter_append: "List.map_filter f (xs @ ys) = List.map_filter f xs @ List.map_filter f ys"
  by (simp add: List.map_filter_def)

lemma peak_disks: "peak (List.map_filter f (xs @ [x])) = higher_value (peak (List.map_filter f xs)) (f x)"
  by (cases "f x") (simp_all add: map_filter_append List.map_filter_def)

lemma slot_point_same: "slot_point r (rs @ [(t, x)]) (slot_of r t) = raise_point x (slot_point r rs (slot_of r t))"
  by (cases x) (simp add: slot_point_def slot_readings_def Let_def peak_disks)

lemma slot_point_other: "slot_of r t \<noteq> s \<Longrightarrow> slot_point r (rs @ [(t, x)]) s = slot_point r rs s"
  by (simp add: slot_point_def slot_readings_def)

lemma slot_point_fst [simp]: "fst (slot_point r rs s) = s"
  by (simp add: slot_point_def Let_def)

lemma remdups_adj_snoc:
  "remdups_adj (xs @ [x]) = (if xs \<noteq> [] \<and> last xs = x then remdups_adj xs else remdups_adj xs @ [x])"
  by (induction xs rule: remdups_adj.induct) auto

lemma slots_snoc: "slots r (rs @ [(t, x)]) =
    (if rs \<noteq> [] \<and> slot_of r (fst (last rs)) = slot_of r t then slots r rs else slots r rs @ [slot_of r t])"
  by (cases "last rs") (auto simp: slots_def remdups_adj_snoc last_map)

lemma slots_Nil [simp]: "slots r [] = []"
  by (simp add: slots_def)

lemma slots_Nil_iff [simp]: "slots r rs = [] \<longleftrightarrow> rs = []"
  by (simp add: slots_def)

lemma slots_last: "rs \<noteq> [] \<Longrightarrow> last (slots r rs) = slot_of r (fst (last rs))"
  by (induction rs rule: rev_induct) (auto simp: slots_snoc)

lemma slots_set: "set (slots r rs) = (\<lambda>(t, x). slot_of r t) ` set rs"
  by (simp add: slots_def)

lemma sorted_le_last: "sorted (map f xs) \<Longrightarrow> x \<in> set xs \<Longrightarrow> f x \<le> f (last xs)"
  by (induction xs) auto

lemma strict_sorted_snoc: "sorted_wrt (<) (xs @ [x :: int]) \<longleftrightarrow> sorted_wrt (<) xs \<and> (\<forall>y \<in> set xs. y < x)"
  by (auto simp: sorted_wrt_append)

lemma slots_sorted: "sorted (map fst rs) \<Longrightarrow> sorted_wrt (<) (slots r rs)"
proof (induction rs rule: rev_induct)
  case (snoc y rs)
  obtain t x where y: "y = (t, x)" by (cases y)
  have "u \<le> slot_of r t" if "u \<in> set (slots r rs)" for u
    using that snoc.prems by (auto simp: y slots_set sorted_append intro!: slot_mono)
  moreover have "u \<noteq> slot_of r t" if "u \<in> set (slots r rs)" "slot_of r (fst (last rs)) \<noteq> slot_of r t" for u
  proof -
    have ne: "rs \<noteq> []" using that(1) by (auto simp: slots_def)
    from that(1) obtain t' x' where tx: "(t', x') \<in> set rs" "u = slot_of r t'" by (auto simp: slots_set)
    then have "t' \<le> fst (last rs)" using sorted_le_last [of fst rs "(t', x')"] snoc.prems by (simp add: sorted_append)
    moreover have "fst (last rs) \<le> t" using snoc.prems ne by (auto simp: y sorted_append)
    ultimately show ?thesis using that(2) slot_mono [of t' "fst (last rs)" r] slot_mono [of "fst (last rs)" t r] tx(2) by linarith
  qed
  ultimately show ?case using snoc by (fastforce simp: y slots_snoc sorted_append strict_sorted_snoc)
qed (simp add: slots_def)


lemma put_peaks:
  assumes "sorted (map fst (rs @ [(t, x)]))"
  shows "put_point r t x (peaks r rs) = peaks r (rs @ [(t, x)])"
proof (cases "rs \<noteq> [] \<and> slot_of r (fst (last rs)) = slot_of r t")
  case True
  let ?s = "slot_of r t"
  obtain us where last: "slots r rs = us @ [?s]"
    using True slots_last [of rs r] append_butlast_last_id [of "slots r rs"] by (metis slots_Nil_iff)
  have "sorted_wrt (<) (us @ [?s])" using slots_sorted [of rs r] assms by (simp add: sorted_append last)
  then have "\<forall>u \<in> set us. u \<noteq> ?s" by (auto simp: strict_sorted_snoc)
  then have "map (slot_point r (rs @ [(t, x)])) us = map (slot_point r rs) us"
    by (intro map_cong slot_point_other) auto
  then have "peaks r (rs @ [(t, x)]) = map (slot_point r rs) us @ [raise_point x (slot_point r rs ?s)]"
    using True by (simp add: peaks_def slots_snoc last slot_point_same)
  moreover have "peaks r rs = map (slot_point r rs) us @ [slot_point r rs ?s]"
    by (simp add: peaks_def last)
  ultimately show ?thesis by (simp add: put_point_def)
next
  case False
  have "?thesis" if "rs = []"
    using that by (cases x) (simp add: put_point_def peaks_def slots_def slot_point_def slot_readings_def new_point_def peak_def List.map_filter_def split: option.split)
  moreover have ?thesis if ne: "rs \<noteq> []"
  proof -
    have ps: "peaks r rs \<noteq> []" "fst (last (peaks r rs)) \<noteq> slot_of r t"
      using ne False slots_last [OF ne, of r] by (simp_all add: peaks_def last_map)
    have old: "\<forall>u \<in> set (slots r rs). u \<noteq> slot_of r t"
      using slots_sorted [OF assms, of r] ne False by (auto simp: slots_snoc strict_sorted_snoc)
    have "slot_readings r rs (slot_of r t) = []"
      using old by (auto simp: slot_readings_def slots_set filter_empty_conv)
    then have "slot_point r (rs @ [(t, x)]) (slot_of r t) = new_point (slot_of r t) x"
      unfolding slot_point_same by (cases x) (simp add: slot_point_def new_point_def peak_def List.map_filter_def)
    moreover have "map (slot_point r (rs @ [(t, x)])) (slots r rs) = peaks r rs"
      unfolding peaks_def using old by (intro map_cong slot_point_other) auto
    ultimately show ?thesis using ne False ps by (simp add: put_point_def Let_def peaks_def [of r "rs @ [(t, x)]"] slots_snoc)
  qed
  ultimately show ?thesis by blast
qed

lemma put_point_append: "qs \<noteq> [] \<Longrightarrow> put_point r t x (ps @ qs) = ps @ put_point r t x qs"
  by (simp add: put_point_def Let_def butlast_append)

lemma drop_old_put:
  assumes "t0 \<le> t" "drop_old r t0 ps \<noteq> []"
  shows "drop_old r t (put_point r t x (drop_old r t0 ps)) = drop_old r t (put_point r t x ps)"
proof -
  let ?old = "\<lambda>p. fst p < t0 - span_ms r - step_ms r"
  have ps: "takeWhile ?old ps @ drop_old r t0 ps = ps" by (simp add: drop_old_def)
  have eq: "put_point r t x ps = takeWhile ?old ps @ put_point r t x (drop_old r t0 ps)"
    using put_point_append [OF assms(2), of r t x "takeWhile ?old ps"] by (simp only: ps)
  have "fst p < t - span_ms r - step_ms r" if "p \<in> set (takeWhile ?old ps)" for p
    using set_takeWhileD [OF that] assms(1) by simp
  then show ?thesis unfolding eq drop_old_def [of r t] by (rule dropWhile_append2 [symmetric])
qed

lemma drop_old_peaks: "rs \<noteq> [] \<Longrightarrow> drop_old r (fst (last rs)) (peaks r rs) \<noteq> []"
proof -
  assume ne: "rs \<noteq> []"
  have "last (slots r rs) \<in> set (slots r rs)" using ne by simp
  then have "slot_point r rs (last (slots r rs)) \<in> set (peaks r rs)" by (simp add: peaks_def)
  moreover have "\<not> fst (slot_point r rs (last (slots r rs))) < fst (last rs) - span_ms r - step_ms r"
    using slots_last [OF ne, of r] slot_gt [of "fst (last rs)" r] span_pos [of r] unfolding slot_point_fst by linarith
  ultimately show ?thesis unfolding drop_old_def dropWhile_eq_Nil_conv by blast
qed

lemma run_tier_peaks:
  assumes "rs \<noteq> []" "sorted (map fst rs)"
  shows "run_tier r rs = drop_old r (fst (last rs)) (peaks r rs)"
  using assms
proof (induction rs rule: rev_induct)
  case (snoc y rs)
  obtain t x where y: "y = (t, x)" by (cases y)
  have srt: "sorted (map fst (rs @ [(t, x)]))" using snoc.prems y by simp
  have run: "run_tier r (rs @ [(t, x)]) = add_reading r t x (run_tier r rs)" by (simp add: run_tier_def)
  show ?case
  proof (cases "rs = []")
    case True
    with put_peaks [OF srt, of r] show ?thesis by (simp add: y run_tier_def add_reading_def peaks_def)
  next
    case False
    have "run_tier r rs = drop_old r (fst (last rs)) (peaks r rs)" using snoc False by (simp add: sorted_append)
    moreover have "fst (last rs) \<le> t" using srt False by (auto simp: sorted_append)
    ultimately show ?thesis
      using drop_old_put [OF _ drop_old_peaks [OF False]] put_peaks [OF srt] by (simp add: run y add_reading_def)
  qed
qed simp

lemma filter_dropWhile:
  assumes "\<And>p. p \<in> set ps \<Longrightarrow> P p \<Longrightarrow> \<not> Q p"
  shows "filter P (dropWhile Q ps) = filter P ps"
  using assms by (induction ps) auto


section \<open>The chart of a machine\<close>

text \<open>Recorded readings: whether the disk takes a write, the machine, its metrics and the time.\<close>

type_synonym sample = "bool \<times> string \<times> host_metrics \<times> int"

definition record_all :: "sample list \<Rightarrow> history_store \<Rightarrow> history_store" where
  "record_all evs s = fold (\<lambda>(ok, k, m, t) s. snd (history_record ok k m t s)) evs s"

definition sample_times :: "sample list \<Rightarrow> int list" where
  "sample_times evs = map (\<lambda>(ok, k, m, t). t) evs"

definition sample_machines :: "sample list \<Rightarrow> string set" where
  "sample_machines evs = (\<lambda>(ok, k, m, t). k) ` set evs"

definition readings_of :: "string \<Rightarrow> sample list \<Rightarrow> (int \<times> reading) list" where
  "readings_of k evs = map (\<lambda>(ok, k', m, t). (t, reading_of m)) (filter (\<lambda>(ok, k', m, t). k' = k) evs)"

lemma machines_of_flush [simp]: "machines_of (snd (history_flush ok t s)) = machines_of s"
  by (simp add: history_flush_def machines_of_def split: option.split)

lemma machines_of_record: "machines_of (snd (history_record ok k m t s)) = record_machines k (reading_of m) t (machines_of s)"
  by (simp add: history_record_def Let_def, simp add: machines_of_def)

lemma record_all_snoc: "record_all (evs @ [(ok, k, m, t)]) s = snd (history_record ok k m t (record_all evs s))"
  by (simp add: record_all_def)

lemma readings_snoc: "readings_of k (evs @ [(ok, k', m, t)]) = readings_of k evs @ (if k' = k then [(t, reading_of m)] else [])"
  by (simp add: readings_of_def)

lemma tier_add: "tier r (add_to_tiers t x ts) = add_reading r t x (tier r ts)"
  by (cases r) (simp_all add: tier_def add_to_tiers_def)

lemma tier_none [simp]: "tier r no_tiers = []"
  by (cases r) (simp_all add: tier_def no_tiers_def)

lemma run_tier_snoc: "run_tier r (rs @ [(t, x)]) = add_reading r t x (run_tier r rs)"
  by (simp add: run_tier_def)

lemma run_tier_single [simp]: "run_tier r [(t, x)] = add_reading r t x []"
  by (simp add: run_tier_def)

lemma run_tier_Nil [simp]: "run_tier r [] = []"
  by (simp add: run_tier_def)

lemma length_keys: "length (jm_keys m) = length m"
  by (simp add: jm_keys_def)

lemma make_room_small: "length m < machine_limit \<Longrightarrow> make_room m = m"
  by (simp add: make_room_def)

text \<open>Up to the limit of machines nothing is evicted: each tier is the run of its machine's readings.\<close>

definition charts :: "sample list \<Rightarrow> (string, metric_tiers) jsmap \<Rightarrow> bool" where
  "charts evs m \<longleftrightarrow> jm_ok m \<and> set (jm_keys m) = sample_machines evs
     \<and> (\<forall>k ts. jm_get m k = Some ts \<longrightarrow> (\<forall>r. tier r ts = run_tier r (readings_of k evs)))"

lemma samples_snoc [simp]: "sample_machines (evs @ [(ok, k, x, t)]) = insert k (sample_machines evs)"
  by (simp add: sample_machines_def)

lemma charts_keys: "charts evs m \<Longrightarrow> jm_get m k = None \<longleftrightarrow> k \<notin> sample_machines evs"
  by (simp add: charts_def jm_get_None_iff)

lemma readings_new: "k \<notin> sample_machines evs \<Longrightarrow> readings_of k evs = []"
  by (auto simp: readings_of_def sample_machines_def filter_empty_conv image_iff)

lemma charts_snoc:
  assumes "charts evs m" "card (sample_machines (evs @ [(ok, k, x, t)])) \<le> machine_limit"
  shows "charts (evs @ [(ok, k, x, t)]) (record_machines k (reading_of x) t m)"
proof (cases "jm_get m k")
  case None
  have new: "k \<notin> sample_machines evs" using None charts_keys [OF assms(1)] by simp
  have "card (insert k (set (jm_keys m))) \<le> machine_limit"
    using assms by (simp add: charts_def sample_machines_def)
  moreover have "card (set (jm_keys m)) = length m"
    using assms(1) by (intro jm_card_keys) (simp add: charts_def)
  moreover have "finite (set (jm_keys m))" "k \<notin> set (jm_keys m)" using new assms(1) by (auto simp: charts_def sample_machines_def)
  ultimately have "length m < machine_limit" by (simp del: set_map add: card_insert_disjoint)
  with None have rec: "record_machines k (reading_of x) t m = jm_set k (add_to_tiers t (reading_of x) no_tiers) m"
    by (simp add: record_machines_def make_room_small)
  have keys: "set (jm_keys (jm_set k v m)) = insert k (set (jm_keys m))" for v by (auto simp: jm_keys_set jm_has_keys)
  show ?thesis unfolding rec charts_def keys using assms(1) readings_new [OF new]
    by (auto simp: charts_def jm_lookup readings_snoc tier_add run_tier_snoc sample_machines_def)
next
  case (Some ts)
  then have old: "k \<in> set (jm_keys m)" using jm_get_None_iff [of m k] by simp
  have rec: "record_machines k (reading_of x) t m = jm_set k (add_to_tiers t (reading_of x) ts) m"
    using Some by (simp add: record_machines_def)
  have keys: "set (jm_keys (jm_set k v m)) = set (jm_keys m)" for v using old by (auto simp: jm_keys_set jm_has_keys)
  have names: "sample_machines (evs @ [(ok, k, x, t)]) = sample_machines evs"
    using old assms(1) by (simp add: charts_def insert_absorb)
  show ?thesis unfolding rec charts_def keys names using assms(1) Some
    by (auto simp: charts_def jm_lookup readings_snoc tier_add run_tier_snoc)
qed

lemma charts_all:
  assumes "card (sample_machines evs) \<le> machine_limit"
  shows "charts evs (machines_of (record_all evs (fresh_history FMissing)))"
  using assms
proof (induction evs rule: rev_induct)
  case Nil
  show ?case by (simp add: charts_def record_all_def fresh_history_def machines_of_def load_machines_def jm_keys_def sample_machines_def)
next
  case (snoc y evs)
  obtain ok k x t where y: "y = (ok, k, x, t)" by (cases y)
  have "sample_machines evs \<subseteq> sample_machines (evs @ [y])" unfolding sample_machines_def by (intro image_mono) auto
  then have "card (sample_machines evs) \<le> machine_limit"
    using snoc.prems by (metis card_mono finite_imageI List.finite_set order_trans sample_machines_def)
  with snoc charts_snoc show ?case by (simp add: y record_all_snoc machines_of_record)
qed

lemma sorted_readings: "sorted (sample_times evs) \<Longrightarrow> sorted (map fst (readings_of k evs))"
  by (induction evs) (auto simp: sample_times_def readings_of_def)

lemma readings_times: "(t, x) \<in> set (readings_of k evs) \<Longrightarrow> t \<in> set (sample_times evs)"
  by (force simp: readings_of_def sample_times_def)

text \<open>
  C39: A chart shows, for every step of its range that had readings, the highest of them: nothing
  is lost when readings are merged into points and old points are dropped.
\<close>

theorem chart_shows_peaks:
  assumes "sorted (sample_times evs)" "\<forall>t \<in> set (sample_times evs). t \<le> u"
    and "card (sample_machines evs) \<le> machine_limit"
  shows "history_read k r u (record_all evs (fresh_history FMissing)) =
    filter (\<lambda>p. u - span_ms r \<le> fst p) (peaks r (readings_of k evs))"
proof -
  let ?m = "machines_of (record_all evs (fresh_history FMissing))" and ?rs = "readings_of k evs"
  have ch: "charts evs ?m" by (rule charts_all [OF assms(3)])
  show ?thesis
  proof (cases "jm_get ?m k")
    case None
    then have "k \<notin> sample_machines evs" using charts_keys [OF ch] by simp
    with None show ?thesis by (simp add: history_read_def readings_new peaks_def)
  next
    case (Some ts)
    then have ts: "tier r ts = run_tier r ?rs" using ch by (simp add: charts_def)
    show ?thesis
    proof (cases "?rs = []")
      case True
      with Some ts show ?thesis by (simp add: history_read_def peaks_def)
    next
      case False
      have "last ?rs \<in> set ?rs" using False by simp
      then have "fst (last ?rs) \<le> u" using assms(2) readings_times by (metis prod.collapse)
      then have "filter (\<lambda>p. u - span_ms r \<le> fst p) (drop_old r (fst (last ?rs)) (peaks r ?rs)) =
          filter (\<lambda>p. u - span_ms r \<le> fst p) (peaks r ?rs)"
        unfolding drop_old_def using step_pos [of r] by (intro filter_dropWhile) linarith
      with Some ts run_tier_peaks [OF False sorted_readings [OF assms(1)]] show ?thesis
        by (simp add: history_read_def)
    qed
  qed
qed


section \<open>Sizes\<close>

text \<open>The points of a tier: different steps in order, none older than the span before the last reading.\<close>

definition tier_ok :: "history_range \<Rightarrow> int \<Rightarrow> history_point list \<Rightarrow> bool" where
  "tier_ok r now ps \<longleftrightarrow> sorted_wrt (<) (map fst ps) \<and> (\<forall>s \<in> fst ` set ps. step_ms r dvd s)
     \<and> (\<exists>w \<le> now. \<forall>s \<in> fst ` set ps. w - span_ms r - step_ms r \<le> s \<and> s \<le> w)"

lemma tier_ok_later: "tier_ok r t ps \<Longrightarrow> t \<le> u \<Longrightarrow> tier_ok r u ps"
  unfolding tier_ok_def by (meson order_trans)

lemma tier_ok_Nil [simp]: "tier_ok r t []"
  by (auto simp: tier_ok_def)

lemma raise_point_fst [simp]: "fst (raise_point x p) = fst p"
  by (cases x; cases p) simp

lemma new_point_fst [simp]: "fst (new_point s x) = s"
  by (simp add: new_point_def split: prod.split)

lemma put_point_fst: "map fst (put_point r t x ps) =
    (if ps \<noteq> [] \<and> fst (last ps) = slot_of r t then map fst ps else map fst ps @ [slot_of r t])"
proof (cases "ps \<noteq> [] \<and> fst (last ps) = slot_of r t")
  case True
  then obtain qs q where "ps = qs @ [q]" by (metis rev_exhaust)
  with True show ?thesis by (simp add: put_point_def)
next
  case False
  then have "put_point r t x ps = ps @ [new_point (slot_of r t) x]" by (auto simp: put_point_def Let_def)
  with False show ?thesis by auto
qed

lemma dropWhile_sorted:
  assumes "sorted_wrt (<) (map fst ps)" "p \<in> set (dropWhile (\<lambda>p. fst p < b) ps)"
  shows "(b :: int) \<le> fst p"
  using assms by (induction ps) (auto split: if_splits)

lemma dropWhile_fst: "map fst (dropWhile (\<lambda>p. Q (fst p)) ps) = dropWhile Q (map fst ps)"
  by (induction ps) simp_all

lemma tier_ok_add:
  assumes "tier_ok r now ps" "now \<le> t"
  shows "tier_ok r t (add_reading r t x ps)"
proof -
  let ?qs = "put_point r t x ps"
  have le: "s \<le> t" if "s \<in> fst ` set ps" for s using assms that by (fastforce simp: tier_ok_def)
  have set: "fst ` set ?qs = insert (slot_of r t) (fst ` set ps)"
  proof (cases "ps \<noteq> [] \<and> fst (last ps) = slot_of r t")
    case True
    then have "slot_of r t \<in> set (map fst ps)" using last_in_set [of ps] by (metis image_eqI set_map)
    with True show ?thesis using arg_cong [OF put_point_fst [of r t x ps], of set] by auto
  next
    case False
    then show ?thesis using arg_cong [OF put_point_fst [of r t x ps], of set] by auto
  qed
  have slot: "s \<le> slot_of r t" if "s \<in> fst ` set ps" for s
  proof -
    from that assms(1) obtain k where "s = step_ms r * k" by (auto simp: tier_ok_def dvd_def)
    then have "s = slot_of r s" by (simp add: slot_of_def)
    then show ?thesis using slot_mono [OF le [OF that], of r] by simp
  qed
  have srt: "sorted_wrt (<) (map fst ?qs)"
  proof (cases "ps \<noteq> [] \<and> fst (last ps) = slot_of r t")
    case False
    have "s < slot_of r t" if s: "s \<in> set (map fst ps)" for s
    proof -
      have "s \<le> fst (last ps)" using s assms(1) sorted_le_last [of fst ps]
        by (auto simp: tier_ok_def strict_sorted_iff)
      moreover have "ps \<noteq> []" using s by auto
      then have "fst (last ps) \<le> slot_of r t" "fst (last ps) \<noteq> slot_of r t" using False slot by auto
      ultimately show ?thesis by linarith
    qed
    with False assms(1) show ?thesis by (simp add: put_point_fst tier_ok_def strict_sorted_snoc)
  qed (use assms(1) in \<open>simp add: put_point_fst tier_ok_def\<close>)
  have sub: "set (add_reading r t x ps) \<subseteq> set ?qs" by (auto simp: add_reading_def drop_old_def dest: set_dropWhileD)
  have "sorted_wrt (<) (map fst (add_reading r t x ps))"
    using srt sorted_wrt_dropWhile [of "(<)" "map fst ?qs"] unfolding add_reading_def drop_old_def
    by (simp add: dropWhile_map comp_def)
  moreover have "step_ms r dvd s" if s: "s \<in> fst ` set (add_reading r t x ps)" for s
  proof -
    have "s \<in> insert (slot_of r t) (fst ` set ps)" using image_mono [OF sub, of fst] s set by blast
    then show ?thesis using assms(1) by (auto simp: tier_ok_def slot_of_def)
  qed
  moreover have "t - span_ms r - step_ms r \<le> s \<and> s \<le> t" if s: "s \<in> fst ` set (add_reading r t x ps)" for s
  proof -
    from s obtain p where p: "p \<in> set (add_reading r t x ps)" "s = fst p" by auto
    have "t - span_ms r - step_ms r \<le> s"
      using dropWhile_sorted [OF srt] p by (simp add: add_reading_def drop_old_def)
    moreover have "s \<in> insert (slot_of r t) (fst ` set ps)" using image_mono [OF sub, of fst] s set by blast
    then have "s \<le> t" using le slot_le [of r t] by auto
    ultimately show ?thesis ..
  qed
  ultimately show ?thesis unfolding tier_ok_def by blast
qed

definition tier_max :: "history_range \<Rightarrow> nat" where
  "tier_max r = nat (span_ms r div step_ms r + 2)"

lemma tier_ok_length:
  assumes "tier_ok r now ps"
  shows "length ps \<le> tier_max r"
proof -
  obtain w where w: "\<And>s. s \<in> fst ` set ps \<Longrightarrow> w - span_ms r - step_ms r \<le> s \<and> s \<le> w \<and> step_ms r dvd s"
    using assms by (auto simp: tier_ok_def)
  let ?f = "\<lambda>s. s div step_ms r" and ?b = "w div step_ms r"
  have "inj_on ?f (fst ` set ps)"
  proof (rule inj_onI)
    fix a b assume "a \<in> fst ` set ps" "b \<in> fst ` set ps" "?f a = ?f b"
    with w show "a = b" by (metis dvd_div_mult_self)
  qed
  moreover have "?f ` (fst ` set ps) \<subseteq> {?b - (span_ms r div step_ms r + 1) .. ?b}"
  proof
    fix k assume "k \<in> ?f ` (fst ` set ps)"
    then obtain s where s: "s \<in> fst ` set ps" "k = ?f s" by blast
    have "?b \<le> (s + (span_ms r div step_ms r + 1) * step_ms r) div step_ms r"
      using w [OF s(1)] by (intro zdiv_mono1) (cases r; simp add: step_ms_def span_ms_def)+
    moreover have "?f s \<le> ?b" using w [OF s(1)] by (intro zdiv_mono1) simp_all
    ultimately show "k \<in> {?b - (span_ms r div step_ms r + 1) .. ?b}"
      using s(2) step_pos [of r] by (simp del: step_pos)
  qed
  ultimately have "card (fst ` set ps) \<le> card {?b - (span_ms r div step_ms r + 1) .. ?b}"
    by (metis card_image card_mono finite_atLeastAtMost_int)
  also have "\<dots> = tier_max r" by (simp add: tier_max_def)
  finally show ?thesis using assms distinct_card [of "map fst ps"] by (simp add: tier_ok_def strict_sorted_iff)
qed

definition sizes_ok :: "int \<Rightarrow> (string, metric_tiers) jsmap \<Rightarrow> bool" where
  "sizes_ok now m \<longleftrightarrow> jm_ok m \<and> length m \<le> machine_limit \<and> (\<forall>(k, ts) \<in> set m. \<forall>r. tier_ok r now (tier r ts))"


lemma fold_pick_in: "fold (\<lambda>y best. if P y best then y else best) xs x \<in> set (x # xs)"
proof (induction xs arbitrary: x)
  case (Cons y xs)
  from Cons.IH [of "if P y x then y else x"] show ?case by (auto split: if_splits)
qed simp

lemma stalest_in: "m \<noteq> [] \<Longrightarrow> \<exists>k. stalest m = Some k \<and> k \<in> set (jm_keys m)"
proof (cases m)
  case (Cons x xs)
  then show ?thesis using fold_pick_in [of "\<lambda>y best. last_minute (snd y) < last_minute (snd best)" xs x]
    by (auto simp: jm_keys_def)
qed simp

lemma length_delete: "jm_ok m \<Longrightarrow> k \<in> set (jm_keys m) \<Longrightarrow> length (jm_delete k m) < length m"
  by (force simp: jm_delete_def jm_keys_def intro!: length_filter_less)

lemma make_room_ok:
  assumes "sizes_ok now m"
  shows "sizes_ok now (make_room m)" "length (make_room m) < machine_limit" "set (jm_keys (make_room m)) \<subseteq> set (jm_keys m)"
proof -
  have "jm_ok m" and len: "length m \<le> machine_limit" using assms by (simp_all add: sizes_ok_def)
  have "sizes_ok now (make_room m) \<and> length (make_room m) < machine_limit \<and> set (jm_keys (make_room m)) \<subseteq> set (jm_keys m)"
  proof (cases "machine_limit \<le> length m")
    case True
    then have "m \<noteq> []" by (auto simp: machine_limit_def)
    then obtain k where k: "stalest m = Some k" "k \<in> set (jm_keys m)" using stalest_in by blast
    have "length (jm_delete k m) < length m" by (rule length_delete [OF \<open>jm_ok m\<close> k(2)])
    with True k len assms show ?thesis
      by (auto simp: make_room_def sizes_ok_def jm_keys_delete) (auto simp: jm_delete_def)
  qed (use assms in \<open>simp add: make_room_def\<close>)
  then show "sizes_ok now (make_room m)" "length (make_room m) < machine_limit" "set (jm_keys (make_room m)) \<subseteq> set (jm_keys m)"
    by blast+
qed

lemma length_set: "length (jm_set k v m) \<le> (if jm_has m k then length m else Suc (length m))"
  by (simp add: jm_set_def)

lemma in_jm_set: "x \<in> set (jm_set k v m) \<Longrightarrow> x = (k, v) \<or> x \<in> set m"
  by (cases x) (auto simp: jm_set_def split: if_splits)

lemma sizes_ok_put:
  assumes "sizes_ok now m" "now \<le> t" "\<And>r. tier_ok r t (tier r ts)" "jm_has m k \<or> length m < machine_limit"
  shows "sizes_ok t (jm_set k ts m)"
proof -
  have "length (jm_set k ts m) \<le> machine_limit"
    using length_set [of k ts m] assms(1,4) by (auto simp: sizes_ok_def split: if_splits)
  moreover have "tier_ok r t (tier r us)" if "(q, us) \<in> set (jm_set k ts m)" for q us r
    using in_jm_set [OF that] assms(1-3) tier_ok_later by (fastforce simp: sizes_ok_def)
  ultimately show ?thesis using assms(1) by (auto simp: sizes_ok_def)
qed

lemma sizes_ok_record:
  assumes "sizes_ok now m" "now \<le> t"
  shows "sizes_ok t (record_machines k x t m)"
proof (cases "jm_get m k")
  case None
  have "sizes_ok t (jm_set k (add_to_tiers t x no_tiers) (make_room m))"
    by (rule sizes_ok_put [OF make_room_ok(1) [OF assms(1)] assms(2)])
      (use make_room_ok(2) [OF assms(1)] in \<open>simp_all add: tier_add tier_ok_add [OF tier_ok_Nil order_refl]\<close>)
  with None show ?thesis by (simp add: record_machines_def)
next
  case (Some ts)
  then have "tier_ok r now (tier r ts)" for r using assms(1) jm_get_in_set [OF Some] by (auto simp: sizes_ok_def)
  then have "tier_ok r t (tier r (add_to_tiers t x ts))" for r using assms(2) unfolding tier_add by (rule tier_ok_add)
  from sizes_ok_put [OF assms this] Some show ?thesis by (simp add: record_machines_def jm_has_iff)
qed

lemma sizes_ok_run:
  "sizes_ok now (machines_of s) \<Longrightarrow> sorted (now # sample_times evs) \<Longrightarrow> \<exists>later. sizes_ok later (machines_of (record_all evs s))"
proof (induction evs arbitrary: now s)
  case (Cons y evs)
  obtain ok k x t where y: "y = (ok, k, x, t)" by (cases y)
  have "sizes_ok t (machines_of (snd (history_record ok k x t s)))"
    unfolding machines_of_record by (rule sizes_ok_record [OF Cons.prems(1)]) (use Cons.prems(2) in \<open>simp add: y sample_times_def\<close>)
  from Cons.IH [OF this] Cons.prems(2) show ?case by (simp add: y sample_times_def record_all_def)
qed (auto simp: record_all_def)

text \<open>
  However many machines are sampled and for however long, at most 64 of them are kept, and a
  chart holds at most two points more than its range has steps.
\<close>

theorem history_bounded:
  assumes "sorted (sample_times evs)"
  shows "length (machines_of (record_all evs (fresh_history FMissing))) \<le> 64
    \<and> (\<forall>k ts r. jm_get (machines_of (record_all evs (fresh_history FMissing))) k = Some ts
         \<longrightarrow> length (tier r ts) \<le> (case r of Hour \<Rightarrow> 62 | Day \<Rightarrow> 290 | Week \<Rightarrow> 338))"
proof -
  let ?m = "machines_of (record_all evs (fresh_history FMissing))"
  have empty: "sizes_ok now (machines_of (fresh_history FMissing))" for now
    by (simp add: sizes_ok_def machines_of_def fresh_history_def load_machines_def)
  obtain later where ok: "sizes_ok later ?m"
  proof (cases evs)
    case Nil
    with empty show ?thesis by (intro that) (simp add: record_all_def)
  next
    case (Cons y ys)
    obtain a b c t where "y = (a, b, c, t)" by (cases y)
    with assms Cons have "sorted (t # sample_times evs)" by (simp add: sample_times_def)
    from sizes_ok_run [OF empty this] that show ?thesis by blast
  qed
  have "length (tier r ts) \<le> (case r of Hour \<Rightarrow> 62 | Day \<Rightarrow> 290 | Week \<Rightarrow> 338)" if "jm_get ?m k = Some ts" for k ts r
  proof -
    have "tier_ok r later (tier r ts)" using ok jm_get_in_set [OF that] by (auto simp: sizes_ok_def)
    from tier_ok_length [OF this] show ?thesis by (cases r) (simp_all add: tier_max_def span_ms_def step_ms_def)
  qed
  with ok show ?thesis by (simp add: sizes_ok_def machine_limit_def)
qed


section \<open>Restarts\<close>

lemma parse_point_json [simp]: "parse_point (point_json p) = Some p"
proof -
  have "parse_value (value_json v) = Some v" for v by (simp add: value_json_def split: option.split)
  then show ?thesis by (cases p) (simp add: point_json_def)
qed

lemma parse_tier_json [simp]: "parse_tier (Some (JArr (map point_json ps))) = ps"
  by (induction ps) (simp_all add: List.map_filter_simps)

lemma parse_tiers_json [simp]: "parse_tiers (tiers_json t) = t"
  by (simp add: parse_tiers_def tiers_json_def del: parse_tier.simps)

definition names_ok :: "(string, metric_tiers) jsmap \<Rightarrow> bool" where
  "names_ok m \<longleftrightarrow> jm_ok m \<and> (\<forall>k \<in> set (jm_keys m). valid_machine k)"

lemma load_history_json:
  assumes "names_ok m"
  shows "load_machines (FJson (history_json m)) = m"
proof -
  have "fold (\<lambda>(k, j) m. if valid_machine k then jm_set k (parse_tiers j) m else m) (map (\<lambda>(k, t). (k, tiers_json t)) es) acc = acc @ es"
    if "names_ok (acc @ es)" for acc es
    using that
  proof (induction es arbitrary: acc)
    case (Cons e es)
    obtain k t where e: "e = (k, t)" by (cases e)
    have "valid_machine k" "\<not> jm_has acc k" using Cons.prems by (auto simp: names_ok_def jm_ok_def jm_has_def jm_keys_def e)
    moreover have "names_ok ((acc @ [(k, t)]) @ es)" using Cons.prems by (simp add: e)
    ultimately show ?case using Cons.IH by (simp add: e jm_set_fresh)
  qed simp
  from this [of "[]" m] assms show ?thesis by (simp add: load_machines_def history_json_def parse_machines_def)
qed

lemma names_ok_record:
  assumes "names_ok m" "valid_machine k"
  shows "names_ok (record_machines k x t m)"
proof -
  have "names_ok (make_room m)"
    using assms(1) by (auto simp: make_room_def names_ok_def jm_keys_delete split: option.split)
  with assms show ?thesis
    by (auto simp: record_machines_def names_ok_def jm_keys_set split: option.split)
qed

lemma names_ok_all:
  "\<forall>k \<in> sample_machines evs. valid_machine k \<Longrightarrow> names_ok (machines_of (record_all evs (fresh_history FMissing)))"
proof (induction evs rule: rev_induct)
  case (snoc y evs)
  obtain ok k x t where y: "y = (ok, k, x, t)" by (cases y)
  from snoc show ?case by (simp add: y record_all_snoc machines_of_record names_ok_record)
qed (simp add: record_all_def fresh_history_def machines_of_def load_machines_def names_ok_def jm_keys_def)

text \<open>
  While the disk takes writes, the next process finds everything that was recorded up to some
  reading, and every reading after that one is less than five minutes younger.
\<close>

theorem restart_loses_five_minutes:
  assumes "evs \<noteq> []" "\<forall>(ok, k, x, t) \<in> set evs. ok \<and> valid_machine k \<and> history_flush_ms \<le> t"
  shows "\<exists>n. 0 < n \<and> n \<le> length evs
    \<and> machines_of (fresh_history (hs_file (record_all evs (fresh_history FMissing)))) = machines_of (record_all (take n evs) (fresh_history FMissing))
    \<and> (\<forall>t \<in> set (sample_times (drop n evs)). t < sample_times evs ! (n - 1) + history_flush_ms)"
proof -
  let ?s = "\<lambda>evs. record_all evs (fresh_history FMissing)"
  have names: "names_ok (machines_of (?s es))" if "set es \<subseteq> set evs" for es
    by (rule names_ok_all) (use assms(2) that in \<open>fastforce simp: sample_machines_def\<close>)
  have "\<exists>n. 0 < n \<and> n \<le> length es \<and> hs_file (?s es) = FJson (history_json (machines_of (?s (take n es))))
      \<and> hs_written_at (?s es) = sample_times es ! (n - 1) \<and> (\<forall>t \<in> set (sample_times (drop n es)). t < sample_times es ! (n - 1) + history_flush_ms)"
    if "es \<noteq> []" "set es \<subseteq> set evs" for es
    using that
  proof (induction es rule: rev_induct)
    case (snoc y es)
    obtain ok k x t where y: "y = (ok, k, x, t)" by (cases y)
    then have yt: "ok" "history_flush_ms \<le> t" using assms(2) snoc.prems by auto
    show ?case
    proof (cases "history_flush_ms \<le> t - hs_written_at (?s es)")
      case True
      then have "hs_file (?s (es @ [y])) = FJson (history_json (machines_of (?s (es @ [y])))) \<and> hs_written_at (?s (es @ [y])) = t"
        using yt(1) by (simp add: y record_all_snoc history_record_def Let_def history_flush_def machines_of_def)
      then show ?thesis by (intro exI [of _ "length (es @ [y])"]) (simp add: y sample_times_def nth_append)
    next
      case False
      have "es \<noteq> []" using False yt(2) by (auto simp: record_all_def fresh_history_def)
      then obtain n where n: "0 < n" "n \<le> length es" "hs_file (?s es) = FJson (history_json (machines_of (?s (take n es))))"
          "hs_written_at (?s es) = sample_times es ! (n - 1)" "\<forall>t \<in> set (sample_times (drop n es)). t < sample_times es ! (n - 1) + history_flush_ms"
        using snoc.IH snoc.prems by auto
      have "hs_file (?s (es @ [y])) = hs_file (?s es) \<and> hs_written_at (?s (es @ [y])) = hs_written_at (?s es)"
        using False by (simp add: y record_all_snoc history_record_def Let_def)
      moreover have "sample_times (es @ [y]) ! (n - 1) = sample_times es ! (n - 1)"
      proof -
        have "n - 1 < length (sample_times es)" using n(1,2) by (simp add: sample_times_def)
        then show ?thesis by (simp add: sample_times_def nth_append)
      qed
      ultimately show ?thesis using n False
        by (intro exI [of _ n]) (simp add: y sample_times_def)
    qed
  qed simp
  from this [OF assms(1) order_refl] obtain n where n: "0 < n" "n \<le> length evs"
      "hs_file (?s evs) = FJson (history_json (machines_of (?s (take n evs))))"
      "\<forall>t \<in> set (sample_times (drop n evs)). t < sample_times evs ! (n - 1) + history_flush_ms" by blast
  have "load_machines (hs_file (?s evs)) = machines_of (?s (take n evs))"
    unfolding n(3) by (rule load_history_json [OF names]) (rule set_take_subset)
  with n show ?thesis by (auto simp: fresh_history_def machines_of_def)
qed

section \<open>Two machines\<close>

definition demo_metrics :: "int \<Rightarrow> host_metrics" where
  "demo_metrics l = \<lparr>hm_hostname = ''h'', hm_cpus = 2, hm_load = l, hm_memory_total = 1000, hm_memory_available = 400,
     hm_disks = [\<lparr>du_mount = ''/'', du_used = 7, du_available = 3\<rparr>]\<rparr>"

definition demo_samples :: "sample list" where
  "demo_samples = [(True, ''local'', demo_metrics 100, 600000), (True, ''local'', demo_metrics 300, 630000),
     (True, ''ssh-0123456789abcdef'', demo_metrics 50, 660000), (True, ''local'', demo_metrics 200, 690000)]"

lemma demo_chart:
  "history_read ''local'' Hour 700000 (record_all demo_samples (fresh_history FMissing)) =
     [(600000, Some 150, Some 6000, Some 7000), (660000, Some 100, Some 6000, Some 7000)]"
  by code_simp

theorem chart_shows_peaks_witness:
  "history_read ''local'' Hour 700000 (record_all demo_samples (fresh_history FMissing)) =
     filter (\<lambda>p. 700000 - span_ms Hour \<le> fst p) (peaks Hour (readings_of ''local'' demo_samples))"
  by (rule chart_shows_peaks) (simp_all add: demo_samples_def sample_times_def sample_machines_def machine_limit_def card_insert_if)

theorem history_bounded_witness:
  "length (machines_of (record_all demo_samples (fresh_history FMissing))) \<le> 64
    \<and> (\<forall>k ts r. jm_get (machines_of (record_all demo_samples (fresh_history FMissing))) k = Some ts
         \<longrightarrow> length (tier r ts) \<le> (case r of Hour \<Rightarrow> 62 | Day \<Rightarrow> 290 | Week \<Rightarrow> 338))"
  by (rule history_bounded) (simp add: demo_samples_def sample_times_def)

theorem restart_loses_five_minutes_witness:
  "\<exists>n. 0 < n \<and> n \<le> length demo_samples
    \<and> machines_of (fresh_history (hs_file (record_all demo_samples (fresh_history FMissing)))) = machines_of (record_all (take n demo_samples) (fresh_history FMissing))
    \<and> (\<forall>t \<in> set (sample_times (drop n demo_samples)). t < sample_times demo_samples ! (n - 1) + history_flush_ms)"
  by (rule restart_loses_five_minutes)
    (simp_all add: demo_samples_def valid_machine_def is_hex_char_def history_flush_ms_def)

end
