(* ===== verification/MonitoringIncidents.thy ===== *)
theory MonitoringIncidents
  imports JsMap
begin

text \<open>
  The incident chats of a Space, packages/monitoring/src/incidents.ts: per project the chat
  that handles its warnings, kept in memory, written to a file of the Space and read back by
  the next process. A refresh of the last warning is written at most every five minutes.

  The file is the JSON value it holds. \<open>Object.entries\<close> reports integer-like keys first; no
  operation here depends on the order of the projects. Instants are whole milliseconds.
\<close>

section \<open>Definitions\<close>

definition incident_quiet_ms :: int where
  "incident_quiet_ms = 2 * 60 * 60000"

definition incident_write_interval_ms :: int where
  "incident_write_interval_ms = 5 * 60000"

record incident_record =
  ir_session :: string
  ir_opened_at :: int
  ir_last_warning :: int

record incident_store =
  is_records :: "(string, incident_record) jsmap option" \<comment> \<open>\<open>None\<close>: not read yet\<close>
  is_written_at :: int
  is_file :: file_read

definition fresh_store :: "file_read \<Rightarrow> incident_store" where
  "fresh_store f = \<lparr>is_records = None, is_written_at = 0, is_file = f\<rparr>"

definition valid_project :: "string \<Rightarrow> bool" where
  "valid_project p \<longleftrightarrow> 0 < length p \<and> length p \<le> 200 \<and> p \<noteq> ''__proto__'' \<and> p \<noteq> ''constructor''"

definition valid_session :: "string \<Rightarrow> bool" where
  "valid_session s \<longleftrightarrow> s \<noteq> [] \<and> length s \<le> 200"

fun parse_record :: "json \<Rightarrow> incident_record option" where
  "parse_record (JObj kvs) =
     (case (map_of kvs ''sessionId'', map_of kvs ''openedAt'', map_of kvs ''lastWarningAt'') of
        (Some (JStr s), Some (JNum opened), Some (JNum seen)) \<Rightarrow>
          if valid_session s then Some \<lparr>ir_session = s, ir_opened_at = opened, ir_last_warning = seen\<rparr> else None
      | _ \<Rightarrow> None)"
| "parse_record _ = None"

fun parse_entries :: "(string \<times> json) list \<Rightarrow> (string, incident_record) jsmap \<Rightarrow> (string, incident_record) jsmap" where
  "parse_entries [] m = m"
| "parse_entries ((p, item) # rest) m =
     parse_entries rest
       (case parse_record item of
          Some r \<Rightarrow> if valid_project p then jm_set p r m else m
        | None \<Rightarrow> m)"

text \<open>A missing, unreadable or unsupported file is the empty state.\<close>

definition load_records :: "file_read \<Rightarrow> (string, incident_record) jsmap" where
  "load_records f =
     (case f of
        FJson (JObj kvs) \<Rightarrow>
          (if map_of kvs ''v'' = Some (JNum 1) then
             (case map_of kvs ''projects'' of
                Some (JObj projects) \<Rightarrow> parse_entries projects []
              | _ \<Rightarrow> [])
           else [])
      | _ \<Rightarrow> [])"

definition store_read :: "incident_store \<Rightarrow> (string, incident_record) jsmap" where
  "store_read s = (case is_records s of Some m \<Rightarrow> m | None \<Rightarrow> load_records (is_file s))"

definition remember :: "(string, incident_record) jsmap \<Rightarrow> incident_store \<Rightarrow> incident_store" where
  "remember m s = s\<lparr>is_records := Some m\<rparr>"

definition live :: "incident_record option \<Rightarrow> int \<Rightarrow> bool" where
  "live item at_ms = (case item of Some r \<Rightarrow> at_ms - ir_last_warning r < incident_quiet_ms | None \<Rightarrow> False)"

definition record_json :: "incident_record \<Rightarrow> json" where
  "record_json r =
     JObj [(''sessionId'', JStr (ir_session r)), (''openedAt'', JNum (ir_opened_at r)), (''lastWarningAt'', JNum (ir_last_warning r))]"

definition file_json :: "(string, incident_record) jsmap \<Rightarrow> json" where
  "file_json m = JObj [(''v'', JNum 1), (''projects'', JObj (map (\<lambda>(p, r). (p, record_json r)) m))]"

definition keep_live :: "int \<Rightarrow> (string, incident_record) jsmap \<Rightarrow> (string, incident_record) jsmap" where
  "keep_live at_ms m = filter (\<lambda>(p, r). at_ms - ir_last_warning r < incident_quiet_ms) m"

text \<open>\<open>disk_ok\<close>: the atomic write succeeds. Otherwise it throws with the records changed in memory.\<close>

definition store_changed :: "bool \<Rightarrow> int \<Rightarrow> incident_store \<Rightarrow> control_error option \<times> incident_store" where
  "store_changed disk_ok at_ms s =
     (let m = keep_live at_ms (store_read s); s1 = remember m s
      in if disk_ok then (None, s1\<lparr>is_file := FJson (file_json m), is_written_at := at_ms\<rparr>)
         else (Some IoFailure, s1))"

definition store_active :: "int \<Rightarrow> string \<Rightarrow> incident_store \<Rightarrow> incident_record option \<times> incident_store" where
  "store_active at_ms p s =
     (let m = store_read s; item = jm_get m p
      in (if live item at_ms then item else None, remember m s))"

definition store_open :: "bool \<Rightarrow> string \<Rightarrow> string \<Rightarrow> int \<Rightarrow> incident_store \<Rightarrow> (control_error + incident_record) \<times> incident_store" where
  "store_open disk_ok p session at_ms s =
     (let item = \<lparr>ir_session = session, ir_opened_at = at_ms, ir_last_warning = at_ms\<rparr>
      in case store_changed disk_ok at_ms (remember (jm_set p item (store_read s)) s) of
           (Some e, s1) \<Rightarrow> (Inl e, s1)
         | (None, s1) \<Rightarrow> (Inr item, s1))"

definition store_touch :: "bool \<Rightarrow> string \<Rightarrow> int \<Rightarrow> incident_store \<Rightarrow> control_error option \<times> incident_store" where
  "store_touch disk_ok p at_ms s =
     (let m = store_read s
      in case jm_get m p of
           None \<Rightarrow> (None, remember m s)
         | Some r \<Rightarrow>
             if \<not> live (Some r) at_ms then (None, remember m s)
             else
               (let s1 = remember (jm_set p (r\<lparr>ir_last_warning := at_ms\<rparr>) m) s
                in if incident_write_interval_ms \<le> at_ms - is_written_at s then store_changed disk_ok at_ms s1
                   else (None, s1)))"

definition store_open_count :: "int \<Rightarrow> incident_store \<Rightarrow> nat \<times> incident_store" where
  "store_open_count at_ms s =
     (let m = store_read s in (length (filter (\<lambda>(p, r). live (Some r) at_ms) m), remember m s))"

text \<open>A new process starts with what is on disk.\<close>

definition restart :: "incident_store \<Rightarrow> incident_store" where
  "restart s = fresh_store (is_file s)"

section \<open>Reading back what was written\<close>

definition records_ok :: "(string, incident_record) jsmap \<Rightarrow> bool" where
  "records_ok m \<longleftrightarrow> jm_ok m \<and> (\<forall>(p, r) \<in> set m. valid_project p \<and> valid_session (ir_session r))"

lemma parse_record_json [simp]: "parse_record (record_json r) = (if valid_session (ir_session r) then Some r else None)"
  by (simp add: record_json_def)

lemma parse_entries_json:
  assumes "records_ok (m @ entries)"
  shows "parse_entries (map (\<lambda>(p, r). (p, record_json r)) entries) m = m @ entries"
  using assms
proof (induction entries arbitrary: m)
  case (Cons x entries)
  obtain p r where x: "x = (p, r)" by (cases x)
  have "valid_project p" "valid_session (ir_session r)" "\<not> jm_has m p"
    using Cons.prems by (auto simp: records_ok_def jm_ok_def jm_has_def x)
  moreover have "records_ok ((m @ [(p, r)]) @ entries)" using Cons.prems by (simp add: x)
  ultimately show ?case using Cons.IH by (simp add: x jm_set_fresh)
qed simp

lemma load_file_json: "records_ok m \<Longrightarrow> load_records (FJson (file_json m)) = m"
  using parse_entries_json [of "[]" m] by (simp add: load_records_def file_json_def)

lemma records_ok_Nil [simp]: "records_ok []"
  by (simp add: records_ok_def)

lemma records_ok_set:
  assumes "records_ok m" "valid_project p" "valid_session (ir_session r)"
  shows "records_ok (jm_set p r m)"
proof -
  have "x \<in> set (jm_set p r m) \<Longrightarrow> x = (p, r) \<or> x \<in> set m" for x
    by (cases x) (auto simp: jm_set_def split: if_splits)
  with assms have "\<forall>x \<in> set (jm_set p r m). case x of (q, s) \<Rightarrow> valid_project q \<and> valid_session (ir_session s)"
    unfolding records_ok_def by fastforce
  with assms(1) show ?thesis by (simp add: records_ok_def)
qed

lemma records_ok_filter: "records_ok m \<Longrightarrow> records_ok (filter P m)"
  by (auto simp: records_ok_def jm_ok_def distinct_map_filter)

lemma parse_record_valid: "parse_record j = Some r \<Longrightarrow> valid_session (ir_session r)"
  by (cases j) (auto split: option.splits json.splits if_splits)

lemma parse_entries_ok: "records_ok m \<Longrightarrow> records_ok (parse_entries es m)"
proof (induction es m rule: parse_entries.induct)
  case (2 p item rest m)
  have "records_ok (case parse_record item of Some r \<Rightarrow> if valid_project p then jm_set p r m else m | None \<Rightarrow> m)"
    using "2.prems" parse_record_valid [of item] by (auto split: option.split intro!: records_ok_set)
  from "2.IH" [OF this] show ?case by simp
qed simp

lemma load_records_ok: "records_ok (load_records f)"
  by (auto simp: load_records_def parse_entries_ok split: file_read.splits json.splits option.splits)

lemma get_keep_live:
  assumes "jm_ok m"
  shows "jm_get (keep_live t m) p = (if live (jm_get m p) t then jm_get m p else None)"
  using assms
proof (induction m)
  case (Cons x m)
  obtain q r where x: "x = (q, r)" by (cases x)
  have "q = p \<Longrightarrow> jm_get (keep_live t m) p = None"
    using Cons.prems by (auto simp: keep_live_def jm_get_def jm_ok_def x map_of_eq_None_iff)
  with Cons show ?case by (auto simp: x keep_live_def jm_get_def jm_ok_def live_def split: option.splits)
qed (simp add: keep_live_def live_def)


lemma live_simps [simp]: "\<not> live None t" "live (Some r) t \<longleftrightarrow> t - ir_last_warning r < incident_quiet_ms"
  by (simp_all add: live_def)

lemma remember_simps [simp]:
  "is_records (remember m s) = Some m" "is_written_at (remember m s) = is_written_at s" "is_file (remember m s) = is_file s"
  "store_read (remember m s) = m"
  by (simp_all add: remember_def store_read_def)

lemma store_read_ok: "(\<And>m. is_records s = Some m \<Longrightarrow> records_ok m) \<Longrightarrow> records_ok (store_read s)"
  by (simp add: store_read_def load_records_ok split: option.split)

section \<open>Histories of a store whose writes succeed\<close>

text \<open>The operations of one process in the order of the clock; chats and projects have the names that a file may hold.\<close>

inductive incident_step :: "int \<times> incident_store \<Rightarrow> int \<times> incident_store \<Rightarrow> bool" where
  did_active: "t \<le> u \<Longrightarrow> incident_step (t, s) (u, snd (store_active u p s))"
| did_open: "t \<le> u \<Longrightarrow> valid_project p \<Longrightarrow> valid_session session \<Longrightarrow>
    incident_step (t, s) (u, snd (store_open True p session u s))"
| did_touch: "t \<le> u \<Longrightarrow> incident_step (t, s) (u, snd (store_touch True p u s))"
| did_count: "t \<le> u \<Longrightarrow> incident_step (t, s) (u, snd (store_open_count u s))"

text \<open>
  What the file knows of a project in memory: the same chat, and the same last warning unless
  that one came within five minutes after the last write.
\<close>

definition lags :: "int \<Rightarrow> incident_record option \<Rightarrow> incident_record option \<Rightarrow> bool" where
  "lags written mem disk =
     (case (mem, disk) of
        (None, None) \<Rightarrow> True
      | (Some r, Some d) \<Rightarrow> ir_session d = ir_session r \<and> ir_opened_at d = ir_opened_at r
          \<and> (ir_last_warning d = ir_last_warning r
             \<or> written \<le> ir_last_warning r \<and> ir_last_warning r < written + incident_write_interval_ms)
      | _ \<Rightarrow> False)"

lemma lags_refl [simp]: "lags w x x"
  by (simp add: lags_def split: option.split)

definition file_follows :: "incident_store \<Rightarrow> bool" where
  "file_follows s \<longleftrightarrow> records_ok (store_read s)
     \<and> (\<forall>p. lags (is_written_at s) (jm_get (store_read s) p) (jm_get (load_records (is_file s)) p))"

definition store_inv :: "int \<times> incident_store \<Rightarrow> bool" where
  "store_inv ts \<longleftrightarrow> is_written_at (snd ts) \<le> fst ts \<and> file_follows (snd ts)"

lemma file_follows_fresh: "file_follows (fresh_store f)"
  by (simp add: file_follows_def fresh_store_def store_read_def load_records_ok)

lemma file_follows_remember: "file_follows s \<Longrightarrow> file_follows (remember (store_read s) s)"
  by (simp add: file_follows_def)

lemma file_follows_changed:
  assumes "records_ok (store_read s)"
  shows "file_follows (snd (store_changed True u s))" "is_written_at (snd (store_changed True u s)) = u"
  using load_file_json [OF records_ok_filter [OF assms]] records_ok_filter [OF assms]
  by (simp_all add: store_changed_def Let_def file_follows_def keep_live_def store_read_def remember_def)

lemma store_inv_touch:
  assumes "store_inv (t, s)" "t \<le> u"
  shows "store_inv (u, snd (store_touch True p u s))"
proof (cases "jm_get (store_read s) p")
  case None
  with assms show ?thesis by (simp add: store_touch_def Let_def store_inv_def file_follows_remember)
next
  case (Some r)
  let ?m = "jm_set p (r\<lparr>ir_last_warning := u\<rparr>) (store_read s)"
  have rec: "records_ok (store_read s)" and w: "is_written_at s \<le> t"
    and lag: "lags (is_written_at s) (jm_get (store_read s) q) (jm_get (load_records (is_file s)) q)" for q
    using assms(1) by (simp_all add: store_inv_def file_follows_def)
  have "(p, r) \<in> set (store_read s)" using Some by (rule jm_get_in_set)
  with rec have "records_ok ?m" by (intro records_ok_set) (auto simp: records_ok_def)
  show ?thesis
  proof (cases "live (Some r) u \<and> u - is_written_at s < incident_write_interval_ms")
    case True
    have "lags (is_written_at s) (jm_get ?m q) (jm_get (load_records (is_file s)) q)" for q
      using lag [of q] True assms(2) w Some by (auto simp: jm_lookup lags_def split: option.splits)
    with True Some \<open>records_ok ?m\<close> w assms(2) show ?thesis
      by (simp add: store_touch_def Let_def store_inv_def file_follows_def)
  next
    case False
    with Some \<open>records_ok ?m\<close> file_follows_changed [of "remember ?m s" u] assms w show ?thesis
      by (auto simp: store_touch_def Let_def store_inv_def file_follows_remember)
  qed
qed

lemma snd_store_open:
  "snd (store_open disk_ok p session u s) =
     snd (store_changed disk_ok u (remember (jm_set p \<lparr>ir_session = session, ir_opened_at = u, ir_last_warning = u\<rparr> (store_read s)) s))"
  by (simp add: store_open_def Let_def split: prod.split option.split)

lemma store_inv_step:
  assumes "incident_step a b" "store_inv a"
  shows "store_inv b"
  using assms
proof cases
  case (did_open t u p session s)
  have "records_ok (jm_set p \<lparr>ir_session = session, ir_opened_at = u, ir_last_warning = u\<rparr> (store_read s))"
    using did_open assms(2) by (intro records_ok_set) (simp_all add: store_inv_def file_follows_def)
  with file_follows_changed [of "remember (jm_set p \<lparr>ir_session = session, ir_opened_at = u, ir_last_warning = u\<rparr> (store_read s)) s" u]
  show ?thesis by (simp add: did_open store_inv_def snd_store_open)
next
  case (did_touch t u s p)
  with assms(2) store_inv_touch show ?thesis by simp
qed (use assms(2) in \<open>auto simp: store_inv_def store_active_def store_open_count_def Let_def file_follows_remember\<close>)

interpretation incidents: machine incident_step store_inv
  by unfold_locales (rule store_inv_step)

text \<open>
  C40: A process that starts anew knows the chat of every incident of the one before it, with the
  same last warning unless that warning was refreshed within five minutes after the last write.
\<close>

theorem incidents_survive_restart:
  assumes "incident_step\<^sup>*\<^sup>* (0, fresh_store f) (t, s)"
  shows "lags (is_written_at s) (jm_get (store_read s) p) (jm_get (store_read (restart s)) p)"
proof -
  have "store_inv (t, s)"
    by (rule incidents.reachable_inv [OF assms]) (simp add: store_inv_def file_follows_fresh, simp add: fresh_store_def)
  then show ?thesis by (simp add: store_inv_def file_follows_def restart_def fresh_store_def store_read_def)
qed

theorem incidents_survive_restart_witness:
  "(let s = snd (store_touch True ''p'' 660000 (snd (store_open True ''p'' ''chat'' 600000 (fresh_store FMissing))))
    in lags (is_written_at s) (jm_get (store_read s) ''p'') (jm_get (store_read (restart s)) ''p''))"
proof -
  have "incident_step\<^sup>*\<^sup>* (0, fresh_store FMissing)
      (660000, snd (store_touch True ''p'' 660000 (snd (store_open True ''p'' ''chat'' 600000 (fresh_store FMissing)))))"
  proof (rule converse_rtranclp_into_rtranclp)
    show "incident_step (0, fresh_store FMissing) (600000, snd (store_open True ''p'' ''chat'' 600000 (fresh_store FMissing)))"
      by (rule did_open) (simp_all add: valid_project_def valid_session_def)
  qed (rule r_into_rtranclp, rule did_touch, simp)
  from incidents_survive_restart [OF this] show ?thesis by (simp only: Let_def)
qed

text \<open>
  The refresh that is missing on disk can be the one that keeps the incident alive: the write
  of another project delays it, and a process that starts later opens a second chat although
  the last warning is well inside the quiet window.
\<close>

lemma delayed_refresh_forgets_chat:
  "let m = 60000;
       s1 = snd (store_open True ''a'' ''chat-a'' m (fresh_store FMissing));
       s2 = snd (store_open True ''b'' ''chat-b'' (100 * m) s1);
       s3 = snd (store_touch True ''a'' (104 * m) s2)
   in map_option ir_session (fst (store_active (122 * m) ''a'' s3)) = Some ''chat-a''
      \<and> map_option ir_session (fst (store_active (122 * m) ''a'' (restart s3))) = None"
  by code_simp

end
