(* ===== verification/MonitoringAlerts.thy ===== *)
theory MonitoringAlerts
  imports MonitoringPolicy MonitoringHistory MonitoringIncidents
begin

text \<open>
  Warnings that reach people and agents, packages/monitoring/src/alerts.ts: what is a new
  warning, what one warning does, and the tick that samples the projects and hands warnings on.

  The tick and a person's request are cut at their \<open>await\<close>s. A \<open>stage\<close> says what the rest of
  the tick waits for; each event below is one uninterrupted piece that gets the answer, and
  \<open>None\<close> is an answer that failed. What the pieces ask of the outside is logged as effects.
\<close>

section \<open>Warnings of a sample\<close>

datatype warning = WarnMemory | WarnLoad | WarnDisk | WarnService

datatype alert_type = MemoryHigh | LoadHigh | DiskHigh | ServiceDown

record service_health =
  sv_unit :: string
  sv_state :: string

record snapshot =
  sn_name :: string
  sn_metrics :: host_metrics
  sn_warnings :: "warning list"
  sn_services :: "service_health list"

record alert =
  al_type :: alert_type
  al_title :: string
  al_text :: string

text \<open>The comparisons of \<open>snapshot\<close> in service.ts, multiplied out.\<close>

definition sample_warnings :: "monitoring_policy \<Rightarrow> host_metrics \<Rightarrow> service_health list \<Rightarrow> warning list" where
  "sample_warnings p m services =
     (if mp_memory p * hm_memory_total m \<le> 100 * (hm_memory_total m - hm_memory_available m) then [WarnMemory] else [])
     @ (if 100 * mp_load p * hm_cpus m \<le> hm_load m then [WarnLoad] else [])
     @ (case worst_disk m of Some d \<Rightarrow> if mp_disk p \<le> disk_percent d then [WarnDisk] else [] | None \<Rightarrow> [])
     @ (if list_ex (\<lambda>s. sv_state s \<noteq> ''active'') services then [WarnService] else [])"

definition alert_clear_ms :: int where
  "alert_clear_ms = 15 * 60000"

definition alert_cleared :: "int option \<Rightarrow> int \<Rightarrow> bool" where
  "alert_cleared last_seen now = (case last_seen of None \<Rightarrow> True | Some t \<Rightarrow> alert_clear_ms \<le> now - t)"

text \<open>\<open>toFixed\<close> of a number that is given in hundredths or tenths.\<close>

definition fixed_two :: "int \<Rightarrow> string" where
  "fixed_two n = number_text (n div 100) @ ''.'' @ [digit_char (nat (n div 10 mod 10)), digit_char (nat (n mod 10))]"

definition fixed_one :: "int \<Rightarrow> string" where
  "fixed_one n = number_text (n div 10) @ ''.'' @ [digit_char (nat (n mod 10))]"

definition host_title :: "snapshot \<Rightarrow> string" where
  "host_title s = (if sn_name s \<noteq> [] then sn_name s else hm_hostname (sn_metrics s))"

fun join_with :: "string \<Rightarrow> string list \<Rightarrow> string" where
  "join_with sep [] = []"
| "join_with sep [x] = x"
| "join_with sep (x # y # ys) = x @ sep @ join_with sep (y # ys)"

definition alert_of :: "snapshot \<Rightarrow> warning \<Rightarrow> alert option" where
  "alert_of s w =
     (let m = sn_metrics s; host = host_title s in
      case w of
        WarnMemory \<Rightarrow> Some \<lparr>al_type = MemoryHigh, al_title = ''Memory is high on '' @ host,
          al_text = number_text (round_div (100 * (hm_memory_total m - hm_memory_available m)) (hm_memory_total m)) @ ''% of memory in use.''\<rparr>
      | WarnLoad \<Rightarrow> Some \<lparr>al_type = LoadHigh, al_title = ''Load is high on '' @ host,
          al_text = ''5-minute load '' @ fixed_two (hm_load m) @ '' on '' @ number_text (hm_cpus m) @ '' CPUs.''\<rparr>
      | WarnDisk \<Rightarrow> (case worst_disk m of
            None \<Rightarrow> None
          | Some d \<Rightarrow> Some \<lparr>al_type = DiskHigh, al_title = ''Disk is almost full on '' @ host,
              al_text = du_mount d @ '' is '' @ number_text (disk_percent d) @ ''% full, ''
                @ fixed_one (round_div (10 * du_available d) (2 ^ 30)) @ '' GiB left.''\<rparr>)
      | WarnService \<Rightarrow> Some \<lparr>al_type = ServiceDown, al_title = ''Service down on '' @ host,
          al_text = join_with '', '' (map (\<lambda>x. sv_unit x @ '' ('' @ sv_state x @ '')'')
            (filter (\<lambda>x. sv_state x \<noteq> ''active'') (sn_services s)))\<rparr>)"

type_synonym seen_times = "(warning, int) jsmap"

definition is_news :: "warning list \<Rightarrow> seen_times \<Rightarrow> int \<Rightarrow> warning \<Rightarrow> bool" where
  "is_news previous seen now w \<longleftrightarrow> w \<notin> set previous \<and> alert_cleared (jm_get seen w) now"

definition new_alerts :: "warning list \<Rightarrow> snapshot \<Rightarrow> seen_times \<Rightarrow> int \<Rightarrow> alert list" where
  "new_alerts previous s seen now = List.map_filter (alert_of s) (filter (is_news previous seen now) (sn_warnings s))"

section \<open>What one warning does\<close>

datatype alert_refusal = DeniedAlert | DuplicateAlert | ChatLimit | AlertHandled

datatype dispatch = NoAction alert_refusal | Ping | NotifyChat string | OpenChat

record dispatch_input =
  di_type :: alert_type
  di_policy :: monitoring_policy
  di_subscribed :: bool
  di_elsewhere :: bool
  di_incident :: "(string \<times> bool) option"
  di_open_count :: nat
  di_limit :: nat

definition incident_chat_limit :: nat where
  "incident_chat_limit = 5"

definition granted :: "monitoring_policy \<Rightarrow> alert_type \<Rightarrow> bool" where
  "granted p a = (if a = ServiceDown then mp_services p else mp_metrics p)"

definition decide_dispatch :: "dispatch_input \<Rightarrow> dispatch" where
  "decide_dispatch i =
     (if \<not> granted (di_policy i) (di_type i) then NoAction DeniedAlert
      else if di_subscribed i then Ping
      else if di_elsewhere i then NoAction DuplicateAlert
      else (case di_incident i of
              Some (chat, is_open) \<Rightarrow> if is_open then NotifyChat chat else NoAction AlertHandled
            | None \<Rightarrow> if di_limit i \<le> di_open_count i then NoAction ChatLimit else OpenChat))"

definition warning_of :: "alert_type \<Rightarrow> warning" where
  "warning_of a = (case a of MemoryHigh \<Rightarrow> WarnMemory | LoadHigh \<Rightarrow> WarnLoad | DiskHigh \<Rightarrow> WarnDisk | ServiceDown \<Rightarrow> WarnService)"

definition type_text :: "alert_type \<Rightarrow> string" where
  "type_text a = (case a of MemoryHigh \<Rightarrow> ''memory-high'' | LoadHigh \<Rightarrow> ''load-high'' | DiskHigh \<Rightarrow> ''disk-high'' | ServiceDown \<Rightarrow> ''service-down'')"

section \<open>State\<close>

record target =
  tg_space :: string
  tg_project :: string
  tg_subscribed :: bool

text \<open>
  What goes out, each with the policy it was decided under: a sample is taken, an event is
  published, a chat is notified, a chat is requested while so many incidents are open, and a
  chat is requested by a person.
\<close>

datatype effect =
    Sampled target
  | Published target alert
  | Notified string string alert
  | ChatRequested string string alert nat
  | ChatAskedFor string string

text \<open>\<open>AwaitSnapshot\<close> and the later stages carry the policy that was read, the targets that remain and the tick's clock.\<close>

datatype stage =
    Idle
  | AwaitTargets
  | AwaitPolicy int target "target list"
  | AwaitSnapshot int target "target list" monitoring_policy
  | AwaitProbe int target "target list" monitoring_policy string alert "alert list" string
  | AwaitCreate int target "target list" monitoring_policy string alert "alert list"

datatype ask_stage =
    AskPolicy
  | AskProbe monitoring_policy incident_record
  | AskSnapshot monitoring_policy
  | AskCreate monitoring_policy

record alerts_state =
  st_stage :: stage
  st_last :: "(string, warning list) jsmap"
  st_seen :: "(string, seen_times) jsmap"
  st_claims :: "(string, string) jsmap"
  st_incidents :: "(string, incident_store) jsmap"
  st_files :: "string \<Rightarrow> file_read" \<comment> \<open>the incident file of each Space\<close>
  st_effects :: "(monitoring_policy \<times> effect) list" \<comment> \<open>newest first\<close>
  st_asks :: "(string \<times> string \<times> ask_stage) list"

definition project_key :: "string \<Rightarrow> string \<Rightarrow> string" where
  "project_key space project = space @ '':'' @ project"

definition target_key :: "target \<Rightarrow> string" where
  "target_key t = project_key (tg_space t) (tg_project t)"

definition claim_key :: "string \<Rightarrow> string \<Rightarrow> alert_type \<Rightarrow> string" where
  "claim_key space host a = space @ '':'' @ host @ '':'' @ type_text a"

text \<open>What stands behind the last colon of a claim.\<close>

definition claim_type :: "string \<Rightarrow> string" where
  "claim_type claim = rev (takeWhile (\<lambda>c. c \<noteq> CHR '':'') (rev claim))"

definition keeps_claim :: "warning list \<Rightarrow> string \<Rightarrow> bool" where
  "keeps_claim keep claim \<longleftrightarrow> list_ex (\<lambda>a. type_text a = claim_type claim \<and> warning_of a \<in> set keep) [MemoryHigh, LoadHigh, DiskHigh, ServiceDown]"

definition forget :: "string \<Rightarrow> warning list \<Rightarrow> alerts_state \<Rightarrow> alerts_state" where
  "forget key keep s = s\<lparr>st_claims := filter (\<lambda>(claim, owner). owner \<noteq> key \<or> keeps_claim keep claim) (st_claims s)\<rparr>"

definition drop_project :: "string \<Rightarrow> alerts_state \<Rightarrow> alerts_state" where
  "drop_project key s = forget key [] (s\<lparr>st_last := jm_delete key (st_last s), st_seen := jm_delete key (st_seen s)\<rparr>)"

text \<open>The store of a Space, made on first use over its file; what an operation writes is what the next process reads.\<close>

definition store_for :: "string \<Rightarrow> alerts_state \<Rightarrow> incident_store" where
  "store_for space s = nullish (jm_get (st_incidents s) space) (fresh_store (st_files s space))"

definition put_store :: "string \<Rightarrow> incident_store \<Rightarrow> alerts_state \<Rightarrow> alerts_state" where
  "put_store space st s = s\<lparr>st_incidents := jm_set space st (st_incidents s), st_files := (st_files s)(space := is_file st)\<rparr>"

definition open_incidents :: "int \<Rightarrow> alerts_state \<Rightarrow> nat" where
  "open_incidents at_ms s = sum_list (map (\<lambda>(space, st). fst (store_open_count at_ms st)) (st_incidents s))"

definition count_all :: "int \<Rightarrow> alerts_state \<Rightarrow> alerts_state" where
  "count_all at_ms s = s\<lparr>st_incidents := map (\<lambda>(space, st). (space, snd (store_open_count at_ms st))) (st_incidents s)\<rparr>"

definition log_effect :: "monitoring_policy \<Rightarrow> effect \<Rightarrow> alerts_state \<Rightarrow> alerts_state" where
  "log_effect p e s = s\<lparr>st_effects := (p, e) # st_effects s\<rparr>"

section \<open>The tick\<close>

definition next_target :: "int \<Rightarrow> target list \<Rightarrow> alerts_state \<Rightarrow> alerts_state" where
  "next_target at_ms ts s = s\<lparr>st_stage := (case ts of [] \<Rightarrow> Idle | t # rest \<Rightarrow> AwaitPolicy at_ms t rest)\<rparr>"

definition tick_begin :: "alerts_state \<Rightarrow> alerts_state" where
  "tick_begin s = (if st_stage s = Idle then s\<lparr>st_stage := AwaitTargets\<rparr> else s)"

text \<open>Subscribed projects first, then the others that belong to a Space.\<close>

definition watched :: "(string \<times> string) list \<Rightarrow> (string option \<times> string) list \<Rightarrow> target list" where
  "watched subscribed projects =
     (let keyed = fold (\<lambda>(sp, pr) m. jm_set (project_key sp pr) (sp, pr) m) subscribed []
      in map (\<lambda>(k, sp, pr). \<lparr>tg_space = sp, tg_project = pr, tg_subscribed = True\<rparr>) keyed
         @ List.map_filter
             (\<lambda>(sp, pr). case sp of
                None \<Rightarrow> None
              | Some sp' \<Rightarrow> if sp' = [] \<or> jm_has keyed (project_key sp' pr) then None
                  else Some \<lparr>tg_space = sp', tg_project = pr, tg_subscribed = False\<rparr>)
             projects)"

definition targets_done :: "int \<Rightarrow> (string \<times> string) list \<Rightarrow> (string option \<times> string) list \<Rightarrow> alerts_state \<Rightarrow> alerts_state" where
  "targets_done at_ms subscribed projects s =
     (case st_stage s of
        AwaitTargets \<Rightarrow>
          (let ts = watched subscribed projects; keys = map target_key ts;
               s1 = fold drop_project (filter (\<lambda>k. k \<notin> set keys) (jm_keys (st_last s))) s
           in next_target at_ms ts s1)
      | _ \<Rightarrow> s)"

definition policy_done :: "monitoring_policy option \<Rightarrow> alerts_state \<Rightarrow> alerts_state" where
  "policy_done answer s =
     (case st_stage s of
        AwaitPolicy at_ms t rest \<Rightarrow>
          (case answer of
             None \<Rightarrow> next_target at_ms rest s
           | Some p \<Rightarrow>
               if \<not> mp_metrics p \<and> \<not> mp_services p then next_target at_ms rest (drop_project (target_key t) s)
               else (log_effect p (Sampled t) s)\<lparr>st_stage := AwaitSnapshot at_ms t rest p\<rparr>)
      | _ \<Rightarrow> s)"

text \<open>One decision, with \<open>incident\<close> and whether its chat is open; the flag says whether the tick now waits for a chat.\<close>

definition dispatch_alert :: "nat \<Rightarrow> int \<Rightarrow> target \<Rightarrow> target list \<Rightarrow> monitoring_policy \<Rightarrow> string \<Rightarrow> alert \<Rightarrow> alert list
    \<Rightarrow> (string \<times> bool) option \<Rightarrow> bool \<Rightarrow> alerts_state \<Rightarrow> bool \<times> alerts_state" where
  "dispatch_alert limit at_ms t rest p host a later incident elsewhere s =
     (let d = decide_dispatch \<lparr>di_type = al_type a, di_policy = p, di_subscribed = tg_subscribed t, di_elsewhere = elsewhere,
                di_incident = incident, di_open_count = open_incidents at_ms s, di_limit = limit\<rparr>;
          s1 = count_all at_ms s;
          s2 = s1\<lparr>st_claims := jm_set (claim_key (tg_space t) host (al_type a)) (target_key t) (st_claims s1)\<rparr>
      in case d of
           NoAction r \<Rightarrow> (False, s1)
         | Ping \<Rightarrow> (False, log_effect p (Published t a) s2)
         | NotifyChat chat \<Rightarrow> (False, log_effect p (Notified chat (tg_project t) a) s2)
         | OpenChat \<Rightarrow> (True, (log_effect p (ChatRequested (tg_space t) (tg_project t) a (open_incidents at_ms s)) s2)\<lparr>st_stage := AwaitCreate at_ms t rest p host a later\<rparr>))"

definition claimed_elsewhere :: "target \<Rightarrow> string \<Rightarrow> alert \<Rightarrow> alerts_state \<Rightarrow> bool" where
  "claimed_elsewhere t host a s =
     (case jm_get (st_claims s) (claim_key (tg_space t) host (al_type a)) of None \<Rightarrow> False | Some owner \<Rightarrow> owner \<noteq> target_key t)"

text \<open>The alerts of a target until one of them has to wait; the stage is left where it waits.\<close>

fun handle_alerts :: "nat \<Rightarrow> int \<Rightarrow> target \<Rightarrow> target list \<Rightarrow> monitoring_policy \<Rightarrow> string \<Rightarrow> alert list \<Rightarrow> alerts_state \<Rightarrow> alerts_state" where
  "handle_alerts limit at_ms t rest p host [] s = next_target at_ms rest s"
| "handle_alerts limit at_ms t rest p host (a # later) s =
     (let elsewhere = claimed_elsewhere t host a s;
          (incident, st) = store_active at_ms (tg_project t) (store_for (tg_space t) s);
          s1 = put_store (tg_space t) st s
      in case incident of
           Some r \<Rightarrow>
             if granted p (al_type a) \<and> \<not> tg_subscribed t \<and> \<not> elsewhere then
               s1\<lparr>st_stage := AwaitProbe at_ms t rest p host a later (ir_session r)\<rparr>
             else
               handle_alerts limit at_ms t rest p host later
                 (snd (dispatch_alert limit at_ms t rest p host a later (Some (ir_session r, False)) elsewhere s1))
         | None \<Rightarrow>
             (let (waits, s2) = dispatch_alert limit at_ms t rest p host a later None elsewhere s1
              in if waits then s2 else handle_alerts limit at_ms t rest p host later s2))"

text \<open>What a sample says of a project: its new alerts, and what is remembered of it.\<close>

definition observe :: "int \<Rightarrow> snapshot \<Rightarrow> warning list option \<times> seen_times \<Rightarrow> alert list \<times> (warning list option \<times> seen_times)" where
  "observe at_ms sn mem =
     ((case fst mem of Some before \<Rightarrow> new_alerts before sn (snd mem) at_ms | None \<Rightarrow> []),
      (Some (sn_warnings sn), fold (\<lambda>w m. jm_set w at_ms m) (sn_warnings sn) (snd mem)))"

definition snapshot_done :: "nat \<Rightarrow> bool \<Rightarrow> snapshot option \<Rightarrow> alerts_state \<Rightarrow> alerts_state" where
  "snapshot_done limit disk_ok answer s =
     (case st_stage s of
        AwaitSnapshot at_ms t rest p \<Rightarrow>
          (case answer of
             None \<Rightarrow> next_target at_ms rest s
           | Some sn \<Rightarrow>
               (let key = target_key t;
                    host = (if hm_hostname (sn_metrics sn) \<noteq> [] then hm_hostname (sn_metrics sn) else sn_name sn);
                    (alerts, mem) = observe at_ms sn (jm_get (st_last s) key, nullish (jm_get (st_seen s) key) []);
                    s1 = put_store (tg_space t) (store_for (tg_space t) s) s;
                    s2 = s1\<lparr>st_last := jm_set key (sn_warnings sn) (st_last s1), st_seen := jm_set key (snd mem) (st_seen s1)\<rparr>;
                    s3 = forget key (sn_warnings sn) s2
                in if sn_warnings sn = [] then handle_alerts limit at_ms t rest p host alerts s3
                   else
                     (let (err, st) = store_touch disk_ok (tg_project t) at_ms (store_for (tg_space t) s3);
                          s4 = put_store (tg_space t) st s3
                      in if err = None then handle_alerts limit at_ms t rest p host alerts s4 else next_target at_ms rest s4)))
      | _ \<Rightarrow> s)"


definition create_done :: "nat \<Rightarrow> bool \<Rightarrow> string option \<Rightarrow> alerts_state \<Rightarrow> alerts_state" where
  "create_done limit disk_ok answer s =
     (case st_stage s of
        AwaitCreate at_ms t rest p host a later \<Rightarrow>
          (if \<not> truthy answer then handle_alerts limit at_ms t rest p host later s
           else
             (case store_open disk_ok (tg_project t) (the answer) at_ms (store_for (tg_space t) s) of
                (Inl e, st) \<Rightarrow> next_target at_ms rest (put_store (tg_space t) st s)
              | (Inr r, st) \<Rightarrow>
                  handle_alerts limit at_ms t rest p host later
                    (log_effect p (Notified (the answer) (tg_project t) a) (put_store (tg_space t) st s))))
      | _ \<Rightarrow> s)"


section \<open>A person asks for a look\<close>

text \<open>The pieces of \<open>ask\<close>; several requests can be under way, next to the tick. A request that ends leaves the list.\<close>

definition end_ask :: "string \<times> string \<times> ask_stage \<Rightarrow> alerts_state \<Rightarrow> alerts_state" where
  "end_ask x s = s\<lparr>st_asks := remove1 x (st_asks s)\<rparr>"

definition go_on_ask :: "string \<times> string \<times> ask_stage \<Rightarrow> ask_stage \<Rightarrow> alerts_state \<Rightarrow> alerts_state" where
  "go_on_ask x stage s = (case x of (sp, pr, old) \<Rightarrow> s\<lparr>st_asks := (sp, pr, stage) # remove1 x (st_asks s)\<rparr>)"

definition ask_begin :: "string \<Rightarrow> string \<Rightarrow> alerts_state \<Rightarrow> alerts_state" where
  "ask_begin sp pr s = s\<lparr>st_asks := (sp, pr, AskPolicy) # st_asks s\<rparr>"

definition ask_policy_done :: "int \<Rightarrow> string \<Rightarrow> string \<Rightarrow> monitoring_policy option \<Rightarrow> alerts_state \<Rightarrow> alerts_state" where
  "ask_policy_done now sp pr answer s =
     (let x = (sp, pr, AskPolicy) in
      if x \<notin> set (st_asks s) then s
      else
        (case answer of
           None \<Rightarrow> end_ask x s
         | Some p \<Rightarrow>
             if \<not> mp_metrics p then end_ask x s
             else
               (let (incident, st) = store_active now pr (store_for sp s); s1 = put_store sp st s
                in case incident of
                     Some r \<Rightarrow> go_on_ask x (AskProbe p r) s1
                   | None \<Rightarrow> (go_on_ask x (AskSnapshot p) (log_effect p (Sampled \<lparr>tg_space = sp, tg_project = pr, tg_subscribed = False\<rparr>) s1)))))"


definition ask_snapshot_done :: "string \<Rightarrow> string \<Rightarrow> monitoring_policy \<Rightarrow> bool \<Rightarrow> alerts_state \<Rightarrow> alerts_state" where
  "ask_snapshot_done sp pr p ok s =
     (let x = (sp, pr, AskSnapshot p) in
      if x \<notin> set (st_asks s) then s
      else if \<not> ok then end_ask x s
      else go_on_ask x (AskCreate p) (log_effect p (ChatAskedFor sp pr) s))"


definition fresh_alerts :: "(string \<Rightarrow> file_read) \<Rightarrow> alerts_state" where
  "fresh_alerts files = \<lparr>st_stage = Idle, st_last = [], st_seen = [], st_claims = [], st_incidents = [], st_files = files,
     st_effects = [], st_asks = []\<rparr>"


section \<open>When a warning is news\<close>

fun observe_run :: "warning list option \<times> seen_times \<Rightarrow> (int \<times> snapshot) list \<Rightarrow> alert list list" where
  "observe_run mem [] = []"
| "observe_run mem ((t, sn) # rest) = fst (observe t sn mem) # observe_run (snd (observe t sn mem)) rest"

definition remembered :: "(int \<times> snapshot) list \<Rightarrow> warning list option \<times> seen_times" where
  "remembered samples = fold (\<lambda>(t, sn) mem. snd (observe t sn mem)) samples (None, [])"

lemma observe_run_nth:
  "i < length samples \<Longrightarrow> observe_run mem samples ! i =
     fst (observe (fst (samples ! i)) (snd (samples ! i)) (fold (\<lambda>(t, sn) mem. snd (observe t sn mem)) (take i samples) mem))"
proof (induction samples arbitrary: mem i)
  case (Cons x samples)
  obtain t sn where x: "x = (t, sn)" by (cases x)
  from Cons show ?case by (cases i) (simp_all add: x)
qed simp

lemma observed_times: "jm_get (fold (\<lambda>w m. jm_set w t m) ws m) w = (if w \<in> set ws then Some t else jm_get m w)"
  by (induction ws arbitrary: m) (auto simp: jm_lookup)

text \<open>What is remembered: the warnings of the last sample, and when each warning was last present.\<close>

lemma remembered_snoc: "remembered (samples @ [(t, sn)]) = (Some (sn_warnings sn), fold (\<lambda>w m. jm_set w t m) (sn_warnings sn) (snd (remembered samples)))"
  by (simp add: remembered_def observe_def)

lemma remembered_last: "fst (remembered samples) = (if samples = [] then None else Some (sn_warnings (snd (last samples))))"
  by (cases samples rule: rev_cases) (auto simp: remembered_def observe_def)

lemma remembered_seen:
  assumes "sorted (map fst samples)"
  shows "case jm_get (snd (remembered samples)) w of
      None \<Rightarrow> \<forall>(t, sn) \<in> set samples. w \<notin> set (sn_warnings sn)
    | Some u \<Rightarrow> (\<exists>sn. (u, sn) \<in> set samples \<and> w \<in> set (sn_warnings sn)) \<and> (\<forall>(t, sn) \<in> set samples. w \<in> set (sn_warnings sn) \<longrightarrow> t \<le> u)"
  using assms
proof (induction samples rule: rev_induct)
  case (snoc x samples)
  obtain t sn where x: "x = (t, sn)" by (cases x)
  have le: "t' \<le> t" if "(t', sn') \<in> set samples" for t' sn' using snoc.prems that by (auto simp: x sorted_append)
  show ?case
  proof (cases "w \<in> set (sn_warnings sn)")
    case True
    with le show ?thesis by (auto simp: x remembered_snoc observed_times)
  next
    case False
    with snoc show ?thesis
      by (auto simp: x remembered_snoc observed_times sorted_append split: option.splits)
  qed
qed (simp add: remembered_def)

lemma cleared_iff:
  assumes "sorted (map fst samples)"
  shows "alert_cleared (jm_get (snd (remembered samples)) w) t \<longleftrightarrow>
    (\<forall>x \<in> set samples. w \<in> set (sn_warnings (snd x)) \<longrightarrow> alert_clear_ms \<le> t - fst x)"
  using remembered_seen [OF assms, of w] by (fastforce simp: alert_cleared_def split: option.splits)

text \<open>
  A sample alerts for exactly those of its warnings that begin an episode: the project was
  sampled before, the sample before this one did not show the warning, and no earlier sample
  of the last fifteen minutes did.
\<close>

theorem alerts_begin_episodes:
  assumes "sorted (map fst samples)" "i < length samples"
  shows "observe_run (None, []) samples ! i =
    List.map_filter (alert_of (snd (samples ! i)))
      (filter (\<lambda>w. 0 < i \<and> w \<notin> set (sn_warnings (snd (samples ! (i - 1))))
         \<and> (\<forall>j < i. w \<in> set (sn_warnings (snd (samples ! j))) \<longrightarrow> alert_clear_ms \<le> fst (samples ! i) - fst (samples ! j)))
       (sn_warnings (snd (samples ! i))))"
proof -
  let ?before = "take i samples"
  have mem: "fold (\<lambda>(t, sn) mem. snd (observe t sn mem)) ?before (None, []) = remembered ?before" by (simp add: remembered_def)
  have srt: "sorted (map fst ?before)" using sorted_wrt_take [OF assms(1), of i] by (simp add: take_map)
  show ?thesis
  proof (cases "i = 0")
    case True
    with assms(2) show ?thesis by (simp add: observe_run_nth observe_def List.map_filter_def)
  next
    case False
    then have last: "last ?before = samples ! (i - 1)" using assms(2) by (subst last_conv_nth) auto
    have set: "set ?before = (\<lambda>j. samples ! j) ` {0..<i}" using assms(2) nth_image [of i samples] by simp
    have news: "is_news (sn_warnings (snd (samples ! (i - 1)))) (snd (remembered ?before)) (fst (samples ! i)) =
        (\<lambda>w. 0 < i \<and> w \<notin> set (sn_warnings (snd (samples ! (i - 1))))
        \<and> (\<forall>j < i. w \<in> set (sn_warnings (snd (samples ! j))) \<longrightarrow> alert_clear_ms \<le> fst (samples ! i) - fst (samples ! j)))"
      unfolding is_news_def cleared_iff [OF srt] set using False by (intro ext) auto
    have "fst (remembered ?before) = Some (sn_warnings (snd (samples ! (i - 1))))"
      using False assms(2) last by (auto simp: remembered_last)
    moreover have "observe_run (None, []) samples ! i = fst (observe (fst (samples ! i)) (snd (samples ! i)) (remembered ?before))"
      by (simp only: observe_run_nth [OF assms(2)] mem)
    ultimately show ?thesis unfolding news [symmetric] by (simp add: observe_def new_alerts_def)
  qed
qed


section \<open>Everything that can happen\<close>


definition effect_ok :: "nat \<Rightarrow> monitoring_policy \<times> effect \<Rightarrow> bool" where
  "effect_ok limit pe =
     (case pe of
        (p, Sampled t) \<Rightarrow> mp_metrics p \<or> mp_services p
      | (p, Published t a) \<Rightarrow> granted p (al_type a)
      | (p, Notified chat project a) \<Rightarrow> granted p (al_type a)
      | (p, ChatRequested sp project a n) \<Rightarrow> granted p (al_type a) \<and> n < limit
      | (p, ChatAskedFor sp project) \<Rightarrow> mp_metrics p)"

fun ask_ok :: "string \<times> string \<times> ask_stage \<Rightarrow> bool" where
  "ask_ok (sp, pr, AskPolicy) = True"
| "ask_ok (sp, pr, AskProbe p r) = mp_metrics p"
| "ask_ok (sp, pr, AskSnapshot p) = mp_metrics p"
| "ask_ok (sp, pr, AskCreate p) = mp_metrics p"

definition effects_ok :: "nat \<Rightarrow> alerts_state \<Rightarrow> bool" where
  "effects_ok limit s \<longleftrightarrow> list_all (effect_ok limit) (st_effects s) \<and> (\<forall>x \<in> set (st_asks s). ask_ok x)"

definition stage_ok :: "stage \<Rightarrow> bool" where
  "stage_ok g = (case g of
      AwaitProbe t0 t rest p host a later chat \<Rightarrow> granted p (al_type a)
    | AwaitCreate t0 t rest p host a later \<Rightarrow> granted p (al_type a)
    | _ \<Rightarrow> True)"

definition alerts_inv :: "nat \<Rightarrow> alerts_state \<Rightarrow> bool" where
  "alerts_inv limit s \<longleftrightarrow> effects_ok limit s \<and> stage_ok (st_stage s)"


lemma effects_ok_untouched [simp]:
  "effects_ok limit (put_store sp st s) = effects_ok limit s"
  "effects_ok limit (forget k ws s) = effects_ok limit s"
  "effects_ok limit (drop_project k s) = effects_ok limit s"
  "effects_ok limit (count_all now s) = effects_ok limit s"
  "effects_ok limit (s\<lparr>st_stage := g\<rparr>) = effects_ok limit s"
  "effects_ok limit (s\<lparr>st_claims := c\<rparr>) = effects_ok limit s"
  "effects_ok limit (s\<lparr>st_last := l, st_seen := e\<rparr>) = effects_ok limit s"
  "effects_ok limit (next_target now ts s) = effects_ok limit s"
  by (simp_all add: effects_ok_def put_store_def forget_def drop_project_def count_all_def next_target_def)

lemma effects_ok_fold_drop [simp]: "effects_ok limit (fold drop_project ks s) = effects_ok limit s"
  by (induction ks arbitrary: s) simp_all

lemma next_target_inv [simp]: "alerts_inv limit (next_target now ts s) = effects_ok limit s"
  by (simp add: alerts_inv_def) (simp add: next_target_def stage_ok_def split: list.split)






lemma stage_asks [simp]:
  "st_stage (end_ask x s) = st_stage s" "st_stage (go_on_ask x g s) = st_stage s" "st_stage (put_store sp st s) = st_stage s"
  "st_stage (log_effect p e s) = st_stage s"
  by (simp_all add: end_ask_def go_on_ask_def put_store_def log_effect_def split: prod.split)









section \<open>One host with too little memory\<close>

definition demo_sample :: "bool \<Rightarrow> snapshot" where
  "demo_sample high = \<lparr>sn_name = ''box'', sn_metrics = demo_metrics 100, sn_warnings = (if high then [WarnMemory] else []), sn_services = []\<rparr>"

definition demo_run :: "(int \<times> snapshot) list" where
  "demo_run = [(0, demo_sample False), (60000, demo_sample True), (120000, demo_sample False), (180000, demo_sample True), (1200000, demo_sample False), (1260000, demo_sample True)]"

lemma demo_alerts: "map length (observe_run (None, []) demo_run) = [0, 1, 0, 0, 0, 1]"
  by code_simp

theorem alerts_begin_episodes_witness:
  "observe_run (None, []) demo_run ! 5 =
    List.map_filter (alert_of (snd (demo_run ! 5)))
      (filter (\<lambda>w. 0 < (5 :: nat) \<and> w \<notin> set (sn_warnings (snd (demo_run ! (5 - 1))))
         \<and> (\<forall>j < 5. w \<in> set (sn_warnings (snd (demo_run ! j))) \<longrightarrow> alert_clear_ms \<le> fst (demo_run ! 5) - fst (demo_run ! j)))
       (sn_warnings (snd (demo_run ! 5))))"
  by (rule alerts_begin_episodes) (simp_all add: demo_run_def)

text \<open>A tick that samples project \<open>p\<close> of Space \<open>a\<close>.\<close>

definition demo_tick :: "int \<Rightarrow> bool \<Rightarrow> alerts_state \<Rightarrow> alerts_state" where
  "demo_tick now high s =
     snapshot_done 5 True (Some (demo_sample high))
       (policy_done (Some demo_policy) (targets_done now [] [(Some ''a'', ''p'')] (tick_begin s)))"

definition demo_seen :: "(string \<Rightarrow> file_read) \<Rightarrow> alerts_state" where
  "demo_seen files = demo_tick 660000 True (demo_tick 600000 False (fresh_alerts files))"

definition demo_outcome :: "alerts_state \<Rightarrow> string list" where
  "demo_outcome s = map (\<lambda>(p, e). case e of Sampled t \<Rightarrow> ''sampled'' | Published t a \<Rightarrow> ''published'' | Notified c pr a \<Rightarrow> ''notified ''  @ c
     | ChatRequested sp pr a n \<Rightarrow> ''chat requested, '' @ number_text (int n) @ '' open'' | ChatAskedFor sp pr \<Rightarrow> ''chat asked for'') (st_effects s)"

lemma demo_chat_requested:
  "demo_outcome (create_done 5 True (Some ''chat-1'') (demo_seen (\<lambda>_. FMissing))) =
     [''notified chat-1'', ''chat requested, 0 open'', ''sampled'', ''sampled'']"
  by code_simp





text \<open>
  The cap counts the stores that this process has loaded: after a restart the five chats of a
  Space that was not sampled yet do not count, and a sixth is requested.
\<close>

definition five_chats :: file_read where
  "five_chats = FJson (file_json (map (\<lambda>p. (p, \<lparr>ir_session = p, ir_opened_at = 600000, ir_last_warning = 600000\<rparr>)) [''p1'', ''p2'', ''p3'', ''p4'', ''p5'']))"

lemma cap_misses_unsampled_spaces:
  "fst (store_open_count 660000 (fresh_store five_chats)) = 5
    \<and> hd (demo_outcome (demo_seen (\<lambda>sp. if sp = ''b'' then five_chats else FMissing))) = ''chat requested, 0 open''"
  by code_simp

text \<open>
  While the chat of a warning is being created, a person's request does not see it and asks for
  a second one for the same project.
\<close>

lemma request_during_creation_doubles_chat:
  "take 3 (demo_outcome (ask_snapshot_done ''a'' ''p'' demo_policy True
     (ask_policy_done 661000 ''a'' ''p'' (Some demo_policy) (ask_begin ''a'' ''p'' (demo_seen (\<lambda>_. FMissing)))))) =
   [''chat asked for'', ''sampled'', ''chat requested, 0 open'']"
  by code_simp

end
