(* ===== verification/SessionLog.thy ===== *)
theory SessionLog
  imports JsMap
begin

text \<open>
  The canonical log of one session and the selectors that read it
  (packages/session/src/history.ts and the pure selectors of index.ts).

  An event is the record \<open>session_event\<close>; its payload is a parsed JSON object. The
  random id of an event is left out: nothing here reads it. \<open>js_number\<close> is
  \<open>Number(x)\<close> for the payload fields that hold sequence numbers: \<open>None\<close> stands for NaN
  and for a value that is no integer; a numeric string is read in plain decimal.
\<close>

record event_opts =
  eo_ignorable :: bool
  eo_surface :: "string option"
  eo_sources :: "int list option"
  eo_producer :: "string option"

record session_event =
  ev_session :: string
  ev_seq :: int
  ev_time :: int
  ev_type :: string
  ev_data :: json
  ev_opts :: event_opts

definition plain_opts :: event_opts where
  "plain_opts = \<lparr>eo_ignorable = False, eo_surface = None, eo_sources = None, eo_producer = None\<rparr>"

definition ignorable_opts :: event_opts where
  "ignorable_opts = plain_opts\<lparr>eo_ignorable := True\<rparr>"

subsection \<open>Numbers in payloads\<close>

fun numeral_value :: "string \<Rightarrow> nat \<Rightarrow> nat option" where
  "numeral_value [] n = Some n"
| "numeral_value (c # cs) n =
     (let d = of_char c :: nat in if 48 \<le> d \<and> d \<le> 57 then numeral_value cs (10 * n + (d - 48)) else None)"

definition number_of_text :: "string \<Rightarrow> int option" where
  "number_of_text s =
     (let t = trim s;
          neg = (t \<noteq> [] \<and> hd t = CHR ''-'');
          body = (if t \<noteq> [] \<and> (hd t = CHR ''-'' \<or> hd t = CHR ''+'') then tl t else t)
      in if t = [] then Some 0
         else if body = [] then None
         else map_option (\<lambda>n. if neg then - int n else int n) (numeral_value body 0))"

fun js_number :: "json option \<Rightarrow> int option" where
  "js_number None = None"
| "js_number (Some JNull) = Some 0"
| "js_number (Some (JBool b)) = Some (if b then 1 else 0)"
| "js_number (Some (JNum n)) = Some n"
| "js_number (Some (JStr s)) = number_of_text s"
| "js_number (Some (JArr [])) = Some 0"
| "js_number (Some (JArr [JBool b])) = None"
| "js_number (Some (JArr [x])) = js_number (Some x)"
| "js_number (Some (JArr (x # y # xs))) = None"
| "js_number (Some (JObj kvs)) = None"

text \<open>\<open>String(x)\<close> of a payload field.\<close>

fun comma_join :: "string list \<Rightarrow> string" where
  "comma_join [] = []"
| "comma_join [s] = s"
| "comma_join (s # t # ts) = s @ CHR '','' # comma_join (t # ts)"

fun js_string :: "json \<Rightarrow> string" where
  "js_string JNull = ''null''"
| "js_string (JBool b) = (if b then ''true'' else ''false'')"
| "js_string (JNum n) = number_text n"
| "js_string (JStr s) = s"
| "js_string (JArr xs) = comma_join (map (\<lambda>x. if x = JNull then [] else js_string x) xs)"
| "js_string (JObj kvs) = ''[object Object]''"

definition safe_integer :: "int option \<Rightarrow> bool" where
  "safe_integer x \<longleftrightarrow> (case x of None \<Rightarrow> False | Some n \<Rightarrow> \<bar>n\<bar> \<le> 9007199254740991)"

text \<open>\<open>Number.isSafeInteger(seq) && seq > 0\<close>.\<close>

definition positive_seq :: "json option \<Rightarrow> int option" where
  "positive_seq j =
     (case js_number j of
        Some n \<Rightarrow> if safe_integer (Some n) \<and> 0 < n then Some n else None
      | None \<Rightarrow> None)"

definition ev_field :: "session_event \<Rightarrow> string \<Rightarrow> json option" where
  "ev_field e k = json_field (ev_data e) k"

definition json_obj_field :: "json option \<Rightarrow> string \<Rightarrow> json option" where
  "json_obj_field j k = (case j of None \<Rightarrow> None | Some x \<Rightarrow> json_field x k)"

subsection \<open>The effective history\<close>

record hidden_tail =
  ht_marker :: int
  ht_at :: int
  ht_events :: "session_event list"

record effective_history =
  eh_events :: "session_event list"
  eh_hidden :: "session_event list"
  eh_rewind :: "(int \<times> int) option" \<comment> \<open>\<open>markerSeq\<close> and \<open>atSeq\<close>\<close>

type_synonym splice = "session_event list \<times> hidden_tail option"

definition is_rewound :: "session_event \<Rightarrow> bool" where
  "is_rewound e \<longleftrightarrow> ev_type e = ''session/rewound''"

definition is_cleared :: "session_event \<Rightarrow> bool" where
  "is_cleared e \<longleftrightarrow> ev_type e = ''session/rewind-cleared''"

definition marker_matches :: "session_event \<Rightarrow> hidden_tail \<Rightarrow> bool" where
  "marker_matches e h \<longleftrightarrow>
     ev_field e ''rewindSeq'' = None \<or> js_number (ev_field e ''rewindSeq'') = Some (ht_marker h)"

definition hide_from :: "int \<Rightarrow> session_event \<Rightarrow> session_event list \<Rightarrow> splice" where
  "hide_from at_seq e vis =
     (filter (\<lambda>x. ev_seq x < at_seq) vis,
      Some \<lparr>ht_marker = ev_seq e, ht_at = at_seq, ht_events = filter (\<lambda>x. at_seq \<le> ev_seq x) vis\<rparr>)"

definition splice_step :: "session_event \<Rightarrow> splice \<Rightarrow> splice" where
  "splice_step e st =
     (let (vis, hid) = st in
      if is_rewound e then
        (case positive_seq (ev_field e ''atSeq'') of
           Some at_seq \<Rightarrow> hide_from at_seq e vis
         | None \<Rightarrow> (vis, hid))
      else
        (case hid of
           Some h \<Rightarrow>
             if is_cleared e then
               (if marker_matches e h
                then (if ev_field e ''replaced'' = Some (JBool True) then vis else vis @ ht_events h, None)
                else (vis, Some h))
             else (vis, Some (h\<lparr>ht_events := ht_events h @ [e]\<rparr>))
         | None \<Rightarrow> (vis @ [e], None)))"

definition splice_all :: "session_event list \<Rightarrow> splice \<Rightarrow> splice" where
  "splice_all es st = fold splice_step es st"

definition effectiveHistory :: "session_event list \<Rightarrow> effective_history" where
  "effectiveHistory es =
     (let (vis, hid) = splice_all es ([], None) in
      \<lparr>eh_events = vis,
       eh_hidden = (case hid of None \<Rightarrow> [] | Some h \<Rightarrow> ht_events h),
       eh_rewind = (case hid of None \<Rightarrow> None | Some h \<Rightarrow> Some (ht_marker h, ht_at h))\<rparr>)"

subsection \<open>The selectors of the store module\<close>

record active_rewind =
  ar_marker :: int
  ar_at :: int
  ar_restored :: "string option"

definition active_step :: "session_event \<Rightarrow> active_rewind option \<Rightarrow> active_rewind option" where
  "active_step e act =
     (if is_rewound e then
        (case positive_seq (ev_field e ''atSeq'') of
           Some at_seq \<Rightarrow> Some \<lparr>ar_marker = ev_seq e, ar_at = at_seq,
                              ar_restored = json_str (ev_field e ''restoredText'')\<rparr>
         | None \<Rightarrow> act)
      else
        (case act of
           Some a \<Rightarrow>
             if is_cleared e
                \<and> (\<not> safe_integer (js_number (ev_field e ''rewindSeq''))
                   \<or> js_number (ev_field e ''rewindSeq'') = Some (ar_marker a))
             then None else Some a
         | None \<Rightarrow> None))"

definition activeRewind :: "session_event list \<Rightarrow> active_rewind option" where
  "activeRewind es = fold active_step es None"

record rewind_draft =
  rd_text :: string
  rd_attachments :: "json list"

definition raw_or_text :: "json \<Rightarrow> string" where
  "raw_or_text d =
     (case json_str (json_field d ''raw'') of
        Some s \<Rightarrow> s
      | None \<Rightarrow> (case json_str (json_field d ''text'') of Some s \<Rightarrow> s | None \<Rightarrow> []))"

definition rewindDraft :: "session_event list \<Rightarrow> rewind_draft option" where
  "rewindDraft es =
     (let eff = effectiveHistory es in
      case eh_rewind eff of
        None \<Rightarrow> None
      | Some (marker, at_seq) \<Rightarrow>
          (case find (\<lambda>e. ev_seq e = at_seq \<and> ev_type e = ''user/message'') (eh_hidden eff) of
             None \<Rightarrow> None
           | Some target \<Rightarrow>
               Some \<lparr>rd_text = raw_or_text (ev_data target),
                     rd_attachments = (case ev_field target ''attachments'' of
                                         Some (JArr xs) \<Rightarrow> xs | _ \<Rightarrow> [])\<rparr>))"

record pinned_message =
  pm_seq :: int
  pm_user :: bool \<comment> \<open>role \<open>user\<close>, otherwise \<open>assistant\<close>\<close>
  pm_text :: string

definition pin_step :: "session_event \<Rightarrow> (int, bool) jsmap \<Rightarrow> (int, bool) jsmap" where
  "pin_step e active =
     (if ev_type e = ''context/pinned'' \<or> ev_type e = ''context/unpinned''
      then (case positive_seq (ev_field e ''sourceEventSeq'') of
              Some n \<Rightarrow> jm_set n (ev_type e = ''context/pinned'') active
            | None \<Rightarrow> active)
      else active)"

definition by_seq :: "session_event list \<Rightarrow> int \<Rightarrow> session_event option" where
  "by_seq es n = find (\<lambda>e. ev_seq e = n) (rev es)"

definition pin_of :: "session_event list \<Rightarrow> int \<times> bool \<Rightarrow> pinned_message option" where
  "pin_of es p =
     (if snd p
      then (case by_seq es (fst p) of
              None \<Rightarrow> None
            | Some src \<Rightarrow>
                if ev_type src = ''user/message'' \<or> ev_type src = ''assistant/message''
                then (case json_str (ev_field src ''text'') of
                        Some t \<Rightarrow>
                          if trim t \<noteq> []
                          then Some \<lparr>pm_seq = fst p, pm_user = (ev_type src = ''user/message''), pm_text = t\<rparr>
                          else None
                      | None \<Rightarrow> None)
                else None)
      else None)"

definition activePinnedMessages :: "session_event list \<Rightarrow> pinned_message list" where
  "activePinnedMessages es =
     sort_key pm_seq (List.map_filter (pin_of es) (fold pin_step es []))"

definition compaction_step :: "session_event \<Rightarrow> int \<times> int list \<Rightarrow> int \<times> int list" where
  "compaction_step e st =
     (let (latest, restored) = st;
          latest' = (if ev_type e = ''session/compacted'' then ev_seq e else latest)
      in if ev_type e = ''user/message''
         then (case positive_seq (json_obj_field (ev_field e ''compactionRecovery'') ''compactionSeq'') of
                 Some n \<Rightarrow> (latest', List.insert n restored)
               | None \<Rightarrow> (latest', restored))
         else (latest', restored))"

definition unrestoredCompactionSeq :: "session_event list \<Rightarrow> int option" where
  "unrestoredCompactionSeq es =
     (let (latest, restored) = fold compaction_step es (0, []) in
      if 0 < latest \<and> latest \<notin> set restored then Some latest else None)"

definition isContextFreeNativeCommand :: "session_event \<Rightarrow> bool" where
  "isContextFreeNativeCommand e \<longleftrightarrow>
     ev_type e = ''user/message'' \<and> ev_field e ''command'' \<noteq> None \<and> ev_field e ''recoveryContext'' = None"

definition recoveredUserText :: "string \<Rightarrow> string option \<Rightarrow> string" where
  "recoveredUserText txt ctx =
     (case ctx of
        Some c \<Rightarrow> if c \<noteq> [] then c @ [CHR 0x0A, CHR 0x0A] @ txt else txt
      | None \<Rightarrow> txt)"

subsection \<open>The splice\<close>

definition splice_flat :: "splice \<Rightarrow> session_event list" where
  "splice_flat st = fst st @ (case snd st of None \<Rightarrow> [] | Some h \<Rightarrow> ht_events h)"

definition seq_sorted :: "session_event list \<Rightarrow> bool" where
  "seq_sorted es \<longleftrightarrow> sorted_wrt (<) (map ev_seq es)"

lemma splice_all_simps [simp]:
  "splice_all [] st = st"
  "splice_all (e # es) st = splice_all es (splice_step e st)"
  "splice_all (es @ fs) st = splice_all fs (splice_all es st)"
  by (simp_all add: splice_all_def)

lemma seq_sorted_simps [simp]:
  "seq_sorted []"
  "seq_sorted (e # es) \<longleftrightarrow> (\<forall>x\<in>set es. ev_seq e < ev_seq x) \<and> seq_sorted es"
  "seq_sorted (es @ fs) \<longleftrightarrow>
     seq_sorted es \<and> seq_sorted fs \<and> (\<forall>x\<in>set es. \<forall>y\<in>set fs. ev_seq x < ev_seq y)"
  by (auto simp: seq_sorted_def sorted_wrt_append)

lemma seq_sorted_subseq: "subseq xs ys \<Longrightarrow> seq_sorted ys \<Longrightarrow> seq_sorted xs"
  by (induction rule: list_emb.induct) (auto dest: list_emb_set)

lemma filter_parts: "seq_sorted es \<Longrightarrow> filter (\<lambda>x. ev_seq x < k) es @ filter (\<lambda>x. k \<le> ev_seq x) es = es"
proof (induction es)
  case (Cons e es)
  have none: "filter (\<lambda>x. ev_seq x < k) es = []" if "\<not> ev_seq e < k"
    using Cons.prems that by (force simp: filter_empty_conv)
  from Cons none show ?case by (cases "ev_seq e < k") (auto split: if_splits)
qed simp

lemma splice_flat_simps [simp]:
  "splice_flat (vis, None) = vis"
  "splice_flat (vis, Some h) = vis @ ht_events h"
  by (simp_all add: splice_flat_def)

lemma filter_parts_subseq:
  "subseq (filter (\<lambda>x. ev_seq x < k) vis @ filter (\<lambda>x. k \<le> ev_seq x) vis) (vis @ ys)"
  if "seq_sorted vis"
  using filter_parts [OF that, of k] by (simp add: subseq_rev_drop_many)

lemma splice_step_subseq:
  assumes "seq_sorted (splice_flat st)"
  shows "subseq (splice_flat (splice_step e st)) (splice_flat st @ [e])"
proof (cases st)
  case (Pair vis hid)
  show ?thesis
  proof (cases hid)
    case None
    with Pair assms show ?thesis
      by (auto simp: splice_step_def hide_from_def filter_parts split: option.splits)
  next
    case (Some h)
    have "subseq vis ((vis @ ht_events h) @ [e])" by (simp add: subseq_rev_drop_many)
    with Pair Some assms show ?thesis
      by (auto simp: splice_step_def hide_from_def filter_parts subseq_rev_drop_many split: option.splits)
  qed
qed

lemma splice_all_subseq:
  "seq_sorted (splice_flat st @ es) \<Longrightarrow> subseq (splice_flat (splice_all es st)) (splice_flat st @ es)"
proof (induction es arbitrary: st)
  case (Cons e es)
  have "subseq (splice_flat (splice_step e st) @ es) ((splice_flat st @ [e]) @ es)"
    using splice_step_subseq [of st e] Cons.prems by (simp del: append_assoc)
  then have *: "subseq (splice_flat (splice_step e st) @ es) (splice_flat st @ e # es)" by simp
  with Cons.prems have "seq_sorted (splice_flat (splice_step e st) @ es)"
    by (rule seq_sorted_subseq [rotated]) 
  from Cons.IH [OF this] * show ?case by (simp add: subseq_order.trans)
qed simp

subsection \<open>What the splice keeps\<close>

definition unmarked :: "session_event \<Rightarrow> bool" where
  "unmarked e \<longleftrightarrow> \<not> is_rewound e \<and> \<not> is_cleared e"

lemma splice_all_keeps:
  assumes "\<And>e st. P st \<Longrightarrow> P (splice_step e st)" and "P st"
  shows "P (splice_all es st)"
  using assms(2) by (induction es arbitrary: st) (simp_all add: assms(1))

definition hidden_below :: "splice \<Rightarrow> bool" where
  "hidden_below st \<longleftrightarrow>
     (case snd st of None \<Rightarrow> True | Some h \<Rightarrow> \<forall>x\<in>set (fst st). ev_seq x < ht_at h)"

lemma splice_step_hidden_below: "hidden_below st \<Longrightarrow> hidden_below (splice_step e st)"
  by (cases st) (auto simp: hidden_below_def splice_step_def hide_from_def split: option.splits)

definition free_of_rewinds :: "splice \<Rightarrow> bool" where
  "free_of_rewinds st \<longleftrightarrow> (\<forall>x\<in>set (splice_flat st). \<not> is_rewound x)"

lemma splice_step_free: "free_of_rewinds st \<Longrightarrow> free_of_rewinds (splice_step e st)"
  by (cases st) (auto simp: free_of_rewinds_def splice_step_def hide_from_def split: option.splits)

lemma effective_hidden_below: "hidden_below (splice_all es ([], None))"
  by (rule splice_all_keeps, erule splice_step_hidden_below, simp add: hidden_below_def)

lemma effective_free: "free_of_rewinds (splice_all es ([], None))"
  by (rule splice_all_keeps, erule splice_step_free, simp add: free_of_rewinds_def)

lemma effectiveHistory_splice:
  "eh_events (effectiveHistory es) = fst (splice_all es ([], None))"
  "eh_hidden (effectiveHistory es) =
     (case snd (splice_all es ([], None)) of None \<Rightarrow> [] | Some h \<Rightarrow> ht_events h)"
  "eh_rewind (effectiveHistory es) =
     (case snd (splice_all es ([], None)) of None \<Rightarrow> None | Some h \<Rightarrow> Some (ht_marker h, ht_at h))"
  by (simp_all add: effectiveHistory_def split_beta)

lemma effective_flat:
  "eh_events (effectiveHistory es) @ eh_hidden (effectiveHistory es) = splice_flat (splice_all es ([], None))"
  by (simp add: effectiveHistory_splice splice_flat_def)

lemma splice_unmarked_open:
  "\<forall>e\<in>set es. \<not> is_rewound e \<Longrightarrow> splice_all es (vis, None) = (vis @ es, None)"
  by (induction es arbitrary: vis) (simp_all add: splice_step_def)

lemma splice_unmarked_hidden:
  "\<forall>e\<in>set es. unmarked e \<Longrightarrow>
   splice_all es (vis, Some h) = (vis, Some (h\<lparr>ht_events := ht_events h @ es\<rparr>))"
  by (induction es arbitrary: h) (simp_all add: splice_step_def unmarked_def)

lemma splice_rewind:
  "is_rewound r \<Longrightarrow> positive_seq (ev_field r ''atSeq'') = Some k \<Longrightarrow>
   splice_step r (vis, hid) = hide_from k r vis"
  by (simp add: splice_step_def)

lemma rewound_not_cleared: "is_rewound e \<Longrightarrow> \<not> is_cleared e"
  by (simp add: is_rewound_def is_cleared_def)

lemma splice_clear:
  "is_cleared c \<Longrightarrow> marker_matches c h \<Longrightarrow>
   splice_step c (vis, Some h) =
     (if ev_field c ''replaced'' = Some (JBool True) then vis else vis @ ht_events h, None)"
  using rewound_not_cleared [of c] by (auto simp: splice_step_def)

text \<open>A rewind, late output of the old turn, and the clear that resolves the rewind.\<close>

lemma splice_resolved_rewind:
  assumes "splice_all es ([], None) = (vis, None)"
    and "is_rewound r" "positive_seq (ev_field r ''atSeq'') = Some k"
    and "\<forall>e\<in>set late. unmarked e"
    and "is_cleared c" "ev_field c ''rewindSeq'' = None \<or> js_number (ev_field c ''rewindSeq'') = Some (ev_seq r)"
  shows "splice_all (es @ r # late @ [c]) ([], None) =
    (if ev_field c ''replaced'' = Some (JBool True) then filter (\<lambda>x. ev_seq x < k) vis
     else filter (\<lambda>x. ev_seq x < k) vis @ filter (\<lambda>x. k \<le> ev_seq x) vis @ late, None)"
proof -
  let ?h = "\<lparr>ht_marker = ev_seq r, ht_at = k, ht_events = filter (\<lambda>x. k \<le> ev_seq x) vis @ late\<rparr>"
  have "marker_matches c ?h" using assms(6) by (simp add: marker_matches_def)
  with assms(1-5) show ?thesis
    by (simp add: splice_rewind hide_from_def splice_unmarked_hidden splice_clear)
qed

subsection \<open>The rewind selectors agree\<close>

definition clear_well_formed :: "session_event \<Rightarrow> bool" where
  "clear_well_formed e \<longleftrightarrow>
     (is_cleared e \<longrightarrow> ev_field e ''rewindSeq'' = None \<or> safe_integer (js_number (ev_field e ''rewindSeq'')))"

definition hidden_view :: "hidden_tail option \<Rightarrow> (int \<times> int) option" where
  "hidden_view h = map_option (\<lambda>h. (ht_marker h, ht_at h)) h"

definition active_view :: "active_rewind option \<Rightarrow> (int \<times> int) option" where
  "active_view a = map_option (\<lambda>a. (ar_marker a, ar_at a)) a"

lemma safe_integer_None [simp]: "\<not> safe_integer None"
  by (simp add: safe_integer_def)

lemma views_step:
  assumes "hidden_view (snd st) = active_view act" "clear_well_formed e"
  shows "hidden_view (snd (splice_step e st)) = active_view (active_step e act)"
proof (cases st)
  case (Pair vis hid)
  consider "is_rewound e" | "is_cleared e" "\<not> is_rewound e" | "\<not> is_cleared e" "\<not> is_rewound e"
    by blast
  then show ?thesis
  proof cases
    case 2
    with Pair assms show ?thesis
      by (cases hid; cases act)
        (auto simp: splice_step_def active_step_def hidden_view_def active_view_def marker_matches_def
            clear_well_formed_def)
  qed (use Pair assms in \<open>cases hid; cases act;
      auto simp: splice_step_def active_step_def hide_from_def hidden_view_def active_view_def
        split: option.splits\<close>)+
qed

lemma views_all:
  "hidden_view (snd st) = active_view act \<Longrightarrow> \<forall>e\<in>set es. clear_well_formed e \<Longrightarrow>
   hidden_view (snd (splice_all es st)) = active_view (fold active_step es act)"
  by (induction es arbitrary: st act) (simp_all add: views_step)

lemma eh_rewind_view: "eh_rewind (effectiveHistory es) = hidden_view (snd (splice_all es ([], None)))"
  by (simp add: effectiveHistory_splice hidden_view_def split: option.split)

subsection \<open>Properties of the log selectors\<close>

text \<open>
  C0: \<open>effectiveHistory\<close> never reorders, repeats or invents an event: the visible events
  followed by the hidden tail are a subsequence of the log, none of them is a rewind
  marker, and while a rewind is active every visible event lies before the rewind point.
\<close>

theorem effective_history_subsequence:
  assumes "seq_sorted es"
  shows "subseq (eh_events (effectiveHistory es) @ eh_hidden (effectiveHistory es)) es
    \<and> (\<forall>e\<in>set (eh_events (effectiveHistory es) @ eh_hidden (effectiveHistory es)). ev_type e \<noteq> ''session/rewound'')
    \<and> (case eh_rewind (effectiveHistory es) of
         None \<Rightarrow> eh_hidden (effectiveHistory es) = []
       | Some (marker, at_seq) \<Rightarrow> \<forall>e\<in>set (eh_events (effectiveHistory es)). ev_seq e < at_seq)"
proof (intro conjI)
  show "subseq (eh_events (effectiveHistory es) @ eh_hidden (effectiveHistory es)) es"
    using splice_all_subseq [of "([], None)" es] assms by (simp add: effective_flat)
  show "\<forall>e\<in>set (eh_events (effectiveHistory es) @ eh_hidden (effectiveHistory es)). ev_type e \<noteq> ''session/rewound''"
    using effective_free [of es] by (simp add: effective_flat free_of_rewinds_def is_rewound_def)
  show "case eh_rewind (effectiveHistory es) of
         None \<Rightarrow> eh_hidden (effectiveHistory es) = []
       | Some (marker, at_seq) \<Rightarrow> \<forall>e\<in>set (eh_events (effectiveHistory es)). ev_seq e < at_seq"
    using effective_hidden_below [of es]
    by (auto simp: effectiveHistory_splice hidden_below_def split: option.splits)
qed

text \<open>
  A rewind that is resolved again. Redo brings back exactly the history that would
  have been without the rewind, output that the old turn produced meanwhile included; a
  replacement drops that tail for good and what follows continues the visible prefix.
\<close>

theorem rewind_resolved:
  assumes "seq_sorted es" and "eh_rewind (effectiveHistory es) = None"
    and "ev_type r = ''session/rewound''" and "positive_seq (ev_field r ''atSeq'') = Some k"
    and "\<forall>e\<in>set late. unmarked e" and "\<forall>e\<in>set next_events. \<not> is_rewound e"
    and "ev_type c = ''session/rewind-cleared''" and "ev_field c ''rewindSeq'' = Some (JNum (ev_seq r))"
  shows "eh_events (effectiveHistory (es @ r # late @ c # next_events)) =
      (if ev_field c ''replaced'' = Some (JBool True)
       then filter (\<lambda>e. ev_seq e < k) (eh_events (effectiveHistory es)) @ next_events
       else eh_events (effectiveHistory (es @ late @ next_events)))
    \<and> eh_rewind (effectiveHistory (es @ r # late @ c # next_events)) = None"
proof -
  obtain vis where vis: "splice_all es ([], None) = (vis, None)"
    using assms(2) by (cases "splice_all es ([], None)") (auto simp: effectiveHistory_splice split: option.splits)
  have "subseq vis es" using splice_all_subseq [of "([], None)" es] assms(1) vis by simp
  then have sorted: "seq_sorted vis" using assms(1) by (rule seq_sorted_subseq)
  have "splice_all (es @ r # late @ [c]) ([], None) =
    (if ev_field c ''replaced'' = Some (JBool True) then filter (\<lambda>x. ev_seq x < k) vis
     else filter (\<lambda>x. ev_seq x < k) vis @ filter (\<lambda>x. k \<le> ev_seq x) vis @ late, None)"
    by (rule splice_resolved_rewind [OF vis]) (use assms in \<open>simp_all add: is_rewound_def is_cleared_def\<close>)
  then have "splice_all (es @ r # late @ c # next_events) ([], None) =
    ((if ev_field c ''replaced'' = Some (JBool True) then filter (\<lambda>x. ev_seq x < k) vis
     else vis @ late) @ next_events, None)"
    using filter_parts [OF sorted, of k] assms(6)
    by (simp add: splice_unmarked_open flip: append_assoc)
  moreover have "splice_all (es @ late @ next_events) ([], None) = (vis @ late @ next_events, None)"
    using vis assms(5,6) by (simp add: splice_unmarked_open unmarked_def)
  ultimately show ?thesis by (simp add: effectiveHistory_splice vis)
qed

text \<open>
  C13: C0: \<open>activeRewind\<close> and \<open>effectiveHistory\<close> name the same unresolved rewind, in every log
  whose clear markers carry no \<open>rewindSeq\<close> or a safe integer.
\<close>

theorem rewind_selectors_agree:
  assumes "\<forall>e\<in>set es. clear_well_formed e"
  shows "map_option (\<lambda>a. (ar_marker a, ar_at a)) (activeRewind es) = eh_rewind (effectiveHistory es)"
  using views_all [of "([], None)" None es] assms
  by (simp add: eh_rewind_view activeRewind_def active_view_def hidden_view_def)

subsection \<open>Witnesses\<close>

definition demo_event :: "int \<Rightarrow> string \<Rightarrow> (string \<times> json) list \<Rightarrow> session_event" where
  "demo_event n ty kvs = \<lparr>ev_session = ''s'', ev_seq = n, ev_time = 0, ev_type = ty,
     ev_data = JObj kvs, ev_opts = plain_opts\<rparr>"

lemma demo_event_simps [simp]:
  "ev_seq (demo_event n ty kvs) = n"
  "ev_type (demo_event n ty kvs) = ty"
  "ev_field (demo_event n ty kvs) k = map_of kvs k"
  by (simp_all add: demo_event_def ev_field_def)

definition demo_log :: "session_event list" where
  "demo_log = [demo_event 1 ''user/message'' [(''text'', JStr ''one'')],
               demo_event 2 ''assistant/message'' [(''text'', JStr ''two'')],
               demo_event 3 ''user/message'' [(''text'', JStr ''three'')]]"

definition demo_rewind :: session_event where
  "demo_rewind = demo_event 4 ''session/rewound'' [(''atSeq'', JNum 3)]"

definition demo_clear :: "json \<Rightarrow> bool \<Rightarrow> session_event" where
  "demo_clear n replaced =
     demo_event 5 ''session/rewind-cleared'' [(''rewindSeq'', n), (''replaced'', JBool replaced)]"

lemma demo_log_sorted: "seq_sorted (demo_log @ [demo_rewind])"
  by (simp add: demo_log_def demo_rewind_def)

lemma effective_history_subsequence_witness:
  "subseq (eh_events (effectiveHistory (demo_log @ [demo_rewind])) @ eh_hidden (effectiveHistory (demo_log @ [demo_rewind])))
     (demo_log @ [demo_rewind])"
  using effective_history_subsequence [OF demo_log_sorted] by blast

lemma demo_log_open: "splice_all demo_log ([], None) = (demo_log, None)"
  by (rule trans [OF splice_unmarked_open]) (simp_all add: demo_log_def is_rewound_def)

lemma rewind_resolved_witness:
  "eh_events (effectiveHistory (demo_log @ demo_rewind # [] @ demo_clear (JNum 4) True # [])) = take 2 demo_log"
proof -
  have "eh_events (effectiveHistory (demo_log @ demo_rewind # [] @ demo_clear (JNum 4) True # [])) =
      filter (\<lambda>e. ev_seq e < 3) (eh_events (effectiveHistory demo_log)) @ []"
    using rewind_resolved [of demo_log demo_rewind 3 "[]" "[]" "demo_clear (JNum 4) True"] demo_log_sorted
    by (simp add: demo_log_open effectiveHistory_splice demo_rewind_def demo_clear_def positive_seq_def
        safe_integer_def)
  then show ?thesis
    by (simp add: demo_log_open effectiveHistory_splice) (simp add: demo_log_def eval_nat_numeral)
qed

lemma rewind_selectors_agree_witness:
  "eh_rewind (effectiveHistory (demo_log @ [demo_rewind])) = Some (4, 3)"
proof -
  have "\<forall>e\<in>set (demo_log @ [demo_rewind]). clear_well_formed e"
    by (simp add: demo_log_def demo_rewind_def clear_well_formed_def is_cleared_def)
  from rewind_selectors_agree [OF this] show ?thesis
    by (simp add: activeRewind_def active_step_def demo_log_def demo_rewind_def is_rewound_def
        positive_seq_def safe_integer_def)
qed

text \<open>Without that condition they do not: a clear with another \<open>rewindSeq\<close> text ends only one of them.\<close>

lemma malformed_clear_disagrees:
  "activeRewind (demo_log @ [demo_rewind, demo_clear (JStr ''x'') False]) = None"
  "eh_rewind (effectiveHistory (demo_log @ [demo_rewind, demo_clear (JStr ''x'') False])) = Some (4, 3)"
proof -
  have num: "number_of_text ''x'' = None"
    by (simp add: number_of_text_def trim_def is_space_char_def)
  show "activeRewind (demo_log @ [demo_rewind, demo_clear (JStr ''x'') False]) = None"
    by (simp add: activeRewind_def active_step_def demo_log_def demo_rewind_def demo_clear_def is_rewound_def
        is_cleared_def positive_seq_def safe_integer_def num)
  show "eh_rewind (effectiveHistory (demo_log @ [demo_rewind, demo_clear (JStr ''x'') False])) = Some (4, 3)"
    by (simp add: effectiveHistory_splice demo_log_open splice_step_def hide_from_def marker_matches_def demo_rewind_def demo_clear_def is_rewound_def
        is_cleared_def positive_seq_def safe_integer_def num)
qed

end
