(* ===== verification/SessionStore.thy ===== *)
theory SessionStore
  imports SessionLog
begin

text \<open>
  The durable store of the session engine (packages/session/src/index.ts): the rows of its
  tables and the operations on them, each one a database transaction. An operation that
  throws gives \<open>Inl\<close> and leaves the store as it was; random ids and the clock are
  arguments. Tables are lists of rows in insertion order; \<open>SELECT \<dots> ORDER BY\<close> sorts.
\<close>

datatype store_error =
    SeInvalidInput | SeNotFound | SeConflict | SeUnavailable | SeInvalidTransition
  | SeClientConflict | SeCorruptOperation | SeTombstoned | SeSpecializedSettlement
  | SeIntegrity | SeBindingMismatch | SeResetUnconfirmed | SeProofMismatch | SeQueueReserved
  | SeStaleEvidence | SeUncertainObservation | SePayloadTooLarge
  | SeConstraint \<comment> \<open>a primary key or a unique index aborts the statement\<close>

datatype mutation_kind =
    SessionCreate | SessionReset | SessionFork | SessionRevert | TurnSubmit | TurnSteer | TurnAbort
  | SessionCompact | SessionDelete | PermissionReply | QuestionReply | QuestionReject | SecretReply

datatype op_state = OpPrepared | OpExecuting | OpConfirmed | OpRejected | OpUnknown | OpNotApplied | OpFenced

datatype replay_policy = ReplayNever | ReplaySameId string

record operation_row =
  ro_id :: string
  ro_session :: string
  ro_ordinal :: int
  ro_kind :: mutation_kind
  ro_state :: op_state
  ro_replay :: replay_policy
  ro_created :: int
  ro_updated :: int
  ro_code :: "string option"
  ro_message :: "string option"
  ro_receipt :: "string option"
  ro_owner :: "int option" \<comment> \<open>\<open>owner_event_seq\<close>\<close>

datatype delivery_mode = DeliverNormal | DeliverSteer | DeliverQueue | DeliverInterrupt

record queue_row =
  sq_id :: string
  sq_session :: string
  sq_position :: int
  sq_text :: string
  sq_delivery :: delivery_mode
  sq_created :: int
  sq_attachments :: "json option"
  sq_command :: "json option"
  sq_hidden :: bool
  sq_memory :: "json option"
  sq_reservation :: "string option"
  sq_held :: bool
  sq_author :: "json option"

datatype request_kind = RkPermission | RkQuestion | RkSecret

record intent_row =
  ri_session :: string
  ri_kind :: request_kind
  ri_request :: string
  ri_operation :: string
  ri_payload :: json
  ri_created :: int

datatype attention_kind = AttPermission | AttQuestion

record runtime_location =
  rl_directory :: string
  rl_workspace :: "string option"

record runtime_binding =
  rb_backend :: string
  rb_authority :: string
  rb_generation :: int
  rb_epoch :: "int option"
  rb_verified :: bool \<comment> \<open>continuity \<open>verified\<close>, otherwise \<open>generation-only\<close>\<close>
  rb_v2 :: bool \<comment> \<open>protocol \<open>v2\<close>, otherwise \<open>legacy\<close>\<close>
  rb_location :: runtime_location

record runtime_leg =
  lg_id :: string
  lg_harness :: string
  lg_native :: string
  lg_started :: int
  lg_through :: int
  lg_intent :: "string option"
  lg_bootstrap :: string

text \<open>The fields of a projection that the store reads or writes; the others are \<open>pj_rest\<close>.\<close>

record projection =
  pj_id :: string
  pj_backend :: "string option"
  pj_binding :: "runtime_binding option"
  pj_status :: string
  pj_updated :: int
  pj_harness :: "json option"
  pj_resolved :: "string option"
  pj_leg :: "runtime_leg option"
  pj_transition :: "string option" \<comment> \<open>the id of \<open>harnessTransition\<close>\<close>
  pj_model :: "json option"
  pj_agent :: "string option"
  pj_profile :: "string option"
  pj_window :: "json option"
  pj_rest :: json

record deletion_binding =
  db_session :: string
  db_authority :: string
  db_generation :: int
  db_location :: runtime_location
  db_backend :: string

datatype retirement = RetireConfirmed | RetirePurged string

record tombstone_row =
  tb_binding :: deletion_binding
  tb_operation :: string
  tb_created :: int
  tb_retired :: "(int \<times> retirement) option"

datatype reconcile_state = Reconciling | ReconcileReady | ReconcileBlocked | ReconcileUnknown

record reconciliation_row =
  rc_session :: string
  rc_ordinal :: int
  rc_state :: reconcile_state
  rc_reason :: "string option"
  rc_updated :: int

text \<open>
  What was observed of a runtime: the semantic key of an entity (the columns of
  \<open>entityKeyArgs\<close>), the observed revisions with the events they became, the last
  checkpoint of an entity and the cursor of a channel.
\<close>

datatype artifact_kind = ArtMessage | ArtPart | ArtTool | ArtPermission | ArtQuestion | ArtStatus | ArtTurn

record entity_key =
  ek_authority :: string
  ek_directory :: string
  ek_workspace :: string
  ek_backend :: string
  ek_kind :: artifact_kind
  ek_entity :: string

record observation_row =
  ob_key :: entity_key
  ob_revision :: string
  ob_session :: string
  ob_generation :: int
  ob_ordinal :: int
  ob_seqs :: "int list"
  ob_at :: int

record checkpoint_row =
  ck_key :: entity_key
  ck_revision :: string
  ck_rank :: "int option"
  ck_value :: json
  ck_updated :: int

record cursor_key =
  cu_authority :: string
  cu_directory :: string
  cu_workspace :: string
  cu_backend :: string
  cu_channel :: string

record cursor_row =
  cw_key :: cursor_key
  cw_after :: string
  cw_updated :: int

text \<open>What one person sees of a session: read position, draft, pin (\<open>-1\<close>: unpinned), mentions, mute.\<close>

record person_row =
  pe_session :: string
  pe_user :: string
  pe_read :: "int option"
  pe_draft :: "string option"
  pe_draft_updated :: "int option"
  pe_pin :: "int option"
  pe_mention :: "int option"
  pe_muted :: "bool option"

record session_store =
  ss_closed :: bool
  ss_events :: "session_event list"
  ss_ops :: "operation_row list"
  ss_queue :: "queue_row list"
  ss_intents :: "intent_row list"
  ss_open :: "(string \<times> attention_kind \<times> string) list" \<comment> \<open>\<open>attention_open\<close>\<close>
  ss_projections :: "projection list"
  ss_tombs :: "tombstone_row list"
  ss_recs :: "reconciliation_row list"
  ss_observed :: "observation_row list"
  ss_checks :: "checkpoint_row list"
  ss_cursors :: "cursor_row list"
  ss_read :: "(string \<times> int) list" \<comment> \<open>\<open>session_read\<close>\<close>
  ss_people :: "person_row list" \<comment> \<open>\<open>session_person_state\<close>\<close>

type_synonym 'a store_result = "store_error + 'a \<times> session_store"

definition new_store :: session_store where
  "new_store = \<lparr>ss_closed = False, ss_events = [], ss_ops = [], ss_queue = [], ss_intents = [],
     ss_open = [], ss_projections = [], ss_tombs = [], ss_recs = [],
     ss_observed = [], ss_checks = [], ss_cursors = [], ss_read = [], ss_people = []\<rparr>"

text \<open>\<open>transaction\<close>: a closed store refuses; an exception rolls everything back.\<close>

definition store_transaction :: "(session_store \<Rightarrow> 'a store_result) \<Rightarrow> session_store \<Rightarrow> 'a store_result" where
  "store_transaction run s = (if ss_closed s then Inl SeUnavailable else run s)"

text \<open>\<open>SELECT MAX(x)\<close>: \<open>NULL\<close> of no rows.\<close>

definition sql_max :: "int list \<Rightarrow> int option" where
  "sql_max xs = (case xs of [] \<Rightarrow> None | x # ys \<Rightarrow> Some (fold max ys x))"

definition sql_min :: "int list \<Rightarrow> int option" where
  "sql_min xs = (case xs of [] \<Rightarrow> None | x # ys \<Rightarrow> Some (fold min ys x))"

subsection \<open>The log and the open requests\<close>

definition session_events :: "session_store \<Rightarrow> string \<Rightarrow> session_event list" where
  "session_events s sid = filter (\<lambda>e. ev_session e = sid) (ss_events s)"

text \<open>\<open>ATTENTION_OPS\<close>: the kind of request an event opens (\<open>True\<close>) or closes.\<close>

definition attention_op :: "string \<Rightarrow> (attention_kind \<times> bool) option" where
  "attention_op ty =
     map_of [(''permission/requested'', (AttPermission, True)),
             (''permission/resolved'', (AttPermission, False)),
             (''permission/expired'', (AttPermission, False)),
             (''question/asked'', (AttQuestion, True)),
             (''question/answered'', (AttQuestion, False)),
             (''question/expired'', (AttQuestion, False)),
             (''secret/requested'', (AttQuestion, True)),
             (''secret/resolved'', (AttQuestion, False)),
             (''secret/expired'', (AttQuestion, False))] ty"

definition applyAttention ::
  "string \<Rightarrow> string \<Rightarrow> json \<Rightarrow> (string \<times> attention_kind \<times> string) list \<Rightarrow> (string \<times> attention_kind \<times> string) list" where
  "applyAttention sid ty data rows =
     (case attention_op ty of
        None \<Rightarrow> rows
      | Some (kind, opens) \<Rightarrow>
          (case json_str (json_field data ''requestId'') of
             None \<Rightarrow> rows
           | Some req \<Rightarrow>
               if req = [] then rows
               else if opens then (if (sid, kind, req) \<in> set rows then rows else rows @ [(sid, kind, req)])
               else filter (\<lambda>r. r \<noteq> (sid, kind, req)) rows))"

definition appendInTransaction ::
  "int \<Rightarrow> string \<Rightarrow> string \<Rightarrow> json \<Rightarrow> event_opts \<Rightarrow> session_store \<Rightarrow> session_event \<times> session_store" where
  "appendInTransaction now sid ty data opts s =
     (let e = \<lparr>ev_session = sid,
               ev_seq = nullish (sql_max (map ev_seq (session_events s sid))) 0 + 1,
               ev_time = now, ev_type = ty, ev_data = data, ev_opts = opts\<rparr>
      in (e, s\<lparr>ss_events := ss_events s @ [e],
              ss_open := applyAttention sid ty data (ss_open s)\<rparr>))"

definition append_event :: "int \<Rightarrow> string \<Rightarrow> string \<Rightarrow> json \<Rightarrow> event_opts \<Rightarrow> session_store \<Rightarrow> session_event store_result" where
  "append_event now sid ty data opts = store_transaction (\<lambda>s. Inr (appendInTransaction now sid ty data opts s))"

record event_input =
  in_type :: string
  in_data :: json
  in_opts :: event_opts

definition appendInputInTransaction :: "int \<Rightarrow> string \<Rightarrow> event_input \<Rightarrow> session_store \<Rightarrow> session_event \<times> session_store" where
  "appendInputInTransaction now sid i = appendInTransaction now sid (in_type i) (in_data i) (in_opts i)"

subsection \<open>Durable operations\<close>

definition then_do :: "'a store_result \<Rightarrow> ('a \<Rightarrow> session_store \<Rightarrow> 'b store_result) \<Rightarrow> 'b store_result" where
  "then_do r f = (case r of Inl e \<Rightarrow> Inl e | Inr (x, s) \<Rightarrow> f x s)"

definition operationRow :: "session_store \<Rightarrow> string \<Rightarrow> operation_row option" where
  "operationRow s oid = find (\<lambda>r. ro_id r = oid) (ss_ops s)"

text \<open>\<open>UPDATE runtime_operations SET \<dots> WHERE operation_id = ?\<close>\<close>

definition update_op :: "string \<Rightarrow> (operation_row \<Rightarrow> operation_row) \<Rightarrow> session_store \<Rightarrow> session_store" where
  "update_op oid f s = s\<lparr>ss_ops := map (\<lambda>r. if ro_id r = oid then f r else r) (ss_ops s)\<rparr>"

definition session_ops :: "session_store \<Rightarrow> string \<Rightarrow> operation_row list" where
  "session_ops s sid = filter (\<lambda>r. ro_session r = sid) (ss_ops s)"

definition operations_of :: "session_store \<Rightarrow> string \<Rightarrow> operation_row list" where
  "operations_of s sid = sort_key ro_ordinal (session_ops s sid)"

fun assertReplayPolicy :: "replay_policy \<Rightarrow> bool" where
  "assertReplayPolicy ReplayNever = True"
| "assertReplayPolicy (ReplaySameId contract) = (trim contract \<noteq> [])"

definition insertPreparedOperation ::
  "int \<Rightarrow> string \<Rightarrow> mutation_kind \<Rightarrow> replay_policy \<Rightarrow> string \<Rightarrow> session_store \<Rightarrow> operation_row store_result" where
  "insertPreparedOperation now sid kind replay oid s =
     (if \<not> assertReplayPolicy replay then Inl SeInvalidInput
      else if operationRow s oid \<noteq> None then Inl SeConstraint
      else let r = \<lparr>ro_id = oid, ro_session = sid,
                    ro_ordinal = nullish (sql_max (map ro_ordinal (session_ops s sid))) 0 + 1,
                    ro_kind = kind, ro_state = OpPrepared, ro_replay = replay,
                    ro_created = now, ro_updated = now,
                    ro_code = None, ro_message = None, ro_receipt = None, ro_owner = None\<rparr>
           in Inr (r, s\<lparr>ss_ops := ss_ops s @ [r]\<rparr>))"

fun kind_text :: "mutation_kind \<Rightarrow> string" where
  "kind_text SessionCreate = ''session-create''"
| "kind_text SessionReset = ''session-reset''"
| "kind_text SessionFork = ''session-fork''"
| "kind_text SessionRevert = ''session-revert''"
| "kind_text TurnSubmit = ''turn-submit''"
| "kind_text TurnSteer = ''turn-steer''"
| "kind_text TurnAbort = ''turn-abort''"
| "kind_text SessionCompact = ''session-compact''"
| "kind_text SessionDelete = ''session-delete''"
| "kind_text PermissionReply = ''permission-reply''"
| "kind_text QuestionReply = ''question-reply''"
| "kind_text QuestionReject = ''question-reject''"
| "kind_text SecretReply = ''secret-reply''"

text \<open>An entry that a spread such as \<open>...(x ? {k: x} : {})\<close> adds.\<close>

definition text_entry :: "string \<Rightarrow> string option \<Rightarrow> (string \<times> json) list" where
  "text_entry k x = (if truthy x then [(k, JStr (the x))] else [])"

record state_extra =
  se_code :: "string option"
  se_message :: "string option"
  se_fingerprint :: "string option"

definition no_extra :: state_extra where
  "no_extra = \<lparr>se_code = None, se_message = None, se_fingerprint = None\<rparr>"

definition mutationStateData :: "operation_row \<Rightarrow> state_extra \<Rightarrow> json" where
  "mutationStateData r x =
     JObj ([(''operationId'', JStr (ro_id r)), (''ordinal'', JNum (ro_ordinal r)),
            (''mutationKind'', JStr (kind_text (ro_kind r)))]
           @ text_entry ''code'' (se_code x) @ text_entry ''message'' (se_message x)
           @ text_entry ''clientRequestFingerprint'' (se_fingerprint x))"

definition tombstoned :: "session_store \<Rightarrow> string \<Rightarrow> bool" where
  "tombstoned s sid \<longleftrightarrow> (\<exists>t\<in>set (ss_tombs s). db_session (tb_binding t) = sid \<and> tb_retired t = None)"

definition appendMutationState ::
  "int \<Rightarrow> operation_row \<Rightarrow> string \<Rightarrow> state_extra \<Rightarrow> session_store \<Rightarrow> session_event option \<times> session_store" where
  "appendMutationState now r ty x s =
     (if tombstoned s (ro_session r) then (None, s)
      else let (e, s') = appendInTransaction now (ro_session r) ty (mutationStateData r x) ignorable_opts s
           in (Some e, s'))"

record prepare_input =
  pi_session :: string
  pi_kind :: mutation_kind
  pi_event :: event_input
  pi_replay :: "replay_policy option"
  pi_client :: "string option" \<comment> \<open>\<open>clientOperationId\<close>\<close>
  pi_fingerprint :: "string option"

definition event_at :: "session_store \<Rightarrow> string \<Rightarrow> int \<Rightarrow> session_event option" where
  "event_at s sid n = find (\<lambda>e. ev_seq e = n) (session_events s sid)"

definition owner_event :: "session_store \<Rightarrow> operation_row \<Rightarrow> session_event option" where
  "owner_event s r = (case ro_owner r of None \<Rightarrow> None | Some n \<Rightarrow> event_at s (ro_session r) n)"

definition same_intent :: "session_event \<Rightarrow> event_input \<Rightarrow> bool" where
  "same_intent e i \<longleftrightarrow> ev_type e = in_type i \<and> eo_ignorable (ev_opts e) = eo_ignorable (in_opts i)
                       \<and> ev_data e = in_data i"

definition prepared_event :: "session_store \<Rightarrow> operation_row \<Rightarrow> session_event option" where
  "prepared_event s r =
     find (\<lambda>e. ev_type e = ''mutation/prepared'' \<and> ev_field e ''operationId'' = Some (JStr (ro_id r)))
       (sort_key ev_seq (session_events s (ro_session r)))"

text \<open>A prepared operation, its intent event and its preparation event.\<close>

type_synonym prepared = "operation_row \<times> session_event \<times> session_event"

definition replay_prepared :: "prepare_input \<Rightarrow> operation_row \<Rightarrow> session_store \<Rightarrow> prepared store_result" where
  "replay_prepared i r s =
     (case owner_event s r of
        None \<Rightarrow> Inl SeClientConflict
      | Some owner \<Rightarrow>
          if ro_session r \<noteq> pi_session i \<or> ro_kind r \<noteq> pi_kind i \<or> \<not> same_intent owner (pi_event i)
          then Inl SeClientConflict
          else (case prepared_event s r of
                  None \<Rightarrow> Inl SeCorruptOperation
                | Some p \<Rightarrow>
                    if truthy (pi_fingerprint i)
                       \<and> ev_field p ''clientRequestFingerprint'' \<noteq> Some (JStr (the (pi_fingerprint i)))
                    then Inl SeClientConflict
                    else Inr ((r, owner, p), s)))"

definition set_owner :: "string \<Rightarrow> int \<Rightarrow> session_store \<Rightarrow> session_store" where
  "set_owner oid n = update_op oid (\<lambda>r. r\<lparr>ro_owner := Some n\<rparr>)"

text \<open>What follows an insertion: the intent event, its ownership, the preparation event.\<close>

definition record_intent ::
  "int \<Rightarrow> operation_row \<Rightarrow> event_input \<Rightarrow> state_extra \<Rightarrow> session_store \<Rightarrow> prepared store_result" where
  "record_intent now r i x s =
     (let (intent, s1) = appendInputInTransaction now (ro_session r) i s;
          s2 = set_owner (ro_id r) (ev_seq intent) s1;
          r' = r\<lparr>ro_owner := Some (ev_seq intent)\<rparr>;
          (st, s3) = appendMutationState now r' ''mutation/prepared'' x s2
      in case st of
           None \<Rightarrow> Inl SeTombstoned
         | Some e \<Rightarrow> Inr ((r', intent, e), s3))"

definition prepareOperation :: "int \<Rightarrow> string \<Rightarrow> prepare_input \<Rightarrow> session_store \<Rightarrow> prepared store_result" where
  "prepareOperation now uuid i =
     store_transaction (\<lambda>s.
       case (if truthy (pi_client i) then operationRow s (the (pi_client i)) else None) of
         Some r \<Rightarrow> replay_prepared i r s
       | None \<Rightarrow>
           then_do (insertPreparedOperation now (pi_session i) (pi_kind i) (nullish (pi_replay i) ReplayNever)
                      (nullish (pi_client i) uuid) s)
             (\<lambda>r s'. record_intent now r (pi_event i) (no_extra\<lparr>se_fingerprint := pi_fingerprint i\<rparr>) s'))"

definition upsertProjectionRow :: "projection \<Rightarrow> session_store \<Rightarrow> session_store" where
  "upsertProjectionRow p s =
     s\<lparr>ss_projections :=
         (if pj_id p \<in> set (map pj_id (ss_projections s))
          then map (\<lambda>q. if pj_id q = pj_id p then p else q) (ss_projections s)
          else ss_projections s @ [p])\<rparr>"

definition projection_of :: "session_store \<Rightarrow> string \<Rightarrow> projection option" where
  "projection_of s sid = find (\<lambda>p. pj_id p = sid) (ss_projections s)"

definition prepareSessionCreate ::
  "int \<Rightarrow> string \<Rightarrow> projection \<Rightarrow> event_input \<Rightarrow> replay_policy option \<Rightarrow> session_store \<Rightarrow> prepared store_result" where
  "prepareSessionCreate now uuid p created replay s0 =
     (if in_type created \<noteq> ''session/created'' then Inl SeInvalidInput
      else store_transaction (\<lambda>s.
        if projection_of s (pj_id p) \<noteq> None then Inl SeConflict
        else then_do (insertPreparedOperation now (pj_id p) SessionCreate (nullish replay ReplayNever) uuid s)
               (\<lambda>r s'. record_intent now r created no_extra (upsertProjectionRow p s'))) s0)"

datatype claim_result = Claimed operation_row "session_event option" | NotClaimed "operation_row option"

definition take_claim :: "int \<Rightarrow> operation_row \<Rightarrow> session_store \<Rightarrow> claim_result store_result" where
  "take_claim now r s =
     (let r' = r\<lparr>ro_state := OpExecuting, ro_updated := now\<rparr>;
          s1 = update_op (ro_id r) (\<lambda>x. x\<lparr>ro_state := OpExecuting, ro_updated := now\<rparr>) s;
          (e, s2) = appendMutationState now r' ''mutation/claimed'' no_extra s1
      in Inr (Claimed r' e, s2))"

definition claimOperation :: "int \<Rightarrow> string \<Rightarrow> session_store \<Rightarrow> claim_result store_result" where
  "claimOperation now oid =
     store_transaction (\<lambda>s.
       case operationRow s oid of
         Some r \<Rightarrow> if ro_state r = OpPrepared then take_claim now r s else Inr (NotClaimed (Some r), s)
       | None \<Rightarrow> Inr (NotClaimed None, s))"

definition replayUnknownOperation :: "int \<Rightarrow> string \<Rightarrow> string \<Rightarrow> session_store \<Rightarrow> claim_result store_result" where
  "replayUnknownOperation now oid contract =
     store_transaction (\<lambda>s.
       case operationRow s oid of
         Some r \<Rightarrow>
           if ro_state r = OpUnknown \<and> ro_replay r = ReplaySameId contract
           then take_claim now r s else Inr (NotClaimed (Some r), s)
       | None \<Rightarrow> Inr (NotClaimed None, s))"

datatype settlement =
    SetConfirmed "string option"
  | SetRejected string string
  | SetUnknown "string option" string
  | SetNotApplied "string option" string

fun settled_state :: "settlement \<Rightarrow> op_state" where
  "settled_state (SetConfirmed _) = OpConfirmed"
| "settled_state (SetRejected _ _) = OpRejected"
| "settled_state (SetUnknown _ _) = OpUnknown"
| "settled_state (SetNotApplied _ _) = OpNotApplied"

fun settlement_code :: "settlement \<Rightarrow> string option" where
  "settlement_code (SetConfirmed _) = None"
| "settlement_code (SetRejected c _) = Some c"
| "settlement_code (SetUnknown c _) = c"
| "settlement_code (SetNotApplied c _) = c"

fun settlement_message :: "settlement \<Rightarrow> string option" where
  "settlement_message (SetConfirmed _) = None"
| "settlement_message (SetRejected _ m) = Some m"
| "settlement_message (SetUnknown _ m) = Some m"
| "settlement_message (SetNotApplied _ m) = Some m"

fun settlement_receipt :: "settlement \<Rightarrow> string option" where
  "settlement_receipt (SetConfirmed r) = r"
| "settlement_receipt _ = None"

fun transition_allowed :: "op_state \<Rightarrow> settlement \<Rightarrow> bool" where
  "transition_allowed st (SetConfirmed _) = (st \<in> {OpExecuting, OpUnknown})"
| "transition_allowed st (SetRejected _ _) = (st \<in> {OpPrepared, OpExecuting})"
| "transition_allowed st (SetUnknown _ _) = (st = OpExecuting)"
| "transition_allowed st (SetNotApplied _ _) = (st = OpUnknown)"

fun settlement_event :: "settlement \<Rightarrow> string" where
  "settlement_event (SetConfirmed _) = ''mutation/confirmed''"
| "settlement_event (SetRejected _ _) = ''mutation/rejected''"
| "settlement_event (SetUnknown _ _) = ''mutation/uncertainty-recorded''"
| "settlement_event (SetNotApplied _ _) = ''mutation/nonapplication-confirmed''"

definition settle_row :: "int \<Rightarrow> settlement \<Rightarrow> operation_row \<Rightarrow> operation_row" where
  "settle_row now st r =
     r\<lparr>ro_state := settled_state st, ro_updated := now, ro_code := settlement_code st,
       ro_message := settlement_message st, ro_receipt := settlement_receipt st\<rparr>"

definition transitionOperation ::
  "int \<Rightarrow> string \<Rightarrow> settlement \<Rightarrow> session_store \<Rightarrow> operation_row store_result" where
  "transitionOperation now oid st s =
     (case operationRow s oid of
        None \<Rightarrow> Inl SeNotFound
      | Some r \<Rightarrow>
          if \<not> transition_allowed (ro_state r) st then Inl SeInvalidTransition
          else let s1 = update_op oid (settle_row now st) s;
                   x = no_extra\<lparr>se_code := settlement_code st, se_message := settlement_message st\<rparr>;
                   (e, s2) = appendMutationState now (settle_row now st r) (settlement_event st) x s1
               in Inr (settle_row now st r, s2))"

definition reserved_by :: "session_store \<Rightarrow> string \<Rightarrow> queue_row option" where
  "reserved_by s oid = find (\<lambda>q. sq_reservation q = Some oid) (ss_queue s)"

definition intent_by_operation :: "session_store \<Rightarrow> string \<Rightarrow> intent_row option" where
  "intent_by_operation s oid = find (\<lambda>i. ri_operation i = oid) (ss_intents s)"

definition settleOperation :: "int \<Rightarrow> string \<Rightarrow> settlement \<Rightarrow> session_store \<Rightarrow> operation_row store_result" where
  "settleOperation now oid st =
     store_transaction (\<lambda>s.
       if settled_state st \<noteq> OpUnknown \<and> (reserved_by s oid \<noteq> None \<or> intent_by_operation s oid \<noteq> None)
       then Inl SeSpecializedSettlement
       else transitionOperation now oid st s)"

end
