(* ===== verification/SessionQueue.thy ===== *)
theory SessionQueue
  imports SessionStore
begin

text \<open>
  The delivery queue of a session and the compare-and-set of request responses
  (packages/session/src/index.ts). A queued message leaves the queue through a
  reservation: its row names the durable operation that carries it, and only the
  settlement of that operation deletes the row or frees it again.
\<close>

subsection \<open>Rows and items\<close>

datatype person_via = ViaDelegation | ViaSchedule | ViaJudge

record session_person =
  sp_user :: string
  sp_name :: "string option"
  sp_via :: "person_via option"

definition person_via_of :: "json option \<Rightarrow> person_via option" where
  "person_via_of j =
     (if j = Some (JStr ''delegation'') then Some ViaDelegation
      else if j = Some (JStr ''schedule'') then Some ViaSchedule
      else if j = Some (JStr ''judge'') then Some ViaJudge else None)"

definition normalizeSessionPerson :: "json option \<Rightarrow> session_person option" where
  "normalizeSessionPerson j =
     (case j of
        None \<Rightarrow> None
      | Some row \<Rightarrow>
          (case json_str (json_field row ''userId'') of
             None \<Rightarrow> None
           | Some uid \<Rightarrow>
               if uid = [] \<or> 200 < length uid then None
               else let name = (case json_str (json_field row ''name'') of
                                  Some n \<Rightarrow> take 120 (trim n) | None \<Rightarrow> [])
                    in Some \<lparr>sp_user = uid, sp_name = (if name \<noteq> [] then Some name else None),
                             sp_via = person_via_of (json_field row ''via'')\<rparr>))"

fun via_text :: "person_via \<Rightarrow> string" where
  "via_text ViaDelegation = ''delegation''"
| "via_text ViaSchedule = ''schedule''"
| "via_text ViaJudge = ''judge''"

definition person_json :: "session_person \<Rightarrow> json" where
  "person_json p = JObj ((''userId'', JStr (sp_user p)) # opt_entry ''name'' JStr (sp_name p)
                         @ opt_entry ''via'' (JStr \<circ> via_text) (sp_via p))"

record queue_item =
  qi_id :: string
  qi_session :: string
  qi_position :: int
  qi_text :: string
  qi_delivery :: delivery_mode
  qi_created :: int
  qi_attachments :: "json list option"
  qi_command :: "(string \<times> string option) option"
  qi_hidden :: bool
  qi_memory :: "(bool option \<times> bool option) option" \<comment> \<open>\<open>read\<close> and \<open>remember\<close>; \<open>True\<close> is \<open>inherit\<close>\<close>
  qi_held :: bool
  qi_author :: "session_person option"

definition parseAttachments :: "json option \<Rightarrow> json list option" where
  "parseAttachments raw = (case raw of Some (JArr (x # xs)) \<Rightarrow> Some (x # xs) | _ \<Rightarrow> None)"

definition parseQueueCommand :: "json option \<Rightarrow> (string \<times> string option) option" where
  "parseQueueCommand raw =
     (case json_str (json_obj_field raw ''id'') of
        Some i \<Rightarrow> if i = [] then None else Some (i, json_str (json_obj_field raw ''args''))
      | None \<Rightarrow> None)"

definition narrowing_of :: "json option \<Rightarrow> bool option" where
  "narrowing_of j = (if j = Some (JStr ''inherit'') then Some True
                     else if j = Some (JStr ''off'') then Some False else None)"

definition parseMemoryNarrowing :: "json option \<Rightarrow> (bool option \<times> bool option) option" where
  "parseMemoryNarrowing raw =
     (let rd = narrowing_of (json_obj_field raw ''read'');
          rem = narrowing_of (json_obj_field raw ''remember'')
      in if rd \<noteq> None \<or> rem \<noteq> None then Some (rd, rem) else None)"

definition rowToQueueItem :: "queue_row \<Rightarrow> queue_item" where
  "rowToQueueItem q =
     \<lparr>qi_id = sq_id q, qi_session = sq_session q, qi_position = sq_position q, qi_text = sq_text q,
      qi_delivery = sq_delivery q, qi_created = sq_created q,
      qi_attachments = parseAttachments (sq_attachments q), qi_command = parseQueueCommand (sq_command q),
      qi_hidden = sq_hidden q, qi_memory = parseMemoryNarrowing (sq_memory q), qi_held = sq_held q,
      qi_author = normalizeSessionPerson (sq_author q)\<rparr>"

subsection \<open>Admission and editing\<close>

definition session_queue :: "session_store \<Rightarrow> string \<Rightarrow> queue_row list" where
  "session_queue s sid = filter (\<lambda>q. sq_session q = sid) (ss_queue s)"

definition queue_find :: "session_store \<Rightarrow> string \<Rightarrow> queue_row option" where
  "queue_find s qid = find (\<lambda>q. sq_id q = qid) (ss_queue s)"

definition queue_head :: "session_store \<Rightarrow> string \<Rightarrow> queue_row option" where
  "queue_head s sid = (case sort_key sq_position (session_queue s sid) of [] \<Rightarrow> None | q # qs \<Rightarrow> Some q)"

definition update_queue :: "(queue_row \<Rightarrow> bool) \<Rightarrow> (queue_row \<Rightarrow> queue_row) \<Rightarrow> session_store \<Rightarrow> session_store" where
  "update_queue P f s = s\<lparr>ss_queue := map (\<lambda>q. if P q then f q else q) (ss_queue s)\<rparr>"

definition delete_queue :: "(queue_row \<Rightarrow> bool) \<Rightarrow> session_store \<Rightarrow> session_store" where
  "delete_queue P s = s\<lparr>ss_queue := filter (\<lambda>q. \<not> P q) (ss_queue s)\<rparr>"

record enqueue_input =
  ei_session :: string
  ei_text :: string
  ei_delivery :: delivery_mode
  ei_attachments :: "json list"
  ei_client :: "string option"
  ei_command :: "(string \<times> string option) option"
  ei_hidden :: bool
  ei_memory :: "json option"
  ei_author :: "json option"

definition command_json :: "string \<times> string option \<Rightarrow> json" where
  "command_json c = JObj ((''id'', JStr (fst c)) # opt_entry ''args'' JStr (snd c))"

definition stored_attachments :: "json list \<Rightarrow> json option" where
  "stored_attachments xs = (if xs \<noteq> [] then Some (JArr xs) else None)"

definition same_admission :: "queue_row \<Rightarrow> enqueue_input \<Rightarrow> bool" where
  "same_admission q i \<longleftrightarrow>
     sq_session q = ei_session i \<and> sq_text q = ei_text i \<and> sq_delivery q = ei_delivery i
     \<and> sq_attachments q = stored_attachments (ei_attachments i)
     \<and> sq_command q = map_option command_json (ei_command i)
     \<and> sq_hidden q = ei_hidden i \<and> sq_memory q = ei_memory i"

text \<open>The result is the admitted row (the callers see its item) and whether it is new.\<close>

definition enqueue :: "int \<Rightarrow> string \<Rightarrow> enqueue_input \<Rightarrow> session_store \<Rightarrow> (queue_row \<times> bool) store_result" where
  "enqueue now uuid i =
     store_transaction (\<lambda>s.
       let qid = nullish (ei_client i) uuid in
       case (if truthy (ei_client i) then queue_find s qid else None) of
         Some q \<Rightarrow> if same_admission q i then Inr ((q, False), s) else Inl SeClientConflict
       | None \<Rightarrow>
           if queue_find s qid \<noteq> None then Inl SeConstraint
           else let q = \<lparr>sq_id = qid, sq_session = ei_session i,
                         sq_position = nullish (sql_max (map sq_position (session_queue s (ei_session i)))) (- 1) + 1,
                         sq_text = ei_text i, sq_delivery = ei_delivery i, sq_created = now,
                         sq_attachments = stored_attachments (ei_attachments i),
                         sq_command = map_option command_json (ei_command i),
                         sq_hidden = ei_hidden i, sq_memory = ei_memory i,
                         sq_reservation = None, sq_held = False,
                         sq_author = map_option person_json (normalizeSessionPerson (ei_author i))\<rparr>
                in Inr ((q, True), s\<lparr>ss_queue := ss_queue s @ [q]\<rparr>))"

definition queueList :: "session_store \<Rightarrow> string \<Rightarrow> queue_item list" where
  "queueList s sid = map rowToQueueItem (sort_key sq_position (session_queue s sid))"

definition editable :: "string \<Rightarrow> string \<Rightarrow> queue_row \<Rightarrow> bool" where
  "editable sid qid q \<longleftrightarrow> sq_session q = sid \<and> sq_id q = qid \<and> sq_reservation q = None"

definition queueEdit :: "string \<Rightarrow> string \<Rightarrow> string \<Rightarrow> session_store \<Rightarrow> queue_item option \<times> session_store" where
  "queueEdit sid qid txt s =
     (let s' = update_queue (editable sid qid)
                 (\<lambda>q. q\<lparr>sq_text := txt, sq_command := None, sq_hidden := False, sq_held := False\<rparr>) s
      in if find (editable sid qid) (ss_queue s) = None then (None, s)
         else (map_option rowToQueueItem (find (\<lambda>q. sq_session q = sid \<and> sq_id q = qid) (ss_queue s')), s'))"

definition set_position :: "string \<Rightarrow> nat \<times> string \<Rightarrow> session_store \<Rightarrow> session_store" where
  "set_position sid p =
     update_queue (\<lambda>q. sq_id q = snd p \<and> sq_session q = sid) (\<lambda>q. q\<lparr>sq_position := int (fst p)\<rparr>)"

definition queueReorder :: "string \<Rightarrow> string list \<Rightarrow> session_store \<Rightarrow> queue_item list store_result" where
  "queueReorder sid ids =
     store_transaction (\<lambda>s.
       let existing = remdups (map sq_id (session_queue s sid)); submitted = remdups ids in
       if \<exists>q\<in>set (session_queue s sid). sq_reservation q \<noteq> None then Inl SeQueueReserved
       else if length existing \<noteq> length submitted \<or> length ids \<noteq> length submitted
               \<or> (\<exists>i\<in>set existing. i \<notin> set submitted) then Inl SeInvalidInput
       else let s' = fold (set_position sid) (zip [0..<length ids] ids) s
            in Inr (queueList s' sid, s'))"

definition queueRemove :: "string \<Rightarrow> string \<Rightarrow> session_store \<Rightarrow> bool \<times> session_store" where
  "queueRemove sid qid s =
     (find (editable sid qid) (ss_queue s) \<noteq> None, delete_queue (editable sid qid) s)"

definition queueShift :: "string \<Rightarrow> session_store \<Rightarrow> queue_item option store_result" where
  "queueShift sid =
     store_transaction (\<lambda>s.
       case queue_head s sid of
         None \<Rightarrow> Inr (None, s)
       | Some q \<Rightarrow>
           if sq_reservation q \<noteq> None \<or> sq_held q then Inr (None, s)
           else Inr (Some (rowToQueueItem q), delete_queue (\<lambda>x. sq_id x = sq_id q) s))"

subsection \<open>Reservations\<close>

definition queueReservation :: "session_store \<Rightarrow> string \<Rightarrow> (queue_row \<times> operation_row) option" where
  "queueReservation s oid =
     (case (reserved_by s oid, operationRow s oid) of
        (Some q, Some r) \<Rightarrow> Some (q, r)
      | _ \<Rightarrow> None)"

datatype reserve_result =
    QueueEmpty
  | QueueHeld queue_row
  | QueueBlocked queue_row operation_row
  | QueueReserved queue_row operation_row

definition reserveQueueHead ::
  "int \<Rightarrow> string \<Rightarrow> string \<Rightarrow> mutation_kind option \<Rightarrow> replay_policy option \<Rightarrow> session_store \<Rightarrow> reserve_result store_result" where
  "reserveQueueHead now uuid sid kind replay =
     store_transaction (\<lambda>s.
       case queue_head s sid of
         None \<Rightarrow> Inr (QueueEmpty, s)
       | Some q \<Rightarrow>
           if sq_held q then Inr (QueueHeld q, s)
           else (case sq_reservation q of
                   Some oid \<Rightarrow>
                     (case queueReservation s oid of
                        None \<Rightarrow> Inl SeIntegrity
                      | Some (q', r) \<Rightarrow> Inr (QueueBlocked q' r, s))
                 | None \<Rightarrow>
                     then_do (insertPreparedOperation now sid (nullish kind TurnSubmit) (nullish replay ReplayNever) uuid s)
                       (\<lambda>r s1.
                         let s2 = update_queue (\<lambda>x. sq_id x = sq_id q \<and> sq_session x = sid \<and> sq_reservation x = None
                                                   \<and> \<not> sq_held x)
                                    (\<lambda>x. x\<lparr>sq_reservation := Some (ro_id r)\<rparr>) s1;
                             (e, s3) = appendMutationState now r ''mutation/prepared'' no_extra s2
                         in Inr (QueueReserved q r, s3))))"

definition confirmQueueReservation :: "int \<Rightarrow> string \<Rightarrow> string option \<Rightarrow> session_store \<Rightarrow> queue_row store_result" where
  "confirmQueueReservation now oid receipt =
     store_transaction (\<lambda>s.
       case queueReservation s oid of
         None \<Rightarrow> Inl SeNotFound
       | Some (q, r) \<Rightarrow>
           then_do (transitionOperation now oid (SetConfirmed (if truthy receipt then receipt else None)) s)
             (\<lambda>_ s1.
               let (e, s2) = appendInTransaction now (sq_session q) ''queue/dispatched''
                               (JObj [(''queueId'', JStr (sq_id q))]) ignorable_opts s1
               in Inr (q, delete_queue (\<lambda>x. sq_id x = sq_id q \<and> sq_reservation x = Some oid) s2)))"

text \<open>Only a rejection or a proof of non-application releases a reservation.\<close>

datatype reservation_release = ReleaseRejected string string | ReleaseNotApplied "string option" string

fun release_settlement :: "reservation_release \<Rightarrow> settlement" where
  "release_settlement (ReleaseRejected c m) = SetRejected c m"
| "release_settlement (ReleaseNotApplied c m) = SetNotApplied c m"

definition free_reservation :: "string \<Rightarrow> string \<Rightarrow> session_store \<Rightarrow> session_store" where
  "free_reservation qid oid =
     update_queue (\<lambda>x. sq_id x = qid \<and> sq_reservation x = Some oid) (\<lambda>x. x\<lparr>sq_reservation := None\<rparr>)"

definition releaseQueueReservation :: "int \<Rightarrow> string \<Rightarrow> reservation_release \<Rightarrow> session_store \<Rightarrow> queue_row store_result" where
  "releaseQueueReservation now oid rel =
     store_transaction (\<lambda>s.
       case queueReservation s oid of
         None \<Rightarrow> Inl SeNotFound
       | Some (q, r) \<Rightarrow>
           then_do (transitionOperation now oid (release_settlement rel) s)
             (\<lambda>_ s1. Inr (q, free_reservation (sq_id q) oid s1)))"

subsection \<open>Turns held for review\<close>

definition hold_reserved :: "queue_row \<Rightarrow> string \<Rightarrow> session_store \<Rightarrow> session_store" where
  "hold_reserved q oid =
     update_queue (\<lambda>x. sq_id x = sq_id q \<and> sq_reservation x = Some oid)
       (\<lambda>x. x\<lparr>sq_reservation := None, sq_held := True\<rparr>)"

definition delivery_of :: "json option \<Rightarrow> delivery_mode" where
  "delivery_of j =
     (let t = (case j of None \<Rightarrow> ''undefined'' | Some x \<Rightarrow> js_string x) in
      if t = ''normal'' then DeliverNormal else if t = ''steer'' then DeliverSteer
      else if t = ''interrupt'' then DeliverInterrupt else DeliverQueue)"

definition is_object :: "json \<Rightarrow> bool" where
  "is_object j \<longleftrightarrow> (case j of JObj _ \<Rightarrow> True | JArr _ \<Rightarrow> True | _ \<Rightarrow> False)"

definition draft_row :: "int \<Rightarrow> string \<Rightarrow> session_event \<Rightarrow> string \<Rightarrow> session_store \<Rightarrow> queue_row" where
  "draft_row now qid e sid s =
     \<lparr>sq_id = qid, sq_session = sid,
      sq_position = nullish (sql_min (map sq_position (session_queue s sid))) 0 - 1,
      sq_text = raw_or_text (ev_data e),
      sq_delivery = delivery_of (ev_field e ''delivery''), sq_created = now,
      sq_attachments = (case ev_field e ''attachments'' of
                          Some (JArr (x # xs)) \<Rightarrow> Some (JArr (x # xs)) | _ \<Rightarrow> None),
      sq_command = (case ev_field e ''command'' of
                      Some c \<Rightarrow> if is_object c \<and> json_str (json_field c ''id'') \<noteq> None then Some c else None
                    | None \<Rightarrow> None),
      sq_hidden = (ev_field e ''hiddenUserMessage'' = Some (JBool True) \<or> ev_field e ''autoResume'' = Some (JBool True)),
      sq_memory = (case ev_field e ''memory'' of
                     Some m \<Rightarrow> if is_object m then Some m else None | None \<Rightarrow> None),
      sq_reservation = None, sq_held = True,
      sq_author = map_option person_json (normalizeSessionPerson (ev_field e ''author''))\<rparr>"

definition holdEpochTurnForReview ::
  "int \<Rightarrow> string \<Rightarrow> bool \<Rightarrow> operation_row \<Rightarrow> session_store \<Rightarrow> queue_row option store_result" where
  "holdEpochTurnForReview now qid synthesize r s =
     (case reserved_by s (ro_id r) of
        Some q \<Rightarrow> Inr (Some (q\<lparr>sq_reservation := None, sq_held := True\<rparr>), hold_reserved q (ro_id r) s)
      | None \<Rightarrow>
          if \<not> synthesize then Inr (None, s)
          else (case owner_event s r of
                  None \<Rightarrow> Inr (None, s)
                | Some e \<Rightarrow>
                    if ev_type e \<noteq> ''user/message'' \<or> raw_or_text (ev_data e) = [] then Inr (None, s)
                    else if queue_find s qid \<noteq> None then Inl SeConstraint
                    else let q = draft_row now qid e (ro_session r) s
                         in Inr (Some q, s\<lparr>ss_queue := ss_queue s @ [q]\<rparr>)))"

subsection \<open>Responses to requests\<close>

text \<open>The answer of a person, with the payload that the intent records.\<close>

datatype response_choice =
    ChoosePermission string "string option" bool \<comment> \<open>\<open>reply\<close>, \<open>scope\<close>, \<open>auto\<close>\<close>
  | ChooseQuestion json bool \<comment> \<open>\<open>answers\<close>, \<open>reject\<close>\<close>
  | ChooseSecret string "string option" \<comment> \<open>\<open>action\<close>, \<open>handle\<close>\<close>

fun choice_kind :: "response_choice \<Rightarrow> request_kind" where
  "choice_kind (ChoosePermission _ _ _) = RkPermission"
| "choice_kind (ChooseQuestion _ _) = RkQuestion"
| "choice_kind (ChooseSecret _ _) = RkSecret"

fun choice_mutation :: "response_choice \<Rightarrow> mutation_kind" where
  "choice_mutation (ChoosePermission _ _ _) = PermissionReply"
| "choice_mutation (ChooseQuestion _ reject) = (if reject then QuestionReject else QuestionReply)"
| "choice_mutation (ChooseSecret _ _) = SecretReply"

fun choice_payload :: "response_choice \<Rightarrow> (string \<times> json) list" where
  "choice_payload (ChoosePermission reply scope auto) =
     (''reply'', JStr reply) # text_entry ''scope'' scope @ (if auto then [(''auto'', JBool True)] else [])"
| "choice_payload (ChooseQuestion answers reject) =
     (''answers'', answers) # (if reject then [(''reject'', JBool True)] else [])"
| "choice_payload (ChooseSecret action handle) =
     (''action'', JStr action) # text_entry ''handle'' handle"

fun request_text :: "request_kind \<Rightarrow> string" where
  "request_text RkPermission = ''permission''"
| "request_text RkQuestion = ''question''"
| "request_text RkSecret = ''secret''"

definition responseIntent :: "session_store \<Rightarrow> string \<Rightarrow> request_kind \<Rightarrow> string \<Rightarrow> intent_row option" where
  "responseIntent s sid kind req =
     find (\<lambda>i. ri_session i = sid \<and> ri_kind i = kind \<and> ri_request i = req) (ss_intents s)"

definition actionable :: "session_store \<Rightarrow> string \<Rightarrow> request_kind \<Rightarrow> string \<Rightarrow> bool" where
  "actionable s sid kind req \<longleftrightarrow>
     kind = RkSecret
     \<or> (sid, (if kind = RkPermission then AttPermission else AttQuestion), req) \<in> set (ss_open s)"

datatype choice_result = ChosenIntent intent_row operation_row | ExistingIntent intent_row operation_row

definition chooseResponseIntent ::
  "int \<Rightarrow> string \<Rightarrow> string \<Rightarrow> string \<Rightarrow> response_choice \<Rightarrow> replay_policy \<Rightarrow> session_store \<Rightarrow> choice_result store_result" where
  "chooseResponseIntent now uuid sid req choice replay =
     store_transaction (\<lambda>s.
       case responseIntent s sid (choice_kind choice) req of
         Some i \<Rightarrow>
           (case operationRow s (ri_operation i) of
              None \<Rightarrow> Inl SeIntegrity
            | Some r \<Rightarrow> Inr (ExistingIntent i r, s))
       | None \<Rightarrow>
           if \<not> actionable s sid (choice_kind choice) req then Inl SeNotFound
           else then_do (insertPreparedOperation now sid (choice_mutation choice) replay uuid s)
             (\<lambda>r s1.
               if intent_by_operation s1 (ro_id r) \<noteq> None then Inl SeConstraint
               else let i = \<lparr>ri_session = sid, ri_kind = choice_kind choice, ri_request = req,
                             ri_operation = ro_id r, ri_payload = JObj (choice_payload choice), ri_created = now\<rparr>;
                        s2 = s1\<lparr>ss_intents := ss_intents s1 @ [i]\<rparr>;
                        (e, s3) = appendInTransaction now sid
                                    (request_text (choice_kind choice) @ ''/response-intended'')
                                    (JObj ((''requestId'', JStr req) # choice_payload choice)) ignorable_opts s2;
                        s4 = set_owner (ro_id r) (ev_seq e) s3;
                        r' = r\<lparr>ro_owner := Some (ev_seq e)\<rparr>;
                        (st, s5) = appendMutationState now r' ''mutation/prepared'' no_extra s4
                    in Inr (ChosenIntent i r', s5)))"

datatype response_settlement =
    RsConfirmed "string option" event_input
  | RsRejected string string
  | RsUnknown "string option" string
  | RsNotApplied "string option" string

fun completion_type :: "request_kind \<Rightarrow> string" where
  "completion_type RkPermission = ''permission/resolved''"
| "completion_type RkQuestion = ''question/answered''"
| "completion_type RkSecret = ''secret/resolved''"

text \<open>A response that failed: the failure event, and the intent is dropped.\<close>

definition fail_response :: "int \<Rightarrow> intent_row \<Rightarrow> settlement \<Rightarrow> session_store \<Rightarrow> operation_row store_result" where
  "fail_response now i st s =
     then_do (transitionOperation now (ri_operation i) st s)
       (\<lambda>r s1.
         let (e, s2) = appendInTransaction now (ri_session i) (request_text (ri_kind i) @ ''/response-failed'')
                         (JObj ([(''requestId'', JStr (ri_request i)), (''operationId'', JStr (ri_operation i))]
                                @ text_entry ''code'' (settlement_code st)
                                @ opt_entry ''message'' JStr (settlement_message st))) ignorable_opts s1
         in Inr (r, s2\<lparr>ss_intents := filter (\<lambda>x. ri_operation x \<noteq> ri_operation i) (ss_intents s2)\<rparr>))"

definition settleResponseIntent ::
  "int \<Rightarrow> string \<Rightarrow> response_settlement \<Rightarrow> session_store \<Rightarrow> operation_row store_result" where
  "settleResponseIntent now oid rs =
     store_transaction (\<lambda>s.
       case intent_by_operation s oid of
         None \<Rightarrow> Inl SeNotFound
       | Some i \<Rightarrow>
           (case rs of
              RsConfirmed receipt completion \<Rightarrow>
                if in_type completion \<noteq> completion_type (ri_kind i) then Inl SeInvalidInput
                else then_do (transitionOperation now oid (SetConfirmed (if truthy receipt then receipt else None)) s)
                       (\<lambda>r s1. let (e, s2) = appendInputInTransaction now (ri_session i) completion s1 in Inr (r, s2))
            | RsUnknown c m \<Rightarrow> transitionOperation now oid (SetUnknown c m) s
            | RsRejected c m \<Rightarrow> fail_response now i (SetRejected c m) s
            | RsNotApplied c m \<Rightarrow> fail_response now i (SetNotApplied c m) s))"

end
