(* ===== verification/SessionEpoch.thy ===== *)
theory SessionEpoch
  imports SessionQueue "HOL-Library.List_Lexorder" "HOL-Library.Char_ord" "HOL-Library.Product_Lexorder"
begin

text \<open>
  What ends or interrupts the work of a session (packages/session/src/index.ts): recovery
  after a restart, the replacement of a runtime by the next epoch, the reconciliation
  barrier, and deletion with its tombstone.

  \<open>uid\<close> gives the random id drawn for the draft of an operation.
\<close>

subsection \<open>Recovery after a restart\<close>

text \<open>Runs a step for every row and collects what the steps return.\<close>

fun each_row :: "('a \<Rightarrow> session_store \<Rightarrow> 'b option store_result) \<Rightarrow> 'a list \<Rightarrow> session_store \<Rightarrow> 'b list store_result" where
  "each_row f [] s = Inr ([], s)"
| "each_row f (r # rs) s =
     then_do (f r s) (\<lambda>x s1. then_do (each_row f rs s1)
       (\<lambda>xs s2. Inr ((case x of None \<Rightarrow> xs | Some y \<Rightarrow> y # xs), s2)))"

definition process_restarted :: string where
  "process_restarted = ''process-restarted''"

definition interrupted_message :: string where
  "interrupted_message = ''execution was interrupted before its outcome was durably recorded''"

definition interrupt_row :: "int \<Rightarrow> operation_row \<Rightarrow> operation_row" where
  "interrupt_row now r = r\<lparr>ro_state := OpUnknown, ro_updated := now, ro_code := Some process_restarted,
                           ro_message := Some interrupted_message\<rparr>"

definition recover_row :: "int \<Rightarrow> operation_row \<Rightarrow> session_store \<Rightarrow> operation_row option store_result" where
  "recover_row now r s =
     (let s1 = update_op (ro_id r) (\<lambda>x. if ro_state x = OpExecuting then interrupt_row now x else x) s;
          x = no_extra\<lparr>se_code := Some process_restarted, se_message := Some interrupted_message\<rparr>;
          (e, s2) = appendMutationState now (interrupt_row now r) ''mutation/uncertainty-recorded'' x s1
      in Inr (Some (interrupt_row now r), s2))"

definition recoverExecutingInTransaction ::
  "int \<Rightarrow> string option \<Rightarrow> session_store \<Rightarrow> operation_row list store_result" where
  "recoverExecutingInTransaction now sid s =
     each_row (recover_row now)
       (sort_key (\<lambda>r. (ro_session r, ro_ordinal r))
          (filter (\<lambda>r. ro_state r = OpExecuting \<and> (case sid of None \<Rightarrow> True | Some x \<Rightarrow> ro_session r = x)) (ss_ops s))) s"

definition recoverExecutingOperations ::
  "int \<Rightarrow> string option \<Rightarrow> session_store \<Rightarrow> operation_row list store_result" where
  "recoverExecutingOperations now sid = store_transaction (recoverExecutingInTransaction now sid)"

text \<open>A process that ends and a store that is opened again on its file: \<open>createStore\<close>.\<close>

definition reopen :: "int \<Rightarrow> session_store \<Rightarrow> operation_row list store_result" where
  "reopen now s = recoverExecutingOperations now None (s\<lparr>ss_closed := False\<rparr>)"

definition json_strings :: "json option \<Rightarrow> string list" where
  "json_strings j = (case j of Some (JArr xs) \<Rightarrow> List.map_filter (\<lambda>x. json_str (Some x)) xs | _ \<Rightarrow> [])"

definition already_recovered :: "session_store \<Rightarrow> string \<Rightarrow> string list" where
  "already_recovered s sid =
     concat (map (\<lambda>e. json_strings (ev_field e ''recoveredOperationIds''))
       (filter (\<lambda>e. ev_type e = ''runtime/restart-recovered'') (session_events s sid)))"

definition stranded_turns :: "session_store \<Rightarrow> string \<Rightarrow> operation_row list" where
  "stranded_turns s sid =
     filter (\<lambda>r. ro_id r \<notin> set (already_recovered s sid))
       (filter (\<lambda>r. ro_state r = OpUnknown \<and> ro_code r = Some process_restarted
                    \<and> (ro_kind r = TurnSubmit \<or> ro_kind r = TurnSteer))
          (operations_of s sid))"

definition recoverRestartInterruptedTurns ::
  "int \<Rightarrow> string \<Rightarrow> string \<Rightarrow> int \<Rightarrow> int \<Rightarrow> session_store \<Rightarrow>
   (session_event \<times> string list \<times> queue_row list) option store_result" where
  "recoverRestartInterruptedTurns now sid authority generation ordinal =
     store_transaction (\<lambda>s.
       if projection_of s sid = None then Inl SeNotFound
       else if stranded_turns s sid = [] then Inr (None, s)
       else let ids = map ro_id (stranded_turns s sid);
                (marker, s1) = appendInTransaction now sid ''runtime/restart-recovered''
                   (JObj [(''authorityId'', JStr authority), (''generation'', JNum generation),
                          (''reconciliationOrdinal'', JNum ordinal),
                          (''recoveredOperationIds'', JArr (map JStr ids))]) ignorable_opts s
            in then_do (each_row (holdEpochTurnForReview now [] False) (stranded_turns s sid) s1)
                 (\<lambda>held s2. Inr (Some (marker, ids, held), s2)))"

subsection \<open>The next epoch\<close>

datatype epoch_fence =
    FenceDestroyed string int
  | FenceReleased string int string \<comment> \<open>authority, generation, backend session\<close>

record harness_switch =
  hs_transition :: string
  hs_selection :: json
  hs_leg :: runtime_leg
  hs_launch :: "(json option \<times> string option) option" \<comment> \<open>\<open>launch\<close>: model and agent\<close>

record epoch_input =
  et_session :: string
  et_expected :: runtime_binding
  et_replacement :: runtime_binding
  et_reset :: string
  et_reason :: string
  et_harness :: "harness_switch option"
  et_fence :: "epoch_fence option"

definition bindingEpoch :: "runtime_binding \<Rightarrow> int" where
  "bindingEpoch b = nullish (rb_epoch b) 0"

definition samePersistedBinding :: "runtime_binding \<Rightarrow> runtime_binding \<Rightarrow> bool" where
  "samePersistedBinding a b \<longleftrightarrow>
     rb_backend a = rb_backend b \<and> rb_authority a = rb_authority b \<and> rb_generation a = rb_generation b
     \<and> bindingEpoch a = bindingEpoch b \<and> rb_verified a = rb_verified b \<and> rb_v2 a = rb_v2 b
     \<and> rl_directory (rb_location a) = rl_directory (rb_location b)
     \<and> nullish (rl_workspace (rb_location a)) [] = nullish (rl_workspace (rb_location b)) []"

definition replacement_fresh :: "runtime_binding \<Rightarrow> runtime_binding \<Rightarrow> bool" where
  "replacement_fresh current r \<longleftrightarrow>
     safe_integer (rb_epoch r) \<and> rb_epoch r = Some (bindingEpoch current + 1) \<and> 0 < bindingEpoch r
     \<and> rb_backend r \<noteq> [] \<and> rb_backend r \<noteq> rb_backend current \<and> rb_authority r \<noteq> []"

definition reset_confirmed :: "epoch_input \<Rightarrow> operation_row \<Rightarrow> bool" where
  "reset_confirmed i r \<longleftrightarrow>
     ro_session r = et_session i \<and> ro_kind r = SessionReset \<and> ro_state r = OpConfirmed
     \<and> ro_receipt r = Some (rb_backend (et_replacement i))"

definition fence_matches :: "runtime_binding \<Rightarrow> runtime_binding \<Rightarrow> epoch_fence \<Rightarrow> bool" where
  "fence_matches current replacement f =
     (case f of
        FenceDestroyed a g \<Rightarrow> a = rb_authority current \<and> g = rb_generation current
                              \<and> rb_authority replacement \<noteq> rb_authority current
      | FenceReleased a g b \<Rightarrow> a = rb_authority current \<and> g = rb_generation current \<and> b = rb_backend current)"

definition ops_before :: "session_store \<Rightarrow> string \<Rightarrow> op_state \<Rightarrow> int \<Rightarrow> operation_row list" where
  "ops_before s sid st n = filter (\<lambda>r. ro_state r = st \<and> ro_ordinal r < n) (operations_of s sid)"

text \<open>An operation that the epoch retires: the new state, the code and the message of the row.\<close>

definition retire_row :: "int \<Rightarrow> op_state \<Rightarrow> string \<Rightarrow> string \<Rightarrow> operation_row \<Rightarrow> operation_row" where
  "retire_row now st code msg r =
     r\<lparr>ro_state := st, ro_updated := now, ro_code := Some code, ro_message := Some msg, ro_receipt := None\<rparr>"

definition retire_op ::
  "int \<Rightarrow> op_state \<Rightarrow> string \<Rightarrow> string \<Rightarrow> string \<Rightarrow> operation_row \<Rightarrow> session_store \<Rightarrow> operation_row store_result" where
  "retire_op now st code msg ty r s =
     (if map_option ro_state (operationRow s (ro_id r)) \<noteq> Some (ro_state r) then Inl SeConflict
      else let s1 = update_op (ro_id r) (retire_row now st code msg) s;
               (e, s2) = appendMutationState now (retire_row now st code msg r) ty
                           (no_extra\<lparr>se_code := Some code, se_message := Some msg\<rparr>) s1
           in Inr (retire_row now st code msg r, s2))"

definition hold_turn :: "int \<Rightarrow> (string \<Rightarrow> string) \<Rightarrow> bool \<Rightarrow> operation_row \<Rightarrow> session_store \<Rightarrow> queue_row option store_result" where
  "hold_turn now uid fenced r s =
     (if fenced \<and> ro_kind r = TurnSubmit then holdEpochTurnForReview now (uid (ro_id r)) True r s
      else Inr (None, s))"

definition never_admitted_message :: string where
  "never_admitted_message = ''operation was never admitted before the runtime was replaced''"

definition interrupted_epoch_message :: string where
  "interrupted_epoch_message =
     ''execution was interrupted before its outcome was durably recorded; the runtime was replaced''"

definition fenced_message :: string where
  "fenced_message = ''outcome unknown - runtime was replaced; the request was not re-sent''"

definition reject_prepared ::
  "int \<Rightarrow> (string \<Rightarrow> string) \<Rightarrow> bool \<Rightarrow> operation_row \<Rightarrow> session_store \<Rightarrow> queue_row option store_result" where
  "reject_prepared now uid fenced r s =
     then_do (retire_op now OpRejected ''runtime-epoch-replaced-before-execution'' never_admitted_message
                ''mutation/rejected'' r s)
       (hold_turn now uid fenced)"

definition interrupt_executing :: "int \<Rightarrow> operation_row \<Rightarrow> session_store \<Rightarrow> queue_row option store_result" where
  "interrupt_executing now r s =
     then_do (retire_op now OpUnknown ''runtime-epoch-replaced'' interrupted_epoch_message
                ''mutation/uncertainty-recorded'' r s)
       (\<lambda>r' s'. Inr (None, s'))"

definition fence_unknown :: "int \<Rightarrow> (string \<Rightarrow> string) \<Rightarrow> operation_row \<Rightarrow> session_store \<Rightarrow> queue_row option store_result" where
  "fence_unknown now uid r s =
     then_do (retire_op now OpFenced ''runtime-epoch-replaced'' fenced_message ''mutation/fenced'' r s)
       (hold_turn now uid True)"

subsection \<open>Requests and snapshots of the old epoch\<close>

text \<open>The request an event opens (\<open>True\<close>) or closes, by the kind of the request.\<close>

definition request_op :: "string \<Rightarrow> (request_kind \<times> bool) option" where
  "request_op ty =
     map_of [(''permission/requested'', (RkPermission, True)), (''question/asked'', (RkQuestion, True)),
             (''secret/requested'', (RkSecret, True)), (''permission/resolved'', (RkPermission, False)),
             (''permission/expired'', (RkPermission, False)), (''question/answered'', (RkQuestion, False)),
             (''question/expired'', (RkQuestion, False)), (''secret/resolved'', (RkSecret, False)),
             (''secret/expired'', (RkSecret, False))] ty"

definition open_step ::
  "session_event \<Rightarrow> (request_kind \<times> string, unit) jsmap \<Rightarrow> (request_kind \<times> string, unit) jsmap" where
  "open_step e m =
     (case json_str (ev_field e ''requestId'') of
        None \<Rightarrow> m
      | Some req \<Rightarrow>
          if req = [] then m
          else (case request_op (ev_type e) of
                  None \<Rightarrow> m
                | Some (kind, opens) \<Rightarrow> if opens then jm_set (kind, req) () m else jm_delete (kind, req) m))"

definition open_requests :: "session_event list \<Rightarrow> (request_kind \<times> string) list" where
  "open_requests es = jm_keys (fold open_step es [])"

definition expire_request ::
  "int \<Rightarrow> string \<Rightarrow> int \<Rightarrow> request_kind \<times> string \<Rightarrow> session_store \<Rightarrow> session_store" where
  "expire_request now sid epoch k s =
     snd (appendInTransaction now sid (request_text (fst k) @ ''/expired'')
       (JObj [(''requestId'', JStr (snd k)), (''epoch'', JNum epoch),
              (''reason'', JStr ''runtime-epoch-replaced'')]) ignorable_opts s)"

definition appendEpochRequestExpirations ::
  "int \<Rightarrow> string \<Rightarrow> int \<Rightarrow> session_event list \<Rightarrow> session_store \<Rightarrow> session_store" where
  "appendEpochRequestExpirations now sid epoch es s = fold (expire_request now sid epoch) (open_requests es) s"

definition revision_step :: "string \<Rightarrow> session_event \<Rightarrow> int \<Rightarrow> int" where
  "revision_step ty e n =
     (if ev_type e = ty \<and> safe_integer (js_number (ev_field e ''revision''))
         \<and> 0 \<le> the (js_number (ev_field e ''revision''))
      then max n (the (js_number (ev_field e ''revision''))) else n)"

definition nextSnapshotRevision :: "session_event list \<Rightarrow> string \<Rightarrow> int option" where
  "nextSnapshotRevision es ty =
     (let n = fold (revision_step ty) es 0 in if 9007199254740991 \<le> n then None else Some (n + 1))"

definition find_last :: "('a \<Rightarrow> bool) \<Rightarrow> 'a list \<Rightarrow> 'a option" where
  "find_last P xs = find P (rev xs)"

definition array_of :: "json option \<Rightarrow> json list" where
  "array_of j = (case j of Some (JArr xs) \<Rightarrow> xs | _ \<Rightarrow> [])"

definition text_of :: "json option \<Rightarrow> string \<Rightarrow> string" where
  "text_of j d = nullish (json_str j) d"

definition terminal_status :: "string \<Rightarrow> bool" where
  "terminal_status st \<longleftrightarrow>
     st \<in> set [''done'', ''completed'', ''failed'', ''cancelled'', ''canceled'']"

definition carried_agent :: "json \<Rightarrow> json" where
  "carried_agent raw =
     (let st = text_of (json_field raw ''status'') [] in
      JObj ([(''sessionId'', JStr (text_of (json_field raw ''sessionId'') [])),
             (''label'', JStr (text_of (json_field raw ''label'') [])),
             (''status'', JStr (if terminal_status (lower st) then st else ''unknown''))]
            @ opt_entry ''currentTask'' JStr (json_str (json_field raw ''currentTask''))))"

text \<open>A snapshot of the tasks or of the subagents that the next epoch starts with.\<close>

definition carry_snapshot ::
  "int \<Rightarrow> string \<Rightarrow> string \<Rightarrow> (session_event \<Rightarrow> int \<Rightarrow> (string \<times> json) list) \<Rightarrow> session_event list \<Rightarrow>
   session_store \<Rightarrow> unit store_result" where
  "carry_snapshot now sid ty data es s =
     (case find_last (\<lambda>e. ev_type e = ty) es of
        None \<Rightarrow> Inr ((), s)
      | Some e \<Rightarrow>
          (case nextSnapshotRevision es ty of
             None \<Rightarrow> Inl SeIntegrity
           | Some n \<Rightarrow> Inr ((), snd (appendInTransaction now sid ty (JObj (data e n)) plain_opts s))))"

definition task_data :: "session_event \<Rightarrow> int \<Rightarrow> (string \<times> json) list" where
  "task_data e n = [(''listId'', JStr (text_of (ev_field e ''listId'') ''todo'')), (''revision'', JNum n),
                      (''items'', JArr (array_of (ev_field e ''items'')))]"

definition subagent_data :: "session_event \<Rightarrow> int \<Rightarrow> (string \<times> json) list" where
  "subagent_data e n = [(''revision'', JNum n),
                          (''agents'', JArr (map carried_agent (array_of (ev_field e ''agents''))))]"

definition appendEpochStateSnapshots ::
  "int \<Rightarrow> string \<Rightarrow> session_event list \<Rightarrow> session_store \<Rightarrow> unit store_result" where
  "appendEpochStateSnapshots now sid es s =
     then_do (carry_snapshot now sid ''task/snapshot'' task_data es s)
       (\<lambda>_ s1. carry_snapshot now sid ''subagent/snapshot'' subagent_data es s1)"

subsection \<open>The transition\<close>

definition binding_json :: "string \<Rightarrow> int \<Rightarrow> int \<Rightarrow> json" where
  "binding_json authority generation epoch =
     JObj [(''authorityId'', JStr authority), (''generation'', JNum generation), (''epoch'', JNum epoch)]"

definition leg_entries :: "runtime_leg \<Rightarrow> (string \<times> json) list" where
  "leg_entries l =
     [(''id'', JStr (lg_id l)), (''harnessId'', JStr (lg_harness l)), (''nativeSessionId'', JStr (lg_native l)),
      (''startedAt'', JNum (lg_started l)), (''canonicalThroughSeq'', JNum (lg_through l))]
     @ opt_entry ''agentIntent'' JStr (lg_intent l) @ [(''bootstrap'', JStr (lg_bootstrap l))]"

definition marker_data :: "epoch_input \<Rightarrow> runtime_binding \<Rightarrow> json" where
  "marker_data i current =
     JObj [(''old'', binding_json (rb_authority current) (rb_generation current) (bindingEpoch current)),
           (''new'', binding_json (rb_authority (et_replacement i)) (rb_generation (et_replacement i))
                       (bindingEpoch (et_replacement i))),
           (''reason'', JStr (trim (et_reason i))), (''resetOperationId'', JStr (et_reset i))]"

definition publish_switch :: "int \<Rightarrow> epoch_input \<Rightarrow> projection \<Rightarrow> session_store \<Rightarrow> unit store_result" where
  "publish_switch now i p s =
     (case et_harness i of
        None \<Rightarrow> Inr ((), s)
      | Some h \<Rightarrow>
          if pj_transition p \<noteq> Some (hs_transition h) then Inl SeConflict
          else Inr ((), snd (appendInTransaction now (et_session i) ''harness/switched''
            (JObj ([(''transitionId'', JStr (hs_transition h)), (''from'', JStr (nullish (pj_resolved p) [])),
                    (''to'', JStr (lg_harness (hs_leg h)))]
                   @ opt_entry ''closedLeg'' (\<lambda>l. JObj (leg_entries l @ [(''endedAt'', JNum now)])) (pj_leg p)
                   @ [(''leg'', JObj (leg_entries (hs_leg h)))])) ignorable_opts s)))"

definition next_projection :: "int \<Rightarrow> string \<Rightarrow> epoch_input \<Rightarrow> projection \<Rightarrow> projection" where
  "next_projection now leg_id i p =
     (let p1 = (case et_harness i of
                  Some h \<Rightarrow>
                    (let q = p\<lparr>pj_harness := Some (hs_selection h), pj_resolved := Some (lg_harness (hs_leg h)),
                              pj_leg := Some (hs_leg h), pj_transition := None, pj_window := None\<rparr>
                     in if Some (lg_harness (hs_leg h)) = pj_resolved p then q
                        else q\<lparr>pj_model := (case hs_launch h of None \<Rightarrow> None | Some l \<Rightarrow> fst l),
                               pj_agent := (case hs_launch h of None \<Rightarrow> None | Some l \<Rightarrow> snd l),
                               pj_profile := None\<rparr>)
                | None \<Rightarrow>
                    p\<lparr>pj_leg := map_option (\<lambda>l. l\<lparr>lg_id := leg_id, lg_native := rb_backend (et_replacement i),
                                    lg_started := now, lg_through := 0, lg_bootstrap := ''continuity''\<rparr>) (pj_leg p)\<rparr>)
      in p1\<lparr>pj_backend := Some (rb_backend (et_replacement i)), pj_binding := Some (et_replacement i),
            pj_status := ''epoch-pending'', pj_updated := now\<rparr>)"

record epoch_result =
  er_marker :: session_event
  er_projection :: projection
  er_fenced :: "string list"
  er_held :: "queue_row list"

text \<open>The operations older than the reset: prepared, then executing, then unknown ones.\<close>

definition retire_older ::
  "int \<Rightarrow> (string \<Rightarrow> string) \<Rightarrow> string \<Rightarrow> int \<Rightarrow> bool \<Rightarrow> session_store \<Rightarrow> (string list \<times> queue_row list) store_result" where
  "retire_older now uid sid n fenced s =
     then_do (each_row (reject_prepared now uid fenced) (ops_before s sid OpPrepared n) s) (\<lambda>held1 s1.
     then_do (each_row (interrupt_executing now) (ops_before s1 sid OpExecuting n) s1) (\<lambda>none s2.
     if \<not> fenced then Inr (([], held1), s2)
     else then_do (each_row (fence_unknown now uid) (ops_before s2 sid OpUnknown n) s2)
            (\<lambda>held2 s3. Inr ((map ro_id (ops_before s2 sid OpUnknown n), held1 @ held2), s3))))"

definition commit_epoch ::
  "int \<Rightarrow> (string \<Rightarrow> string) \<Rightarrow> string \<Rightarrow> epoch_input \<Rightarrow> projection \<Rightarrow> runtime_binding \<Rightarrow> operation_row \<Rightarrow>
   session_store \<Rightarrow> epoch_result store_result" where
  "commit_epoch now uid leg_id i p current reset s =
     (let prior = sort_key ev_seq (session_events s (et_session i));
          (marker, s1) = appendInTransaction now (et_session i) ''runtime/epoch-replaced''
                           (marker_data i current) ignorable_opts s
      in then_do (retire_older now uid (et_session i) (ro_ordinal reset) (et_fence i \<noteq> None) s1) (\<lambda>out s2.
         let s3 = appendEpochRequestExpirations now (et_session i) (bindingEpoch current) prior s2 in
         then_do (appendEpochStateSnapshots now (et_session i) prior s3) (\<lambda>_ s4.
         then_do (publish_switch now i p s4) (\<lambda>_ s5.
         let p' = next_projection now leg_id i p in
         Inr (\<lparr>er_marker = marker, er_projection = p', er_fenced = fst out, er_held = snd out\<rparr>,
              upsertProjectionRow p' s5)))))"

definition transitionRuntimeEpoch ::
  "int \<Rightarrow> (string \<Rightarrow> string) \<Rightarrow> string \<Rightarrow> epoch_input \<Rightarrow> session_store \<Rightarrow> epoch_result store_result" where
  "transitionRuntimeEpoch now uid leg_id i =
     store_transaction (\<lambda>s.
       if trim (et_reason i) = [] then Inl SeInvalidInput
       else case projection_of s (et_session i) of
         None \<Rightarrow> Inl SeNotFound
       | Some p \<Rightarrow>
           (case pj_binding p of
              None \<Rightarrow> Inl SeBindingMismatch
            | Some current \<Rightarrow>
                if pj_backend p \<noteq> Some (rb_backend current) \<or> \<not> samePersistedBinding current (et_expected i)
                then Inl SeBindingMismatch
                else if \<not> replacement_fresh current (et_replacement i) then Inl SeInvalidInput
                else (case operationRow s (et_reset i) of
                        None \<Rightarrow> Inl SeResetUnconfirmed
                      | Some reset \<Rightarrow>
                          if \<not> reset_confirmed i reset then Inl SeResetUnconfirmed
                          else if \<not> (case et_fence i of None \<Rightarrow> True
                                       | Some f \<Rightarrow> fence_matches current (et_replacement i) f)
                          then Inl SeProofMismatch
                          else commit_epoch now uid leg_id i p current reset s)))"

subsection \<open>The reconciliation barrier\<close>

definition reconciliation_row_of :: "session_store \<Rightarrow> string \<Rightarrow> reconciliation_row option" where
  "reconciliation_row_of s sid = find (\<lambda>r. rc_session r = sid) (ss_recs s)"

definition put_reconciliation :: "reconciliation_row \<Rightarrow> session_store \<Rightarrow> session_store" where
  "put_reconciliation r s =
     s\<lparr>ss_recs := (if rc_session r \<in> set (map rc_session (ss_recs s))
                   then map (\<lambda>x. if rc_session x = rc_session r then r else x) (ss_recs s)
                   else ss_recs s @ [r])\<rparr>"

definition startReconciliation :: "int \<Rightarrow> string \<Rightarrow> session_store \<Rightarrow> reconciliation_row store_result" where
  "startReconciliation now sid =
     store_transaction (\<lambda>s.
       let n = (case reconciliation_row_of s sid of None \<Rightarrow> 1 | Some r \<Rightarrow> rc_ordinal r + 1);
           r = \<lparr>rc_session = sid, rc_ordinal = n, rc_state = Reconciling, rc_reason = None, rc_updated = now\<rparr>
       in Inr (r, snd (appendInTransaction now sid ''reconciliation/started'' (JObj [(''ordinal'', JNum n)])
                         ignorable_opts (put_reconciliation r s))))"

fun reconcile_text :: "reconcile_state \<Rightarrow> string" where
  "reconcile_text Reconciling = ''reconciling''"
| "reconcile_text ReconcileReady = ''ready''"
| "reconcile_text ReconcileBlocked = ''blocked''"
| "reconcile_text ReconcileUnknown = ''unknown''"

text \<open>The flag tells an accepted settlement from a superseded one.\<close>

definition settleReconciliation ::
  "int \<Rightarrow> string \<Rightarrow> int \<Rightarrow> reconcile_state \<Rightarrow> string option \<Rightarrow> session_store \<Rightarrow> (bool \<times> reconciliation_row) store_result" where
  "settleReconciliation now sid n st reason =
     store_transaction (\<lambda>s.
       case reconciliation_row_of s sid of
         None \<Rightarrow> Inl SeNotFound
       | Some current \<Rightarrow>
           if rc_ordinal current \<noteq> n then Inr ((False, current), s)
           else let r = current\<lparr>rc_state := st, rc_reason := reason, rc_updated := now\<rparr>
                in Inr ((True, r), snd (appendInTransaction now sid
                     (if st = ReconcileReady then ''reconciliation/completed'' else ''reconciliation/blocked'')
                     (JObj ([(''ordinal'', JNum n), (''state'', JStr (reconcile_text st))] @ text_entry ''reason'' reason))
                     ignorable_opts (put_reconciliation r s))))"

subsection \<open>Deletion\<close>

definition tombstone_of :: "session_store \<Rightarrow> string \<Rightarrow> tombstone_row option" where
  "tombstone_of s sid = find (\<lambda>t. db_session (tb_binding t) = sid) (ss_tombs s)"

definition deleteSessionRows :: "string \<Rightarrow> session_store \<Rightarrow> session_store" where
  "deleteSessionRows sid s =
     s\<lparr>ss_events := filter (\<lambda>e. ev_session e \<noteq> sid) (ss_events s),
       ss_projections := filter (\<lambda>p. pj_id p \<noteq> sid) (ss_projections s),
       ss_queue := filter (\<lambda>q. sq_session q \<noteq> sid) (ss_queue s),
       ss_open := filter (\<lambda>r. fst r \<noteq> sid) (ss_open s),
       ss_intents := filter (\<lambda>i. ri_session i \<noteq> sid) (ss_intents s),
       ss_recs := filter (\<lambda>r. rc_session r \<noteq> sid) (ss_recs s),
       ss_observed := filter (\<lambda>o1. ob_session o1 \<noteq> sid) (ss_observed s),
       ss_read := filter (\<lambda>r. fst r \<noteq> sid) (ss_read s),
       ss_people := filter (\<lambda>p. pe_session p \<noteq> sid) (ss_people s)\<rparr>"

text \<open>What a deletion forgets of the runtime: checkpoints and cursors of the binding.\<close>

definition of_binding :: "deletion_binding \<Rightarrow> string \<Rightarrow> string \<Rightarrow> string \<Rightarrow> string \<Rightarrow> bool" where
  "of_binding b authority dir workspace backend \<longleftrightarrow>
     authority = db_authority b \<and> dir = rl_directory (db_location b)
     \<and> workspace = nullish (rl_workspace (db_location b)) [] \<and> backend = db_backend b"

definition forget_evidence :: "deletion_binding \<Rightarrow> session_store \<Rightarrow> session_store" where
  "forget_evidence b s =
     s\<lparr>ss_checks := filter (\<lambda>c. \<not> of_binding b (ek_authority (ck_key c)) (ek_directory (ck_key c))
                                     (ek_workspace (ck_key c)) (ek_backend (ck_key c))) (ss_checks s),
       ss_cursors := filter (\<lambda>c. \<not> of_binding b (cu_authority (cw_key c)) (cu_directory (cw_key c))
                                     (cu_workspace (cw_key c)) (cu_backend (cw_key c))) (ss_cursors s)\<rparr>"

definition deleteSession :: "string \<Rightarrow> session_store \<Rightarrow> unit store_result" where
  "deleteSession sid = store_transaction (\<lambda>s. Inr ((), deleteSessionRows sid s))"

definition hasDeletionTombstone :: "session_store \<Rightarrow> deletion_binding \<Rightarrow> bool" where
  "hasDeletionTombstone s b \<longleftrightarrow>
     (\<exists>t\<in>set (ss_tombs s).
        db_authority (tb_binding t) = db_authority b
        \<and> rl_directory (db_location (tb_binding t)) = rl_directory (db_location b)
        \<and> nullish (rl_workspace (db_location (tb_binding t))) [] = nullish (rl_workspace (db_location b)) []
        \<and> db_backend (tb_binding t) = db_backend b \<and> tb_retired t = None)"

definition prepareSessionDeletion ::
  "int \<Rightarrow> string \<Rightarrow> deletion_binding \<Rightarrow> replay_policy option \<Rightarrow> session_store \<Rightarrow> (tombstone_row \<times> operation_row) store_result" where
  "prepareSessionDeletion now uuid b replay =
     store_transaction (\<lambda>s.
       if tombstone_of s (db_session b) \<noteq> None then Inl SeConflict
       else then_do (insertPreparedOperation now (db_session b) SessionDelete (nullish replay ReplayNever) uuid s)
         (\<lambda>r s1.
           if \<exists>t\<in>set (ss_tombs s1). tb_operation t = ro_id r then Inl SeConstraint
           else let t = \<lparr>tb_binding = b, tb_operation = ro_id r, tb_created = now, tb_retired = None\<rparr>
                in Inr ((t, r), forget_evidence b
                     (deleteSessionRows (db_session b) (s1\<lparr>ss_tombs := ss_tombs s1 @ [t]\<rparr>)))))"

definition retireDeletionTombstone ::
  "int \<Rightarrow> string \<Rightarrow> retirement \<Rightarrow> session_store \<Rightarrow> tombstone_row store_result" where
  "retireDeletionTombstone now sid how =
     store_transaction (\<lambda>s.
       case tombstone_of s sid of
         None \<Rightarrow> Inl SeNotFound
       | Some t \<Rightarrow>
           if tb_retired t \<noteq> None then Inr (t, s)
           else if how = RetireConfirmed
                   \<and> map_option ro_state (operationRow s (tb_operation t)) \<noteq> Some OpConfirmed
           then Inl SeInvalidTransition
           else if (case how of RetirePurged policy \<Rightarrow> trim policy = [] | RetireConfirmed \<Rightarrow> False)
           then Inl SeInvalidInput
           else let f = (\<lambda>x. x\<lparr>tb_retired := Some (now, how)\<rparr>)
                in Inr (f t, s\<lparr>ss_tombs := map (\<lambda>x. if db_session (tb_binding x) = sid \<and> tb_retired x = None
                                                    then f x else x) (ss_tombs s)\<rparr>))"

end
