(* ===== verification/SessionBatch.thy ===== *)
theory SessionBatch
  imports SessionStore
begin

text \<open>
  Writing several events at once, copying logs and the read positions
  (packages/session/src/index.ts): \<open>appendBatch\<close>, \<open>appendBatches\<close>, \<open>copyTo\<close>,
  \<open>publishChildSession\<close>, \<open>setReadCursor\<close> and the personal state of a session.
\<close>

text \<open>Runs a step for every element in order and collects the results.\<close>

fun map_do :: "('a \<Rightarrow> session_store \<Rightarrow> 'b store_result) \<Rightarrow> 'a list \<Rightarrow> session_store \<Rightarrow> 'b list store_result" where
  "map_do f [] s = Inr ([], s)"
| "map_do f (x # xs) s =
     then_do (f x s) (\<lambda>y s1. then_do (map_do f xs s1) (\<lambda>ys s2. Inr (y # ys, s2)))"

subsection \<open>Batches\<close>

record timed_input =
  ti_event :: event_input
  ti_time :: "int option"

definition set_time :: "string \<Rightarrow> int \<Rightarrow> int \<Rightarrow> session_store \<Rightarrow> session_store" where
  "set_time sid n t s =
     s\<lparr>ss_events := map (\<lambda>e. if ev_session e = sid \<and> ev_seq e = n then e\<lparr>ev_time := t\<rparr> else e) (ss_events s)\<rparr>"

definition append_timed :: "int \<Rightarrow> string \<Rightarrow> timed_input \<Rightarrow> session_store \<Rightarrow> session_event \<times> session_store" where
  "append_timed now sid i s =
     (let (e, s1) = appendInputInTransaction now sid (ti_event i) s in
      case ti_time i of
        None \<Rightarrow> (e, s1)
      | Some t \<Rightarrow> (e\<lparr>ev_time := t\<rparr>, set_time sid (ev_seq e) t s1))"

definition latestSeq :: "session_store \<Rightarrow> string \<Rightarrow> int" where
  "latestSeq s sid = nullish (sql_max (map ev_seq (session_events s sid))) 0"

definition appendBatchInTransaction ::
  "int \<Rightarrow> string \<Rightarrow> timed_input list \<Rightarrow> int option \<Rightarrow> session_store \<Rightarrow> (session_event list \<times> int) store_result" where
  "appendBatchInTransaction now sid inputs expected s =
     (if expected \<noteq> None \<and> expected \<noteq> Some (latestSeq s sid) then Inl SeConflict
      else then_do (map_do (\<lambda>i s. Inr (append_timed now sid i s)) inputs s)
             (\<lambda>es s1. Inr ((es, latestSeq s sid), s1)))"

definition max_batch :: nat where
  "max_batch = 2000"

text \<open>\<open>seq = MAX(session_read.seq, excluded.seq)\<close>\<close>

definition raise_read :: "string \<Rightarrow> int \<Rightarrow> (string \<times> int) list \<Rightarrow> (string \<times> int) list" where
  "raise_read sid n rows =
     (if sid \<in> fst ` set rows then map (\<lambda>r. if fst r = sid then (sid, max (snd r) n) else r) rows
      else rows @ [(sid, n)])"

definition appendBatch ::
  "int \<Rightarrow> string \<Rightarrow> timed_input list \<Rightarrow> projection option \<Rightarrow> int option \<Rightarrow> bool \<Rightarrow> session_store \<Rightarrow>
   session_event list store_result" where
  "appendBatch now sid inputs proj expected mark s =
     (if max_batch < length inputs \<or> (\<exists>p\<in>set_option proj. pj_id p \<noteq> sid) then Inl SeInvalidInput
      else store_transaction (\<lambda>s.
        then_do (appendBatchInTransaction now sid inputs expected s) (\<lambda>(es, before) s1.
          let s2 = (case proj of None \<Rightarrow> s1 | Some p \<Rightarrow> upsertProjectionRow p s1);
              read = (if es = [] then before else ev_seq (last es))
          in Inr (es, if mark then s2\<lparr>ss_read := raise_read sid read (ss_read s2)\<rparr> else s2))) s)"

record batch_entry =
  be_session :: string
  be_events :: "timed_input list"
  be_expected :: int
  be_patch :: "projection \<Rightarrow> projection"

definition publish_entry ::
  "int \<Rightarrow> batch_entry \<Rightarrow> session_store \<Rightarrow> (session_event list \<times> projection) store_result" where
  "publish_entry now b s =
     (case projection_of s (be_session b) of
        None \<Rightarrow> Inl SeNotFound
      | Some p \<Rightarrow>
          then_do (appendBatchInTransaction now (be_session b) (be_events b) (Some (be_expected b)) s)
            (\<lambda>(es, before) s1.
              if pj_id (be_patch b p) \<noteq> be_session b then Inl SeInvalidInput
              else Inr ((es, be_patch b p), upsertProjectionRow (be_patch b p) s1)))"

definition appendBatches ::
  "int \<Rightarrow> batch_entry list \<Rightarrow> session_store \<Rightarrow> (session_event list \<times> projection) list store_result" where
  "appendBatches now entries s =
     (if max_batch < length entries \<or> \<not> distinct (map be_session entries)
         \<or> (\<exists>b\<in>set entries. max_batch < length (be_events b)) then Inl SeInvalidInput
      else store_transaction (map_do (publish_entry now) entries) s)"

subsection \<open>Copies\<close>

text \<open>\<open>INSERT INTO events\<close> with a sequence number that the caller counts.\<close>

definition insert_event :: "session_event \<Rightarrow> session_store \<Rightarrow> session_store" where
  "insert_event e s =
     s\<lparr>ss_events := ss_events s @ [e],
       ss_open := applyAttention (ev_session e) (ev_type e) (ev_data e) (ss_open s)\<rparr>"

fun renumber :: "string \<Rightarrow> int \<Rightarrow> session_event list \<Rightarrow> session_event list" where
  "renumber sid n [] = []"
| "renumber sid n (e # es) = e\<lparr>ev_session := sid, ev_seq := n + 1\<rparr> # renumber sid (n + 1) es"

definition copyTo :: "string \<Rightarrow> string \<Rightarrow> int option \<Rightarrow> session_store \<Rightarrow> unit store_result" where
  "copyTo src dst through =
     store_transaction (\<lambda>s.
       let rows = sort_key ev_seq (filter (\<lambda>e. ev_seq e \<le> nullish through 9007199254740991) (session_events s src))
       in Inr ((), fold insert_event (renumber dst (latestSeq s dst) rows) s))"

record child_event =
  ce_type :: string
  ce_data :: json
  ce_time :: int
  ce_opts :: event_opts
  ce_source :: "int option"

definition child_row :: "string \<Rightarrow> child_event \<Rightarrow> session_event" where
  "child_row sid c =
     \<lparr>ev_session = sid, ev_seq = 0, ev_time = ce_time c, ev_type = ce_type c, ev_data = ce_data c,
      ev_opts = (ce_opts c)\<lparr>eo_sources := map_option (\<lambda>n. [n]) (ce_source c)\<rparr>\<rparr>"

text \<open>The lineage marker is inserted without touching the open requests.\<close>

definition publishChildSession ::
  "int \<Rightarrow> string \<Rightarrow> child_event list \<Rightarrow> projection \<Rightarrow> string \<Rightarrow> json \<Rightarrow> bool \<Rightarrow> session_store \<Rightarrow>
   (session_event list \<times> session_event) store_result" where
  "publishChildSession now child es proj ty data ignorable =
     store_transaction (\<lambda>s.
       if 0 < latestSeq s child then Inl SeConflict
       else let rows = renumber child 0 (map (child_row child) es);
                marker = \<lparr>ev_session = child, ev_seq = int (length es) + 1, ev_time = now, ev_type = ty, ev_data = data,
                          ev_opts = plain_opts\<lparr>eo_ignorable := ignorable\<rparr>\<rparr>;
                s1 = fold insert_event rows s
            in Inr ((rows, marker),
                    upsertProjectionRow proj (s1\<lparr>ss_events := ss_events s1 @ [marker]\<rparr>)))"

subsection \<open>Read positions and personal state\<close>

definition read_of :: "session_store \<Rightarrow> string \<Rightarrow> int option" where
  "read_of s sid = map_of (ss_read s) sid"

definition put_read :: "string \<Rightarrow> int \<Rightarrow> (string \<times> int) list \<Rightarrow> (string \<times> int) list" where
  "put_read sid n rows =
     (if sid \<in> fst ` set rows then map (\<lambda>r. if fst r = sid then (sid, n) else r) rows else rows @ [(sid, n)])"

definition setReadCursor :: "string \<Rightarrow> int \<Rightarrow> session_store \<Rightarrow> bool store_result" where
  "setReadCursor sid n s =
     (if \<not> safe_integer (Some n) \<or> n \<le> 0 then Inr (False, s)
      else store_transaction (\<lambda>s.
        if (\<exists>m\<in>set_option (read_of s sid). n \<le> m) then Inr (False, s)
        else Inr (True, s\<lparr>ss_read := put_read sid n (ss_read s)\<rparr>)) s)"

definition person_of :: "session_store \<Rightarrow> string \<Rightarrow> string \<Rightarrow> person_row option" where
  "person_of s sid uid = find (\<lambda>p. pe_session p = sid \<and> pe_user p = uid) (ss_people s)"

definition fresh_person :: "string \<Rightarrow> string \<Rightarrow> person_row" where
  "fresh_person sid uid = \<lparr>pe_session = sid, pe_user = uid, pe_read = None, pe_draft = None,
     pe_draft_updated = None, pe_pin = None, pe_mention = None, pe_muted = None\<rparr>"

text \<open>\<open>INSERT \<dots> ON CONFLICT(session_id, user_id) DO UPDATE\<close>\<close>

definition put_person ::
  "string \<Rightarrow> string \<Rightarrow> (person_row \<Rightarrow> person_row) \<Rightarrow> session_store \<Rightarrow> session_store" where
  "put_person sid uid f s =
     (if person_of s sid uid = None then s\<lparr>ss_people := ss_people s @ [f (fresh_person sid uid)]\<rparr>
      else s\<lparr>ss_people := map (\<lambda>p. if pe_session p = sid \<and> pe_user p = uid then f p else p) (ss_people s)\<rparr>)"

definition setPersonReadCursor :: "string \<Rightarrow> string \<Rightarrow> int \<Rightarrow> session_store \<Rightarrow> bool store_result" where
  "setPersonReadCursor sid uid n s =
     (if uid = [] \<or> \<not> safe_integer (Some n) \<or> n \<le> 0 then Inr (False, s)
      else store_transaction (\<lambda>s.
        if (\<exists>p\<in>set_option (person_of s sid uid). \<exists>m\<in>set_option (pe_read p). n \<le> m) then Inr (False, s)
        else Inr (True, put_person sid uid (\<lambda>p. p\<lparr>pe_read := Some n\<rparr>) s)) s)"

definition savePersonDraft :: "string \<Rightarrow> string \<Rightarrow> string \<Rightarrow> int \<Rightarrow> session_store \<Rightarrow> unit store_result" where
  "savePersonDraft sid uid draft at1 s =
     (if uid = [] \<or> \<not> safe_integer (Some at1) then Inl SeInvalidInput
      else Inr ((), put_person sid uid
             (\<lambda>p. p\<lparr>pe_draft := (if draft = [] then None else Some draft), pe_draft_updated := Some at1\<rparr>) s))"

definition setPersonPin :: "string \<Rightarrow> string \<Rightarrow> int option \<Rightarrow> session_store \<Rightarrow> unit store_result" where
  "setPersonPin sid uid pos s =
     (if uid = [] then Inl SeInvalidInput
      else Inr ((), put_person sid uid (\<lambda>p. p\<lparr>pe_pin := Some (nullish pos (- 1))\<rparr>) s))"

definition setPersonMentionSeq :: "string \<Rightarrow> string \<Rightarrow> int \<Rightarrow> session_store \<Rightarrow> unit store_result" where
  "setPersonMentionSeq sid uid n s =
     (if uid = [] \<or> \<not> safe_integer (Some n) \<or> n \<le> 0 then Inl SeInvalidInput
      else Inr ((), put_person sid uid
             (\<lambda>p. p\<lparr>pe_mention := (case pe_mention p of None \<Rightarrow> Some n
                                     | Some m \<Rightarrow> if m < n then Some n else Some m)\<rparr>) s))"

definition setPersonMute :: "string \<Rightarrow> string \<Rightarrow> bool \<Rightarrow> session_store \<Rightarrow> unit store_result" where
  "setPersonMute sid uid muted s =
     (if uid = [] then Inl SeInvalidInput
      else Inr ((), put_person sid uid (\<lambda>p. p\<lparr>pe_muted := Some muted\<rparr>) s))"

text \<open>Unread messages of one person: \<open>unreadFor\<close> for one session.\<close>

definition read_position :: "session_store \<Rightarrow> string \<Rightarrow> string \<Rightarrow> int option" where
  "read_position s sid uid =
     (case person_of s sid uid of
        Some p \<Rightarrow> (case pe_read p of Some n \<Rightarrow> Some n | None \<Rightarrow> read_of s sid)
      | None \<Rightarrow> read_of s sid)"

definition author_of :: "session_event \<Rightarrow> string" where
  "author_of e =
     (case ev_field e ''author'' of None \<Rightarrow> [] | Some a \<Rightarrow> nullish (json_str (json_field a ''userId'')) [])"

definition unread_of :: "(projection \<Rightarrow> bool) \<Rightarrow> session_store \<Rightarrow> string \<Rightarrow> string \<Rightarrow> nat" where
  "unread_of conversation s uid sid =
     (let pos = read_position s sid uid;
          es = session_events s sid
      in (case pos of None \<Rightarrow> 0
          | Some n \<Rightarrow> length (filter (\<lambda>e. ev_type e = ''assistant/message'' \<and> n < ev_seq e) es))
         + (if (\<exists>p\<in>set_option (projection_of s sid). conversation p)
            then length (filter (\<lambda>e. ev_type e = ''person/message'' \<and> nullish pos 0 < ev_seq e
                                   \<and> author_of e \<noteq> uid) es)
            else 0))"

end
