(* ===== verification/SessionObserve.thy ===== *)
theory SessionObserve
  imports SessionEpoch SessionBatch
begin

text \<open>
  Observations of a runtime become events of the log (packages/session/src/index.ts,
  \<open>ingestObservation\<close> and \<open>ingestSnapshot\<close>): a revision that is already recorded is a
  duplicate, a state rank that is not newer than the checkpoint appends nothing, and an
  observation is accepted only from the current binding and the current reconciliation.
\<close>

record observation_identity =
  oi_authority :: string
  oi_generation :: int
  oi_location :: runtime_location
  oi_backend :: string
  oi_kind :: artifact_kind
  oi_entity :: string
  oi_revision :: string

record observation_input =
  on_session :: string
  on_identity :: observation_identity
  on_ordinal :: int
  on_events :: "event_input list"
  on_checkpoint :: "(int option \<times> json) option" \<comment> \<open>\<open>stateRank\<close> and \<open>value\<close>\<close>
  on_cursor :: "(cursor_key \<times> string) option"

datatype ingest_result =
    Applied "session_event list" "checkpoint_row option"
  | Duplicate "session_event list" "checkpoint_row option"

definition entityKeyArgs :: "observation_identity \<Rightarrow> entity_key" where
  "entityKeyArgs i = \<lparr>ek_authority = oi_authority i, ek_directory = rl_directory (oi_location i),
     ek_workspace = nullish (rl_workspace (oi_location i)) [], ek_backend = oi_backend i,
     ek_kind = oi_kind i, ek_entity = oi_entity i\<rparr>"

definition checkpointRow :: "session_store \<Rightarrow> entity_key \<Rightarrow> checkpoint_row option" where
  "checkpointRow s k = find (\<lambda>c. ck_key c = k) (ss_checks s)"

definition observationCheckpoints :: "session_store \<Rightarrow> string \<Rightarrow> runtime_location \<Rightarrow> string \<Rightarrow> checkpoint_row list" where
  "observationCheckpoints s authority loc backend =
     filter (\<lambda>c. ek_authority (ck_key c) = authority \<and> ek_directory (ck_key c) = rl_directory loc
                 \<and> ek_workspace (ck_key c) = nullish (rl_workspace loc) [] \<and> ek_backend (ck_key c) = backend)
       (ss_checks s)"

definition observationCursor :: "session_store \<Rightarrow> cursor_key \<Rightarrow> string option" where
  "observationCursor s k = map_option cw_after (find (\<lambda>c. cw_key c = k) (ss_cursors s))"

definition upsertObservationCursor :: "int \<Rightarrow> cursor_key \<Rightarrow> string \<Rightarrow> session_store \<Rightarrow> session_store" where
  "upsertObservationCursor now k after_text s =
     (if find (\<lambda>c. cw_key c = k) (ss_cursors s) = None
      then s\<lparr>ss_cursors := ss_cursors s @ [\<lparr>cw_key = k, cw_after = after_text, cw_updated = now\<rparr>]\<rparr>
      else s\<lparr>ss_cursors := map (\<lambda>c. if cw_key c = k then c\<lparr>cw_after := after_text, cw_updated := now\<rparr> else c)
                             (ss_cursors s)\<rparr>)"

definition move_cursor :: "int \<Rightarrow> observation_input \<Rightarrow> session_store \<Rightarrow> session_store" where
  "move_cursor now i s =
     (case on_cursor i of None \<Rightarrow> s | Some (k, a) \<Rightarrow> upsertObservationCursor now k a s)"

definition eventsAtSeqs :: "session_store \<Rightarrow> string \<Rightarrow> int list \<Rightarrow> session_event list" where
  "eventsAtSeqs s sid seqs = sort_key ev_seq (filter (\<lambda>e. ev_seq e \<in> set seqs) (session_events s sid))"

definition validateObservationInput :: "observation_input \<Rightarrow> bool" where
  "validateObservationInput i \<longleftrightarrow>
     safe_integer (Some (on_ordinal i)) \<and> 0 < on_ordinal i
     \<and> safe_integer (Some (oi_generation (on_identity i))) \<and> 0 \<le> oi_generation (on_identity i)"

text \<open>The binding and the reconciliation that the observation must come from.\<close>

definition binding_matches :: "runtime_binding \<Rightarrow> observation_identity \<Rightarrow> bool" where
  "binding_matches b i \<longleftrightarrow>
     rb_authority b = oi_authority i \<and> rb_generation b = oi_generation i
     \<and> rl_directory (rb_location b) = rl_directory (oi_location i)
     \<and> nullish (rl_workspace (rb_location b)) [] = nullish (rl_workspace (oi_location i)) []
     \<and> rb_backend b = oi_backend i"

definition assertObservationFence :: "observation_input \<Rightarrow> session_store \<Rightarrow> bool" where
  "assertObservationFence i s \<longleftrightarrow>
     (case projection_of s (on_session i) of
        None \<Rightarrow> False
      | Some p \<Rightarrow>
          (case pj_binding p of
             None \<Rightarrow> False
           | Some b \<Rightarrow> pj_backend p = Some (rb_backend b) \<and> binding_matches b (on_identity i)))
     \<and> map_option rc_ordinal (reconciliation_row_of s (on_session i)) = Some (on_ordinal i)"

definition binding_tombstoned :: "observation_identity \<Rightarrow> session_store \<Rightarrow> bool" where
  "binding_tombstoned i s \<longleftrightarrow>
     (\<exists>t\<in>set (ss_tombs s).
        db_authority (tb_binding t) = oi_authority i
        \<and> rl_directory (db_location (tb_binding t)) = rl_directory (oi_location i)
        \<and> nullish (rl_workspace (db_location (tb_binding t))) [] = nullish (rl_workspace (oi_location i)) []
        \<and> db_backend (tb_binding t) = oi_backend i \<and> tb_retired t = None)"

definition is_observed :: "entity_key \<Rightarrow> string \<Rightarrow> observation_row \<Rightarrow> bool" where
  "is_observed k rev_text x \<longleftrightarrow> ob_key x = k \<and> ob_revision x = rev_text"

definition observed :: "session_store \<Rightarrow> entity_key \<Rightarrow> string \<Rightarrow> observation_row option" where
  "observed s k rev_text = find (is_observed k rev_text) (ss_observed s)"

text \<open>
  \<open>ORDER BY observed_at DESC LIMIT 1\<close>. The database leaves the order of rows of one
  instant open; the model takes the first one.
\<close>

definition latest_observation :: "session_store \<Rightarrow> entity_key \<Rightarrow> observation_row option" where
  "latest_observation s k =
     (case filter (\<lambda>x. ob_key x = k) (ss_observed s) of
        [] \<Rightarrow> None
      | x # xs \<Rightarrow> Some (fold (\<lambda>y m. if ob_at m < ob_at y then y else m) xs x))"

definition new_observation :: "int \<Rightarrow> observation_input \<Rightarrow> int list \<Rightarrow> observation_row" where
  "new_observation now i seqs =
     \<lparr>ob_key = entityKeyArgs (on_identity i), ob_revision = oi_revision (on_identity i),
      ob_session = on_session i, ob_generation = oi_generation (on_identity i),
      ob_ordinal = on_ordinal i, ob_seqs = seqs, ob_at = now\<rparr>"

definition add_observation :: "observation_row \<Rightarrow> session_store \<Rightarrow> session_store" where
  "add_observation x s = s\<lparr>ss_observed := ss_observed s @ [x]\<rparr>"

text \<open>\<open>claimExisting\<close>: the revision is recorded with the events of the latest one.\<close>

definition claimExisting :: "int \<Rightarrow> observation_input \<Rightarrow> checkpoint_row \<Rightarrow> session_store \<Rightarrow> ingest_result store_result" where
  "claimExisting now i prior s =
     (let latest = latest_observation s (entityKeyArgs (on_identity i));
          seqs = (case latest of None \<Rightarrow> [] | Some x \<Rightarrow> ob_seqs x);
          s1 = move_cursor now i (add_observation (new_observation now i seqs) s)
      in Inr (Duplicate (case latest of None \<Rightarrow> [] | Some x \<Rightarrow> eventsAtSeqs s1 (ob_session x) seqs) (Some prior), s1))"

definition put_checkpoint :: "int \<Rightarrow> observation_input \<Rightarrow> session_store \<Rightarrow> session_store" where
  "put_checkpoint now i s =
     (case on_checkpoint i of
        None \<Rightarrow> s
      | Some (rank, v) \<Rightarrow>
          (let k = entityKeyArgs (on_identity i);
               row = \<lparr>ck_key = k, ck_revision = oi_revision (on_identity i), ck_rank = rank,
                      ck_value = v, ck_updated = now\<rparr>
           in if checkpointRow s k = None then s\<lparr>ss_checks := ss_checks s @ [row]\<rparr>
              else s\<lparr>ss_checks := map (\<lambda>c. if ck_key c = k then row else c) (ss_checks s)\<rparr>))"

definition set_seqs :: "entity_key \<Rightarrow> string \<Rightarrow> int list \<Rightarrow> session_store \<Rightarrow> session_store" where
  "set_seqs k rev_text seqs s =
     s\<lparr>ss_observed := map (\<lambda>x. if is_observed k rev_text x then x\<lparr>ob_seqs := seqs\<rparr> else x) (ss_observed s)\<rparr>"

fun append_inputs :: "int \<Rightarrow> string \<Rightarrow> event_input list \<Rightarrow> session_store \<Rightarrow> session_event list \<times> session_store" where
  "append_inputs now sid [] s = ([], s)"
| "append_inputs now sid (i # is) s =
     (let (e, s1) = appendInputInTransaction now sid i s;
          (es, s2) = append_inputs now sid is s1
      in (e # es, s2))"

definition apply_observation :: "int \<Rightarrow> observation_input \<Rightarrow> session_store \<Rightarrow> ingest_result store_result" where
  "apply_observation now i s =
     (let k = entityKeyArgs (on_identity i);
          s1 = add_observation (new_observation now i []) s;
          (es, s2) = append_inputs now (on_session i) (on_events i) s1;
          s3 = move_cursor now i (put_checkpoint now i s2);
          s4 = set_seqs k (oi_revision (on_identity i)) (map ev_seq es) s3
      in Inr (Applied es (checkpointRow s4 k), s4))"

text \<open>How the state rank of the input compares with the checkpoint.\<close>

datatype rank_verdict = RankNewer | RankOlder | RankSame

definition rank_verdict_of :: "observation_input \<Rightarrow> checkpoint_row option \<Rightarrow> rank_verdict" where
  "rank_verdict_of i prior =
     (case (on_checkpoint i, prior) of
        (Some (Some n, v), Some c) \<Rightarrow>
          (case ck_rank c of
             None \<Rightarrow> RankNewer
           | Some m \<Rightarrow> if n < m then RankOlder else if n = m then RankSame else RankNewer)
      | _ \<Rightarrow> RankNewer)"

definition same_value :: "observation_input \<Rightarrow> checkpoint_row option \<Rightarrow> bool" where
  "same_value i prior \<longleftrightarrow> map_option snd (on_checkpoint i) = map_option ck_value prior"

definition ingestObservationInTransaction ::
  "int \<Rightarrow> observation_input \<Rightarrow> session_store \<Rightarrow> ingest_result store_result" where
  "ingestObservationInTransaction now i s =
     (let k = entityKeyArgs (on_identity i); prior = checkpointRow s k in
      if binding_tombstoned (on_identity i) s then Inl SeTombstoned
      else if \<not> assertObservationFence i s then Inl SeStaleEvidence
      else case observed s k (oi_revision (on_identity i)) of
        Some x \<Rightarrow> (let s1 = move_cursor now i s in Inr (Duplicate (eventsAtSeqs s1 (ob_session x) (ob_seqs x)) prior, s1))
      | None \<Rightarrow>
          (case rank_verdict_of i prior of
             RankNewer \<Rightarrow> apply_observation now i s
           | RankOlder \<Rightarrow> claimExisting now i (the prior) s
           | RankSame \<Rightarrow> if same_value i prior then claimExisting now i (the prior) s
                        else Inl SeUncertainObservation))"

definition ingestObservation :: "int \<Rightarrow> observation_input \<Rightarrow> session_store \<Rightarrow> ingest_result store_result" where
  "ingestObservation now i s =
     (if \<not> validateObservationInput i then Inl SeInvalidInput
      else store_transaction (ingestObservationInTransaction now i) s)"

definition ingestSnapshot :: "int \<Rightarrow> string \<Rightarrow> observation_input list \<Rightarrow> session_store \<Rightarrow> ingest_result list store_result" where
  "ingestSnapshot now sid is s =
     (if \<exists>i\<in>set is. on_session i \<noteq> sid then Inl SeInvalidInput
      else if \<exists>i\<in>set is. \<not> validateObservationInput i then Inl SeInvalidInput
      else store_transaction (map_do (ingestObservationInTransaction now) is) s)"

end
