(* ===== verification/SessionRules.thy ===== *)
theory SessionRules
  imports SessionObserve
begin

text \<open>
  What every operation of the session store keeps. The locale \<open>store_invariant\<close> asks of a
  predicate that the statements an operation is made of (an append, an insertion, an
  update of one row, \<dots>) keep it, and derives once that every operation does, whatever it
  returns. It is interpreted for the log with its open requests, for the rows of the
  operations together with how they may evolve, and for the queue with its reservations.
\<close>

subsection \<open>Results\<close>

definition keeps :: "(session_store \<Rightarrow> bool) \<Rightarrow> 'a store_result \<Rightarrow> bool" where
  "keeps P r \<longleftrightarrow> (case r of Inl e \<Rightarrow> True | Inr (x, s) \<Rightarrow> P s)"

lemma keeps_simps [simp]:
  "keeps P (Inl e)"
  "keeps P (Inr (x, s)) \<longleftrightarrow> P s"
  by (simp_all add: keeps_def)

lemma keepsD: "keeps P r \<Longrightarrow> r = Inr (x, s) \<Longrightarrow> P s"
  by simp

lemma then_do_simps [simp]:
  "then_do (Inl e) f = Inl e"
  "then_do (Inr (x, s)) f = f x s"
  by (simp_all add: then_do_def)

lemma keeps_then_do:
  assumes "keeps P r" "\<And>x s. r = Inr (x, s) \<Longrightarrow> P s \<Longrightarrow> keeps Q (f x s)"
  shows "keeps Q (then_do r f)"
proof (cases r)
  case (Inr p)
  then show ?thesis using assms by (cases p) auto
qed simp

lemma then_do_InrE:
  assumes "then_do r f = Inr (y, t)"
  obtains x s where "r = Inr (x, s)" "f x s = Inr (y, t)"
  using assms by (cases r) (auto simp: then_do_def)

lemma transaction_InrD: "store_transaction run s = Inr (x, t) \<Longrightarrow> run s = Inr (x, t)"
  by (simp add: store_transaction_def split: if_splits)

lemma keeps_transaction: "keeps P (run s) \<Longrightarrow> keeps P (store_transaction run s)"
  by (simp add: store_transaction_def)

lemma keeps_each_row:
  assumes "\<And>r s. r \<in> set rs \<Longrightarrow> P s \<Longrightarrow> keeps P (f r s)" and "P s"
  shows "keeps P (each_row f rs s)"
  using assms
proof (induction rs arbitrary: s)
  case (Cons r rs)
  show ?case unfolding each_row.simps
  proof (rule keeps_then_do [OF Cons.prems(1) [OF _ Cons.prems(2)]])
    fix x s1 assume "P s1"
    then have "keeps P (each_row f rs s1)" using Cons by simp
    then show "keeps P (then_do (each_row f rs s1)
        (\<lambda>xs s2. Inr (case x of None \<Rightarrow> xs | Some y \<Rightarrow> y # xs, s2)))"
      by (rule keeps_then_do) simp
  qed simp
qed simp

subsection \<open>How a row may evolve\<close>

definition settled :: "op_state \<Rightarrow> bool" where
  "settled st \<longleftrightarrow> st \<in> {OpConfirmed, OpRejected, OpNotApplied, OpFenced}"

definition op_evolves :: "operation_row \<Rightarrow> operation_row \<Rightarrow> bool" where
  "op_evolves r r' \<longleftrightarrow>
     ro_id r' = ro_id r \<and> ro_session r' = ro_session r \<and> ro_ordinal r' = ro_ordinal r
     \<and> ro_kind r' = ro_kind r \<and> ro_replay r' = ro_replay r \<and> ro_created r' = ro_created r
     \<and> (settled (ro_state r) \<longrightarrow> r' = r)
     \<and> (ro_state r' = OpPrepared \<longrightarrow> ro_state r = OpPrepared)
     \<and> (ro_replay r = ReplayNever \<and> ro_state r = OpUnknown \<longrightarrow> ro_state r' \<noteq> OpExecuting)"

lemma op_evolves_refl [simp]: "op_evolves r r"
  by (simp add: op_evolves_def)

lemma op_evolves_trans: "op_evolves r r' \<Longrightarrow> op_evolves r' r'' \<Longrightarrow> op_evolves r r''"
  unfolding op_evolves_def by (cases "ro_state r'") (auto simp: settled_def)

lemma op_evolves_owner: "ro_state r = OpPrepared \<Longrightarrow> op_evolves r (r\<lparr>ro_owner := n\<rparr>)"
  by (simp add: op_evolves_def settled_def)

lemma op_evolves_claim:
  "ro_state r = OpPrepared \<or> ro_state r = OpUnknown \<and> ro_replay r = ReplaySameId c \<Longrightarrow>
   op_evolves r (r\<lparr>ro_state := OpExecuting, ro_updated := now\<rparr>)"
  by (auto simp: op_evolves_def settled_def)

lemma op_evolves_settle: "transition_allowed (ro_state r) st \<Longrightarrow> op_evolves r (settle_row now st r)"
  by (cases st) (auto simp: op_evolves_def settled_def settle_row_def)

lemma op_evolves_interrupt: "ro_state r = OpExecuting \<Longrightarrow> op_evolves r (interrupt_row now r)"
  by (auto simp: op_evolves_def settled_def interrupt_row_def)

lemma op_evolves_retire:
  "\<not> settled (ro_state r) \<Longrightarrow> st \<noteq> OpPrepared \<Longrightarrow> st \<noteq> OpExecuting \<Longrightarrow> op_evolves r (retire_row now st c m r)"
  by (simp add: op_evolves_def retire_row_def)

subsection \<open>Statements leave the other tables alone\<close>

lemma append_frame [simp]:
  "ss_ops (snd (appendInTransaction now sid ty data opts s)) = ss_ops s"
  "ss_queue (snd (appendInTransaction now sid ty data opts s)) = ss_queue s"
  "ss_intents (snd (appendInTransaction now sid ty data opts s)) = ss_intents s"
  "ss_projections (snd (appendInTransaction now sid ty data opts s)) = ss_projections s"
  "ss_tombs (snd (appendInTransaction now sid ty data opts s)) = ss_tombs s"
  "ss_recs (snd (appendInTransaction now sid ty data opts s)) = ss_recs s"
  "ss_closed (snd (appendInTransaction now sid ty data opts s)) = ss_closed s"
  by (simp_all add: appendInTransaction_def Let_def)

lemma mutation_frame [simp]:
  "ss_ops (snd (appendMutationState now r ty x s)) = ss_ops s"
  "ss_queue (snd (appendMutationState now r ty x s)) = ss_queue s"
  "ss_intents (snd (appendMutationState now r ty x s)) = ss_intents s"
  "ss_projections (snd (appendMutationState now r ty x s)) = ss_projections s"
  "ss_tombs (snd (appendMutationState now r ty x s)) = ss_tombs s"
  "ss_closed (snd (appendMutationState now r ty x s)) = ss_closed s"
  by (simp_all add: appendMutationState_def Let_def split_beta)

lemma update_op_frame [simp]:
  "ss_queue (update_op oid f s) = ss_queue s"
  "ss_intents (update_op oid f s) = ss_intents s"
  "ss_events (update_op oid f s) = ss_events s"
  "ss_open (update_op oid f s) = ss_open s"
  "ss_projections (update_op oid f s) = ss_projections s"
  "ss_tombs (update_op oid f s) = ss_tombs s"
  by (simp_all add: update_op_def)

lemma set_owner_frame [simp]:
  "ss_queue (set_owner oid n s) = ss_queue s"
  "ss_intents (set_owner oid n s) = ss_intents s"
  "ss_events (set_owner oid n s) = ss_events s"
  "ss_open (set_owner oid n s) = ss_open s"
  "ss_projections (set_owner oid n s) = ss_projections s"
  by (simp_all add: set_owner_def)

lemma upsert_frame [simp]:
  "ss_ops (upsertProjectionRow p s) = ss_ops s"
  "ss_queue (upsertProjectionRow p s) = ss_queue s"
  "ss_intents (upsertProjectionRow p s) = ss_intents s"
  "ss_events (upsertProjectionRow p s) = ss_events s"
  "ss_open (upsertProjectionRow p s) = ss_open s"
  by (simp_all add: upsertProjectionRow_def)

lemma operationRow_cong: "ss_ops s = ss_ops t \<Longrightarrow> operationRow s oid = operationRow t oid"
  by (simp add: operationRow_def)

lemma operationRow_frame [simp]:
  "operationRow (snd (appendInTransaction now sid ty data opts s)) oid = operationRow s oid"
  "operationRow (snd (appendMutationState now r ty x s)) oid = operationRow s oid"
  "operationRow (upsertProjectionRow p s) oid = operationRow s oid"
  by (rule operationRow_cong; simp)+

lemma operationRow_id: "operationRow s oid = Some r \<Longrightarrow> ro_id r = oid \<and> r \<in> set (ss_ops s)"
  by (auto simp: operationRow_def dest: find_SomeD)

lemma operationRow_snoc:
  "operationRow (s\<lparr>ss_ops := ss_ops s @ [r]\<rparr>) oid =
     (case operationRow s oid of Some x \<Rightarrow> Some x | None \<Rightarrow> if ro_id r = oid then Some r else None)"
  by (simp add: operationRow_def find_append split: option.split)

lemma insertPrepared_InrD:
  assumes "insertPreparedOperation now sid kind replay oid s = Inr (r, t)"
  shows "operationRow s oid = None" "ro_id r = oid" "ro_state r = OpPrepared" "ro_session r = sid"
    "ro_kind r = kind" "ro_replay r = replay" "t = s\<lparr>ss_ops := ss_ops s @ [r]\<rparr>"
    "ro_ordinal r = nullish (sql_max (map ro_ordinal (session_ops s sid))) 0 + 1"
  using assms by (auto simp: insertPreparedOperation_def Let_def split: if_splits)

lemma inserted_row:
  "insertPreparedOperation now sid kind replay oid s = Inr (r, t) \<Longrightarrow> operationRow t (ro_id r) = Some r"
  using insertPrepared_InrD(1,2,7) [of now sid kind replay oid s r t] by (simp add: operationRow_snoc)

lemma draft_row_simps [simp]:
  "sq_id (draft_row now qid e sid s) = qid"
  "sq_session (draft_row now qid e sid s) = sid"
  "sq_reservation (draft_row now qid e sid s) = None"
  by (simp_all add: draft_row_def)

subsection \<open>Predicates that every statement keeps\<close>

lemma append_insert:
  "snd (appendInTransaction now sid ty data opts s) =
     insert_event \<lparr>ev_session = sid, ev_seq = latestSeq s sid + 1, ev_time = now, ev_type = ty,
                   ev_data = data, ev_opts = opts\<rparr> s"
  by (simp add: appendInTransaction_def Let_def insert_event_def latestSeq_def)

lemma insert_event_frame [simp]:
  "ss_ops (insert_event e s) = ss_ops s" "ss_queue (insert_event e s) = ss_queue s"
  "ss_intents (insert_event e s) = ss_intents s"
  "ss_ops (set_time sid n t s) = ss_ops s" "ss_queue (set_time sid n t s) = ss_queue s"
  "ss_intents (set_time sid n t s) = ss_intents s" "ss_open (set_time sid n t s) = ss_open s"
  by (simp_all add: insert_event_def set_time_def)

text \<open>
  What the tables of observations and read positions keep: a recorded revision stays
  recorded, and a position never goes back.
\<close>

definition obs_id :: "observation_row \<Rightarrow> entity_key \<times> string \<times> string" where
  "obs_id x = (ob_key x, ob_revision x, ob_session x)"

definition opt_le :: "int option \<Rightarrow> int option \<Rightarrow> bool" where
  "opt_le a b \<longleftrightarrow> (\<forall>n. a = Some n \<longrightarrow> (\<exists>m. b = Some m \<and> n \<le> m))"

definition person_grows :: "person_row option \<Rightarrow> person_row option \<Rightarrow> bool" where
  "person_grows a b \<longleftrightarrow>
     (\<forall>p. a = Some p \<longrightarrow> (\<exists>q. b = Some q \<and> opt_le (pe_read p) (pe_read q) \<and> opt_le (pe_mention p) (pe_mention q)))"

lemma opt_le_refl [simp]: "opt_le a a"
  by (simp add: opt_le_def)

lemma opt_le_None [simp]: "opt_le None b"
  by (simp add: opt_le_def)

lemma opt_le_trans: "opt_le a b \<Longrightarrow> opt_le b c \<Longrightarrow> opt_le a c"
  by (fastforce simp: opt_le_def)

lemma person_grows_refl [simp]: "person_grows a a"
  by (simp add: person_grows_def)

lemma person_grows_trans: "person_grows a b \<Longrightarrow> person_grows b c \<Longrightarrow> person_grows a c"
  by (fastforce simp: person_grows_def intro: opt_le_trans)

text \<open>\<open>D\<close> says which sessions may be erased.\<close>

locale store_invariant =
  fixes P :: "session_store \<Rightarrow> bool"
    and D :: "string \<Rightarrow> bool"
  assumes enter: "P s \<Longrightarrow> ev_seq e = latestSeq s (ev_session e) + 1 \<Longrightarrow> P (insert_event e s)"
    and retime: "P s \<Longrightarrow> P (set_time sid k tm s)"
    and insert: "P s \<Longrightarrow> insertPreparedOperation now sid kind replay oid s = Inr (r, t) \<Longrightarrow> P t"
    and update: "P s \<Longrightarrow> operationRow s oid = Some r \<Longrightarrow> op_evolves r (f r) \<Longrightarrow> P (update_op oid f s)"
    and project: "P s \<Longrightarrow> P (s\<lparr>ss_projections := ps\<rparr>)"
    and admit: "P s \<Longrightarrow> queue_find s (sq_id q) = None \<Longrightarrow> sq_reservation q = None \<Longrightarrow>
      P (s\<lparr>ss_queue := ss_queue s @ [q]\<rparr>)"
    and withdraw: "P s \<Longrightarrow> P (delete_queue Q s)"
    and revise: "P s \<Longrightarrow>
      (\<And>q. Q q \<Longrightarrow> sq_id (g q) = sq_id q \<and> sq_session (g q) = sq_session q
           \<and> (sq_reservation (g q) = None \<or> sq_reservation (g q) = sq_reservation q \<and> sq_held (g q) = sq_held q)) \<Longrightarrow>
      P (update_queue Q g s)"
    and reserve: "P s \<Longrightarrow> insertPreparedOperation now sid kind replay oid s = Inr (r, t) \<Longrightarrow>
      kind = TurnSubmit \<or> kind = TurnSteer \<Longrightarrow>
      P (update_queue (\<lambda>x. sq_id x = qid \<and> sq_session x = sid \<and> sq_reservation x = None \<and> \<not> sq_held x)
           (\<lambda>x. x\<lparr>sq_reservation := Some (ro_id r)\<rparr>) t)"
    and intend: "P s \<Longrightarrow> insertPreparedOperation now sid (choice_mutation choice) replay oid s = Inr (r, t) \<Longrightarrow>
      responseIntent s sid (choice_kind choice) req = None \<Longrightarrow>
      P (t\<lparr>ss_intents := ss_intents t @
            [\<lparr>ri_session = sid, ri_kind = choice_kind choice, ri_request = req, ri_operation = ro_id r,
              ri_payload = payload, ri_created = now\<rparr>]\<rparr>)"
    and forget: "P s \<Longrightarrow> P (s\<lparr>ss_intents := filter R (ss_intents s)\<rparr>)"
    and erase: "P s \<Longrightarrow> D sid \<Longrightarrow> P (deleteSessionRows sid s)"
    and bury: "P s \<Longrightarrow> P (s\<lparr>ss_tombs := ts\<rparr>)"
    and barrier: "P s \<Longrightarrow> P (s\<lparr>ss_recs := rs\<rparr>)"
    and openness: "P s \<Longrightarrow> P (s\<lparr>ss_closed := b\<rparr>)"
    and observe: "P s \<Longrightarrow> obs_id ` set (ss_observed s) \<subseteq> obs_id ` set obs \<Longrightarrow> P (s\<lparr>ss_observed := obs\<rparr>)"
    and check: "P s \<Longrightarrow> P (s\<lparr>ss_checks := cs\<rparr>)"
    and cursor: "P s \<Longrightarrow> P (s\<lparr>ss_cursors := us\<rparr>)"
    and readers: "P s \<Longrightarrow> (\<And>x. opt_le (map_of (ss_read s) x) (map_of ns x)) \<Longrightarrow> P (s\<lparr>ss_read := ns\<rparr>)"
    and people: "P s \<Longrightarrow> (\<And>x y. person_grows (person_of s x y) (person_of (s\<lparr>ss_people := pes\<rparr>) x y)) \<Longrightarrow>
      P (s\<lparr>ss_people := pes\<rparr>)"
begin

lemma append: "P s \<Longrightarrow> P (snd (appendInTransaction now sid ty data opts s))"
  unfolding append_insert by (rule enter) (simp_all add: latestSeq_def)

lemma forgotten: "P s \<Longrightarrow> P (forget_evidence b s)"
  unfolding forget_evidence_def by (simp add: check cursor)

lemma upsert: "P s \<Longrightarrow> P (upsertProjectionRow p s)"
  unfolding upsertProjectionRow_def by (rule project)

lemma mutation: "P s \<Longrightarrow> P (snd (appendMutationState now r ty x s))"
  by (simp add: appendMutationState_def Let_def split_beta append)

lemma input: "P s \<Longrightarrow> P (snd (appendInputInTransaction now sid i s))"
  by (simp add: appendInputInTransaction_def append)

lemma owner: "P s \<Longrightarrow> operationRow s oid = Some r \<Longrightarrow> ro_state r = OpPrepared \<Longrightarrow> P (set_owner oid n s)"
  unfolding set_owner_def by (erule update) (auto intro: op_evolves_owner)

lemma keeps_insert: "P s \<Longrightarrow> keeps P (insertPreparedOperation now sid kind replay oid s)"
  by (cases "insertPreparedOperation now sid kind replay oid s") (auto simp: insert)

lemma keeps_record_intent:
  assumes "P s" "operationRow s (ro_id r) = Some r" "ro_state r = OpPrepared"
  shows "keeps P (record_intent now r i x s)"
proof -
  let ?s1 = "snd (appendInputInTransaction now (ro_session r) i s)"
  have "operationRow ?s1 (ro_id r) = Some r" using assms(2) by (simp add: appendInputInTransaction_def)
  then have "P (set_owner (ro_id r) n ?s1)" for n
    using assms by (intro owner [OF input]) auto
  then show ?thesis
    by (auto simp: record_intent_def Let_def split_beta keeps_def intro!: mutation split: option.split)
qed

lemma keeps_after_insert:
  assumes "P s" and "\<And>r t. operationRow t (ro_id r) = Some r \<Longrightarrow> ro_state r = OpPrepared \<Longrightarrow> P t \<Longrightarrow> keeps P (f r t)"
  shows "keeps P (then_do (insertPreparedOperation now sid kind replay oid s) f)"
  using assms(1)
  by (rule keeps_then_do [OF keeps_insert]) (rule assms(2), auto intro: inserted_row insertPrepared_InrD(3))

lemma keeps_replay_prepared: "P s \<Longrightarrow> keeps P (replay_prepared i r s)"
  by (simp add: replay_prepared_def split: option.split)

lemma keeps_prepare: "P s \<Longrightarrow> keeps P (prepareOperation now uuid i s)"
  unfolding prepareOperation_def
  by (intro keeps_transaction)
    (auto split: option.split simp del: truthy_simps
      intro!: keeps_after_insert keeps_record_intent keeps_replay_prepared)

lemma keeps_create: "P s \<Longrightarrow> keeps P (prepareSessionCreate now uuid p created replay s)"
  unfolding prepareSessionCreate_def
  by (auto intro!: keeps_transaction keeps_after_insert keeps_record_intent upsert)

lemma keeps_take_claim:
  assumes "P s" "operationRow s oid = Some r"
    and "ro_state r = OpPrepared \<or> ro_state r = OpUnknown \<and> ro_replay r = ReplaySameId c"
  shows "keeps P (take_claim now r s)"
  using assms operationRow_id [OF assms(2)]
  by (auto simp: take_claim_def Let_def split_beta intro!: mutation update op_evolves_claim)

lemma keeps_claim: "P s \<Longrightarrow> keeps P (claimOperation now oid s)"
  unfolding claimOperation_def
  by (rule keeps_transaction) (auto split: option.split intro: keeps_take_claim)

lemma keeps_replay: "P s \<Longrightarrow> keeps P (replayUnknownOperation now oid contract s)"
  unfolding replayUnknownOperation_def
  by (rule keeps_transaction) (auto split: option.split intro: keeps_take_claim)

lemma keeps_transition: "P s \<Longrightarrow> keeps P (transitionOperation now oid st s)"
  by (auto simp: transitionOperation_def Let_def split_beta split: option.split
      intro!: mutation update op_evolves_settle)

lemma keeps_settle: "P s \<Longrightarrow> keeps P (settleOperation now oid st s)"
  unfolding settleOperation_def by (rule keeps_transaction) (simp add: keeps_transition)

text \<open>The queue.\<close>

lemma keeps_enqueue: "P s \<Longrightarrow> keeps P (enqueue now uuid i s)"
  unfolding enqueue_def
  by (rule keeps_transaction) (auto simp: Let_def split: option.split intro!: admit)

lemma edit_keeps: "P s \<Longrightarrow> P (snd (queueEdit sid qid txt s))"
  by (auto simp: queueEdit_def Let_def editable_def intro!: revise)

lemma fold_position: "P s \<Longrightarrow> P (fold (set_position sid) ps s)"
proof (induction ps arbitrary: s)
  case (Cons p ps)
  have "P (set_position sid p s)" unfolding set_position_def using Cons.prems by (rule revise) simp
  from Cons.IH [OF this] show ?case by simp
qed simp

lemma keeps_reorder: "P s \<Longrightarrow> keeps P (queueReorder sid ids s)"
  unfolding queueReorder_def
  by (rule keeps_transaction) (simp add: Let_def fold_position)

lemma remove_keeps: "P s \<Longrightarrow> P (snd (queueRemove sid qid s))"
  by (simp add: queueRemove_def withdraw)

lemma keeps_shift: "P s \<Longrightarrow> keeps P (queueShift sid s)"
  unfolding queueShift_def
  by (rule keeps_transaction) (auto split: option.split intro: withdraw)

lemma keeps_reserve:
  assumes "P s" "\<forall>k. kind = Some k \<longrightarrow> k = TurnSubmit \<or> k = TurnSteer"
  shows "keeps P (reserveQueueHead now uuid sid kind replay s)"
proof -
  have "nullish kind TurnSubmit = TurnSubmit \<or> nullish kind TurnSubmit = TurnSteer"
    using assms(2) by (cases kind) auto
  then show ?thesis unfolding reserveQueueHead_def
    by (intro keeps_transaction)
      (auto split: option.split simp: Let_def split_beta assms(1) keeps_insert
        intro!: keeps_then_do [OF keeps_insert] mutation reserve [OF assms(1)])
qed

lemma keeps_confirm: "P s \<Longrightarrow> keeps P (confirmQueueReservation now oid receipt s)"
  unfolding confirmQueueReservation_def
  by (rule keeps_transaction)
    (auto split: option.split simp: Let_def split_beta
      intro!: keeps_then_do [OF keeps_transition] withdraw append)

lemma keeps_release: "P s \<Longrightarrow> keeps P (releaseQueueReservation now oid rel s)"
  unfolding releaseQueueReservation_def free_reservation_def
  by (rule keeps_transaction)
    (auto split: option.split intro!: keeps_then_do [OF keeps_transition] revise)

lemma hold_keeps: "P s \<Longrightarrow> P (hold_reserved q oid s)"
  unfolding hold_reserved_def by (rule revise) simp_all

lemma keeps_hold:
  assumes "P s"
  shows "keeps P (holdEpochTurnForReview now qid syn r s)"
proof -
  have "P (s\<lparr>ss_queue := ss_queue s @ [draft_row now qid e sid s]\<rparr>)" if "queue_find s qid = None" for e sid
    using assms that by (intro admit) simp_all
  then show ?thesis
    using assms
    by (simp add: holdEpochTurnForReview_def Let_def hold_keeps keeps_def split: option.split)
qed

text \<open>Responses.\<close>

lemma drop_intents: "P s \<Longrightarrow> xs = filter R (ss_intents s) \<Longrightarrow> P (s\<lparr>ss_intents := xs\<rparr>)"
  by (simp add: forget)

lemma keeps_choose:
  assumes "P s"
  shows "keeps P (chooseResponseIntent now uuid sid req choice replay s)"
proof (cases "responseIntent s sid (choice_kind choice) req")
  case (Some i)
  then show ?thesis
    using assms by (simp add: chooseResponseIntent_def keeps_transaction split: option.split)
next
  case None
  have step: "P (snd (appendMutationState now r' ty x (set_owner (ro_id r) n
      (snd (appendInTransaction now sid ty' data ignorable_opts
        (t\<lparr>ss_intents := ss_intents t @ [\<lparr>ri_session = sid, ri_kind = choice_kind choice, ri_request = req,
              ri_operation = ro_id r, ri_payload = payload, ri_created = now\<rparr>]\<rparr>))))))"
    if r: "insertPreparedOperation now sid (choice_mutation choice) replay uuid s = Inr (r, t)"
    for r t r' ty x n ty' data payload
  proof -
    have row: "operationRow (t\<lparr>ss_intents := xs\<rparr>) (ro_id r) = Some r" for xs
      using inserted_row [OF r] by (simp add: operationRow_def)
    show ?thesis
      using row insertPrepared_InrD(3) [OF r]
      by (intro mutation owner [where r = r] append intend [OF assms r None]) simp_all
  qed
  show ?thesis
    unfolding chooseResponseIntent_def
    by (rule keeps_transaction)
      (auto simp: None Let_def split_beta assms keeps_insert intro!: keeps_then_do [OF keeps_insert] step)
qed

lemma keeps_fail_response: "P s \<Longrightarrow> keeps P (fail_response now i st s)"
  unfolding fail_response_def
  by (rule keeps_then_do [OF keeps_transition]) (simp_all add: Let_def split_beta drop_intents append)

lemma keeps_settle_response: "P s \<Longrightarrow> keeps P (settleResponseIntent now oid rs s)"
  unfolding settleResponseIntent_def
  by (rule keeps_transaction)
    (auto split: option.split response_settlement.split simp: Let_def split_beta
      intro!: keeps_then_do [OF keeps_transition] input keeps_fail_response keeps_transition)

end

subsection \<open>Epochs, recovery and deletion\<close>

lemma update_op_none: "operationRow s oid = None \<Longrightarrow> update_op oid f s = s"
  by (cases s) (auto simp: operationRow_def update_op_def find_None_iff intro!: map_idI)

lemma ops_before_set:
  "r \<in> set (ops_before s sid st n) \<longleftrightarrow>
     r \<in> set (ss_ops s) \<and> ro_session r = sid \<and> ro_state r = st \<and> ro_ordinal r < n"
  by (auto simp: ops_before_def operations_of_def session_ops_def)

context store_invariant
begin

lemma keeps_recover_row: "P s \<Longrightarrow> keeps P (recover_row now r s)"
  by (cases "operationRow s (ro_id r)")
    (auto simp: recover_row_def Let_def split_beta update_op_none
      intro!: mutation update intro: op_evolves_interrupt)

lemma keeps_recover: "P s \<Longrightarrow> keeps P (recoverExecutingInTransaction now sid s)"
  unfolding recoverExecutingInTransaction_def by (rule keeps_each_row) (simp_all add: keeps_recover_row)

lemma keeps_recover_operations: "P s \<Longrightarrow> keeps P (recoverExecutingOperations now sid s)"
  unfolding recoverExecutingOperations_def by (rule keeps_transaction) (rule keeps_recover)

lemma keeps_reopen: "P s \<Longrightarrow> keeps P (reopen now s)"
  unfolding reopen_def by (rule keeps_recover_operations) (rule openness)

lemma keeps_restart_turns: "P s \<Longrightarrow> keeps P (recoverRestartInterruptedTurns now sid authority g n s)"
  unfolding recoverRestartInterruptedTurns_def
  by (rule keeps_transaction)
    (auto simp: Let_def split_beta intro!: keeps_then_do [where P = P and Q = P] keeps_each_row keeps_hold append)

lemma keeps_retire:
  assumes "P s" "\<not> settled (ro_state r)" "st \<noteq> OpPrepared" "st \<noteq> OpExecuting"
  shows "keeps P (retire_op now st c m ty r s)"
proof (cases "operationRow s (ro_id r)")
  case (Some r0)
  then have "P (update_op (ro_id r) (retire_row now st c m) s)" if "ro_state r0 = ro_state r"
    using assms that by (intro update [where r = r0] op_evolves_retire) simp_all
  with Some show ?thesis by (auto simp: retire_op_def Let_def split_beta intro: mutation)
qed (simp add: retire_op_def)

lemma keeps_hold_turn: "P s \<Longrightarrow> keeps P (hold_turn now uid fenced r s)"
  by (simp add: hold_turn_def keeps_hold)

lemma keeps_retire_older: "P s \<Longrightarrow> keeps P (retire_older now uid sid n fenced s)"
  unfolding retire_older_def reject_prepared_def [abs_def] interrupt_executing_def [abs_def] fence_unknown_def [abs_def]
  by (auto intro!: keeps_then_do [where P = P and Q = P] keeps_each_row keeps_retire keeps_hold_turn simp: ops_before_set settled_def)

lemma expire_keeps: "P s \<Longrightarrow> P (appendEpochRequestExpirations now sid e es s)"
  unfolding appendEpochRequestExpirations_def
proof (induction "open_requests es" arbitrary: s)
  case (Cons k ks)
  have "P (fold (expire_request now sid e) ks s)" if "P s" for s ks
    using that by (induction ks arbitrary: s) (simp_all add: expire_request_def append)
  with Cons show ?case by metis
qed simp

lemma keeps_carry: "P s \<Longrightarrow> keeps P (carry_snapshot now sid ty data es s)"
  by (simp add: carry_snapshot_def append split: option.split)

lemma keeps_snapshots: "P s \<Longrightarrow> keeps P (appendEpochStateSnapshots now sid es s)"
  unfolding appendEpochStateSnapshots_def by (rule keeps_then_do [OF keeps_carry keeps_carry])

lemma keeps_publish: "P s \<Longrightarrow> keeps P (publish_switch now i p s)"
  by (simp add: publish_switch_def append split: option.split)

lemma keeps_commit: "P s \<Longrightarrow> keeps P (commit_epoch now uid leg i p current reset s)"
  unfolding commit_epoch_def Let_def split_beta
  by (auto intro!: keeps_then_do [where P = P and Q = P] keeps_retire_older keeps_snapshots keeps_publish upsert append expire_keeps)

lemma keeps_epoch: "P s \<Longrightarrow> keeps P (transitionRuntimeEpoch now uid leg i s)"
  unfolding transitionRuntimeEpoch_def
  by (rule keeps_transaction) (simp add: keeps_commit split: option.split)

lemma keeps_start_reconciliation: "P s \<Longrightarrow> keeps P (startReconciliation now sid s)"
  unfolding startReconciliation_def put_reconciliation_def
  by (rule keeps_transaction) (simp add: Let_def append barrier)

lemma keeps_settle_reconciliation: "P s \<Longrightarrow> keeps P (settleReconciliation now sid n st reason s)"
  unfolding settleReconciliation_def put_reconciliation_def
  by (rule keeps_transaction) (simp add: Let_def append barrier split: option.split)

lemma keeps_delete: "P s \<Longrightarrow> D sid \<Longrightarrow> keeps P (deleteSession sid s)"
  unfolding deleteSession_def by (rule keeps_transaction) (simp add: erase)

lemma keeps_prepare_deletion: "P s \<Longrightarrow> D (db_session b) \<Longrightarrow> keeps P (prepareSessionDeletion now uuid b replay s)"
  unfolding prepareSessionDeletion_def
  by (rule keeps_transaction) (auto simp: Let_def intro!: keeps_after_insert erase bury forgotten)

lemma keeps_retire_tombstone: "P s \<Longrightarrow> keeps P (retireDeletionTombstone now sid how s)"
  unfolding retireDeletionTombstone_def
  by (rule keeps_transaction) (simp add: Let_def bury split: option.split)

lemma keeps_append: "P s \<Longrightarrow> keeps P (append_event now sid ty data opts s)"
  unfolding append_event_def
  by (rule keeps_transaction)
    (use append [of s now sid ty data opts] in \<open>cases "appendInTransaction now sid ty data opts s"; simp\<close>)

end

subsection \<open>Batches, copies, read positions and observations\<close>

lemma renumber_next: "es \<noteq> [] \<Longrightarrow> ev_session (hd (renumber sid n es)) = sid \<and> ev_seq (hd (renumber sid n es)) = n + 1"
  by (cases es) simp_all

lemma raise_read_le: "opt_le (map_of rows x) (map_of (raise_read sid n rows) x)"
proof -
  have "map_of (map (\<lambda>r. if fst r = sid then (sid, max (snd r) n) else r) rows) x =
      (if x = sid then map_option (\<lambda>m. max m n) (map_of rows x) else map_of rows x)"
    by (induction rows) auto
  moreover have "map_of rows x = None" if "x = sid" "sid \<notin> fst ` set rows"
    using that by (simp add: map_of_eq_None_iff)
  ultimately show ?thesis by (auto simp: raise_read_def opt_le_def map_add_def split: option.split)
qed

lemma map_of_put_read: "map_of (put_read sid n rows) x = (if x = sid then Some n else map_of rows x)"
proof -
  have "map_of (map (\<lambda>r. if fst r = sid then (sid, n) else r) rows) x =
      (if x = sid \<and> map_of rows x \<noteq> None then Some n else map_of rows x)"
    by (induction rows) auto
  moreover have "sid \<in> fst ` set rows \<longleftrightarrow> map_of rows sid \<noteq> None"
    by (simp add: map_of_eq_None_iff)
  ultimately show ?thesis
    unfolding put_read_def by (cases "map_of rows sid"; cases "map_of rows x") (auto simp: map_add_def)
qed

lemma person_put:
  assumes "\<And>p. pe_session (f p) = pe_session p \<and> pe_user (f p) = pe_user p"
  shows "person_of (put_person sid uid f s) x y =
     (if x = sid \<and> y = uid then Some (f (nullish (person_of s sid uid) (fresh_person sid uid)))
      else person_of s x y)"
proof (cases "person_of s sid uid")
  case None
  then show ?thesis
    using assms [of "fresh_person sid uid"]
    by (auto simp: put_person_def person_of_def find_append fresh_person_def split: option.split)
next
  case (Some p)
  have "find (\<lambda>p. pe_session p = x \<and> pe_user p = y)
          (map (\<lambda>p. if pe_session p = sid \<and> pe_user p = uid then f p else p) rows) =
        (if x = sid \<and> y = uid then map_option f (find (\<lambda>p. pe_session p = x \<and> pe_user p = y) rows)
         else find (\<lambda>p. pe_session p = x \<and> pe_user p = y) rows)" for rows
    using assms by (induction rows) auto
  with Some show ?thesis by (simp add: put_person_def person_of_def)
qed

lemma obs_id_seqs: "obs_id ` (\<lambda>x. if is_observed k txt x then x\<lparr>ob_seqs := ns\<rparr> else x) ` X = obs_id ` X"
  unfolding image_image by (rule image_cong) (simp_all add: obs_id_def)

lemma obs_id_map_seqs:
  "obs_id ` set (ss_observed (set_seqs k txt ns s)) = obs_id ` set (ss_observed s)"
proof -
  have "ss_observed (set_seqs k txt ns s) =
      map (\<lambda>x. if is_observed k txt x then x\<lparr>ob_seqs := ns\<rparr> else x) (ss_observed s)"
    by (simp add: set_seqs_def)
  then show ?thesis by (simp only: set_map obs_id_seqs)
qed

lemma sql_max_snoc: "nullish (sql_max (xs @ [x])) d = (if xs = [] then x else max x (nullish (sql_max xs) d))"
  by (cases xs) (simp_all add: sql_max_def)

lemma latest_insert:
  assumes "ev_session e = sid" "ev_seq e = latestSeq s sid + 1"
  shows "latestSeq (insert_event e s) sid = ev_seq e"
proof -
  have "session_events (insert_event e s) sid = session_events s sid @ [e]"
    using assms(1) by (simp add: session_events_def insert_event_def)
  then show ?thesis using assms(2) by (auto simp: latestSeq_def sql_max_snoc)
qed

context store_invariant
begin

lemma keeps_map_do:
  assumes "\<And>x s. x \<in> set xs \<Longrightarrow> P s \<Longrightarrow> keeps P (f x s)" and "P s"
  shows "keeps P (map_do f xs s)"
  using assms
proof (induction xs arbitrary: s)
  case (Cons x xs)
  show ?case unfolding map_do.simps
  proof (rule keeps_then_do [OF Cons.prems(1) [OF _ Cons.prems(2)]])
    fix y s1 assume "P s1"
    then have "keeps P (map_do f xs s1)" using Cons by simp
    then show "keeps P (then_do (map_do f xs s1) (\<lambda>ys s2. Inr (y # ys, s2)))" by (rule keeps_then_do) simp
  qed simp
qed simp

lemma timed: "P s \<Longrightarrow> P (snd (append_timed now sid i s))"
  using input [of s now sid "ti_event i"]
  by (auto simp: append_timed_def retime split: option.split prod.split)

lemma keeps_timed: "P s \<Longrightarrow> keeps P (Inr (append_timed now sid i s))"
  using timed [of s now sid i] by (cases "append_timed now sid i s") simp

lemma keeps_batch_in: "P s \<Longrightarrow> keeps P (appendBatchInTransaction now sid is n s)"
  unfolding appendBatchInTransaction_def
  by (auto intro!: keeps_then_do [where P = P] keeps_map_do keeps_timed)

lemma keeps_batch: "P s \<Longrightarrow> keeps P (appendBatch now sid is p n mark s)"
  unfolding appendBatch_def
  by (auto intro!: keeps_transaction keeps_then_do [OF keeps_batch_in] readers raise_read_le simp: Let_def upsert
      split: option.split prod.split)

lemma keeps_publish_entry: "P s \<Longrightarrow> keeps P (publish_entry now b s)"
  unfolding publish_entry_def
  by (auto intro!: keeps_then_do [OF keeps_batch_in] simp: upsert split: option.split prod.split)

lemma keeps_batches: "P s \<Longrightarrow> keeps P (appendBatches now bs s)"
  unfolding appendBatches_def by (auto intro!: keeps_transaction keeps_map_do keeps_publish_entry)

lemma enter_all:
  "P s \<Longrightarrow> latestSeq s sid = n \<Longrightarrow> P (fold insert_event (renumber sid n es) s)
     \<and> latestSeq (fold insert_event (renumber sid n es) s) sid = n + int (length es)"
proof (induction es arbitrary: n s)
  case (Cons e es)
  let ?e = "e\<lparr>ev_session := sid, ev_seq := n + 1\<rparr>"
  have "P (insert_event ?e s)" using Cons.prems by (intro enter) simp_all
  moreover have "latestSeq (insert_event ?e s) sid = n + 1"
    using latest_insert [of ?e sid s] Cons.prems(2) by simp
  ultimately show ?case using Cons.IH by (simp add: algebra_simps)
qed simp

lemma keeps_copy: "P s \<Longrightarrow> keeps P (copyTo src dst k s)"
  unfolding copyTo_def by (rule keeps_transaction) (simp add: Let_def enter_all)

lemma mark_row:
  assumes "P s" "attention_op (ev_type e) = None" "ev_seq e = latestSeq s (ev_session e) + 1"
  shows "P (s\<lparr>ss_events := ss_events s @ [e]\<rparr>)"
  using enter [OF assms(1,3)] assms(2) by (simp add: insert_event_def applyAttention_def)

lemma keeps_child:
  assumes "P s" "attention_op ty = None" "0 \<le> latestSeq s child"
  shows "keeps P (publishChildSession now child es p ty data ign s)"
proof (cases "0 < latestSeq s child")
  case False
  then have zero: "latestSeq s child = 0" using assms(3) by simp
  let ?s = "fold insert_event (renumber child 0 (map (child_row child) es)) s"
  have "P (?s\<lparr>ss_events := ss_events ?s @ [m]\<rparr>)"
    if "ev_session m = child" "ev_type m = ty" "ev_seq m = int (length es) + 1" for m
    using enter_all [OF assms(1) zero, of "map (child_row child) es"] assms(2) that
    by (intro mark_row) simp_all
  then show ?thesis
    unfolding publishChildSession_def
    by (intro keeps_transaction) (simp add: False Let_def upsert)
qed (simp add: publishChildSession_def store_transaction_def)

lemma keeps_read: "P s \<Longrightarrow> keeps P (setReadCursor sid n s)"
  unfolding setReadCursor_def
  by (auto intro!: keeps_transaction readers simp: map_of_put_read read_of_def opt_le_def not_le)

lemma person:
  assumes "P s" "\<And>p. pe_session (f p) = pe_session p \<and> pe_user (f p) = pe_user p"
    and "\<And>p. person_of s sid uid = Some p \<Longrightarrow> opt_le (pe_read p) (pe_read (f p)) \<and> opt_le (pe_mention p) (pe_mention (f p))"
  shows "P (put_person sid uid f s)"
proof -
  have "person_grows (person_of s x y) (person_of (put_person sid uid f s) x y)" for x y
    using assms(3) by (auto simp: person_put assms(2) person_grows_def)
  moreover obtain pes where "put_person sid uid f s = s\<lparr>ss_people := pes\<rparr>"
    unfolding put_person_def by metis
  ultimately show ?thesis using people [OF assms(1)] by metis
qed

lemma keeps_person_read: "P s \<Longrightarrow> keeps P (setPersonReadCursor sid uid n s)"
  unfolding setPersonReadCursor_def
  by (auto intro!: keeps_transaction person simp: opt_le_def not_le)

lemma keeps_draft: "P s \<Longrightarrow> keeps P (savePersonDraft sid uid txt n s)"
  by (auto simp: savePersonDraft_def intro!: person)

lemma keeps_pin: "P s \<Longrightarrow> keeps P (setPersonPin sid uid pos s)"
  by (auto simp: setPersonPin_def intro!: person)

lemma keeps_mention: "P s \<Longrightarrow> keeps P (setPersonMentionSeq sid uid n s)"
  by (auto simp: setPersonMentionSeq_def opt_le_def intro!: person split: option.split)

lemma keeps_mute: "P s \<Longrightarrow> keeps P (setPersonMute sid uid b s)"
  by (auto simp: setPersonMute_def intro!: person)

lemma move: "P s \<Longrightarrow> P (move_cursor now i s)"
  by (simp add: move_cursor_def upsertObservationCursor_def cursor split: option.split prod.split)

lemma checkpoint: "P s \<Longrightarrow> P (put_checkpoint now i s)"
  by (simp add: put_checkpoint_def Let_def check split: option.split prod.split)

lemma inputs: "P s \<Longrightarrow> P (snd (append_inputs now sid is s))"
proof (induction "is" arbitrary: s)
  case (Cons i "is")
  from Cons.IH [OF input [OF Cons.prems]] show ?case by (simp add: Let_def split_beta)
qed simp

lemma add_observed: "P s \<Longrightarrow> P (add_observation x s)"
  unfolding add_observation_def by (erule observe) auto

lemma seqs_set: "P s \<Longrightarrow> P (set_seqs k txt ns s)"
  unfolding set_seqs_def by (erule observe) (simp only: set_map obs_id_seqs subset_refl)

lemma keeps_claim_existing: "P s \<Longrightarrow> keeps P (claimExisting now i c s)"
  by (simp add: claimExisting_def Let_def move add_observed)

lemma keeps_apply: "P s \<Longrightarrow> keeps P (apply_observation now i s)"
  by (simp add: apply_observation_def Let_def split_beta move checkpoint inputs add_observed seqs_set)

lemma keeps_ingest_in: "P s \<Longrightarrow> keeps P (ingestObservationInTransaction now i s)"
  by (simp add: ingestObservationInTransaction_def Let_def keeps_claim_existing keeps_apply move
      split: option.split rank_verdict.split)

lemma keeps_ingest: "P s \<Longrightarrow> keeps P (ingestObservation now i s)"
  by (simp add: ingestObservation_def keeps_transaction keeps_ingest_in)

lemma keeps_snapshot: "P s \<Longrightarrow> keeps P (ingestSnapshot now sid is s)"
  by (simp add: ingestSnapshot_def keeps_transaction keeps_map_do keeps_ingest_in)

end

end
