(* ===== verification/SessionSafety.thy ===== *)
theory SessionSafety
  imports SessionRules
begin

text \<open>
  The invariants of the session store, each one an interpretation of \<open>store_invariant\<close>:
  operation rows are unique and only evolve, the log is gapless and \<open>attention_open\<close>
  mirrors it, the queue and the response intents refer to existing operations. The
  relation \<open>store_step\<close> has one rule for every operation; what holds of all its runs are
  the properties.
\<close>

subsection \<open>Operation rows only evolve\<close>

definition ops_ok :: "session_store \<Rightarrow> bool" where
  "ops_ok s \<longleftrightarrow> distinct (map ro_id (ss_ops s))
     \<and> distinct (map (\<lambda>r. (ro_session r, ro_ordinal r)) (ss_ops s))"

definition ops_evolve :: "operation_row list \<Rightarrow> operation_row list \<Rightarrow> bool" where
  "ops_evolve xs ys \<longleftrightarrow> list_all2 op_evolves xs (take (length xs) ys)"

lemma sql_max_upper: "x \<in> set xs \<Longrightarrow> x < nullish (sql_max xs) d + 1"
  by (cases xs) (auto simp: sql_max_def Max.set_eq_fold [symmetric] simp del: Max_insert)

lemma ops_evolve_refl: "ops_evolve xs xs"
  by (simp add: ops_evolve_def list_all2_refl)

lemma ops_evolve_length: "ops_evolve xs ys \<Longrightarrow> length xs \<le> length ys"
  unfolding ops_evolve_def by (drule list_all2_lengthD) simp

lemma ops_evolve_snoc: "ops_evolve xs ys \<Longrightarrow> ops_evolve xs (ys @ [r])"
  using ops_evolve_length [of xs ys] by (simp add: ops_evolve_def)

lemma ops_evolve_update:
  assumes "ops_evolve xs ys" "\<And>r. r \<in> set ys \<Longrightarrow> op_evolves r (f r)"
  shows "ops_evolve xs (map f ys)"
  using assms ops_evolve_length [OF assms(1)] unfolding ops_evolve_def
  by (auto simp: list_all2_conv_all_nth intro: op_evolves_trans)

lemma ops_evolve_trans:
  assumes "ops_evolve xs ys" "ops_evolve ys zs"
  shows "ops_evolve xs zs"
  using assms ops_evolve_length [OF assms(1)] ops_evolve_length [OF assms(2)] unfolding ops_evolve_def
  by (auto simp: list_all2_conv_all_nth intro: op_evolves_trans [of _ "ys ! i" for i])

lemma ops_evolve_find:
  assumes "ops_evolve (ss_ops s) (ss_ops t)" "operationRow s oid = Some r"
  shows "\<exists>r'. operationRow t oid = Some r' \<and> op_evolves r r'"
proof -
  obtain i where i: "i < length (ss_ops s)" "ro_id (ss_ops s ! i) = oid" "r = ss_ops s ! i"
    and first: "\<forall>j<i. ro_id (ss_ops s ! j) \<noteq> oid"
    using assms(2) by (auto simp: operationRow_def find_Some_iff)
  have len: "length (ss_ops s) \<le> length (ss_ops t)" using assms(1) by (rule ops_evolve_length)
  have ev: "op_evolves (ss_ops s ! j) (ss_ops t ! j)" if "j < length (ss_ops s)" for j
    using assms(1) that len by (simp add: ops_evolve_def list_all2_conv_all_nth)
  have "operationRow t oid = Some (ss_ops t ! i)"
    unfolding operationRow_def find_Some_iff
  proof (intro exI conjI allI impI)
    fix j assume "j < i"
    then show "ro_id (ss_ops t ! j) \<noteq> oid" using ev [of j] first i(1) by (simp add: op_evolves_def)
  qed (use i ev [OF i(1)] len in \<open>simp_all add: op_evolves_def\<close>)
  then show ?thesis using ev [OF i(1)] i(3) by blast
qed

lemma find_by_key: "distinct (map k xs) \<Longrightarrow> x \<in> set xs \<Longrightarrow> find (\<lambda>y. k y = k x) xs = Some x"
  by (induction xs) (auto simp: rev_image_eqI)

lemma ops_ok_row: "ops_ok s \<Longrightarrow> r \<in> set (ss_ops s) \<Longrightarrow> operationRow s (ro_id r) = Some r"
  by (simp add: operationRow_def ops_ok_def find_by_key)

lemma op_evolves_key:
  "op_evolves r r' \<Longrightarrow> ro_id r' = ro_id r \<and> ro_session r' = ro_session r \<and> ro_ordinal r' = ro_ordinal r"
  by (simp add: op_evolves_def)

lemma ops_ok_update:
  assumes "ops_ok s" "operationRow s oid = Some r" "op_evolves r (f r)"
  shows "ops_ok (update_op oid f s)"
proof -
  have "x = r" if "x \<in> set (ss_ops s)" "ro_id x = oid" for x
    using ops_ok_row [OF assms(1) that(1)] that(2) assms(2) by simp
  then have "map ro_id (ss_ops (update_op oid f s)) = map ro_id (ss_ops s)"
    "map (\<lambda>r. (ro_session r, ro_ordinal r)) (ss_ops (update_op oid f s)) =
     map (\<lambda>r. (ro_session r, ro_ordinal r)) (ss_ops s)"
    using op_evolves_key [OF assms(3)] by (auto simp: update_op_def)
  then show ?thesis using assms(1) by (simp add: ops_ok_def)
qed

lemma ops_ok_insert:
  assumes "ops_ok s" "insertPreparedOperation now sid kind replay oid s = Inr (r, t)"
  shows "ops_ok t"
proof -
  note ins = insertPrepared_InrD [OF assms(2)]
  have "ro_ordinal x < ro_ordinal r" if "x \<in> set (ss_ops s)" "ro_session x = sid" for x
    unfolding ins(8) by (rule sql_max_upper) (use that in \<open>auto simp: session_ops_def\<close>)
  then have "(ro_session r, ro_ordinal r) \<notin> (\<lambda>r. (ro_session r, ro_ordinal r)) ` set (ss_ops s)"
    using ins(4) by force
  moreover have "ro_id r \<notin> ro_id ` set (ss_ops s)"
    using ins(1,2) by (auto simp: operationRow_def find_None_iff)
  ultimately show ?thesis using assms(1) by (simp add: ops_ok_def ins(7))
qed

lemma evolve_update:
  assumes "ops_ok t" "ops_evolve xs (ss_ops t)" "operationRow t oid = Some r" "op_evolves r (f r)"
  shows "ops_evolve xs (ss_ops (update_op oid f t))"
proof -
  have "op_evolves x (if ro_id x = oid then f x else x)" if "x \<in> set (ss_ops t)" for x
    using ops_ok_row [OF assms(1) that] assms(3,4) by auto
  with assms(2) show ?thesis unfolding update_op_def by simp (rule ops_evolve_update)
qed

definition evolved_from :: "operation_row list \<Rightarrow> session_store \<Rightarrow> bool" where
  "evolved_from xs s \<longleftrightarrow> ops_ok s \<and> ops_evolve xs (ss_ops s)"

lemma evolved_from_cong: "ss_ops s = ss_ops t \<Longrightarrow> evolved_from xs s = evolved_from xs t"
  by (simp add: evolved_from_def ops_ok_def)

lemma queue_ops [simp]:
  "ss_ops (update_queue Q f s) = ss_ops s" "ss_ops (delete_queue Q s) = ss_ops s"
  "ss_ops (deleteSessionRows sid s) = ss_ops s"
  by (simp_all add: update_queue_def delete_queue_def deleteSessionRows_def)

lemma evolved_insert:
  assumes "evolved_from xs s" "insertPreparedOperation now sid kind replay oid s = Inr (r, t)"
  shows "evolved_from xs t"
  using assms ops_ok_insert [OF _ assms(2)] insertPrepared_InrD(7) [OF assms(2)]
  by (simp add: evolved_from_def ops_evolve_snoc)

interpretation op_rows: store_invariant "evolved_from xs" "\<lambda>_. True" for xs
proof unfold_locales
  fix s oid r f assume "evolved_from xs s" "operationRow s oid = Some r" "op_evolves r (f r)"
  then show "evolved_from xs (update_op oid f s)"
    by (simp add: evolved_from_def evolve_update ops_ok_update)
next
  fix s now sid kind replay oid r t qid
  assume "evolved_from xs s" and ins: "insertPreparedOperation now sid kind replay oid s = Inr (r, t)"
  then have "evolved_from xs t" by (rule evolved_insert)
  then show "evolved_from xs (update_queue (\<lambda>x. sq_id x = qid \<and> sq_session x = sid \<and> sq_reservation x = None
      \<and> \<not> sq_held x) (\<lambda>x. x\<lparr>sq_reservation := Some (ro_id r)\<rparr>) t)"
    by (simp cong: evolved_from_cong)
qed (simp_all cong: evolved_from_cong add: evolved_insert)

subsection \<open>The log is gapless and the open requests mirror it\<close>

definition rebuild_open :: "session_event list \<Rightarrow> (string \<times> attention_kind \<times> string) list" where
  "rebuild_open es = fold (\<lambda>e. applyAttention (ev_session e) (ev_type e) (ev_data e)) es []"

text \<open>The sequence numbers of a session are 1, 2, 3, \<dots>\<close>

definition counted :: "session_event list \<Rightarrow> bool" where
  "counted es \<longleftrightarrow> map ev_seq es = map int [1..<Suc (length es)]"

definition log_ok :: "session_store \<Rightarrow> bool" where
  "log_ok s \<longleftrightarrow> (\<forall>sid. counted (session_events s sid)) \<and> ss_open s = rebuild_open (ss_events s)"

lemma counted_Nil [simp]: "counted []"
  by (simp add: counted_def)

lemma counted_snoc: "counted es \<Longrightarrow> ev_seq e = int (length es) + 1 \<Longrightarrow> counted (es @ [e])"
  by (simp add: counted_def split: if_splits)

lemma log_ok_cong: "ss_events s = ss_events t \<Longrightarrow> ss_open s = ss_open t \<Longrightarrow> log_ok s = log_ok t"
  by (simp add: log_ok_def session_events_def)

lemma sql_max_upto: "nullish (sql_max (map int [1..<Suc n])) 0 = int n"
proof (cases n)
  case (Suc m)
  have "sql_max (map int [1..<Suc n]) = Some (Max (set (map int [1..<Suc n])))"
    by (simp add: Suc upt_conv_Cons sql_max_def Max.set_eq_fold [symmetric] del: upt_Suc Max_insert)
  moreover have "Max (set (map int [1..<Suc n])) = int n"
    by (rule Max_eqI) (use Suc in auto)
  ultimately show ?thesis by (simp del: upt_Suc)
qed (simp add: sql_max_def)

lemma session_events_append:
  "session_events (snd (appendInTransaction now sid ty data opts s)) x =
     (if x = sid then session_events s sid @ [fst (appendInTransaction now sid ty data opts s)]
      else session_events s x)"
  by (simp add: session_events_def appendInTransaction_def Let_def)

lemma appended_event:
  "ev_seq (fst (appendInTransaction now sid ty data opts s)) = nullish (sql_max (map ev_seq (session_events s sid))) 0 + 1"
  "ev_session (fst (appendInTransaction now sid ty data opts s)) = sid"
  "ev_type (fst (appendInTransaction now sid ty data opts s)) = ty"
  "ev_data (fst (appendInTransaction now sid ty data opts s)) = data"
  by (simp_all add: appendInTransaction_def Let_def)

lemma session_events_insert:
  "session_events (insert_event e s) x = (if x = ev_session e then session_events s x @ [e] else session_events s x)"
  by (simp add: session_events_def insert_event_def)

lemma counted_latest: "counted (session_events s sid) \<Longrightarrow> latestSeq s sid = int (length (session_events s sid))"
  by (simp only: latestSeq_def counted_def sql_max_upto)

lemma log_ok_enter:
  assumes "log_ok s" "ev_seq e = latestSeq s (ev_session e) + 1"
  shows "log_ok (insert_event e s)"
proof -
  have seqs: "counted (session_events s x)" for x
    using assms by (simp add: log_ok_def)
  then have "counted (session_events (insert_event e s) x)" for x
    using assms(2) counted_latest [OF seqs] by (auto simp: session_events_insert intro: counted_snoc)
  moreover have "ss_open (insert_event e s) = rebuild_open (ss_events (insert_event e s))"
    using assms(1) by (simp add: log_ok_def insert_event_def rebuild_open_def)
  ultimately show ?thesis by (simp add: log_ok_def)
qed

lemma log_ok_nonneg: "log_ok s \<Longrightarrow> 0 \<le> latestSeq s sid"
  by (simp add: log_ok_def counted_latest)

definition retimed :: "string \<Rightarrow> int \<Rightarrow> int \<Rightarrow> session_event \<Rightarrow> session_event" where
  "retimed sid k t e = (if ev_session e = sid \<and> ev_seq e = k then e\<lparr>ev_time := t\<rparr> else e)"

lemma retimed_fields [simp]:
  "ev_session (retimed sid k t e) = ev_session e" "ev_seq (retimed sid k t e) = ev_seq e"
  "ev_type (retimed sid k t e) = ev_type e" "ev_data (retimed sid k t e) = ev_data e"
  by (simp_all add: retimed_def)

lemma rebuild_retimed: "rebuild_open (map (retimed sid k t) es) = rebuild_open es"
proof -
  have "fold (\<lambda>e. applyAttention (ev_session e) (ev_type e) (ev_data e)) (map (retimed sid k t) es) acc =
    fold (\<lambda>e. applyAttention (ev_session e) (ev_type e) (ev_data e)) es acc" for acc
    by (induction es arbitrary: acc) simp_all
  then show ?thesis by (simp add: rebuild_open_def)
qed

lemma set_time_retimed: "set_time sid k t s = s\<lparr>ss_events := map (retimed sid k t) (ss_events s)\<rparr>"
  unfolding set_time_def retimed_def [abs_def] ..

lemma session_events_retimed: "session_events (set_time sid k t s) x = map (retimed sid k t) (session_events s x)"
  by (simp add: session_events_def set_time_retimed filter_map comp_def)

lemma log_ok_retime: "log_ok s \<Longrightarrow> log_ok (set_time sid k t s)"
  unfolding log_ok_def session_events_retimed
  by (simp add: counted_def comp_def set_time_retimed rebuild_retimed del: upt_Suc)

lemma applyAttention_filter:
  "filter (\<lambda>r. fst r \<noteq> sid) (applyAttention x ty data rows) =
     (if x = sid then filter (\<lambda>r. fst r \<noteq> sid) rows
      else applyAttention x ty data (filter (\<lambda>r. fst r \<noteq> sid) rows))"
  by (auto simp: applyAttention_def split: option.split prod.split intro!: filter_cong)

lemma rebuild_filter:
  "filter (\<lambda>r. fst r \<noteq> sid) (fold (\<lambda>e. applyAttention (ev_session e) (ev_type e) (ev_data e)) es acc) =
   fold (\<lambda>e. applyAttention (ev_session e) (ev_type e) (ev_data e))
     (filter (\<lambda>e. ev_session e \<noteq> sid) es) (filter (\<lambda>r. fst r \<noteq> sid) acc)"
  by (induction es arbitrary: acc) (simp_all add: applyAttention_filter)

lemma log_ok_erase: "log_ok s \<Longrightarrow> log_ok (deleteSessionRows sid s)"
proof -
  have "session_events (deleteSessionRows sid s) x = (if x = sid then [] else session_events s x)" for x
    by (auto simp: session_events_def deleteSessionRows_def intro: filter_cong)
  then show "log_ok s \<Longrightarrow> log_ok (deleteSessionRows sid s)"
    using rebuild_filter [of sid "ss_events s" "[]"]
    by (simp add: log_ok_def deleteSessionRows_def rebuild_open_def)
qed

lemma queue_log [simp]:
  "ss_events (update_queue Q f s) = ss_events s" "ss_events (delete_queue Q s) = ss_events s"
  "ss_open (update_queue Q f s) = ss_open s" "ss_open (delete_queue Q s) = ss_open s"
  by (simp_all add: update_queue_def delete_queue_def)

lemma insert_log:
  assumes "insertPreparedOperation now sid kind replay oid s = Inr (r, t)"
  shows "log_ok t = log_ok s"
  by (rule log_ok_cong) (simp_all add: insertPrepared_InrD(7) [OF assms])

interpretation log: store_invariant log_ok "\<lambda>_. True"
proof unfold_locales
  fix s now sid kind replay oid r t
  assume "log_ok s" "insertPreparedOperation now sid kind replay oid s = Inr (r, t)"
  then show "log_ok t" by (simp add: insert_log)
next
  fix s now sid kind replay oid r t qid
  assume "log_ok s" "insertPreparedOperation now sid kind replay oid s = Inr (r, t)"
  then show "log_ok (update_queue (\<lambda>x. sq_id x = qid \<and> sq_session x = sid \<and> sq_reservation x = None
      \<and> \<not> sq_held x) (\<lambda>x. x\<lparr>sq_reservation := Some (ro_id r)\<rparr>) t)"
    by (simp cong: log_ok_cong add: insert_log)
next
  fix s now sid choice replay oid r t req payload
  assume "log_ok s" "insertPreparedOperation now sid (choice_mutation choice) replay oid s = Inr (r, t)"
  then show "log_ok (t\<lparr>ss_intents := ss_intents t @ [\<lparr>ri_session = sid, ri_kind = choice_kind choice,
      ri_request = req, ri_operation = ro_id r, ri_payload = payload, ri_created = now\<rparr>]\<rparr>)"
    by (simp cong: log_ok_cong add: insert_log)
qed (simp_all cong: log_ok_cong add: log_ok_enter log_ok_retime log_ok_erase)

lemma distinct_map_filter: "distinct (map f xs) \<Longrightarrow> distinct (map f (filter P xs))"
  by (induction xs) auto

subsection \<open>Reservations and intents name existing operations\<close>

definition carries_turn :: "session_store \<Rightarrow> string \<Rightarrow> string \<Rightarrow> bool" where
  "carries_turn s sid oid \<longleftrightarrow>
     (\<exists>r. operationRow s oid = Some r \<and> ro_session r = sid \<and> (ro_kind r = TurnSubmit \<or> ro_kind r = TurnSteer))"

definition carries_reply :: "session_store \<Rightarrow> intent_row \<Rightarrow> bool" where
  "carries_reply s i \<longleftrightarrow>
     (\<exists>r. operationRow s (ri_operation i) = Some r \<and> ro_session r = ri_session i
          \<and> ro_kind r \<in> {PermissionReply, QuestionReply, QuestionReject, SecretReply})"

definition intent_key :: "intent_row \<Rightarrow> string \<times> request_kind \<times> string" where
  "intent_key i = (ri_session i, ri_kind i, ri_request i)"

definition sole_reservation :: "queue_row list \<Rightarrow> string \<Rightarrow> string \<Rightarrow> bool" where
  "sole_reservation rows qid oid \<longleftrightarrow> (\<forall>q\<in>set rows. sq_reservation q = Some oid \<longrightarrow> sq_id q = qid)"

definition reservation_ok :: "session_store \<Rightarrow> queue_row \<Rightarrow> string \<Rightarrow> bool" where
  "reservation_ok s q oid \<longleftrightarrow>
     \<not> sq_held q \<and> carries_turn s (sq_session q) oid \<and> sole_reservation (ss_queue s) (sq_id q) oid"

definition queue_ok :: "session_store \<Rightarrow> bool" where
  "queue_ok s \<longleftrightarrow>
     ops_ok s \<and> distinct (map sq_id (ss_queue s))
     \<and> (\<forall>q\<in>set (ss_queue s). \<forall>oid. sq_reservation q = Some oid \<longrightarrow> reservation_ok s q oid)
     \<and> distinct (map intent_key (ss_intents s)) \<and> distinct (map ri_operation (ss_intents s))
     \<and> (\<forall>i\<in>set (ss_intents s). carries_reply s i)"

lemma queue_ok_cong:
  "ss_ops s = ss_ops t \<Longrightarrow> ss_queue s = ss_queue t \<Longrightarrow> ss_intents s = ss_intents t \<Longrightarrow> queue_ok s = queue_ok t"
proof -
  assume eqs: "ss_ops s = ss_ops t" "ss_queue s = ss_queue t" "ss_intents s = ss_intents t"
  have "carries_turn s = carries_turn t" "carries_reply s = carries_reply t"
    by (intro ext; simp add: carries_turn_def carries_reply_def operationRow_def eqs)+
  with eqs show "queue_ok s = queue_ok t" by (simp add: queue_ok_def ops_ok_def reservation_ok_def)
qed

lemma operationRow_update:
  assumes "ops_ok s" "operationRow s oid = Some r" "ro_id (f r) = oid"
  shows "operationRow (update_op oid f s) x = (if x = oid then Some (f r) else operationRow s x)"
proof -
  have only: "y = r" if "y \<in> set (ss_ops s)" "ro_id y = oid" for y
    using ops_ok_row [OF assms(1) that(1)] that(2) assms(2) by simp
  have "find ((\<lambda>r. ro_id r = x) \<circ> (\<lambda>r. if ro_id r = oid then f r else r)) (ss_ops s) = operationRow s x"
    unfolding operationRow_def by (rule find_cong) (use only assms(3) in auto)
  then have found: "operationRow (update_op oid f s) x =
      map_option (\<lambda>r. if ro_id r = oid then f r else r) (operationRow s x)"
    by (simp add: operationRow_def update_op_def find_map)
  show ?thesis
  proof (cases "operationRow s x")
    case (Some y)
    with found assms(2) operationRow_id [OF Some] show ?thesis by auto
  qed (use found assms(2) in auto)
qed

lemma carries_update:
  assumes "ops_ok s" "operationRow s oid = Some r" "op_evolves r (f r)"
  shows "carries_turn (update_op oid f s) sid x = carries_turn s sid x"
    and "carries_reply (update_op oid f s) i = carries_reply s i"
  using assms operationRow_update [OF assms(1,2), of f] operationRow_id [OF assms(2)]
  by (auto simp: carries_turn_def carries_reply_def op_evolves_def)

lemma carries_insert:
  assumes "insertPreparedOperation now sid kind replay oid s = Inr (r, t)"
  shows "carries_turn s sid' x \<Longrightarrow> carries_turn t sid' x"
    and "carries_reply s i \<Longrightarrow> carries_reply t i"
  using insertPrepared_InrD(7) [OF assms]
  by (auto simp: carries_turn_def carries_reply_def operationRow_snoc)

lemma queue_ok_insert:
  assumes "queue_ok s" "insertPreparedOperation now sid kind replay oid s = Inr (r, t)"
  shows "queue_ok t"
proof -
  have "ss_queue t = ss_queue s" "ss_intents t = ss_intents s"
    using insertPrepared_InrD(7) [OF assms(2)] by simp_all
  then show ?thesis
    using assms(1) ops_ok_insert [OF _ assms(2)] carries_insert [OF assms(2)]
    by (simp add: queue_ok_def reservation_ok_def)
qed

lemma fresh_operation:
  assumes "queue_ok s" "operationRow s oid = None"
  shows "\<forall>q\<in>set (ss_queue s). sq_reservation q \<noteq> Some oid" "oid \<notin> ri_operation ` set (ss_intents s)"
  using assms by (auto simp: queue_ok_def reservation_ok_def carries_turn_def carries_reply_def)

lemma queue_ok_update:
  assumes "queue_ok s" "operationRow s oid = Some r" "op_evolves r (f r)"
  shows "queue_ok (update_op oid f s)"
proof -
  have "ops_ok s" using assms(1) by (simp add: queue_ok_def)
  then show ?thesis
    using assms(1) ops_ok_update [OF _ assms(2), of f] assms(3)
      carries_update [OF _ assms(2), of f]
    by (simp add: queue_ok_def reservation_ok_def)
qed

lemma queue_ok_revise:
  assumes "queue_ok s"
    and "\<And>q. q \<in> set (ss_queue s) \<Longrightarrow> Q q \<Longrightarrow> sq_id (g q) = sq_id q \<and> sq_session (g q) = sq_session q
           \<and> (\<forall>oid. sq_reservation (g q) = Some oid \<longrightarrow> reservation_ok (update_queue Q g s) (g q) oid)"
    and "\<And>q q' oid. q \<in> set (ss_queue s) \<Longrightarrow> \<not> Q q \<Longrightarrow> sq_reservation q = Some oid \<Longrightarrow>
      q' \<in> set (ss_queue s) \<Longrightarrow> Q q' \<Longrightarrow> sq_reservation (g q') = Some oid \<Longrightarrow> sq_id q' = sq_id q"
  shows "queue_ok (update_queue Q g s)"
proof -
  let ?t = "update_queue Q g s"
  have frame: "ss_ops ?t = ss_ops s" "ss_intents ?t = ss_intents s" by (simp_all add: update_queue_def)
  have carries: "carries_turn ?t = carries_turn s" "carries_reply ?t = carries_reply s"
    by (intro ext; simp add: carries_turn_def carries_reply_def operationRow_def frame)+
  have ids: "map sq_id (ss_queue ?t) = map sq_id (ss_queue s)"
    using assms(2) by (auto simp: update_queue_def)
  have "reservation_ok ?t q oid" if q: "q \<in> set (ss_queue ?t)" "sq_reservation q = Some oid" for q oid
  proof -
    obtain q0 where q0: "q0 \<in> set (ss_queue s)" "q = (if Q q0 then g q0 else q0)"
      using q(1) by (auto simp: update_queue_def)
    show ?thesis
    proof (cases "Q q0")
      case False
      then have old: "reservation_ok s q0 oid" using assms(1) q0 q(2) by (auto simp: queue_ok_def)
      have "sole_reservation (ss_queue ?t) (sq_id q0) oid"
        unfolding sole_reservation_def
      proof (intro ballI impI)
        fix q' assume "q' \<in> set (ss_queue ?t)" "sq_reservation q' = Some oid"
        then obtain q1 where q1: "q1 \<in> set (ss_queue s)" "q' = (if Q q1 then g q1 else q1)"
          by (auto simp: update_queue_def)
        show "sq_id q' = sq_id q0"
        proof (cases "Q q1")
          case True
          then show ?thesis
            using assms(2) [OF q1(1) True] assms(3) [OF q0(1) False _ q1(1) True] q(2) q0(2) False
              \<open>sq_reservation q' = Some oid\<close> q1(2) by simp
        qed (use old q1 \<open>sq_reservation q' = Some oid\<close> in \<open>simp add: reservation_ok_def sole_reservation_def\<close>)
      qed
      with old False q0(2) show ?thesis by (simp add: reservation_ok_def carries)
    qed (use assms(2) q0 q(2) in auto)
  qed
  with assms(1) show ?thesis by (simp add: queue_ok_def frame carries ids ops_ok_def)
qed

lemma queue_ok_shrink:
  assumes "queue_ok s" "ss_ops t = ss_ops s" "ss_queue t = filter Q (ss_queue s)" "ss_intents t = filter R (ss_intents s)"
  shows "queue_ok t"
proof -
  have carries: "carries_turn t = carries_turn s" "carries_reply t = carries_reply s"
    by (intro ext; simp add: carries_turn_def carries_reply_def operationRow_def assms)+
  show ?thesis
    using assms(1)
    by (auto simp: queue_ok_def assms(2-4) carries ops_ok_def reservation_ok_def sole_reservation_def distinct_map_filter)
qed

lemma sole_snoc: "sq_reservation q = None \<Longrightarrow> sole_reservation (rows @ [q]) qid oid = sole_reservation rows qid oid"
  by (simp add: sole_reservation_def)

lemma queue_ok_admit:
  assumes "queue_ok s" "queue_find s (sq_id q) = None" "sq_reservation q = None"
  shows "queue_ok (s\<lparr>ss_queue := ss_queue s @ [q]\<rparr>)"
proof -
  let ?t = "s\<lparr>ss_queue := ss_queue s @ [q]\<rparr>"
  have carries: "carries_turn ?t = carries_turn s" "carries_reply ?t = carries_reply s"
    by (intro ext; simp add: carries_turn_def carries_reply_def operationRow_def)+
  have "sq_id q \<notin> sq_id ` set (ss_queue s)"
    using assms(2) by (auto simp: queue_find_def find_None_iff)
  then show ?thesis
    using assms(1,3) sole_snoc [OF assms(3)]
    by (auto simp: queue_ok_def carries ops_ok_def reservation_ok_def)
qed

lemma queue_ok_keep:
  assumes "queue_ok s"
    and g: "\<And>q. Q q \<Longrightarrow> sq_id (g q) = sq_id q \<and> sq_session (g q) = sq_session q
           \<and> (sq_reservation (g q) = None \<or> sq_reservation (g q) = sq_reservation q \<and> sq_held (g q) = sq_held q)"
  shows "queue_ok (update_queue Q g s)"
proof (rule queue_ok_revise [OF assms(1)])
  have old: "reservation_ok s q oid" if "q \<in> set (ss_queue s)" "sq_reservation q = Some oid" for q oid
    using assms(1) that by (simp add: queue_ok_def)
  fix q assume q: "q \<in> set (ss_queue s)" "Q q"
  have "reservation_ok (update_queue Q g s) (g q) oid" if res: "sq_reservation (g q) = Some oid" for oid
  proof -
    have "sq_reservation q = Some oid" "sq_held (g q) = sq_held q" using g [OF q(2)] res by auto
    note ok = old [OF q(1) this(1)] and held = this(2)
    have "sole_reservation (ss_queue (update_queue Q g s)) (sq_id q) oid"
      unfolding sole_reservation_def
    proof (intro ballI impI)
      fix q' assume "q' \<in> set (ss_queue (update_queue Q g s))" "sq_reservation q' = Some oid"
      then obtain q1 where "q1 \<in> set (ss_queue s)" "q' = (if Q q1 then g q1 else q1)"
        by (auto simp: update_queue_def)
      with \<open>sq_reservation q' = Some oid\<close> g [of q1]
      have "q1 \<in> set (ss_queue s)" "sq_reservation q1 = Some oid" "sq_id q' = sq_id q1"
        by (cases "Q q1"; auto)+
      then show "sq_id q' = sq_id q" using ok by (simp add: reservation_ok_def sole_reservation_def)
    qed
    then show ?thesis
      using ok held g [OF q(2)] by (simp add: reservation_ok_def carries_turn_def operationRow_def)
  qed
  then show "sq_id (g q) = sq_id q \<and> sq_session (g q) = sq_session q
      \<and> (\<forall>oid. sq_reservation (g q) = Some oid \<longrightarrow> reservation_ok (update_queue Q g s) (g q) oid)"
    using g [OF q(2)] by blast
next
  fix q q' oid
  assume "q \<in> set (ss_queue s)" "sq_reservation q = Some oid" "q' \<in> set (ss_queue s)" "Q q'"
    "sq_reservation (g q') = Some oid"
  then have "reservation_ok s q oid" "sq_reservation q' = Some oid"
    using assms(1) g [of q'] by (auto simp: queue_ok_def)
  then show "sq_id q' = sq_id q"
    using \<open>q' \<in> set (ss_queue s)\<close> by (simp add: reservation_ok_def sole_reservation_def)
qed

lemma queue_ok_reserve:
  assumes "queue_ok s" "insertPreparedOperation now sid kind replay oid s = Inr (r, t)"
    and kind: "kind = TurnSubmit \<or> kind = TurnSteer"
  shows "queue_ok (update_queue (\<lambda>x. sq_id x = qid \<and> sq_session x = sid \<and> sq_reservation x = None \<and> \<not> sq_held x)
           (\<lambda>x. x\<lparr>sq_reservation := Some (ro_id r)\<rparr>) t)" (is "queue_ok (update_queue ?Q ?g t)")
proof (rule queue_ok_revise [OF queue_ok_insert [OF assms(1,2)]])
  note ins = insertPrepared_InrD [OF assms(2)]
  have fresh: "sq_reservation q \<noteq> Some (ro_id r)" if "q \<in> set (ss_queue t)" for q
    using fresh_operation(1) [OF assms(1) ins(1)] that ins(2,7) by simp
  have row: "carries_turn t sid (ro_id r)"
    using inserted_row [OF assms(2)] ins(4,5) kind by (simp add: carries_turn_def)
  then have row': "carries_turn (update_queue ?Q ?g t) sid (ro_id r)"
    by (simp add: carries_turn_def operationRow_def)
  have "sole_reservation (ss_queue (update_queue ?Q ?g t)) qid (ro_id r)"
    unfolding sole_reservation_def using fresh by (auto simp: update_queue_def)
  with row' show "q \<in> set (ss_queue t) \<Longrightarrow> ?Q q \<Longrightarrow> sq_id (?g q) = sq_id q \<and> sq_session (?g q) = sq_session q
      \<and> (\<forall>oid. sq_reservation (?g q) = Some oid \<longrightarrow> reservation_ok (update_queue ?Q ?g t) (?g q) oid)" for q
    by (simp add: reservation_ok_def)
  show "q \<in> set (ss_queue t) \<Longrightarrow> \<not> ?Q q \<Longrightarrow> sq_reservation q = Some x \<Longrightarrow> q' \<in> set (ss_queue t) \<Longrightarrow> ?Q q' \<Longrightarrow>
      sq_reservation (?g q') = Some x \<Longrightarrow> sq_id q' = sq_id q" for q q' x
    using fresh by auto
qed

lemma queue_ok_intend:
  assumes "queue_ok s" "insertPreparedOperation now sid (choice_mutation choice) replay oid s = Inr (r, t)"
    and "responseIntent s sid (choice_kind choice) req = None"
  shows "queue_ok (t\<lparr>ss_intents := ss_intents t @
            [\<lparr>ri_session = sid, ri_kind = choice_kind choice, ri_request = req, ri_operation = ro_id r,
              ri_payload = payload, ri_created = now\<rparr>]\<rparr>)" (is "queue_ok ?u")
proof -
  note ins = insertPrepared_InrD [OF assms(2)]
  have carries: "carries_turn ?u = carries_turn t" "carries_reply ?u = carries_reply t"
    by (intro ext; simp add: carries_turn_def carries_reply_def operationRow_def)+
  have "choice_mutation choice \<in> {PermissionReply, QuestionReply, QuestionReject, SecretReply}"
    by (cases choice) auto
  then have row: "carries_reply t \<lparr>ri_session = sid, ri_kind = choice_kind choice, ri_request = req,
      ri_operation = ro_id r, ri_payload = payload, ri_created = now\<rparr>"
    using inserted_row [OF assms(2)] ins(4,5) by (simp add: carries_reply_def)
  have fresh: "ro_id r \<notin> ri_operation ` set (ss_intents t)"
    using fresh_operation(2) [OF assms(1) ins(1)] ins(2,7) by simp
  have key: "(sid, choice_kind choice, req) \<notin> intent_key ` set (ss_intents t)"
    using assms(3) ins(7) by (auto simp: responseIntent_def find_None_iff intent_key_def)
  show ?thesis
    using queue_ok_insert [OF assms(1,2)] row fresh key
    by (auto simp: queue_ok_def carries ops_ok_def reservation_ok_def intent_key_def)
qed

interpretation queue: store_invariant queue_ok "\<lambda>_. True"
proof unfold_locales
  fix s Q assume "queue_ok s"
  then show "queue_ok (delete_queue Q s)"
    by (rule queue_ok_shrink [where R = "\<lambda>_. True"]) (simp_all add: delete_queue_def)
next
  fix s R assume "queue_ok s"
  then show "queue_ok (s\<lparr>ss_intents := filter R (ss_intents s)\<rparr>)"
    by (rule queue_ok_shrink [where Q = "\<lambda>_. True"]) simp_all
next
  fix s sid assume "queue_ok s"
  then show "queue_ok (deleteSessionRows sid s)"
    by (rule queue_ok_shrink) (simp_all add: deleteSessionRows_def)
qed (simp_all cong: queue_ok_cong add: queue_ok_insert queue_ok_update queue_ok_admit queue_ok_keep
    queue_ok_reserve queue_ok_intend)

end
