(* ===== verification/SessionRuns.thy ===== *)
theory SessionRuns
  imports SessionSafety
begin

text \<open>
  Runs of the session store: \<open>store_step\<close> has one rule for every operation, a restart
  included, and the properties hold of everything such steps can reach.
\<close>

inductive store_step_in :: "(string \<Rightarrow> bool) \<Rightarrow> session_store \<Rightarrow> session_store \<Rightarrow> bool" for D where
  step_append: "append_event now sid ty data opts s = Inr (x, t) \<Longrightarrow> store_step_in D s t"
| step_prepare: "prepareOperation now uuid i s = Inr (y, t) \<Longrightarrow> store_step_in D s t"
| step_create: "prepareSessionCreate now uuid p e rp s = Inr (y, t) \<Longrightarrow> store_step_in D s t"
| step_claim: "claimOperation now oid s = Inr (c, t) \<Longrightarrow> store_step_in D s t"
| step_replay: "replayUnknownOperation now oid contract s = Inr (c, t) \<Longrightarrow> store_step_in D s t"
| step_settle: "settleOperation now oid st s = Inr (r, t) \<Longrightarrow> store_step_in D s t"
| step_enqueue: "enqueue now uuid ei s = Inr (qb, t) \<Longrightarrow> store_step_in D s t"
| step_edit: "queueEdit sid qid txt s = (qo, t) \<Longrightarrow> store_step_in D s t"
| step_reorder: "queueReorder sid ids s = Inr (qs, t) \<Longrightarrow> store_step_in D s t"
| step_remove: "queueRemove sid qid s = (b, t) \<Longrightarrow> store_step_in D s t"
| step_shift: "queueShift sid s = Inr (qo, t) \<Longrightarrow> store_step_in D s t"
| step_reserve: "reserveQueueHead now uuid sid kind rp s = Inr (rr, t) \<Longrightarrow>
    \<forall>k. kind = Some k \<longrightarrow> k = TurnSubmit \<or> k = TurnSteer \<Longrightarrow> store_step_in D s t"
| step_confirm: "confirmQueueReservation now oid receipt s = Inr (q, t) \<Longrightarrow> store_step_in D s t"
| step_release: "releaseQueueReservation now oid rel s = Inr (q, t) \<Longrightarrow> store_step_in D s t"
| step_choose: "chooseResponseIntent now uuid sid req choice pol s = Inr (ch, t) \<Longrightarrow> store_step_in D s t"
| step_respond: "settleResponseIntent now oid rs s = Inr (r, t) \<Longrightarrow> store_step_in D s t"
| step_recover: "recoverExecutingOperations now sido s = Inr (rows, t) \<Longrightarrow> store_step_in D s t"
| step_reopen: "reopen now s = Inr (rows, t) \<Longrightarrow> store_step_in D s t"
| step_close: "store_step_in D s (s\<lparr>ss_closed := True\<rparr>)"
| step_restart: "recoverRestartInterruptedTurns now sid authority g n s = Inr (out, t) \<Longrightarrow> store_step_in D s t"
| step_epoch: "transitionRuntimeEpoch now uid leg et s = Inr (er, t) \<Longrightarrow> store_step_in D s t"
| step_start_rec: "startReconciliation now sid s = Inr (rc, t) \<Longrightarrow> store_step_in D s t"
| step_settle_rec: "settleReconciliation now sid n rst reason s = Inr (br, t) \<Longrightarrow> store_step_in D s t"
| step_project: "store_step_in D s (upsertProjectionRow p s)"
| step_delete: "D sid \<Longrightarrow> deleteSession sid s = Inr (u, t) \<Longrightarrow> store_step_in D s t"
| step_prepare_deletion: "D (db_session b) \<Longrightarrow> prepareSessionDeletion now uuid b rp s = Inr (tr, t) \<Longrightarrow> store_step_in D s t"
| step_retire: "retireDeletionTombstone now sid how s = Inr (tb, t) \<Longrightarrow> store_step_in D s t"
| step_unproject: "store_step_in D s (s\<lparr>ss_projections := filter (\<lambda>p. pj_id p \<noteq> sid) (ss_projections s)\<rparr>)"
| step_batch: "appendBatch now sid inputs po n mark s = Inr (es, t) \<Longrightarrow> store_step_in D s t"
| step_batches: "appendBatches now entries s = Inr (outs, t) \<Longrightarrow> store_step_in D s t"
| step_copy: "copyTo src dst limit s = Inr (u, t) \<Longrightarrow> store_step_in D s t"
| step_child: "publishChildSession now child ces p ty data ign s = Inr (out2, t) \<Longrightarrow>
    attention_op ty = None \<Longrightarrow> 0 \<le> latestSeq s child \<Longrightarrow> store_step_in D s t"
| step_read: "setReadCursor sid n s = Inr (b, t) \<Longrightarrow> store_step_in D s t"
| step_person_read: "setPersonReadCursor sid uid2 n s = Inr (b, t) \<Longrightarrow> store_step_in D s t"
| step_draft: "savePersonDraft sid uid2 txt n s = Inr (u, t) \<Longrightarrow> store_step_in D s t"
| step_pin: "setPersonPin sid uid2 pos s = Inr (u, t) \<Longrightarrow> store_step_in D s t"
| step_mention: "setPersonMentionSeq sid uid2 n s = Inr (u, t) \<Longrightarrow> store_step_in D s t"
| step_mute: "setPersonMute sid uid2 b s = Inr (u, t) \<Longrightarrow> store_step_in D s t"
| step_observe: "ingestObservation now obs s = Inr (ir, t) \<Longrightarrow> store_step_in D s t"
| step_snapshot: "ingestSnapshot now sid snap s = Inr (irs, t) \<Longrightarrow> store_step_in D s t"

text \<open>
  Publishing a child has two conditions that every caller meets: its marker is no request,
  and sequence numbers start at 1 (\<open>log_ok_nonneg\<close> proves that for every reachable store).
  \<open>store_step\<close> is the relation in which every session may be erased.
\<close>

abbreviation store_step :: "session_store \<Rightarrow> session_store \<Rightarrow> bool" where
  "store_step \<equiv> store_step_in (\<lambda>_. True)"

context store_invariant
begin

lemmas operations_keep =
  keeps_batch [THEN keepsD]
  keeps_batches [THEN keepsD]
  keeps_copy [THEN keepsD]
  keeps_child [THEN keepsD]
  keeps_read [THEN keepsD]
  keeps_person_read [THEN keepsD]
  keeps_draft [THEN keepsD]
  keeps_pin [THEN keepsD]
  keeps_mention [THEN keepsD]
  keeps_mute [THEN keepsD]
  keeps_ingest [THEN keepsD]
  keeps_snapshot [THEN keepsD]
  keeps_append [THEN keepsD]
  keeps_prepare [THEN keepsD]
  keeps_create [THEN keepsD]
  keeps_claim [THEN keepsD]
  keeps_replay [THEN keepsD]
  keeps_settle [THEN keepsD]
  keeps_enqueue [THEN keepsD]
  keeps_reorder [THEN keepsD]
  keeps_shift [THEN keepsD]
  keeps_reserve [THEN keepsD]
  keeps_confirm [THEN keepsD]
  keeps_release [THEN keepsD]
  keeps_choose [THEN keepsD]
  keeps_settle_response [THEN keepsD]
  keeps_recover_operations [THEN keepsD]
  keeps_reopen [THEN keepsD]
  keeps_restart_turns [THEN keepsD]
  keeps_epoch [THEN keepsD]
  keeps_start_reconciliation [THEN keepsD]
  keeps_settle_reconciliation [THEN keepsD]
  keeps_delete [THEN keepsD]
  keeps_prepare_deletion [THEN keepsD]
  keeps_retire_tombstone [THEN keepsD]

lemma step_keeps: "store_step_in D s t \<Longrightarrow> P s \<Longrightarrow> P t"
proof (induction rule: store_step_in.induct)
  case (step_edit sid qid new_text s qo t)
  then show ?case using edit_keeps [of s sid qid new_text] by simp
next
  case (step_remove sid qid s b t)
  then show ?case using remove_keeps [of s sid qid] by simp
qed (auto intro: upsert project openness operations_keep)

end

definition run_ok :: "operation_row list \<Rightarrow> session_store \<Rightarrow> bool" where
  "run_ok xs s \<longleftrightarrow> evolved_from xs s \<and> log_ok s \<and> queue_ok s"

interpretation store: machine store_step "run_ok xs" for xs
  by unfold_locales (auto simp: run_ok_def intro: op_rows.step_keeps log.step_keeps queue.step_keeps)

interpretation evolving: machine store_step "evolved_from xs" for xs
  by unfold_locales (rule op_rows.step_keeps)

lemma run_evolves:
  assumes "store_step\<^sup>*\<^sup>* s t" "ops_ok s"
  shows "ops_ok t \<and> ops_evolve (ss_ops s) (ss_ops t)"
  using evolving.reachable_inv [OF assms(1), of "ss_ops s"] assms(2)
  by (simp add: evolved_from_def ops_evolve_refl)

lemma run_row:
  assumes "store_step\<^sup>*\<^sup>* s t" "ops_ok s" "operationRow s oid = Some r"
  obtains r' where "operationRow t oid = Some r'" "op_evolves r r'"
  using ops_evolve_find [OF _ assms(3)] run_evolves [OF assms(1,2)] by blast

lemma empty_store_ok: "run_ok [] new_store"
  by (simp add: run_ok_def evolved_from_def ops_ok_def ops_evolve_def log_ok_def queue_ok_def new_store_def
      session_events_def rebuild_open_def)

lemma reach_ok:
  assumes "store_step\<^sup>*\<^sup>* new_store s"
  shows "log_ok s" "queue_ok s" "ops_ok s"
  using store.reachable_inv [OF assms empty_store_ok] by (simp_all add: run_ok_def queue_ok_def)

subsection \<open>Outcomes of an operation row\<close>

lemma claimed_row:
  assumes "claimOperation now oid s = Inr (Claimed r e, s1)" "ops_ok s"
  obtains r0 where "operationRow s oid = Some r0" "ro_state r0 = OpPrepared" "ro_replay r = ro_replay r0"
    "operationRow s1 oid = Some r" "ro_state r = OpExecuting"
proof -
  have "(case operationRow s oid of
         Some r \<Rightarrow> if ro_state r = OpPrepared then take_claim now r s else Inr (NotClaimed (Some r), s)
       | None \<Rightarrow> Inr (NotClaimed None, s)) = Inr (Claimed r e, s1)"
    using assms(1) unfolding claimOperation_def by (rule transaction_InrD)
  then obtain r0 where r0: "operationRow s oid = Some r0" "ro_state r0 = OpPrepared"
    and take: "take_claim now r0 s = Inr (Claimed r e, s1)"
    by (auto split: option.splits if_splits)
  from take have r: "r = r0\<lparr>ro_state := OpExecuting, ro_updated := now\<rparr>"
    and s1: "ss_ops s1 = ss_ops (update_op (ro_id r0) (\<lambda>x. x\<lparr>ro_state := OpExecuting, ro_updated := now\<rparr>) s)"
    by (auto simp: take_claim_def Let_def split_beta)
  have "operationRow s1 oid = Some r"
    using operationRow_cong [OF s1] operationRow_update [OF assms(2) r0(1)] operationRow_id [OF r0(1)]
    by (simp add: r)
  with r0 r show ?thesis by (intro that) simp_all
qed

lemma claim_needs_prepared:
  "claimOperation now oid t = Inr (Claimed r e, u) \<Longrightarrow> \<exists>r'. operationRow t oid = Some r' \<and> ro_state r' = OpPrepared"
  unfolding claimOperation_def by (drule transaction_InrD) (auto split: option.splits if_splits)

lemma replay_needs_contract:
  "replayUnknownOperation now oid contract t = Inr (Claimed r e, u) \<Longrightarrow>
   \<exists>r'. operationRow t oid = Some r' \<and> ro_state r' = OpUnknown \<and> ro_replay r' = ReplaySameId contract"
  unfolding replayUnknownOperation_def by (drule transaction_InrD) (auto split: option.splits if_splits)

subsection \<open>Properties\<close>

text \<open>
  C3: The outcome of an operation is final. Once a row is confirmed, rejected, not applied
  or fenced, no operation of the store, restarts, epochs and the deletion of its session
  included, changes any field of it or removes it.
\<close>

theorem settled_outcome_final:
  assumes "store_step\<^sup>*\<^sup>* new_store s" "store_step\<^sup>*\<^sup>* s t"
    and "operationRow s oid = Some r" "settled (ro_state r)"
  shows "operationRow t oid = Some r"
proof -
  obtain r' where "operationRow t oid = Some r'" "op_evolves r r'"
    using run_row [OF assms(2) reach_ok(3) [OF assms(1)] assms(3)] .
  with assms(4) show ?thesis by (simp add: op_evolves_def)
qed

text \<open>
  C4: An operation is claimed at most once. After a successful claim no later claim of it
  succeeds, whatever ran in between (a crash and the recovery of the store included), and
  a replay can only claim it again under the very contract that was pinned when it was
  prepared; an operation prepared with the policy \<open>never\<close> is not claimed again at all.
\<close>

theorem claimed_at_most_once:
  assumes "store_step\<^sup>*\<^sup>* new_store s" "claimOperation now oid s = Inr (Claimed r e, s1)"
    and "store_step\<^sup>*\<^sup>* s1 t"
  shows "claimOperation now' oid t \<noteq> Inr (Claimed r' e', u)
    \<and> (ro_replay r \<noteq> ReplaySameId contract \<longrightarrow> replayUnknownOperation now' oid contract t \<noteq> Inr (Claimed r' e', u))"
proof -
  have ok: "ops_ok s" using assms(1) by (rule reach_ok)
  obtain r0 where row: "operationRow s1 oid = Some r" "ro_state r = OpExecuting"
    using claimed_row [OF assms(2) ok] .
  have "ops_ok s1"
    using op_rows.step_keeps [OF step_claim [OF assms(2)], of "[]"] ok by (simp add: evolved_from_def ops_evolve_def)
  then obtain r1 where r1: "operationRow t oid = Some r1" "op_evolves r r1"
    using run_row [OF assms(3) _ row(1)] by blast
  show ?thesis
  proof (intro conjI impI notI)
    assume "claimOperation now' oid t = Inr (Claimed r' e', u)"
    from claim_needs_prepared [OF this] r1 row(2) show False by (auto simp: op_evolves_def)
  next
    assume "ro_replay r \<noteq> ReplaySameId contract" "replayUnknownOperation now' oid contract t = Inr (Claimed r' e', u)"
    with replay_needs_contract [OF this(2)] r1 show False by (auto simp: op_evolves_def)
  qed
qed

text \<open>
  C5: Every store that runs can reach is consistent: the sequence numbers of a session are
  1, 2, \<dots> without a gap, the table of open requests is what replaying the log gives, and
  no operation id and no ordinal of a session is used twice.
\<close>

theorem log_mirrored:
  assumes "store_step\<^sup>*\<^sup>* new_store s"
  shows "map ev_seq (session_events s sid) = map int [1..<Suc (length (session_events s sid))]
    \<and> ss_open s = rebuild_open (ss_events s)
    \<and> distinct (map ro_id (ss_ops s)) \<and> distinct (map (\<lambda>r. (ro_session r, ro_ordinal r)) (ss_ops s))"
  using reach_ok [OF assms] by (simp add: log_ok_def counted_def ops_ok_def del: upt_Suc)

text \<open>
  C6: Reservations are sound in every reachable store: a reserved message names an existing
  turn operation of its own session, no other message names the same one, and it is not
  held for review; a recorded answer names a reply operation of its session, and a request
  has at most one answer.
\<close>

theorem reservations_sound:
  assumes "store_step\<^sup>*\<^sup>* new_store s"
  shows "(\<forall>q\<in>set (ss_queue s). \<forall>oid. sq_reservation q = Some oid \<longrightarrow>
      \<not> sq_held q \<and> carries_turn s (sq_session q) oid \<and> sole_reservation (ss_queue s) (sq_id q) oid)
    \<and> (\<forall>i\<in>set (ss_intents s). carries_reply s i) \<and> distinct (map intent_key (ss_intents s))"
  using reach_ok(2) [OF assms] by (simp add: queue_ok_def reservation_ok_def)

subsection \<open>Witnesses\<close>

definition after :: "'a store_result \<Rightarrow> session_store" where
  "after r = snd (projr r)"

lemma after_Inr: "\<not> isl r \<Longrightarrow> r = Inr (fst (projr r), after r)"
  by (cases r) (simp_all add: after_def)

definition demo_prepare :: "mutation_kind \<Rightarrow> prepare_input" where
  "demo_prepare kind = \<lparr>pi_session = ''s'', pi_kind = kind,
     pi_event = \<lparr>in_type = ''user/message'', in_data = JObj [(''text'', JStr ''hi'')], in_opts = plain_opts\<rparr>,
     pi_replay = None, pi_client = None, pi_fingerprint = None\<rparr>"

definition turn_prepared :: session_store where
  "turn_prepared = after (prepareOperation 1 ''op1'' (demo_prepare TurnSubmit) new_store)"

definition turn_claimed :: session_store where
  "turn_claimed = after (claimOperation 2 ''op1'' turn_prepared)"

definition turn_confirmed :: session_store where
  "turn_confirmed = after (settleOperation 3 ''op1'' (SetConfirmed None) turn_claimed)"

lemma reach_prepared: "store_step\<^sup>*\<^sup>* new_store turn_prepared"
proof -
  have "\<not> isl (prepareOperation 1 ''op1'' (demo_prepare TurnSubmit) new_store)" by code_simp
  from step_prepare [OF after_Inr [OF this]] show ?thesis
    unfolding turn_prepared_def by (rule r_into_rtranclp)
qed

lemma claim_turn: "\<exists>r e. claimOperation 2 ''op1'' turn_prepared = Inr (Claimed r e, turn_claimed) \<and> ro_replay r = ReplayNever"
proof -
  have "\<not> isl (claimOperation 2 ''op1'' turn_prepared)" by code_simp
  note eq = after_Inr [OF this]
  have "case fst (projr (claimOperation 2 ''op1'' turn_prepared)) of
      Claimed r e \<Rightarrow> ro_replay r = ReplayNever | NotClaimed r \<Rightarrow> False" by code_simp
  with eq show ?thesis
    unfolding turn_claimed_def by (cases "fst (projr (claimOperation 2 ''op1'' turn_prepared))") auto
qed

lemma reach_claimed: "store_step\<^sup>*\<^sup>* new_store turn_claimed"
  using reach_prepared claim_turn step_claim rtranclp.rtrancl_into_rtrancl by metis

lemma reach_confirmed: "store_step\<^sup>*\<^sup>* new_store turn_confirmed"
proof -
  have "\<not> isl (settleOperation 3 ''op1'' (SetConfirmed None) turn_claimed)" by code_simp
  from step_settle [OF after_Inr [OF this]] reach_claimed show ?thesis
    unfolding turn_confirmed_def by (metis rtranclp.rtrancl_into_rtrancl)
qed

lemma settled_outcome_final_witness:
  "map_option ro_state (operationRow (turn_confirmed\<lparr>ss_closed := True\<rparr>) ''op1'') = Some OpConfirmed"
proof -
  have state: "map_option ro_state (operationRow turn_confirmed ''op1'') = Some OpConfirmed" by code_simp
  then obtain r where r: "operationRow turn_confirmed ''op1'' = Some r" "settled (ro_state r)"
    by (auto simp: settled_def)
  have "store_step\<^sup>*\<^sup>* turn_confirmed (turn_confirmed\<lparr>ss_closed := True\<rparr>)"
    by (rule r_into_rtranclp) (rule step_close)
  from settled_outcome_final [OF reach_confirmed this r] state r(1) show ?thesis by simp
qed

lemma claimed_at_most_once_witness:
  "\<forall>r' e' u. claimOperation 9 ''op1'' turn_claimed \<noteq> Inr (Claimed r' e', u)
     \<and> replayUnknownOperation 9 ''op1'' ''contract'' turn_claimed \<noteq> Inr (Claimed r' e', u)"
proof -
  obtain r e where claim: "claimOperation 2 ''op1'' turn_prepared = Inr (Claimed r e, turn_claimed)" "ro_replay r = ReplayNever"
    using claim_turn by blast
  from claimed_at_most_once [OF reach_prepared claim(1) rtranclp.rtrancl_refl] claim(2) show ?thesis by simp
qed

lemma log_mirrored_witness:
  "map ev_seq (session_events turn_confirmed ''s'') = map int [1..<Suc (length (session_events turn_confirmed ''s''))]
   \<and> length (session_events turn_confirmed ''s'') = 4"
proof -
  have "length (session_events turn_confirmed ''s'') = 4" by code_simp
  with log_mirrored [OF reach_confirmed, of "''s''"] show ?thesis by blast
qed

definition demo_enqueue :: enqueue_input where
  "demo_enqueue = \<lparr>ei_session = ''s'', ei_text = ''later'', ei_delivery = DeliverQueue, ei_attachments = [],
     ei_client = None, ei_command = None, ei_hidden = False, ei_memory = None, ei_author = None\<rparr>"

definition demo_binding :: "string \<Rightarrow> int \<Rightarrow> runtime_binding" where
  "demo_binding b e = \<lparr>rb_backend = b, rb_authority = ''a'', rb_generation = 1, rb_epoch = Some e,
     rb_verified = True, rb_v2 = True, rb_location = \<lparr>rl_directory = ''/w'', rl_workspace = None\<rparr>\<rparr>"

definition demo_projection :: projection where
  "demo_projection = \<lparr>pj_id = ''s'', pj_backend = Some ''b1'', pj_binding = Some (demo_binding ''b1'' 0),
     pj_status = ''idle'', pj_updated = 0, pj_harness = None, pj_resolved = None, pj_leg = None,
     pj_transition = None, pj_model = None, pj_agent = None, pj_profile = None, pj_window = None, pj_rest = JNull\<rparr>"

definition bound_store :: session_store where
  "bound_store = upsertProjectionRow demo_projection new_store"

definition queued_store :: session_store where
  "queued_store = after (enqueue 1 ''q1'' demo_enqueue bound_store)"

definition reserved_store :: session_store where
  "reserved_store = after (reserveQueueHead 2 ''op1'' ''s'' None None queued_store)"

lemma reach_bound: "store_step\<^sup>*\<^sup>* new_store bound_store"
  unfolding bound_store_def by (rule r_into_rtranclp) (rule step_project)

lemma reach_queued: "store_step\<^sup>*\<^sup>* new_store queued_store"
proof -
  have "\<not> isl (enqueue 1 ''q1'' demo_enqueue bound_store)" by code_simp
  from step_enqueue [OF after_Inr [OF this]] reach_bound show ?thesis
    unfolding queued_store_def by (metis rtranclp.rtrancl_into_rtrancl)
qed

lemma reach_reserved: "store_step\<^sup>*\<^sup>* new_store reserved_store"
proof -
  have "\<not> isl (reserveQueueHead 2 ''op1'' ''s'' None None queued_store)" by code_simp
  from step_reserve [OF after_Inr [OF this]] reach_queued show ?thesis
    unfolding reserved_store_def by (metis option.distinct(1) rtranclp.rtrancl_into_rtrancl)
qed

lemma reservations_sound_witness:
  "map sq_reservation (ss_queue reserved_store) = [Some ''op1''] \<and> carries_turn reserved_store ''s'' ''op1''"
proof -
  have res: "map sq_reservation (ss_queue reserved_store) = [Some ''op1'']"
    and sid: "map sq_session (ss_queue reserved_store) = [''s'']" by code_simp+
  then obtain q where "ss_queue reserved_store = [q]" "sq_reservation q = Some ''op1''" "sq_session q = ''s''"
    by (cases "ss_queue reserved_store") auto
  with reservations_sound [OF reach_reserved] res show ?thesis by simp
qed

end
