(* ===== verification/SessionEpochRules.thy ===== *)
theory SessionEpochRules
  imports SessionRuns
begin

text \<open>
  What a runtime epoch does to the operations and the open requests of its session, and
  what it leaves behind in the queue.
\<close>

subsection \<open>Retiring rows\<close>

definition epoch_state :: "bool \<Rightarrow> op_state \<Rightarrow> op_state" where
  "epoch_state fenced st =
     (case st of
        OpPrepared \<Rightarrow> OpRejected
      | OpExecuting \<Rightarrow> if fenced then OpFenced else OpUnknown
      | OpUnknown \<Rightarrow> if fenced then OpFenced else OpUnknown
      | _ \<Rightarrow> st)"

text \<open>A step that changes the row it is given by \<open>g\<close> and no other row.\<close>

definition retires :: "(operation_row \<Rightarrow> operation_row) \<Rightarrow> (operation_row \<Rightarrow> session_store \<Rightarrow> 'b option store_result) \<Rightarrow> bool" where
  "retires g f \<longleftrightarrow>
     (\<forall>r s x t. f r s = Inr (x, t) \<longrightarrow>
        (\<forall>y. operationRow t y = (if y = ro_id r then map_option g (operationRow s y) else operationRow s y)))"

lemma operationRow_update_all:
  assumes "\<And>r. ro_id (f r) = ro_id r"
  shows "operationRow (update_op oid f s) y = (if y = oid then map_option f (operationRow s y) else operationRow s y)"
proof -
  have "find ((\<lambda>r. ro_id r = y) \<circ> (\<lambda>r. if ro_id r = oid then f r else r)) (ss_ops s) = operationRow s y"
    unfolding operationRow_def by (rule find_cong) (auto simp: assms)
  then have "operationRow (update_op oid f s) y = map_option (\<lambda>r. if ro_id r = oid then f r else r) (operationRow s y)"
    by (simp add: operationRow_def update_op_def find_map)
  then show ?thesis
    using operationRow_id [of s y] by (cases "operationRow s y") auto
qed

lemma retire_op_row:
  assumes "retire_op now st c m ty r s = Inr (r', t)"
  shows "operationRow t y = (if y = ro_id r then map_option (retire_row now st c m) (operationRow s y) else operationRow s y)"
proof -
  from assms have "operationRow t y = operationRow (update_op (ro_id r) (retire_row now st c m) s) y"
    by (auto simp: retire_op_def Let_def split_beta split: if_splits)
  then show ?thesis by (simp add: operationRow_update_all retire_row_def)
qed

lemma retire_op_id: "retire_op now st c m ty r s = Inr (r', t) \<Longrightarrow> ro_id r' = ro_id r"
  by (auto simp: retire_op_def retire_row_def Let_def split_beta split: if_splits)

lemma hold_turn_row: "hold_turn now uid fenced r s = Inr (x, t) \<Longrightarrow> operationRow t y = operationRow s y"
  by (auto simp: hold_turn_def holdEpochTurnForReview_def hold_reserved_def operationRow_def Let_def update_queue_def
      split: if_splits option.splits)

lemma retires_reject:
  "retires (retire_row now OpRejected ''runtime-epoch-replaced-before-execution'' never_admitted_message)
     (reject_prepared now uid fenced)"
  unfolding retires_def reject_prepared_def
  by (auto elim!: then_do_InrE simp: retire_op_row hold_turn_row)

lemma retires_interrupt:
  "retires (retire_row now OpUnknown ''runtime-epoch-replaced'' interrupted_epoch_message) (interrupt_executing now)"
  unfolding retires_def interrupt_executing_def by (auto elim!: then_do_InrE simp: retire_op_row)

lemma retires_fence:
  "retires (retire_row now OpFenced ''runtime-epoch-replaced'' fenced_message) (fence_unknown now uid)"
  unfolding retires_def fence_unknown_def
  by (auto elim!: then_do_InrE simp: retire_op_row hold_turn_row)

lemma retires_each:
  assumes "retires g f" "\<And>r. g (g r) = g r" "each_row f rs s = Inr (xs, t)"
  shows "operationRow t y = (if y \<in> ro_id ` set rs then map_option g (operationRow s y) else operationRow s y)"
  using assms(3)
proof (induction rs arbitrary: s xs)
  case (Cons r rs)
  from Cons.prems obtain x s1 where fx: "f r s = Inr (x, s1)"
    and rest: "then_do (each_row f rs s1) (\<lambda>xs s2. Inr (case x of None \<Rightarrow> xs | Some y \<Rightarrow> y # xs, s2)) = Inr (xs, t)"
    unfolding each_row.simps by (rule then_do_InrE)
  from rest obtain zs where tail: "each_row f rs s1 = Inr (zs, t)"
    by (rule then_do_InrE) auto
  have "operationRow s1 y = (if y = ro_id r then map_option g (operationRow s y) else operationRow s y)"
    using assms(1) fx by (simp add: retires_def)
  with Cons.IH [OF tail] show ?case
    by (cases "operationRow s y") (auto simp: assms(2))
qed simp

lemma retire_row_idem: "retire_row now st c m (retire_row now st c m r) = retire_row now st c m r"
  by (simp add: retire_row_def)

lemma retire_row_fields [simp]:
  "ro_state (retire_row now st c m r) = st" "ro_session (retire_row now st c m r) = ro_session r"
  "ro_ordinal (retire_row now st c m r) = ro_ordinal r"
  by (simp_all add: retire_row_def)

lemma before_iff:
  assumes "ops_ok s" "operationRow s y = Some r" "ro_session r = sid" "ro_ordinal r < n"
  shows "y \<in> ro_id ` set (ops_before s sid st n) \<longleftrightarrow> ro_state r = st"
proof
  assume "y \<in> ro_id ` set (ops_before s sid st n)"
  then obtain x where "x \<in> set (ss_ops s)" "ro_state x = st" "ro_id x = y" by (auto simp: ops_before_set)
  then show "ro_state r = st" using ops_ok_row [OF assms(1), of x] assms(2) by simp
next
  assume "ro_state r = st"
  then show "y \<in> ro_id ` set (ops_before s sid st n)"
    using operationRow_id [OF assms(2)] assms(3,4) by (auto simp: ops_before_set intro!: image_eqI [of y ro_id r])
qed

text \<open>One pass over the rows in one state.\<close>

lemma pass_row:
  assumes "ops_ok s" "operationRow s y = Some r" "ro_session r = sid" "ro_ordinal r < n"
    and "retires (retire_row now st' c m) f" "each_row f (ops_before s sid st n) s = Inr (xs, t)"
  shows "\<exists>r'. operationRow t y = Some r' \<and> ro_session r' = sid \<and> ro_ordinal r' < n
    \<and> ro_state r' = (if ro_state r = st then st' else ro_state r)"
  using retires_each [OF assms(5) retire_row_idem assms(6), of y] before_iff [OF assms(1-4), of st] assms(2-4)
  by simp

lemma pass_ok:
  assumes "ops_ok s" "\<And>r u. r \<in> set rs \<Longrightarrow> evolved_from [] u \<Longrightarrow> keeps (evolved_from []) (f r u)"
    and "each_row f rs s = Inr (xs, t)"
  shows "ops_ok t"
proof -
  have "evolved_from [] s" using assms(1) by (simp add: evolved_from_def ops_evolve_def)
  then have "keeps (evolved_from []) (each_row f rs s)" by (intro keeps_each_row assms(2))
  then show ?thesis using assms(3) by (simp add: evolved_from_def)
qed

lemma pass_reject_ok:
  "ops_ok s \<Longrightarrow> each_row (reject_prepared now uid fenced) (ops_before s sid OpPrepared n) s = Inr (xs, t) \<Longrightarrow> ops_ok t"
  by (erule pass_ok [rotated 2])
    (auto simp: reject_prepared_def ops_before_set settled_def
      intro!: keeps_then_do [OF op_rows.keeps_retire] op_rows.keeps_hold_turn)

lemma pass_interrupt_ok:
  "ops_ok s \<Longrightarrow> each_row (interrupt_executing now) (ops_before s sid OpExecuting n) s = Inr (xs, t) \<Longrightarrow> ops_ok t"
  by (erule pass_ok [rotated 2])
    (auto simp: interrupt_executing_def ops_before_set settled_def intro!: keeps_then_do [OF op_rows.keeps_retire])

lemma retire_older_row:
  assumes "ops_ok s" "operationRow s y = Some r" "ro_session r = sid" "ro_ordinal r < n"
    and "retire_older now uid sid n fenced s = Inr (out, t)"
  shows "\<exists>r'. operationRow t y = Some r' \<and> ro_state r' = epoch_state fenced (ro_state r)"
proof -
  from assms(5) obtain held1 s1 where p1: "each_row (reject_prepared now uid fenced) (ops_before s sid OpPrepared n) s = Inr (held1, s1)"
    and rest1: "then_do (each_row (interrupt_executing now) (ops_before s1 sid OpExecuting n) s1) (\<lambda>none s2.
     if \<not> fenced then Inr (([], held1), s2)
     else then_do (each_row (fence_unknown now uid) (ops_before s2 sid OpUnknown n) s2)
            (\<lambda>held2 s3. Inr ((map ro_id (ops_before s2 sid OpUnknown n), held1 @ held2), s3))) = Inr (out, t)"
    unfolding retire_older_def by (rule then_do_InrE)
  from rest1 obtain none s2 where p2: "each_row (interrupt_executing now) (ops_before s1 sid OpExecuting n) s1 = Inr (none, s2)"
    and rest2: "(if \<not> fenced then Inr (([], held1), s2)
     else then_do (each_row (fence_unknown now uid) (ops_before s2 sid OpUnknown n) s2)
            (\<lambda>held2 s3. Inr ((map ro_id (ops_before s2 sid OpUnknown n), held1 @ held2), s3))) = Inr (out, t)"
    by (rule then_do_InrE)
  have ok1: "ops_ok s1" using pass_reject_ok [OF assms(1) p1] .
  have ok2: "ops_ok s2" using pass_interrupt_ok [OF ok1 p2] .
  obtain r1 where r1: "operationRow s1 y = Some r1" "ro_session r1 = sid" "ro_ordinal r1 < n"
    "ro_state r1 = (if ro_state r = OpPrepared then OpRejected else ro_state r)"
    using pass_row [OF assms(1-4) retires_reject p1] by blast
  obtain r2 where r2: "operationRow s2 y = Some r2" "ro_session r2 = sid" "ro_ordinal r2 < n"
    "ro_state r2 = (if ro_state r1 = OpExecuting then OpUnknown else ro_state r1)"
    using pass_row [OF ok1 r1(1-3) retires_interrupt p2] by blast
  show ?thesis
  proof (cases fenced)
    case False
    with rest2 r1(4) r2 show ?thesis by (auto simp: epoch_state_def split: op_state.split)
  next
    case True
    with rest2 obtain held2 where p3: "each_row (fence_unknown now uid) (ops_before s2 sid OpUnknown n) s2 = Inr (held2, t)"
      by (auto elim!: then_do_InrE)
    obtain r3 where "operationRow t y = Some r3" "ro_state r3 = (if ro_state r2 = OpUnknown then OpFenced else ro_state r2)"
      using pass_row [OF ok2 r2(1-3) retires_fence p3] by blast
    with True r1(4) r2(4) show ?thesis by (auto simp: epoch_state_def split: op_state.split)
  qed
qed

subsection \<open>The transition as a whole\<close>

lemma expire_frame [simp]: "ss_ops (appendEpochRequestExpirations now sid e es s) = ss_ops s"
proof -
  have "ss_ops (fold (expire_request now sid e) ks s) = ss_ops s" for ks
    by (induction ks arbitrary: s) (simp_all add: expire_request_def)
  then show ?thesis by (simp add: appendEpochRequestExpirations_def)
qed

lemma snapshots_frame: "appendEpochStateSnapshots now sid es s = Inr (u, t) \<Longrightarrow> ss_ops t = ss_ops s"
  unfolding appendEpochStateSnapshots_def
  by (erule then_do_InrE) (auto simp: carry_snapshot_def split: option.splits)

lemma publish_frame: "publish_switch now i p s = Inr (u, t) \<Longrightarrow> ss_ops t = ss_ops s"
  by (auto simp: publish_switch_def split: option.splits if_splits)

lemma transition_InrE:
  assumes "transitionRuntimeEpoch now uid leg i s = Inr (res, t)"
  obtains p current reset where "projection_of s (et_session i) = Some p" "pj_binding p = Some current"
    "operationRow s (et_reset i) = Some reset" "replacement_fresh current (et_replacement i)"
    "case et_fence i of None \<Rightarrow> True | Some f \<Rightarrow> fence_matches current (et_replacement i) f"
    "samePersistedBinding current (et_expected i)" "reset_confirmed i reset"
    "commit_epoch now uid leg i p current reset s = Inr (res, t)"
  using transaction_InrD [OF assms [unfolded transitionRuntimeEpoch_def]]
  by (simp split: if_splits option.splits)

lemma commit_InrE:
  assumes "commit_epoch now uid leg i p current reset s = Inr (res, t)"
  obtains s1 out s2 u s4 s5 where
    "s1 = snd (appendInTransaction now (et_session i) ''runtime/epoch-replaced'' (marker_data i current) ignorable_opts s)"
    "retire_older now uid (et_session i) (ro_ordinal reset) (et_fence i \<noteq> None) s1 = Inr (out, s2)"
    "appendEpochStateSnapshots now (et_session i) (sort_key ev_seq (session_events s (et_session i)))
       (appendEpochRequestExpirations now (et_session i) (bindingEpoch current)
          (sort_key ev_seq (session_events s (et_session i))) s2) = Inr (u, s4)"
    "publish_switch now i p s4 = Inr (u, s5)" "t = upsertProjectionRow (next_projection now leg i p) s5"
    "er_projection res = next_projection now leg i p"
  using assms unfolding commit_epoch_def Let_def split_beta
  by (elim then_do_InrE) auto

lemma next_projection_binding:
  "pj_binding (next_projection now leg i p) = Some (et_replacement i)"
  "pj_id (next_projection now leg i p) = pj_id p"
  "pj_status (next_projection now leg i p) = ''epoch-pending''"
  by (simp_all add: next_projection_def Let_def split: option.split)

lemma find_replaced:
  "find (\<lambda>q. k q = k p) (map (\<lambda>q. if k q = k p then p else q) xs) = (if k p \<in> k ` set xs then Some p else None)"
  by (induction xs) auto

lemma upsert_projection_of: "projection_of (upsertProjectionRow p s) (pj_id p) = Some p"
proof (cases "pj_id p \<in> pj_id ` set (ss_projections s)")
  case True
  then show ?thesis by (simp add: projection_of_def upsertProjectionRow_def find_replaced)
next
  case False
  then have "find (\<lambda>q. pj_id q = pj_id p) (ss_projections s) = None"
    unfolding find_None_iff by (metis image_eqI)
  with False show ?thesis by (simp add: projection_of_def upsertProjectionRow_def find_append)
qed

text \<open>
  A runtime epoch retires every operation of its session that is older than the
  confirmed reset: what was prepared is rejected, what was executing or unknown is fenced
  when the old runtime is proved gone and unknown otherwise, and what was settled keeps its
  state. The session is then bound to the replacement, exactly one epoch further, and waits.
\<close>

theorem epoch_retires_older:
  assumes "store_step\<^sup>*\<^sup>* new_store s" "transitionRuntimeEpoch now uid leg i s = Inr (res, t)"
    and "operationRow s (et_reset i) = Some reset"
    and "operationRow s y = Some r" "ro_session r = et_session i" "ro_ordinal r < ro_ordinal reset"
  shows "(\<exists>r'. operationRow t y = Some r' \<and> ro_state r' = epoch_state (et_fence i \<noteq> None) (ro_state r))
    \<and> (\<exists>p current. projection_of s (et_session i) = Some p \<and> pj_binding p = Some current
         \<and> projection_of t (et_session i) = Some (er_projection res)
         \<and> pj_binding (er_projection res) = Some (et_replacement i)
         \<and> rb_epoch (et_replacement i) = Some (bindingEpoch current + 1)
         \<and> pj_status (er_projection res) = ''epoch-pending'')"
proof -
  obtain p current reset' where p: "projection_of s (et_session i) = Some p" "pj_binding p = Some current"
    "replacement_fresh current (et_replacement i)"
    and "operationRow s (et_reset i) = Some reset'"
    and commit: "commit_epoch now uid leg i p current reset' s = Inr (res, t)"
    using assms(2) by (rule transition_InrE)
  then have reset: "reset' = reset" using assms(3) by simp
  obtain s1 out s2 u s4 s5 where
    s1: "s1 = snd (appendInTransaction now (et_session i) ''runtime/epoch-replaced'' (marker_data i current) ignorable_opts s)"
    and older: "retire_older now uid (et_session i) (ro_ordinal reset) (et_fence i \<noteq> None) s1 = Inr (out, s2)"
    and snaps: "appendEpochStateSnapshots now (et_session i) (sort_key ev_seq (session_events s (et_session i)))
       (appendEpochRequestExpirations now (et_session i) (bindingEpoch current)
          (sort_key ev_seq (session_events s (et_session i))) s2) = Inr (u, s4)"
    and pub: "publish_switch now i p s4 = Inr (u, s5)" and t: "t = upsertProjectionRow (next_projection now leg i p) s5"
    and proj: "er_projection res = next_projection now leg i p"
    using commit_InrE [OF commit [unfolded reset]] by blast
  have "ops_ok s1" using reach_ok(3) [OF assms(1)] by (simp add: s1 ops_ok_def)
  then have row: "\<exists>r'. operationRow s2 y = Some r' \<and> ro_state r' = epoch_state (et_fence i \<noteq> None) (ro_state r)"
    using assms(4-6) by (intro retire_older_row [OF _ _ _ _ older]) (simp_all add: s1)
  have "ss_ops t = ss_ops s2"
    using snapshots_frame [OF snaps] publish_frame [OF pub] by (simp add: t)
  then have "operationRow t y = operationRow s2 y" by (rule operationRow_cong)
  moreover have "pj_id p = et_session i" using p(1) by (auto simp: projection_of_def dest: find_SomeD)
  ultimately show ?thesis
    using row p proj upsert_projection_of [of "next_projection now leg i p" s5]
    by (simp add: t next_projection_binding replacement_fresh_def)
qed

subsection \<open>Open requests\<close>

fun attention_of :: "request_kind \<Rightarrow> attention_kind" where
  "attention_of RkPermission = AttPermission"
| "attention_of RkQuestion = AttQuestion"
| "attention_of RkSecret = AttQuestion"

lemma attention_request_op: "attention_op ty = map_option (map_prod attention_of id) (request_op ty)"
  by (simp add: attention_op_def request_op_def)

definition covers_open ::
  "string \<Rightarrow> (string \<times> attention_kind \<times> string) list \<Rightarrow> (request_kind \<times> string, unit) jsmap \<Rightarrow> bool" where
  "covers_open sid rows m \<longleftrightarrow>
     (\<forall>k req. (sid, k, req) \<in> set rows \<longrightarrow> (\<exists>rk. attention_of rk = k \<and> jm_has m (rk, req)))
     \<and> (\<forall>x\<in>set (jm_keys m). snd x \<noteq> [])"

lemma jm_keys_has: "x \<in> set (jm_keys m) \<longleftrightarrow> jm_has m x"
  by (simp add: jm_has_keys)

lemma covers_openD:
  assumes "covers_open sid rows m" "(sid, k, req) \<in> set rows"
  obtains rk where "attention_of rk = k" "jm_has m (rk, req)"
  using assms by (auto simp: covers_open_def)

lemma covers_open_set:
  assumes "covers_open sid rows m" "req \<noteq> []"
    and "set rows' \<subseteq> insert (sid, attention_of rk, req) (set rows)"
  shows "covers_open sid rows' (jm_set (rk, req) () m)"
  unfolding covers_open_def
proof (intro conjI allI impI ballI)
  fix k q assume "(sid, k, q) \<in> set rows'"
  then have "k = attention_of rk \<and> q = req \<or> (sid, k, q) \<in> set rows" using assms(3) by auto
  then show "\<exists>rk'. attention_of rk' = k \<and> jm_has (jm_set (rk, req) () m) (rk', q)"
    by (auto simp: jm_has_update elim: covers_openD [OF assms(1)])
next
  fix x assume "x \<in> set (jm_keys (jm_set (rk, req) () m))"
  then show "snd x \<noteq> []" using assms(1,2) by (auto simp: covers_open_def jm_keys_has jm_has_update)
qed

lemma covers_open_delete:
  assumes "covers_open sid rows m"
  shows "covers_open sid (filter (\<lambda>r. r \<noteq> (sid, attention_of rk, req)) rows) (jm_delete (rk, req) m)"
  unfolding covers_open_def
proof (intro conjI allI impI ballI)
  fix k q assume "(sid, k, q) \<in> set (filter (\<lambda>r. r \<noteq> (sid, attention_of rk, req)) rows)"
  then have q: "(sid, k, q) \<in> set rows" "(k, q) \<noteq> (attention_of rk, req)" by auto
  obtain rk' where "attention_of rk' = k" "jm_has m (rk', q)" using covers_openD [OF assms q(1)] .
  with q(2) show "\<exists>rk'. attention_of rk' = k \<and> jm_has (jm_delete (rk, req) m) (rk', q)"
    by (auto simp: jm_has_update)
next
  fix x assume "x \<in> set (jm_keys (jm_delete (rk, req) m))"
  then show "snd x \<noteq> []" using assms by (simp add: covers_open_def jm_keys_has jm_has_update)
qed

lemma covers_open_step:
  assumes "covers_open sid rows m"
  shows "covers_open sid (applyAttention sid (ev_type e) (ev_data e) rows) (open_step e m)"
proof (cases "request_op (ev_type e)")
  case (Some p)
  obtain rk opens where p: "p = (rk, opens)" by force
  show ?thesis
  proof (cases "json_str (ev_field e ''requestId'')")
    case req: (Some req)
    consider "req = []" | "req \<noteq> []" opens | "req \<noteq> []" "\<not> opens" by blast
    then show ?thesis
    proof cases
      case 2
      then have "covers_open sid (applyAttention sid (ev_type e) (ev_data e) rows) (jm_set (rk, req) () m)"
        using req Some p
        by (intro covers_open_set [OF assms]) (auto simp: applyAttention_def attention_request_op ev_field_def)
      with 2 req Some p show ?thesis by (simp add: open_step_def)
    next
      case 3
      with req Some p covers_open_delete [OF assms, of rk req] show ?thesis
        by (simp add: applyAttention_def attention_request_op open_step_def ev_field_def)
    qed (use assms req Some p in \<open>simp_all add: applyAttention_def attention_request_op open_step_def ev_field_def\<close>)
  qed (use assms Some p in \<open>simp add: applyAttention_def attention_request_op open_step_def ev_field_def\<close>)
qed (use assms in \<open>simp add: applyAttention_def attention_request_op open_step_def split: option.split\<close>)

lemma applyAttention_other: "x \<noteq> sid \<Longrightarrow> (sid, k, req) \<in> set (applyAttention x ty data rows) \<longleftrightarrow> (sid, k, req) \<in> set rows"
  by (auto simp: applyAttention_def split: option.splits)

lemma covers_open_fold:
  "covers_open sid rows m \<Longrightarrow>
   covers_open sid (fold (\<lambda>e. applyAttention (ev_session e) (ev_type e) (ev_data e)) es rows)
     (fold open_step (filter (\<lambda>e. ev_session e = sid) es) m)"
proof (induction es arbitrary: rows m)
  case (Cons e es)
  show ?case
  proof (cases "ev_session e = sid")
    case True
    with Cons.IH [OF covers_open_step [OF Cons.prems]] show ?thesis by simp
  next
    case False
    then have "covers_open sid (applyAttention (ev_session e) (ev_type e) (ev_data e) rows) m"
      using Cons.prems by (simp add: covers_open_def applyAttention_other)
    with Cons.IH [OF this] False show ?thesis by simp
  qed
qed simp

lemma counted_sorted: "counted es \<Longrightarrow> sort_key ev_seq es = es"
  by (rule sort_key_id_if_sorted) (simp add: counted_def sorted_wrt_map del: upt_Suc)

lemma covers_open_log:
  assumes "log_ok s"
  shows "covers_open sid (ss_open s) (fold open_step (sort_key ev_seq (session_events s sid)) [])"
proof -
  have "counted (session_events s sid)" using assms by (simp add: log_ok_def)
  then show ?thesis
    using covers_open_fold [of sid "[]" "[]" "ss_events s"] assms
    by (simp add: counted_sorted log_ok_def rebuild_open_def session_events_def covers_open_def jm_keys_def)
qed

lemma append_open:
  "ss_open (snd (appendInTransaction now sid ty data opts s)) = applyAttention sid ty data (ss_open s)"
  by (simp add: appendInTransaction_def Let_def)

lemma expire_open:
  "snd k \<noteq> [] \<Longrightarrow> ss_open (expire_request now sid e k s) = filter (\<lambda>r. r \<noteq> (sid, attention_of (fst k), snd k)) (ss_open s)"
  by (cases "fst k")
    (simp_all add: expire_request_def append_open applyAttention_def attention_op_def)

lemma expire_all_open:
  assumes "\<forall>k\<in>set ks. snd k \<noteq> []"
  shows "set (ss_open (fold (expire_request now sid e) ks s)) =
    set (ss_open s) - (\<lambda>k. (sid, attention_of (fst k), snd k)) ` set ks"
  using assms by (induction ks arbitrary: s) (auto simp: expire_open)

lemma quiet_append: "attention_op ty = None \<Longrightarrow> ss_open (snd (appendInTransaction now sid ty data opts s)) = ss_open s"
  by (simp add: append_open applyAttention_def)

lemma quiet_mutation: "attention_op ty = None \<Longrightarrow> ss_open (snd (appendMutationState now r ty x s)) = ss_open s"
  by (simp add: appendMutationState_def Let_def split_beta quiet_append)

definition open_is :: "(string \<times> attention_kind \<times> string) list \<Rightarrow> session_store \<Rightarrow> bool" where
  "open_is rows s \<longleftrightarrow> ss_open s = rows"

lemma keeps_retire_open:
  "attention_op ty = None \<Longrightarrow> open_is X s \<Longrightarrow> keeps (open_is X) (retire_op now st c m ty r s)"
  by (simp add: retire_op_def Let_def split_beta quiet_mutation open_is_def)

lemma keeps_hold_open: "open_is X s \<Longrightarrow> keeps (open_is X) (hold_turn now uid fenced r s)"
  by (simp add: hold_turn_def holdEpochTurnForReview_def hold_reserved_def Let_def open_is_def split: option.split)

lemma keeps_older_open: "open_is X s \<Longrightarrow> keeps (open_is X) (retire_older now uid sid n fenced s)"
  unfolding retire_older_def reject_prepared_def [abs_def] interrupt_executing_def [abs_def] fence_unknown_def [abs_def]
  by (auto intro!: keeps_then_do [where P = "open_is X" and Q = "open_is X"] keeps_each_row
      keeps_retire_open keeps_hold_open simp: attention_op_def)

lemma snapshots_open: "appendEpochStateSnapshots now sid es s = Inr (u, t) \<Longrightarrow> ss_open t = ss_open s"
  unfolding appendEpochStateSnapshots_def
  by (erule then_do_InrE) (auto simp: carry_snapshot_def quiet_append attention_op_def split: option.splits)

lemma publish_open: "publish_switch now i p s = Inr (u, t) \<Longrightarrow> ss_open t = ss_open s"
  by (auto simp: publish_switch_def quiet_append attention_op_def split: option.splits if_splits)

text \<open>
  C14: No request of the old runtime stays open across an epoch: after the transition the
  session has no open permission and no open question, so nothing asked by the runtime
  that is gone can still be answered; the open requests of other sessions are untouched.
\<close>

theorem epoch_closes_requests:
  assumes "store_step\<^sup>*\<^sup>* new_store s" "transitionRuntimeEpoch now uid leg i s = Inr (res, t)"
  shows "(et_session i, k, req) \<notin> set (ss_open t)
    \<and> (sid \<noteq> et_session i \<longrightarrow> (sid, k, req) \<in> set (ss_open t) \<longleftrightarrow> (sid, k, req) \<in> set (ss_open s))"
proof -
  let ?sid = "et_session i" and ?prior = "sort_key ev_seq (session_events s (et_session i))"
  obtain p current reset where commit: "commit_epoch now uid leg i p current reset s = Inr (res, t)"
    using assms(2) by (rule transition_InrE)
  obtain s1 out s2 u s4 s5 where
    s1: "s1 = snd (appendInTransaction now ?sid ''runtime/epoch-replaced'' (marker_data i current) ignorable_opts s)"
    and older: "retire_older now uid ?sid (ro_ordinal reset) (et_fence i \<noteq> None) s1 = Inr (out, s2)"
    and snaps: "appendEpochStateSnapshots now ?sid ?prior
       (appendEpochRequestExpirations now ?sid (bindingEpoch current) ?prior s2) = Inr (u, s4)"
    and pub: "publish_switch now i p s4 = Inr (u, s5)" and t: "t = upsertProjectionRow (next_projection now leg i p) s5"
    by (rule commit_InrE [OF commit]) (rule that)
  have cover: "covers_open ?sid (ss_open s) (fold open_step ?prior [])"
    using covers_open_log [OF reach_ok(1) [OF assms(1)]] .
  have "open_is (ss_open s) s1"
    by (simp add: s1 open_is_def quiet_append attention_op_def)
  then have "ss_open s2 = ss_open s"
    using keepsD [OF keeps_older_open older] by (simp add: open_is_def)
  moreover have "ss_open t = ss_open (appendEpochRequestExpirations now ?sid (bindingEpoch current) ?prior s2)"
    using snapshots_open [OF snaps] publish_open [OF pub] by (simp add: t)
  moreover have "\<forall>k\<in>set (open_requests ?prior). snd k \<noteq> []"
    using cover by (simp add: covers_open_def open_requests_def)
  note expire_all_open [OF this, of now ?sid "bindingEpoch current" s2]
  ultimately have gone: "set (ss_open t) =
      set (ss_open s) - (\<lambda>k. (?sid, attention_of (fst k), snd k)) ` set (open_requests ?prior)"
    by (simp only: appendEpochRequestExpirations_def)
  have "(?sid, k, req) \<in> (\<lambda>k. (?sid, attention_of (fst k), snd k)) ` set (open_requests ?prior)"
    if still: "(?sid, k, req) \<in> set (ss_open s)"
  proof -
    obtain rk where "attention_of rk = k" "jm_has (fold open_step ?prior []) (rk, req)"
      using covers_openD [OF cover still] .
    then show ?thesis by (force simp: open_requests_def jm_keys_has)
  qed
  with gone show ?thesis by auto
qed

subsection \<open>A reservation whose operation is settled\<close>

lemma sole_reserved_by:
  assumes "queue_ok s" "q \<in> set (ss_queue s)" "sq_reservation q = Some oid"
  shows "reserved_by s oid = Some q"
proof -
  obtain q' where q': "reserved_by s oid = Some q'"
    using assms(2,3) find_NoneD [of _ "ss_queue s" q] by (cases "reserved_by s oid") (auto simp: reserved_by_def)
  then have "q' \<in> set (ss_queue s)" "sq_reservation q' = Some oid"
    by (auto simp: reserved_by_def dest: find_SomeD)
  moreover have "sole_reservation (ss_queue s) (sq_id q) oid"
    using assms by (simp add: queue_ok_def reservation_ok_def)
  ultimately have same: "sq_id q' = sq_id q" "q' \<in> set (ss_queue s)"
    unfolding sole_reservation_def by blast+
  have ids: "distinct (map sq_id (ss_queue s))" using assms(1) by (simp add: queue_ok_def)
  have "q' = q"
    using find_by_key [OF ids assms(2)] find_by_key [OF ids same(2)] same(1) by simp
  with q' show ?thesis by simp
qed

lemma settled_transition: "settled (ro_state r) \<Longrightarrow> \<not> transition_allowed (ro_state r) st"
  by (cases st) (auto simp: settled_def)

text \<open>
  C15: A queued message whose reservation names a settled operation is stuck, in every
  reachable store: it can neither be confirmed nor released, nor edited, removed or
  reordered, settling its operation fails, and while it heads the queue nothing behind it
  is dispatched, because every reservation reports it as blocking.
\<close>

theorem settled_reservation_sticks:
  assumes "store_step\<^sup>*\<^sup>* new_store s" "\<not> ss_closed s"
    and "q \<in> set (ss_queue s)" "sq_reservation q = Some oid"
    and "operationRow s oid = Some r" "settled (ro_state r)"
  shows "isl (confirmQueueReservation now oid receipt s) \<and> isl (releaseQueueReservation now oid rel s)
    \<and> isl (settleOperation now oid st s) \<and> isl (queueReorder (sq_session q) ids s)
    \<and> fst (queueEdit (sq_session q) (sq_id q) new_text s) = None
    \<and> fst (queueRemove (sq_session q) (sq_id q) s) = False
    \<and> (queue_head s (sq_session q) = Some q \<longrightarrow>
         reserveQueueHead now uuid (sq_session q) kind policy s = Inr (QueueBlocked q r, s))"
proof -
  have ok: "queue_ok s" using assms(1) by (rule reach_ok)
  have by_op: "reserved_by s oid = Some q" using sole_reserved_by [OF ok assms(3,4)] .
  have none: "transitionOperation now oid x s = Inl SeInvalidTransition" for x
    using assms(5) settled_transition [OF assms(6)] by (simp add: transitionOperation_def)
  have only: "x = q" if "x \<in> set (ss_queue s)" "sq_id x = sq_id q" for x
    using that assms(3) ok by (auto simp: queue_ok_def distinct_map inj_on_def)
  then have locked: "find (editable (sq_session q) (sq_id q)) (ss_queue s) = None"
    using assms(4) by (auto simp: find_None_iff editable_def)
  have "\<exists>x\<in>set (session_queue s (sq_session q)). sq_reservation x \<noteq> None"
    using assms(3,4) by (force simp: session_queue_def)
  then have "isl (queueReorder (sq_session q) ids s)"
    by (simp add: queueReorder_def store_transaction_def)
  moreover have "reserveQueueHead now uuid (sq_session q) kind policy s = Inr (QueueBlocked q r, s)"
    if "queue_head s (sq_session q) = Some q"
    using that assms(2-5) by_op ok
    by (simp add: reserveQueueHead_def store_transaction_def queueReservation_def queue_ok_def reservation_ok_def)
  ultimately show ?thesis
    using by_op assms(2,5) locked
    by (simp add: confirmQueueReservation_def releaseQueueReservation_def settleOperation_def store_transaction_def
        queueReservation_def none queueEdit_def queueRemove_def Let_def)
qed

lemma chosen_intent:
  assumes "chooseResponseIntent now uuid sid req choice policy s = Inr (ChosenIntent i r, s1)"
  shows "ri_session i = sid" "ri_kind i = choice_kind choice" "ri_request i = req" "i \<in> set (ss_intents s1)"
  using transaction_InrD [OF assms [unfolded chooseResponseIntent_def]]
  by (auto simp: Let_def split_beta split: option.splits if_splits elim!: then_do_InrE)

text \<open>
  The first answer to a request wins. While the recorded answer stands, whoever answers
  the same request again gets the recorded answer and its operation, not a second operation,
  and the store does not change.
\<close>

theorem first_answer_wins:
  assumes "store_step\<^sup>*\<^sup>* new_store s"
    and "chooseResponseIntent now uuid sid req choice policy s = Inr (ChosenIntent i r, s1)"
    and "store_step\<^sup>*\<^sup>* s1 t" "i \<in> set (ss_intents t)" "\<not> ss_closed t"
    and "choice_kind choice' = choice_kind choice"
  shows "\<exists>r'. chooseResponseIntent now' uuid' sid req choice' policy' t = Inr (ExistingIntent i r', t)
    \<and> operationRow t (ri_operation i) = Some r'"
proof -
  have "store_step\<^sup>*\<^sup>* new_store t"
    using assms(1) step_choose [OF assms(2)] assms(3) by (meson rtranclp.rtrancl_into_rtrancl rtranclp_trans)
  then have ok: "queue_ok t" by (rule reach_ok)
  note key = chosen_intent(1-3) [OF assms(2)]
  have "responseIntent t sid (choice_kind choice') req = Some i"
  proof -
    have "find (\<lambda>x. intent_key x = intent_key i) (ss_intents t) = Some i"
      using ok assms(4) by (intro find_by_key) (simp_all add: queue_ok_def)
    then show ?thesis by (simp add: responseIntent_def intent_key_def key assms(6))
  qed
  moreover obtain r' where "operationRow t (ri_operation i) = Some r'"
    using ok assms(4) by (auto simp: queue_ok_def carries_reply_def)
  ultimately show ?thesis
    using assms(5) by (simp add: chooseResponseIntent_def store_transaction_def)
qed

subsection \<open>Witnesses\<close>

definition reset_prepared :: session_store where
  "reset_prepared = after (prepareOperation 3 ''op2'' (demo_prepare SessionReset) reserved_store)"

definition reset_claimed :: session_store where
  "reset_claimed = after (claimOperation 4 ''op2'' reset_prepared)"

definition reset_done :: session_store where
  "reset_done = after (settleOperation 5 ''op2'' (SetConfirmed (Some ''b2'')) reset_claimed)"

definition asked_store :: session_store where
  "asked_store = after (append_event 6 ''s'' ''permission/requested'' (JObj [(''requestId'', JStr ''p1'')])
     ignorable_opts reset_done)"

definition demo_epoch :: epoch_input where
  "demo_epoch = \<lparr>et_session = ''s'', et_expected = demo_binding ''b1'' 0, et_replacement = demo_binding ''b2'' 1,
     et_reset = ''op2'', et_reason = ''lost'', et_harness = None, et_fence = None\<rparr>"

definition next_epoch :: session_store where
  "next_epoch = after (transitionRuntimeEpoch 7 (\<lambda>x. x) ''leg'' demo_epoch asked_store)"

lemma reach_asked: "store_step\<^sup>*\<^sup>* new_store asked_store"
proof -
  have ok: "\<not> isl (prepareOperation 3 ''op2'' (demo_prepare SessionReset) reserved_store)"
    "\<not> isl (claimOperation 4 ''op2'' reset_prepared)"
    "\<not> isl (settleOperation 5 ''op2'' (SetConfirmed (Some ''b2'')) reset_claimed)"
    "\<not> isl (append_event 6 ''s'' ''permission/requested'' (JObj [(''requestId'', JStr ''p1'')]) ignorable_opts reset_done)"
    by code_simp+
  have "store_step reserved_store reset_prepared" "store_step reset_prepared reset_claimed"
    "store_step reset_claimed reset_done" "store_step reset_done asked_store"
    using step_prepare [OF after_Inr [OF ok(1)]] step_claim [OF after_Inr [OF ok(2)]]
      step_settle [OF after_Inr [OF ok(3)]] step_append [OF after_Inr [OF ok(4)]]
    by (simp_all add: reset_prepared_def [symmetric] reset_claimed_def [symmetric] reset_done_def [symmetric]
        asked_store_def [symmetric])
  with reach_reserved show ?thesis by (meson rtranclp.rtrancl_into_rtrancl)
qed

lemma epoch_happens:
  "\<exists>res. transitionRuntimeEpoch 7 (\<lambda>x. x) ''leg'' demo_epoch asked_store = Inr (res, next_epoch)"
proof -
  have "\<not> isl (transitionRuntimeEpoch 7 (\<lambda>x. x) ''leg'' demo_epoch asked_store)" by code_simp
  from after_Inr [OF this] show ?thesis unfolding next_epoch_def by blast
qed

lemma epoch_retires_older_witness:
  "map_option ro_state (operationRow asked_store ''op1'') = Some OpPrepared
   \<and> map_option ro_state (operationRow next_epoch ''op1'') = Some OpRejected"
proof -
  obtain res where epoch: "transitionRuntimeEpoch 7 (\<lambda>x. x) ''leg'' demo_epoch asked_store = Inr (res, next_epoch)"
    using epoch_happens by blast
  have rows: "map_option (\<lambda>r. (ro_state r, ro_session r, ro_ordinal r)) (operationRow asked_store ''op1'') = Some (OpPrepared, ''s'', 1)"
    "map_option ro_ordinal (operationRow asked_store (et_reset demo_epoch)) = Some 2"
    by code_simp+
  then obtain r reset where r: "operationRow asked_store ''op1'' = Some r" "ro_state r = OpPrepared" "ro_session r = ''s''"
    "ro_ordinal r = 1" and reset: "operationRow asked_store (et_reset demo_epoch) = Some reset" "ro_ordinal reset = 2"
    by auto
  have "ro_session r = et_session demo_epoch" "ro_ordinal r < ro_ordinal reset" "et_fence demo_epoch = None"
    using r reset by (simp_all add: demo_epoch_def)
  with epoch_retires_older [OF reach_asked epoch reset(1) r(1)] r(1,2) show ?thesis
    by (auto simp: epoch_state_def)
qed

lemma epoch_closes_requests_witness:
  "(''s'', AttPermission, ''p1'') \<in> set (ss_open asked_store) \<and> (''s'', AttPermission, ''p1'') \<notin> set (ss_open next_epoch)"
proof -
  have "(''s'', AttPermission, ''p1'') \<in> set (ss_open asked_store)" by code_simp
  moreover have "et_session demo_epoch = ''s''" by (simp add: demo_epoch_def)
  ultimately show ?thesis
    using epoch_happens epoch_closes_requests [OF reach_asked, of 7 "\<lambda>x. x" "''leg''" demo_epoch _ next_epoch AttPermission "''p1''" "''s''"]
    by auto
qed

text \<open>An epoch without a fence leaves such a reservation behind.\<close>

lemma reach_next_epoch: "store_step\<^sup>*\<^sup>* new_store next_epoch"
  using epoch_happens step_epoch reach_asked by (meson rtranclp.rtrancl_into_rtrancl)

lemma settled_reservation_sticks_witness:
  "case ss_queue next_epoch of
     [q] \<Rightarrow> sq_reservation q = Some ''op1''
       \<and> (\<exists>r. reserveQueueHead 9 ''op9'' ''s'' None None next_epoch = Inr (QueueBlocked q r, next_epoch) \<and> ro_state r = OpRejected)
       \<and> isl (releaseQueueReservation 9 ''op1'' (ReleaseRejected ''c'' ''m'') next_epoch)
   | _ \<Rightarrow> False"
proof -
  have facts: "map (\<lambda>q. (sq_id q, sq_session q, sq_reservation q)) (ss_queue next_epoch) = [(''q1'', ''s'', Some ''op1'')]"
    "map_option ro_state (operationRow next_epoch ''op1'') = Some OpRejected"
    "\<not> ss_closed next_epoch" by code_simp+
  then obtain q r where q: "ss_queue next_epoch = [q]" "sq_session q = ''s''" "sq_reservation q = Some ''op1''"
    and r: "operationRow next_epoch ''op1'' = Some r" "ro_state r = OpRejected"
    by auto
  have head: "queue_head next_epoch ''s'' = Some q"
    using q by (simp add: queue_head_def session_queue_def)
  have "q \<in> set (ss_queue next_epoch)" "settled (ro_state r)" using q r by (simp_all add: settled_def)
  from settled_reservation_sticks [OF reach_next_epoch facts(3) this(1) q(3) r(1) this(2),
      of 9 None "ReleaseRejected ''c'' ''m''" "SetConfirmed None" "[]" "[]" "''op9''" None None] head q r
  show ?thesis by simp
qed

definition answered_store :: session_store where
  "answered_store = after (chooseResponseIntent 7 ''op3'' ''s'' ''p1'' (ChoosePermission ''once'' None False) ReplayNever asked_store)"

lemma first_answer_wins_witness:
  "\<exists>i r. chooseResponseIntent 8 ''op4'' ''s'' ''p1'' (ChoosePermission ''reject'' None False) ReplayNever answered_store
      = Inr (ExistingIntent i r, answered_store) \<and> ri_payload i = JObj [(''reply'', JStr ''once'')]"
proof -
  let ?run = "chooseResponseIntent 7 ''op3'' ''s'' ''p1'' (ChoosePermission ''once'' None False) ReplayNever asked_store"
  have run: "\<not> isl ?run" by code_simp
  have shape: "case fst (projr ?run) of
      ChosenIntent i r \<Rightarrow> ri_payload i = JObj [(''reply'', JStr ''once'')] \<and> ri_operation i = ''op3''
    | ExistingIntent i r \<Rightarrow> False" by code_simp
  obtain i r where i: "?run = Inr (ChosenIntent i r, answered_store)" "ri_payload i = JObj [(''reply'', JStr ''once'')]"
    using after_Inr [OF run] shape unfolding answered_store_def by (cases "fst (projr ?run)") auto
  have "i \<in> set (ss_intents answered_store)" using chosen_intent(4) [OF i(1)] .
  moreover have "\<not> ss_closed answered_store" by code_simp
  ultimately show ?thesis
    using first_answer_wins [OF reach_asked i(1) rtranclp.rtrancl_refl, of "ChoosePermission ''reject'' None False"
        8 "''op4''" ReplayNever] i(2)
    by auto
qed

end
