(* ===== verification/SessionEvidence.thy ===== *)
theory SessionEvidence
  imports SessionEpochRules
begin

text \<open>
  What holds of observations, batches, copies and read positions in every run of the
  store: a revision is applied once, a snapshot can be replayed, evidence of a replaced
  runtime is refused, a publication from an outdated position is refused, positions only
  move forward, and a copy into a fresh session is the log it was copied from.
\<close>

subsection \<open>Invariants of these tables\<close>

lemma insert_tables:
  assumes "insertPreparedOperation now sid kind replay oid s = Inr (r, t)"
  shows "ss_observed t = ss_observed s" "ss_read t = ss_read s" "ss_people t = ss_people s" "ss_events t = ss_events s"
  by (simp_all add: insertPrepared_InrD(7) [OF assms])

lemma evidence_frame [simp]:
  "ss_observed (insert_event e s) = ss_observed s" "ss_observed (set_time sid n tm s) = ss_observed s"
  "ss_observed (update_op oid f s) = ss_observed s" "ss_observed (update_queue Q g s) = ss_observed s"
  "ss_observed (delete_queue Q s) = ss_observed s"
  "ss_read (insert_event e s) = ss_read s" "ss_read (set_time sid n tm s) = ss_read s"
  "ss_read (update_op oid f s) = ss_read s" "ss_read (update_queue Q g s) = ss_read s"
  "ss_read (delete_queue Q s) = ss_read s"
  "ss_people (insert_event e s) = ss_people s" "ss_people (set_time sid n tm s) = ss_people s"
  "ss_people (update_op oid f s) = ss_people s" "ss_people (update_queue Q g s) = ss_people s"
  "ss_people (delete_queue Q s) = ss_people s"
  "ss_events (update_queue Q g s) = ss_events s" "ss_events (delete_queue Q s) = ss_events s"
  by (simp_all add: insert_event_def set_time_def update_op_def update_queue_def delete_queue_def)

lemma person_of_cong: "ss_people s = ss_people t \<Longrightarrow> person_of s x y = person_of t x y"
  by (simp add: person_of_def)

lemma map_of_filter_fst: "y \<noteq> x \<Longrightarrow> map_of (filter (\<lambda>r. fst r \<noteq> x) rows) y = map_of rows y"
  by (induction rows) auto

lemma find_person_erase:
  "y \<noteq> x \<Longrightarrow> find (\<lambda>p. pe_session p = y \<and> Q p) (filter (\<lambda>p. pe_session p \<noteq> x) ps) =
     find (\<lambda>p. pe_session p = y \<and> Q p) ps"
  by (induction ps) auto

definition obs_ids :: "session_store \<Rightarrow> (entity_key \<times> string \<times> string) set" where
  "obs_ids s = obs_id ` set (ss_observed s)"

lemma obs_ids_cong: "ss_observed s = ss_observed t \<Longrightarrow> obs_ids s = obs_ids t"
  by (simp add: obs_ids_def)

definition recorded :: "entity_key \<times> string \<times> string \<Rightarrow> session_store \<Rightarrow> bool" where
  "recorded x s \<longleftrightarrow> x \<in> obs_id ` set (ss_observed s)"

lemma recorded_cong: "ss_observed s = ss_observed t \<Longrightarrow> recorded x s = recorded x t"
  by (simp add: recorded_def)

lemma recorded_erase: "recorded x s \<Longrightarrow> sid \<noteq> snd (snd x) \<Longrightarrow> recorded x (deleteSessionRows sid s)"
  by (auto simp: recorded_def deleteSessionRows_def obs_id_def)

lemma recorded_more:
  "recorded x s \<Longrightarrow> obs_id ` set (ss_observed s) \<subseteq> obs_id ` set obs \<Longrightarrow> recorded x (s\<lparr>ss_observed := obs\<rparr>)"
  by (auto simp: recorded_def)

interpretation recorded: store_invariant "recorded x" "\<lambda>sid. sid \<noteq> snd (snd x)" for x
  by unfold_locales (auto simp: recorded_erase recorded_more insert_tables cong: recorded_cong)

definition positions :: "int option \<Rightarrow> person_row option \<Rightarrow> string \<Rightarrow> string \<Rightarrow> session_store \<Rightarrow> bool" where
  "positions n p sid uid s \<longleftrightarrow> opt_le n (read_of s sid) \<and> person_grows p (person_of s sid uid)"

lemma positions_cong:
  "ss_read s = ss_read t \<Longrightarrow> ss_people s = ss_people t \<Longrightarrow> positions n p sid uid s = positions n p sid uid t"
  by (simp add: positions_def read_of_def person_of_def)

lemma positions_erase: "positions n p sid uid s \<Longrightarrow> x \<noteq> sid \<Longrightarrow> positions n p sid uid (deleteSessionRows x s)"
  by (simp add: positions_def read_of_def person_of_def deleteSessionRows_def map_of_filter_fst find_person_erase)

lemma positions_read:
  "positions n p sid uid s \<Longrightarrow> (\<And>x. opt_le (map_of (ss_read s) x) (map_of ns x)) \<Longrightarrow>
   positions n p sid uid (s\<lparr>ss_read := ns\<rparr>)"
  unfolding positions_def read_of_def by (auto simp: person_of_def intro: opt_le_trans)

lemma positions_people:
  "positions n p sid uid s \<Longrightarrow>
   (\<And>x y. person_grows (person_of s x y) (person_of (s\<lparr>ss_people := pes\<rparr>) x y)) \<Longrightarrow>
   positions n p sid uid (s\<lparr>ss_people := pes\<rparr>)"
  unfolding positions_def by (auto simp: read_of_def intro: person_grows_trans)

interpretation positions: store_invariant "positions n p sid uid" "\<lambda>x. x \<noteq> sid" for n p sid uid
  by unfold_locales
    (auto simp: positions_erase insert_tables intro: positions_read positions_people cong: positions_cong)

definition beyond :: "int \<Rightarrow> string \<Rightarrow> session_store \<Rightarrow> bool" where
  "beyond n sid s \<longleftrightarrow> n < latestSeq s sid"

lemma beyond_cong: "ss_events s = ss_events t \<Longrightarrow> beyond n sid s = beyond n sid t"
  by (simp add: beyond_def latestSeq_def session_events_def)

lemma latest_other: "ev_session e \<noteq> sid \<Longrightarrow> latestSeq (insert_event e s) sid = latestSeq s sid"
  by (simp add: latestSeq_def session_events_def insert_event_def)

lemma beyond_enter:
  "beyond n sid s \<Longrightarrow> ev_seq e = latestSeq s (ev_session e) + 1 \<Longrightarrow> beyond n sid (insert_event e s)"
  using latest_insert [of e sid s] latest_other [of e sid s]
  by (cases "ev_session e = sid") (auto simp: beyond_def)

lemma session_events_erase: "x \<noteq> sid \<Longrightarrow> session_events (deleteSessionRows x s) sid = session_events s sid"
  by (auto simp: session_events_def deleteSessionRows_def intro: filter_cong)

lemma beyond_erase: "beyond n sid s \<Longrightarrow> x \<noteq> sid \<Longrightarrow> beyond n sid (deleteSessionRows x s)"
  by (simp add: beyond_def latestSeq_def session_events_erase)

lemma beyond_retime: "beyond n sid s \<Longrightarrow> beyond n sid (set_time x k tm s)"
  by (simp add: beyond_def latestSeq_def session_events_retimed comp_def)

interpretation beyond: store_invariant "beyond n sid" "\<lambda>x. x \<noteq> sid" for n sid
  by unfold_locales
    (auto simp: beyond_enter beyond_erase beyond_retime insert_tables cong: beyond_cong)

interpretation recording: machine "store_step_in (\<lambda>sid. sid \<noteq> snd (snd x))" "recorded x" for x
  by unfold_locales (rule recorded.step_keeps)

interpretation advancing: machine "store_step_in (\<lambda>x. x \<noteq> sid)" "positions n p sid uid" for n p sid uid
  by unfold_locales (rule positions.step_keeps)

interpretation growing: machine "store_step_in (\<lambda>x. x \<noteq> sid)" "beyond n sid" for n sid
  by unfold_locales (rule beyond.step_keeps)

subsection \<open>One ingestion\<close>

lemma eventsAtSeqs_cong: "ss_events s = ss_events t \<Longrightarrow> eventsAtSeqs s sid ns = eventsAtSeqs t sid ns"
  by (simp add: eventsAtSeqs_def session_events_def)

lemma move_frame [simp]:
  "ss_events (move_cursor now i s) = ss_events s" "ss_open (move_cursor now i s) = ss_open s"
  "ss_observed (move_cursor now i s) = ss_observed s" "ss_checks (move_cursor now i s) = ss_checks s"
  "ss_tombs (move_cursor now i s) = ss_tombs s" "ss_projections (move_cursor now i s) = ss_projections s"
  "ss_recs (move_cursor now i s) = ss_recs s" "ss_closed (move_cursor now i s) = ss_closed s"
  by (simp_all add: move_cursor_def upsertObservationCursor_def split: option.split prod.split)

lemma checkpoint_frame [simp]:
  "ss_events (put_checkpoint now i s) = ss_events s"
  "ss_observed (put_checkpoint now i s) = ss_observed s"
  "ss_tombs (put_checkpoint now i s) = ss_tombs s" "ss_projections (put_checkpoint now i s) = ss_projections s"
  "ss_recs (put_checkpoint now i s) = ss_recs s" "ss_closed (put_checkpoint now i s) = ss_closed s"
  by (simp_all add: put_checkpoint_def Let_def split: option.split prod.split)

lemma append_tables [simp]:
  "ss_observed (snd (appendInTransaction now sid ty data opts s)) = ss_observed s"
  "ss_checks (snd (appendInTransaction now sid ty data opts s)) = ss_checks s"
  by (simp_all add: appendInTransaction_def Let_def)

lemma inputs_frame [simp]:
  "ss_observed (snd (append_inputs now sid is s)) = ss_observed s"
  "ss_checks (snd (append_inputs now sid is s)) = ss_checks s"
  "ss_tombs (snd (append_inputs now sid is s)) = ss_tombs s"
  "ss_projections (snd (append_inputs now sid is s)) = ss_projections s"
  "ss_recs (snd (append_inputs now sid is s)) = ss_recs s"
  "ss_closed (snd (append_inputs now sid is s)) = ss_closed s"
  by (induction "is" arbitrary: s) (simp_all add: Let_def split_beta appendInputInTransaction_def)

lemma inputs_events:
  "ss_events (snd (append_inputs now sid is s)) = ss_events s @ fst (append_inputs now sid is s)"
proof (induction "is" arbitrary: s)
  case (Cons i "is")
  have "ss_events (snd (appendInputInTransaction now sid i s)) = ss_events s @ [fst (appendInputInTransaction now sid i s)]"
    by (simp add: appendInputInTransaction_def appendInTransaction_def Let_def)
  with Cons show ?case by (simp add: Let_def split_beta)
qed simp

lemma add_frame [simp]:
  "ss_events (add_observation x s) = ss_events s" "ss_open (add_observation x s) = ss_open s"
  "ss_checks (add_observation x s) = ss_checks s" "ss_tombs (add_observation x s) = ss_tombs s"
  "ss_projections (add_observation x s) = ss_projections s" "ss_recs (add_observation x s) = ss_recs s"
  "ss_closed (add_observation x s) = ss_closed s"
  "obs_ids (add_observation x s) = insert (obs_id x) (obs_ids s)"
  by (simp_all add: add_observation_def obs_ids_def)

lemma obs_ids_frame [simp]:
  "obs_ids (move_cursor now i s) = obs_ids s" "obs_ids (put_checkpoint now i s) = obs_ids s"
  "obs_ids (snd (append_inputs now sid is s)) = obs_ids s"
  by (rule obs_ids_cong; simp)+

lemma new_id [simp]:
  "obs_id (new_observation now i ns) = (entityKeyArgs (on_identity i), oi_revision (on_identity i), on_session i)"
  by (simp add: new_observation_def obs_id_def)

text \<open>What the fence of an observation reads.\<close>

definition same_fence :: "session_store \<Rightarrow> session_store \<Rightarrow> bool" where
  "same_fence s t \<longleftrightarrow> ss_tombs t = ss_tombs s \<and> ss_projections t = ss_projections s
     \<and> ss_recs t = ss_recs s \<and> ss_closed t = ss_closed s"

lemma fence_cong:
  assumes "same_fence s t"
  shows "assertObservationFence i t = assertObservationFence i s"
    "binding_tombstoned j t = binding_tombstoned j s"
  using assms
  by (simp_all add: same_fence_def assertObservationFence_def projection_of_def reconciliation_row_of_def
      binding_tombstoned_def)

lemma recorded_observed: "(k, r, sid) \<in> obs_ids s \<Longrightarrow> observed s k r \<noteq> None"
  by (auto simp: observed_def find_None_iff is_observed_def obs_ids_def obs_id_def)

definition fenced_in :: "observation_input \<Rightarrow> session_store \<Rightarrow> bool" where
  "fenced_in i s \<longleftrightarrow> \<not> binding_tombstoned (on_identity i) s \<and> assertObservationFence i s"

abbreviation input_key :: "observation_input \<Rightarrow> entity_key" where
  "input_key i \<equiv> entityKeyArgs (on_identity i)"

abbreviation input_revision :: "observation_input \<Rightarrow> string" where
  "input_revision i \<equiv> oi_revision (on_identity i)"

lemma ingest_duplicate:
  assumes "fenced_in i s" "observed s (input_key i) (input_revision i) \<noteq> None"
  shows "\<exists>es c t. ingestObservationInTransaction now i s = Inr (Duplicate es c, t) \<and> t = move_cursor now i s"
  using assms by (auto simp: ingestObservationInTransaction_def Let_def fenced_in_def)

lemma claim_result_of:
  assumes "claimExisting now i c s = Inr (r, t)"
  shows "\<exists>es. r = Duplicate es (Some c)" "same_fence s t" "ss_events t = ss_events s"
    "ss_open t = ss_open s" "ss_checks t = ss_checks s"
    "obs_ids t = insert (input_key i, input_revision i, on_session i) (obs_ids s)"
  using assms
  by (auto simp: claimExisting_def Let_def same_fence_def)

lemma set_seqs_ids [simp]: "obs_ids (set_seqs k r ns s) = obs_ids s"
  by (simp only: obs_ids_def obs_id_map_seqs)

lemma set_seqs_frame [simp]:
  "ss_events (set_seqs k r ns s) = ss_events s" "ss_checks (set_seqs k r ns s) = ss_checks s"
  "ss_tombs (set_seqs k r ns s) = ss_tombs s" "ss_projections (set_seqs k r ns s) = ss_projections s"
  "ss_recs (set_seqs k r ns s) = ss_recs s" "ss_closed (set_seqs k r ns s) = ss_closed s"
  by (simp_all add: set_seqs_def)

lemma apply_result_of:
  assumes "apply_observation now i s = Inr (r, t)"
  shows "r = Applied (fst (append_inputs now (on_session i) (on_events i) (add_observation (new_observation now i []) s)))
      (checkpointRow t (input_key i))" "same_fence s t"
    "ss_events t = ss_events s @ fst (append_inputs now (on_session i) (on_events i) (add_observation (new_observation now i []) s))"
    "obs_ids t = insert (input_key i, input_revision i, on_session i) (obs_ids s)"
  using assms
  by (auto simp: apply_observation_def Let_def split_beta same_fence_def inputs_events)

lemma ingest_cases:
  assumes "ingestObservationInTransaction now i s = Inr (r, t)"
  obtains (dup) es c where "r = Duplicate es c" "t = move_cursor now i s" "observed s (input_key i) (input_revision i) \<noteq> None"
    "c = checkpointRow s (input_key i)" "fenced_in i s"
  | (claim) c where "claimExisting now i c s = Inr (r, t)" "checkpointRow s (input_key i) = Some c"
    "observed s (input_key i) (input_revision i) = None" "fenced_in i s"
    "rank_verdict_of i (Some c) = RankOlder \<or> rank_verdict_of i (Some c) = RankSame \<and> same_value i (Some c)"
  | (apply1) "apply_observation now i s = Inr (r, t)" "observed s (input_key i) (input_revision i) = None" "fenced_in i s"
    "rank_verdict_of i (checkpointRow s (input_key i)) = RankNewer"
proof -
  have fence: "fenced_in i s"
    using assms by (auto simp: ingestObservationInTransaction_def Let_def fenced_in_def split: if_splits)
  show ?thesis
  proof (cases "observed s (input_key i) (input_revision i)")
    case (Some x)
    then show ?thesis
      using ingest_duplicate [OF fence, of now] assms fence dup
      by (auto simp: ingestObservationInTransaction_def Let_def fenced_in_def)
  next
    case None
    have prior: "\<exists>c. checkpointRow s (input_key i) = Some c"
      if "rank_verdict_of i (checkpointRow s (input_key i)) \<noteq> RankNewer"
      using that by (auto simp: rank_verdict_of_def split: option.splits)
    from None assms fence prior claim apply1 show ?thesis
      by (cases "rank_verdict_of i (checkpointRow s (input_key i))")
        (auto simp: ingestObservationInTransaction_def Let_def fenced_in_def split: if_splits)
  qed
qed

lemma ingest_effect:
  assumes "ingestObservationInTransaction now i s = Inr (r, t)"
  shows "same_fence s t" "obs_ids s \<subseteq> obs_ids t"
    "observed t (input_key i) (input_revision i) \<noteq> None" "fenced_in i s"
proof -
  have new: "observed t (input_key i) (input_revision i) \<noteq> None"
    if "(input_key i, input_revision i, on_session i) \<in> obs_ids t"
    using that by (rule recorded_observed)
  have "same_fence s t \<and> obs_ids s \<subseteq> obs_ids t
    \<and> observed t (input_key i) (input_revision i) \<noteq> None \<and> fenced_in i s"
    using assms
  proof (cases rule: ingest_cases)
    case (dup es c)
    then show ?thesis by (simp add: same_fence_def observed_def)
  next
    case (claim c)
    from claim_result_of [OF claim(1)] claim(4) new show ?thesis by auto
  next
    case apply1
    from apply_result_of [OF apply1(1)] apply1(3) new show ?thesis by auto
  qed
  then show "same_fence s t" "obs_ids s \<subseteq> obs_ids t"
    "observed t (input_key i) (input_revision i) \<noteq> None" "fenced_in i s" by auto
qed

subsection \<open>Properties\<close>

lemma ingest_InrD:
  "ingestObservation now i s = Inr (r, t) \<Longrightarrow> ingestObservationInTransaction now i s = Inr (r, t)"
  by (auto simp: ingestObservation_def store_transaction_def split: if_splits)

text \<open>
  C8: An observed revision reaches the log once. After a revision of an entity was applied,
  observing the same revision of the same entity again, however many operations, restarts
  and epochs later and whatever it carries, is answered as a duplicate and appends nothing,
  as long as the session that holds the events is not deleted.
\<close>

theorem observation_applied_once:
  assumes "ingestObservation now i s = Inr (Applied es c, s1)"
    and "(store_step_in (\<lambda>sid. sid \<noteq> on_session i))\<^sup>*\<^sup>* s1 t"
    and "ingestObservation now' j t = Inr (r, t')"
    and "entityKeyArgs (on_identity j) = entityKeyArgs (on_identity i)"
    and "oi_revision (on_identity j) = oi_revision (on_identity i)"
  shows "(\<exists>es' c'. r = Duplicate es' c') \<and> ss_events t' = ss_events t \<and> ss_open t' = ss_open t"
proof -
  let ?x = "(input_key i, input_revision i, on_session i)"
  have "recorded ?x s1"
    using ingest_InrD [OF assms(1)]
  proof (cases rule: ingest_cases)
    case apply1
    then show ?thesis using apply_result_of(4) by (auto simp: recorded_def obs_ids_def [symmetric])
  qed (auto dest: claim_result_of(1))
  then have "recorded ?x t" using recording.reachable_inv [of ?x s1 t] assms(2) by simp
  then have seen: "observed t (input_key j) (input_revision j) \<noteq> None"
    using recorded_observed by (simp add: recorded_def obs_ids_def assms(4,5))
  show ?thesis
    using ingest_InrD [OF assms(3)]
  proof (cases rule: ingest_cases)
    case (dup es c)
    then show ?thesis by simp
  qed (use seen in auto)
qed

lemma inputs_length: "length (fst (append_inputs now sid is s)) = length is"
  by (induction "is" arbitrary: s) (simp_all add: Let_def split_beta)

lemma find_row_replaced:
  "find (\<lambda>c. ck_key c = k) cs \<noteq> None \<Longrightarrow> ck_key row = k \<Longrightarrow>
   find (\<lambda>c. ck_key c = k) (map (\<lambda>c. if ck_key c = k then row else c) cs) = Some row"
  by (induction cs) auto

lemma put_checkpoint_row:
  assumes "on_checkpoint i = Some (rank, v)" "ss_checks u = ss_checks (put_checkpoint now i s)"
  shows "checkpointRow u (input_key i) = Some \<lparr>ck_key = input_key i, ck_revision = input_revision i, ck_rank = rank,
      ck_value = v, ck_updated = now\<rparr>"
  unfolding checkpointRow_def assms(2)
  by (auto simp: put_checkpoint_def assms(1) Let_def checkpointRow_def find_append intro!: find_row_replaced)

lemma ingest_new:
  assumes "\<not> ss_closed s" "validateObservationInput i" "fenced_in i s"
    and "observed s (input_key i) (input_revision i) = None"
  shows "ingestObservation now i s =
    (case rank_verdict_of i (checkpointRow s (input_key i)) of
       RankNewer \<Rightarrow> apply_observation now i s
     | RankOlder \<Rightarrow> claimExisting now i (the (checkpointRow s (input_key i))) s
     | RankSame \<Rightarrow> if same_value i (checkpointRow s (input_key i))
                  then claimExisting now i (the (checkpointRow s (input_key i))) s
                  else Inl SeUncertainObservation)"
  using assms
  by (simp add: ingestObservation_def store_transaction_def ingestObservationInTransaction_def Let_def fenced_in_def)

lemma claim_existing_Inr: "\<exists>r t. claimExisting now i c s = Inr (r, t)"
  by (simp add: claimExisting_def Let_def)

lemma apply_Inr: "\<exists>r t. apply_observation now i s = Inr (r, t)"
  by (simp add: apply_observation_def Let_def split_beta)

text \<open>
  C9: The state rank decides what an observation of a known entity does. An older rank, and
  an equal rank with the same value, is a duplicate that leaves log and checkpoint as they
  are; an equal rank with another value is refused as uncertain; a newer rank is applied,
  its events are appended in order, and the checkpoint takes its rank and value.
\<close>

theorem state_rank_decides:
  assumes "\<not> ss_closed s" "validateObservationInput i" "fenced_in i s"
    and "observed s (entityKeyArgs (on_identity i)) (oi_revision (on_identity i)) = None"
    and "checkpointRow s (entityKeyArgs (on_identity i)) = Some c" "ck_rank c = Some m"
    and "on_checkpoint i = Some (Some n, v)"
  shows "(n < m \<or> n = m \<and> v = ck_value c \<longrightarrow>
       (\<exists>es t. ingestObservation now i s = Inr (Duplicate es (Some c), t)
          \<and> ss_events t = ss_events s \<and> ss_checks t = ss_checks s))
    \<and> (n = m \<and> v \<noteq> ck_value c \<longrightarrow> ingestObservation now i s = Inl SeUncertainObservation)
    \<and> (m < n \<longrightarrow> (\<exists>es c' t. ingestObservation now i s = Inr (Applied es (Some c'), t)
         \<and> ss_events t = ss_events s @ es \<and> length es = length (on_events i)
         \<and> ck_rank c' = Some n \<and> ck_value c' = v \<and> ck_revision c' = oi_revision (on_identity i)))"
proof (intro conjI impI)
  note new = ingest_new [OF assms(1-4), of now] and rank = assms(5-7)
  note simps = new rank rank_verdict_of_def same_value_def
  obtain r t where claim: "claimExisting now i c s = Inr (r, t)" using claim_existing_Inr by blast
  show "\<exists>es t. ingestObservation now i s = Inr (Duplicate es (Some c), t) \<and> ss_events t = ss_events s
      \<and> ss_checks t = ss_checks s" if "n < m \<or> n = m \<and> v = ck_value c"
    using claim_result_of [OF claim] that by (auto simp: simps claim)
  show "ingestObservation now i s = Inl SeUncertainObservation" if "n = m \<and> v \<noteq> ck_value c"
    using that by (simp add: simps)
  assume "m < n"
  then have ing: "ingestObservation now i s = apply_observation now i s" by (simp add: simps)
  obtain r' t' where app: "apply_observation now i s = Inr (r', t')" using apply_Inr by blast
  have "ss_checks t' = ss_checks (put_checkpoint now i
      (snd (append_inputs now (on_session i) (on_events i) (add_observation (new_observation now i []) s))))"
    using app by (auto simp: apply_observation_def Let_def split_beta)
  note row = put_checkpoint_row [OF assms(7) this]
  show "\<exists>es c' t. ingestObservation now i s = Inr (Applied es (Some c'), t)
      \<and> ss_events t = ss_events s @ es \<and> length es = length (on_events i)
      \<and> ck_rank c' = Some n \<and> ck_value c' = v \<and> ck_revision c' = input_revision i"
    using apply_result_of [OF app] by (auto simp: ing app row inputs_length)
qed

lemma same_fence_refl: "same_fence s s"
  by (simp add: same_fence_def)

lemma same_fence_trans: "same_fence s t \<Longrightarrow> same_fence t u \<Longrightarrow> same_fence s u"
  by (simp add: same_fence_def)

lemma fenced_same: "same_fence s t \<Longrightarrow> fenced_in i t = fenced_in i s"
  by (simp add: fenced_in_def fence_cong)

lemma observed_more: "observed s k r \<noteq> None \<Longrightarrow> obs_ids s \<subseteq> obs_ids t \<Longrightarrow> observed t k r \<noteq> None"
proof -
  assume "observed s k r \<noteq> None" "obs_ids s \<subseteq> obs_ids t"
  then obtain x where "x \<in> set (ss_observed s)" "ob_key x = k" "ob_revision x = r"
    by (auto simp: observed_def is_observed_def dest!: find_SomeD)
  then have "(k, r, ob_session x) \<in> obs_ids s" by (auto simp: obs_ids_def obs_id_def)
  with \<open>obs_ids s \<subseteq> obs_ids t\<close> show "observed t k r \<noteq> None" using recorded_observed by blast
qed

lemma ingest_all_effect:
  "map_do (ingestObservationInTransaction now) is s = Inr (rs, t) \<Longrightarrow>
   same_fence s t \<and> obs_ids s \<subseteq> obs_ids t
   \<and> (\<forall>i\<in>set is. fenced_in i t \<and> observed t (input_key i) (input_revision i) \<noteq> None)"
proof (induction "is" arbitrary: s rs)
  case (Cons i "is")
  obtain r s1 rs' where first: "ingestObservationInTransaction now i s = Inr (r, s1)"
    and rest: "map_do (ingestObservationInTransaction now) is s1 = Inr (rs', t)"
    using Cons.prems by (auto elim!: then_do_InrE)
  note e = ingest_effect [OF first] and IH = Cons.IH [OF rest]
  have "same_fence s t" using e(1) IH same_fence_trans by blast
  with e IH show ?case using observed_more [OF e(3)] fenced_same by auto
qed (simp add: same_fence_refl)

definition same_evidence :: "session_store \<Rightarrow> session_store \<Rightarrow> bool" where
  "same_evidence s t \<longleftrightarrow> ss_events t = ss_events s \<and> ss_open t = ss_open s \<and> ss_checks t = ss_checks s
     \<and> ss_observed t = ss_observed s"

lemma replay_all:
  "\<forall>i\<in>set is. fenced_in i s \<and> observed s (input_key i) (input_revision i) \<noteq> None \<Longrightarrow>
   \<exists>rs t. map_do (ingestObservationInTransaction now) is s = Inr (rs, t)
     \<and> (\<forall>r\<in>set rs. \<exists>es c. r = Duplicate es c) \<and> same_evidence s t"
proof (induction "is" arbitrary: s)
  case (Cons i "is")
  obtain es c where first: "ingestObservationInTransaction now i s = Inr (Duplicate es c, move_cursor now i s)"
    using ingest_duplicate [of i s now] Cons.prems by auto
  have "same_fence s (move_cursor now i s)" by (simp add: same_fence_def)
  then have "\<forall>j\<in>set is. fenced_in j (move_cursor now i s)
      \<and> observed (move_cursor now i s) (input_key j) (input_revision j) \<noteq> None"
    using Cons.prems by (simp add: fenced_same observed_def)
  from Cons.IH [OF this] obtain rs t
    where "map_do (ingestObservationInTransaction now) is (move_cursor now i s) = Inr (rs, t)"
      "\<forall>r\<in>set rs. \<exists>es c. r = Duplicate es c" "same_evidence (move_cursor now i s) t" by blast
  with first show ?case by (auto simp: same_evidence_def)
qed (simp add: same_evidence_def)

text \<open>
  C10: A snapshot can be replayed. When a snapshot was ingested, ingesting it again succeeds,
  reports every observation as a duplicate, and changes neither the log nor the open
  requests, the checkpoints or the recorded observations.
\<close>

theorem snapshot_replay:
  assumes "ingestSnapshot now sid is s = Inr (rs, t)"
  shows "\<exists>rs' t'. ingestSnapshot now' sid is t = Inr (rs', t') \<and> length rs' = length is
     \<and> (\<forall>r\<in>set rs'. \<exists>es c. r = Duplicate es c)
     \<and> ss_events t' = ss_events t \<and> ss_open t' = ss_open t \<and> ss_checks t' = ss_checks t
     \<and> ss_observed t' = ss_observed t"
proof -
  have run: "map_do (ingestObservationInTransaction now) is s = Inr (rs, t)" and ok: "\<not> ss_closed s"
    "\<forall>i\<in>set is. on_session i = sid \<and> validateObservationInput i"
    using assms by (auto simp: ingestSnapshot_def store_transaction_def split: if_splits)
  note e = ingest_all_effect [OF run]
  obtain rs' t' where "map_do (ingestObservationInTransaction now') is t = Inr (rs', t')"
    "\<forall>r\<in>set rs'. \<exists>es c. r = Duplicate es c" "same_evidence t t'"
    using replay_all e by blast
  moreover have "length rs' = length is" if "map_do f is u = Inr (rs', t')" for f and u
    using that by (induction "is" arbitrary: u rs') (auto elim!: then_do_InrE)
  moreover have "\<not> ss_closed t" using e ok(1) by (simp add: same_fence_def)
  ultimately show ?thesis
    using ok(2) by (auto simp: ingestSnapshot_def store_transaction_def same_evidence_def)
qed

text \<open>
  C11: Evidence of a replaced runtime never reaches the log. After the runtime of a session
  was replaced, an observation that names the old backend session, the old authority and
  generation included, is refused, and so is one of another reconciliation than the current.
\<close>

theorem old_evidence_refused:
  assumes "transitionRuntimeEpoch now uid leg e s = Inr (res, t)" "on_session i = et_session e"
    and "oi_backend (on_identity i) = rb_backend (et_expected e)"
  shows "isl (ingestObservation now' i t) \<and> isl (ingestSnapshot now' (on_session i) (xs @ i # ys) t)"
proof -
  obtain p current reset where p: "projection_of s (et_session e) = Some p" "replacement_fresh current (et_replacement e)"
    "samePersistedBinding current (et_expected e)" "commit_epoch now uid leg e p current reset s = Inr (res, t)"
    using assms(1) by (rule transition_InrE)
  obtain s5 where "t = upsertProjectionRow (next_projection now leg e p) s5" using p(4) by (rule commit_InrE)
  moreover have "pj_id (next_projection now leg e p) = on_session i"
    using find_SomeD [OF p(1) [unfolded projection_of_def]] by (simp add: next_projection_binding assms(2))
  ultimately have "projection_of t (on_session i) = Some (next_projection now leg e p)"
    using upsert_projection_of by metis
  then have no: "\<not> fenced_in i t"
    using p(2,3) assms(3)
    by (auto simp: fenced_in_def assertObservationFence_def next_projection_binding binding_matches_def
        replacement_fresh_def samePersistedBinding_def)
  have "isl (ingestObservation now' i t)"
  proof (rule ccontr)
    assume "\<not> isl (ingestObservation now' i t)"
    then obtain r u where "ingestObservation now' i t = Inr (r, u)" by (metis isl_def old.prod.exhaust sum.exhaust_sel)
    from ingest_effect(4) [OF ingest_InrD [OF this]] no show False by blast
  qed
  moreover have "isl (ingestSnapshot now' (on_session i) (xs @ i # ys) t)"
  proof (rule ccontr)
    assume "\<not> isl (ingestSnapshot now' (on_session i) (xs @ i # ys) t)"
    then obtain rs u where "ingestSnapshot now' (on_session i) (xs @ i # ys) t = Inr (rs, u)"
      by (metis isl_def old.prod.exhaust sum.exhaust_sel)
    then have "map_do (ingestObservationInTransaction now') (xs @ i # ys) t = Inr (rs, u)"
      by (auto simp: ingestSnapshot_def store_transaction_def split: if_splits)
    from ingest_all_effect [OF this] no fenced_same show False by auto
  qed
  ultimately show ?thesis ..
qed

lemma batch_advances:
  assumes "map_do (\<lambda>i s. Inr (append_timed now sid i s)) inputs s = Inr (es, t)" "inputs \<noteq> []"
  shows "beyond (latestSeq s sid) sid t"
proof -
  obtain i "is" where inputs: "inputs = i # is" using assms(2) by (cases inputs) auto
  obtain e s1 where step: "append_timed now sid i s = (e, s1)" by (cases "append_timed now sid i s") auto
  obtain es' where rest: "map_do (\<lambda>i s. Inr (append_timed now sid i s)) is s1 = Inr (es', t)"
    using assms(1) step by (auto simp: inputs elim!: then_do_InrE)
  have "latestSeq (snd (appendInputInTransaction now sid (ti_event i) s)) sid = latestSeq s sid + 1"
    unfolding appendInputInTransaction_def append_insert by (subst latest_insert) simp_all
  then have "beyond (latestSeq s sid) sid s1"
    using step by (auto simp: append_timed_def beyond_def split_beta intro: beyond_retime [unfolded beyond_def]
        split: option.splits)
  then have "keeps (beyond (latestSeq s sid) sid) (map_do (\<lambda>i s. Inr (append_timed now sid i s)) is s1)"
    by (intro beyond.keeps_map_do beyond.keeps_timed)
  with rest show ?thesis by simp
qed

text \<open>
  C12: Publishing from an outdated position is refused. A batch that expects the log to end
  at a position beyond which events were published since then gets a conflict, in every run
  in which the session is not deleted, and the store stays as it is.
\<close>

theorem outdated_batch_refused:
  assumes "appendBatch now sid inputs proj (Some n) mark s = Inr (es, s1)" "inputs \<noteq> []"
    and "(store_step_in (\<lambda>x. x \<noteq> sid))\<^sup>*\<^sup>* s1 t" "\<not> ss_closed t"
    and "length inputs' \<le> max_batch" "\<forall>p\<in>set_option proj'. pj_id p = sid"
  shows "appendBatch now' sid inputs' proj' (Some n) mark' t = Inl SeConflict"
proof -
  obtain es' u where at_n: "latestSeq s sid = n"
    and run: "map_do (\<lambda>i s. Inr (append_timed now sid i s)) inputs s = Inr (es', u)"
    and same: "ss_events s1 = ss_events u"
    using assms(1)
    by (auto simp: appendBatch_def store_transaction_def appendBatchInTransaction_def Let_def upsertProjectionRow_def
        elim!: then_do_InrE split: if_splits option.splits)
  have "beyond n sid s1"
    using batch_advances [OF run assms(2)] beyond_cong [OF same] at_n by simp
  then have "beyond n sid t" using growing.reachable_inv [OF assms(3)] by simp
  then show ?thesis
    using assms(4-6)
    by (auto simp: appendBatch_def store_transaction_def appendBatchInTransaction_def beyond_def)
qed

text \<open>
  Read positions only move forward. Whatever the store does, short of deleting the
  session, its read position, and the read position and last mention of every person, are
  never lower than they were.
\<close>

theorem positions_advance:
  assumes "(store_step_in (\<lambda>x. x \<noteq> sid))\<^sup>*\<^sup>* s t" 
  shows "opt_le (read_of s sid) (read_of t sid) \<and> person_grows (person_of s sid uid) (person_of t sid uid)"
  using advancing.reachable_inv [OF assms, of "read_of s sid" "person_of s sid uid" uid]
  by (simp add: positions_def)

lemma counted_snocD: "counted (es @ [e]) \<Longrightarrow> counted es \<and> ev_seq e = int (length es) + 1"
  by (simp add: counted_def split: if_splits)

lemma counted_le: "counted es \<Longrightarrow> e \<in> set es \<Longrightarrow> ev_seq e \<le> int (length es)"
proof (induction es rule: rev_induct)
  case (snoc x xs)
  then show ?case using counted_snocD [OF snoc.prems(1)] by auto
qed simp

lemma counted_prefix: "counted es \<Longrightarrow> counted (filter (\<lambda>e. ev_seq e \<le> n) es)"
proof (induction es rule: rev_induct)
  case (snoc x xs)
  note x = counted_snocD [OF snoc.prems]
  show ?case
  proof (cases "ev_seq x \<le> n")
    case True
    then have "filter (\<lambda>e. ev_seq e \<le> n) xs = xs" using counted_le x by (fastforce simp: filter_id_conv)
    with True snoc.prems show ?thesis by simp
  qed (use snoc.IH x in simp)
qed simp

lemma renumber_snoc: "renumber sid n (es @ [e]) = renumber sid n es @ [e\<lparr>ev_session := sid, ev_seq := n + int (length es) + 1\<rparr>]"
  by (induction es arbitrary: n) (simp_all add: algebra_simps)

lemma renumber_counted: "counted es \<Longrightarrow> renumber sid 0 es = map (ev_session_update (\<lambda>_. sid)) es"
proof (induction es rule: rev_induct)
  case (snoc x xs)
  then show ?case using counted_snocD [OF snoc.prems] by (simp add: renumber_snoc add.commute)
qed simp

lemma session_events_fold:
  "session_events (fold insert_event (renumber dst n rows) s) x =
     session_events s x @ (if x = dst then renumber dst n rows else [])"
  by (induction rows arbitrary: n s) (auto simp: session_events_insert)

text \<open>
  A fork starts with the history it was taken from. Copying a log into a session that
  has no events yet reproduces its prefix event for event, sequence numbers included, so
  that what events say of others by number still holds; no other log changes.
\<close>

theorem copy_is_prefix:
  assumes "store_step\<^sup>*\<^sup>* new_store s" "copyTo src dst limit s = Inr (u, t)" "session_events s dst = []"
  shows "session_events t dst = map (ev_session_update (\<lambda>_. dst))
       (filter (\<lambda>e. ev_seq e \<le> nullish limit 9007199254740991) (session_events s src))
    \<and> (\<forall>x. x \<noteq> dst \<longrightarrow> session_events t x = session_events s x)"
proof -
  let ?rows = "filter (\<lambda>e. ev_seq e \<le> nullish limit 9007199254740991) (session_events s src)"
  have counted: "counted ?rows" using reach_ok(1) [OF assms(1)] by (simp add: log_ok_def counted_prefix)
  have "latestSeq s dst = 0" by (simp add: latestSeq_def assms(3) sql_max_def)
  then have "t = fold insert_event (renumber dst 0 ?rows) s"
    using assms(2) counted_sorted [OF counted]
    by (simp add: copyTo_def store_transaction_def Let_def split: if_splits)
  then show ?thesis
    using session_events_fold [of dst 0 ?rows s] assms(3) by (simp add: renumber_counted [OF counted])
qed

subsection \<open>Witnesses\<close>

definition observing_store :: session_store where
  "observing_store = after (startReconciliation 1 ''s'' bound_store)"

definition demo_observation :: "string \<Rightarrow> int \<Rightarrow> string \<Rightarrow> observation_input" where
  "demo_observation rev_text rank v = \<lparr>on_session = ''s'',
     on_identity = \<lparr>oi_authority = ''a'', oi_generation = 1, oi_location = \<lparr>rl_directory = ''/w'', rl_workspace = None\<rparr>,
       oi_backend = ''b1'', oi_kind = ArtTool, oi_entity = ''call'', oi_revision = rev_text\<rparr>,
     on_ordinal = 1, on_events = [\<lparr>in_type = ''tool/call'', in_data = JObj [(''state'', JStr v)], in_opts = plain_opts\<rparr>],
     on_checkpoint = Some (Some rank, JStr v), on_cursor = None\<rparr>"

definition applied_store :: session_store where
  "applied_store = after (ingestObservation 2 (demo_observation ''r1'' 1 ''running'') observing_store)"

lemma first_applied:
  "\<exists>es c. ingestObservation 2 (demo_observation ''r1'' 1 ''running'') observing_store = Inr (Applied es c, applied_store)"
proof -
  let ?run = "ingestObservation 2 (demo_observation ''r1'' 1 ''running'') observing_store"
  have ok: "\<not> isl ?run" by code_simp
  have "case fst (projr ?run) of Applied es c \<Rightarrow> True | Duplicate es c \<Rightarrow> False" by code_simp
  with after_Inr [OF ok] show ?thesis unfolding applied_store_def by (cases "fst (projr ?run)") auto
qed

lemma observation_applied_once_witness:
  "\<exists>es c t. ingestObservation 3 (demo_observation ''r1'' 5 ''done'') applied_store = Inr (Duplicate es c, t)
     \<and> ss_events t = ss_events applied_store \<and> length (ss_events applied_store) = 2"
proof -
  obtain es c where first: "ingestObservation 2 (demo_observation ''r1'' 1 ''running'') observing_store = Inr (Applied es c, applied_store)"
    using first_applied by blast
  have "\<not> isl (ingestObservation 3 (demo_observation ''r1'' 5 ''done'') applied_store)" by code_simp
  note again = after_Inr [OF this]
  have "length (ss_events applied_store) = 2" by code_simp
  moreover have "on_identity (demo_observation ''r1'' 5 ''done'') = on_identity (demo_observation ''r1'' 1 ''running'')"
    by (simp add: demo_observation_def)
  ultimately show ?thesis
    using observation_applied_once [OF first rtranclp.rtrancl_refl again] again by metis
qed

lemma state_rank_decides_witness:
  "\<exists>es c t. ingestObservation 3 (demo_observation ''r2'' 2 ''done'') applied_store = Inr (Applied es (Some c), t)
     \<and> length es = 1 \<and> ck_rank c = Some 2"
proof -
  let ?i = "demo_observation ''r2'' 2 ''done''"
  have facts: "\<not> ss_closed applied_store" "validateObservationInput ?i" "fenced_in ?i applied_store"
    "observed applied_store (entityKeyArgs (on_identity ?i)) (oi_revision (on_identity ?i)) = None"
    "map_option ck_rank (checkpointRow applied_store (entityKeyArgs (on_identity ?i))) = Some (Some 1)"
    by code_simp+
  then obtain c where c: "checkpointRow applied_store (entityKeyArgs (on_identity ?i)) = Some c" "ck_rank c = Some 1"
    by auto
  have "on_checkpoint ?i = Some (Some 2, JStr ''done'')" "length (on_events ?i) = 1"
    by (simp_all add: demo_observation_def)
  with state_rank_decides [OF facts(1-4) c this(1), of 3] show ?thesis by fastforce
qed

definition demo_snapshot :: "observation_input list" where
  "demo_snapshot = [demo_observation ''r1'' 1 ''running'', demo_observation ''r2'' 2 ''done'']"

lemma snapshot_replay_witness:
  "\<exists>rs t. ingestSnapshot 9 ''s'' demo_snapshot (after (ingestSnapshot 2 ''s'' demo_snapshot observing_store)) = Inr (rs, t)
     \<and> length (ss_events t) = 3"
proof -
  have "\<not> isl (ingestSnapshot 2 ''s'' demo_snapshot observing_store)" by code_simp
  note run = after_Inr [OF this]
  have "length (ss_events (after (ingestSnapshot 2 ''s'' demo_snapshot observing_store))) = 3" by code_simp
  with snapshot_replay [OF run, of 9] show ?thesis by auto
qed

lemma old_evidence_refused_witness:
  "isl (ingestObservation 9 (demo_observation ''r1'' 1 ''running'') next_epoch)"
proof -
  obtain res where epoch: "transitionRuntimeEpoch 7 (\<lambda>x. x) ''leg'' demo_epoch asked_store = Inr (res, next_epoch)"
    using epoch_happens by blast
  show ?thesis
    using old_evidence_refused [OF epoch, of "demo_observation ''r1'' 1 ''running''" 9 "[]" "[]"]
    by (simp add: demo_observation_def demo_epoch_def demo_binding_def)
qed

definition demo_batch :: "timed_input list" where
  "demo_batch = [\<lparr>ti_event = \<lparr>in_type = ''user/message'', in_data = JObj [], in_opts = plain_opts\<rparr>, ti_time = Some 5\<rparr>]"

lemma outdated_batch_refused_witness:
  "appendBatch 2 ''s'' demo_batch None (Some 0) False (after (appendBatch 1 ''s'' demo_batch None (Some 0) True bound_store))
     = Inl SeConflict"
proof -
  have ok: "\<not> isl (appendBatch 1 ''s'' demo_batch None (Some 0) True bound_store)"
    "\<not> ss_closed (after (appendBatch 1 ''s'' demo_batch None (Some 0) True bound_store))"
    "length demo_batch \<le> max_batch"
    by code_simp+
  have "demo_batch \<noteq> []" by (simp add: demo_batch_def)
  from outdated_batch_refused [OF after_Inr [OF ok(1)] this rtranclp.rtrancl_refl ok(2,3), of None] show ?thesis by simp
qed

lemma positions_advance_witness:
  "opt_le (Some 5) (read_of (after (setReadCursor ''s'' 9 (after (setReadCursor ''s'' 5 bound_store)))) ''s'')"
proof -
  let ?s = "after (setReadCursor ''s'' 5 bound_store)"
  have pos: "read_of ?s ''s'' = Some 5" by code_simp
  have "\<not> isl (setReadCursor ''s'' 9 ?s)" by code_simp
  from step_read [OF after_Inr [OF this]] have "(store_step_in (\<lambda>x. x \<noteq> ''s''))\<^sup>*\<^sup>* ?s (after (setReadCursor ''s'' 9 ?s))"
    by (rule r_into_rtranclp)
  from positions_advance [OF this] pos show ?thesis by simp
qed

lemma copy_is_prefix_witness:
  "map ev_seq (session_events (after (copyTo ''s'' ''fork'' (Some 2) turn_confirmed)) ''fork'') = [1, 2]"
proof -
  have ok: "\<not> isl (copyTo ''s'' ''fork'' (Some 2) turn_confirmed)" "session_events turn_confirmed ''fork'' = []"
    "map ev_seq (session_events turn_confirmed ''s'') = [1, 2, 3, 4]" by code_simp+
  have cut: "map ev_seq (filter (\<lambda>e. ev_seq e \<le> 2) es) = filter (\<lambda>n. n \<le> 2) (map ev_seq es)" for es
    by (induction es) auto
  have "map ev_seq (filter (\<lambda>e. ev_seq e \<le> 2) (session_events turn_confirmed ''s'')) = [1, 2]"
    unfolding cut ok(3) by simp
  with copy_is_prefix [OF reach_confirmed after_Inr [OF ok(1)] ok(2)] show ?thesis by (simp add: comp_def)
qed

end
