(* ===== verification/DurableMutation.thy ===== *)
theory DurableMutation
  imports SessionRuns "HOL-Library.Multiset"
begin

text \<open>
  \<open>executeDurableRuntimeMutation\<close> (packages/session/src/index.ts): background work that
  calls a runtime through a durable operation. Its store operations are separate awaits,
  so the model is a machine: one executor at a time for a session and a kind (the tails of
  the source serialize them), other users of the store in between, and crashes after which
  the store is opened again. \<open>ex_calls\<close> is the list of operation ids the runtime was
  called with.
\<close>

subsection \<open>The executor\<close>

datatype 'a mutation_outcome =
    OutConfirmed 'a "string option" \<comment> \<open>value and receipt\<close>
  | OutRejected "string option" "string option" \<comment> \<open>code and message; \<open>None\<close> is a fixed text\<close>
  | OutUnknown string "string option" \<comment> \<open>operation id and message\<close>

datatype 'a exec_stage =
    AtRead
  | AtPrepare
  | AtClaim string
  | AtCall string
  | AtSettle string "'a mutation_outcome"
  | Finished "'a mutation_outcome"

record 'a executor =
  xc_session :: string
  xc_kind :: mutation_kind
  xc_intent :: event_input
  xc_receipt :: "'a \<Rightarrow> string option"
  xc_recover :: "operation_row \<Rightarrow> 'a option" \<comment> \<open>\<open>recoverConfirmed\<close>\<close>

definition matching_ops :: "session_store \<Rightarrow> string \<Rightarrow> mutation_kind \<Rightarrow> operation_row list" where
  "matching_ops s sid kind = filter (\<lambda>r. ro_kind r = kind) (operations_of s sid)"

text \<open>What the state of the operation that was found or prepared decides.\<close>

definition on_operation :: "'a executor \<Rightarrow> operation_row \<Rightarrow> 'a exec_stage" where
  "on_operation x r =
     (if ro_state r = OpConfirmed then
        (case xc_recover x r of
           None \<Rightarrow> Finished (OutRejected (Some ''already-confirmed'') None)
         | Some v \<Rightarrow> Finished (OutConfirmed v (if truthy (ro_receipt r) then ro_receipt r else None)))
      else if ro_state r = OpUnknown \<or> ro_state r = OpExecuting
      then Finished (OutUnknown (ro_id r) (ro_message r))
      else if ro_state r = OpRejected \<or> ro_state r = OpNotApplied
      then Finished (OutRejected (ro_code r) (ro_message r))
      else AtClaim (ro_id r))"

definition read_operations :: "'a executor \<Rightarrow> session_store \<Rightarrow> 'a exec_stage" where
  "read_operations x s =
     (case matching_ops s (xc_session x) (xc_kind x) of
        [] \<Rightarrow> AtPrepare
      | [r] \<Rightarrow> on_operation x r
      | _ \<Rightarrow> Finished (OutRejected (Some ''durable-operation-conflict'') None))"

definition durable_input :: "'a executor \<Rightarrow> prepare_input" where
  "durable_input x = \<lparr>pi_session = xc_session x, pi_kind = xc_kind x, pi_event = xc_intent x,
                     pi_replay = None, pi_client = None, pi_fingerprint = None\<rparr>"

text \<open>The settlement of an outcome; the receipt may come from the value.\<close>

definition outcome_settlement :: "'a executor \<Rightarrow> 'a mutation_outcome \<Rightarrow> settlement" where
  "outcome_settlement x out =
     (case out of
        OutConfirmed v receipt \<Rightarrow>
          (let r = (case receipt of None \<Rightarrow> xc_receipt x v | Some t \<Rightarrow> Some t)
           in SetConfirmed (if truthy r then r else None))
      | OutRejected c m \<Rightarrow> SetRejected (nullish c []) (nullish m [])
      | OutUnknown i m \<Rightarrow> SetUnknown None (nullish m []))"

definition own_outcome :: "string \<Rightarrow> 'a mutation_outcome \<Rightarrow> 'a mutation_outcome" where
  "own_outcome oid out = (case out of OutUnknown i m \<Rightarrow> OutUnknown oid m | _ \<Rightarrow> out)"

text \<open>
  One await of the executor: the next stage (\<open>None\<close> when it throws), the store, and the
  operation id the runtime is called with. \<open>out\<close> is what the runtime answers; a call that
  throws answers \<open>OutUnknown\<close>.
\<close>

definition exec_await ::
  "int \<Rightarrow> string \<Rightarrow> 'a executor \<Rightarrow> 'a mutation_outcome \<Rightarrow> 'a exec_stage \<Rightarrow> session_store \<Rightarrow> 'a exec_stage option \<times> session_store \<times> string list" where
  "exec_await now uuid x out st s =
     (case st of
        AtRead \<Rightarrow> (Some (read_operations x s), s, [])
      | AtPrepare \<Rightarrow>
          (case prepareOperation now uuid (durable_input x) s of
             Inl e \<Rightarrow> (None, s, [])
           | Inr ((r, _), s') \<Rightarrow> (Some (on_operation x r), s', []))
      | AtClaim oid \<Rightarrow>
          (case claimOperation now oid s of
             Inl e \<Rightarrow> (None, s, [])
           | Inr (Claimed r e, s') \<Rightarrow> (Some (AtCall oid), s', [])
           | Inr (NotClaimed r, s') \<Rightarrow>
               (Some (Finished (OutUnknown oid (case r of None \<Rightarrow> None | Some r \<Rightarrow> ro_message r))), s', []))
      | AtCall oid \<Rightarrow> (Some (AtSettle oid out), s, [oid])
      | AtSettle oid res \<Rightarrow>
          (case settleOperation now oid (outcome_settlement x res) s of
             Inl e \<Rightarrow> (None, s, [])
           | Inr (r, s') \<Rightarrow> (Some (Finished (own_outcome oid res)), s', []))
      | Finished res \<Rightarrow> (None, s, []))"

subsection \<open>The machine\<close>

record 'a exec_state =
  ex_store :: session_store
  ex_run :: "'a exec_stage option"
  ex_calls :: "string list"

text \<open>Other users of the store may do anything but prepare an operation of this kind here.\<close>

definition others_step :: "'a executor \<Rightarrow> session_store \<Rightarrow> session_store \<Rightarrow> bool" where
  "others_step x s t \<longleftrightarrow>
     store_step s t \<and> length (matching_ops t (xc_session x) (xc_kind x)) = length (matching_ops s (xc_session x) (xc_kind x))"

inductive exec_step :: "'a executor \<Rightarrow> 'a exec_state \<Rightarrow> 'a exec_state \<Rightarrow> bool" for x where
  exec_begin: "ex_run s = None \<Longrightarrow> exec_step x s (s\<lparr>ex_run := Some AtRead\<rparr>)"
| exec_advance: "ex_run s = Some st \<Longrightarrow> exec_await now uuid x out st (ex_store s) = (st', db, calls) \<Longrightarrow>
    exec_step x s (s\<lparr>ex_store := db, ex_run := st', ex_calls := ex_calls s @ calls\<rparr>)"
| exec_others: "others_step x (ex_store s) db \<Longrightarrow> exec_step x s (s\<lparr>ex_store := db\<rparr>)"
| exec_crash: "reopen now (ex_store s) = Inr (rows, db) \<Longrightarrow> exec_step x s (s\<lparr>ex_store := db, ex_run := None\<rparr>)"

inductive_cases exec_stepE: "exec_step x s t"


subsection \<open>Matching operations\<close>

lemma matching_set:
  "r \<in> set (matching_ops s sid kind) \<longleftrightarrow> r \<in> set (ss_ops s) \<and> ro_session r = sid \<and> ro_kind r = kind"
  by (auto simp: matching_ops_def operations_of_def session_ops_def)

definition key_match :: "string \<Rightarrow> mutation_kind \<Rightarrow> operation_row \<Rightarrow> bool" where
  "key_match sid kind r \<longleftrightarrow> ro_session r = sid \<and> ro_kind r = kind"

lemma length_filter_sort: "length (filter Q (sort_key k xs)) = length (filter Q xs)"
  by (metis mset_filter mset_sort size_mset)

lemma length_matching: "length (matching_ops s sid kind) = length (filter (key_match sid kind) (ss_ops s))"
  by (simp add: matching_ops_def operations_of_def session_ops_def length_filter_sort key_match_def [abs_def] conj_commute)

lemma evolve_matching:
  assumes "ops_evolve xs ys" "length ys = length xs"
  shows "length (filter (key_match sid kind) ys) = length (filter (key_match sid kind) xs)"
proof -
  have "list_all2 op_evolves xs ys" using assms by (simp add: ops_evolve_def)
  then show ?thesis
    by (induction rule: list_all2_induct) (auto simp: op_evolves_def key_match_def)
qed

subsection \<open>How many rows there are\<close>

lemma update_op_length [simp]: "length (ss_ops (update_op oid f s)) = length (ss_ops s)"
  by (simp add: update_op_def)

definition row_count :: "nat \<Rightarrow> session_store \<Rightarrow> bool" where
  "row_count n s \<longleftrightarrow> length (ss_ops s) = n"

lemma keeps_count_claim: "row_count n s \<Longrightarrow> keeps (row_count n) (claimOperation now oid s)"
  unfolding claimOperation_def
  by (rule keeps_transaction) (simp add: row_count_def take_claim_def Let_def split_beta split: option.split)

lemma keeps_count_settle: "row_count n s \<Longrightarrow> keeps (row_count n) (settleOperation now oid st s)"
  unfolding settleOperation_def
  by (rule keeps_transaction)
    (simp add: row_count_def transitionOperation_def Let_def split_beta split: option.split)

lemma keeps_count_reopen: "row_count n s \<Longrightarrow> keeps (row_count n) (reopen now s)"
  unfolding reopen_def recoverExecutingOperations_def recoverExecutingInTransaction_def
  by (intro keeps_transaction keeps_each_row)
    (simp_all add: row_count_def recover_row_def Let_def split_beta)

lemma prepare_ops:
  assumes "prepareOperation now uuid (durable_input x) s = Inr ((r, e), t)" "ops_ok s"
  shows "length (ss_ops t) = Suc (length (ss_ops s))" "operationRow t (ro_id r) = Some r"
    "key_match (xc_session x) (xc_kind x) r"
proof -
  have "then_do (insertPreparedOperation now (xc_session x) (xc_kind x) ReplayNever uuid s)
      (\<lambda>r s'. record_intent now r (xc_intent x) (no_extra\<lparr>se_fingerprint := None\<rparr>) s') = Inr ((r, e), t)"
    using transaction_InrD [OF assms(1) [unfolded prepareOperation_def]] by (simp add: durable_input_def)
  then obtain r0 s1 where ins: "insertPreparedOperation now (xc_session x) (xc_kind x) ReplayNever uuid s = Inr (r0, s1)"
    and rec: "record_intent now r0 (xc_intent x) (no_extra\<lparr>se_fingerprint := None\<rparr>) s1 = Inr ((r, e), t)"
    by (rule then_do_InrE)
  let ?s2 = "snd (appendInputInTransaction now (ro_session r0) (xc_intent x) s1)"
  obtain n where r: "r = r0\<lparr>ro_owner := Some n\<rparr>" and t: "ss_ops t = ss_ops (set_owner (ro_id r0) n ?s2)"
    using rec by (auto simp: record_intent_def Let_def split_beta split: option.splits)
  have s2: "ss_ops ?s2 = ss_ops s1" by (simp add: appendInputInTransaction_def)
  show "length (ss_ops t) = Suc (length (ss_ops s))"
    using insertPrepared_InrD(7) [OF ins] t s2 by (simp add: set_owner_def)
  show "key_match (xc_session x) (xc_kind x) r"
    using insertPrepared_InrD(4,5) [OF ins] by (simp add: r key_match_def)
  have "ops_ok s1" using ops_ok_insert [OF assms(2) ins] .
  then have "ops_ok ?s2" by (simp add: ops_ok_def s2)
  moreover have "operationRow ?s2 (ro_id r0) = Some r0"
    using inserted_row [OF ins] by (simp add: appendInputInTransaction_def)
  ultimately have "operationRow (set_owner (ro_id r0) n ?s2) (ro_id r0) = Some r"
    unfolding set_owner_def by (subst operationRow_update [where r = r0]) (simp_all add: r)
  then show "operationRow t (ro_id r) = Some r"
    using operationRow_cong [OF t] by (simp add: r)
qed

lemma evolve_matching_more:
  assumes "ops_evolve xs ys" "length ys = Suc (length xs)"
  shows "length (filter (key_match sid kind) ys) \<le> Suc (length (filter (key_match sid kind) xs))"
proof -
  obtain zs z where ys: "ys = zs @ [z]" using assms(2) by (cases ys rule: rev_cases) auto
  with assms have "ops_evolve xs zs" "length zs = length xs" by (simp_all add: ops_evolve_def)
  then have "length (filter (key_match sid kind) zs) = length (filter (key_match sid kind) xs)" by (rule evolve_matching)
  then show ?thesis by (simp add: ys)
qed

subsection \<open>The invariant\<close>

definition live_key :: "'a executor \<Rightarrow> session_store \<Rightarrow> string \<Rightarrow> bool" where
  "live_key x s oid \<longleftrightarrow> (\<exists>r. operationRow s oid = Some r \<and> key_match (xc_session x) (xc_kind x) r)"

definition used_key :: "'a executor \<Rightarrow> session_store \<Rightarrow> string \<Rightarrow> bool" where
  "used_key x s oid \<longleftrightarrow>
     (\<exists>r. operationRow s oid = Some r \<and> key_match (xc_session x) (xc_kind x) r \<and> ro_state r \<noteq> OpPrepared)"

fun exec_stage_ok :: "'a executor \<Rightarrow> session_store \<Rightarrow> string list \<Rightarrow> 'a exec_stage option \<Rightarrow> bool" where
  "exec_stage_ok x s calls (Some AtPrepare) = (matching_ops s (xc_session x) (xc_kind x) = [])"
| "exec_stage_ok x s calls (Some (AtClaim oid)) = live_key x s oid"
| "exec_stage_ok x s calls (Some (AtCall oid)) = (used_key x s oid \<and> oid \<notin> set calls)"
| "exec_stage_ok x s calls _ = True"

definition exec_ok :: "'a executor \<Rightarrow> 'a exec_state \<Rightarrow> bool" where
  "exec_ok x s \<longleftrightarrow>
     ops_ok (ex_store s) \<and> length (matching_ops (ex_store s) (xc_session x) (xc_kind x)) \<le> 1
     \<and> distinct (ex_calls s) \<and> (\<forall>oid\<in>set (ex_calls s). used_key x (ex_store s) oid)
     \<and> exec_stage_ok x (ex_store s) (ex_calls s) (ex_run s)"

lemma evolve_live:
  assumes "ops_evolve (ss_ops s) (ss_ops t)" "live_key x s oid"
  shows "live_key x t oid"
  using assms(2) ops_evolve_find [OF assms(1), of oid]
  by (fastforce simp: live_key_def op_evolves_def key_match_def)

lemma evolve_used:
  assumes "ops_evolve (ss_ops s) (ss_ops t)" "used_key x s oid"
  shows "used_key x t oid"
  using assms(2) ops_evolve_find [OF assms(1), of oid]
  by (fastforce simp: used_key_def op_evolves_def key_match_def)

lemma step_evolves:
  assumes "store_step s t" "ops_ok s"
  shows "ops_ok t" "ops_evolve (ss_ops s) (ss_ops t)"
  using run_evolves [OF r_into_rtranclp [of store_step s t, OF assms(1)] assms(2)] by simp_all

text \<open>A store step that adds no matching row keeps every stage.\<close>

lemma exec_ok_store:
  assumes "exec_ok x s" "store_step (ex_store s) db"
    and "length (matching_ops db (xc_session x) (xc_kind x)) = length (matching_ops (ex_store s) (xc_session x) (xc_kind x))"
  shows "exec_ok x (s\<lparr>ex_store := db\<rparr>)"
proof -
  have "ops_ok (ex_store s)" using assms(1) by (simp add: exec_ok_def)
  note ev = step_evolves [OF assms(2) this]
  have "exec_stage_ok x db (ex_calls s) (ex_run s)"
    using assms(1,3) evolve_live [OF ev(2)] evolve_used [OF ev(2)]
    by (cases "(x, db, ex_calls s, ex_run s)" rule: exec_stage_ok.cases) (auto simp: exec_ok_def)
  with assms(1,3) ev evolve_used [OF ev(2)] show ?thesis by (auto simp: exec_ok_def)
qed

lemma exec_ok_run: "exec_ok x s \<Longrightarrow> exec_stage_ok x (ex_store s) (ex_calls s) st \<Longrightarrow> exec_ok x (s\<lparr>ex_run := st\<rparr>)"
  by (simp add: exec_ok_def)

lemma count_matching:
  assumes "store_step s t" "ops_ok s" "row_count (length (ss_ops s)) t"
  shows "length (matching_ops t sid kind) = length (matching_ops s sid kind)"
  unfolding length_matching
  using evolve_matching [OF step_evolves(2) [OF assms(1,2)]] assms(3) by (simp add: row_count_def)

subsection \<open>Every await keeps the invariant\<close>

lemma read_ok:
  assumes "ops_ok s"
  shows "exec_stage_ok x s calls (Some (read_operations x s))"
proof (cases "matching_ops s (xc_session x) (xc_kind x)")
  case (Cons r rs)
  show ?thesis
  proof (cases rs)
    case Nil
    have "r \<in> set (matching_ops s (xc_session x) (xc_kind x))" using Cons by simp
    then have "r \<in> set (ss_ops s)" "key_match (xc_session x) (xc_kind x) r"
      by (simp_all add: matching_set key_match_def)
    then have "live_key x s (ro_id r)" using ops_ok_row [OF assms] by (auto simp: live_key_def)
    with Cons Nil show ?thesis
      by (auto simp: read_operations_def on_operation_def split: option.split)
  qed (use Cons in \<open>simp add: read_operations_def\<close>)
qed (simp add: read_operations_def)

lemma advance_prepare:
  assumes ok: "exec_ok x s" and run: "ex_run s = Some AtPrepare"
    and prep: "prepareOperation now uuid (durable_input x) (ex_store s) = Inr ((r, e), db)"
  shows "exec_ok x (s\<lparr>ex_store := db, ex_run := Some (on_operation x r)\<rparr>)"
proof -
  have ops: "ops_ok (ex_store s)" using ok by (simp add: exec_ok_def)
  note new = prepare_ops [OF prep ops]
  note ev = step_evolves [OF step_prepare [OF prep] ops]
  have "length (filter (key_match (xc_session x) (xc_kind x)) (ss_ops (ex_store s))) = 0"
    using ok run by (simp add: exec_ok_def flip: length_matching)
  then have "length (matching_ops db (xc_session x) (xc_kind x)) \<le> 1"
    using evolve_matching_more [OF ev(2) new(1), of "xc_session x" "xc_kind x"] by (simp add: length_matching)
  moreover have "live_key x db (ro_id r)" using new(2,3) by (simp add: live_key_def)
  then have "exec_stage_ok x db (ex_calls s) (Some (on_operation x r))"
    by (auto simp: on_operation_def split: option.split)
  ultimately show ?thesis
    using ok ev evolve_used [OF ev(2)] by (auto simp: exec_ok_def)
qed

lemma advance_claim:
  assumes ok: "exec_ok x s" and run: "ex_run s = Some (AtClaim oid)"
    and claim: "claimOperation now oid (ex_store s) = Inr (Claimed r e, db)"
  shows "exec_ok x (s\<lparr>ex_store := db, ex_run := Some (AtCall oid)\<rparr>)"
proof -
  have ops: "ops_ok (ex_store s)" using ok by (simp add: exec_ok_def)
  obtain r0 where r0: "operationRow (ex_store s) oid = Some r0" "ro_state r0 = OpPrepared"
    and r: "operationRow db oid = Some r" "ro_state r = OpExecuting"
    using claimed_row [OF claim ops] .
  note step = step_claim [OF claim]
  have count: "row_count (length (ss_ops (ex_store s))) db"
    using keepsD [OF keeps_count_claim claim] by (simp add: row_count_def)
  have "exec_ok x (s\<lparr>ex_store := db\<rparr>)"
    by (rule exec_ok_store [OF ok step count_matching [OF step ops count]])
  moreover have "live_key x db oid"
    using ok run by (auto simp: exec_ok_def intro: evolve_live [OF step_evolves(2) [OF step ops]])
  then have "used_key x db oid" using r by (auto simp: live_key_def used_key_def)
  moreover have "oid \<notin> set (ex_calls s)"
    using ok r0 by (auto simp: exec_ok_def used_key_def)
  ultimately show ?thesis by (simp add: exec_ok_def)
qed

lemma not_claimed_same: "claimOperation now oid s = Inr (NotClaimed r, t) \<Longrightarrow> t = s"
  unfolding claimOperation_def
  by (drule transaction_InrD) (auto simp: take_claim_def Let_def split_beta split: option.splits if_splits)

lemma advance_ok:
  assumes ok: "exec_ok x s" and run: "ex_run s = Some st"
    and await: "exec_await now uuid x out st (ex_store s) = (st', db, calls)"
  shows "exec_ok x (s\<lparr>ex_store := db, ex_run := st', ex_calls := ex_calls s @ calls\<rparr>)"
proof (cases st)
  case AtRead
  with await read_ok [of "ex_store s" x "ex_calls s"] ok show ?thesis by (auto simp: exec_await_def exec_ok_def)
next
  case AtPrepare
  show ?thesis
  proof (cases "prepareOperation now uuid (durable_input x) (ex_store s)")
    case (Inr p)
    then obtain r e db' where p: "prepareOperation now uuid (durable_input x) (ex_store s) = Inr ((r, e), db')"
      by (cases p) auto
    from advance_prepare [OF ok _ p] AtPrepare run await p show ?thesis by (auto simp: exec_await_def)
  qed (use AtPrepare await ok in \<open>auto simp: exec_await_def exec_ok_def\<close>)
next
  case (AtClaim oid)
  show ?thesis
  proof (cases "claimOperation now oid (ex_store s)")
    case (Inr p)
    then obtain c db' where p: "claimOperation now oid (ex_store s) = Inr (c, db')" by (cases p) auto
    show ?thesis
    proof (cases c)
      case (Claimed r e)
      with advance_claim [OF ok _ p [unfolded Claimed]] AtClaim run await p show ?thesis by (auto simp: exec_await_def)
    next
      case (NotClaimed r)
      with not_claimed_same [OF p [unfolded NotClaimed]] AtClaim await p ok show ?thesis
        by (auto simp: exec_await_def exec_ok_def)
    qed
  qed (use AtClaim await ok in \<open>auto simp: exec_await_def exec_ok_def\<close>)
next
  case (AtCall oid)
  with await ok run show ?thesis by (auto simp: exec_await_def exec_ok_def)
next
  case (AtSettle oid res)
  have ops: "ops_ok (ex_store s)" using ok by (simp add: exec_ok_def)
  show ?thesis
  proof (cases "settleOperation now oid (outcome_settlement x res) (ex_store s)")
    case (Inr p)
    then obtain r db' where p: "settleOperation now oid (outcome_settlement x res) (ex_store s) = Inr (r, db')"
      by (cases p) auto
    have count: "row_count (length (ss_ops (ex_store s))) db'"
      using keepsD [OF keeps_count_settle p] by (simp add: row_count_def)
    have "exec_ok x (s\<lparr>ex_store := db'\<rparr>)"
      by (rule exec_ok_store [OF ok step_settle [OF p] count_matching [OF step_settle [OF p] ops count]])
    with AtSettle await p show ?thesis by (auto simp: exec_await_def exec_ok_def)
  qed (use AtSettle await ok in \<open>auto simp: exec_await_def exec_ok_def\<close>)
next
  case (Finished res)
  with await ok show ?thesis by (auto simp: exec_await_def exec_ok_def)
qed

interpretation durable: machine "exec_step x" "exec_ok x" for x
proof unfold_locales
  fix s t assume "exec_step x s t" "exec_ok x s"
  then show "exec_ok x t"
  proof (cases rule: exec_step.cases)
    case (exec_crash now rows db)
    have ops: "ops_ok (ex_store s)" using \<open>exec_ok x s\<close> by (simp add: exec_ok_def)
    note step = step_reopen [OF exec_crash(2)]
    have "row_count (length (ss_ops (ex_store s))) db"
      using keepsD [OF keeps_count_reopen exec_crash(2)] by (simp add: row_count_def)
    then have "exec_ok x (s\<lparr>ex_store := db\<rparr>)"
      by (intro exec_ok_store [OF \<open>exec_ok x s\<close> step] count_matching [OF step ops])
    with exec_crash show ?thesis by (simp add: exec_ok_def)
  qed (auto intro: advance_ok exec_ok_store simp: others_step_def exec_ok_run)
qed


subsection \<open>Witness\<close>






end
