(* ===== verification/Planner.thy ===== *)
theory Planner
  imports SessionLog
begin

text \<open>
  The planner, packages/planner/src: prompts that run once or on a repeating cadence. The
  data of model.ts, cron cadences (cron.ts) and the parts of index.ts that compute on one
  task: canonical cadences, the next fire time, the history of runs, and the documents that
  \<open>save\<close> writes.

  A task, its run records and its documents hold typed values; the JSON text is not
  modelled. Instants are integers of milliseconds and intervals whole minutes. The package
  cron-parser and the zone check of \<open>Intl\<close> are the parameter \<open>cron_lib\<close>.
\<close>

section \<open>Data\<close>

datatype planner_kind = KindAt | KindEvery | KindCron

datatype planner_cadence = CadenceAt int | CadenceEvery int | CadenceCron string string

fun cadence_kind :: "planner_cadence \<Rightarrow> planner_kind" where
  "cadence_kind (CadenceAt t) = KindAt"
| "cadence_kind (CadenceEvery m) = KindEvery"
| "cadence_kind (CadenceCron e z) = KindCron"

datatype target_mode = ExistingSession | NewSessionPerRun | DedicatedSession

datatype worktree_policy = ProjectRoot | FreshWorktree

record planner_target =
  pt_mode :: target_mode
  pt_session :: "string option"
  pt_worktree :: "worktree_policy option"

record execution_model =
  em_provider :: string
  em_model :: string
  em_variant :: "string option"
  em_harness :: "string option"

datatype harness_selection = HarnessAuto | HarnessPinned string

datatype overlap_policy = OverlapSkip | OverlapQueue | OverlapParallel

datatype catch_up_policy = CatchUpOnce | CatchUpSkip

datatype planned_status = PlannedRunning | PlannedOk | PlannedFailed | PlannedSkipped | PlannedUnknown

record planner_run =
  pr_run :: string
  pr_started :: int
  pr_finished :: "int option"
  pr_status :: planned_status
  pr_error :: "string option"
  pr_session :: "string option"
  pr_marker :: "int option"
  pr_queue :: "string option"
  pr_turn :: "string option"
  pr_late :: bool
  pr_manual :: bool

datatype settled_status = SettledOk | SettledFailed | SettledUnknown

record planner_settlement =
  sl_status :: settled_status
  sl_error :: "string option"

record planner_task =
  tk_id :: string
  tk_project :: string
  tk_space :: "string option"
  tk_owner :: "string option"
  tk_session :: "string option"
  tk_title :: "string option"
  tk_prompt :: string
  tk_kind :: planner_kind
  tk_at :: "int option"
  tk_every :: "int option"
  tk_cadence :: planner_cadence
  tk_target :: "planner_target option"
  tk_overlap :: "overlap_policy option"
  tk_catch_up :: "catch_up_policy option"
  tk_enabled :: bool
  tk_model :: "execution_model option"
  tk_harness :: "harness_selection option"
  tk_created :: int
  tk_updated :: int
  tk_last_run :: "int option"
  tk_last_error :: "string option"
  tk_last_session :: "string option"
  tk_next :: "int option"
  tk_runs :: nat
  tk_history :: "planner_run list"

section \<open>Cron cadences\<close>

text \<open>
  \<open>cl_zone\<close> is the zone check, \<open>cl_parse\<close> whether cron-parser accepts an expression, and
  \<open>cl_next\<close> the first occurrence after an instant, if there is one.
\<close>

record cron_lib =
  cl_zone :: "string \<Rightarrow> bool"
  cl_parse :: "string \<Rightarrow> string \<Rightarrow> bool"
  cl_next :: "string \<Rightarrow> string \<Rightarrow> int \<Rightarrow> int option"

text \<open>\<open>split(/\s+/)\<close> of a text without white space at its ends.\<close>

fun split_space :: "string \<Rightarrow> string list" where
  "split_space [] = [[]]"
| "split_space (c # cs) =
     (if is_space_char c then
        (case cs of
           [] \<Rightarrow> [[], []]
         | d # ds \<Rightarrow> if is_space_char d then split_space cs else [] # split_space cs)
      else (case split_space cs of [] \<Rightarrow> [[c]] | w # ws \<Rightarrow> (c # w) # ws))"

definition cron_valid :: "cron_lib \<Rightarrow> string \<Rightarrow> string \<Rightarrow> bool" where
  "cron_valid lib expression zone \<longleftrightarrow>
     (let e = trim expression in
      e \<noteq> [] \<and> hd e \<noteq> CHR ''@'' \<and> length (split_space e) = 5 \<and> cl_zone lib zone \<and> cl_parse lib e zone)"

text \<open>\<open>validateCron\<close> with a minimal interval looks at the first two occurrences after now.\<close>

definition validate_cron :: "cron_lib \<Rightarrow> int \<Rightarrow> int \<Rightarrow> string \<Rightarrow> string \<Rightarrow> bool" where
  "validate_cron lib now least expression zone \<longleftrightarrow>
     cron_valid lib expression zone
     \<and> (least \<le> 1
        \<or> (case cl_next lib (trim expression) zone now of
             None \<Rightarrow> True
           | Some a \<Rightarrow>
               (case cl_next lib (trim expression) zone a of
                  None \<Rightarrow> True
                | Some b \<Rightarrow> least * 60000 \<le> b - a)))"

fun occurrences :: "cron_lib \<Rightarrow> string \<Rightarrow> string \<Rightarrow> int \<Rightarrow> nat \<Rightarrow> int list" where
  "occurrences lib e zone from 0 = []"
| "occurrences lib e zone from (Suc n) =
     (case cl_next lib e zone from of
        None \<Rightarrow> []
      | Some t \<Rightarrow> t # occurrences lib e zone t n)"

definition next_runs :: "cron_lib \<Rightarrow> string \<Rightarrow> string \<Rightarrow> int \<Rightarrow> nat \<Rightarrow> control_error + int list" where
  "next_runs lib expression zone from count =
     (if \<not> cron_valid lib expression zone then Inl InvalidInput
      else Inr (occurrences lib (trim expression) zone from (min count 100)))"

text \<open>\<open>nextRun\<close>, with the exception that \<open>computeNextRun\<close> catches.\<close>

definition next_run :: "cron_lib \<Rightarrow> string \<Rightarrow> string \<Rightarrow> int \<Rightarrow> int option" where
  "next_run lib expression zone from =
     (case next_runs lib expression zone from 1 of
        Inr (t # _) \<Rightarrow> Some t
      | _ \<Rightarrow> None)"

section \<open>Canonical cadences\<close>

text \<open>
  The cadence fields of a request. In \<open>raw_cadence\<close> a number that is missing or not finite is
  \<open>None\<close>, and so is a missing text; the flat fields tell a missing number (\<open>None\<close>) from one that
  is not finite (\<open>Some None\<close>).
\<close>

record raw_cadence =
  rc_kind :: string
  rc_at :: "int option"
  rc_every :: "int option"
  rc_expression :: "string option"
  rc_zone :: "string option"

record cadence_input =
  ci_cadence :: "raw_cadence option"
  ci_kind :: "string option"
  ci_at :: "int option option"
  ci_every :: "int option option"

definition at_cadence :: "int option \<Rightarrow> control_error + planner_cadence" where
  "at_cadence t = (case t of None \<Rightarrow> Inl InvalidInput | Some n \<Rightarrow> Inr (CadenceAt n))"

definition every_cadence :: "int option \<Rightarrow> control_error + planner_cadence" where
  "every_cadence m =
     (case m of None \<Rightarrow> Inl InvalidInput | Some n \<Rightarrow> if n < 1 then Inl InvalidInput else Inr (CadenceEvery n))"

definition cadence_of :: "cron_lib \<Rightarrow> int \<Rightarrow> int \<Rightarrow> cadence_input \<Rightarrow> control_error + planner_cadence" where
  "cadence_of lib now least i =
     (case ci_cadence i of
        Some c \<Rightarrow>
          if rc_kind c = ''at'' then at_cadence (rc_at c)
          else if rc_kind c = ''every'' then every_cadence (rc_every c)
          else if rc_kind c = ''cron'' then
            (if validate_cron lib now least (nullish (rc_expression c) []) (nullish (rc_zone c) [])
             then Inr (CadenceCron (trim (nullish (rc_expression c) [])) (nullish (rc_zone c) []))
             else Inl InvalidInput)
          else Inl InvalidInput
      | None \<Rightarrow>
          if ci_kind i = Some ''at'' then at_cadence (nullish (ci_at i) None)
          else if ci_kind i = Some ''every'' then every_cadence (nullish (ci_every i) None)
          else Inl InvalidInput)"

text \<open>A canonical cadence as a request carries it.\<close>

fun raw_of :: "planner_cadence \<Rightarrow> raw_cadence" where
  "raw_of (CadenceAt t) = \<lparr>rc_kind = ''at'', rc_at = Some t, rc_every = None, rc_expression = None, rc_zone = None\<rparr>"
| "raw_of (CadenceEvery m) = \<lparr>rc_kind = ''every'', rc_at = None, rc_every = Some m, rc_expression = None, rc_zone = None\<rparr>"
| "raw_of (CadenceCron e z) = \<lparr>rc_kind = ''cron'', rc_at = None, rc_every = None, rc_expression = Some e, rc_zone = Some z\<rparr>"

fun kind_name :: "planner_kind \<Rightarrow> string" where
  "kind_name KindAt = ''at''"
| "kind_name KindEvery = ''every''"
| "kind_name KindCron = ''cron''"

definition mirror_cadence :: "planner_task \<Rightarrow> planner_task" where
  "mirror_cadence t =
     t\<lparr>tk_kind := cadence_kind (tk_cadence t),
       tk_at := (case tk_cadence t of CadenceAt n \<Rightarrow> Some n | _ \<Rightarrow> None),
       tk_every := (case tk_cadence t of CadenceEvery m \<Rightarrow> Some m | _ \<Rightarrow> None)\<rparr>"

section \<open>The next fire time\<close>

definition compute_next_run :: "cron_lib \<Rightarrow> planner_task \<Rightarrow> int \<Rightarrow> int option" where
  "compute_next_run lib t now =
     (if \<not> tk_enabled t then None
      else
        (case tk_cadence t of
           CadenceAt n \<Rightarrow> if 0 < tk_runs t then None else Some n
         | CadenceEvery m \<Rightarrow> Some (nullish (tk_last_run t) now + m * 60000)
         | CadenceCron e z \<Rightarrow> next_run lib e z (max (nullish (tk_last_run t) 0) now)))"

definition set_next :: "cron_lib \<Rightarrow> int \<Rightarrow> planner_task \<Rightarrow> planner_task" where
  "set_next lib now t = t\<lparr>tk_next := compute_next_run lib t now\<rparr>"

section \<open>One task\<close>

definition history_limit :: nat where
  "history_limit = 50"

definition push_history :: "planner_run \<Rightarrow> planner_task \<Rightarrow> planner_task" where
  "push_history r t = t\<lparr>tk_history := take history_limit (r # tk_history t)\<rparr>"

text \<open>A run record is shared by the history of its task and the call that follows the run.\<close>

definition put_run :: "planner_run \<Rightarrow> planner_task \<Rightarrow> planner_task" where
  "put_run r t = t\<lparr>tk_history := map (\<lambda>x. if pr_run x = pr_run r then r else x) (tk_history t)\<rparr>"

definition started_run :: "string \<Rightarrow> int \<Rightarrow> bool \<Rightarrow> bool \<Rightarrow> planner_run" where
  "started_run rid now late manual =
     \<lparr>pr_run = rid, pr_started = now, pr_finished = None, pr_status = PlannedRunning, pr_error = None, pr_session = None,
      pr_marker = None, pr_queue = None, pr_turn = None, pr_late = late, pr_manual = manual\<rparr>"

definition skipped_run :: "string \<Rightarrow> int \<Rightarrow> string \<Rightarrow> planner_run" where
  "skipped_run rid now why =
     (started_run rid now False False)\<lparr>pr_finished := Some now, pr_status := PlannedSkipped, pr_error := Some why\<rparr>"

fun planned_status_of :: "settled_status \<Rightarrow> planned_status" where
  "planned_status_of SettledOk = PlannedOk"
| "planned_status_of SettledFailed = PlannedFailed"
| "planned_status_of SettledUnknown = PlannedUnknown"

text \<open>An empty message counts as none.\<close>

definition finished_run :: "int \<Rightarrow> planner_settlement \<Rightarrow> planner_run \<Rightarrow> planner_run" where
  "finished_run now s r =
     r\<lparr>pr_status := planned_status_of (sl_status s), pr_finished := Some now,
       pr_error := (if truthy (sl_error s) then sl_error s else None)\<rparr>"

definition unconfirmed_result :: string where
  "unconfirmed_result = ''The run's result could not be confirmed.''"

definition finished_task :: "planner_settlement \<Rightarrow> planner_run \<Rightarrow> planner_task \<Rightarrow> planner_task" where
  "finished_task s r t =
     (put_run r t)\<lparr>tk_last_error := (if sl_status s = SettledOk then None else Some (nullish (pr_error r) unconfirmed_result))\<rparr>"

text \<open>The bookkeeping of a start, before the runner is asked. A manual start leaves the clock alone.\<close>

definition begun_task :: "cron_lib \<Rightarrow> int \<Rightarrow> bool \<Rightarrow> planner_run \<Rightarrow> planner_task \<Rightarrow> planner_task" where
  "begun_task lib now manual r t =
     (let t1 = (if manual then t
                else set_next lib now
                  (t\<lparr>tk_last_run := Some now, tk_runs := Suc (tk_runs t),
                     tk_enabled := (tk_enabled t \<and> cadence_kind (tk_cadence t) \<noteq> KindAt)\<rparr>))
      in push_history r (t1\<lparr>tk_updated := now\<rparr>))"

definition skip_message :: "overlap_policy \<Rightarrow> string" where
  "skip_message p =
     (if p = OverlapSkip then ''previous run still active (overlap policy: skip)''
      else ''a run is already queued behind the active one (overlap policy: queue)'')"

text \<open>A start that the overlap policy refuses still moves the clock on.\<close>

definition overlap_skipped :: "cron_lib \<Rightarrow> int \<Rightarrow> bool \<Rightarrow> string \<Rightarrow> overlap_policy \<Rightarrow> planner_task \<Rightarrow> planner_task" where
  "overlap_skipped lib now manual rid p t =
     (let t1 = push_history (skipped_run rid now (skip_message p)) t
      in if manual then t1 else t1\<lparr>tk_next := compute_next_run lib (t1\<lparr>tk_last_run := Some now\<rparr>) now\<rparr>)"

definition missed_by :: "int \<Rightarrow> planner_task \<Rightarrow> int \<Rightarrow> bool" where
  "missed_by grace t now \<longleftrightarrow> (case tk_next t of None \<Rightarrow> False | Some n \<Rightarrow> grace < now - n)"

definition skip_missed :: "cron_lib \<Rightarrow> string \<Rightarrow> int \<Rightarrow> int \<Rightarrow> planner_task \<Rightarrow> planner_task" where
  "skip_missed lib rid now t0 t =
     (let t1 = push_history (skipped_run rid now ''missed while Polyth was not running (catch-up: skip)'') t;
          t2 = (case tk_cadence t1 of
                  CadenceAt n \<Rightarrow> t1\<lparr>tk_enabled := False, tk_next := None\<rparr>
                | CadenceEvery m \<Rightarrow> t1\<lparr>tk_next := Some (t0 + m * 60000)\<rparr>
                | CadenceCron e z \<Rightarrow> set_next lib t0 t1)
      in t2\<lparr>tk_updated := t0\<rparr>)"

text \<open>Whose turn a run is, and the route it takes.\<close>

definition planner_turn_admission :: "planner_task \<Rightarrow> string option" where
  "planner_turn_admission t = (if truthy (tk_owner t) then tk_owner t else None)"

definition planner_execution_selection :: "planner_task \<Rightarrow> execution_model option \<times> harness_selection option" where
  "planner_execution_selection t =
     (tk_model t,
      (case tk_harness t of
         Some (HarnessPinned h) \<Rightarrow> Some (HarnessPinned h)
       | _ \<Rightarrow>
           (case tk_model t of
              None \<Rightarrow> None
            | Some m \<Rightarrow> if truthy (em_harness m) then Some (HarnessPinned (the (em_harness m))) else None)))"

end
