(* ===== verification/PlannerService.thy ===== *)
theory PlannerService
  imports Planner
begin

text \<open>
  The planner service, \<open>createPlannerService\<close> of packages/planner/src/index.ts. Its calls are
  cut at their awaits: a \<open>planner_job\<close> is the rest of a call and what it waits for, and the
  pieces of all calls interleave in any order. What the outside answers (the clock, random
  ids, the runner, the observer of a run) is part of the event that brings it.

  Tasks are mutable objects that calls keep after a task left the list: \<open>pl_heap\<close> holds every
  object of the process under its id, \<open>pl_listed\<close> the ids of the array \<open>tasks\<close>. A promise in
  the map \<open>running\<close> is a number. \<open>pl_starts\<close> logs every call of the runner. The one-time copy
  of the shared document before the split is left out.
\<close>

section \<open>State\<close>

record planner_opts =
  po_lib :: cron_lib
  po_file :: bool        \<comment> \<open>there is a shared document\<close>
  po_spaces :: bool      \<comment> \<open>tasks of a Space have a document of their own\<close>
  po_settle :: bool      \<comment> \<open>the runner can follow a run\<close>
  po_space_of :: "string \<Rightarrow> string option"
  po_least :: int
  po_grace :: int

record planner_start =
  ps_task :: string
  ps_run :: string
  ps_at :: int
  ps_manual :: bool

text \<open>
  \<open>JobAdmit\<close> waits for the runner to accept a run, \<open>JobFollow\<close> is about to observe it,
  \<open>JobObserve\<close> waits for its end under the abort signal it was given, \<open>JobSettled\<close> is a promise
  that has ended and is still in \<open>running\<close>, \<open>JobQueued\<close> waits for the promise of an earlier run,
  and \<open>JobTick\<close> is a tick with the tasks it has still to fire and the run whose admission it
  waits for.
\<close>

datatype planner_job =
    JobAdmit nat string planner_run
  | JobFollow nat string planner_run
  | JobObserve nat string planner_run nat
  | JobSettled nat string
  | JobQueued nat nat string bool bool
  | JobTick int "string list" "string option"

record planner =
  pl_heap :: "(string, planner_task) jsmap"
  pl_listed :: "string list"
  pl_running :: "(string, nat) jsmap"
  pl_queued :: "string list"
  pl_inflight :: "string list"
  pl_observers :: nat
  pl_aborted :: "nat list"
  pl_timer :: bool
  pl_known :: "string list"
  pl_docs :: "(string, planner_task list) jsmap"
  pl_shared :: "planner_task list option"
  pl_fresh :: nat
  pl_jobs :: "planner_job list"
  pl_starts :: "planner_start list" \<comment> \<open>newest first\<close>
  pl_clock :: int \<comment> \<open>the last reading of the clock\<close>

definition task_in :: "planner \<Rightarrow> string \<Rightarrow> planner_task option" where
  "task_in p i = jm_get (pl_heap p) i"

definition put_task :: "planner_task \<Rightarrow> planner \<Rightarrow> planner" where
  "put_task t p = p\<lparr>pl_heap := jm_set (tk_id t) t (pl_heap p)\<rparr>"

definition listed_tasks :: "planner \<Rightarrow> planner_task list" where
  "listed_tasks p = List.map_filter (task_in p) (pl_listed p)"

definition must_get :: "string \<Rightarrow> planner \<Rightarrow> control_error + planner_task" where
  "must_get i p =
     (if i \<in> set (pl_listed p)
      then (case task_in p i of None \<Rightarrow> Inl NotFound | Some t \<Rightarrow> Inr t)
      else Inl NotFound)"

definition add_job :: "planner_job \<Rightarrow> planner \<Rightarrow> planner" where
  "add_job j p = p\<lparr>pl_jobs := j # pl_jobs p\<rparr>"

definition drop_job :: "planner_job \<Rightarrow> planner \<Rightarrow> planner" where
  "drop_job j p = p\<lparr>pl_jobs := remove1 j (pl_jobs p)\<rparr>"

definition set_inflight :: "string \<Rightarrow> planner \<Rightarrow> planner" where
  "set_inflight rid p = p\<lparr>pl_inflight := List.insert rid (pl_inflight p)\<rparr>"

definition unset_inflight :: "string \<Rightarrow> planner \<Rightarrow> planner" where
  "unset_inflight rid p = p\<lparr>pl_inflight := removeAll rid (pl_inflight p)\<rparr>"

section \<open>Documents\<close>

text \<open>
  \<open>save\<close> groups the tasks by Space, first the Spaces that already own a document, and writes
  one document per Space and then the shared one.
\<close>

definition task_groups :: "string list \<Rightarrow> planner_task list \<Rightarrow> (string option, planner_task list) jsmap" where
  "task_groups known ts =
     fold (\<lambda>t g. jm_set (tk_space t) (nullish (jm_get g (tk_space t)) [] @ [t]) g) ts
       (map (\<lambda>s. (Some s, [])) known)"

fun doc_writes :: "(string option \<times> planner_task list) list \<Rightarrow> (string \<times> planner_task list) list" where
  "doc_writes [] = []"
| "doc_writes ((None, ts) # gs) = doc_writes gs"
| "doc_writes ((Some s, ts) # gs) = (s, ts) # doc_writes gs"

definition save_writes :: "planner \<Rightarrow> (string \<times> planner_task list) list" where
  "save_writes p = doc_writes (task_groups (pl_known p) (listed_tasks p))"

text \<open>A JavaScript \<open>Set\<close> keeps the order in which its members came.\<close>

definition add_last :: "'a \<Rightarrow> 'a list \<Rightarrow> 'a list" where
  "add_last x xs = (if x \<in> set xs then xs else xs @ [x])"

definition write_doc :: "string \<times> planner_task list \<Rightarrow> planner \<Rightarrow> planner" where
  "write_doc w p = p\<lparr>pl_known := add_last (fst w) (pl_known p), pl_docs := jm_set (fst w) (snd w) (pl_docs p)\<rparr>"

definition write_shared :: "planner_opts \<Rightarrow> planner_task list \<Rightarrow> planner \<Rightarrow> planner" where
  "write_shared opts rest p =
     (if po_file opts \<and> (rest \<noteq> [] \<or> pl_shared p \<noteq> None) then p\<lparr>pl_shared := Some rest\<rparr> else p)"

definition save :: "planner_opts \<Rightarrow> planner \<Rightarrow> planner" where
  "save opts p =
     (if \<not> po_spaces opts then p\<lparr>pl_shared := Some (listed_tasks p)\<rparr>
      else
        write_shared opts (nullish (jm_get (task_groups (pl_known p) (listed_tasks p)) None) [])
          (fold write_doc (save_writes p) p))"

text \<open>A process that ends in the middle of \<open>save\<close> has written the first \<open>k\<close> Space documents.\<close>

definition save_upto :: "nat \<Rightarrow> planner \<Rightarrow> planner" where
  "save_upto k p = fold write_doc (take k (save_writes p)) p"

text \<open>\<open>load\<close> of every document when a service is created; a Space document wins.\<close>

definition loaded_tasks :: "planner_opts \<Rightarrow> string list \<Rightarrow> planner \<Rightarrow> (string, planner_task) jsmap" where
  "loaded_tasks opts spaces p =
     (let own = fold (\<lambda>s m. fold (\<lambda>t. jm_set (tk_id t) (t\<lparr>tk_space := Some s\<rparr>)) (nullish (jm_get (pl_docs p) s) []) m)
                  (if po_spaces opts then spaces else []) []
      in fold (\<lambda>t m. if jm_has m (tk_id t) then m else jm_set (tk_id t) t m)
           (if po_file opts then nullish (pl_shared p) [] else []) own)"

text \<open>Tasks without a Space are given the Space of their project, if it has one.\<close>

definition assigned :: "planner_opts \<Rightarrow> planner_task \<Rightarrow> planner_task" where
  "assigned opts t =
     (if truthy (tk_space t) then t
      else if truthy (po_space_of opts (tk_project t)) then t\<lparr>tk_space := po_space_of opts (tk_project t)\<rparr>
      else t)"

definition assign_spaces :: "planner_opts \<Rightarrow> planner \<Rightarrow> nat \<times> planner" where
  "assign_spaces opts p =
     (length (filter (\<lambda>t. assigned opts t \<noteq> t) (listed_tasks p)),
      fold (\<lambda>t. put_task (assigned opts t)) (listed_tasks p) p)"

definition assignSpaces :: "planner_opts \<Rightarrow> planner \<Rightarrow> nat \<times> planner" where
  "assignSpaces opts p =
     (case assign_spaces opts p of (n, p1) \<Rightarrow> (n, if 0 < n then save opts p1 else p1))"

text \<open>A new process on the documents of an old one.\<close>

definition boot :: "planner_opts \<Rightarrow> string list \<Rightarrow> planner \<Rightarrow> planner" where
  "boot opts spaces old =
     (let heap = loaded_tasks opts spaces old;
          p = \<lparr>pl_heap = heap, pl_listed = jm_keys heap, pl_running = [], pl_queued = [], pl_inflight = [],
               pl_observers = 0, pl_aborted = [], pl_timer = False,
               pl_known = (if po_spaces opts then remdups spaces else []), pl_docs = pl_docs old,
               pl_shared = pl_shared old, pl_fresh = 0, pl_jobs = [], pl_starts = pl_starts old, pl_clock = pl_clock old\<rparr>
      in snd (assignSpaces opts p))"

section \<open>Following a run\<close>

text \<open>\<open>track\<close> stores a new promise in \<open>running\<close>; when it ends it removes itself, if it is still there.\<close>

definition track :: "string \<Rightarrow> nat \<Rightarrow> planner \<Rightarrow> planner" where
  "track i k p = p\<lparr>pl_running := jm_set i k (pl_running p)\<rparr>"

definition untrack :: "string \<Rightarrow> nat \<Rightarrow> planner \<Rightarrow> planner" where
  "untrack i k p = (if jm_get (pl_running p) i = Some k then p\<lparr>pl_running := jm_delete i (pl_running p)\<rparr> else p)"

definition on_task :: "(planner_task \<Rightarrow> planner_task) \<Rightarrow> string \<Rightarrow> planner \<Rightarrow> planner" where
  "on_task f i p = (case task_in p i of None \<Rightarrow> p | Some t \<Rightarrow> put_task (f t) p)"

definition finish_run :: "planner_opts \<Rightarrow> int \<Rightarrow> string \<Rightarrow> planner_run \<Rightarrow> planner_settlement \<Rightarrow> planner \<Rightarrow> planner" where
  "finish_run opts now i r s p =
     (let r1 = finished_run now s r
      in save opts (unset_inflight (pr_run r) (on_task (finished_task s r1) i p)))"

definition signal_aborted :: "nat \<Rightarrow> planner \<Rightarrow> bool" where
  "signal_aborted g p \<longleftrightarrow> g \<in> set (pl_aborted p)"

definition begin_observe :: "nat \<Rightarrow> string \<Rightarrow> planner_run \<Rightarrow> planner \<Rightarrow> planner" where
  "begin_observe k i r p = add_job (JobObserve k i r (pl_observers p)) (set_inflight (pr_run r) p)"

text \<open>The observer answered with a settlement, or failed with a message.\<close>

definition observe_done :: "planner_opts \<Rightarrow> int \<Rightarrow> nat \<Rightarrow> string \<Rightarrow> planner_run \<Rightarrow> nat \<Rightarrow> string + planner_settlement \<Rightarrow> planner \<Rightarrow> planner" where
  "observe_done opts now k i r g answer p =
     add_job (JobSettled k i)
       (if signal_aborted g p then unset_inflight (pr_run r) p
        else
          (case answer of
             Inr s \<Rightarrow> finish_run opts now i r s p
           | Inl message \<Rightarrow>
               finish_run opts now i r
                 \<lparr>sl_status = SettledUnknown, sl_error = Some (''Could not confirm the run's result: '' @ message)\<rparr> p))"

section \<open>Starting a run\<close>

definition execute_task :: "planner_opts \<Rightarrow> int \<Rightarrow> string \<Rightarrow> bool \<Rightarrow> bool \<Rightarrow> string \<Rightarrow> nat \<Rightarrow> planner \<Rightarrow> planner" where
  "execute_task opts now i late manual rid k p =
     (let r = started_run rid now late manual;
          p1 = save opts (set_inflight rid (on_task (begun_task (po_lib opts) now manual r) i p))
      in add_job (JobAdmit k i r)
           (p1\<lparr>pl_starts := \<lparr>ps_task = i, ps_run = rid, ps_at = now, ps_manual = manual\<rparr> # pl_starts p1\<rparr>))"

record run_outcome =
  uo_session :: "string option"
  uo_marker :: "int option"
  uo_queue :: "string option"
  uo_turn :: "string option"

definition admitted_run :: "run_outcome \<Rightarrow> planner_run \<Rightarrow> planner_run" where
  "admitted_run u r =
     r\<lparr>pr_session := (if truthy (uo_session u) then uo_session u else pr_session r),
       pr_marker := (if uo_marker u = None then pr_marker r else uo_marker u),
       pr_queue := (if truthy (uo_queue u) then uo_queue u else pr_queue r),
       pr_turn := (if truthy (uo_turn u) then uo_turn u else pr_turn r)\<rparr>"

definition admitted_task :: "run_outcome \<Rightarrow> planner_run \<Rightarrow> planner_task \<Rightarrow> planner_task" where
  "admitted_task u r t =
     (put_run r t)\<lparr>tk_last_session := (if truthy (uo_session u) then uo_session u else tk_last_session t)\<rparr>"

text \<open>The runner accepted the run, or refused it with a message.\<close>

definition admit_done :: "planner_opts \<Rightarrow> int \<Rightarrow> nat \<Rightarrow> string \<Rightarrow> planner_run \<Rightarrow> string + run_outcome \<Rightarrow> planner \<Rightarrow> planner" where
  "admit_done opts now k i r answer p =
     (case answer of
        Inl message \<Rightarrow>
          add_job (JobSettled k i) (finish_run opts now i r \<lparr>sl_status = SettledFailed, sl_error = Some message\<rparr> p)
      | Inr u \<Rightarrow>
          (let r1 = admitted_run u r;
               p1 = on_task (admitted_task u r1) i p
           in if \<not> po_settle opts \<or> \<not> truthy (pr_session r1)
              then add_job (JobSettled k i) (finish_run opts now i r1 \<lparr>sl_status = SettledOk, sl_error = None\<rparr> p1)
              else add_job (JobFollow k i r1) (save opts (on_task (\<lambda>t. t\<lparr>tk_last_error := None\<rparr>) i p1))))"

text \<open>\<open>fire\<close> returns the run whose admission its caller waits for, if it started one.\<close>

definition fire :: "planner_opts \<Rightarrow> int \<Rightarrow> string \<Rightarrow> bool \<Rightarrow> bool \<Rightarrow> string \<Rightarrow> planner \<Rightarrow> string option \<times> planner" where
  "fire opts now i late manual rid p =
     (case task_in p i of
        None \<Rightarrow> (None, p)
      | Some t \<Rightarrow>
          (let policy = nullish (tk_overlap t) OverlapSkip;
               k = pl_fresh p
           in case jm_get (pl_running p) i of
                None \<Rightarrow> (Some rid, track i k (execute_task opts now i late manual rid k (p\<lparr>pl_fresh := Suc k\<rparr>)))
              | Some active \<Rightarrow>
                  if policy = OverlapSkip \<or> policy = OverlapQueue \<and> i \<in> set (pl_queued p)
                  then (None, save opts (on_task (overlap_skipped (po_lib opts) now manual rid policy) i p))
                  else if policy = OverlapQueue
                  then (None, track i k (add_job (JobQueued k active i late manual)
                          (p\<lparr>pl_queued := List.insert i (pl_queued p), pl_fresh := Suc k\<rparr>)))
                  else (Some rid, track i k (execute_task opts now i late manual rid k (p\<lparr>pl_fresh := Suc k\<rparr>)))))"

text \<open>The run a queued start waited for has ended.\<close>

definition dequeue :: "planner_opts \<Rightarrow> int \<Rightarrow> string \<Rightarrow> bool \<Rightarrow> bool \<Rightarrow> string \<Rightarrow> nat \<Rightarrow> planner \<Rightarrow> planner" where
  "dequeue opts now i late manual rid k p =
     execute_task opts now i late manual rid k (p\<lparr>pl_queued := removeAll i (pl_queued p)\<rparr>)"

section \<open>Ticks\<close>

definition is_due :: "int \<Rightarrow> planner_task \<Rightarrow> bool" where
  "is_due now t \<longleftrightarrow> tk_enabled t \<and> (case tk_next t of None \<Rightarrow> False | Some n \<Rightarrow> n \<le> now)"

definition tick_start :: "int \<Rightarrow> planner \<Rightarrow> planner" where
  "tick_start now p = add_job (JobTick now (map tk_id (filter (is_due now) (listed_tasks p))) None) p"

text \<open>One task of a tick. \<open>now\<close> is the clock when the task is reached, \<open>t0\<close> when the tick began.\<close>

definition tick_task :: "planner_opts \<Rightarrow> int \<Rightarrow> int \<Rightarrow> string \<Rightarrow> string \<Rightarrow> planner \<Rightarrow> string option \<times> planner" where
  "tick_task opts now t0 i rid p =
     (case task_in p i of
        None \<Rightarrow> (None, p)
      | Some t \<Rightarrow>
          if missed_by (po_grace opts) t t0 \<and> tk_catch_up t = Some CatchUpSkip
          then (None, save opts (put_task (skip_missed (po_lib opts) rid now t0 t) p))
          else fire opts now i (missed_by (po_grace opts) t t0) False rid p)"

fun tick_next :: "planner_opts \<Rightarrow> int \<Rightarrow> int \<Rightarrow> string list \<Rightarrow> string \<Rightarrow> planner \<Rightarrow> planner" where
  "tick_next opts now t0 [] rid p = p"
| "tick_next opts now t0 (i # is) rid p =
     (case tick_task opts now t0 i rid p of (w, p1) \<Rightarrow> add_job (JobTick t0 is w) p1)"


section \<open>Requests\<close>

record task_input =
  ti_project :: string
  ti_space :: "string option"
  ti_owner :: "string option"
  ti_prompt :: string
  ti_cadence :: cadence_input
  ti_session :: "string option"
  ti_title :: "string option"
  ti_target :: "planner_target option"
  ti_overlap :: "overlap_policy option"
  ti_catch_up :: "catch_up_policy option"
  ti_enabled :: "bool option"
  ti_model :: "execution_model option"
  ti_harness :: "harness_selection option"

definition new_task :: "planner_opts \<Rightarrow> int \<Rightarrow> string \<Rightarrow> task_input \<Rightarrow> string option \<Rightarrow> planner_cadence \<Rightarrow> planner_task" where
  "new_task opts now i input space c =
     set_next (po_lib opts) now (mirror_cadence
       \<lparr>tk_id = i, tk_project = ti_project input, tk_space = (if truthy space then space else None),
        tk_owner = (if truthy (ti_owner input) then ti_owner input else None),
        tk_session = (if truthy (ti_session input) then ti_session input else None),
        tk_title = (if truthy (map_option trim (ti_title input)) then map_option trim (ti_title input) else None),
        tk_prompt = trim (ti_prompt input), tk_kind = cadence_kind c, tk_at = None, tk_every = None, tk_cadence = c,
        tk_target = ti_target input, tk_overlap = ti_overlap input, tk_catch_up = ti_catch_up input,
        tk_enabled = nullish (ti_enabled input) True, tk_model = ti_model input, tk_harness = ti_harness input,
        tk_created = now, tk_updated = now, tk_last_run = None, tk_last_error = None, tk_last_session = None,
        tk_next = None, tk_runs = 0, tk_history = []\<rparr>)"

text \<open>\<open>i\<close> is the fresh \<open>randomUUID\<close>.\<close>

definition create_task :: "planner_opts \<Rightarrow> int \<Rightarrow> string \<Rightarrow> task_input \<Rightarrow> planner \<Rightarrow> control_error + planner_task \<times> planner" where
  "create_task opts now i input p =
     (if trim (ti_project input) = [] \<or> trim (ti_prompt input) = [] then Inl InvalidInput
      else
        (case cadence_of (po_lib opts) now (po_least opts) (ti_cadence input) of
           Inl e \<Rightarrow> Inl e
         | Inr c \<Rightarrow>
             (let space = (if ti_space input = None then po_space_of opts (ti_project input) else ti_space input)
              in if \<not> po_file opts \<and> \<not> truthy space then Inl InvalidInput
                 else
                   (let t = new_task opts now i input space c
                    in Inr (t, save opts ((put_task t p)\<lparr>pl_listed := pl_listed p @ [i]\<rparr>))))))"

text \<open>The fields of an update; a route is cleared by \<open>null\<close> (\<open>Some None\<close>).\<close>

record task_patch =
  tp_project :: "string option"
  tp_space :: "string option"
  tp_prompt :: "string option"
  tp_cadence :: cadence_input
  tp_session :: "string option"
  tp_title :: "string option"
  tp_target :: "planner_target option"
  tp_overlap :: "overlap_policy option"
  tp_catch_up :: "catch_up_policy option"
  tp_enabled :: "bool option"
  tp_model :: "execution_model option option"
  tp_harness :: "harness_selection option option"

text \<open>A flat cadence field overrides the cadence that the task carries.\<close>

definition merged_cadence :: "task_patch \<Rightarrow> planner_task \<Rightarrow> cadence_input" where
  "merged_cadence q t =
     (let c = tp_cadence q in
      if ci_kind c \<noteq> None \<or> ci_at c \<noteq> None \<or> ci_every c \<noteq> None
      then \<lparr>ci_cadence = None, ci_kind = Some (nullish (ci_kind c) (kind_name (tk_kind t))),
            ci_at = (if ci_at c = None then map_option Some (tk_at t) else ci_at c),
            ci_every = (if ci_every c = None then map_option Some (tk_every t) else ci_every c)\<rparr>
      else \<lparr>ci_cadence = Some (nullish (ci_cadence c) (raw_of (tk_cadence t))), ci_kind = None, ci_at = None, ci_every = None\<rparr>)"

definition moved_space :: "planner_opts \<Rightarrow> task_patch \<Rightarrow> string \<Rightarrow> string option" where
  "moved_space opts q project = (if tp_space q = None then po_space_of opts project else tp_space q)"

definition patched_task :: "planner_opts \<Rightarrow> int \<Rightarrow> task_patch \<Rightarrow> planner_cadence \<Rightarrow> planner_task \<Rightarrow> planner_task" where
  "patched_task opts now q c t =
     (let project = nullish (tp_project q) (tk_project t);
          space = moved_space opts q project;
          session = (if tp_session q = None then tk_session t else tp_session q);
          t1 = mirror_cadence
            (t\<lparr>tk_space := (if project = tk_project t then tk_space t else if truthy space then space else None),
               tk_project := project, tk_prompt := trim (nullish (tp_prompt q) (tk_prompt t)), tk_cadence := c,
               tk_session := session,
               tk_title := (case tp_title q of None \<Rightarrow> tk_title t | Some s \<Rightarrow> if trim s = [] then None else Some (trim s))\<rparr>);
          t2 = (case tp_target q of
                  None \<Rightarrow> t1
                | Some g \<Rightarrow> t1\<lparr>tk_target := Some g, tk_session := (if pt_mode g = ExistingSession then tk_session t1 else None)\<rparr>);
          t3 = t2\<lparr>tk_overlap := (if tp_overlap q = None then tk_overlap t2 else tp_overlap q),
                  tk_catch_up := (if tp_catch_up q = None then tk_catch_up t2 else tp_catch_up q),
                  tk_model := nullish (tp_model q) (tk_model t2),
                  tk_harness := nullish (tp_harness q) (tk_harness t2),
                  tk_enabled := nullish (tp_enabled q) (tk_enabled t2),
                  tk_runs := (if cadence_kind c = KindAt
                                \<and> (ci_kind (tp_cadence q) \<noteq> None \<or> ci_at (tp_cadence q) \<noteq> None \<or> ci_cadence (tp_cadence q) \<noteq> None)
                              then 0 else tk_runs t2)\<rparr>
      in (set_next (po_lib opts) now t3)\<lparr>tk_updated := now\<rparr>)"

definition update_task :: "planner_opts \<Rightarrow> int \<Rightarrow> string \<Rightarrow> task_patch \<Rightarrow> planner \<Rightarrow> control_error + planner_task \<times> planner" where
  "update_task opts now i q p =
     (case must_get i p of
        Inl e \<Rightarrow> Inl e
      | Inr t \<Rightarrow>
          if trim (nullish (tp_project q) (tk_project t)) = [] \<or> trim (nullish (tp_prompt q) (tk_prompt t)) = [] then Inl InvalidInput
          else
            (case cadence_of (po_lib opts) now (po_least opts) (merged_cadence q t) of
               Inl e \<Rightarrow> Inl e
             | Inr c \<Rightarrow>
                 (let project = nullish (tp_project q) (tk_project t)
                  in if project \<noteq> tk_project t \<and> \<not> po_file opts \<and> \<not> truthy (moved_space opts q project) then Inl InvalidInput
                     else (let t1 = patched_task opts now q c t in Inr (t1, save opts (put_task t1 p))))))"

definition remove_task :: "planner_opts \<Rightarrow> string \<Rightarrow> planner \<Rightarrow> bool \<times> planner" where
  "remove_task opts i p =
     (if i \<in> set (pl_listed p) then (True, save opts (p\<lparr>pl_listed := removeAll i (pl_listed p)\<rparr>)) else (False, p))"

definition enable_task :: "planner_opts \<Rightarrow> int \<Rightarrow> string \<Rightarrow> bool \<Rightarrow> planner \<Rightarrow> control_error + planner_task \<times> planner" where
  "enable_task opts now i enabled p =
     (case must_get i p of
        Inl e \<Rightarrow> Inl e
      | Inr t \<Rightarrow>
          (let t1 = (set_next (po_lib opts) now
                 (t\<lparr>tk_enabled := enabled, tk_runs := (if enabled \<and> cadence_kind (tk_cadence t) = KindAt then 0 else tk_runs t)\<rparr>))
                   \<lparr>tk_updated := now\<rparr>
           in Inr (t1, save opts (put_task t1 p))))"

definition run_now :: "planner_opts \<Rightarrow> int \<Rightarrow> string \<Rightarrow> string \<Rightarrow> planner \<Rightarrow> control_error + planner" where
  "run_now opts now i rid p =
     (case must_get i p of
        Inl e \<Rightarrow> Inl e
      | Inr t \<Rightarrow> Inr (snd (fire opts now i False True rid p)))"

definition runs_of :: "string \<Rightarrow> int \<Rightarrow> planner \<Rightarrow> control_error + planner_run list" where
  "runs_of i limit p =
     map_sum id (\<lambda>t. take (nat (max 1 (min limit (int history_limit)))) (tk_history t)) (must_get i p)"

text \<open>\<open>count\<close> is already truncated to a whole number; zero stands for the default of five.\<close>

definition preview_runs :: "planner_opts \<Rightarrow> int \<Rightarrow> cadence_input \<Rightarrow> int \<Rightarrow> control_error + int list" where
  "preview_runs opts now c count =
     (case cadence_of (po_lib opts) now (po_least opts) c of
        Inl e \<Rightarrow> Inl e
      | Inr cad \<Rightarrow>
          (let bounded = nat (max 1 (min (if count = 0 then 5 else count) 20))
           in case cad of
                CadenceAt t \<Rightarrow> Inr [t]
              | CadenceEvery m \<Rightarrow> Inr (map (\<lambda>n. now + int (Suc n) * m * 60000) [0..<bounded])
              | CadenceCron e z \<Rightarrow> next_runs (po_lib opts) e z now bounded))"

section \<open>Starting and stopping\<close>

definition lost_run :: "int \<Rightarrow> planner_run \<Rightarrow> planner_run" where
  "lost_run now r = r\<lparr>pr_status := PlannedUnknown, pr_finished := Some now,
     pr_error := Some ''Polyth stopped before this run's result was confirmed.''\<rparr>"

definition resume_run :: "planner_opts \<Rightarrow> int \<Rightarrow> string \<Rightarrow> planner_run \<Rightarrow> bool \<times> planner \<Rightarrow> bool \<times> planner" where
  "resume_run opts now i r s =
     (case s of (changed, p) \<Rightarrow>
        if pr_status r \<noteq> PlannedRunning \<or> pr_run r \<in> set (pl_inflight p) then (changed, p)
        else if po_settle opts \<and> truthy (pr_session r)
        then (changed, track i (pl_fresh p) (begin_observe (pl_fresh p) i r (p\<lparr>pl_fresh := Suc (pl_fresh p)\<rparr>)))
        else (True, on_task (\<lambda>t. (put_run (lost_run now r) t)\<lparr>tk_last_error := pr_error (lost_run now r)\<rparr>) i p))"

definition start_planner :: "planner_opts \<Rightarrow> int \<Rightarrow> planner \<Rightarrow> planner" where
  "start_planner opts now p =
     (if pl_timer p then p
      else
        (case fold (\<lambda>t. fold (resume_run opts now (tk_id t)) (tk_history t)) (listed_tasks p)
                (False, p\<lparr>pl_observers := Suc (pl_observers p)\<rparr>) of
           (changed, p1) \<Rightarrow> (if changed then save opts p1 else p1)\<lparr>pl_timer := True\<rparr>))"

definition stop_planner :: "planner \<Rightarrow> planner" where
  "stop_planner p = p\<lparr>pl_timer := False, pl_aborted := List.insert (pl_observers p) (pl_aborted p)\<rparr>"


section \<open>The interleaving\<close>

text \<open>
  An event is a request, the timer, or the resumption of a job together with what the outside
  answered. The last argument of a start is the fresh id of its run.
\<close>

datatype planner_event =
    EvCreate string task_input
  | EvUpdate string task_patch
  | EvRemove string
  | EvEnable string bool
  | EvRunNow string string
  | EvAssign
  | EvStart
  | EvStop
  | EvTick
  | EvTickNext int "string list" "string option" string
  | EvAdmit nat string planner_run "string + run_outcome"
  | EvFollow nat string planner_run
  | EvObserve nat string planner_run nat "string + planner_settlement"
  | EvSettled nat string
  | EvDequeue nat nat string bool bool string
  | EvBoot "string list"

fun job_promise :: "planner_job \<Rightarrow> nat option" where
  "job_promise (JobAdmit k i r) = Some k"
| "job_promise (JobFollow k i r) = Some k"
| "job_promise (JobObserve k i r g) = Some k"
| "job_promise (JobSettled k i) = Some k"
| "job_promise (JobQueued k b i late manual) = Some k"
| "job_promise (JobTick t0 is w) = None"

definition promise_pending :: "nat \<Rightarrow> planner \<Rightarrow> bool" where
  "promise_pending k p \<longleftrightarrow> Some k \<in> job_promise ` set (pl_jobs p)"

fun is_admission :: "string \<Rightarrow> planner_job \<Rightarrow> bool" where
  "is_admission rid (JobAdmit k i r) \<longleftrightarrow> pr_run r = rid"
| "is_admission rid _ \<longleftrightarrow> False"

definition admission_pending :: "string \<Rightarrow> planner \<Rightarrow> bool" where
  "admission_pending rid p \<longleftrightarrow> list_ex (is_admission rid) (pl_jobs p)"

definition used_runs :: "planner \<Rightarrow> string list" where
  "used_runs p = map ps_run (pl_starts p) @ concat (map (\<lambda>(_, t). map pr_run (tk_history t)) (pl_heap p))"

text \<open>A request that throws leaves the service as it was.\<close>

definition kept :: "planner \<Rightarrow> control_error + 'a \<times> planner \<Rightarrow> planner" where
  "kept p r = (case r of Inl e \<Rightarrow> p | Inr (x, q) \<Rightarrow> q)"

definition only_if :: "bool \<Rightarrow> 'a \<Rightarrow> 'a option" where
  "only_if b x = (if b then Some x else None)"

fun planner_do :: "planner_opts \<Rightarrow> int \<Rightarrow> planner_event \<Rightarrow> planner \<Rightarrow> planner option" where
  "planner_do opts now (EvCreate i input) p =
     only_if (\<not> jm_has (pl_heap p) i \<and> i \<notin> set (map ps_task (pl_starts p))) (kept p (create_task opts now i input p))"
| "planner_do opts now (EvUpdate i q) p = Some (kept p (update_task opts now i q p))"
| "planner_do opts now (EvRemove i) p = Some (snd (remove_task opts i p))"
| "planner_do opts now (EvEnable i b) p = Some (kept p (enable_task opts now i b p))"
| "planner_do opts now (EvRunNow i rid) p =
     only_if (rid \<notin> set (used_runs p)) (case run_now opts now i rid p of Inl e \<Rightarrow> p | Inr q \<Rightarrow> q)"
| "planner_do opts now EvAssign p = Some (snd (assignSpaces opts p))"
| "planner_do opts now EvStart p = Some (start_planner opts now p)"
| "planner_do opts now EvStop p = Some (stop_planner p)"
| "planner_do opts now EvTick p = Some (tick_start now p)"
| "planner_do opts now (EvTickNext t0 is w rid) p =
     only_if (JobTick t0 is w \<in> set (pl_jobs p) \<and> rid \<notin> set (used_runs p)
           \<and> (case w of None \<Rightarrow> True | Some x \<Rightarrow> \<not> admission_pending x p))
       (tick_next opts now t0 is rid (drop_job (JobTick t0 is w) p))"
| "planner_do opts now (EvAdmit k i r answer) p =
     only_if (JobAdmit k i r \<in> set (pl_jobs p)) (admit_done opts now k i r answer (drop_job (JobAdmit k i r) p))"
| "planner_do opts now (EvFollow k i r) p =
     only_if (JobFollow k i r \<in> set (pl_jobs p)) (begin_observe k i r (drop_job (JobFollow k i r) p))"
| "planner_do opts now (EvObserve k i r g answer) p =
     only_if (JobObserve k i r g \<in> set (pl_jobs p)) (observe_done opts now k i r g answer (drop_job (JobObserve k i r g) p))"
| "planner_do opts now (EvSettled k i) p =
     only_if (JobSettled k i \<in> set (pl_jobs p)) (untrack i k (drop_job (JobSettled k i) p))"
| "planner_do opts now (EvDequeue k b i late manual rid) p =
     only_if (JobQueued k b i late manual \<in> set (pl_jobs p) \<and> \<not> promise_pending b p \<and> rid \<notin> set (used_runs p))
       (dequeue opts now i late manual rid k (drop_job (JobQueued k b i late manual) p))"
| "planner_do opts now (EvBoot spaces) p =
     only_if (set (jm_keys (pl_docs p)) \<subseteq> set spaces) (boot opts spaces p)"

text \<open>
  \<open>ok\<close> says which events are considered. The clock does not go back.
\<close>

inductive planner_step :: "planner_opts \<Rightarrow> (planner \<Rightarrow> planner_event \<Rightarrow> bool) \<Rightarrow> planner \<Rightarrow> planner \<Rightarrow> bool"
  for opts ok where
  event: "planner_do opts now e p = Some q \<Longrightarrow> pl_clock p \<le> now \<Longrightarrow> ok p e \<Longrightarrow>
    planner_step opts ok p (q\<lparr>pl_clock := now\<rparr>)"

inductive_cases planner_stepE: "planner_step opts ok p q"

definition new_planner :: planner where
  "new_planner = \<lparr>pl_heap = [], pl_listed = [], pl_running = [], pl_queued = [], pl_inflight = [], pl_observers = 0,
     pl_aborted = [], pl_timer = False, pl_known = [], pl_docs = [], pl_shared = None, pl_fresh = 0, pl_jobs = [],
     pl_starts = [], pl_clock = 0\<rparr>"

text \<open>A run of the service as a list of events with their clock.\<close>

fun planner_path :: "planner_opts \<Rightarrow> (planner \<Rightarrow> planner_event \<Rightarrow> bool) \<Rightarrow> (int \<times> planner_event) list \<Rightarrow> planner \<Rightarrow> planner option" where
  "planner_path opts ok [] p = Some p"
| "planner_path opts ok ((now, e) # es) p =
     (if ok p e \<and> pl_clock p \<le> now
      then (case planner_do opts now e p of
              None \<Rightarrow> None
            | Some q \<Rightarrow> planner_path opts ok es (q\<lparr>pl_clock := now\<rparr>))
      else None)"

lemma planner_path_steps: "planner_path opts ok es p = Some q \<Longrightarrow> (planner_step opts ok)\<^sup>*\<^sup>* p q"
proof (induction es arbitrary: p)
  case (Cons x es)
  obtain now e where x: "x = (now, e)" by (cases x)
  with Cons.prems obtain q1 where "ok p e" "pl_clock p \<le> now" "planner_do opts now e p = Some q1"
      "planner_path opts ok es (q1\<lparr>pl_clock := now\<rparr>) = Some q"
    by (auto split: if_splits option.splits)
  with Cons.IH show ?case by (blast intro: converse_rtranclp_into_rtranclp planner_step.event)
qed simp

end
