(* ===== verification/PlannerRules.thy ===== *)
theory PlannerRules
  imports PlannerService
begin

text \<open>
  What holds of every run of the planner service: the documents on disk are the tasks in
  memory, tasks are well formed, and the outcome of a run is final.
\<close>

section \<open>The parts of a state\<close>

named_theorems planner_defs \<open>operations that do not touch tasks and documents\<close>

declare add_job_def [planner_defs] drop_job_def [planner_defs] set_inflight_def [planner_defs]
  unset_inflight_def [planner_defs] track_def [planner_defs] untrack_def [planner_defs]
  begin_observe_def [planner_defs] stop_planner_def [planner_defs] tick_start_def [planner_defs]

text \<open>What a restart depends on.\<close>

definition same_tasks :: "planner \<Rightarrow> planner \<Rightarrow> bool" where
  "same_tasks p q \<longleftrightarrow> pl_heap q = pl_heap p \<and> pl_listed q = pl_listed p \<and> pl_docs q = pl_docs p
     \<and> pl_shared q = pl_shared p \<and> pl_known q = pl_known p"

lemma same_tasks_refl [simp]: "same_tasks p p"
  by (simp add: same_tasks_def)

lemma same_tasks_trans: "same_tasks p q \<Longrightarrow> same_tasks q r \<Longrightarrow> same_tasks p r"
  by (simp add: same_tasks_def)

lemma same_tasks_jobs [simp]:
  "same_tasks p (add_job j p)" "same_tasks p (drop_job j p)" "same_tasks p (set_inflight x p)"
  "same_tasks p (unset_inflight x p)" "same_tasks p (track i k p)" "same_tasks p (untrack i k p)"
  "same_tasks p (begin_observe k i r p)" "same_tasks p (stop_planner p)" "same_tasks p (tick_start t p)"
  "same_tasks p (p\<lparr>pl_fresh := n\<rparr>)" "same_tasks p (p\<lparr>pl_queued := qs\<rparr>)" "same_tasks p (p\<lparr>pl_starts := ss\<rparr>)"
  "same_tasks p (p\<lparr>pl_observers := n\<rparr>)" "same_tasks p (p\<lparr>pl_timer := b\<rparr>)" "same_tasks p (p\<lparr>pl_clock := t\<rparr>)"
  by (simp_all add: same_tasks_def planner_defs)

lemma same_tasks_lookup: "same_tasks p q \<Longrightarrow> task_in q i = task_in p i"
  by (simp add: same_tasks_def task_in_def)

lemma same_tasks_listed: "same_tasks p q \<Longrightarrow> listed_tasks q = listed_tasks p"
proof -
  assume a: "same_tasks p q"
  then have "task_in q = task_in p" by (intro ext) (simp add: same_tasks_lookup)
  with a show ?thesis by (simp add: same_tasks_def listed_tasks_def)
qed

lemma task_in_put [simp]: "task_in (put_task t p) i = (if i = tk_id t then Some t else task_in p i)"
  by (simp add: task_in_def put_task_def jm_get_set)

lemma put_task_fields [simp]:
  "pl_listed (put_task t p) = pl_listed p" "pl_docs (put_task t p) = pl_docs p" "pl_shared (put_task t p) = pl_shared p"
  "pl_known (put_task t p) = pl_known p" "pl_jobs (put_task t p) = pl_jobs p" "pl_starts (put_task t p) = pl_starts p"
  "pl_inflight (put_task t p) = pl_inflight p" "pl_clock (put_task t p) = pl_clock p" "pl_running (put_task t p) = pl_running p"
  by (simp_all add: put_task_def)

lemma on_task_fields [simp]:
  "pl_listed (on_task f i p) = pl_listed p" "pl_docs (on_task f i p) = pl_docs p" "pl_shared (on_task f i p) = pl_shared p"
  "pl_known (on_task f i p) = pl_known p" "pl_jobs (on_task f i p) = pl_jobs p" "pl_starts (on_task f i p) = pl_starts p"
  "pl_inflight (on_task f i p) = pl_inflight p" "pl_clock (on_task f i p) = pl_clock p" "pl_running (on_task f i p) = pl_running p"
  by (simp_all add: on_task_def split: option.splits)

section \<open>Well-formed tables of tasks\<close>

definition core :: "planner_opts \<Rightarrow> planner \<Rightarrow> bool" where
  "core opts p \<longleftrightarrow> jm_ok (pl_heap p) \<and> distinct (pl_listed p)
     \<and> (\<forall>i t. task_in p i = Some t \<longrightarrow> tk_id t = i \<and> (po_file opts \<or> tk_space t \<noteq> None))
     \<and> (\<forall>i\<in>set (pl_listed p). task_in p i \<noteq> None)
     \<and> set (jm_keys (pl_docs p)) \<subseteq> set (pl_known p) \<and> distinct (pl_known p)
     \<and> (po_spaces opts \<or> pl_docs p = [])"

lemma core_same: "same_tasks p q \<Longrightarrow> core opts p \<Longrightarrow> core opts q"
  by (simp add: core_def same_tasks_def task_in_def)

lemma core_put:
  assumes "core opts p" "po_file opts \<or> tk_space t \<noteq> None"
  shows "core opts (put_task t p)"
  using assms unfolding core_def by (auto simp: put_task_def task_in_def jm_get_set)

lemma core_on_task:
  assumes "core opts p" "\<And>t. tk_id (f t) = tk_id t" "\<And>t. tk_space (f t) = tk_space t"
  shows "core opts (on_task f i p)"
proof (cases "task_in p i")
  case (Some t)
  with assms have "po_file opts \<or> tk_space (f t) \<noteq> None" by (auto simp: core_def)
  with assms(1) Some show ?thesis by (simp add: on_task_def core_put)
qed (simp add: on_task_def assms(1))

lemma listed_task_ids:
  assumes "core opts p"
  shows "map tk_id (listed_tasks p) = pl_listed p"
proof -
  have "\<forall>i\<in>set is. task_in p i \<noteq> None \<Longrightarrow> map tk_id (List.map_filter (task_in p) is) = is" for "is"
    using assms by (induction "is") (auto simp: List.map_filter_simps core_def)
  with assms show ?thesis by (simp add: core_def listed_tasks_def)
qed

lemma in_listed_tasks:
  assumes "core opts p"
  shows "t \<in> set (listed_tasks p) \<longleftrightarrow> tk_id t \<in> set (pl_listed p) \<and> task_in p (tk_id t) = Some t"
proof -
  have "t \<in> set (List.map_filter f xs) \<longleftrightarrow> (\<exists>i\<in>set xs. f i = Some t)" for f :: "string \<Rightarrow> planner_task option" and xs
    by (induction xs) (auto simp: List.map_filter_simps split: option.splits)
  then have "t \<in> set (listed_tasks p) \<longleftrightarrow> (\<exists>i\<in>set (pl_listed p). task_in p i = Some t)"
    by (simp add: listed_tasks_def)
  moreover have "tk_id t = i" if "task_in p i = Some t" for i using assms that by (simp add: core_def)
  ultimately show ?thesis by auto
qed

section \<open>Documents are the tasks\<close>

lemma groups_get:
  "jm_get (fold (\<lambda>t g. jm_set (tk_space t) (nullish (jm_get g (tk_space t)) [] @ [t]) g) ts g) k =
     (if jm_get g k = None \<and> filter (\<lambda>t. tk_space t = k) ts = [] then None
      else Some (nullish (jm_get g k) [] @ filter (\<lambda>t. tk_space t = k) ts))"
proof (induction ts arbitrary: g)
  case Nil then show ?case by (cases "jm_get g k") auto
next
  case (Cons t ts)
  then show ?case by (auto simp: jm_get_set)
qed

lemma groups_start: "jm_get (map (\<lambda>s. (Some s, [])) known) k = (if k \<in> Some ` set known then Some [] else None)"
  by (induction known) (auto simp: jm_get_def)

lemma task_groups_get:
  "jm_get (task_groups known ts) k =
     (if k \<in> Some ` set known \<or> filter (\<lambda>t. tk_space t = k) ts \<noteq> [] then Some (filter (\<lambda>t. tk_space t = k) ts) else None)"
  unfolding task_groups_def groups_get groups_start by auto

lemma groups_ok:
  "jm_ok g \<Longrightarrow> jm_ok (fold (\<lambda>t g. jm_set (tk_space t) (nullish (jm_get g (tk_space t)) [] @ [t]) g) ts g)"
  by (induction ts arbitrary: g) auto

lemma task_groups_ok: "distinct known \<Longrightarrow> jm_ok (task_groups known ts)"
  unfolding task_groups_def
  by (rule groups_ok) (simp add: jm_ok_def o_def distinct_map inj_on_def)


lemma doc_writes_get: "map_of (doc_writes gs) s = map_of gs (Some s)"
  by (induction gs rule: doc_writes.induct) auto

lemma doc_writes_keys: "Some ` set (map fst (doc_writes gs)) \<subseteq> set (map fst gs)"
  by (induction gs rule: doc_writes.induct) auto

lemma doc_writes_distinct: "distinct (map fst gs) \<Longrightarrow> distinct (map fst (doc_writes gs))"
proof (induction gs rule: doc_writes.induct)
  case (3 s ts gs)
  then show ?case using doc_writes_keys [of gs] by auto
qed auto

lemma write_docs_fields:
  "pl_heap (fold write_doc ws p) = pl_heap p" "pl_listed (fold write_doc ws p) = pl_listed p"
  "pl_shared (fold write_doc ws p) = pl_shared p" "pl_jobs (fold write_doc ws p) = pl_jobs p"
  "pl_starts (fold write_doc ws p) = pl_starts p" "pl_inflight (fold write_doc ws p) = pl_inflight p"
  "pl_clock (fold write_doc ws p) = pl_clock p" "pl_running (fold write_doc ws p) = pl_running p"
  "pl_docs (fold write_doc ws p) = fold (\<lambda>(k, v). jm_set k v) ws (pl_docs p)"
  "pl_known (fold write_doc ws p) = fold add_last (map fst ws) (pl_known p)"
  by (induction ws arbitrary: p) (auto simp: write_doc_def)

lemma save_fields [simp]:
  "pl_heap (save opts p) = pl_heap p" "pl_listed (save opts p) = pl_listed p" "pl_jobs (save opts p) = pl_jobs p"
  "pl_starts (save opts p) = pl_starts p" "pl_inflight (save opts p) = pl_inflight p" "pl_clock (save opts p) = pl_clock p"
  "pl_running (save opts p) = pl_running p"
  by (simp_all add: save_def write_shared_def write_docs_fields)

lemma task_in_save [simp]: "task_in (save opts p) i = task_in p i"
  by (simp add: task_in_def)

lemma listed_tasks_save [simp]: "listed_tasks (save opts p) = listed_tasks p"
proof -
  have "task_in (save opts p) = task_in p" by (intro ext) simp
  then show ?thesis by (simp add: listed_tasks_def)
qed

definition saved :: "planner_opts \<Rightarrow> planner \<Rightarrow> bool" where
  "saved opts p \<longleftrightarrow>
     (if po_spaces opts then
        (\<forall>s. set (nullish (jm_get (pl_docs p) s) []) = {t \<in> set (listed_tasks p). tk_space t = Some s})
        \<and> (po_file opts \<longrightarrow> set (nullish (pl_shared p) []) = {t \<in> set (listed_tasks p). tk_space t = None})
      else set (nullish (pl_shared p) []) = set (listed_tasks p))"

lemma saved_same: "same_tasks p q \<Longrightarrow> saved opts p \<Longrightarrow> saved opts q"
  by (simp add: saved_def same_tasks_listed) (simp add: same_tasks_def)

lemma set_fold_insert: "set (fold add_last xs ys) = set xs \<union> set ys"
  by (induction xs arbitrary: ys) (auto simp: add_last_def)

lemma distinct_fold_insert: "distinct ys \<Longrightarrow> distinct (fold add_last xs ys)"
  by (induction xs arbitrary: ys) (auto simp: add_last_def)

lemma keys_fold_set: "set (jm_keys (fold (\<lambda>(k, v). jm_set k v) ws m)) = fst ` set ws \<union> set (jm_keys m)"
  by (induction ws arbitrary: m) (auto simp: jm_keys_set jm_has_keys split: if_splits)

lemma core_save: "core opts p \<Longrightarrow> core opts (save opts p)"
  unfolding core_def
  by (auto simp: save_def write_shared_def write_docs_fields task_in_def keys_fold_set set_fold_insert distinct_fold_insert)

lemma saved_save:
  assumes "core opts p" "po_file opts \<or> po_spaces opts"
  shows "saved opts (save opts p)"
proof (cases "po_spaces opts")
  case False
  then show ?thesis by (simp add: saved_def) (simp add: save_def listed_tasks_def)
next
  case True
  let ?g = "task_groups (pl_known p) (listed_tasks p)"
  from assms(1) have kd: "distinct (pl_known p)" and sub: "set (jm_keys (pl_docs p)) \<subseteq> set (pl_known p)"
    by (auto simp: core_def)
  have d: "distinct (map fst (save_writes p))"
    using task_groups_ok [OF kd] by (simp add: save_writes_def doc_writes_distinct jm_ok_def)
  have get: "map_of (save_writes p) s = jm_get ?g (Some s)" for s
    by (simp add: save_writes_def doc_writes_get jm_get_def)
  have docs: "pl_docs (save opts p) = fold (\<lambda>(k, v). jm_set k v) (save_writes p) (pl_docs p)"
    using True by (simp add: save_def write_shared_def write_docs_fields)
  have "nullish (jm_get (pl_docs (save opts p)) s) [] = filter (\<lambda>t. tk_space t = Some s) (listed_tasks p)" for s
  proof (cases "jm_get ?g (Some s)")
    case None
    then have "s \<notin> set (jm_keys (pl_docs p))" "filter (\<lambda>t. tk_space t = Some s) (listed_tasks p) = []"
      using sub by (auto simp: task_groups_get split: if_splits)
    moreover from this have "jm_get (pl_docs p) s = None" by (simp add: jm_get_None_iff)
    ultimately show ?thesis unfolding docs js.get_fold_set [OF d] get using None by simp
  next
    case (Some ts)
    then have "ts = filter (\<lambda>t. tk_space t = Some s) (listed_tasks p)" by (auto simp: task_groups_get split: if_splits)
    then show ?thesis unfolding docs js.get_fold_set [OF d] get using Some by simp
  qed
  moreover have "po_file opts \<Longrightarrow> nullish (pl_shared (save opts p)) [] = filter (\<lambda>t. tk_space t = None) (listed_tasks p)"
    using True by (cases "pl_shared p") (auto simp: save_def write_shared_def write_docs_fields task_groups_get)
  ultimately show ?thesis using True by (simp add: saved_def)
qed

section \<open>Every event keeps tasks and documents together\<close>

definition durable :: "planner_opts \<Rightarrow> planner \<Rightarrow> bool" where
  "durable opts p \<longleftrightarrow> core opts p \<and> saved opts p"

definition opts_ok :: "planner_opts \<Rightarrow> bool" where
  "opts_ok opts \<longleftrightarrow> po_file opts \<or> po_spaces opts"

lemma durable_same: "same_tasks p q \<Longrightarrow> durable opts p \<Longrightarrow> durable opts q"
  unfolding durable_def using core_same saved_same by blast

lemma durable_save: "opts_ok opts \<Longrightarrow> core opts p \<Longrightarrow> durable opts (save opts p)"
  by (simp add: durable_def opts_ok_def core_save saved_save)

lemma durable_core: "durable opts p \<Longrightarrow> core opts p"
  by (simp add: durable_def)

lemma durable_jobs [simp]:
  "durable opts (add_job j p) = durable opts p" "durable opts (drop_job j p) = durable opts p"
  "durable opts (set_inflight x p) = durable opts p" "durable opts (unset_inflight x p) = durable opts p"
  "durable opts (track i k p) = durable opts p" "durable opts (untrack i k p) = durable opts p"
  "durable opts (begin_observe k i r p) = durable opts p" "durable opts (stop_planner p) = durable opts p"
  "durable opts (tick_start t p) = durable opts p" "durable opts (p\<lparr>pl_fresh := n\<rparr>) = durable opts p"
  "durable opts (p\<lparr>pl_queued := qs\<rparr>) = durable opts p" "durable opts (p\<lparr>pl_starts := ss\<rparr>) = durable opts p"
  "durable opts (p\<lparr>pl_observers := m\<rparr>) = durable opts p" "durable opts (p\<lparr>pl_timer := b\<rparr>) = durable opts p"
  "durable opts (p\<lparr>pl_clock := c\<rparr>) = durable opts p" "durable opts (p\<lparr>pl_queued := qs, pl_fresh := n\<rparr>) = durable opts p"
  by (rule iffI; erule durable_same [rotated]; simp add: same_tasks_def planner_defs)+

lemma core_jobs [simp]:
  "core opts (add_job j p) = core opts p" "core opts (drop_job j p) = core opts p"
  "core opts (set_inflight x p) = core opts p" "core opts (unset_inflight x p) = core opts p"
  "core opts (begin_observe k i r p) = core opts p" "core opts (track i k p) = core opts p"
  "core opts (p\<lparr>pl_fresh := n\<rparr>) = core opts p" "core opts (p\<lparr>pl_queued := qs\<rparr>) = core opts p"
  "core opts (p\<lparr>pl_observers := m\<rparr>) = core opts p"
  by (rule iffI; erule core_same [rotated]; simp add: same_tasks_def planner_defs)+

lemma task_change_ids [simp]:
  "tk_id (push_history r t) = tk_id t" "tk_space (push_history r t) = tk_space t"
  "tk_id (put_run r t) = tk_id t" "tk_space (put_run r t) = tk_space t"
  "tk_id (mirror_cadence t) = tk_id t" "tk_space (mirror_cadence t) = tk_space t"
  "tk_id (set_next lib now t) = tk_id t" "tk_space (set_next lib now t) = tk_space t"
  "tk_id (begun_task lib now m r t) = tk_id t" "tk_space (begun_task lib now m r t) = tk_space t"
  "tk_id (overlap_skipped lib now m rid pol t) = tk_id t" "tk_space (overlap_skipped lib now m rid pol t) = tk_space t"
  "tk_id (finished_task s r t) = tk_id t" "tk_space (finished_task s r t) = tk_space t"
  "tk_id (admitted_task u r t) = tk_id t" "tk_space (admitted_task u r t) = tk_space t"
  by (simp_all add: push_history_def put_run_def mirror_cadence_def set_next_def begun_task_def overlap_skipped_def
      finished_task_def admitted_task_def Let_def)

lemma skip_missed_ids [simp]:
  "tk_id (skip_missed lib rid now t0 t) = tk_id t" "tk_space (skip_missed lib rid now t0 t) = tk_space t"
  by (simp_all add: skip_missed_def Let_def split: planner_cadence.split)

lemma listed_known: "core opts p \<Longrightarrow> i \<in> set (pl_listed p) \<Longrightarrow> \<exists>t. task_in p i = Some t \<and> tk_id t = i"
  unfolding core_def by blast

lemma core_task: "core opts p \<Longrightarrow> task_in p i = Some t \<Longrightarrow> tk_id t = i \<and> (po_file opts \<or> tk_space t \<noteq> None)"
  by (simp add: core_def)

lemma durable_execute:
  "opts_ok opts \<Longrightarrow> core opts p \<Longrightarrow> durable opts (execute_task opts now i late manual rid k p)"
  by (simp add: execute_task_def Let_def durable_save core_on_task)

lemma durable_finish: "opts_ok opts \<Longrightarrow> core opts p \<Longrightarrow> durable opts (finish_run opts now i r s p)"
  by (simp add: finish_run_def Let_def durable_save core_on_task)

lemma durable_observe: "opts_ok opts \<Longrightarrow> durable opts p \<Longrightarrow> durable opts (observe_done opts now k i r g answer p)"
  by (auto simp: observe_done_def durable_finish durable_core split: sum.split)

lemma durable_admit:
  assumes "opts_ok opts" "durable opts p"
  shows "durable opts (admit_done opts now k i r answer p)"
proof (cases answer)
  case (Inr u)
  have c: "core opts (on_task (admitted_task u x) i p)" for x
    using assms by (intro core_on_task) (simp_all add: durable_core)
  then have "core opts (on_task (\<lambda>t. t\<lparr>tk_last_error := None\<rparr>) i (on_task (admitted_task u x) i p))" for x
    by (rule core_on_task) simp_all
  with Inr c assms(1) show ?thesis by (simp add: admit_done_def Let_def durable_finish durable_save)
qed (simp add: admit_done_def durable_finish durable_core assms)

lemma durable_fire:
  assumes "opts_ok opts" "durable opts p"
  shows "durable opts (snd (fire opts now i late manual rid p))"
proof -
  have "core opts (on_task (overlap_skipped (po_lib opts) now manual rid pol) i p)" for pol
    using assms by (intro core_on_task) (simp_all add: durable_core)
  then show ?thesis using assms
    by (auto simp: fire_def Let_def durable_core durable_save intro!: durable_execute split: option.split)
qed

lemma durable_tick_task:
  assumes "opts_ok opts" "durable opts p"
  shows "durable opts (snd (tick_task opts now t0 i rid p))"
proof (cases "task_in p i")
  case (Some t)
  with assms have "core opts (put_task (skip_missed (po_lib opts) rid now t0 t) p)"
    using core_task [OF durable_core] by (intro core_put) (auto simp: durable_core)
  with Some assms show ?thesis by (simp add: tick_task_def durable_fire durable_save)
qed (simp add: tick_task_def assms)

lemma durable_tick_next:
  assumes "opts_ok opts" "durable opts p"
  shows "durable opts (tick_next opts now t0 is rid p)"
proof (cases "is")
  case (Cons i js)
  obtain w p1 where "tick_task opts now t0 i rid p = (w, p1)" by fastforce
  with durable_tick_task [OF assms, of now t0 i rid] Cons show ?thesis by simp
qed (simp add: assms)

lemma durable_remove: "opts_ok opts \<Longrightarrow> durable opts p \<Longrightarrow> durable opts (snd (remove_task opts i p))"
  by (auto simp: remove_task_def intro!: durable_save) (auto simp: durable_def core_def task_in_def distinct_removeAll)

lemma truthy_some: "truthy s \<Longrightarrow> s \<noteq> None"
  by (simp add: truthy_def)

lemma new_task_ids: "tk_id (new_task opts now i input space c) = i"
  "tk_space (new_task opts now i input space c) = (if truthy space then space else None)"
  by (simp_all add: new_task_def)

lemma durable_create:
  assumes "opts_ok opts" "durable opts p" "\<not> jm_has (pl_heap p) i"
  shows "durable opts (kept p (create_task opts now i input p))"
proof -
  have new: "task_in p i = None" using assms(3) by (simp add: task_in_def jm_has_iff)
  have "core opts ((put_task (new_task opts now i input space c) p)\<lparr>pl_listed := pl_listed p @ [i]\<rparr>)"
    if "po_file opts \<or> truthy space" for space c
  proof -
    have "core opts (put_task (new_task opts now i input space c) p)"
      using assms(2) that by (intro core_put) (auto simp: durable_core new_task_ids truthy_some)
    moreover have "i \<notin> set (pl_listed p)" using durable_core [OF assms(2)] new by (auto simp: core_def)
    ultimately show ?thesis
      by (auto simp: core_def task_in_def put_task_def jm_get_set new_task_ids)
  qed
  with assms(1,2) show ?thesis
    by (auto simp: create_task_def kept_def Let_def durable_save split: sum.split)
qed

lemma patched_task_ids: "tk_id (patched_task opts now q c t) = tk_id t"
  "tk_space (patched_task opts now q c t)
    = (if nullish (tp_project q) (tk_project t) = tk_project t then tk_space t
       else if truthy (moved_space opts q (nullish (tp_project q) (tk_project t)))
       then moved_space opts q (nullish (tp_project q) (tk_project t)) else None)"
  by (simp_all add: patched_task_def Let_def split: option.split)

lemma must_getD: "must_get i p = Inr t \<Longrightarrow> i \<in> set (pl_listed p) \<and> task_in p i = Some t"
  by (simp add: must_get_def split: if_splits option.splits)

lemma durable_update:
  assumes "opts_ok opts" "durable opts p"
  shows "durable opts (kept p (update_task opts now i q p))"
proof (cases "must_get i p")
  case (Inr t)
  then have t: "po_file opts \<or> tk_space t \<noteq> None"
    using core_task [OF durable_core [OF assms(2)]] must_getD by blast
  have "core opts (put_task (patched_task opts now q c t) p)"
    if "\<not> (nullish (tp_project q) (tk_project t) \<noteq> tk_project t \<and> \<not> po_file opts
          \<and> \<not> truthy (moved_space opts q (nullish (tp_project q) (tk_project t))))" for c
    using that t assms(2) by (intro core_put) (auto simp: durable_core patched_task_ids truthy_some)
  with Inr assms show ?thesis
    by (auto simp: update_task_def kept_def Let_def durable_save split: sum.split)
qed (simp add: update_task_def kept_def assms)

lemma durable_enable:
  assumes "opts_ok opts" "durable opts p"
  shows "durable opts (kept p (enable_task opts now i b p))"
proof (cases "must_get i p")
  case (Inr t)
  then have t: "po_file opts \<or> tk_space t \<noteq> None"
    using core_task [OF durable_core [OF assms(2)]] must_getD by blast
  with Inr assms show ?thesis
    by (auto simp: enable_task_def kept_def Let_def durable_core intro!: durable_save core_put)
qed (simp add: enable_task_def kept_def assms)

lemma assigned_ids [simp]: "tk_id (assigned opts t) = tk_id t"
  by (simp add: assigned_def)

lemma assigned_space: "po_file opts \<or> tk_space t \<noteq> None \<Longrightarrow> po_file opts \<or> tk_space (assigned opts t) \<noteq> None"
  by (auto simp: assigned_def truthy_def)

lemma fold_put_fields:
  "pl_listed (fold (\<lambda>t. put_task (f t)) ts p) = pl_listed p" "pl_docs (fold (\<lambda>t. put_task (f t)) ts p) = pl_docs p"
  "pl_jobs (fold (\<lambda>t. put_task (f t)) ts p) = pl_jobs p" "pl_starts (fold (\<lambda>t. put_task (f t)) ts p) = pl_starts p"
  "pl_inflight (fold (\<lambda>t. put_task (f t)) ts p) = pl_inflight p" "pl_known (fold (\<lambda>t. put_task (f t)) ts p) = pl_known p"
  "pl_shared (fold (\<lambda>t. put_task (f t)) ts p) = pl_shared p" "pl_clock (fold (\<lambda>t. put_task (f t)) ts p) = pl_clock p"
  by (induction ts arbitrary: p) auto

lemma fold_put_get:
  assumes "distinct (map tk_id ts)" "\<And>t. tk_id (f t) = tk_id t"
  shows "task_in (fold (\<lambda>t. put_task (f t)) ts p) i
    = (case find (\<lambda>t. tk_id t = i) ts of None \<Rightarrow> task_in p i | Some t \<Rightarrow> Some (f t))"
  using assms(1)
proof (induction ts arbitrary: p)
  case (Cons t ts)
  show ?case
  proof (cases "tk_id t = i")
    case True
    with Cons.prems have "find (\<lambda>t. tk_id t = i) ts = None" by (auto simp: find_None_iff image_iff)
    with True Cons show ?thesis by (simp add: assms(2))
  qed (use Cons in \<open>simp add: assms(2) split: option.split\<close>)
qed simp

lemma listed_find:
  assumes "core opts p"
  shows "find (\<lambda>t. tk_id t = i) (listed_tasks p) = (if i \<in> set (pl_listed p) then task_in p i else None)"
proof (cases "find (\<lambda>t. tk_id t = i) (listed_tasks p)")
  case None
  then have "i \<notin> tk_id ` set (listed_tasks p)" by (auto simp: find_None_iff)
  then have "i \<notin> set (pl_listed p)" using listed_task_ids [OF assms] by (metis list.set_map)
  with None show ?thesis by simp
next
  case (Some t)
  then have "tk_id t = i" "t \<in> set (listed_tasks p)" by (auto dest: find_SomeD)
  with Some in_listed_tasks [OF assms] show ?thesis by auto
qed

lemma assign_get:
  assumes "core opts p"
  shows "task_in (snd (assign_spaces opts p)) i
    = (if i \<in> set (pl_listed p) then map_option (assigned opts) (task_in p i) else task_in p i)"
proof -
  have "distinct (map tk_id (listed_tasks p))" using assms by (simp add: listed_task_ids) (simp add: core_def)
  with assms show ?thesis
    by (auto simp: assign_spaces_def fold_put_get listed_find split: option.split)
qed

lemma core_fold_put:
  assumes "core opts p" "\<forall>t\<in>set ts. po_file opts \<or> tk_space (f t) \<noteq> None"
  shows "core opts (fold (\<lambda>t. put_task (f t)) ts p)"
  using assms by (induction ts arbitrary: p) (auto simp: core_put)

lemma jm_set_same: "jm_ok m \<Longrightarrow> jm_get m k = Some v \<Longrightarrow> jm_set k v m = m"
proof -
  assume ok: "jm_ok m" and get: "jm_get m k = Some v"
  then have "(k', v') \<in> set m \<Longrightarrow> k' = k \<Longrightarrow> v' = v" for k' v'
    by (auto simp: jm_ok_def jm_get_def dest: map_of_is_SomeI)
  with get show ?thesis by (auto simp: jm_set_def jm_has_iff intro!: map_idI)
qed

lemma durable_assign:
  assumes "opts_ok opts" "durable opts p"
  shows "durable opts (snd (assignSpaces opts p))"
proof -
  have c: "core opts p" using assms(2) by (rule durable_core)
  have "core opts (snd (assign_spaces opts p))"
    unfolding assign_spaces_def snd_conv
    using c in_listed_tasks [OF c] core_task [OF c] assigned_space by (intro core_fold_put) blast+
  moreover have "durable opts (snd (assign_spaces opts p))" if "fst (assign_spaces opts p) = 0"
  proof -
    have same: "assigned opts t = t" if "t \<in> set (listed_tasks p)" for t
      using that \<open>fst (assign_spaces opts p) = 0\<close> by (auto simp: assign_spaces_def filter_empty_conv)
    have "put_task t p = p" if "t \<in> set (listed_tasks p)" for t
      using that in_listed_tasks [OF c] c by (simp add: put_task_def task_in_def core_def jm_set_same)
    with same have "fold (\<lambda>t. put_task (assigned opts t)) ts p = p" if "set ts \<subseteq> set (listed_tasks p)" for ts
      using that by (induction ts) auto
    with assms(2) show ?thesis by (simp add: assign_spaces_def)
  qed
  ultimately show ?thesis using assms(1)
    by (auto simp: assignSpaces_def durable_save split: prod.split)
qed

section \<open>Starting again\<close>

lemma fold_set_get:
  assumes "\<And>x. x \<in> set xs \<Longrightarrow> k x = i \<Longrightarrow> v x = w"
  shows "jm_get (fold (\<lambda>x. jm_set (k x) (v x)) xs m) i = (if \<exists>x\<in>set xs. k x = i then Some w else jm_get m i)"
  using assms
proof (induction xs arbitrary: m)
  case (Cons x xs)
  then show ?case by (auto simp: jm_get_set)
qed simp

lemma fold_set_fresh_get:
  assumes "\<And>x. x \<in> set xs \<Longrightarrow> k x = i \<Longrightarrow> v x = w"
  shows "jm_get (fold (\<lambda>x m. if jm_has m (k x) then m else jm_set (k x) (v x) m) xs m) i
    = (case jm_get m i of Some y \<Rightarrow> Some y | None \<Rightarrow> if \<exists>x\<in>set xs. k x = i then Some w else None)"
  using assms
proof (induction xs arbitrary: m)
  case Nil then show ?case by (simp split: option.split)
next
  case (Cons x xs)
  from Cons.prems have "\<And>y. y \<in> set xs \<Longrightarrow> k y = i \<Longrightarrow> v y = w" by simp
  note ih = Cons.IH [OF this]
  show ?case
  proof (cases "jm_has m (k x)")
    case True
    then obtain y where "jm_get m (k x) = Some y" by (auto simp: jm_has_iff)
    with True show ?thesis by (auto simp: ih split: option.split)
  next
    case False
    then have "jm_get m (k x) = None" by (simp add: jm_has_iff)
    with False Cons.prems show ?thesis by (auto simp: ih jm_get_set split: option.split)
  qed
qed

text \<open>The pairs of a Space and a task in its document, in the order in which they are read.\<close>

definition doc_entries :: "planner_opts \<Rightarrow> string list \<Rightarrow> planner \<Rightarrow> (string \<times> planner_task) list" where
  "doc_entries opts spaces p =
     concat (map (\<lambda>s. map (Pair s) (nullish (jm_get (pl_docs p) s) [])) (if po_spaces opts then spaces else []))"

lemma nested_fold:
  "fold (\<lambda>s m. fold (\<lambda>t. f s t) (d s) m) ss m = fold (\<lambda>(s, t). f s t) (concat (map (\<lambda>s. map (Pair s) (d s)) ss)) m"
  by (induction ss arbitrary: m) (auto simp: fold_map o_def)

lemma loaded_entries:
  "loaded_tasks opts spaces p =
     fold (\<lambda>t m. if jm_has m (tk_id t) then m else jm_set (tk_id t) t m)
       (if po_file opts then nullish (pl_shared p) [] else [])
       (fold (\<lambda>x. jm_set (tk_id (snd x)) ((snd x)\<lparr>tk_space := Some (fst x)\<rparr>)) (doc_entries opts spaces p) [])"
  unfolding loaded_tasks_def doc_entries_def Let_def nested_fold by (simp add: split_def)

lemma doc_entry_task:
  assumes "durable opts p" "x \<in> set (doc_entries opts spaces p)"
  shows "snd x \<in> set (listed_tasks p)" "tk_space (snd x) = Some (fst x)"
  using assms by (auto simp: doc_entries_def durable_def saved_def split: if_splits)

lemma shared_entry_task:
  assumes "durable opts p" "po_file opts"
  shows "set (nullish (pl_shared p) []) \<subseteq> set (listed_tasks p)"
  using assms by (auto simp: durable_def saved_def split: if_splits)

lemma loaded_get:
  assumes d: "durable opts p" and ok: "opts_ok opts" and sp: "set (jm_keys (pl_docs p)) \<subseteq> set spaces"
  shows "jm_get (loaded_tasks opts spaces p) i = (if i \<in> set (pl_listed p) then task_in p i else None)"
proof -
  have c: "core opts p" using d by (rule durable_core)
  let ?es = "doc_entries opts spaces p" and ?sh = "if po_file opts then nullish (pl_shared p) [] else []"
  have listed: "t \<in> set (listed_tasks p) \<Longrightarrow> tk_id t \<in> set (pl_listed p) \<and> task_in p (tk_id t) = Some t" for t
    using in_listed_tasks [OF c] by simp
  have space_eq: "(snd x)\<lparr>tk_space := Some (fst x)\<rparr> = snd x" if "x \<in> set ?es" for x
    using doc_entry_task(2) [OF d that] by (intro planner_task.equality) simp_all
  have v1: "(snd x)\<lparr>tk_space := Some (fst x)\<rparr> = the (task_in p i)" if "x \<in> set ?es" "tk_id (snd x) = i" for x
    using doc_entry_task(1) [OF d that(1)] listed that(2) space_eq [OF that(1)] by force
  have v2: "t = the (task_in p i)" if "t \<in> set ?sh" "tk_id t = i" for t
    using shared_entry_task [OF d] that listed by (force split: if_splits)
  have cover: "(\<exists>x\<in>set ?es. tk_id (snd x) = i) \<or> (\<exists>t\<in>set ?sh. tk_id t = i)" if l: "i \<in> set (pl_listed p)"
  proof -
    obtain t where t: "task_in p i = Some t" "tk_id t = i" using listed_known [OF c l] by blast
    with l have tl: "t \<in> set (listed_tasks p)" using in_listed_tasks [OF c] by simp
    show ?thesis
    proof (cases "po_spaces opts \<and> tk_space t \<noteq> None")
      case True
      then obtain s where s: "tk_space t = Some s" by auto
      with True d tl have ts: "t \<in> set (nullish (jm_get (pl_docs p) s) [])" by (simp add: durable_def saved_def)
      then have "jm_get (pl_docs p) s \<noteq> None" by (cases "jm_get (pl_docs p) s") auto
      then have "s \<in> set spaces" using sp by (auto simp: jm_get_None_iff)
      with ts True t show ?thesis by (force simp: doc_entries_def)
    next
      case False
      then have "po_file opts" using ok core_task [OF c t(1)] by (auto simp: opts_ok_def)
      with False d tl have "t \<in> set (nullish (pl_shared p) [])" by (auto simp: durable_def saved_def split: if_splits)
      with \<open>po_file opts\<close> t show ?thesis by auto
    qed
  qed
  have "jm_get (loaded_tasks opts spaces p) i
    = (if (\<exists>x\<in>set ?es. tk_id (snd x) = i) \<or> (\<exists>t\<in>set ?sh. tk_id t = i) then Some (the (task_in p i)) else None)"
    unfolding loaded_entries
    by (subst fold_set_fresh_get [where k = tk_id and v = "\<lambda>t. t" and i = i and w = "the (task_in p i)"])
      (use v1 v2 in \<open>simp_all add: fold_set_get [where w = "the (task_in p i)"] split: option.split\<close>)
  moreover have "i \<in> set (pl_listed p)" if "(\<exists>x\<in>set ?es. tk_id (snd x) = i) \<or> (\<exists>t\<in>set ?sh. tk_id t = i)"
    using that doc_entry_task(1) [OF d] shared_entry_task [OF d] listed by (force split: if_splits)
  moreover have "Some (the (task_in p i)) = task_in p i" if "i \<in> set (pl_listed p)" using c that by (auto simp: core_def)
  ultimately show ?thesis using cover by auto
qed

lemma loaded_ok: "jm_ok (loaded_tasks opts spaces p)"
proof -
  have own: "jm_ok m \<Longrightarrow> jm_ok (fold (\<lambda>x. jm_set (k x) (v x)) xs m)" for m k v and xs :: "(string \<times> planner_task) list"
    by (induction xs arbitrary: m) auto
  have sh: "jm_ok m \<Longrightarrow> jm_ok (fold (\<lambda>t m. if jm_has m (tk_id t) then m else jm_set (tk_id t) t m) xs m)" for m xs
    by (induction xs arbitrary: m) auto
  show ?thesis unfolding loaded_entries by (intro sh own) simp
qed

text \<open>The service as it is constructed, before Spaces are assigned.\<close>

definition loaded_planner :: "planner_opts \<Rightarrow> string list \<Rightarrow> planner \<Rightarrow> planner" where
  "loaded_planner opts spaces old =
     \<lparr>pl_heap = loaded_tasks opts spaces old, pl_listed = jm_keys (loaded_tasks opts spaces old), pl_running = [],
      pl_queued = [], pl_inflight = [], pl_observers = 0, pl_aborted = [], pl_timer = False,
      pl_known = (if po_spaces opts then remdups spaces else []), pl_docs = pl_docs old, pl_shared = pl_shared old,
      pl_fresh = 0, pl_jobs = [], pl_starts = pl_starts old, pl_clock = pl_clock old\<rparr>"

lemma boot_loaded: "boot opts spaces old = snd (assignSpaces opts (loaded_planner opts spaces old))"
  by (simp add: boot_def loaded_planner_def Let_def)

lemma task_in_loaded [simp]: "task_in (loaded_planner opts spaces p) i = jm_get (loaded_tasks opts spaces p) i"
  by (simp add: task_in_def loaded_planner_def)

lemma loaded_listed:
  assumes "durable opts p" "opts_ok opts" "set (jm_keys (pl_docs p)) \<subseteq> set spaces"
  shows "i \<in> set (pl_listed (loaded_planner opts spaces p)) \<longleftrightarrow> i \<in> set (pl_listed p)"
proof -
  have "i \<in> set (jm_keys (loaded_tasks opts spaces p)) \<longleftrightarrow> i \<in> set (pl_listed p) \<and> task_in p i \<noteq> None"
    using loaded_get [OF assms, of i] jm_get_None_iff [of "loaded_tasks opts spaces p" i] by (auto split: if_splits)
  moreover have "i \<in> set (pl_listed p) \<Longrightarrow> task_in p i \<noteq> None" using listed_known [OF durable_core [OF assms(1)]] by fastforce
  ultimately show ?thesis by (auto simp: loaded_planner_def)
qed

lemma core_loaded:
  assumes "durable opts p" "opts_ok opts" "set (jm_keys (pl_docs p)) \<subseteq> set spaces"
  shows "core opts (loaded_planner opts spaces p)"
proof -
  have c: "core opts p" using assms(1) by (rule durable_core)
  have "tk_id t = i \<and> (po_file opts \<or> tk_space t \<noteq> None)" if "jm_get (loaded_tasks opts spaces p) i = Some t" for i t
    using that core_task [OF c] unfolding loaded_get [OF assms] by (auto split: if_splits)
  moreover have "i \<in> set (jm_keys (loaded_tasks opts spaces p)) \<Longrightarrow> jm_get (loaded_tasks opts spaces p) i \<noteq> None" for i
    by (simp add: jm_get_None_iff)
  moreover have "po_spaces opts \<or> pl_docs p = []" using c by (simp add: core_def)
  ultimately show ?thesis
    using assms(3) loaded_ok [of opts spaces p]
    by (auto simp: core_def loaded_planner_def task_in_def jm_ok_def jm_keys_def)
qed

lemma durable_loaded:
  assumes "durable opts p" "opts_ok opts" "set (jm_keys (pl_docs p)) \<subseteq> set spaces"
  shows "durable opts (loaded_planner opts spaces p)"
proof -
  have "t \<in> set (listed_tasks (loaded_planner opts spaces p)) \<longleftrightarrow> t \<in> set (listed_tasks p)" for t
    unfolding in_listed_tasks [OF core_loaded [OF assms]] in_listed_tasks [OF durable_core [OF assms(1)]]
      loaded_listed [OF assms] task_in_loaded loaded_get [OF assms] by simp
  then have "set (listed_tasks (loaded_planner opts spaces p)) = set (listed_tasks p)" by (rule set_eqI)
  with assms(1) core_loaded [OF assms] show ?thesis by (simp add: durable_def saved_def) (simp add: loaded_planner_def)
qed

lemma durable_boot:
  assumes "durable opts p" "opts_ok opts" "set (jm_keys (pl_docs p)) \<subseteq> set spaces"
  shows "durable opts (boot opts spaces p)"
  unfolding boot_loaded by (rule durable_assign [OF assms(2) durable_loaded [OF assms]])

lemma assignSpaces_get: "task_in (snd (assignSpaces opts p)) i = task_in (snd (assign_spaces opts p)) i"
  by (simp add: assignSpaces_def split: prod.split)

lemma boot_get:
  assumes "durable opts p" "opts_ok opts" "set (jm_keys (pl_docs p)) \<subseteq> set spaces"
  shows "task_in (boot opts spaces p) i
    = (if i \<in> set (pl_listed p) then map_option (assigned opts) (task_in p i) else None)"
  unfolding boot_loaded assignSpaces_get assign_get [OF core_loaded [OF assms]] loaded_listed [OF assms]
    task_in_loaded loaded_get [OF assms] by simp

lemma assignSpaces_fields:
  "pl_listed (snd (assignSpaces opts p)) = pl_listed p" "pl_jobs (snd (assignSpaces opts p)) = pl_jobs p"
  "pl_starts (snd (assignSpaces opts p)) = pl_starts p" "pl_inflight (snd (assignSpaces opts p)) = pl_inflight p"
  by (simp_all add: assignSpaces_def assign_spaces_def fold_put_fields)

lemma boot_fields:
  "pl_jobs (boot opts spaces p) = []" "pl_starts (boot opts spaces p) = pl_starts p" "pl_inflight (boot opts spaces p) = []"
  unfolding boot_loaded assignSpaces_fields by (simp_all add: loaded_planner_def)

lemma boot_listed:
  assumes "durable opts p" "opts_ok opts" "set (jm_keys (pl_docs p)) \<subseteq> set spaces"
  shows "set (pl_listed (boot opts spaces p)) = set (pl_listed p)"
  unfolding boot_loaded assignSpaces_fields using loaded_listed [OF assms] by blast

text \<open>Resuming the runs that a process left behind.\<close>

lemma durable_start:
  assumes "opts_ok opts" "durable opts p"
  shows "durable opts (start_planner opts now p)"
proof -
  let ?P = "\<lambda>s. core opts (snd s) \<and> (\<not> fst s \<longrightarrow> durable opts (snd s))"
  have one: "?P (resume_run opts now i r s)" if "?P s" for i r s
    using that by (cases s) (auto simp: resume_run_def intro!: core_on_task)
  have all: "?P (fold (resume_run opts now i) rs s)" if "?P s" for i rs s
    using that by (induction rs arbitrary: s) (auto simp: one simp del: split_paired_All)
  have every: "?P (fold (\<lambda>t. fold (resume_run opts now (tk_id t)) (tk_history t)) ts s)" if "?P s" for ts s
    using that by (induction ts arbitrary: s) (auto simp: all)
  obtain c q where f: "fold (\<lambda>t. fold (resume_run opts now (tk_id t)) (tk_history t)) (listed_tasks p)
      (False, p\<lparr>pl_observers := Suc (pl_observers p)\<rparr>) = (c, q)" by fastforce
  have "?P (c, q)" unfolding f [symmetric] using assms(2) by (intro every) (simp add: durable_core)
  with assms show ?thesis by (auto simp: start_planner_def f durable_save)
qed

section \<open>The invariant\<close>

lemma durable_run_now:
  "opts_ok opts \<Longrightarrow> durable opts p \<Longrightarrow> durable opts (case run_now opts now i rid p of Inl e \<Rightarrow> p | Inr q \<Rightarrow> q)"
  by (auto simp: run_now_def durable_fire split: sum.split)

lemma only_if_Some: "only_if b x = Some y \<longleftrightarrow> b \<and> x = y"
  by (simp add: only_if_def)

lemma durable_do:
  assumes "opts_ok opts" "durable opts p" "planner_do opts now e p = Some q"
  shows "durable opts q"
proof (cases e)
  case (EvTickNext t0 js w rid)
  with assms show ?thesis by (auto simp: only_if_Some intro: durable_tick_next)
next
  case (EvBoot spaces)
  with assms show ?thesis by (auto simp: only_if_Some intro: durable_boot)
qed (use assms in \<open>auto simp: only_if_Some dequeue_def
    intro: durable_create durable_update durable_remove durable_enable durable_run_now durable_assign durable_start
      durable_admit durable_observe durable_execute [OF _ durable_core]\<close>)

interpretation durable_runs: machine "planner_step opts ok" "\<lambda>p. opts_ok opts \<and> durable opts p" for opts ok
  by unfold_locales (auto elim!: planner_stepE dest: durable_do)

lemma durable_new: "opts_ok opts \<Longrightarrow> durable opts new_planner"
  by (simp add: durable_def core_def saved_def new_planner_def task_in_def listed_tasks_def jm_keys_def List.map_filter_def)

lemma durable_reachable:
  "opts_ok opts \<Longrightarrow> (planner_step opts ok)\<^sup>*\<^sup>* new_planner p \<Longrightarrow> durable opts p"
  using durable_runs.reachable_inv durable_new by blast

end
