(* ===== verification/PlannerPace.thy ===== *)
theory PlannerPace
  imports PlannerRules
begin

text \<open>
  How often the clock of the planner starts a task. The locale \<open>pace\<close> says what a rule on the
  starts of one task needs from the operations on that task; it is interpreted for tasks that
  run once and for tasks that run at an interval.
\<close>

section \<open>What an event does to one task\<close>

definition clock_starts :: "string \<Rightarrow> planner \<Rightarrow> int list" where
  "clock_starts i p = map ps_at (filter (\<lambda>s. ps_task s = i \<and> \<not> ps_manual s) (pl_starts p))"

fun is_tick :: "planner_job \<Rightarrow> bool" where
  "is_tick (JobTick t0 is w) \<longleftrightarrow> True"
| "is_tick _ \<longleftrightarrow> False"

fun is_queued :: "string \<Rightarrow> planner_job \<Rightarrow> bool" where
  "is_queued i (JobQueued k b j late manual) \<longleftrightarrow> i = j"
| "is_queued i _ \<longleftrightarrow> False"

definition ticks :: "planner \<Rightarrow> planner_job list" where
  "ticks p = filter is_tick (pl_jobs p)"

definition queued_for :: "string \<Rightarrow> planner \<Rightarrow> bool" where
  "queued_for i p \<longleftrightarrow> list_ex (is_queued i) (pl_jobs p)"

lemma task_in_jobs [simp]:
  "task_in (add_job j p) i = task_in p i" "task_in (drop_job j p) i = task_in p i"
  "task_in (set_inflight x p) i = task_in p i" "task_in (unset_inflight x p) i = task_in p i"
  "task_in (track l k p) i = task_in p i" "task_in (untrack l k p) i = task_in p i"
  "task_in (begin_observe k l r p) i = task_in p i" "task_in (stop_planner p) i = task_in p i"
  "task_in (tick_start t p) i = task_in p i" "task_in (p\<lparr>pl_fresh := n\<rparr>) i = task_in p i"
  "task_in (p\<lparr>pl_queued := qs\<rparr>) i = task_in p i" "task_in (p\<lparr>pl_starts := ss\<rparr>) i = task_in p i"
  "task_in (p\<lparr>pl_observers := m\<rparr>) i = task_in p i" "task_in (p\<lparr>pl_timer := b\<rparr>) i = task_in p i"
  "task_in (p\<lparr>pl_clock := c\<rparr>) i = task_in p i" "task_in (p\<lparr>pl_listed := is\<rparr>) i = task_in p i"
  by (simp_all add: task_in_def planner_defs)


lemma starts_fields [simp]:
  "clock_starts i (add_job j p) = clock_starts i p" "clock_starts i (drop_job j p) = clock_starts i p"
  "clock_starts i (set_inflight x p) = clock_starts i p" "clock_starts i (unset_inflight x p) = clock_starts i p"
  "clock_starts i (track l k p) = clock_starts i p" "clock_starts i (untrack l k p) = clock_starts i p"
  "clock_starts i (begin_observe k l r p) = clock_starts i p" "clock_starts i (stop_planner p) = clock_starts i p"
  "clock_starts i (tick_start t p) = clock_starts i p" "clock_starts i (p\<lparr>pl_fresh := n\<rparr>) = clock_starts i p"
  "clock_starts i (p\<lparr>pl_queued := qs\<rparr>) = clock_starts i p" "clock_starts i (p\<lparr>pl_clock := c\<rparr>) = clock_starts i p"
  "clock_starts i (on_task f l p) = clock_starts i p" "clock_starts i (put_task u p) = clock_starts i p"
  "clock_starts i (save opts p) = clock_starts i p" "clock_starts i (p\<lparr>pl_listed := is\<rparr>) = clock_starts i p"
  by (simp_all add: clock_starts_def planner_defs)

lemma ticks_fields [simp]:
  "ticks (set_inflight x p) = ticks p" "ticks (unset_inflight x p) = ticks p"
  "ticks (track l k p) = ticks p" "ticks (untrack l k p) = ticks p"
  "ticks (begin_observe k l r p) = ticks p" "ticks (stop_planner p) = ticks p"
  "ticks (p\<lparr>pl_fresh := n\<rparr>) = ticks p" "ticks (p\<lparr>pl_starts := ss\<rparr>) = ticks p"
  "ticks (p\<lparr>pl_queued := qs\<rparr>) = ticks p" "ticks (p\<lparr>pl_clock := c\<rparr>) = ticks p"
  "ticks (on_task f l p) = ticks p" "ticks (put_task u p) = ticks p"
  "ticks (save opts p) = ticks p" "ticks (p\<lparr>pl_listed := is\<rparr>) = ticks p"
  by (simp_all add: ticks_def planner_defs)

lemma ticks_add [simp]: "ticks (add_job j p) = (if is_tick j then j # ticks p else ticks p)"
  by (simp add: ticks_def add_job_def)

lemma ticks_drop [simp]: "ticks (drop_job j p) = (if is_tick j then remove1 j (ticks p) else ticks p)"
proof -
  have "filter is_tick (remove1 j xs) = (if is_tick j then remove1 j (filter is_tick xs) else filter is_tick xs)" for xs
    by (induction xs) auto
  then show ?thesis by (simp add: ticks_def drop_job_def)
qed

lemma queued_fields [simp]:
  "queued_for i (set_inflight x p) = queued_for i p" "queued_for i (unset_inflight x p) = queued_for i p"
  "queued_for i (track l k p) = queued_for i p" "queued_for i (untrack l k p) = queued_for i p"
  "queued_for i (begin_observe k l r p) = queued_for i p" "queued_for i (stop_planner p) = queued_for i p"
  "queued_for i (tick_start t p) = queued_for i p" "queued_for i (p\<lparr>pl_fresh := n\<rparr>) = queued_for i p"
  "queued_for i (p\<lparr>pl_queued := qs\<rparr>) = queued_for i p" "queued_for i (p\<lparr>pl_clock := c\<rparr>) = queued_for i p"
  "queued_for i (on_task f l p) = queued_for i p" "queued_for i (put_task u p) = queued_for i p"
  "queued_for i (p\<lparr>pl_starts := ss\<rparr>) = queued_for i p"
  "queued_for i (save opts p) = queued_for i p" "queued_for i (p\<lparr>pl_listed := is\<rparr>) = queued_for i p"
  by (simp_all add: queued_for_def planner_defs)

lemma queued_add [simp]: "queued_for i (add_job j p) \<longleftrightarrow> is_queued i j \<or> queued_for i p"
  by (simp add: queued_for_def add_job_def)

lemma queued_drop: "queued_for i (drop_job j p) \<Longrightarrow> queued_for i p"
  by (auto simp: queued_for_def drop_job_def list_ex_iff dest: set_remove1_subset [THEN subsetD])

lemma queued_drop_other [simp]: "\<not> is_queued i j \<Longrightarrow> queued_for i (drop_job j p) = queued_for i p"
proof -
  assume "\<not> is_queued i j"
  then have "list_ex (is_queued i) (remove1 j xs) = list_ex (is_queued i) xs" for xs by (induction xs) auto
  then show ?thesis by (simp add: queued_for_def drop_job_def)
qed

section \<open>The operations\<close>


text \<open>Changes of a task that leave its clock alone.\<close>

definition same_clock :: "planner_task \<Rightarrow> planner_task \<Rightarrow> bool" where
  "same_clock t u \<longleftrightarrow> tk_cadence u = tk_cadence t \<and> tk_overlap u = tk_overlap t \<and> tk_last_run u = tk_last_run t
     \<and> tk_next u = tk_next t \<and> tk_runs u = tk_runs t \<and> tk_enabled u = tk_enabled t"

definition same_view :: "string \<Rightarrow> planner \<Rightarrow> planner \<Rightarrow> bool" where
  "same_view i p q \<longleftrightarrow> rel_option same_clock (task_in p i) (task_in q i) \<and> clock_starts i q = clock_starts i p
     \<and> ticks q = ticks p \<and> queued_for i q = queued_for i p"

lemma same_clock_refl [simp]: "same_clock t t"
  by (simp add: same_clock_def)



lemma same_view_refl [simp]: "same_view i p p"
  by (simp add: same_view_def option.rel_refl)










lemma ticks_execute [simp]: "ticks (execute_task opts now j late manual rid k p) = ticks p"
  by (simp add: execute_task_def Let_def)








section \<open>A rule on the starts of one task\<close>




section \<open>Tasks that run at an interval\<close>


definition once_input :: "int \<Rightarrow> cadence_input" where
  "once_input n = \<lparr>ci_cadence = Some (raw_of (CadenceAt n)), ci_kind = None, ci_at = None, ci_every = None\<rparr>"











section \<open>Tasks that run once\<close>








section \<open>How often a task starts\<close>

text \<open>An example: a service with a shared document whose runs end with their admission.\<close>

definition every_minute_lib :: cron_lib where
  "every_minute_lib = \<lparr>cl_zone = (\<lambda>_. True), cl_parse = (\<lambda>_ _. True), cl_next = (\<lambda>_ _ t. Some (t + 60000))\<rparr>"

definition example_opts :: planner_opts where
  "example_opts = \<lparr>po_lib = every_minute_lib, po_file = True, po_spaces = False, po_settle = False,
     po_space_of = (\<lambda>_. None), po_least = 1, po_grace = 300000\<rparr>"

definition example_input :: "cadence_input \<Rightarrow> task_input" where
  "example_input c = \<lparr>ti_project = ''p'', ti_space = None, ti_owner = None, ti_prompt = ''x'', ti_cadence = c, ti_session = None,
     ti_title = None, ti_target = None, ti_overlap = None, ti_catch_up = None, ti_enabled = None, ti_model = None, ti_harness = None\<rparr>"

definition no_outcome :: run_outcome where
  "no_outcome = \<lparr>uo_session = None, uo_marker = None, uo_queue = None, uo_turn = None\<rparr>"

definition accepted :: "nat \<Rightarrow> string \<Rightarrow> string \<Rightarrow> int \<Rightarrow> int \<Rightarrow> (int \<times> planner_event) list" where
  "accepted k i rid begun now = [(now, EvAdmit k i (started_run rid begun False False) (Inr no_outcome)), (now, EvSettled k i)]"





text \<open>
  Without the first condition it does: a tick that takes longer than the timer overlaps the
  next one, and both have the task on their list (index.ts, \<open>tick\<close>).
\<close>

definition overlapping_ticks :: "(int \<times> planner_event) list" where
  "overlapping_ticks =
     [(0, EvCreate ''a'' (example_input (once_input 10))), (0, EvCreate ''b'' (example_input (once_input 10))), (10, EvTick),
      (10, EvTickNext 10 [''a'', ''b''] None ''r1''), (15010, EvTick), (15010, EvTickNext 15010 [''b''] None ''r2'')]
     @ accepted 1 ''b'' ''r2'' 15010 15010 @ accepted 0 ''a'' ''r1'' 10 20000
     @ [(20000, EvTickNext 10 [''b''] (Some ''r1'') ''r3'')]"

lemma overlapping_ticks_start_twice:
  "map_option (clock_starts ''b'') (planner_path example_opts (\<lambda>_ _. True) overlapping_ticks new_planner) = Some [20000, 15010]"
  by code_simp


text \<open>
  A tick fires the tasks that were due when it began. A task that a person moves to another
  day while the tick waits for an earlier one is started now, and as a one-shot never again.
\<close>

definition no_patch :: task_patch where
  "no_patch = \<lparr>tp_project = None, tp_space = None, tp_prompt = None,
     tp_cadence = \<lparr>ci_cadence = None, ci_kind = None, ci_at = None, ci_every = None\<rparr>, tp_session = None, tp_title = None,
     tp_target = None, tp_overlap = None, tp_catch_up = None, tp_enabled = None, tp_model = None, tp_harness = None\<rparr>"

definition moved_during_tick :: "(int \<times> planner_event) list" where
  "moved_during_tick =
     [(0, EvCreate ''a'' (example_input (once_input 10))), (0, EvCreate ''b'' (example_input (once_input 10))), (10, EvTick),
      (10, EvTickNext 10 [''a'', ''b''] None ''r1''), (20, EvUpdate ''b'' (no_patch\<lparr>tp_cadence := once_input 86400000\<rparr>))]
     @ accepted 0 ''a'' ''r1'' 10 30 @ [(30, EvTickNext 10 [''b''] (Some ''r1'') ''r2'')]"

lemma moved_task_fires_at_once:
  "map_option (\<lambda>p. (clock_starts ''b'' p, map_option (\<lambda>t. (tk_cadence t, tk_next t)) (task_in p ''b'')))
     (planner_path example_opts (\<lambda>_ _. True) moved_during_tick new_planner)
   = Some ([30], Some (CadenceAt 86400000, None))"
  by code_simp

end
