(* ===== verification/PlannerSettle.thy ===== *)
theory PlannerSettle
  imports Planner
begin

text \<open>
  Following an admitted run through the log of its session, packages/planner/src/runSettlement.ts.
  A poll reads the events after the cursor; the loop is cut at its awaits, so one poll is
  one step and the answers are arguments. An abort leaves the loop without a result.
\<close>

section \<open>One event\<close>

definition event_str :: "session_event \<Rightarrow> string \<Rightarrow> string option" where
  "event_str ev k = json_str (ev_field ev k)"

definition resumable :: "session_event \<Rightarrow> bool" where
  "resumable ev =
     (case json_field (ev_data ev) ''retry'' of
        None \<Rightarrow> False
      | Some retry \<Rightarrow>
          json_field retry ''retryable'' \<noteq> Some (JBool False)
          \<and> (case json_num (json_field retry ''resumeAt'') of None \<Rightarrow> False | Some n \<Rightarrow> 0 < n))"

datatype settle_phase = PhaseQueued | PhaseAdmitted | PhaseTurn

definition settled_unknown :: "string \<Rightarrow> planner_settlement" where
  "settled_unknown message = \<lparr>sl_status = SettledUnknown, sl_error = Some message\<rparr>"

definition settled_failed :: "string \<Rightarrow> planner_settlement" where
  "settled_failed message = \<lparr>sl_status = SettledFailed, sl_error = Some message\<rparr>"

definition settled_ok :: planner_settlement where
  "settled_ok = \<lparr>sl_status = SettledOk, sl_error = None\<rparr>"

definition stopped_turn :: "session_event \<Rightarrow> planner_settlement + settle_phase" where
  "stopped_turn ev =
     (let reason = event_str ev ''reason'' in
      if reason = Some ''completed'' then Inl settled_ok
      else if reason = Some ''error'' \<and> resumable ev then Inr PhaseAdmitted
      else if reason = Some ''error'' then Inl (settled_failed (nullish (event_str ev ''error'') ''The run's turn failed.''))
      else if reason = Some ''aborted'' then Inl (settled_failed ''Stopped before it finished.'')
      else Inl (settled_unknown (''The run's turn stopped without a confirmed result ('' @ nullish reason ''no reason'' @ '').'')))"

definition settle_event :: "string option \<Rightarrow> settle_phase \<Rightarrow> session_event \<Rightarrow> planner_settlement + settle_phase" where
  "settle_event queue phase ev =
     (if phase = PhaseQueued then
        (if ev_type ev = ''queue/dispatched'' \<and> event_str ev ''queueId'' = queue then Inr PhaseAdmitted
         else if ev_type ev = ''queue/removed'' \<and> event_str ev ''queueId'' = queue
         then Inl (settled_unknown ''The queued run was removed or sent separately; its result is not tracked.'')
         else Inr PhaseQueued)
      else if ev_type ev = ''turn/started'' then Inr PhaseTurn
      else if ev_type ev = ''turn/stopped'' then stopped_turn ev
      else Inr phase)"

fun settle_events :: "string option \<Rightarrow> settle_phase \<Rightarrow> int \<Rightarrow> session_event list \<Rightarrow> planner_settlement + settle_phase \<times> int" where
  "settle_events queue phase cursor [] = Inr (phase, cursor)"
| "settle_events queue phase cursor (ev # evs) =
     (case settle_event queue phase ev of
        Inl s \<Rightarrow> Inl s
      | Inr ph \<Rightarrow> settle_events queue ph (max cursor (ev_seq ev)) evs)"

section \<open>Polling\<close>

record settle_options =
  so_max_run :: int
  so_min_poll :: int
  so_max_poll :: int

definition default_settle_options :: settle_options where
  "default_settle_options = \<lparr>so_max_run = 24 * 60 * 60000, so_min_poll = 1000, so_max_poll = 15000\<rparr>"

record settle_state =
  fw_phase :: settle_phase
  fw_cursor :: int
  fw_poll :: int

datatype settle_step = SettleDone planner_settlement | SettleFailed string | SettleWait settle_state int

datatype poll_answer = PollEvents "session_event list" | PollNotFound | PollFailed string

definition settle_start :: "settle_options \<Rightarrow> planner_run \<Rightarrow> planner_settlement + settle_state" where
  "settle_start so run =
     (if \<not> truthy (pr_session run) \<or> pr_marker run = None then Inl (settled_unknown ''The run has no admission record to follow.'')
      else Inr \<lparr>fw_phase = (if truthy (pr_queue run) then PhaseQueued else PhaseAdmitted), fw_cursor = the (pr_marker run),
                fw_poll = so_min_poll so\<rparr>)"

text \<open>\<open>Math.round(poll * 1.5)\<close> of a whole number.\<close>

definition next_poll :: "settle_options \<Rightarrow> int \<Rightarrow> int" where
  "next_poll so poll = min (so_max_poll so) ((3 * poll + 1) div 2)"

definition settle_poll :: "settle_options \<Rightarrow> planner_run \<Rightarrow> int \<Rightarrow> poll_answer \<Rightarrow> settle_state \<Rightarrow> settle_step" where
  "settle_poll so run now answer st =
     (case answer of
        PollNotFound \<Rightarrow> SettleDone (settled_unknown ''The run's session no longer exists.'')
      | PollFailed message \<Rightarrow> SettleFailed message
      | PollEvents evs \<Rightarrow>
          (case settle_events (pr_queue run) (fw_phase st) (fw_cursor st) evs of
             Inl s \<Rightarrow> SettleDone s
           | Inr (ph, cursor) \<Rightarrow>
               (let deadline = pr_started run + so_max_run so;
                    poll = (if evs \<noteq> [] then so_min_poll so else next_poll so (fw_poll st))
                in if deadline \<le> now then SettleDone (settled_unknown ''No result was confirmed within the observation limit.'')
                   else SettleWait \<lparr>fw_phase = ph, fw_cursor = cursor, fw_poll = poll\<rparr> (min poll (max 1 (deadline - now))))))"

text \<open>The polls of a run that finds the session each time: the clock and the log it reads from.\<close>

fun settle_polls :: "settle_options \<Rightarrow> planner_run \<Rightarrow> (int \<times> session_event list) list \<Rightarrow> settle_state \<Rightarrow> settle_step" where
  "settle_polls so run [] st = SettleWait st 0"
| "settle_polls so run ((now, log) # polls) st =
     (case settle_poll so run now (PollEvents (filter (\<lambda>ev. fw_cursor st < ev_seq ev) log)) st of
        SettleWait st' delay \<Rightarrow> settle_polls so run polls st'
      | r \<Rightarrow> r)"

section \<open>The result does not depend on the polls\<close>

lemma settle_events_append:
  "settle_events q ph c (xs @ ys) =
     (case settle_events q ph c xs of Inl s \<Rightarrow> Inl s | Inr (ph', c') \<Rightarrow> settle_events q ph' c' ys)"
  by (induction xs arbitrary: ph c) (auto split: sum.split)

lemma settle_events_cursor:
  "settle_events q ph c xs = Inr (ph', c') \<Longrightarrow>
   c \<le> c' \<and> (\<forall>x\<in>set xs. ev_seq x \<le> c') \<and> (c' = c \<or> (\<exists>x\<in>set xs. ev_seq x = c'))"
proof (induction xs arbitrary: ph c)
  case (Cons x xs)
  then obtain ph1 where "settle_events q ph1 (max c (ev_seq x)) xs = Inr (ph', c')" by (auto split: sum.splits)
  from Cons.IH [OF this] show ?case by (auto simp: max_def split: if_splits)
qed simp

abbreviation later_than :: "int \<Rightarrow> session_event list \<Rightarrow> session_event list" where
  "later_than c \<equiv> filter (\<lambda>ev. c < ev_seq ev)"

text \<open>What the next poll adds is what was written since.\<close>

lemma next_poll_reads:
  assumes "sorted_wrt (<) (map ev_seq (seen @ new))" "settle_events q ph c (later_than c seen) = Inr (ph', c')"
  shows "later_than c' (seen @ new) = later_than c new"
proof -
  from settle_events_cursor [OF assms(2)] have c: "c \<le> c'" "\<forall>x\<in>set seen. c < ev_seq x \<longrightarrow> ev_seq x \<le> c'"
      "c' = c \<or> (\<exists>x\<in>set seen. ev_seq x = c')"
    by auto
  from assms(1) have new: "ev_seq x < ev_seq y" if "x \<in> set seen" "y \<in> set new" for x y
    using that by (auto simp: sorted_wrt_append)
  have "later_than c' seen = []" using c(1,2) by (force simp: filter_empty_conv)
  moreover have "later_than c' new = later_than c new"
    using c(1,3) new by (intro filter_cong) force+
  ultimately show ?thesis by simp
qed

lemma polls_from_seen:
  assumes "sorted_wrt (<) (map ev_seq (snd (last ((now0, seen) # polls))))"
    and "settle_events (pr_queue run) ph c (later_than c seen) = Inr (fw_phase st, fw_cursor st)"
    and "sorted_wrt prefix (seen # map snd polls)" "\<forall>x\<in>set polls. fst x < pr_started run + so_max_run so"
  shows "case settle_events (pr_queue run) ph c (later_than c (snd (last ((now0, seen) # polls)))) of
      Inl s \<Rightarrow> settle_polls so run polls st = SettleDone s
    | Inr (ph', c') \<Rightarrow> \<exists>w d. settle_polls so run polls st = SettleWait w d \<and> fw_phase w = ph' \<and> fw_cursor w = c'"
  using assms
proof (induction polls arbitrary: now0 seen st)
  case Nil
  then show ?case by simp
next
  case (Cons x polls)
  obtain now log where x: "x = (now, log)" by (cases x)
  from Cons.prems(3) x obtain new where log: "log = seen @ new" by (auto simp: prefix_def)
  obtain rest where last: "snd (last ((now0, seen) # x # polls)) = log @ rest"
  proof (cases polls)
    case Nil
    with x that [of "[]"] show ?thesis by simp
  next
    case (Cons y ys)
    then have "last (x # polls) \<in> set polls" by simp
    then have "snd (last (x # polls)) \<in> snd ` set polls" by blast
    with Cons.prems(3) x have "prefix log (snd (last (x # polls)))" by auto
    with that show ?thesis by (auto simp: prefix_def)
  qed
  have sorted: "sorted_wrt (<) (map ev_seq (seen @ new))"
    using Cons.prems(1) unfolding last by (simp add: log sorted_wrt_append)
  have read: "later_than (fw_cursor st) log = later_than c new"
    unfolding log by (rule next_poll_reads [OF sorted Cons.prems(2)])
  have whole: "settle_events (pr_queue run) ph c (later_than c log)
    = settle_events (pr_queue run) (fw_phase st) (fw_cursor st) (later_than c new)"
    using Cons.prems(2) by (simp add: log settle_events_append)
  show ?case
  proof (cases "settle_events (pr_queue run) (fw_phase st) (fw_cursor st) (later_than c new)")
    case (Inl s)
    then have "settle_events (pr_queue run) ph c (later_than c (log @ rest)) = Inl s"
      using whole by (simp add: settle_events_append)
    with Inl show ?thesis unfolding last by (simp add: x settle_poll_def read)
  next
    case (Inr r)
    obtain ph1 c1 where r: "r = (ph1, c1)" by (cases r)
    have "\<not> pr_started run + so_max_run so \<le> now" using Cons.prems(4) x by auto
    with Inr r obtain w d where w: "settle_poll so run now (PollEvents (later_than (fw_cursor st) log)) st = SettleWait w d"
        "fw_phase w = ph1" "fw_cursor w = c1"
      by (simp add: settle_poll_def read Let_def)
    have pos: "settle_events (pr_queue run) ph c (later_than c log) = Inr (fw_phase w, fw_cursor w)"
      using whole Inr r w by simp
    have last_eq: "last ((now0, seen) # x # polls) = last ((now, log) # polls)" by (simp add: x)
    have poll_eq: "settle_polls so run (x # polls) st = settle_polls so run polls w" using w(1) by (simp add: x)
    from Cons.prems(3,4) have rest: "sorted_wrt prefix (log # map snd polls)" "\<forall>x\<in>set polls. fst x < pr_started run + so_max_run so"
      by (simp_all add: x)
    show ?thesis unfolding last_eq poll_eq by (rule Cons.IH [OF Cons.prems(1) [unfolded last_eq] pos rest])
  qed
qed

text \<open>
  C27: The result of a planned run does not depend on when its log is read. However the polls
  slice a growing log before the deadline, the settlement is that of reading the events after
  the marker once, and while there is none the position is that of the one reading.
\<close>

theorem settlement_ignores_polls:
  assumes "settle_start so run = Inr st" "polls \<noteq> []" "sorted_wrt (<) (map ev_seq (snd (last polls)))"
    and "sorted_wrt prefix (map snd polls)" "\<forall>x\<in>set polls. fst x < pr_started run + so_max_run so"
  shows "case settle_events (pr_queue run) (fw_phase st) (fw_cursor st) (later_than (fw_cursor st) (snd (last polls))) of
      Inl s \<Rightarrow> settle_polls so run polls st = SettleDone s
    | Inr (ph, c) \<Rightarrow> \<exists>w d. settle_polls so run polls st = SettleWait w d \<and> fw_phase w = ph \<and> fw_cursor w = c"
  using polls_from_seen [of 0 "[]" polls run "fw_phase st" "fw_cursor st" st so] assms
  by (cases st) simp

text \<open>A run that was queued, dispatched, and paused by a limit before it completed.\<close>

definition log_event :: "int \<Rightarrow> string \<Rightarrow> (string \<times> json) list \<Rightarrow> session_event" where
  "log_event seq type d = \<lparr>ev_session = ''s'', ev_seq = seq, ev_time = seq, ev_type = type, ev_data = JObj d, ev_opts = plain_opts\<rparr>"

definition limited_log :: "session_event list" where
  "limited_log =
     [log_event 1 ''planner/run-started'' [], log_event 2 ''turn/stopped'' [(''reason'', JStr ''aborted'')],
      log_event 3 ''queue/dispatched'' [(''queueId'', JStr ''q'')], log_event 4 ''turn/started'' [],
      log_event 5 ''turn/stopped'' [(''reason'', JStr ''error''), (''retry'', JObj [(''resumeAt'', JNum 9)])],
      log_event 6 ''turn/started'' [], log_event 7 ''turn/stopped'' [(''reason'', JStr ''completed'')]]"

definition queued_run :: planner_run where
  "queued_run = (started_run ''r'' 0 False False)\<lparr>pr_session := Some ''s'', pr_marker := Some 1, pr_queue := Some ''q''\<rparr>"

theorem settlement_ignores_polls_witness:
  "\<exists>st. settle_start default_settle_options queued_run = Inr st
     \<and> settle_polls default_settle_options queued_run [(1, take 2 limited_log), (2, take 5 limited_log), (3, limited_log)] st
       = SettleDone settled_ok"
proof -
  let ?polls = "[(1, take 2 limited_log), (2, take 5 limited_log), (3, limited_log)]"
  obtain st where st: "settle_start default_settle_options queued_run = Inr st"
      "fw_cursor st = 1" "fw_phase st = PhaseQueued"
    by (simp add: settle_start_def queued_run_def started_run_def)
  have read: "settle_events (pr_queue queued_run) PhaseQueued 1 (later_than 1 (snd (last ?polls))) = Inl settled_ok"
    by code_simp
  have "sorted_wrt (<) (map ev_seq (snd (last ?polls)))" by code_simp
  moreover have "sorted_wrt prefix (map snd ?polls)" by (simp add: take_is_prefix) (simp add: limited_log_def)
  moreover have "\<forall>x\<in>set ?polls. fst x < pr_started queued_run + so_max_run default_settle_options" by code_simp
  ultimately show ?thesis using settlement_ignores_polls [OF st(1), of ?polls] st read by simp
qed

end
