(* ===== verification/PlannerRuns.thy ===== *)
theory PlannerRuns
  imports PlannerPace PlannerSettle
begin

text \<open>
  What survives the end of a process of the planner, and four runs in which the service does
  not do what its comments say.
\<close>

section \<open>Restarts\<close>

text \<open>
  C26: A restart of the planner loses nothing. In every interleaving, whenever the process
  ends between two of its steps, the next one loads exactly the tasks that were there, each
  with its schedule, state and history; only a task without a Space is given the Space of its
  project when that resolves now.
\<close>

theorem restart_keeps_tasks:
  assumes "opts_ok opts" "(planner_step opts ok)\<^sup>*\<^sup>* new_planner p" "set (jm_keys (pl_docs p)) \<subseteq> set spaces"
  shows "set (pl_listed (boot opts spaces p)) = set (pl_listed p)
    \<and> (\<forall>i\<in>set (pl_listed p). task_in p i \<noteq> None
         \<and> task_in (boot opts spaces p) i = map_option (assigned opts) (task_in p i))"
proof -
  have d: "durable opts p" using assms(1,2) by (rule durable_reachable)
  then have "\<forall>i\<in>set (pl_listed p). task_in p i \<noteq> None" by (simp add: durable_def core_def)
  with boot_get [OF d assms(1,3)] boot_listed [OF d assms(1,3)] show ?thesis by simp
qed

definition space_opts :: planner_opts where
  "space_opts = example_opts\<lparr>po_spaces := True, po_settle := True\<rparr>"

definition space_input :: "string \<Rightarrow> task_input" where
  "space_input s = (example_input (once_input 10))\<lparr>ti_space := Some s\<rparr>"

definition restart_run :: "(int \<times> planner_event) list" where
  "restart_run =
     [(0, EvCreate ''a'' (space_input ''S'')), (0, EvCreate ''b'' (example_input (once_input 20))), (10, EvTick),
      (10, EvTickNext 10 [''a''] None ''r1''),
      (11, EvAdmit 0 ''a'' (started_run ''r1'' 10 False False) (Inr (no_outcome\<lparr>uo_session := Some ''s''\<rparr>)))]"

theorem restart_keeps_tasks_witness:
  "\<exists>p. planner_path space_opts (\<lambda>_ _. True) restart_run new_planner = Some p
     \<and> set (pl_listed (boot space_opts [''S''] p)) = {''a'', ''b''}
     \<and> map_option tk_last_session (task_in (boot space_opts [''S''] p) ''a'') = Some (Some ''s'')"
proof -
  let ?path = "planner_path space_opts (\<lambda>_ _. True) restart_run new_planner"
  have "map_option (\<lambda>p. (pl_listed p, jm_keys (pl_docs p), map_option tk_last_session (task_in p ''a''))) ?path
    = Some ([''a'', ''b''], [''S''], Some (Some ''s''))" by code_simp
  then obtain p where p: "?path = Some p" "pl_listed p = [''a'', ''b'']" "jm_keys (pl_docs p) = [''S'']"
      "map_option tk_last_session (task_in p ''a'') = Some (Some ''s'')" by auto
  have "opts_ok space_opts" by code_simp
  from restart_keeps_tasks [OF this planner_path_steps [OF p(1)], of "[''S'']"] p(2,3)
  have r: "set (pl_listed (boot space_opts [''S''] p)) = {''a'', ''b''}"
    "task_in (boot space_opts [''S''] p) ''a'' = map_option (assigned space_opts) (task_in p ''a'')"
    by simp_all
  have "tk_last_session (assigned space_opts t) = tk_last_session t" for t by (simp add: assigned_def)
  with r(2) p(4) have "map_option tk_last_session (task_in (boot space_opts [''S''] p) ''a'') = Some (Some ''s'')"
    by (cases "task_in p ''a''") simp_all
  with p(1) r(1) show ?thesis by blast
qed

section \<open>Where the service falls short\<close>

text \<open>
  \<open>save\<close> writes one document after the other, Spaces in the order in which they came up. When
  a task moves to a project of another Space, the document of the old Space is written without
  it before the new one has it: a process that ends in between loses the task.
\<close>

definition before_move :: "(int \<times> planner_event) list" where
  "before_move = [(0, EvCreate ''a'' (space_input ''S'')), (0, EvCreate ''b'' (space_input ''T''))]"

definition moved_task :: "planner \<Rightarrow> planner" where
  "moved_task p =
     on_task (patched_task space_opts 1 (no_patch\<lparr>tp_project := Some ''q'', tp_space := Some ''T''\<rparr>) (CadenceAt 10)) ''a'' p"

lemma crash_between_documents_loses_task:
  "map_option (\<lambda>p. (pl_listed p, jm_keys (loaded_tasks space_opts [''S'', ''T''] (save_upto 1 (moved_task p)))))
     (planner_path space_opts (\<lambda>_ _. True) before_move new_planner)
   = Some ([''a'', ''b''], [''b''])"
  by code_simp

text \<open>
  A one-shot that is due while a manual run of it is active is skipped, but its clock is not
  moved on: every tick adds a skipped run, until only these are left in the history.
\<close>

definition blocked_one_shot :: "nat \<Rightarrow> (int \<times> planner_event) list" where
  "blocked_one_shot n =
     [(0, EvCreate ''a'' (example_input (once_input 10))), (5, EvRunNow ''a'' ''m'')]
     @ concat (map (\<lambda>k. let t = 10 + 15000 * int k in
         [(t, EvTick), (t, EvTickNext t [''a''] None (CHR ''k'' # number_text (int k))), (t, EvTickNext t [] None ''x'')]) [0..<n])"

lemma one_shot_skips_pile_up:
  "map_option (\<lambda>p. map_option (\<lambda>t. (map (\<lambda>r. pr_status r = PlannedSkipped) (tk_history t), tk_next t)) (task_in p ''a''))
     (planner_path example_opts (\<lambda>_ _. True) (blocked_one_shot 3) new_planner)
   = Some (Some ([True, True, True, False], Some 10))"
  by code_simp

text \<open>
  A service that is stopped and started before the aborted observer has resumed does not
  follow the run: \<open>start\<close> still sees it in flight, and the observer then lets go of it.
\<close>

definition observed_run :: planner_run where
  "observed_run = (started_run ''r1'' 10 False False)\<lparr>pr_session := Some ''s''\<rparr>"

definition quick_restart :: "(int \<times> planner_event) list" where
  "quick_restart = restart_run @
     [(12, EvFollow 0 ''a'' observed_run), (13, EvStop), (13, EvStart),
      (13, EvObserve 0 ''a'' observed_run 0 (Inl ''detached'')), (14, EvSettled 0 ''a'')]"

lemma quick_restart_orphans_run:
  "map_option (\<lambda>p. (pl_timer p, map_option (\<lambda>t. map pr_status (tk_history t)) (task_in p ''a''), filter (\<lambda>j. \<not> is_tick j) (pl_jobs p)))
     (planner_path space_opts (\<lambda>_ _. True) quick_restart new_planner)
   = Some (True, Some [PlannedRunning], [])"
  by code_simp

text \<open>The shortest interval of a cron cadence is judged by its next two occurrences only.\<close>

definition pair_lib :: cron_lib where
  "pair_lib = \<lparr>cl_zone = (\<lambda>_. True), cl_parse = (\<lambda>_ _. True),
     cl_next = (\<lambda>_ _ t. Some (if t mod 86400000 < 60000 then t - t mod 86400000 + 60000 else t - t mod 86400000 + 86400000))\<rparr>"

lemma fast_cron_accepted:
  "validate_cron pair_lib 1000000 60 ''0,1 0 * * *'' ''UTC''
   \<longleftrightarrow> \<not> validate_cron pair_lib 10 60 ''0,1 0 * * *'' ''UTC''"
  "occurrences pair_lib ''0,1 0 * * *'' ''UTC'' 30000 3 = [60000, 86400000, 86460000]"
  by code_simp+

end
