(* ===== verification/Spec2Isabelle.thy ===== *)
theory Spec2Isabelle
  imports Permissions ControlSystem Outbox Operations WindowController KernelLaws IdentityRules
    WorkflowLayers MonitoringAlerts SessionEvidence DurableMutation PlannerRuns
begin

text \<open>
  A verification library of the server core of Polyth: the packages that decide who may do
  what, that keep the durable record of every agent session, and that start work on their
  own. Paths are relative to src/packages. Every definition is translated from the file its
  theory names; PROJECT.json gives the lines.

  \<^bold>\<open>The program and its parts.\<close> Polyth is a server on which people run coding agents. The
  \<^emph>\<open>control plane\<close> is a database that says which Spaces, people and resources exist, who may
  reach a resource, and which events other packages still have to be told. The
  \<^emph>\<open>session store\<close> is a second database with one append-only event log per agent session,
  the durable operations that change a runtime, the delivery queue, and what was observed of
  the runtime. \<^emph>\<open>Permissions\<close> decide on the tool calls of an agent. \<^emph>\<open>Identity\<close> keeps signed-in
  sessions and the settings of accounts. \<^emph>\<open>Limit windows\<close> and \<^emph>\<open>monitoring\<close> act without a person
  present, the \<^emph>\<open>planner\<close> sends prompts at planned times, the \<^emph>\<open>kernel\<close> composes packages into a server, and the \<^emph>\<open>workflow\<close> graph orders the
  nodes of a workflow. They meet in few places: sharing and provisioning write the audit log
  that the outbox delivers; access decisions read the rows that the registry writes; the
  session store receives what a runtime replied and what the registry says about deletion.

  \<^bold>\<open>Theories, in the order of the code.\<close>
  \<^item> Prelude, JsMap, Revisions: error codes, JSON values, the JavaScript \<open>Map\<close>, the locales
    \<open>machine\<close> (an invariant of a step relation), \<open>key_store\<close> (lookup after update) and the
    contract of revision-checked stores.
  \<^item> Permissions, ApprovalDefaults: permissions/src/index.ts (patterns, \<open>evaluate\<close>,
    automatic-approval levels through the parents of a chat, trust receipts) and
    approvalDefaults.ts (the defaults of a Space and its projects, with their file).
  \<^item> ControlPlane, Resources, ResourceLifecycle, ResourceAccess, ResourceSharing, RegistryInv,
    SharingRules, ControlSystem: control-plane/src. \<open>control_db\<close> holds the tables as lists of
    rows; \<open>transaction\<close> rolls back. Provisioning is a saga over two databases (\<open>begin\<close>,
    \<open>recordDomainReady\<close>, \<open>activate\<close> or \<open>abortMissingDomain\<close>, \<open>quarantineUnknown\<close>); \<open>transition\<close> is
    the lifecycle; \<open>access\<close> walks up the parents; \<open>share\<close> replaces the people list.
    ControlSystem closes them under any interleaving.
  \<^item> Outbox, Operations: delivery of audit events under a lease, and operations that run once
    under an idempotency key.
  \<^item> LimitWindows, WindowPlan, WindowDecide, WindowModels, WindowController: limit-windows/src
    (windows.ts, schedule.ts and plan.ts, decide.ts and store.ts, models.ts, controller.ts and
    the routes of a source) with the source families of usage/src/limitSources.ts.
  \<^item> Kernel, KernelRules, KernelLaws: kernel/src/index.ts, the tree of scopes with providers,
    listeners, effects and contributions, disposal, plugin loading, profiles.
  \<^item> Identity, IdentitySessions, IdentitySettings, IdentityRules: identity/src/sessions.ts,
    limits.ts, guardrails.ts, permissions.ts.
  \<^item> WorkflowGraph, WorkflowLayers: workflow/src/graph.ts.
  \<^item> MonitoringPolicy, MonitoringHistory, MonitoringIncidents, MonitoringAlerts:
    monitoring/src/policy.ts and service.ts, history.ts, incidents.ts, alerts.ts.
  \<^item> Planner, PlannerService, PlannerSettle: planner/src (model.ts and cron.ts; the service of
    index.ts; runSettlement.ts). A promise of the map \<open>running\<close> is a number, a job of the state
    is the rest of a call. PlannerRules keeps the documents equal to the tasks in memory,
    PlannerPace bounds how often the clock starts a task (its locale \<open>pace\<close> is interpreted for
    intervals and for one-shots), PlannerRuns holds restarts and the runs behind findings.
  \<^item> SessionLog: session/src/history.ts and the pure selectors of index.ts (rewinds, pinned
    messages, compaction). SessionStore: rows, results and durable operations; SessionQueue:
    the delivery queue and the answers to requests; SessionEpoch: restart, the replacement of
    a runtime, reconciliation, deletion; SessionBatch: batches, copies, read positions;
    SessionObserve: ingestion of observations (all of session/src/index.ts).
  \<^item> SessionRules, SessionSafety, SessionRuns, SessionEpochRules, SessionEvidence: what holds of
    every run of the session store. DurableMutation: \<open>executeDurableRuntimeMutation\<close>.

  \<^bold>\<open>How code becomes definitions.\<close>
  \<^item> A \<open>TypeScript\<close> interface is a record, a union of literals a datatype. Clauses of the code
    that reject values outside their type are the types here. Optional fields are options;
    \<open>nullish\<close> is the operator \<open>??\<close>.
  \<^item> An SQL table is the list of its rows in \<open>rowid\<close> order; a statement is a filter, a map or an
    append on it. Columns that only repeat others are left out. A transaction is a function
    into a sum: \<open>Inl\<close> is the error, and the caller keeps the old state.
  \<^item> An \<open>async\<close> function is cut at its awaits. Each piece runs uninterrupted; what it waits for
    is a task of the state, and what the outside answers is an argument of the piece that
    receives it. Inductive step relations let the pieces of all calls interleave freely.
  \<^item> The clock is an argument; one operation reads it once. Random ids are arguments. Instants
    and lengths are integers of milliseconds; usage shares are rationals; loads and percentages
    in the history of a machine are whole hundredths. Rounding of floating point numbers is not
    modelled, and numeric strings are read in plain decimal.
  \<^item> Code that is not part of the repository is a parameter: the digest (\<open>sha256\<close>), the hash of
    a token, the time zone database, the consumer of an audit event, the setup of a plugin,
    the normalizers the host hands to the identity package, the runtime that a background
    mutation calls, the routes to a model, cron-parser, and the runner of a planned prompt.
  \<^item> Files are the JSON value that is stored; a read is missing, failed or a value.
  \<^item> Character classes cover one-byte characters. Texts shown to people are modelled where the
    code reads them back; in the message of a fenced operation the dash is written as a hyphen.

  \<^bold>\<open>Bounds and fuel.\<close> Where the code has a bound the model has the same one: 64 chats for an
  approval level and 32 parents for an access decision, 48 hourly windows and 9 day offsets in a
  schedule, 2000 events in a batch. Where the code loops without a bound the function is total
  with a fuel that is proved or chosen to be enough: \<open>redact\<close> consumes a character for each unit
  of length + 1, \<open>dispose\<close> descends at most as deep as scopes were ever created (\<open>kn_next\<close>), and
  \<open>frontiers\<close> places at least one node per round, so length + 1 rounds suffice
  (theorem \<open>layering_terminates\<close>).

  \<^bold>\<open>What the lemmas show.\<close> For each component: the invariant of its state and that every
  operation keeps it; what the operation returns on each branch; that an operation which throws
  changes nothing. Over these, the properties: an access decision is the best level of a
  rule-by-rule specification; resource rows and sagas agree in every reachable registry;
  deletion is final; events leave the outbox in order; a settled operation stays settled, one
  without a replay contract is claimed once, and a background mutation calls its runtime once;
  session logs are gap-free and the open requests are exactly those the log leaves open; a
  reserved queue item is carried by exactly one operation; an observed revision reaches the log
  once, snapshots can be replayed, and evidence of a replaced runtime is refused; the daily
  budget of automatic starts holds over all histories; signed-in sessions end; counted uses stay
  within their cap; a disposed scope leaves nothing behind; monitoring acts within its policy;
  planned prompts start as often as planned and survive restarts.
  Counterexamples found on the way are lemmas next to the component and listed as findings.

  \<^bold>\<open>Interfaces.\<close> Where components rely on each other the contract is a locale, interpreted on the
  model: \<open>machine\<close> for every step relation, \<open>key_store\<close> for the stores with keys, \<open>store_invariant\<close>
  for what the operations of the session store do to its rows (one interpretation per
  invariant, so that each operation is visited once).

  \<^bold>\<open>Not modelled.\<close> HTTP routes, process control and network I/O (server, harness-runtime, the
  agent back ends and collectors); opening and migrating databases, storage leases and watches;
  full-text search; passwords, passkeys and recovery codes (cryptography); the web, desktop and
  mobile applications; the feature packages above this core. Termination of asynchronous calls
  is not claimed: a piece whose answer never arrives stays in the state.
\<close>

end
